(* ===== verification/Buffers.thy ===== *)
theory Buffers
  imports Main "HOL-Library.Word"
begin

text \<open>
  The shared prelude: machine integers, byte buffers and the little-endian field access
  that every on-disk format of the program uses.

  A C buffer \<open>unsigned char b[n]\<close> is a \<open>byte list\<close> of length \<open>n\<close>; a pointer
  \<open>b + off\<close> is the buffer together with the offset.  \<open>memcpy (b + off, src, n)\<close> is
  \<open>blit off src b\<close> and the \<open>n\<close> bytes that \<open>memcmp\<close> or a \<open>memcpy\<close> reads at
  \<open>b + off\<close> are \<open>bytes_at off n b\<close>.  The buffer operations keep the length of the buffer
  they write, so a write past its end (undefined in C) has no effect here; every theorem
  states the lengths it needs.
\<close>

unbundle bit_operations_syntax

type_synonym byte = "8 word"
type_synonym u16 = "16 word"
type_synonym u32 = "32 word"
type_synonym u64 = "64 word"

named_theorems buf_simps \<open>lengths, slices and reads of updated buffers\<close>

section \<open>Machine integers\<close>

lemma unat_byte_bound: "unat (b :: byte) < 256"
  using unsigned_less [of b] by simp

lemma unat_u16_bound: "unat (v :: u16) < 65536"
  using unsigned_less [of v] by simp

lemma unat_u32_bound: "unat (w :: u32) < 4294967296"
  using unsigned_less [of w] by simp

lemma unat_u64_bound: "unat (x :: u64) < 18446744073709551616"
  using unsigned_less [of x] by simp

lemma unat_ucast_widen [simp]:
  "unat (ucast (b :: byte) :: u16) = unat b" "unat (ucast (b :: byte) :: u32) = unat b"
  "unat (ucast (b :: byte) :: u64) = unat b" "unat (ucast (v :: u16) :: u32) = unat v"
  "unat (ucast (v :: u16) :: u64) = unat v" "unat (ucast (w :: u32) :: u64) = unat w"
  using unat_byte_bound [of b] unat_u16_bound [of v] unat_u32_bound [of w]
  by (simp_all add: unsigned_ucast_eq take_bit_nat_eq_self)

lemma unat_of_nat_small:
  "n < 65536 \<Longrightarrow> unat (of_nat n :: u16) = n"
  "n < 4294967296 \<Longrightarrow> unat (of_nat n :: u32) = n"
  "n < 18446744073709551616 \<Longrightarrow> unat (of_nat n :: u64) = n"
  by (simp_all add: unat_of_nat take_bit_nat_eq_self)

lemma unat_add_no_wrap:
  "unat (a :: u32) + unat b < 2 ^ 32 \<Longrightarrow> unat (a + b) = unat a + unat b"
  "unat (c :: u64) + unat d < 2 ^ 64 \<Longrightarrow> unat (c + d) = unat c + unat d"
  by (simp_all add: unat_word_ariths)

section \<open>Slices and block writes\<close>

definition bytes_at :: "nat \<Rightarrow> nat \<Rightarrow> 'a list \<Rightarrow> 'a list" where
  "bytes_at off n xs = take n (drop off xs)"

definition blit :: "nat \<Rightarrow> 'a list \<Rightarrow> 'a list \<Rightarrow> 'a list" where
  "blit off src dst = take off dst @ take (length dst - off) src @ drop (off + length src) dst"

lemma length_blit [simp, buf_simps]: "length (blit off src dst) = length dst"
  by (auto simp: blit_def min_def)

lemma length_bytes_at [simp, buf_simps]: "length (bytes_at off n xs) = min n (length xs - off)"
  by (simp add: bytes_at_def)

lemma nth_bytes_at: "i < n \<Longrightarrow> off + i < length xs \<Longrightarrow> bytes_at off n xs ! i = xs ! (off + i)"
  by (simp add: bytes_at_def)

lemma nth_blit:
  assumes "i < length dst"
  shows "blit off src dst ! i =
    (if off \<le> i \<and> i < off + length src then src ! (i - off) else dst ! i)"
  using assms by (auto simp: blit_def nth_append min_def)

lemma nth_blit_out [buf_simps]:
  "i < off \<or> off + length src \<le> i \<Longrightarrow> i < length dst \<Longrightarrow> blit off src dst ! i = dst ! i"
  by (auto simp: nth_blit)

lemma nth_blit_in:
  "off \<le> i \<Longrightarrow> i < off + length src \<Longrightarrow> i < length dst \<Longrightarrow> blit off src dst ! i = src ! (i - off)"
  by (simp add: nth_blit)

lemma bytes_at_eqI:
  assumes "length xs = length ys"
    and "\<And>i. off \<le> i \<Longrightarrow> i < off + n \<Longrightarrow> i < length xs \<Longrightarrow> xs ! i = ys ! i"
  shows "bytes_at off n xs = bytes_at off n ys"
  using assms by (auto intro!: nth_equalityI simp: nth_bytes_at)

lemma bytes_at_blit_same [buf_simps]:
  "length src = n \<Longrightarrow> off + n \<le> length dst \<Longrightarrow> bytes_at off n (blit off src dst) = src"
  by (simp add: bytes_at_def blit_def min_def)

lemma bytes_at_blit_out [buf_simps]:
  "o' + n \<le> off \<or> off + length src \<le> o' \<Longrightarrow> bytes_at o' n (blit off src dst) = bytes_at o' n dst"
  by (rule bytes_at_eqI) (auto simp: nth_blit)

lemma bytes_at_blit_within:
  assumes "off \<le> o'" and "o' + n \<le> off + length src" and "off + length src \<le> length dst"
  shows "bytes_at o' n (blit off src dst) = bytes_at (o' - off) n src"
proof (rule nth_equalityI)
  show "length (bytes_at o' n (blit off src dst)) = length (bytes_at (o' - off) n src)"
    using assms by simp
next
  fix i
  assume i: "i < length (bytes_at o' n (blit off src dst))"
  then have "bytes_at o' n (blit off src dst) ! i = src ! (o' + i - off)"
    using assms by (simp add: nth_bytes_at nth_blit)
  also have "\<dots> = bytes_at (o' - off) n src ! i"
    using assms i by (simp add: nth_bytes_at)
  finally show "bytes_at o' n (blit off src dst) ! i = bytes_at (o' - off) n src ! i" .
qed

lemma blit_bytes_at_id: "off + n \<le> length dst \<Longrightarrow> blit off (bytes_at off n dst) dst = dst"
  by (auto intro!: nth_equalityI simp: nth_blit nth_bytes_at)

lemma blit_blit_same:
  "length src = length src' \<Longrightarrow> blit off src (blit off src' dst) = blit off src dst"
  by (auto intro!: nth_equalityI simp: nth_blit)

lemma blit_commute:
  "off + length src \<le> off' \<Longrightarrow> blit off src (blit off' src' dst) = blit off' src' (blit off src dst)"
  by (auto intro!: nth_equalityI simp: nth_blit)

lemma bytes_at_bytes_at: "bytes_at a n (bytes_at b m xs) = bytes_at (b + a) (min n (m - a)) xs"
proof (rule nth_equalityI)
  fix i
  assume "i < length (bytes_at a n (bytes_at b m xs))"
  then have "i < n" "a + i < m" "b + a + i < length xs" by auto
  then show "bytes_at a n (bytes_at b m xs) ! i = bytes_at (b + a) (min n (m - a)) xs ! i"
    by (simp add: nth_bytes_at add.assoc)
qed (auto simp: min_def)

lemma bytes_at_full: "length xs = n \<Longrightarrow> bytes_at 0 n xs = xs"
  by (simp add: bytes_at_def)

lemma bytes_at_append_left: "off + n \<le> length xs \<Longrightarrow> bytes_at off n (xs @ ys) = bytes_at off n xs"
  by (simp add: bytes_at_def)

lemma bytes_at_append_right:
  "length xs \<le> off \<Longrightarrow> bytes_at off n (xs @ ys) = bytes_at (off - length xs) n ys"
  by (simp add: bytes_at_def)

lemma bytes_at_replicate [buf_simps]:
  "off + n \<le> m \<Longrightarrow> bytes_at off n (replicate m x) = replicate n x"
  by (simp add: bytes_at_def)

lemma bytes_at_sub_eq:
  assumes "bytes_at a m xs = bytes_at a m ys" and "a \<le> b" and "b + n \<le> a + m"
  shows "bytes_at b n xs = bytes_at b n ys"
proof -
  have "bytes_at b n zs = bytes_at (b - a) n (bytes_at a m zs)" for zs :: "'a list"
    using assms(2,3) by (simp add: bytes_at_bytes_at)
  then show ?thesis using assms(1) by simp
qed

section \<open>Little-endian fields\<close>

text \<open>
  The bytes a little-endian store writes, least significant first, and the value the
  matching load assembles.  The loads read at \<open>source + off\<close>.
\<close>

definition le16_bytes :: "u16 \<Rightarrow> byte list" where
  "le16_bytes v = [ucast v, ucast (drop_bit 8 v)]"

definition le32_bytes :: "u32 \<Rightarrow> byte list" where
  "le32_bytes v =
    [ucast v, ucast (drop_bit 8 v), ucast (drop_bit 16 v), ucast (drop_bit 24 v)]"

definition read_le16 :: "byte list \<Rightarrow> nat \<Rightarrow> u16" where
  "read_le16 s off = (let source = drop off s in
     ucast (source ! 0) OR push_bit 8 (ucast (source ! 1)))"

definition read_le32 :: "byte list \<Rightarrow> nat \<Rightarrow> u32" where
  "read_le32 s off = (let source = drop off s in
     ucast (source ! 0) OR push_bit 8 (ucast (source ! 1)) OR
     push_bit 16 (ucast (source ! 2)) OR push_bit 24 (ucast (source ! 3)))"

definition write_le16 :: "nat \<Rightarrow> u16 \<Rightarrow> byte list \<Rightarrow> byte list" where
  "write_le16 off v s = blit off (le16_bytes v) s"

definition write_le32 :: "nat \<Rightarrow> u32 \<Rightarrow> byte list \<Rightarrow> byte list" where
  "write_le32 off v s = blit off (le32_bytes v) s"

text \<open>The 64-bit accessors are two 32-bit ones, low word first.\<close>

definition le64_bytes :: "u64 \<Rightarrow> byte list" where
  "le64_bytes v = le32_bytes (ucast v) @ le32_bytes (ucast (drop_bit 32 v))"

definition read_le64 :: "byte list \<Rightarrow> nat \<Rightarrow> u64" where
  "read_le64 s off = ucast (read_le32 s off) OR push_bit 32 (ucast (read_le32 s (off + 4)))"

definition write_le64 :: "nat \<Rightarrow> u64 \<Rightarrow> byte list \<Rightarrow> byte list" where
  "write_le64 off v s =
    write_le32 (off + 4) (ucast (drop_bit 32 v)) (write_le32 off (ucast v) s)"

definition write_u8 :: "nat \<Rightarrow> byte \<Rightarrow> byte list \<Rightarrow> byte list" where
  "write_u8 off v s = blit off [v] s"

lemma length_le_bytes [simp]:
  "length (le16_bytes v) = 2" "length (le32_bytes w) = 4" "length (le64_bytes x) = 8"
  by (simp_all add: le16_bytes_def le32_bytes_def le64_bytes_def)

lemma length_writes [simp, buf_simps]:
  "length (write_le16 off v s) = length s" "length (write_le32 off w s) = length s"
  "length (write_le64 off x s) = length s" "length (write_u8 off b s) = length s"
  by (simp_all add: write_le16_def write_le32_def write_le64_def write_u8_def)

text \<open>
  The contract of a fixed-width field: what a codec of this kind promises.  The lemmas the
  formats use are proved once from it.
\<close>

locale field_codec =
  fixes rd :: "byte list \<Rightarrow> nat \<Rightarrow> 'v"
    and enc :: "'v \<Rightarrow> byte list"
    and width :: nat
  assumes length_enc: "length (enc v) = width"
    and rd_enc: "rd (enc v) 0 = v"
    and rd_bytes_at: "rd s off = rd (bytes_at off width s) 0"
    and enc_rd: "off + width \<le> length s \<Longrightarrow> enc (rd s off) = bytes_at off width s"
begin

lemma rd_blit_same: "off + width \<le> length s \<Longrightarrow> rd (blit off (enc v) s) off = v"
  by (subst rd_bytes_at) (simp add: bytes_at_blit_same length_enc rd_enc)

lemma rd_blit_out:
  "off + width \<le> off' \<or> off' + length src \<le> off \<Longrightarrow> rd (blit off' src s) off = rd s off"
  by (metis rd_bytes_at bytes_at_blit_out)

lemma rd_cong: "bytes_at off width s = bytes_at off width t \<Longrightarrow> rd s off = rd t off"
  by (metis rd_bytes_at)

lemma write_read_id: "off + width \<le> length s \<Longrightarrow> blit off (enc (rd s off)) s = s"
  by (simp add: enc_rd blit_bytes_at_id)

lemma enc_inj: "enc v = enc w \<Longrightarrow> v = w"
  by (metis rd_enc)

lemma rd_inj:
  "off + width \<le> length s \<Longrightarrow> off + width \<le> length t \<Longrightarrow> rd s off = rd t off
    \<Longrightarrow> bytes_at off width s = bytes_at off width t"
  by (metis enc_rd)

end

lemma bytes_at_at_0: "bytes_at 0 n (bytes_at off n s) = bytes_at off n s"
  by (simp add: bytes_at_def)

lemma nth_drop_bytes_at: "i < n \<Longrightarrow> bytes_at off n s ! i = drop off s ! i"
  by (simp add: bytes_at_def)

lemma take_nth2: "2 \<le> length s \<Longrightarrow> take 2 s = [s ! 0, s ! 1]"
  by (rule nth_equalityI) (auto simp: less_Suc_eq numeral_2_eq_2)

lemma take_nth4: "4 \<le> length s \<Longrightarrow> take 4 s = [s ! 0, s ! 1, s ! 2, s ! 3]"
  by (rule nth_equalityI) (auto simp: less_Suc_eq numeral_eq_Suc)

lemma bit_beyond: "8 \<le> n \<Longrightarrow> \<not> bit (a :: byte) n" "32 \<le> n \<Longrightarrow> \<not> bit (c :: u32) n"
  by (auto dest: bit_imp_le_length)

lemma le16_bytes_join:
  "le16_bytes (ucast (a :: byte) OR push_bit 8 (ucast (b :: byte))) = [a, b]"
  unfolding le16_bytes_def by (auto intro!: bit_word_eqI simp: bit_simps bit_beyond)

lemma le32_bytes_join:
  "le32_bytes (ucast (a :: byte) OR push_bit 8 (ucast (b :: byte)) OR
      push_bit 16 (ucast (c :: byte)) OR push_bit 24 (ucast (d :: byte))) = [a, b, c, d]"
  unfolding le32_bytes_def by (auto intro!: bit_word_eqI simp: bit_simps bit_beyond)

lemma le16_join_bytes:
  "ucast (ucast v :: byte) OR push_bit 8 (ucast (ucast (drop_bit 8 v) :: byte)) = (v :: u16)"
  by (rule bit_word_eqI) (auto simp: bit_simps)

lemma le32_join_bytes:
  "ucast (ucast v :: byte) OR push_bit 8 (ucast (ucast (drop_bit 8 v) :: byte)) OR
    push_bit 16 (ucast (ucast (drop_bit 16 v) :: byte)) OR
    push_bit 24 (ucast (ucast (drop_bit 24 v) :: byte)) = (v :: u32)"
proof (rule bit_word_eqI)
  fix n
  assume "n < LENGTH(32)"
  then consider "n < 8" | "8 \<le> n" "n < 16" | "16 \<le> n" "n < 24" | "24 \<le> n" "n < 32"
    by fastforce
  then show "bit (ucast (ucast v :: byte) OR push_bit 8 (ucast (ucast (drop_bit 8 v) :: byte)) OR
      push_bit 16 (ucast (ucast (drop_bit 16 v) :: byte)) OR
      push_bit 24 (ucast (ucast (drop_bit 24 v) :: byte)) :: u32) n = bit v n"
    by cases (auto simp: bit_simps)
qed

lemma le64_join:
  "ucast (ucast v :: u32) OR push_bit 32 (ucast (ucast (drop_bit 32 v) :: u32)) = (v :: u64)"
  by (rule bit_word_eqI) (auto simp: bit_simps)

lemma le64_split:
  "ucast (ucast (a :: u32) OR push_bit 32 (ucast (b :: u32)) :: u64) = a"
  "ucast (drop_bit 32 (ucast (a :: u32) OR push_bit 32 (ucast (b :: u32)) :: u64)) = b"
  by (auto intro!: bit_word_eqI simp: bit_simps bit_beyond)

lemma read_le16_bytes_at: "read_le16 s off = read_le16 (bytes_at off 2 s) 0"
  by (simp add: read_le16_def bytes_at_def Let_def)

lemma read_le32_bytes_at: "read_le32 s off = read_le32 (bytes_at off 4 s) 0"
  by (simp add: read_le32_def bytes_at_def Let_def)

lemma bytes_at2_nth: "off + 2 \<le> length s \<Longrightarrow> bytes_at off 2 s = [drop off s ! 0, drop off s ! 1]"
  by (simp add: bytes_at_def take_nth2)

lemma bytes_at4_nth:
  "off + 4 \<le> length s \<Longrightarrow>
    bytes_at off 4 s = [drop off s ! 0, drop off s ! 1, drop off s ! 2, drop off s ! 3]"
  by (simp add: bytes_at_def take_nth4)

interpretation le16: field_codec read_le16 le16_bytes 2
proof unfold_locales
  show "read_le16 (le16_bytes v) 0 = v" for v
    by (simp add: read_le16_def le16_bytes_def le16_join_bytes)
  show "le16_bytes (read_le16 s off) = bytes_at off 2 s" if "off + 2 \<le> length s" for s off
    using that by (simp add: read_le16_def le16_bytes_join bytes_at2_nth)
qed (simp_all add: read_le16_bytes_at [symmetric])

interpretation le32: field_codec read_le32 le32_bytes 4
proof unfold_locales
  show "read_le32 (le32_bytes v) 0 = v" for v
    by (simp add: read_le32_def le32_bytes_def le32_join_bytes numeral_2_eq_2 numeral_3_eq_3)
  show "le32_bytes (read_le32 s off) = bytes_at off 4 s" if "off + 4 \<le> length s" for s off
    using that by (simp add: read_le32_def le32_bytes_join bytes_at4_nth)
qed (simp_all add: read_le32_bytes_at [symmetric])

lemma write_le64_blit: "off + 8 \<le> length s \<Longrightarrow> write_le64 off v s = blit off (le64_bytes v) s"
  by (auto intro!: nth_equalityI
      simp: write_le64_def write_le32_def le64_bytes_def nth_blit nth_append)

lemma bytes_at_split: "bytes_at off (m + n) s = bytes_at off m s @ bytes_at (off + m) n s"
  by (simp add: bytes_at_def take_add add.commute)

interpretation le64: field_codec read_le64 le64_bytes 8
proof unfold_locales
  fix s :: "byte list" and off
  have lo: "read_le32 s off = read_le32 (bytes_at off 8 s) 0"
    and hi: "read_le32 s (off + 4) = read_le32 (bytes_at off 8 s) 4"
    by (rule trans [OF le32.rd_bytes_at trans [OF _ le32.rd_bytes_at [symmetric]]];
        simp add: bytes_at_bytes_at)+
  then show "read_le64 s off = read_le64 (bytes_at off 8 s) 0"
    by (simp add: read_le64_def)
  show "le64_bytes (read_le64 s off) = bytes_at off 8 s" if "off + 8 \<le> length s"
    using that le32.enc_rd [of off s] le32.enc_rd [of "off + 4" s] bytes_at_split [of off 4 4 s]
    unfolding read_le64_def le64_bytes_def le64_split by simp
next
  fix v
  have "read_le32 (le64_bytes v) 0 = ucast v"
    by (metis bytes_at_append_left bytes_at_full le32.rd_enc le32.rd_bytes_at le64_bytes_def
        length_le_bytes(2) add_0 order_refl)
  moreover have "read_le32 (le64_bytes v) 4 = ucast (drop_bit 32 v)"
    by (metis bytes_at_append_right bytes_at_full diff_self_eq_0 le32.rd_enc le32.rd_bytes_at
        le64_bytes_def length_le_bytes(2) order_refl)
  ultimately show "read_le64 (le64_bytes v) 0 = v"
    by (simp add: read_le64_def le64_join)
qed simp

text \<open>A single byte is the smallest field; its offset must lie inside the buffer.\<close>

definition read_u8 :: "byte list \<Rightarrow> nat \<Rightarrow> byte" where
  "read_u8 s off = drop off s ! 0"

lemma read_u8_nth: "off < length s \<Longrightarrow> read_u8 s off = s ! off"
  by (simp add: read_u8_def)

interpretation u8: field_codec read_u8 "\<lambda>v. [v]" 1
proof unfold_locales
  show "read_u8 s off = read_u8 (bytes_at off 1 s) 0" for s off
    by (simp add: bytes_at_def read_u8_def)
  show "[read_u8 s off] = bytes_at off 1 s" if "off + 1 \<le> length s" for s off
    using that by (cases "drop off s") (auto simp: read_u8_def bytes_at_def)
qed (simp_all add: read_u8_def)

section \<open>Rewriting reads of a block-written buffer\<close>

text \<open>
  Unfolding the writes to \<open>blit\<close> and rewriting with \<open>buf_simps\<close> evaluates a read of a
  field that a sequence of writes left, whatever writes to other fields follow.
\<close>

lemmas writes_def = write_le16_def write_le32_def write_u8_def

lemmas [buf_simps] =
  le16.rd_blit_same le32.rd_blit_same le64.rd_blit_same u8.rd_blit_same
  le16.rd_blit_out le32.rd_blit_out le64.rd_blit_out u8.rd_blit_out

lemma reads_append:
  "off + 2 \<le> length s \<Longrightarrow> read_le16 (s @ t) off = read_le16 s off"
  "off + 4 \<le> length s \<Longrightarrow> read_le32 (s @ t) off = read_le32 s off"
  "off + 8 \<le> length s \<Longrightarrow> read_le64 (s @ t) off = read_le64 s off"
  by (auto intro!: le16.rd_cong le32.rd_cong le64.rd_cong bytes_at_append_left)

lemma read_zero32: "off + 4 \<le> n \<Longrightarrow> read_le32 (replicate n 0) off = 0"
  by (simp add: read_le32_def)

text \<open>The bytes of a C string literal, without its terminating NUL.\<close>

definition ascii :: "string \<Rightarrow> byte list" where
  "ascii s = map of_char s"

lemma length_ascii [simp]: "length (ascii s) = length s"
  by (simp add: ascii_def)

end
