(* ===== verification/Sha256_Correct.thy ===== *)
theory Sha256_Correct
  imports Sha256
begin

text \<open>
  Correctness of \<open>src/sha256.c\<close>: the rolling schedule computes the 64-word message schedule,
  an updated context represents the message fed so far however it was cut, and the digest is
  that of the padded message.
\<close>

section \<open>SHA-256 as the standard states it\<close>

definition big_sigma0 :: "u32 \<Rightarrow> u32" where
  "big_sigma0 x = word_rotr 2 x XOR word_rotr 13 x XOR word_rotr 22 x"
definition big_sigma1 :: "u32 \<Rightarrow> u32" where
  "big_sigma1 x = word_rotr 6 x XOR word_rotr 11 x XOR word_rotr 25 x"
definition small_sigma0 :: "u32 \<Rightarrow> u32" where
  "small_sigma0 x = word_rotr 7 x XOR word_rotr 18 x XOR drop_bit 3 x"
definition small_sigma1 :: "u32 \<Rightarrow> u32" where
  "small_sigma1 x = word_rotr 17 x XOR word_rotr 19 x XOR drop_bit 10 x"
definition ch_fun :: "u32 \<Rightarrow> u32 \<Rightarrow> u32 \<Rightarrow> u32" where
  "ch_fun x y z = (x AND y) XOR (NOT x AND z)"
definition maj_fun :: "u32 \<Rightarrow> u32 \<Rightarrow> u32 \<Rightarrow> u32" where
  "maj_fun x y z = (x AND y) XOR (x AND z) XOR (y AND z)"

text \<open>The message schedule, by its recurrence over all earlier words.\<close>

fun sha_W :: "byte list \<Rightarrow> nat \<Rightarrow> u32" where
  "sha_W blk t =
    (if t < 16 then read_be32 blk (t * 4)
     else small_sigma1 (sha_W blk (t - 2)) + sha_W blk (t - 7) +
          small_sigma0 (sha_W blk (t - 15)) + sha_W blk (t - 16))"

declare sha_W.simps [simp del]

definition spec_round :: "u32 \<Rightarrow> u32 \<Rightarrow> sha_vars \<Rightarrow> sha_vars" where
  "spec_round k w v = (case v of (a, b, c, d, e, f, g, h) \<Rightarrow>
    (let t1 = h + big_sigma1 e + ch_fun e f g + k + w; t2 = big_sigma0 a + maj_fun a b c
     in (t1 + t2, a, b, c, d + t1, e, f, g)))"

definition compress :: "u32 list \<Rightarrow> byte list \<Rightarrow> u32 list" where
  "compress s blk =
    add_vars s (fold (\<lambda>t. spec_round (round_constants ! t) (sha_W blk t)) [0..<64] (load_vars s))"

definition be64_bytes :: "u64 \<Rightarrow> byte list" where
  "be64_bytes v = map (\<lambda>i. ucast (drop_bit (8 * (7 - i)) v)) [0..<8]"

definition sha_pad :: "byte list \<Rightarrow> byte list" where
  "sha_pad m = m @ [0x80] @ replicate ((119 - length m mod 64) mod 64) 0 @
    be64_bytes (of_nat (8 * length m))"

text \<open>Absorbing the complete 64-byte blocks of a byte string, in order.\<close>

fun absorb :: "u32 list \<Rightarrow> byte list \<Rightarrow> u32 list" where
  "absorb s xs = (if length xs < 64 then s else absorb (compress s (take 64 xs)) (drop 64 xs))"

declare absorb.simps [simp del]

definition sha256_spec :: "byte list \<Rightarrow> byte list" where
  "sha256_spec m = concat (map be32_bytes (absorb initial_state (sha_pad m)))"

section \<open>Rotations and rounds\<close>

lemma rotate_right_rotr: "n < 32 \<Longrightarrow> rotate_right v n = word_rotr n v"
proof (rule bit_word_eqI)
  fix i
  assume "n < 32" and i: "i < LENGTH(32)"
  then have "(i + n) mod 32 = (if i + n < 32 then i + n else i + n - 32)"
    by (auto simp: mod_if)
  with \<open>n < 32\<close> i show "bit (rotate_right v n) i = bit (word_rotr n v) i"
    by (auto simp: rotate_right_def bit_simps bit_beyond(2) algebra_simps)
qed

lemma sha_round_spec: "sha_round k w v = spec_round k w v"
  by (cases v) (simp add: sha_round_def spec_round_def rotate_right_rotr big_sigma0_def
    big_sigma1_def ch_fun_def maj_fun_def Let_def)

section \<open>The rolling schedule\<close>

definition rolling :: "byte list \<Rightarrow> nat \<Rightarrow> u32 list \<Rightarrow> bool" where
  "rolling blk n sch \<longleftrightarrow> length sch = 16 \<and> (\<forall>t < n. n \<le> t + 16 \<longrightarrow> sch ! (t mod 16) = sha_W blk t)"

lemma rolling_at:
  "rolling blk n sch \<Longrightarrow> 16 \<le> n \<Longrightarrow> 0 < k \<Longrightarrow> k \<le> 16 \<Longrightarrow> sch ! ((n - k) mod 16) = sha_W blk (n - k)"
  by (auto simp: rolling_def)

lemma rolling_oldest:
  assumes "rolling blk n sch" and "16 \<le> n"
  shows "sch ! (n mod 16) = sha_W blk (n - 16)"
proof -
  have "n mod 16 = (n - 16) mod 16" using assms(2) by (metis le_mod_geq)
  then show ?thesis using rolling_at [OF assms, of 16] by simp
qed

lemma schedule_word_W:
  assumes roll: "rolling blk n sch"
  shows "schedule_word blk n sch = sha_W blk n"
proof (cases "n < 16")
  case True
  then show ?thesis by (simp add: schedule_word_def sha_W.simps [of blk n])
next
  case False
  then have n: "16 \<le> n" by simp
  have s0: "rotate_right x 7 XOR rotate_right x 18 XOR drop_bit 3 x = small_sigma0 x"
    and s1: "rotate_right x 17 XOR rotate_right x 19 XOR drop_bit 10 x = small_sigma1 x" for x
    by (simp_all add: small_sigma0_def small_sigma1_def rotate_right_rotr)
  have "schedule_word blk n sch = sch ! (n mod 16) + small_sigma0 (sch ! ((n - 15) mod 16)) +
      sch ! ((n - 7) mod 16) + small_sigma1 (sch ! ((n - 2) mod 16))"
    using False unfolding schedule_word_def Let_def s0 s1 by (simp only: if_False)
  also have "\<dots> = sha_W blk (n - 16) + small_sigma0 (sha_W blk (n - 15)) +
      sha_W blk (n - 7) + small_sigma1 (sha_W blk (n - 2))"
    using rolling_at [OF roll n, of 15] rolling_at [OF roll n, of 7] rolling_at [OF roll n, of 2]
      rolling_oldest [OF roll n] by simp
  also have "\<dots> = sha_W blk n"
    unfolding sha_W.simps [of blk n] using False by (simp only: if_False add_ac)
  finally show ?thesis .
qed

lemma mod16_distinct: "t < n \<Longrightarrow> n < t + 16 \<Longrightarrow> t mod 16 \<noteq> n mod (16 :: nat)"
  by (metis add.commute add_diff_cancel_left' dvd_imp_le less_diff_conv2 less_imp_le
      linorder_not_less mod_eq_dvd_iff_nat zero_less_diff)

lemma rolling_step:
  assumes "rolling blk n sch"
  shows "rolling blk (Suc n) (sch[n mod 16 := sha_W blk n])"
  unfolding rolling_def
proof (intro conjI allI impI)
  show "length (sch[n mod 16 := sha_W blk n]) = 16" using assms by (simp add: rolling_def)
next
  fix t
  assume t: "t < Suc n" "Suc n \<le> t + 16"
  show "sch[n mod 16 := sha_W blk n] ! (t mod 16) = sha_W blk t"
  proof (cases "t = n")
    case True
    then show ?thesis using assms by (simp add: rolling_def)
  next
    case False
    with t have "t < n" "n < t + 16" by auto
    with mod16_distinct [OF this] assms show ?thesis by (simp add: rolling_def nth_list_update_neq)
  qed
qed

lemma sha256_step_rolling:
  "rolling blk n sch \<Longrightarrow> sha256_step blk n (sch, v) =
    (sch[n mod 16 := sha_W blk n], spec_round (round_constants ! n) (sha_W blk n) v)"
  by (simp add: sha256_step_def schedule_word_W sha_round_spec Let_def)

lemma sha256_steps:
  "\<exists>sch. rolling blk n sch \<and> fold (sha256_step blk) [0..<n] (replicate 16 0, v) =
    (sch, fold (\<lambda>t. spec_round (round_constants ! t) (sha_W blk t)) [0..<n] v)"
proof (induction n)
  case 0
  show ?case by (simp add: rolling_def)
next
  case (Suc n)
  then obtain sch where sch: "rolling blk n sch"
    and fold: "fold (sha256_step blk) [0..<n] (replicate 16 0, v) =
      (sch, fold (\<lambda>t. spec_round (round_constants ! t) (sha_W blk t)) [0..<n] v)"
    by blast
  show ?case
    using rolling_step [OF sch]
    by (intro exI [of _ "sch[n mod 16 := sha_W blk n]"]) (simp add: fold sha256_step_rolling [OF sch])
qed

lemma transform_compress: "sha256_transform s blk = compress s blk"
  using sha256_steps [of blk 64 "load_vars s"]
  by (auto simp: sha256_transform_def compress_def)

lemma length_compress [simp]: "length (compress s blk) = 8"
  by (simp add: compress_def add_vars_def split: prod.splits)

section \<open>Absorbing blocks\<close>

lemma absorb_short [simp]: "length xs < 64 \<Longrightarrow> absorb s xs = s"
  by (simp add: absorb.simps)

lemma absorb_block: "length b = 64 \<Longrightarrow> absorb s (b @ xs) = absorb (compress s b) xs"
  by (subst absorb.simps) simp

lemma absorb_append:
  "64 dvd length xs \<Longrightarrow> absorb s (xs @ ys) = absorb (absorb s xs) ys"
proof (induction s xs rule: absorb.induct)
  case (1 s xs)
  show ?case
  proof (cases "length xs < 64")
    case True
    then have "xs = []" using 1(2) by (metis dvd_imp_le length_0_conv linorder_not_le gr0I)
    then show ?thesis by simp
  next
    case False
    then have "64 dvd length (drop 64 xs)" using 1(2) by (simp add: dvd_diff_nat)
    then have IH: "absorb (compress s (take 64 xs)) (drop 64 xs @ ys) =
        absorb (absorb (compress s (take 64 xs)) (drop 64 xs)) ys"
      using 1(1) False by blast
    have "absorb s (xs @ ys) = absorb (compress s (take 64 xs)) (drop 64 xs @ ys)"
      using False absorb_block [of "take 64 xs" s "drop 64 xs @ ys"]
      by (metis append_assoc append_take_drop_id length_take linorder_not_less min.absorb2)
    moreover have "absorb s xs = absorb (compress s (take 64 xs)) (drop 64 xs)"
      using False by (subst absorb.simps) simp
    ultimately show ?thesis using IH by simp
  qed
qed

lemma length_absorb: "length s = 8 \<Longrightarrow> length (absorb s xs) = 8"
  by (induction s xs rule: absorb.induct) (subst absorb.simps, simp)

section \<open>What a context represents\<close>

definition sha_rep :: "sha256_context \<Rightarrow> byte list \<Rightarrow> bool" where
  "sha_rep ctx m \<longleftrightarrow> (\<exists>full tail. m = full @ tail \<and> 64 dvd length full \<and> length tail < 64 \<and>
    state ctx = absorb initial_state full \<and> block_used ctx = length tail \<and>
    length (block ctx) = 64 \<and> take (length tail) (block ctx) = tail)"

lemma sha_rep_init: "sha_rep sha256_init []"
  by (simp add: sha_rep_def sha256_init_def)

lemma sha_rep_total: "sha_rep (ctx\<lparr>total_bytes := n\<rparr>) m = sha_rep ctx m"
  by (simp add: sha_rep_def)

lemma sha_rep_used: "sha_rep ctx m \<Longrightarrow> block_used ctx = 0 \<Longrightarrow> 64 dvd length m \<and>
    state ctx = absorb initial_state m \<and> length (block ctx) = 64"
  by (auto simp: sha_rep_def)

lemma sha_rep_full:
  "64 dvd length m \<Longrightarrow> state ctx = absorb initial_state m \<Longrightarrow> block_used ctx = 0 \<Longrightarrow>
    length (block ctx) = 64 \<Longrightarrow> sha_rep ctx m"
  unfolding sha_rep_def by (intro exI [of _ m] exI [of _ "[]"]) simp

lemma sha_rep_block:
  assumes "sha_rep ctx m" and "block_used ctx = 0" and "length b = 64"
    and "state ctx' = compress (state ctx) b" and "block_used ctx' = 0"
    and "length (block ctx') = 64"
  shows "sha_rep ctx' (m @ b)"
  using sha_rep_used [OF assms(1,2)] assms(3-6) absorb_append [of m initial_state b]
    absorb_block [of b "absorb initial_state m" "[]"]
  by (intro sha_rep_full) auto

lemma hash_blocks_rep:
  "sha_rep ctx m \<Longrightarrow> hash_blocks ctx src = (ctx', src') \<Longrightarrow>
    \<exists>c. src = c @ src' \<and> sha_rep ctx' (m @ c) \<and> total_bytes ctx' = total_bytes ctx \<and>
      block_used ctx' = block_used ctx \<and> (block_used ctx' = 0 \<longrightarrow> length src' < 64)"
proof (induction ctx src arbitrary: m rule: hash_blocks.induct)
  case (1 ctx src)
  show ?case
  proof (cases "block_used ctx = 0 \<and> length src \<ge> 64")
    case True
    let ?ctx1 = "ctx\<lparr>state := sha256_transform (state ctx) (take 64 src)\<rparr>"
    have rep: "sha_rep ?ctx1 (m @ take 64 src)"
      using True sha_rep_used [OF "1.prems"(1)]
      by (intro sha_rep_block [OF "1.prems"(1)]) (auto simp: transform_compress)
    have "hash_blocks ?ctx1 (drop 64 src) = (ctx', src')"
      using "1.prems"(2) True by (simp add: hash_blocks.simps [of ctx src])
    from "1.IH" [OF True rep this] obtain c where
      "drop 64 src = c @ src'" "sha_rep ctx' ((m @ take 64 src) @ c)"
      "total_bytes ctx' = total_bytes ctx" "block_used ctx' = block_used ctx"
      "block_used ctx' = 0 \<longrightarrow> length src' < 64" by auto
    then show ?thesis
      by (intro exI [of _ "take 64 src @ c"]) (metis append_assoc append_take_drop_id sha256_context.simps)
  next
    case False
    then show ?thesis
      using "1.prems" by (intro exI [of _ "[]"]) (auto simp: hash_blocks.simps [of ctx src])
  qed
qed

lemma blit_tail:
  assumes "length blk = 64" and "take (length t) blk = t" and "length t + length c \<le> 64"
  shows "take (length t + length c) (blit (length t) c blk) = t @ c"
    and "length t + length c = 64 \<Longrightarrow> blit (length t) c blk = t @ c"
  using assms by (simp_all add: blit_def)

lemma fill_block_rep:
  assumes rep: "sha_rep ctx m" and fill: "fill_block ctx src = (ctx', src')"
  shows "\<exists>c. src = c @ src' \<and> sha_rep ctx' (m @ c) \<and> total_bytes ctx' = total_bytes ctx \<and>
    (src' \<noteq> [] \<longrightarrow> block_used ctx' = 0)"
proof (cases "block_used ctx \<noteq> 0 \<and> length src \<noteq> 0")
  case False
  then show ?thesis using assms by (intro exI [of _ "[]"]) (auto simp: fill_block_def)
next
  case True
  obtain full tail where m: "m = full @ tail" "64 dvd length full" "length tail < 64"
    "state ctx = absorb initial_state full" "block_used ctx = length tail"
    "length (block ctx) = 64" "take (length tail) (block ctx) = tail"
    using rep by (auto simp: sha_rep_def)
  define k where "k = min (length src) (64 - length tail)"
  define c where "c = take k src"
  let ?blk = "blit (length tail) c (block ctx)"
  have k: "(if length src < 64 - length tail then length src else 64 - length tail) = k"
    by (simp add: min_def k_def)
  have c: "length c = k" "length tail + k \<le> 64" using m(3) by (auto simp: c_def k_def)
  have src': "src' = drop k src"
    and ctx': "ctx' = (if length tail + k = 64
      then ctx\<lparr>block := ?blk, block_used := 0, state := sha256_transform (state ctx) ?blk\<rparr>
      else ctx\<lparr>block := ?blk, block_used := length tail + k\<rparr>)"
    using fill True by (auto simp: fill_block_def m(5) k c_def [symmetric] Let_def split: if_splits)
  have "sha_rep ctx' (m @ c)"
  proof (cases "length tail + k = 64")
    case full: True
    then have blk: "?blk = tail @ c" using blit_tail(2) [OF m(6,7), of c] c by simp
    have "absorb initial_state (full @ tail @ c) = compress (state ctx) ?blk"
      using absorb_append [OF m(2), of initial_state "tail @ c"] full c
        absorb_block [of "tail @ c" "state ctx" "[]"] m(4) by (simp add: blk)
    moreover have "64 dvd length (full @ tail @ c)" using m(2) full c by simp
    ultimately show ?thesis
      using m(1,4,6) full by (intro sha_rep_full) (auto simp: ctx' transform_compress)
  next
    case False
    then have "length (tail @ c) < 64" using c by simp
    moreover have "take (length (tail @ c)) ?blk = tail @ c"
      using blit_tail(1) [OF m(6,7), of c] c by simp
    ultimately show ?thesis
      using m False c unfolding sha_rep_def
      by (intro exI [of _ full] exI [of _ "tail @ c"]) (auto simp: ctx')
  qed
  moreover have "src' \<noteq> [] \<longrightarrow> block_used ctx' = 0"
    using m(3) by (auto simp: src' ctx' k_def min_def)
  ultimately show ?thesis
    by (intro exI [of _ c]) (auto simp: src' ctx' c_def)
qed

lemma store_rest_rep:
  assumes "sha_rep ctx m" and "block_used ctx = 0" and "length src < 64"
  shows "sha_rep (ctx\<lparr>block := blit 0 src (block ctx), block_used := length src\<rparr>) (m @ src)"
proof -
  have m: "64 dvd length m" "state ctx = absorb initial_state m" "length (block ctx) = 64"
    using sha_rep_used [OF assms(1,2)] by auto
  moreover have "take (length src) (blit 0 src (block ctx)) = src"
    using blit_tail(1) [OF m(3), of "[]" src] assms(3) by simp
  ultimately show ?thesis
    unfolding sha_rep_def using assms(3) by (intro exI [of _ m] exI [of _ src]) simp
qed

lemma sha256_update_rep:
  assumes "sha_rep ctx m"
  shows "sha_rep (sha256_update ctx src) (m @ src) \<and>
    total_bytes (sha256_update ctx src) = total_bytes ctx + of_nat (length src)"
proof -
  let ?ctx0 = "ctx\<lparr>total_bytes := total_bytes ctx + of_nat (length src)\<rparr>"
  obtain ctx1 src1 where f: "fill_block ?ctx0 src = (ctx1, src1)" by (cases "fill_block ?ctx0 src")
  obtain ctx2 src2 where h: "hash_blocks ctx1 src1 = (ctx2, src2)" by (cases "hash_blocks ctx1 src1")
  have rep0: "sha_rep ?ctx0 m" using assms by (simp only: sha_rep_total)
  from fill_block_rep [OF rep0 f] obtain c1 where c1: "src = c1 @ src1" "sha_rep ctx1 (m @ c1)"
    "total_bytes ctx1 = total_bytes ?ctx0" "src1 \<noteq> [] \<longrightarrow> block_used ctx1 = 0"
    by (elim exE conjE)
  from hash_blocks_rep [OF c1(2) h] obtain c2 where c2: "src1 = c2 @ src2"
    "sha_rep ctx2 ((m @ c1) @ c2)" "total_bytes ctx2 = total_bytes ctx1"
    "block_used ctx2 = block_used ctx1" "block_used ctx2 = 0 \<longrightarrow> length src2 < 64"
    by (elim exE conjE)
  have u: "sha256_update ctx src = (if length src2 \<noteq> 0
      then ctx2\<lparr>block := blit 0 src2 (block ctx2), block_used := length src2\<rparr> else ctx2)"
    unfolding sha256_update_def Let_def f prod.case h ..
  have src: "m @ src = ((m @ c1) @ c2) @ src2" using c1(1) c2(1) by simp
  show ?thesis
  proof (cases "length src2 = 0")
    case True
    then show ?thesis using c1(3) c2(2,3) unfolding u src by simp
  next
    case False
    then have z: "block_used ctx2 = 0" using c1(4) c2(1,4) by auto
    then have "length src2 < 64" using c2(5) by blast
    from store_rest_rep [OF c2(2) z this] show ?thesis
      using False c1(3) c2(3) unfolding u src by simp
  qed
qed

section \<open>Padding and the digest\<close>

lemma length_be64_bytes [simp]: "length (be64_bytes v) = 8"
  by (simp add: be64_bytes_def)

lemma upt8: "[0..<8] = [0, 1, 2, 3, 4, 5, 6, 7 :: nat]"
  by (simp add: upt_rec numeral_eq_Suc)

lemma list8: "length xs = 8 \<Longrightarrow> xs = [xs ! 0, xs ! 1, xs ! 2, xs ! 3, xs ! 4, xs ! 5, xs ! 6, xs ! 7]"
  using map_nth [of xs] by (simp add: upt8)

lemma be64_tail_split:
  assumes "length blk = 64"
  shows "be64_tail v blk = take 56 blk @ be64_bytes v"
proof -
  have "take 56 blk @ drop 56 blk = blk" "length (take 56 blk) = 56" "length (drop 56 blk) = 8"
    using assms by auto
  then obtain xs ys where blk: "blk = xs @ ys" "length xs = 56" "length ys = 8" by metis
  then have "be64_tail v (xs @ ys) = xs @ be64_bytes v"
    by (subst list8 [OF blk(3)]) (simp add: be64_tail_def be64_bytes_def upt8 list_update_append)
  then show ?thesis using blk by simp
qed

lemma take_blit_zeros:
  "length blk = 64 \<Longrightarrow> u \<le> n \<Longrightarrow> n \<le> 64 \<Longrightarrow>
    take n (blit u (replicate (n - u) 0) blk) = take u blk @ replicate (n - u) 0"
  by (simp add: blit_def)

lemma take_append_mark:
  assumes "length blk = 64" and "take (length t) blk = t" and "length t < 64"
  shows "take (length t + 1) (blk[length t := x]) = t @ [x]"
proof -
  have "take (length t + 1) (blk[length t := x]) = take (length t) (blk[length t := x]) @ [x]"
    using assms by (simp add: take_Suc_conv_app_nth)
  then show ?thesis using assms(2) by simp
qed

text \<open>The two shapes of the final blocks: the length fits behind the mark, or it does not.\<close>

lemma final_one_block:
  assumes "block_used ctx + 1 \<le> 56"
  shows "sha256_final ctx = (let u = block_used ctx + 1; b = (block ctx)[block_used ctx := 0x80];
    st = compress (state ctx) (be64_tail (total_bytes ctx * 8) (blit u (replicate (56 - u) 0) b))
    in concat (map (\<lambda>i. be32_bytes (st ! i)) [0..<8]))"
  using assms by (simp add: sha256_final_def transform_compress Let_def)

lemma final_two_blocks:
  assumes "56 < block_used ctx + 1"
  shows "sha256_final ctx = (let u = block_used ctx + 1; b = (block ctx)[block_used ctx := 0x80];
    b1 = blit u (replicate (64 - u) 0) b;
    st = compress (compress (state ctx) b1)
      (be64_tail (total_bytes ctx * 8) (blit 0 (replicate 56 0) b1))
    in concat (map (\<lambda>i. be32_bytes (st ! i)) [0..<8]))"
  using assms by (simp add: sha256_final_def transform_compress Let_def)

lemma concat_map_nth8:
  "length s = 8 \<Longrightarrow> concat (map (\<lambda>i. be32_bytes (s ! i)) [0..<8]) = concat (map be32_bytes s)"
  by (metis map_map map_nth comp_apply map_cong)

lemma sha256_final_spec:
  assumes rep: "sha_rep ctx m" and total: "total_bytes ctx = of_nat (length m)"
  shows "sha256_final ctx = sha256_spec m"
proof -
  obtain full tail where m: "m = full @ tail" "64 dvd length full" "length tail < 64"
    "state ctx = absorb initial_state full" "block_used ctx = length tail"
    "length (block ctx) = 64" "take (length tail) (block ctx) = tail"
    using rep by (auto simp: sha_rep_def)
  define u where "u = length tail + 1"
  define b where "b = (block ctx)[length tail := 0x80]"
  define bits where "bits = (of_nat (8 * length m) :: u64)"
  let ?z = "\<lambda>n. replicate n (0 :: byte)"
  have mod: "length m mod 64 = length tail" using m(1-3) by auto
  have tb: "total_bytes ctx * 8 = bits" by (simp add: total bits_def)
  have mark: "take u b = tail @ [0x80]" and len: "length b = 64"
    using take_append_mark [OF m(6,7,3)] m(6) by (simp_all add: u_def b_def)
  have pad: "absorb initial_state (sha_pad m) = absorb (state ctx)
      (tail @ [0x80] @ ?z ((119 - length tail) mod 64) @ be64_bytes bits)"
    unfolding sha_pad_def mod m(4) bits_def using absorb_append [OF m(2)] m(1)
    by (metis append_assoc)
  show ?thesis
  proof (cases "56 < u")
    case True
    define b1 where "b1 = blit u (?z (64 - u)) b"
    have b1: "b1 = tail @ [0x80] @ ?z (64 - u)" and len1: "length b1 = 64"
      using take_blit_zeros [OF len, of u 64] m(3) len mark by (simp_all add: b1_def u_def)
    have b2: "be64_tail bits (blit 0 (?z 56) b1) = ?z 56 @ be64_bytes bits"
      using take_blit_zeros [OF len1, of 0 56] len1 by (simp add: be64_tail_split)
    have k: "(119 - length tail) mod 64 = (64 - u) + 56"
      using True m(3) by (simp add: mod_if u_def)
    have eq: "tail @ [0x80] @ ?z ((64 - u) + 56) @ be64_bytes bits =
        b1 @ (?z 56 @ be64_bytes bits @ [])"
      by (simp only: b1 replicate_add append_assoc append_Nil2)
    have "absorb (state ctx) (b1 @ (?z 56 @ be64_bytes bits @ [])) =
        absorb (compress (state ctx) b1) ((?z 56 @ be64_bytes bits) @ [])"
      using absorb_block [OF len1] by simp
    also have "\<dots> = compress (compress (state ctx) b1) (?z 56 @ be64_bytes bits)"
      using absorb_block [of "?z 56 @ be64_bytes bits" "compress (state ctx) b1" "[]"] by simp
    finally have "absorb initial_state (sha_pad m) =
        compress (compress (state ctx) b1) (?z 56 @ be64_bytes bits)"
      unfolding pad k eq .
    then show ?thesis
      using final_two_blocks [of ctx] True
      unfolding sha256_spec_def m(5) u_def [symmetric] b_def [symmetric] Let_def
        b1_def [symmetric] tb b2 by (simp add: concat_map_nth8)
  next
    case False
    define b1 where "b1 = tail @ [0x80] @ ?z (56 - u) @ be64_bytes bits"
    have b2: "be64_tail bits (blit u (?z (56 - u)) b) = b1"
      using take_blit_zeros [OF len, of u 56] False len mark by (simp add: be64_tail_split b1_def)
    have k: "(119 - length tail) mod 64 = 56 - u" using False by (simp add: mod_if u_def)
    have "length b1 = 64" using False by (simp add: b1_def u_def)
    then have "absorb initial_state (sha_pad m) = compress (state ctx) b1"
      using absorb_block [of b1 "state ctx" "[]"] unfolding pad k b1_def [symmetric] by simp
    then show ?thesis
      using final_one_block [of ctx] False
      unfolding sha256_spec_def m(5) u_def [symmetric] b_def [symmetric] Let_def tb b2
      by (simp add: concat_map_nth8)
  qed
qed

lemma sha256_buffer_spec: "sha256_buffer m = sha256_spec m"
  unfolding sha256_buffer_def
  using sha256_update_rep [OF sha_rep_init, of m]
  by (intro sha256_final_spec) (auto simp: sha256_init_def)

lemma length_be32_bytes [simp]: "length (be32_bytes v) = 4"
  by (simp add: be32_bytes_def)

lemma length_sha256_buffer [simp]: "length (sha256_buffer m) = 32"
proof -
  have "length (absorb initial_state (sha_pad m)) = 8"
    by (rule length_absorb) (simp add: initial_state_def)
  then show ?thesis
    by (simp add: sha256_buffer_spec sha256_spec_def length_concat comp_def sum_list_triv)
qed

text \<open>
  The contract the record formats rely on: a digest of fixed length, a function of the bytes.
  A record sealed with its digest at a fixed place is recognised as intact, and a record whose
  protected bytes are read back unchanged has its stored digest confirmed.
\<close>

locale digest =
  fixes digest_of :: "byte list \<Rightarrow> byte list" and digest_len :: nat
  assumes length_digest: "length (digest_of m) = digest_len"
begin

lemma sealed_verifies:
  assumes "off + digest_len \<le> length rec"
  shows "bytes_at off digest_len (blit off (digest_of (bytes_at 0 off rec)) rec) =
    digest_of (bytes_at 0 off (blit off (digest_of (bytes_at 0 off rec)) rec))"
  using assms by (simp add: bytes_at_blit_same bytes_at_blit_out length_digest)

lemma seal_keeps_prefix:
  "a + n \<le> off \<Longrightarrow> bytes_at a n (blit off (digest_of m) rec) = bytes_at a n rec"
  by (simp add: bytes_at_blit_out)

end

interpretation sha: digest sha256_buffer 32
  by unfold_locales simp

section \<open>Properties\<close>

text \<open>
  Property C13: hashing a buffer with the streaming code, its rolling 16-word schedule and its
  block buffering, yields the SHA-256 of the padded message for every byte string.
\<close>

theorem sha256_buffer_correct: "sha256_buffer m = sha256_spec m"
  by (rule sha256_buffer_spec)

text \<open>
  The digest does not depend on how a message is cut into updates: feeding any list
  of pieces, empty ones included, gives the digest of their concatenation.
\<close>

theorem sha256_streaming:
  "sha256_final (fold (\<lambda>piece ctx. sha256_update ctx piece) pieces sha256_init) =
    sha256_buffer (concat pieces)"
proof -
  have "sha_rep (fold (\<lambda>piece ctx. sha256_update ctx piece) pieces ctx) (m @ concat pieces) \<and>
      total_bytes (fold (\<lambda>piece ctx. sha256_update ctx piece) pieces ctx) =
        of_nat (length (m @ concat pieces))"
    if "sha_rep ctx m" "total_bytes ctx = of_nat (length m)" for ctx m
    using that
  proof (induction pieces arbitrary: ctx m)
    case (Cons p ps)
    have "sha_rep (sha256_update ctx p) (m @ p)"
      "total_bytes (sha256_update ctx p) = of_nat (length (m @ p))"
      using sha256_update_rep [OF Cons.prems(1), of p] Cons.prems(2) by auto
    from Cons.IH [OF this] show ?case by simp
  qed simp
  from this [OF sha_rep_init] show ?thesis
    by (simp add: sha256_final_spec sha256_buffer_spec sha256_init_def)
qed

end
