(* ===== verification/Apa.thy ===== *)
theory Apa
  imports Buffers
begin

text \<open>
  The APA master header: \<open>include/apa.h\<close> and \<open>src/apa.c\<close>.  A header is the 1024 bytes of
  two sectors; the offsets are those of the header file.  The lemmas show what the additive
  checksum detects and what it does not, and what the same-disk comparison ignores.
\<close>

section \<open>Layout\<close>

abbreviation (input) APA_HEADER_SIZE :: nat where "APA_HEADER_SIZE \<equiv> 1024"
abbreviation (input) APA_MAGIC_OFFSET :: nat where "APA_MAGIC_OFFSET \<equiv> 0x004"
abbreviation (input) APA_NEXT_OFFSET :: nat where "APA_NEXT_OFFSET \<equiv> 0x008"
abbreviation (input) APA_PREV_OFFSET :: nat where "APA_PREV_OFFSET \<equiv> 0x00c"
abbreviation (input) APA_ID_OFFSET :: nat where "APA_ID_OFFSET \<equiv> 0x010"
abbreviation (input) APA_ID_SIZE :: nat where "APA_ID_SIZE \<equiv> 32"
abbreviation (input) APA_START_OFFSET :: nat where "APA_START_OFFSET \<equiv> 0x040"
abbreviation (input) APA_LENGTH_OFFSET :: nat where "APA_LENGTH_OFFSET \<equiv> 0x044"
abbreviation (input) APA_TYPE_OFFSET :: nat where "APA_TYPE_OFFSET \<equiv> 0x048"
abbreviation (input) APA_FLAGS_OFFSET :: nat where "APA_FLAGS_OFFSET \<equiv> 0x04a"
abbreviation (input) APA_NSUB_OFFSET :: nat where "APA_NSUB_OFFSET \<equiv> 0x04c"
abbreviation (input) APA_MAIN_OFFSET :: nat where "APA_MAIN_OFFSET \<equiv> 0x058"
abbreviation (input) APA_NUMBER_OFFSET :: nat where "APA_NUMBER_OFFSET \<equiv> 0x05c"
abbreviation (input) APA_MBR_MAGIC_OFFSET :: nat where "APA_MBR_MAGIC_OFFSET \<equiv> 0x100"
abbreviation (input) APA_MBR_VERSION_OFFSET :: nat where "APA_MBR_VERSION_OFFSET \<equiv> 0x120"
abbreviation (input) APA_OSD_START_OFFSET :: nat where "APA_OSD_START_OFFSET \<equiv> 0x130"
abbreviation (input) APA_OSD_SIZE_OFFSET :: nat where "APA_OSD_SIZE_OFFSET \<equiv> 0x134"
abbreviation (input) PC_MBR_SIGNATURE_OFFSET :: nat where "PC_MBR_SIGNATURE_OFFSET \<equiv> 0x1fe"
abbreviation (input) APA_SUBS_OFFSET :: nat where "APA_SUBS_OFFSET \<equiv> 0x200"
abbreviation (input) APA_SUB_ENTRY_SIZE :: nat where "APA_SUB_ENTRY_SIZE \<equiv> 8"
abbreviation (input) APA_MAX_SUBS :: u32 where "APA_MAX_SUBS \<equiv> 64"
abbreviation (input) APA_MASTER_TYPE_VALUE :: u16 where "APA_MASTER_TYPE_VALUE \<equiv> 0x0001"
abbreviation (input) APA_MASTER_VERSION_VALUE :: u32 where "APA_MASTER_VERSION_VALUE \<equiv> 2"

definition apa_magic :: "byte list" where
  "apa_magic = [0x41, 0x50, 0x41, 0x00]"

definition mbr_id :: "byte list" where
  "mbr_id = ascii ''__mbr''"

definition sce_magic :: "byte list" where
  "sce_magic = ascii ''Sony Computer Entertainment Inc.''"

lemma length_magics [simp]:
  "length apa_magic = 4" "length mbr_id = 5" "length sce_magic = 32"
  by (simp_all add: apa_magic_def mbr_id_def sce_magic_def)

section \<open>Checks\<close>

text \<open>The sum of the words 1..255: the checksum word itself is left out.\<close>

definition apa_checksum :: "byte list \<Rightarrow> u32" where
  "apa_checksum header = fold (\<lambda>i sum. sum + read_le32 header (i * 4)) [1..<256] 0"

definition is_standard_apa_header :: "byte list \<Rightarrow> bool" where
  "is_standard_apa_header header =
    (if bytes_at APA_MAGIC_OFFSET (length apa_magic) header \<noteq> apa_magic then False
     else if bytes_at APA_ID_OFFSET (length mbr_id) header \<noteq> mbr_id then False
     else if bytes_at APA_MBR_MAGIC_OFFSET (length sce_magic) header \<noteq> sce_magic then False
     else if read_le32 header 0 \<noteq> apa_checksum header then False
     else True)"

definition is_hybrid_gpt :: "byte list \<Rightarrow> bool" where
  "is_hybrid_gpt header \<longleftrightarrow>
    read_u8 header PC_MBR_SIGNATURE_OFFSET = 0x55 \<and>
    read_u8 header (PC_MBR_SIGNATURE_OFFSET + 1) = 0xaa"

definition headers_match_same_disk :: "byte list \<Rightarrow> byte list \<Rightarrow> bool" where
  "headers_match_same_disk a b = (let mutable_end = APA_OSD_SIZE_OFFSET + 4 in
    bytes_at 4 (APA_OSD_START_OFFSET - 4) a = bytes_at 4 (APA_OSD_START_OFFSET - 4) b \<and>
    bytes_at mutable_end (APA_HEADER_SIZE - mutable_end) a =
      bytes_at mutable_end (APA_HEADER_SIZE - mutable_end) b)"

section \<open>The checksum\<close>

lemma apa_checksum_sum: "apa_checksum header = (\<Sum>i\<in>{1..<256}. read_le32 header (4 * i))"
proof -
  have "fold (\<lambda>i sum. sum + f i) xs (a :: u32) = a + sum_list (map f xs)" for f :: "nat \<Rightarrow> u32" and xs a
    by (induction xs arbitrary: a) (auto simp: add.assoc)
  then have "apa_checksum header = sum_list (map (\<lambda>i. read_le32 header (i * 4)) [1..<256])"
    by (simp add: apa_checksum_def)
  also have "\<dots> = (\<Sum>i\<in>{1..<256}. read_le32 header (4 * i))"
    by (simp add: sum_list_distinct_conv_sum_set mult.commute)
  finally show ?thesis .
qed

lemma apa_checksum_cong:
  "(\<And>i. 1 \<le> i \<Longrightarrow> i < 256 \<Longrightarrow> read_le32 a (4 * i) = read_le32 b (4 * i))
    \<Longrightarrow> apa_checksum a = apa_checksum b"
  unfolding apa_checksum_sum by (rule sum.cong) auto

text \<open>Storing one protected word moves the checksum by the change of that word.\<close>

lemma apa_checksum_write:
  assumes "length header = APA_HEADER_SIZE" and "1 \<le> k" and "k < 256"
  shows "apa_checksum (write_le32 (4 * k) v header) =
    apa_checksum header - read_le32 header (4 * k) + v"
proof -
  let ?h' = "write_le32 (4 * k) v header"
  have same: "read_le32 ?h' (4 * k) = v"
    using assms by (simp add: write_le32_def buf_simps)
  have other: "read_le32 ?h' (4 * i) = read_le32 header (4 * i)" if "i \<noteq> k" for i
    using that unfolding write_le32_def by (intro le32.rd_blit_out) auto
  have split: "(\<Sum>i\<in>{1..<256}. f i) = f k + (\<Sum>i\<in>{1..<256} - {k}. f i)" for f :: "nat \<Rightarrow> u32"
    using assms by (intro sum.remove) auto
  have rest: "(\<Sum>i\<in>{1..<256} - {k}. read_le32 ?h' (4 * i)) =
      (\<Sum>i\<in>{1..<256} - {k}. read_le32 header (4 * i))"
    by (intro sum.cong) (auto simp: other)
  show ?thesis
    unfolding apa_checksum_sum split same rest by simp
qed

lemma apa_checksum_write_0 [simp]: "apa_checksum (write_le32 0 v header) = apa_checksum header"
  by (rule apa_checksum_cong) (auto simp: write_le32_def le32.rd_blit_out)

text \<open>The checksum word is recomputed last: the emitted header is consistent with itself.\<close>

lemma checksum_store_consistent:
  assumes "4 \<le> length header"
  shows "read_le32 (write_le32 0 (apa_checksum header) header) 0 =
    apa_checksum (write_le32 0 (apa_checksum header) header)"
  using assms le32.rd_blit_same [of 0 header] by (simp add: write_le32_def [symmetric])

lemma is_standard_iff:
  "is_standard_apa_header h \<longleftrightarrow>
    bytes_at APA_MAGIC_OFFSET 4 h = apa_magic \<and> bytes_at APA_ID_OFFSET 5 h = mbr_id \<and>
    bytes_at APA_MBR_MAGIC_OFFSET 32 h = sce_magic \<and> read_le32 h 0 = apa_checksum h"
  by (simp add: is_standard_apa_header_def)

text \<open>
  A change confined to one of the 255 protected words is always detected,
  and a correction of one word that restores the stored checksum is the only one for that word.
\<close>

lemma one_word_change:
  assumes "length header = APA_HEADER_SIZE" and "1 \<le> k" and "k < 256"
  shows "apa_checksum (write_le32 (4 * k) v header) = apa_checksum header
    \<longleftrightarrow> v = read_le32 header (4 * k)"
  using apa_checksum_write [OF assms, of v] by auto

section \<open>The same-disk comparison\<close>

lemma bytes_at_eq_iff:
  assumes "length a = length b" and "off + n \<le> length a"
  shows "bytes_at off n a = bytes_at off n b \<longleftrightarrow> (\<forall>i. off \<le> i \<and> i < off + n \<longrightarrow> a ! i = b ! i)"
proof
  assume eq: "bytes_at off n a = bytes_at off n b"
  show "\<forall>i. off \<le> i \<and> i < off + n \<longrightarrow> a ! i = b ! i"
  proof (intro allI impI)
    fix i assume i: "off \<le> i \<and> i < off + n"
    have "bytes_at off n a ! (i - off) = bytes_at off n b ! (i - off)" by (simp add: eq)
    moreover have "i - off < n" using i by auto
    ultimately show "a ! i = b ! i" using i assms by (simp add: nth_bytes_at)
  qed
next
  assume "\<forall>i. off \<le> i \<and> i < off + n \<longrightarrow> a ! i = b ! i"
  then show "bytes_at off n a = bytes_at off n b"
    using assms by (intro bytes_at_eqI) auto
qed

lemma headers_match_iff:
  assumes "length a = APA_HEADER_SIZE" and "length b = APA_HEADER_SIZE"
  shows "headers_match_same_disk a b \<longleftrightarrow>
    (\<forall>i. 4 \<le> i \<and> i < 1024 \<and> \<not> (0x130 \<le> i \<and> i < 0x138) \<longrightarrow> a ! i = b ! i)"
proof -
  have "headers_match_same_disk a b \<longleftrightarrow>
      (\<forall>i. 4 \<le> i \<and> i < 0x130 \<longrightarrow> a ! i = b ! i) \<and> (\<forall>i. 0x138 \<le> i \<and> i < 1024 \<longrightarrow> a ! i = b ! i)"
    using assms by (simp add: headers_match_same_disk_def bytes_at_eq_iff)
  then show ?thesis by (auto simp: not_le not_less)
qed

lemma headers_match_refl: "headers_match_same_disk a a"
  by (simp add: headers_match_same_disk_def)

lemma headers_match_sym: "headers_match_same_disk a b \<Longrightarrow> headers_match_same_disk b a"
  by (simp add: headers_match_same_disk_def Let_def)

lemma headers_match_trans:
  "headers_match_same_disk a b \<Longrightarrow> headers_match_same_disk b c \<Longrightarrow> headers_match_same_disk a c"
  by (simp add: headers_match_same_disk_def Let_def)

end
