(* ===== verification/HddBounds.thy ===== *)
theory HddBounds
  imports Buffers
begin

text \<open>
  The pointer and geometry policy of the reserved bootstrap area: \<open>src/hdd_bounds.c\<close> with the
  limits of \<open>include/hdd_limits.h\<close> and the result codes of \<open>include/hdd_bounds.h\<close>.  The
  lemmas read an accepted pointer as an interval of sectors that lies inside the partition.
\<close>

abbreviation (input) HDD_MBR_PAYLOAD_START :: u32 where "HDD_MBR_PAYLOAD_START \<equiv> 0x2000"
abbreviation (input) HDD_SECTOR_SIZE :: u32 where "HDD_SECTOR_SIZE \<equiv> 512"
abbreviation (input) HDD_TRANSFER_SECTORS :: u32 where "HDD_TRANSFER_SECTORS \<equiv> 2"
abbreviation (input) HDD_TRANSFER_BYTES :: u32 where "HDD_TRANSFER_BYTES \<equiv> 1024"
abbreviation (input) HDD_MAX_MBR_PAYLOAD_SIZE :: u32 where
  "HDD_MAX_MBR_PAYLOAD_SIZE \<equiv> 4 * 1024 * 1024"

abbreviation (input) HDD_PAYLOAD_ERR_EMPTY_POINTER :: int where
  "HDD_PAYLOAD_ERR_EMPTY_POINTER \<equiv> - 170"
abbreviation (input) HDD_PAYLOAD_ERR_TOO_LARGE :: int where
  "HDD_PAYLOAD_ERR_TOO_LARGE \<equiv> - 171"
abbreviation (input) HDD_PAYLOAD_ERR_BEFORE_RESERVED_AREA :: int where
  "HDD_PAYLOAD_ERR_BEFORE_RESERVED_AREA \<equiv> - 172"
abbreviation (input) HDD_PAYLOAD_ERR_OUTSIDE_MBR :: int where
  "HDD_PAYLOAD_ERR_OUTSIDE_MBR \<equiv> - 173"

definition hdd_validate_payload_shape :: "u32 \<Rightarrow> u32 \<Rightarrow> int" where
  "hdd_validate_payload_shape start sectors =
    (if start = 0 \<or> sectors = 0 then HDD_PAYLOAD_ERR_EMPTY_POINTER
     else if sectors > HDD_MAX_MBR_PAYLOAD_SIZE div HDD_SECTOR_SIZE then HDD_PAYLOAD_ERR_TOO_LARGE
     else if start < HDD_MBR_PAYLOAD_START then HDD_PAYLOAD_ERR_BEFORE_RESERVED_AREA
     else 0)"

definition hdd_validate_payload_bounds_geometry :: "u32 \<Rightarrow> u32 \<Rightarrow> u32 \<Rightarrow> u32 \<Rightarrow> int" where
  "hdd_validate_payload_bounds_geometry start sectors mbr_start mbr_size =
    (let result = hdd_validate_payload_shape start sectors in
     if result < 0 then result
     else if mbr_start \<noteq> 0 \<or> start \<ge> mbr_size \<or> sectors > mbr_size - start
     then HDD_PAYLOAD_ERR_OUTSIDE_MBR
     else 0)"

section \<open>What an accepted pointer means\<close>

definition payload_shape_ok :: "nat \<Rightarrow> nat \<Rightarrow> bool" where
  "payload_shape_ok start sectors \<longleftrightarrow> 0x2000 \<le> start \<and> 0 < sectors \<and> sectors \<le> 8192"

lemma max_payload_sectors: "(4 * 1024 * 1024 :: u32) div 512 = 8192"
  by simp

lemma shape_codes:
  "hdd_validate_payload_shape start sectors \<in> {0, - 170, - 171, - 172}"
  by (simp add: hdd_validate_payload_shape_def)

lemma shape_ok_iff:
  "hdd_validate_payload_shape start sectors = 0 \<longleftrightarrow> payload_shape_ok (unat start) (unat sectors)"
  by (auto simp: hdd_validate_payload_shape_def payload_shape_ok_def word_le_nat_alt
      word_less_nat_alt unat_gt_0 not_less)

lemma shape_negative_iff:
  "hdd_validate_payload_shape start sectors < 0 \<longleftrightarrow> \<not> payload_shape_ok (unat start) (unat sectors)"
  using shape_codes [of start sectors] shape_ok_iff [of start sectors] by auto

lemma geometry_ok_iff:
  "hdd_validate_payload_bounds_geometry start sectors mbr_start mbr_size = 0 \<longleftrightarrow>
    payload_shape_ok (unat start) (unat sectors) \<and> mbr_start = 0 \<and>
    unat start + unat sectors \<le> unat mbr_size"
proof -
  have "\<not> (start \<ge> mbr_size \<or> sectors > mbr_size - start) \<longleftrightarrow>
      unat start + unat sectors \<le> unat mbr_size" if "0 < unat sectors"
    using that by (auto simp: word_le_nat_alt word_less_nat_alt unat_sub_if_size not_le not_less)
  then show ?thesis
    using shape_negative_iff [of start sectors] shape_ok_iff [of start sectors]
    by (auto simp: hdd_validate_payload_bounds_geometry_def Let_def payload_shape_ok_def)
qed

lemma geometry_codes:
  "hdd_validate_payload_bounds_geometry start sectors mbr_start mbr_size
    \<in> {0, - 170, - 171, - 172, - 173}"
  using shape_codes [of start sectors]
  by (auto simp: hdd_validate_payload_bounds_geometry_def Let_def)

section \<open>Properties\<close>

text \<open>
  Property C28: a bootstrap pointer is accepted exactly when its sectors, counted without wrap,
  form a non-empty interval of at most 4 MiB that starts in the reserved area and ends inside
  an \<open>__mbr\<close> partition that begins at sector 0; every other pointer is reported by one of
  the four documented codes.
\<close>

theorem payload_bounds_exact:
  "(hdd_validate_payload_bounds_geometry start sectors mbr_start mbr_size = 0 \<longleftrightarrow>
      0x2000 \<le> unat start \<and> 0 < unat sectors \<and> unat sectors * 512 \<le> 4 * 1024 * 1024 \<and>
      mbr_start = 0 \<and> unat start + unat sectors \<le> unat mbr_size) \<and>
    hdd_validate_payload_bounds_geometry start sectors mbr_start mbr_size
      \<in> {0, - 170, - 171, - 172, - 173}"
  using geometry_ok_iff [of start sectors mbr_start mbr_size]
    geometry_codes [of start sectors mbr_start mbr_size]
  by (auto simp: payload_shape_ok_def)

end
