(* ===== verification/AppError.thy ===== *)
theory AppError
  imports Main
begin

text \<open>
  The session's error record: \<open>src/app_error.c\<close> and \<open>include/app_error.h\<close>.  The two static
  variables of the module are the state \<open>app_error_state\<close>; the description table is one
  definition per domain, in the order of the code, and a code that a domain's \<open>switch\<close> does not
  list falls through to the default entry.
\<close>

section \<open>The last error\<close>

datatype app_error_domain = APP_ERROR_DOMAIN_GENERIC | APP_ERROR_DOMAIN_BOOTSTRAP_SOURCE
  | APP_ERROR_DOMAIN_KELF | APP_ERROR_DOMAIN_HDD_BOUNDS | APP_ERROR_DOMAIN_HDD_WRITE
  | APP_ERROR_DOMAIN_MASTER_REPAIR | APP_ERROR_DOMAIN_REPAIR_SNAPSHOT
  | APP_ERROR_DOMAIN_FORENSIC_SNAPSHOT | APP_ERROR_DOMAIN_FORENSIC_REPAIR
  | APP_ERROR_DOMAIN_IOP | APP_ERROR_DOMAIN_STARTUP

record app_error_entry =
  err_domain :: app_error_domain
  err_code :: int
  err_context :: string

record app_error_state =
  last_error :: app_error_entry
  last_error_valid :: bool

abbreviation (input) APP_ERROR_CONTEXT_SIZE :: nat where "APP_ERROR_CONTEXT_SIZE \<equiv> 64"

text \<open>\<open>context\<close> may be \<open>NULL\<close>; a longer context is cut so that its terminator fits.\<close>

definition app_error_record ::
    "app_error_domain \<Rightarrow> int \<Rightarrow> string option \<Rightarrow> app_error_state \<Rightarrow> app_error_state" where
  "app_error_record domain code ctx s = s
    \<lparr>last_error := \<lparr>err_domain = domain, err_code = code,
       err_context = (case ctx of None \<Rightarrow> [] | Some c \<Rightarrow> take (APP_ERROR_CONTEXT_SIZE - 1) c)\<rparr>,
     last_error_valid := True\<rparr>"

definition app_error_clear :: "app_error_state \<Rightarrow> app_error_state" where
  "app_error_clear s = s
    \<lparr>last_error := \<lparr>err_domain = APP_ERROR_DOMAIN_GENERIC, err_code = 0, err_context = []\<rparr>,
     last_error_valid := False\<rparr>"

definition app_error_get :: "app_error_state \<Rightarrow> app_error_entry option" where
  "app_error_get s = (if \<not> last_error_valid s then None else Some (last_error s))"

section \<open>Descriptions\<close>

record app_error_info =
  info_symbol :: string
  info_summary :: string
  info_detail :: string
  info_action :: string

definition set_info :: "string \<Rightarrow> string \<Rightarrow> string \<Rightarrow> string \<Rightarrow> app_error_info" where
  "set_info symb summ detl actn =
    \<lparr>info_symbol = symb, info_summary = summ, info_detail = detl, info_action = actn\<rparr>"

definition describe_bootstrap_source :: "int \<Rightarrow> app_error_info option" where
  "describe_bootstrap_source code =
    (if code = - 120 then Some (set_info ''BOOTSTRAP_SOURCE_SIZE_INVALID''
       ''Bootstrap source has an invalid size.''
       ''The file is empty or larger than the supported MBR payload limit.''
       ''Replace MBR.XIN/XLF with a known-good source and retry.'')
     else if code = - 121 then Some (set_info ''BOOTSTRAP_SOURCE_SEEK_FAILED''
       ''Bootstrap source could not be rewound.''
       ''The storage driver opened the file but rejected the required seek.''
       ''Check the storage medium and copy the source file again.'')
     else if code = - 122 then Some (set_info ''BOOTSTRAP_SOURCE_ALLOC_FAILED''
       ''Not enough EE memory for the bootstrap source.''
       ''The source could not be buffered for validation/signing.''
       ''Restart the manager and retry with no other homebrew resident.'')
     else if code = - 123 then Some (set_info ''BOOTSTRAP_SOURCE_SHORT_READ''
       ''Bootstrap source ended before the advertised file size.''
       ''The storage read was incomplete or the medium changed during the operation.''
       ''Reconnect/check the storage device and copy MBR.XIN/XLF again.'')
     else if code = - 124 then Some (set_info ''BOOTSTRAP_SOURCE_CAPACITY_INVALID''
       ''The source does not fit the reserved __mbr payload area.''
       ''The live __mbr geometry cannot safely contain this payload.''
       ''Do not force the install; inspect disk geometry/source size first.'')
     else Some (set_info ''BOOTSTRAP_SOURCE_IO''
       ''Bootstrap source could not be loaded.''
       ''The selected storage driver rejected opening or reading MBR.XIN/XLF. The raw driver code is retained below rather than guessed from the number alone.''
       ''Verify the selected storage target, filename, media readiness and file integrity.''))"

definition describe_hdd_bounds :: "int \<Rightarrow> app_error_info option" where
  "describe_hdd_bounds code =
    (if code = - 170 then Some (set_info ''HDD_PAYLOAD_EMPTY_POINTER''
       ''Bootstrap pointer is empty.''
       ''osdStart/osdSize do not describe an active payload.''
       ''Use a disabled-bootstrap workflow or restore a verified rescue image.'')
     else if code = - 171 then Some (set_info ''HDD_PAYLOAD_TOO_LARGE''
       ''Bootstrap payload exceeds the manager safety limit.''
       ''The pointer describes more than the supported 4 MiB payload window.''
       ''Do not read/write it as a normal bootstrap; inspect it for corruption.'')
     else if code = - 172 then Some (set_info ''HDD_PAYLOAD_BEFORE_RESERVED_AREA''
       ''Bootstrap pointer begins before the reserved payload area.''
       ''Normal payload data must start at or after LBA 0x2000 inside __mbr.''
       ''Treat the pointer as unsafe and use diagnostics/recovery.'')
     else if code = - 173 then Some (set_info ''HDD_PAYLOAD_OUTSIDE_MBR''
       ''Bootstrap pointer leaves the live __mbr partition.''
       ''The advertised payload range is outside current APA geometry.''
       ''Do not follow the pointer; inspect/clear it through the guarded recovery path.'')
     else None)"

definition describe_hdd_write :: "int \<Rightarrow> app_error_info option" where
  "describe_hdd_write code =
    (if code = - 1 then Some (set_info ''HDD_WRITE_HEADER_READ_FAILED''
       ''Could not read the master header for verification.''
       ''The post-operation sectors 0-1 read failed.''
       ''Keep the backup and restart before attempting another write.'')
     else if code = - 2 then Some (set_info ''HDD_WRITE_HEADER_INVALID''
       ''Post-write master header validation failed.''
       ''The read-back header is not a valid canonical APA master.''
       ''Stop further writes and preserve backups/logs for analysis.'')
     else if code = - 3 then Some (set_info ''HDD_WRITE_START_MISMATCH''
       ''osdStart read-back does not match the requested value.''
       ''The pointer update did not persist exactly as requested.''
       ''Restart and inspect the master before any further write.'')
     else if code = - 4 then Some (set_info ''HDD_WRITE_SIZE_MISMATCH''
       ''osdSize read-back does not match the requested value.''
       ''The pointer update did not persist exactly as requested.''
       ''Restart and inspect the master before any further write.'')
     else if code = - 130 then Some (set_info ''HDD_WRITE_PAYLOAD_FLUSH_FAILED''
       ''HDD cache flush failed after payload write.''
       ''Durability of the payload cannot be assumed.''
       ''Do not enable/restore the pointer; power-cycle only after preserving diagnostics.'')
     else if code = - 131 then Some (set_info ''HDD_WRITE_PAYLOAD_COMPARE_FAILED''
       ''Payload read-back differs from the data written.''
       ''At least one sector failed exact verification.''
       ''Keep the pointer disabled and investigate the disk/adapter before retrying.'')
     else None)"

definition describe_repair_snapshot :: "int \<Rightarrow> app_error_info option" where
  "describe_repair_snapshot code =
    (if code = - 320 then Some (set_info ''HDDRAW_INVALID_ARGUMENT''
       ''Raw master snapshot request was invalid.''
       ''The recovery controller supplied incomplete snapshot parameters.''
       ''Do not continue with repair; preserve the current disk state.'')
     else if code = - 321 then Some (set_info ''HDDRAW_NO_SLOT''
       ''No non-overwriting HDDRAW snapshot slot is available.''
       ''HDDRAW.BIN and HDDRAW2.BIN are occupied by different evidence.''
       ''Copy them off the device or select another storage target.'')
     else if code = - 322 then Some (set_info ''HDDRAW_WRITE_FAILED''
       ''Could not write the raw pre-repair snapshot.''
       ''External storage rejected the HDDRAW write.''
       ''Fix/select another storage target; no HDD repair should be attempted.'')
     else if code = - 323 then Some (set_info ''HDDRAW_VERIFY_FAILED''
       ''HDDRAW snapshot read-back verification failed.''
       ''The saved evidence does not exactly match the source master header.''
       ''Do not repair the HDD; replace or reformat the external storage medium.'')
     else None)"

definition describe_master_repair :: "int \<Rightarrow> app_error_info option" where
  "describe_master_repair code =
    (if code = - 330 then Some (set_info ''MASTER_REPAIR_INVALID_ARGUMENT''
       ''Master repair request was invalid.''
       ''The exceptional writer did not receive complete buffers.''
       ''Stop the operation and preserve the raw snapshot.'')
     else if code = - 331 then Some (set_info ''MASTER_REPAIR_UNSAFE_HEADER''
       ''Candidate master failed final safety validation.''
       ''The proposed sectors 0-1 image is not a canonical non-hybrid APA master.''
       ''Do not force the write; re-run analysis from the saved evidence.'')
     else if code = - 332 then Some (set_info ''MASTER_REPAIR_WRITE_FAILED''
       ''Raw master write failed.''
       ''HDIOC_WRITESECTOR did not commit sectors 0-1.''
       ''Restart/power-cycle, keep HDDRAW, and inspect the disk before retrying.'')
     else if code = - 333 then Some (set_info ''MASTER_REPAIR_FLUSH_FAILED''
       ''Raw master cache flush failed.''
       ''Durability of sectors 0-1 cannot be guaranteed.''
       ''Stop all further HDD operations and restart/power-cycle.'')
     else if code = - 334 then Some (set_info ''MASTER_REPAIR_READBACK_FAILED''
       ''Could not read the repaired master back.''
       ''Post-write verification could not obtain sectors 0-1.''
       ''Stop all further HDD operations; keep HDDRAW and logs.'')
     else if code = - 335 then Some (set_info ''MASTER_REPAIR_COMPARE_FAILED''
       ''Repaired master differs on read-back.''
       ''The physical bytes on disk do not match the approved repair image.''
       ''Treat the disk/adapter as unreliable and do not attempt another repair in-session.'')
     else None)"

definition describe_forensic_snapshot :: "int \<Rightarrow> app_error_info option" where
  "describe_forensic_snapshot code =
    (if code = - 360 then Some (set_info ''HDDMETA_INVALID_ARGUMENT''
       ''Forensic snapshot request was invalid.''
       ''The selected repair plan cannot be serialized safely.''
       ''Return to the scan and rebuild the candidate/plan.'')
     else if code = - 361 then Some (set_info ''HDDMETA_ALLOC_FAILED''
       ''Not enough EE memory for HDDMETA.''
       ''The complete touched-header snapshot could not be assembled.''
       ''Restart and retry; no HDD metadata was modified.'')
     else if code = - 362 then Some (set_info ''HDDMETA_NO_SLOT''
       ''No non-overwriting HDDMETA slot is available.''
       ''HDDMETA.BIN and HDDMETA2.BIN contain different existing evidence.''
       ''Copy them off-device or select another storage target.'')
     else if code = - 363 then Some (set_info ''HDDMETA_WRITE_FAILED''
       ''Could not save HDDMETA.''
       ''External storage rejected the forensic snapshot write.''
       ''Fix/select another storage target; do not authorize repair.'')
     else if code = - 364 then Some (set_info ''HDDMETA_VERIFY_FAILED''
       ''HDDMETA read-back verification failed.''
       ''The saved multi-header evidence is not byte-identical to the generated snapshot.''
       ''Do not authorize repair; replace/check external storage.'')
     else None)"

definition describe_forensic_repair :: "int \<Rightarrow> app_error_info option" where
  "describe_forensic_repair code =
    (if code = - 370 then Some (set_info ''FORENSIC_REPAIR_INVALID_ARGUMENT''
       ''Forensic repair request was invalid.''
       ''The scan/plan pair is incomplete.''
       ''Return to the forensic scan and rebuild the plan.'')
     else if code = - 371 then Some (set_info ''FORENSIC_REPAIR_PLAN_BLOCKED''
       ''Forensic repair plan is not authorized for writes.''
       ''The selected map does not satisfy the manual write gate.''
       ''Keep the disk read-only and inspect competing evidence/maps.'')
     else if code = - 372 then Some (set_info ''FORENSIC_REPAIR_SOURCE_CHANGED''
       ''A source header changed after the scan.''
       ''Current disk bytes no longer match the evidence used to build the plan.''
       ''Abort this plan and perform a fresh raw scan.'')
     else if code = - 373 then Some (set_info ''FORENSIC_REPAIR_PATCH_INVALID''
       ''A proposed patched header failed final validation.''
       ''The reconstructed topology cannot be committed safely.''
       ''Do not force the write; preserve HDDMETA/FORENSIC.TXT.'')
     else if code = - 374 then Some (set_info ''FORENSIC_REPAIR_WRITE_FAILED''
       ''APA header write failed.''
       ''The current topology transaction stopped during HDIOC_WRITESECTOR.''
       ''Restart before further HDD work; some earlier interior headers may already be committed.'')
     else if code = - 375 then Some (set_info ''FORENSIC_REPAIR_FLUSH_FAILED''
       ''APA header flush failed.''
       ''Durability of the most recent metadata write is unknown.''
       ''Restart/power-cycle and rescan from raw evidence before any additional repair.'')
     else if code = - 376 then Some (set_info ''FORENSIC_REPAIR_READBACK_FAILED''
       ''APA header read-back failed.''
       ''The writer could not verify a committed header.''
       ''Restart and perform a complete raw forensic rescan.'')
     else if code = - 377 then Some (set_info ''FORENSIC_REPAIR_COMPARE_FAILED''
       ''APA header read-back differs from the repair image.''
       ''The physical disk does not contain exactly the bytes approved by the plan.''
       ''Stop writes, restart and investigate the disk/adapter using the saved HDDMETA snapshot.'')
     else None)"

definition describe_startup :: "int \<Rightarrow> app_error_info option" where
  "describe_startup code =
    (if code = - 101 then Some (set_info ''STARTUP_APA_MASTER_INVALID''
       ''APA master admission failed.''
       ''Sectors 0-1 did not pass the normal canonical APA/checksum gate.''
       ''Use the offered guarded recovery path if available; otherwise preserve raw evidence.'')
     else if code = - 102 then Some (set_info ''STARTUP_HYBRID_GPT_BLOCKED''
       ''Hybrid/protective APA-GPT layout is blocked.''
       ''The manager refuses write-capable admission for this mixed layout.''
       ''Do not bypass this guard; inspect the disk on a host first.'')
     else None)"

definition describe_kelf :: app_error_info where
  "describe_kelf = set_info ''KELF_LAYOUT_REJECTED''
       ''The bootstrap source is not a structurally valid KELF.''
       ''KELF layout validation rejected the file before signing or HDD writes were attempted.''
       ''Use a known-good stock MBR.XIN/XLF and do not bypass validation.''"

definition describe_iop :: app_error_info where
  "describe_iop = set_info ''IOP_DRIVER_ERROR''
       ''A PS2 I/O driver rejected the requested operation.''
       ''The raw negative driver code is intentionally preserved. Different IOP modules can reuse small numeric values, so the operation context is more reliable than guessing from the number alone.''
       ''Check the named operation/device, preserve logs, and retry only if the underlying media/path is known-good.''"

definition describe_unclassified :: app_error_info where
  "describe_unclassified = set_info ''UNCLASSIFIED_ERROR''
       ''The operation failed with an unclassified code.''
       ''No matching project-owned error entry exists for this domain/code pair yet.''
       ''Preserve HDDMAN.LOG and related recovery artifacts so the code can be classified without guessing.''"

definition describe_listed :: "app_error_domain \<Rightarrow> int \<Rightarrow> app_error_info option" where
  "describe_listed domain code = (case domain of
      APP_ERROR_DOMAIN_BOOTSTRAP_SOURCE \<Rightarrow> describe_bootstrap_source code
    | APP_ERROR_DOMAIN_KELF \<Rightarrow> Some describe_kelf
    | APP_ERROR_DOMAIN_HDD_BOUNDS \<Rightarrow> describe_hdd_bounds code
    | APP_ERROR_DOMAIN_HDD_WRITE \<Rightarrow> describe_hdd_write code
    | APP_ERROR_DOMAIN_REPAIR_SNAPSHOT \<Rightarrow> describe_repair_snapshot code
    | APP_ERROR_DOMAIN_MASTER_REPAIR \<Rightarrow> describe_master_repair code
    | APP_ERROR_DOMAIN_FORENSIC_SNAPSHOT \<Rightarrow> describe_forensic_snapshot code
    | APP_ERROR_DOMAIN_FORENSIC_REPAIR \<Rightarrow> describe_forensic_repair code
    | APP_ERROR_DOMAIN_STARTUP \<Rightarrow> describe_startup code
    | APP_ERROR_DOMAIN_IOP \<Rightarrow> Some describe_iop
    | APP_ERROR_DOMAIN_GENERIC \<Rightarrow> None)"

definition app_error_describe :: "app_error_domain \<Rightarrow> int \<Rightarrow> app_error_info" where
  "app_error_describe domain code = (case describe_listed domain code of
      Some info \<Rightarrow> info | None \<Rightarrow> describe_unclassified)"

section \<open>The table\<close>

text \<open>The codes the project's modules report, domain by domain.\<close>

definition reported_codes :: "(app_error_domain \<times> int) list" where
  "reported_codes =
    map (Pair APP_ERROR_DOMAIN_BOOTSTRAP_SOURCE) [- 120, - 121, - 122, - 123, - 124] @
    map (Pair APP_ERROR_DOMAIN_HDD_BOUNDS) [- 170, - 171, - 172, - 173] @
    map (Pair APP_ERROR_DOMAIN_HDD_WRITE) [- 1, - 2, - 3, - 4, - 130, - 131] @
    map (Pair APP_ERROR_DOMAIN_REPAIR_SNAPSHOT) [- 320, - 321, - 322, - 323] @
    map (Pair APP_ERROR_DOMAIN_MASTER_REPAIR) [- 330, - 331, - 332, - 333, - 334, - 335] @
    map (Pair APP_ERROR_DOMAIN_FORENSIC_SNAPSHOT) [- 360, - 361, - 362, - 363, - 364] @
    map (Pair APP_ERROR_DOMAIN_FORENSIC_REPAIR)
      [- 370, - 371, - 372, - 373, - 374, - 375, - 376, - 377] @
    map (Pair APP_ERROR_DOMAIN_STARTUP) [- 101, - 102]"

section \<open>Properties\<close>

text \<open>
  Every code the modules report has an entry of its own: the symbols of the table are
  pairwise distinct, none is the unclassified one, and a driver code is never interpreted.
\<close>

theorem reported_codes_classified:
  "distinct (map (\<lambda>(domain, code). info_symbol (app_error_describe domain code)) reported_codes) \<and>
    ''UNCLASSIFIED_ERROR'' \<notin>
      set (map (\<lambda>(domain, code). info_symbol (app_error_describe domain code)) reported_codes) \<and>
    app_error_describe APP_ERROR_DOMAIN_IOP code = describe_iop"
proof -
  have "distinct (''UNCLASSIFIED_ERROR'' #
      map (\<lambda>(domain, code). info_symbol (app_error_describe domain code)) reported_codes)"
    by code_simp
  then show ?thesis by (simp add: app_error_describe_def describe_listed_def)
qed

end
