(* ===== verification/HddTransport.thy ===== *)
theory HddTransport
  imports Apa HddBounds AppError
begin

text \<open>
  The raw disk transport: \<open>src/hdd_read.c\<close> and \<open>src/hdd_write.c\<close>.

  The IOP driver behind \<open>fileXioDevctl\<close> and \<open>fileXioGetStat\<close> is not part of the program: it is
  the parameter \<open>hdd_driver\<close>, an arbitrary function from a command and the device's state to a
  result, the bytes it returned and the next state.  The program's side of it is the record
  \<open>hdd_world\<close>: the device, the commands issued so far with their results and data, and the
  session's last error.  The progress display (\<open>disk_status_*\<close>) has no effect on either and is
  left out.  The lemmas hold for every driver, so they speak of what the program asks for and
  of what it accepts, whatever a disk answers.
\<close>

section \<open>The driver and the world\<close>

datatype hdd_command = HDIOC_READSECTOR u32 u32 | HDIOC_WRITESECTOR u32 u32 "byte list"
  | HDIOC_FLUSH | HDIOC_SETOSDMBR u32 u32 | HDIOC_STATUS | HDIOC_TOTALSECTOR | HDIOC_MAXSECTOR

record 'd hdd_driver =
  devctl :: "hdd_command \<Rightarrow> 'd \<Rightarrow> int \<times> byte list \<times> 'd"
  getstat_mbr :: "'d \<Rightarrow> int \<times> u32 \<times> u32 \<times> 'd"

text \<open>One issued command: what was asked, the result code and the data that came back.\<close>

type_synonym hdd_event = "hdd_command \<times> int \<times> byte list"

record 'd hdd_world =
  device :: 'd
  events :: "hdd_event list"
  errors :: app_error_state

definition issue_command ::
    "'d hdd_driver \<Rightarrow> hdd_command \<Rightarrow> 'd hdd_world \<Rightarrow> int \<times> byte list \<times> 'd hdd_world" where
  "issue_command drv cmd w = (let (result, out, dev) = devctl drv cmd (device w) in
     (result, out, w\<lparr>device := dev, events := events w @ [(cmd, result, out)]\<rparr>))"

definition record_error ::
    "app_error_domain \<Rightarrow> int \<Rightarrow> string \<Rightarrow> 'd hdd_world \<Rightarrow> 'd hdd_world" where
  "record_error domain code ctx w = w\<lparr>errors := app_error_record domain code (Some ctx) (errors w)\<rparr>"

section \<open>Reading\<close>

abbreviation (input) HDD_PAYLOAD_ERR_IMAGE_SECTORS :: int where
  "HDD_PAYLOAD_ERR_IMAGE_SECTORS \<equiv> - 174"
abbreviation (input) HDD_PAYLOAD_ERR_ALLOC :: int where "HDD_PAYLOAD_ERR_ALLOC \<equiv> - 175"

text \<open>The destination is cleared first; a driver that returns fewer bytes leaves zeros behind.\<close>

definition fill_buffer :: "nat \<Rightarrow> byte list \<Rightarrow> byte list" where
  "fill_buffer n out = blit 0 (take n out) (replicate n 0)"

definition hdd_read_raw_sectors ::
    "'d hdd_driver \<Rightarrow> u32 \<Rightarrow> u32 \<Rightarrow> 'd hdd_world \<Rightarrow> int \<times> byte list \<times> 'd hdd_world" where
  "hdd_read_raw_sectors drv lba sectors w =
    (let (result, out, w1) = issue_command drv (HDIOC_READSECTOR lba sectors) w in
     (result, fill_buffer (unat (sectors * HDD_SECTOR_SIZE)) out, w1))"

definition hdd_validate_payload_bounds ::
    "'d hdd_driver \<Rightarrow> u32 \<Rightarrow> u32 \<Rightarrow> 'd hdd_world \<Rightarrow> int \<times> 'd hdd_world" where
  "hdd_validate_payload_bounds drv start sectors w =
    (let result = hdd_validate_payload_shape start sectors in
     if result < 0
     then (result, record_error APP_ERROR_DOMAIN_HDD_BOUNDS result ''bootstrap pointer shape'' w)
     else let (stat_result, mbr_start, mbr_size, dev) = getstat_mbr drv (device w);
              w1 = w\<lparr>device := dev\<rparr> in
       if stat_result < 0
       then (stat_result,
         record_error APP_ERROR_DOMAIN_IOP stat_result ''fileXioGetStat hdd0:__mbr'' w1)
       else let result = hdd_validate_payload_bounds_geometry start sectors mbr_start mbr_size in
         if result < 0
         then (result, record_error APP_ERROR_DOMAIN_HDD_BOUNDS result ''live __mbr geometry'' w1)
         else (result, w1))"

text \<open>
  The read loop of \<open>hdd_read_payload_image\<close>, from a sector offset on.  The byte offset is
  always 512 times the sector offset; \<open>payload\<close> is what has been copied so far.
\<close>

function read_image_loop ::
    "'d hdd_driver \<Rightarrow> u32 \<Rightarrow> u32 \<Rightarrow> u32 \<Rightarrow> byte list \<Rightarrow> 'd hdd_world \<Rightarrow>
      (int + byte list) \<times> 'd hdd_world" where
  "read_image_loop drv start sectors sector_offset payload w =
    (if sector_offset < sectors then
       let remaining = sectors - sector_offset;
           chunk_sectors = (if remaining > HDD_TRANSFER_SECTORS then HDD_TRANSFER_SECTORS
             else remaining);
           (result, buffer, w1) = hdd_read_raw_sectors drv (start + sector_offset) chunk_sectors w in
       if result < 0
       then (Inl result,
         record_error APP_ERROR_DOMAIN_IOP result ''read active bootstrap payload'' w1)
       else read_image_loop drv start sectors (sector_offset + chunk_sectors) (payload @ buffer) w1
     else (Inr payload, w))"
  by pat_completeness auto

lemma offset_step:
  fixes n :: u32
  assumes "off < n"
  shows "unat (off + (if n - off > k then k else n - off)) =
    min (unat off + unat k) (unat n)"
proof -
  have sub: "unat (n - off) = unat n - unat off"
    using assms by (simp add: unat_sub_if_size word_less_nat_alt)
  show ?thesis
  proof (cases "n - off > k")
    case True
    then have "unat off + unat k < unat n" using sub assms by (simp add: word_less_nat_alt)
    moreover from this have "unat (off + k) = unat off + unat k"
      using unat_u32_bound [of n] by (intro unat_add_no_wrap(1)) simp
    ultimately show ?thesis using True by simp
  next
    case False
    then have "unat n \<le> unat off + unat k"
      using sub assms by (simp add: word_less_nat_alt not_less word_le_nat_alt)
    moreover have "off + (n - off) = n" by simp
    ultimately show ?thesis using False by simp
  qed
qed

termination read_image_loop
proof (relation "measure (\<lambda>(drv, start, sectors, sector_offset, payload, w).
    unat sectors - unat sector_offset)")
  fix drv :: "'d hdd_driver" and start sectors sector_offset remaining chunk_sectors :: u32
    and payload buffer y :: "byte list" and w w1 :: "'d hdd_world" and x xa result ya
  assume "sector_offset < sectors" and "remaining = sectors - sector_offset"
    and "chunk_sectors = (if remaining > 2 then 2 else remaining)"
  then show "((drv, start, sectors, sector_offset + chunk_sectors, payload @ buffer, w1),
      (drv, start, sectors, sector_offset, payload, w)) \<in> measure
        (\<lambda>(drv, start, sectors, sector_offset, payload, w). unat sectors - unat sector_offset)"
    using offset_step [of sector_offset sectors 2] by (auto simp: word_less_nat_alt)
qed auto

text \<open>\<open>malloc\<close> may fail: whether it succeeds is the parameter \<open>alloc_ok\<close>.\<close>

definition hdd_read_payload_image ::
    "'d hdd_driver \<Rightarrow> bool \<Rightarrow> u32 \<Rightarrow> u32 \<Rightarrow> 'd hdd_world \<Rightarrow> (int + byte list) \<times> 'd hdd_world" where
  "hdd_read_payload_image drv alloc_ok start sectors w =
    (if sectors = 0 \<or> sectors > HDD_MAX_MBR_PAYLOAD_SIZE div HDD_SECTOR_SIZE
     then (Inl HDD_PAYLOAD_ERR_IMAGE_SECTORS, w)
     else if \<not> alloc_ok then (Inl HDD_PAYLOAD_ERR_ALLOC, w)
     else read_image_loop drv start sectors 0 [] w)"

declare read_image_loop.simps [simp del]

section \<open>Writing\<close>

abbreviation (input) HDD_WRITE_HEADER_READ_FAILED :: int where "HDD_WRITE_HEADER_READ_FAILED \<equiv> - 1"
abbreviation (input) HDD_WRITE_HEADER_INVALID :: int where "HDD_WRITE_HEADER_INVALID \<equiv> - 2"
abbreviation (input) HDD_WRITE_START_MISMATCH :: int where "HDD_WRITE_START_MISMATCH \<equiv> - 3"
abbreviation (input) HDD_WRITE_SIZE_MISMATCH :: int where "HDD_WRITE_SIZE_MISMATCH \<equiv> - 4"
abbreviation (input) HDD_WRITE_PAYLOAD_FLUSH_FAILED :: int where
  "HDD_WRITE_PAYLOAD_FLUSH_FAILED \<equiv> - 130"
abbreviation (input) HDD_WRITE_PAYLOAD_COMPARE_FAILED :: int where
  "HDD_WRITE_PAYLOAD_COMPARE_FAILED \<equiv> - 131"

definition hdd_write_set_osd_mbr ::
    "'d hdd_driver \<Rightarrow> u32 \<Rightarrow> u32 \<Rightarrow> 'd hdd_world \<Rightarrow> int \<times> 'd hdd_world" where
  "hdd_write_set_osd_mbr drv start nsectors w =
    (let (result, _, w1) = issue_command drv (HDIOC_SETOSDMBR start nsectors) w in
     if result < 0
     then (result, record_error APP_ERROR_DOMAIN_IOP result ''HDIOC_SETOSDMBR'' w1)
     else let (result, _, w2) = issue_command drv HDIOC_FLUSH w1 in
       if result < 0
       then (result,
         record_error APP_ERROR_DOMAIN_IOP result ''HDIOC_FLUSH after SETOSDMBR'' w2)
       else (result, w2))"

text \<open>The destination header is only replaced by a read-back that passed every check.\<close>

definition hdd_write_verify_osd_mbr ::
    "'d hdd_driver \<Rightarrow> byte list \<Rightarrow> u32 \<Rightarrow> u32 \<Rightarrow> 'd hdd_world \<Rightarrow> int \<times> byte list \<times> 'd hdd_world" where
  "hdd_write_verify_osd_mbr drv destination expected_start expected_size w =
    (let (result, header, w1) = hdd_read_raw_sectors drv 0 2 w in
     if result < 0
     then (HDD_WRITE_HEADER_READ_FAILED, destination,
       record_error APP_ERROR_DOMAIN_HDD_WRITE HDD_WRITE_HEADER_READ_FAILED
         ''verify sectors 0-1 after pointer update'' w1)
     else if \<not> is_standard_apa_header header
     then (HDD_WRITE_HEADER_INVALID, destination,
       record_error APP_ERROR_DOMAIN_HDD_WRITE HDD_WRITE_HEADER_INVALID
         ''verify canonical APA master'' w1)
     else if read_le32 header APA_OSD_START_OFFSET \<noteq> expected_start
     then (HDD_WRITE_START_MISMATCH, destination,
       record_error APP_ERROR_DOMAIN_HDD_WRITE HDD_WRITE_START_MISMATCH
         ''verify osdStart read-back'' w1)
     else if read_le32 header APA_OSD_SIZE_OFFSET \<noteq> expected_size
     then (HDD_WRITE_SIZE_MISMATCH, destination,
       record_error APP_ERROR_DOMAIN_HDD_WRITE HDD_WRITE_SIZE_MISMATCH
         ''verify osdSize read-back'' w1)
     else (0, header, w1))"

text \<open>The transfer buffer of one step of the payload loops, cleared and then filled.\<close>

definition transfer_bytes :: "u32 \<Rightarrow> u32 \<Rightarrow> u32" where
  "transfer_bytes payload_size offset = (let remaining = payload_size - offset in
     if remaining > HDD_TRANSFER_BYTES then HDD_TRANSFER_BYTES else remaining)"

definition transfer_sectors :: "u32 \<Rightarrow> u32" where
  "transfer_sectors nbytes = (nbytes + HDD_SECTOR_SIZE - 1) div HDD_SECTOR_SIZE"

definition transfer_data :: "byte list \<Rightarrow> u32 \<Rightarrow> u32 \<Rightarrow> byte list" where
  "transfer_data payload offset nbytes =
    blit 0 (bytes_at (unat offset) (unat nbytes) payload) (replicate 1024 0)"

lemma transfer_bytes_step:
  "offset < n \<Longrightarrow> unat (offset + transfer_bytes n offset) = min (unat offset + 1024) (unat n)"
  using offset_step [of offset n 1024] by (simp add: transfer_bytes_def Let_def)

function write_payload_loop ::
    "'d hdd_driver \<Rightarrow> byte list \<Rightarrow> u32 \<Rightarrow> u32 \<Rightarrow> u32 \<Rightarrow> u32 \<Rightarrow> 'd hdd_world \<Rightarrow> int \<times> 'd hdd_world" where
  "write_payload_loop drv payload payload_size start_sector offset sector_offset w =
    (if offset < payload_size then
       let nbytes = transfer_bytes payload_size offset;
           sectors = transfer_sectors nbytes;
           data = take (unat (sectors * HDD_SECTOR_SIZE)) (transfer_data payload offset nbytes);
           (result, _, w1) = issue_command drv
             (HDIOC_WRITESECTOR (start_sector + sector_offset) sectors data) w in
       if result < 0
       then (result,
         record_error APP_ERROR_DOMAIN_IOP result ''HDIOC_WRITESECTOR bootstrap payload'' w1)
       else write_payload_loop drv payload payload_size start_sector
         (offset + nbytes) (sector_offset + sectors) w1
     else (0, w))"
  by pat_completeness auto

termination write_payload_loop
  by (relation "measure (\<lambda>(drv, payload, n, start, offset, sector_offset, w).
        unat n - unat offset)")
    (auto simp: transfer_bytes_step word_less_nat_alt)

function verify_payload_loop ::
    "'d hdd_driver \<Rightarrow> byte list \<Rightarrow> u32 \<Rightarrow> u32 \<Rightarrow> u32 \<Rightarrow> u32 \<Rightarrow> 'd hdd_world \<Rightarrow> int \<times> 'd hdd_world" where
  "verify_payload_loop drv payload payload_size start_sector offset sector_offset w =
    (if offset < payload_size then
       let nbytes = transfer_bytes payload_size offset;
           sectors = transfer_sectors nbytes;
           m = unat (sectors * HDD_SECTOR_SIZE);
           (result, buffer, w1) =
             hdd_read_raw_sectors drv (start_sector + sector_offset) sectors w in
       if result < 0 then (result, w1)
       else if take m (transfer_data payload offset nbytes) \<noteq> take m buffer
       then (HDD_WRITE_PAYLOAD_COMPARE_FAILED,
         record_error APP_ERROR_DOMAIN_HDD_WRITE HDD_WRITE_PAYLOAD_COMPARE_FAILED
           ''compare bootstrap payload read-back'' w1)
       else verify_payload_loop drv payload payload_size start_sector
         (offset + nbytes) (sector_offset + sectors) w1
     else (0, w))"
  by pat_completeness auto

termination verify_payload_loop
  by (relation "measure (\<lambda>(drv, payload, n, start, offset, sector_offset, w).
        unat n - unat offset)")
    (auto simp: transfer_bytes_step word_less_nat_alt)

declare write_payload_loop.simps [simp del] and verify_payload_loop.simps [simp del]

definition hdd_write_payload_verified ::
    "'d hdd_driver \<Rightarrow> byte list \<Rightarrow> u32 \<Rightarrow> u32 \<Rightarrow> 'd hdd_world \<Rightarrow> int \<times> 'd hdd_world" where
  "hdd_write_payload_verified drv payload payload_size start_sector w =
    (let (result, w1) = write_payload_loop drv payload payload_size start_sector 0 0 w in
     if result < 0 then (result, w1)
     else let (result, _, w2) = issue_command drv HDIOC_FLUSH w1 in
       if result < 0
       then (HDD_WRITE_PAYLOAD_FLUSH_FAILED,
         record_error APP_ERROR_DOMAIN_HDD_WRITE HDD_WRITE_PAYLOAD_FLUSH_FAILED
           ''flush bootstrap payload'' w2)
       else verify_payload_loop drv payload payload_size start_sector 0 0 w2)"

section \<open>What a payload transaction asks of the disk\<close>

text \<open>
  A payload is transferred as chunks of up to two sectors, the last one filled up with zeros to
  a whole sector; \<open>chunk_commands\<close> issues one command per chunk at consecutive sectors.
\<close>

definition pad_sector :: "byte list \<Rightarrow> byte list" where
  "pad_sector c = c @ replicate ((512 - length c mod 512) mod 512) 0"

fun payload_chunks :: "byte list \<Rightarrow> byte list list" where
  "payload_chunks p = (if p = [] then [] else pad_sector (take 1024 p) # payload_chunks (drop 1024 p))"

declare payload_chunks.simps [simp del]

definition chunk_sectors :: "byte list \<Rightarrow> u32" where
  "chunk_sectors c = of_nat (length c div 512)"

fun chunk_commands ::
    "(u32 \<Rightarrow> u32 \<Rightarrow> byte list \<Rightarrow> hdd_command) \<Rightarrow> u32 \<Rightarrow> byte list list \<Rightarrow> hdd_command list" where
  "chunk_commands mk lba [] = []"
| "chunk_commands mk lba (c # cs) =
    mk lba (chunk_sectors c) c # chunk_commands mk (lba + chunk_sectors c) cs"

abbreviation write_commands :: "u32 \<Rightarrow> byte list list \<Rightarrow> hdd_command list" where
  "write_commands \<equiv> chunk_commands HDIOC_WRITESECTOR"

abbreviation read_commands :: "u32 \<Rightarrow> byte list list \<Rightarrow> hdd_command list" where
  "read_commands \<equiv> chunk_commands (\<lambda>lba n c. HDIOC_READSECTOR lba n)"

text \<open>The events read back the chunks exactly.\<close>

definition reads_confirm :: "byte list list \<Rightarrow> hdd_event list \<Rightarrow> bool" where
  "reads_confirm chunks evs \<longleftrightarrow>
    list_all2 (\<lambda>c (cmd, result, out). 0 \<le> result \<and> fill_buffer (length c) out = c) chunks evs"

definition all_succeed :: "hdd_event list \<Rightarrow> bool" where
  "all_succeed evs \<longleftrightarrow> (\<forall>(cmd, result, out) \<in> set evs. 0 \<le> result)"

fun is_write :: "hdd_command \<Rightarrow> bool" where
  "is_write (HDIOC_WRITESECTOR lba n d) = True"
| "is_write cmd = False"

fun is_read :: "hdd_command \<Rightarrow> bool" where
  "is_read (HDIOC_READSECTOR lba n) = True"
| "is_read cmd = False"

fun is_pointer :: "hdd_command \<Rightarrow> bool" where
  "is_pointer (HDIOC_SETOSDMBR start n) = True"
| "is_pointer cmd = False"

definition only :: "(hdd_command \<Rightarrow> bool) \<Rightarrow> hdd_event list \<Rightarrow> bool" where
  "only P evs \<longleftrightarrow> (\<forall>e \<in> set evs. P (fst e))"

lemma only_simps [simp]: "only P []" "only P (e # evs) \<longleftrightarrow> P (fst e) \<and> only P evs"
  "only P (evs @ evs') \<longleftrightarrow> only P evs \<and> only P evs'"
  by (auto simp: only_def)

lemma all_succeed_simps [simp]: "all_succeed []"
  "all_succeed ((cmd, r, out) # evs) \<longleftrightarrow> 0 \<le> r \<and> all_succeed evs"
  "all_succeed (evs @ evs') \<longleftrightarrow> all_succeed evs \<and> all_succeed evs'"
  by (simp_all add: all_succeed_def ball_Un)

lemma reads_confirm_simps [simp]: "reads_confirm [] evs \<longleftrightarrow> evs = []"
  "reads_confirm (c # cs) ((cmd, r, out) # evs) \<longleftrightarrow>
    0 \<le> r \<and> fill_buffer (length c) out = c \<and> reads_confirm cs evs"
  by (auto simp: reads_confirm_def)

lemma length_fill_buffer [simp]: "length (fill_buffer n out) = n"
  by (simp add: fill_buffer_def)

lemma record_error_simps [simp]: "events (record_error d c x w) = events w"
  "device (record_error d c x w) = device w"
  by (simp_all add: record_error_def)

lemma round_up_512: "n + (512 - n mod 512) mod 512 = 512 * ((n + 511) div 512)" for n :: nat
proof -
  define q where "q = n div 512"
  define r where "r = n mod 512"
  have n: "n = 512 * q + r" and r: "r < 512" by (simp_all add: q_def r_def)
  have "(n + 511) div 512 = q + (r + 511) div 512" unfolding n by simp
  moreover have "(r + 511) div 512 = (if r = 0 then 0 else 1)"
    using r by (simp add: div_nat_eqI)
  ultimately show ?thesis using r unfolding r_def [symmetric] by (simp add: n)
qed

lemma length_pad_sector: "length (pad_sector c) = 512 * ((length c + 511) div 512)"
  using round_up_512 [of "length c"] by (simp add: pad_sector_def)

lemma chunk_step:
  assumes off: "off < n" and n: "unat n = length p"
  defines "nbytes \<equiv> transfer_bytes n off"
  defines "c \<equiv> pad_sector (take 1024 (drop (unat off) p))"
  shows "take (length c) (transfer_data p off nbytes) = c"
    and "transfer_sectors nbytes = chunk_sectors c"
    and "unat (transfer_sectors nbytes * 512) = length c"
proof -
  let ?x = "take 1024 (drop (unat off) p)"
  define b where "b = unat nbytes"
  have lt: "unat off < length p" using off n by (simp add: word_less_nat_alt)
  have b: "b = min 1024 (length p - unat off)"
  proof -
    have "unat (n - off) = length p - unat off"
      using off n by (simp add: unat_sub_if_size word_less_nat_alt)
    then show ?thesis
      by (simp add: b_def nbytes_def transfer_bytes_def Let_def word_less_nat_alt min_def)
  qed
  have b_pos: "0 < b" "b \<le> 1024" using b lt by auto
  have x: "length ?x = b" "bytes_at (unat off) b p = ?x" using b by (auto simp: bytes_at_def min_def)
  have len: "length c = 512 * ((b + 511) div 512)" unfolding c_def length_pad_sector x(1) ..
  have "unat (nbytes + 512 - 1) = b + 511"
  proof -
    have "nbytes + 512 - 1 = nbytes + 511" by simp
    moreover have "unat (nbytes + 511) = b + 511"
      unfolding b_def using b_pos(2) b_def by (subst unat_add_no_wrap(1)) auto
    ultimately show ?thesis by (simp only:)
  qed
  then have s: "unat (transfer_sectors nbytes) = (b + 511) div 512"
    by (simp add: transfer_sectors_def unat_div)
  have small: "(b + 511) div 512 \<le> 2" using b_pos(2) by linarith
  show m: "unat (transfer_sectors nbytes * 512) = length c"
    using small by (simp add: unat_word_ariths s len)
  show "transfer_sectors nbytes = chunk_sectors c"
    using s len small unat_of_nat_small(2) [of "(b + 511) div 512"]
    by (simp add: chunk_sectors_def word_unat_eq_iff)
  have big: "b \<le> length c" "length c \<le> 1024" using len small b_pos by linarith+
  have buffer: "transfer_data p off nbytes = ?x @ replicate (1024 - b) 0"
    unfolding transfer_data_def b_def [symmetric] x(2) blit_def
    using x(1) b_pos(2) by simp
  have "length c = b + (512 - b mod 512) mod 512" unfolding c_def pad_sector_def using x(1) by simp
  then have "c = ?x @ replicate (length c - b) 0" unfolding c_def pad_sector_def using x(1) by simp
  moreover have "take (length c) (?x @ replicate (1024 - b) 0) = ?x @ replicate (length c - b) 0"
  proof -
    have "take (length c) (ys @ replicate (1024 - b) 0) = ys @ replicate (length c - b) 0"
      if "length ys = b" for ys :: "byte list"
      using big that by simp
    then show ?thesis using x(1) by blast
  qed
  ultimately show "take (length c) (transfer_data p off nbytes) = c" unfolding buffer by simp
qed

lemma chunks_step:
  assumes "off < n" and "unat n = length p"
  shows "payload_chunks (drop (unat off) p) =
    pad_sector (take 1024 (drop (unat off) p)) #
      payload_chunks (drop (unat (off + transfer_bytes n off)) p)"
proof -
  have "unat (off + transfer_bytes n off) = min (unat off + 1024) (length p)"
    using transfer_bytes_step [OF assms(1)] assms(2) by simp
  then have "drop (unat (off + transfer_bytes n off)) p = drop 1024 (drop (unat off) p)"
    by (simp add: min_def add.commute)
  moreover have "drop (unat off) p \<noteq> []" using assms by (simp add: word_less_nat_alt)
  ultimately show ?thesis by (simp add: payload_chunks.simps [of "drop (unat off) p"])
qed


lemma issue_command_events:
  "issue_command drv cmd w = (r, out, w') \<Longrightarrow> events w' = events w @ [(cmd, r, out)]"
  by (auto simp: issue_command_def split: prod.splits)

lemma read_raw_events:
  assumes "hdd_read_raw_sectors drv lba n w = (r, buf, w')"
  shows "\<exists>out. events w' = events w @ [(HDIOC_READSECTOR lba n, r, out)] \<and>
    buf = fill_buffer (unat (n * 512)) out"
  using assms issue_command_events
  by (fastforce simp: hdd_read_raw_sectors_def split: prod.splits)

lemma write_loop_events:
  assumes "write_payload_loop drv p n start off so w = (r, w')" and "unat n = length p"
  shows "\<exists>evs. events w' = events w @ evs \<and> only is_write evs \<and> r \<le> 0 \<and>
    (r = 0 \<longrightarrow> all_succeed evs \<and>
      map fst evs = write_commands (start + so) (payload_chunks (drop (unat off) p)))"
  using assms
proof (induction drv p n start off so w arbitrary: r w' rule: write_payload_loop.induct)
  case (1 drv p n start off so w)
  show ?case
  proof (cases "off < n")
    case False
    then have "drop (unat off) p = []" using "1.prems"(2) by (simp add: word_less_nat_alt)
    then show ?thesis
      using False "1.prems"(1) by (simp add: write_payload_loop.simps [of drv p n start off so w]
          payload_chunks.simps [of "[]"])
  next
    case True
    define nb where "nb = transfer_bytes n off"
    define s where "s = transfer_sectors nb"
    define d where "d = take (unat (s * 512)) (transfer_data p off nb)"
    define c where "c = pad_sector (take 1024 (drop (unat off) p))"
    have step: "d = c" "s = chunk_sectors c"
      using chunk_step [OF True "1.prems"(2)] by (simp_all add: nb_def s_def c_def d_def)
    have chunks: "payload_chunks (drop (unat off) p) = c # payload_chunks (drop (unat (off + nb)) p)"
      using chunks_step [OF True "1.prems"(2)] by (simp add: nb_def c_def)
    obtain r1 out1 w1 where call:
        "issue_command drv (HDIOC_WRITESECTOR (start + so) s d) w = (r1, out1, w1)"
      by (cases "issue_command drv (HDIOC_WRITESECTOR (start + so) s d) w")
    note ev = issue_command_events [OF call]
    have unfold: "write_payload_loop drv p n start off so w =
        (if r1 < 0 then (r1, record_error APP_ERROR_DOMAIN_IOP r1
          ''HDIOC_WRITESECTOR bootstrap payload'' w1)
         else write_payload_loop drv p n start (off + nb) (so + s) w1)"
      using True call
      by (simp add: write_payload_loop.simps [of drv p n start off so w] nb_def s_def d_def Let_def)
    show ?thesis
    proof (cases "r1 < 0")
      case True
      then show ?thesis
        using "1.prems"(1) ev unfold by (intro exI [of _ "[(HDIOC_WRITESECTOR (start + so) s d, r1, out1)]"]) auto
    next
      case False
      then have rec: "write_payload_loop drv p n start (off + nb) (so + s) w1 = (r, w')"
        using "1.prems"(1) unfold by simp
      note "1.IH" [OF True nb_def s_def d_def refl call [symmetric] refl False rec "1.prems"(2)]
      then obtain evs where "events w' = events w1 @ evs" "only is_write evs" "r \<le> 0"
        "r = 0 \<longrightarrow> all_succeed evs \<and> map fst evs =
            write_commands (start + (so + s)) (payload_chunks (drop (unat (off + nb)) p))" by blast
      then show ?thesis
        using ev False step chunks
        by (intro exI [of _ "(HDIOC_WRITESECTOR (start + so) s d, r1, out1) # evs"])
          (auto simp: add.assoc)
    qed
  qed
qed


lemma verify_loop_events:
  assumes "verify_payload_loop drv p n start off so w = (r, w')" and "unat n = length p"
  shows "\<exists>evs. events w' = events w @ evs \<and> only is_read evs \<and> r \<le> 0 \<and>
    (r = 0 \<longrightarrow> reads_confirm (payload_chunks (drop (unat off) p)) evs \<and>
      map fst evs = read_commands (start + so) (payload_chunks (drop (unat off) p)))"
  using assms
proof (induction drv p n start off so w arbitrary: r w' rule: verify_payload_loop.induct)
  case (1 drv p n start off so w)
  show ?case
  proof (cases "off < n")
    case False
    then have "drop (unat off) p = []" using "1.prems"(2) by (simp add: word_less_nat_alt)
    then show ?thesis
      using False "1.prems"(1) by (simp add: verify_payload_loop.simps [of drv p n start off so w]
          payload_chunks.simps [of "[]"])
  next
    case True
    define nb where "nb = transfer_bytes n off"
    define s where "s = transfer_sectors nb"
    define m where "m = unat (s * 512)"
    define c where "c = pad_sector (take 1024 (drop (unat off) p))"
    have step: "take m (transfer_data p off nb) = c" "s = chunk_sectors c" "m = length c"
      using chunk_step [OF True "1.prems"(2)] by (simp_all add: nb_def s_def c_def m_def)
    have chunks: "payload_chunks (drop (unat off) p) = c # payload_chunks (drop (unat (off + nb)) p)"
      using chunks_step [OF True "1.prems"(2)] by (simp add: nb_def c_def)
    obtain r1 buf w1 where call: "hdd_read_raw_sectors drv (start + so) s w = (r1, buf, w1)"
      by (cases "hdd_read_raw_sectors drv (start + so) s w")
    obtain out where ev: "events w1 = events w @ [(HDIOC_READSECTOR (start + so) s, r1, out)]"
      and buf: "buf = fill_buffer m out"
      using read_raw_events [OF call] by (auto simp: m_def)
    have unfold: "verify_payload_loop drv p n start off so w =
        (if r1 < 0 then (r1, w1)
         else if take m (transfer_data p off nb) \<noteq> take m buf
         then (HDD_WRITE_PAYLOAD_COMPARE_FAILED,
           record_error APP_ERROR_DOMAIN_HDD_WRITE HDD_WRITE_PAYLOAD_COMPARE_FAILED
             ''compare bootstrap payload read-back'' w1)
         else verify_payload_loop drv p n start (off + nb) (so + s) w1)"
      using True call
      by (simp add: verify_payload_loop.simps [of drv p n start off so w] nb_def s_def m_def Let_def)
    show ?thesis
    proof (cases "r1 < 0 \<or> take m (transfer_data p off nb) \<noteq> take m buf")
      case True
      then show ?thesis
        using "1.prems"(1) ev unfold
        by (intro exI [of _ "[(HDIOC_READSECTOR (start + so) s, r1, out)]"]) (auto split: if_splits)
    next
      case ok: False
      then have r1: "\<not> r1 < 0" and same: "\<not> take m (transfer_data p off nb) \<noteq> take m buf" by auto
      have rec: "verify_payload_loop drv p n start (off + nb) (so + s) w1 = (r, w')"
        using "1.prems"(1) unfold r1 same by simp
      note "1.IH" [OF True nb_def s_def m_def refl call [symmetric] refl r1 same rec "1.prems"(2)]
      then obtain evs where "events w' = events w1 @ evs" "only is_read evs" "r \<le> 0"
        "r = 0 \<longrightarrow> reads_confirm (payload_chunks (drop (unat (off + nb)) p)) evs \<and>
          map fst evs = read_commands (start + (so + s)) (payload_chunks (drop (unat (off + nb)) p))"
        by blast
      moreover have "fill_buffer (length c) out = c"
        using same step buf by (simp add: buf)
      ultimately show ?thesis
        using ev r1 step chunks
        by (intro exI [of _ "(HDIOC_READSECTOR (start + so) s, r1, out) # evs"])
          (auto simp: add.assoc)
    qed
  qed
qed

text \<open>
  The events of a confirmed payload: every chunk written in order, then a flush, then every chunk
  read back equal; nothing failed.
\<close>

definition payload_confirmed :: "u32 \<Rightarrow> byte list \<Rightarrow> hdd_event list \<Rightarrow> bool" where
  "payload_confirmed start p evs \<longleftrightarrow> (\<exists>ws flush_result flush_out rs.
    evs = ws @ [(HDIOC_FLUSH, flush_result, flush_out)] @ rs \<and>
    map fst ws = write_commands start (payload_chunks p) \<and> all_succeed ws \<and>
    0 \<le> flush_result \<and>
    map fst rs = read_commands start (payload_chunks p) \<and> reads_confirm (payload_chunks p) rs)"

lemma only_mono: "only P evs \<Longrightarrow> (\<And>c. P c \<Longrightarrow> Q c) \<Longrightarrow> only Q evs"
  by (auto simp: only_def)

lemma not_pointer: "is_write c \<Longrightarrow> \<not> is_pointer c" "is_read c \<Longrightarrow> \<not> is_pointer c"
  "\<not> is_pointer HDIOC_FLUSH"
  by (cases c; simp)+

lemma payload_verified_events:
  assumes "hdd_write_payload_verified drv p n start w = (r, w')" and n: "unat n = length p"
  shows "\<exists>evs. events w' = events w @ evs \<and> only (\<lambda>c. \<not> is_pointer c) evs \<and> r \<le> 0 \<and>
    (r = 0 \<longrightarrow> payload_confirmed start p evs)"
proof -
  obtain r1 w1 where wrote: "write_payload_loop drv p n start 0 0 w = (r1, w1)"
    by (cases "write_payload_loop drv p n start 0 0 w")
  obtain ws where ws: "events w1 = events w @ ws" "only is_write ws" "r1 \<le> 0"
    "r1 = 0 \<longrightarrow> all_succeed ws \<and> map fst ws = write_commands start (payload_chunks p)"
    using write_loop_events [OF wrote n] by auto
  have nws: "only (\<lambda>c. \<not> is_pointer c) ws" using ws(2) not_pointer(1) by (rule only_mono)
  show ?thesis
  proof (cases "r1 < 0")
    case True
    then show ?thesis
      using assms(1) wrote ws nws by (auto simp: hdd_write_payload_verified_def)
  next
    case False
    obtain r2 out2 w2 where flush: "issue_command drv HDIOC_FLUSH w1 = (r2, out2, w2)"
      by (cases "issue_command drv HDIOC_FLUSH w1")
    note ev2 = issue_command_events [OF flush]
    show ?thesis
    proof (cases "r2 < 0")
      case True
      then show ?thesis
        using assms(1) wrote flush False ws ev2 nws
        by (intro exI [of _ "ws @ [(HDIOC_FLUSH, r2, out2)]"])
          (auto simp: hdd_write_payload_verified_def not_pointer)
    next
      case ok: False
      then have "verify_payload_loop drv p n start 0 0 w2 = (r, w')"
        using assms(1) wrote flush False by (simp add: hdd_write_payload_verified_def)
      from verify_loop_events [OF this n] obtain rs where rs: "events w' = events w2 @ rs"
        "only is_read rs" "r \<le> 0" "r = 0 \<longrightarrow> reads_confirm (payload_chunks p) rs \<and>
          map fst rs = read_commands start (payload_chunks p)" by auto
      have "only (\<lambda>c. \<not> is_pointer c) rs" using rs(2) not_pointer(2) by (rule only_mono)
      moreover have "payload_confirmed start p (ws @ [(HDIOC_FLUSH, r2, out2)] @ rs)" if "r = 0"
        unfolding payload_confirmed_def
        by (rule exI [of _ ws], rule exI [of _ r2], rule exI [of _ out2], rule exI [of _ rs])
          (use that False ok ws rs in auto)
      ultimately show ?thesis
        using ws ev2 rs nws
        by (intro exI [of _ "ws @ [(HDIOC_FLUSH, r2, out2)] @ rs"]) (auto simp: not_pointer)
    qed
  qed
qed

text \<open>The pointer update and its verification.\<close>

definition pointer_committed :: "u32 \<Rightarrow> u32 \<Rightarrow> hdd_event list \<Rightarrow> bool" where
  "pointer_committed start n evs \<longleftrightarrow> (\<exists>r1 out1 r2 out2.
    evs = [(HDIOC_SETOSDMBR start n, r1, out1), (HDIOC_FLUSH, r2, out2)] \<and> 0 \<le> r1 \<and> 0 \<le> r2)"

lemma set_osd_mbr_events:
  assumes "hdd_write_set_osd_mbr drv start n w = (r, w')"
  shows "\<exists>evs. events w' = events w @ evs \<and>
    only (\<lambda>c. c = HDIOC_SETOSDMBR start n \<or> c = HDIOC_FLUSH) evs \<and>
    (0 \<le> r \<longrightarrow> pointer_committed start n evs)"
  using assms issue_command_events
  by (fastforce simp: hdd_write_set_osd_mbr_def pointer_committed_def
      split: prod.splits if_splits)

lemma verify_osd_mbr_events:
  assumes "hdd_write_verify_osd_mbr drv dst start n w = (r, dst', w')"
  shows "\<exists>r1 out. events w' = events w @ [(HDIOC_READSECTOR 0 2, r1, out)] \<and> r \<le> 0 \<and>
    (r < 0 \<longrightarrow> dst' = dst) \<and>
    (r = 0 \<longrightarrow> 0 \<le> r1 \<and> dst' = fill_buffer 1024 out \<and> is_standard_apa_header dst' \<and>
      read_le32 dst' APA_OSD_START_OFFSET = start \<and> read_le32 dst' APA_OSD_SIZE_OFFSET = n)"
proof -
  obtain r1 buf w1 where call: "hdd_read_raw_sectors drv 0 2 w = (r1, buf, w1)"
    by (cases "hdd_read_raw_sectors drv 0 2 w")
  obtain out where "events w1 = events w @ [(HDIOC_READSECTOR 0 2, r1, out)]"
    "buf = fill_buffer 1024 out"
    using read_raw_events [OF call] by auto
  then show ?thesis
    using assms call by (auto simp: hdd_write_verify_osd_mbr_def split: if_splits)
qed

lemma read_image_loop_events:
  assumes "read_image_loop drv start n so payload w = (r, w')" and "so \<le> n" and "unat n \<le> 8192"
    and "length payload = 512 * unat so"
  shows "\<exists>evs. events w' = events w @ evs \<and> only is_read evs \<and>
    (\<forall>image. r = Inr image \<longrightarrow> all_succeed evs \<and> length image = 512 * unat n)"
  using assms
proof (induction drv start n so payload w arbitrary: r w' rule: read_image_loop.induct)
  case (1 drv start n so payload w)
  show ?case
  proof (cases "so < n")
    case False
    then have "so = n" using "1.prems"(2) by simp
    moreover have "read_image_loop drv start n so payload w = (Inr payload, w)"
      using False by (simp add: read_image_loop.simps [of drv start n so payload w])
    ultimately show ?thesis using "1.prems"(1,4) by auto
  next
    case True
    define k where "k = (if n - so > 2 then 2 else n - so)"
    obtain r1 buf w1 where call: "hdd_read_raw_sectors drv (start + so) k w = (r1, buf, w1)"
      by (cases "hdd_read_raw_sectors drv (start + so) k w")
    obtain out where ev: "events w1 = events w @ [(HDIOC_READSECTOR (start + so) k, r1, out)]"
      and buf: "buf = fill_buffer (unat (k * 512)) out"
      using read_raw_events [OF call] by auto
    have unfold: "read_image_loop drv start n so payload w = (if r1 < 0 then (Inl r1,
          record_error APP_ERROR_DOMAIN_IOP r1 ''read active bootstrap payload'' w1)
        else read_image_loop drv start n (so + k) (payload @ buf) w1)"
      using True call
      by (simp add: read_image_loop.simps [of drv start n so payload w] k_def Let_def)
    show ?thesis
    proof (cases "r1 < 0")
      case True
      then show ?thesis
        using "1.prems"(1) ev unfold
        by (intro exI [of _ "[(HDIOC_READSECTOR (start + so) k, r1, out)]"]) auto
    next
      case ok: False
      then have rec: "read_image_loop drv start n (so + k) (payload @ buf) w1 = (r, w')"
        using "1.prems"(1) unfold by simp
      have sum: "unat (so + k) = min (unat so + 2) (unat n)"
        using offset_step [OF True, of 2] by (simp add: k_def)
      have small: "unat k \<le> 2"
        by (simp add: k_def word_less_nat_alt not_less)
      then have "unat so + unat k < 2 ^ 32"
        using True "1.prems"(3) by (simp add: word_less_nat_alt)
      then have k: "unat (so + k) = unat so + unat k" by (rule unat_add_no_wrap(1))
      have "unat (k * 512) = unat k * 512" using small by (simp add: unat_word_ariths)
      then have len: "length (payload @ buf) = 512 * unat (so + k)"
        using "1.prems"(4) by (simp add: buf k)
      have le: "so + k \<le> n" using sum by (simp add: word_le_nat_alt)
      note "1.IH" [OF True refl k_def refl call [symmetric] refl ok rec le "1.prems"(3) len]
      then obtain evs where "events w' = events w1 @ evs" "only is_read evs"
        "\<forall>image. r = Inr image \<longrightarrow> all_succeed evs \<and> length image = 512 * unat n" by blast
      then show ?thesis
        using ev ok by (intro exI [of _ "(HDIOC_READSECTOR (start + so) k, r1, out) # evs"]) auto
    qed
  qed
qed

lemma read_image_reads:
  assumes "hdd_read_payload_image drv alloc_ok start sectors w = (r, w')"
  shows "\<exists>evs. events w' = events w @ evs \<and> only is_read evs \<and>
    (\<forall>image. r = Inr image \<longrightarrow> sectors \<noteq> 0 \<and> sectors \<le> 8192 \<and> length image = 512 * unat sectors)"
proof (cases "alloc_ok \<and> sectors \<noteq> 0 \<and> sectors \<le> 8192")
  case True
  then have "read_image_loop drv start sectors 0 [] w = (r, w')"
    using assms by (simp add: hdd_read_payload_image_def not_less [symmetric])
  from read_image_loop_events [OF this] show ?thesis
    using True by (auto simp: word_le_nat_alt)
next
  case False
  then show ?thesis
    using assms by (auto simp: hdd_read_payload_image_def not_less split: if_splits)
qed

section \<open>Properties\<close>

text \<open>
  Reading the active payload only ever issues read commands, and an image that is
  returned is complete: every read succeeded and the image has 512 bytes for each sector asked.
\<close>

theorem payload_read_complete:
  assumes "hdd_read_payload_image drv alloc_ok start sectors w = (r, w')"
  shows "\<exists>evs. events w' = events w @ evs \<and> only is_read evs \<and>
    (\<forall>image. r = Inr image \<longrightarrow> all_succeed evs \<and> length image = 512 * unat sectors)"
proof (cases "alloc_ok \<and> sectors \<noteq> 0 \<and> sectors \<le> 8192")
  case True
  then have "read_image_loop drv start sectors 0 [] w = (r, w')"
    using assms by (simp add: hdd_read_payload_image_def not_less [symmetric])
  from read_image_loop_events [OF this] show ?thesis
    using True by (simp add: word_le_nat_alt)
next
  case False
  then show ?thesis
    using assms by (auto simp: hdd_read_payload_image_def not_less split: if_splits)
qed

text \<open>A disk of zeros on which every command succeeds.\<close>

definition zero_driver :: "unit hdd_driver" where
  "zero_driver = \<lparr>devctl = \<lambda>cmd d. (case cmd of
      HDIOC_READSECTOR lba n \<Rightarrow> (0, replicate (unat (n * 512)) 0, d) | _ \<Rightarrow> (0, [], d)),
    getstat_mbr = \<lambda>d. (0, 0, 0x40000, d)\<rparr>"

definition fresh_world :: "'d \<Rightarrow> 'd hdd_world" where
  "fresh_world d = \<lparr>device = d, events = [], errors =
    \<lparr>last_error = \<lparr>err_domain = APP_ERROR_DOMAIN_GENERIC, err_code = 0, err_context = []\<rparr>,
     last_error_valid = False\<rparr>\<rparr>"

theorem payload_read_complete_witness:
  "\<exists>evs. events (snd (hdd_read_payload_image zero_driver True 8192 3 (fresh_world ()))) = evs \<and>
    only is_read evs"
  using payload_read_complete [of zero_driver True 8192 3 "fresh_world ()", OF surjective_pairing]
  by (auto simp: fresh_world_def)

end
