(* ===== verification/Ctype.thy ===== *)
theory Ctype
  imports Buffers
begin

text \<open>
  The character classes of \<open>ctype.h\<close> in the C locale, on bytes, and C strings as the byte lists
  before their terminator.
\<close>

definition is_digit :: "byte \<Rightarrow> bool" where "is_digit c \<longleftrightarrow> 0x30 \<le> c \<and> c \<le> 0x39"
definition is_upper :: "byte \<Rightarrow> bool" where "is_upper c \<longleftrightarrow> 0x41 \<le> c \<and> c \<le> 0x5a"
definition is_lower :: "byte \<Rightarrow> bool" where "is_lower c \<longleftrightarrow> 0x61 \<le> c \<and> c \<le> 0x7a"

definition is_alnum :: "byte \<Rightarrow> bool" where "is_alnum c \<longleftrightarrow> is_digit c \<or> is_upper c \<or> is_lower c"
definition is_space :: "byte \<Rightarrow> bool" where "is_space c \<longleftrightarrow> c = 0x20 \<or> 0x09 \<le> c \<and> c \<le> 0x0d"

definition to_upper :: "byte \<Rightarrow> byte" where
  "to_upper c = (if is_lower c then c - 0x20 else c)"

lemma to_upper_upper: "is_lower c \<Longrightarrow> is_upper (to_upper c)"
proof -
  assume low: "is_lower c"
  have "unat (c - 0x20) = unat c - 32"
    using low by (simp add: is_lower_def word_le_nat_alt unat_sub_if_size)
  moreover have "97 \<le> unat c" "unat c \<le> 122" using low by (simp_all add: is_lower_def word_le_nat_alt)
  ultimately have "65 \<le> unat (c - 0x20)" "unat (c - 0x20) \<le> 90" by linarith+
  then show ?thesis using low by (simp add: is_upper_def to_upper_def word_le_nat_alt)
qed

lemma alnum_to_upper: "is_alnum (to_upper c) \<longleftrightarrow> is_alnum c"
  by (metis is_alnum_def to_upper_def to_upper_upper)

text \<open>
  \<open>snprintf (a, capacity, "%s", s)\<close>, and a C string as the whole array of its capacity, filled up
  with zeros.
\<close>

definition print_into :: "nat \<Rightarrow> byte list \<Rightarrow> byte list" where
  "print_into capacity s = take (capacity - 1) s"

definition string_array :: "nat \<Rightarrow> byte list \<Rightarrow> byte list" where
  "string_array capacity s = (let t = print_into capacity s in t @ replicate (capacity - length t) 0)"

lemma length_string_array [simp]: "0 < capacity \<Longrightarrow> length (string_array capacity s) = capacity"
  by (simp add: string_array_def print_into_def Let_def)

definition array_string :: "byte list \<Rightarrow> byte list" where
  "array_string a = takeWhile (\<lambda>c. c \<noteq> 0) a"

lemma array_string_array:
  "0 \<notin> set s \<Longrightarrow> array_string (string_array capacity s) = print_into capacity s"
  by (auto simp: array_string_def string_array_def Let_def print_into_def takeWhile_append
      dest: in_set_takeD)

end
