(* ===== verification/FileIo.thy ===== *)
theory FileIo
  imports HddTransport Ctype
begin

text \<open>
  Generic file helpers: the file primitives, paths and the selected device of \<open>src/storage.c\<close>.
  The \<open>fileXio\<close> library, the heap and the pad are parameters: a record of calls on an abstract
  machine state, to which the disk driver of \<open>HddTransport\<close> belongs too.  A read yields an error or
  the bytes it delivered; the library never delivers more than asked for.  The world keeps the
  machine, the trace of the calls with their results, and the last error.  The lemmas show what a
  successful write or read has put into the trace.
\<close>

section \<open>The platform\<close>

type_synonym path = "byte list"

datatype open_mode = FIO_RDONLY | FIO_WRITE_TRUNC | FIO_WRITE_APPEND | FIO_RDWR | FIO_RDWR_CREATE

datatype seek_origin = FIO_SEEK_SET | FIO_SEEK_END

record file_stat =
  st_mode :: u32
  st_attr :: u32
  st_size :: u32
  st_hisize :: u32
  st_private_5 :: u32

text \<open>
  The \<open>ioctl2\<close> requests of the program: the two of the APA driver and those of the program's own
  streaming module (\<open>include/hdl_stream_rpc.h\<close>).  The buffer a request fills is part of its result.
\<close>

datatype ioctl2_request = HIOCADDSUB "byte list" | HIOCFLUSH
  | HDL_STREAM_GET_LAYOUT | HDL_STREAM_FLUSH | HDL_STREAM_COMMIT_METADATA "byte list"
  | HDL_STREAM_READ_METADATA | HDL_STREAM_SOURCE_TO_EE int u32 u64 u64
  | HDL_STREAM_PUMP_TO_EE int u32 u64 u64 | HDL_STREAM_TARGET_TO_EE u32
  | HDL_STREAM_GET_FAST_STATS

record 'f platform =
  fx_open :: "path \<Rightarrow> open_mode \<Rightarrow> 'f \<Rightarrow> int \<times> 'f"
  fx_close :: "int \<Rightarrow> 'f \<Rightarrow> 'f"
  fx_read :: "int \<Rightarrow> nat \<Rightarrow> 'f \<Rightarrow> (int + byte list) \<times> 'f"
  fx_write :: "int \<Rightarrow> byte list \<Rightarrow> 'f \<Rightarrow> int \<times> 'f"
  fx_lseek :: "int \<Rightarrow> int \<Rightarrow> seek_origin \<Rightarrow> 'f \<Rightarrow> int \<times> 'f"
  fx_getstat :: "path \<Rightarrow> 'f \<Rightarrow> int \<times> file_stat \<times> 'f"
  fx_remove :: "path \<Rightarrow> 'f \<Rightarrow> int \<times> 'f"
  fx_rename :: "path \<Rightarrow> path \<Rightarrow> 'f \<Rightarrow> int \<times> 'f"
  fx_ioctl2 :: "int \<Rightarrow> ioctl2_request \<Rightarrow> 'f \<Rightarrow> int \<times> byte list \<times> 'f"
  fx_malloc :: "nat \<Rightarrow> 'f \<Rightarrow> bool \<times> 'f"
  fx_mount :: "path \<Rightarrow> path \<Rightarrow> 'f \<Rightarrow> int \<times> 'f"
  fx_umount :: "path \<Rightarrow> 'f \<Rightarrow> int \<times> 'f"
  fx_pad :: "'f \<Rightarrow> u32 \<times> 'f"
  fx_held :: "'f \<Rightarrow> u32 option \<times> 'f"
  fx_secr :: "int \<Rightarrow> int \<Rightarrow> byte list \<Rightarrow> 'f \<Rightarrow> byte list option"
  fx_hdd :: "'f hdd_driver"

datatype file_event =
    Opened path open_mode int
  | Closed int
  | ReadFrom int nat "int + byte list"
  | WroteTo int "byte list" int
  | Sought int int seek_origin int
  | Stated path int file_stat
  | Removed path int
  | Renamed path path int
  | Controlled int ioctl2_request int "byte list"
  | Mounted path path int
  | Unmounted path int
  | Disk hdd_event

record 'f file_world =
  store :: 'f
  trace :: "file_event list"
  last_errors :: app_error_state

definition stepped :: "'f file_world \<Rightarrow> 'f \<Rightarrow> file_event \<Rightarrow> 'f file_world" where
  "stepped w f e = w\<lparr>store := f, trace := trace w @ [e]\<rparr>"

definition fileXioOpen :: "'f platform \<Rightarrow> path \<Rightarrow> open_mode \<Rightarrow> 'f file_world \<Rightarrow> int \<times> 'f file_world" where
  "fileXioOpen api p mode w = (let (r, f) = fx_open api p mode (store w) in
    (r, stepped w f (Opened p mode r)))"

definition fileXioClose :: "'f platform \<Rightarrow> int \<Rightarrow> 'f file_world \<Rightarrow> 'f file_world" where
  "fileXioClose api fd w = stepped w (fx_close api fd (store w)) (Closed fd)"

definition fileXioRead ::
    "'f platform \<Rightarrow> int \<Rightarrow> nat \<Rightarrow> 'f file_world \<Rightarrow> (int + byte list) \<times> 'f file_world" where
  "fileXioRead api fd n w = (let (r, f) = fx_read api fd n (store w);
      r = (case r of Inl e \<Rightarrow> Inl e | Inr bytes \<Rightarrow> Inr (take n bytes)) in
    (r, stepped w f (ReadFrom fd n r)))"

definition fileXioWrite ::
    "'f platform \<Rightarrow> int \<Rightarrow> byte list \<Rightarrow> 'f file_world \<Rightarrow> int \<times> 'f file_world" where
  "fileXioWrite api fd data w = (let (r, f) = fx_write api fd data (store w) in
    (r, stepped w f (WroteTo fd data r)))"

definition fileXioLseek ::
    "'f platform \<Rightarrow> int \<Rightarrow> int \<Rightarrow> seek_origin \<Rightarrow> 'f file_world \<Rightarrow> int \<times> 'f file_world" where
  "fileXioLseek api fd off origin w = (let (r, f) = fx_lseek api fd off origin (store w) in
    (r, stepped w f (Sought fd off origin r)))"

definition fileXioGetStat ::
    "'f platform \<Rightarrow> path \<Rightarrow> 'f file_world \<Rightarrow> int \<times> file_stat \<times> 'f file_world" where
  "fileXioGetStat api p w = (let (r, st, f) = fx_getstat api p (store w) in
    (r, st, stepped w f (Stated p r st)))"

definition fileXioRemove :: "'f platform \<Rightarrow> path \<Rightarrow> 'f file_world \<Rightarrow> int \<times> 'f file_world" where
  "fileXioRemove api p w = (let (r, f) = fx_remove api p (store w) in
    (r, stepped w f (Removed p r)))"

definition fileXioRename ::
    "'f platform \<Rightarrow> path \<Rightarrow> path \<Rightarrow> 'f file_world \<Rightarrow> int \<times> 'f file_world" where
  "fileXioRename api p q w = (let (r, f) = fx_rename api p q (store w) in
    (r, stepped w f (Renamed p q r)))"

definition fileXioIoctl2 ::
    "'f platform \<Rightarrow> int \<Rightarrow> ioctl2_request \<Rightarrow> 'f file_world \<Rightarrow> int \<times> byte list \<times> 'f file_world" where
  "fileXioIoctl2 api fd request w = (let (r, out, f) = fx_ioctl2 api fd request (store w) in
    (r, out, stepped w f (Controlled fd request r out)))"

text \<open>Partitions are only ever mounted for reading.\<close>

definition fileXioMount :: "'f platform \<Rightarrow> path \<Rightarrow> path \<Rightarrow> 'f file_world \<Rightarrow> int \<times> 'f file_world" where
  "fileXioMount api at dev w = (let (r, f) = fx_mount api at dev (store w) in
    (r, stepped w f (Mounted at dev r)))"

definition fileXioUmount :: "'f platform \<Rightarrow> path \<Rightarrow> 'f file_world \<Rightarrow> 'f file_world" where
  "fileXioUmount api at w = (let (r, f) = fx_umount api at (store w) in
    stepped w f (Unmounted at r))"

text \<open>Whether the heap can serve a request; and the buttons pressed since the last poll.\<close>

definition heap_alloc :: "'f platform \<Rightarrow> nat \<Rightarrow> 'f file_world \<Rightarrow> bool \<times> 'f file_world" where
  "heap_alloc api n w = (let (ok, f) = fx_malloc api n (store w) in (ok, w\<lparr>store := f\<rparr>))"

definition poll_pad :: "'f platform \<Rightarrow> 'f file_world \<Rightarrow> u32 \<times> 'f file_world" where
  "poll_pad api w = (let (b, f) = fx_pad api (store w) in (b, w\<lparr>store := f\<rparr>))"

text \<open>The buttons held in one round of waiting for the controller, if it could be read.\<close>

definition held_buttons :: "'f platform \<Rightarrow> 'f file_world \<Rightarrow> u32 option \<times> 'f file_world" where
  "held_buttons api w = (let (b, f) = fx_held api (store w) in (b, w\<lparr>store := f\<rparr>))"

text \<open>The disk operations of \<open>HddTransport\<close> as operations of the platform.\<close>

definition disk_view :: "'f file_world \<Rightarrow> 'f hdd_world" where
  "disk_view w = \<lparr>device = store w, events = [], errors = last_errors w\<rparr>"

definition after_disk :: "'f file_world \<Rightarrow> 'f hdd_world \<Rightarrow> 'f file_world" where
  "after_disk w h = \<lparr>store = device h, trace = trace w @ map Disk (events h),
    last_errors = errors h\<rparr>"

definition record_file_error ::
    "app_error_domain \<Rightarrow> int \<Rightarrow> string \<Rightarrow> 'f file_world \<Rightarrow> 'f file_world" where
  "record_file_error domain code ctx w =
    w\<lparr>last_errors := app_error_record domain code (Some ctx) (last_errors w)\<rparr>"

section \<open>Whole files\<close>

text \<open>
  The write loop, from the data not yet accepted: a short write is continued, and nothing accepted
  is an error, \<open>short_code\<close> if the library has no code of its own.
\<close>

function write_loop :: "'f platform \<Rightarrow> int \<Rightarrow> int \<Rightarrow> byte list \<Rightarrow> 'f file_world \<Rightarrow> int \<times> 'f file_world" where
  "write_loop api short_code fd data w =
    (if data \<noteq> []
     then let (written, w1) = fileXioWrite api fd data w in
       if written \<le> 0 then (if written < 0 then written else short_code, w1)
       else write_loop api short_code fd (drop (nat written) data) w1
     else (0, w))"
  by pat_completeness auto

termination write_loop
  by (relation "measure (\<lambda>(api, short_code, fd, data, w). length data)") auto

declare write_loop.simps [simp del]

definition write_whole_file :: "'f platform \<Rightarrow> path \<Rightarrow> byte list \<Rightarrow> 'f file_world \<Rightarrow> int \<times> 'f file_world" where
  "write_whole_file api p data w =
    (let (fd, w1) = fileXioOpen api p FIO_WRITE_TRUNC w in
     if fd < 0 then (fd, w1)
     else let (r, w2) = write_loop api (- 1) fd data w1 in (r, fileXioClose api fd w2))"

definition append_log_file ::
    "'f platform \<Rightarrow> path \<Rightarrow> byte list \<Rightarrow> bool \<Rightarrow> 'f file_world \<Rightarrow> int \<times> 'f file_world" where
  "append_log_file api p data trunc w =
    (let (fd, w1) = fileXioOpen api p (if trunc then FIO_WRITE_TRUNC else FIO_WRITE_APPEND) w in
     if fd < 0 then (fd, w1)
     else let (r, w2) = write_loop api (- 1) fd data w1 in (r, fileXioClose api fd w2))"

text \<open>
  The read loop, from what has been received; \<open>short_code\<close> is the code for an end of file before
  \<open>want\<close> bytes have come.
\<close>

function read_loop ::
    "'f platform \<Rightarrow> int \<Rightarrow> int \<Rightarrow> nat \<Rightarrow> byte list \<Rightarrow> 'f file_world \<Rightarrow> (int + byte list) \<times> 'f file_world" where
  "read_loop api short_code fd want received w =
    (if length received < want
     then let (r, w1) = fileXioRead api fd (want - length received) w in
       (case r of
          Inl e \<Rightarrow> (Inl (if e < 0 then e else short_code), w1)
        | Inr bytes \<Rightarrow>
            if bytes = [] then (Inl short_code, w1)
            else read_loop api short_code fd want (received @ bytes) w1)
     else (Inr received, w))"
  by pat_completeness auto

termination read_loop
  by (relation "measure (\<lambda>(api, short_code, fd, want, received, w). want - length received)")
    (auto simp flip: length_greater_0_conv)

declare read_loop.simps [simp del]

definition read_and_close ::
    "'f platform \<Rightarrow> int \<Rightarrow> int \<Rightarrow> nat \<Rightarrow> 'f file_world \<Rightarrow> (int + byte list) \<times> 'f file_world" where
  "read_and_close api short_code fd n w =
    (let (r, w1) = read_loop api short_code fd n [] w in (r, fileXioClose api fd w1))"

definition read_exact_file :: "'f platform \<Rightarrow> path \<Rightarrow> nat \<Rightarrow> 'f file_world \<Rightarrow> (int + byte list) \<times> 'f file_world" where
  "read_exact_file api p n w =
    (let (fd, w1) = fileXioOpen api p FIO_RDONLY w in
     if fd < 0 then (Inl fd, w1)
     else let (size_there, w2) = fileXioLseek api fd 0 FIO_SEEK_END w1 in
       if size_there \<noteq> int n then (Inl (- 1), fileXioClose api fd w2)
       else let (start_there, w3) = fileXioLseek api fd 0 FIO_SEEK_SET w2 in
         if start_there < 0 then (Inl (- 1), fileXioClose api fd w3)
         else read_and_close api (- 1) fd n w3)"

text \<open>
  The whole of an opened file of at most \<open>maximum\<close> bytes, into a new buffer; \<open>c_size\<close>, \<open>c_seek\<close>,
  \<open>c_alloc\<close> and \<open>c_short\<close> are the codes of the failures.
\<close>

definition read_opened ::
    "'f platform \<Rightarrow> int \<Rightarrow> int \<Rightarrow> int \<Rightarrow> int \<Rightarrow> int \<Rightarrow> int \<Rightarrow> 'f file_world \<Rightarrow> (int + byte list) \<times> 'f file_world" where
  "read_opened api maximum c_size c_seek c_alloc c_short fd w =
    (let (n, w1) = fileXioLseek api fd 0 FIO_SEEK_END w in
     if n \<le> 0 \<or> n > maximum then (Inl c_size, fileXioClose api fd w1)
     else let (start_there, w2) = fileXioLseek api fd 0 FIO_SEEK_SET w1 in
       if start_there < 0 then (Inl c_seek, fileXioClose api fd w2)
       else let (ok, w3) = heap_alloc api (nat n) w2 in
         if \<not> ok then (Inl c_alloc, fileXioClose api fd w3)
         else read_and_close api c_short fd (nat n) w3)"

definition read_bounded_file ::
    "'f platform \<Rightarrow> path \<Rightarrow> nat \<Rightarrow> 'f file_world \<Rightarrow> (int + byte list) \<times> 'f file_world" where
  "read_bounded_file api p maximum w =
    (let (fd, w1) = fileXioOpen api p FIO_RDONLY w in
     if fd < 0 then (Inl fd, w1)
     else read_opened api (int maximum) (- 160) (- 160) (- 161) (- 162) fd w1)"

definition read_text_file :: "'f platform \<Rightarrow> path \<Rightarrow> nat \<Rightarrow> 'f file_world \<Rightarrow> (int + byte list) \<times> 'f file_world" where
  "read_text_file api p capacity w =
    (if capacity < 2 then (Inl (- 1), w)
     else let (fd, w1) = fileXioOpen api p FIO_RDONLY w in
       if fd < 0 then (Inl fd, w1)
       else let (n, w2) = fileXioLseek api fd 0 FIO_SEEK_END w1 in
         if n < 0 \<or> n \<ge> int capacity then (Inl (- 2), fileXioClose api fd w2)
         else let (start_there, w3) = fileXioLseek api fd 0 FIO_SEEK_SET w2 in
           if start_there < 0 then (Inl (- 2), fileXioClose api fd w3)
           else read_and_close api (- 3) fd (nat n) w3)"

definition path_exists :: "'f platform \<Rightarrow> path \<Rightarrow> 'f file_world \<Rightarrow> bool \<times> 'f file_world" where
  "path_exists api p w = (let (r, st, w1) = fileXioGetStat api p w in (r \<ge> 0, w1))"

section \<open>Devices and paths\<close>

definition storage_prefix :: "nat \<Rightarrow> byte list" where
  "storage_prefix storage = [ascii ''mc0:'', ascii ''mc1:'', ascii ''mass:''] ! storage"

abbreviation (input) STORAGE_TARGET_COUNT :: nat where "STORAGE_TARGET_COUNT \<equiv> 3"

definition storage_path :: "nat \<Rightarrow> nat \<Rightarrow> byte list \<Rightarrow> path" where
  "storage_path capacity storage filename =
    print_into capacity (storage_prefix storage @ ascii ''/'' @ filename)"

definition storage_set_selected :: "nat \<Rightarrow> nat \<Rightarrow> int \<times> nat" where
  "storage_set_selected storage selected =
    (if storage \<ge> STORAGE_TARGET_COUNT then (- 1, selected) else (0, storage))"

section \<open>What the calls leave in the trace\<close>

lemma trace_calls [simp]:
  "trace (stepped w f e) = trace w @ [e]"
  "trace (fileXioClose api fd w) = trace w @ [Closed fd]"
  by (simp_all add: stepped_def fileXioClose_def)

lemma trace_open: "fileXioOpen api p mode w = (r, w1) \<Longrightarrow> trace w1 = trace w @ [Opened p mode r]"
  by (auto simp: fileXioOpen_def split: prod.splits)

lemma trace_read: "fileXioRead api fd n w = (r, w1) \<Longrightarrow> trace w1 = trace w @ [ReadFrom fd n r]"
  by (auto simp: fileXioRead_def Let_def split: prod.splits)

lemma read_bounded: "fileXioRead api fd n w = (Inr bytes, w1) \<Longrightarrow> length bytes \<le> n"
  by (auto simp: fileXioRead_def Let_def split: prod.splits sum.splits)

lemma trace_write: "fileXioWrite api fd data w = (r, w1) \<Longrightarrow> trace w1 = trace w @ [WroteTo fd data r]"
  by (auto simp: fileXioWrite_def split: prod.splits)

lemma trace_lseek:
  "fileXioLseek api fd off origin w = (r, w1) \<Longrightarrow> trace w1 = trace w @ [Sought fd off origin r]"
  by (auto simp: fileXioLseek_def split: prod.splits)

lemma trace_getstat: "fileXioGetStat api p w = (r, st, w1) \<Longrightarrow> trace w1 = trace w @ [Stated p r st]"
  by (auto simp: fileXioGetStat_def split: prod.splits)

lemma trace_remove: "fileXioRemove api p w = (r, w1) \<Longrightarrow> trace w1 = trace w @ [Removed p r]"
  by (auto simp: fileXioRemove_def split: prod.splits)

lemma trace_rename: "fileXioRename api p q w = (r, w1) \<Longrightarrow> trace w1 = trace w @ [Renamed p q r]"
  by (auto simp: fileXioRename_def split: prod.splits)

lemma trace_ioctl2:
  "fileXioIoctl2 api fd request w = (r, out, w1) \<Longrightarrow> trace w1 = trace w @ [Controlled fd request r out]"
  by (auto simp: fileXioIoctl2_def split: prod.splits)

lemma trace_heap: "heap_alloc api n w = (ok, w1) \<Longrightarrow> trace w1 = trace w"
  by (auto simp: heap_alloc_def split: prod.splits)

lemma trace_pad: "poll_pad api w = (b, w1) \<Longrightarrow> trace w1 = trace w"
  by (auto simp: poll_pad_def split: prod.splits)

lemma trace_held: "held_buttons api w = (b, w1) \<Longrightarrow> trace w1 = trace w"
  by (auto simp: held_buttons_def split: prod.splits)

lemma trace_mount: "fileXioMount api at dev w = (r, w1) \<Longrightarrow> trace w1 = trace w @ [Mounted at dev r]"
  by (auto simp: fileXioMount_def split: prod.splits)

lemma trace_umount: "\<exists>r. trace (fileXioUmount api at w) = trace w @ [Unmounted at r]"
  by (auto simp: fileXioUmount_def split: prod.splits)

lemma trace_error [simp]: "trace (record_file_error d c s w) = trace w"
  by (simp add: record_file_error_def)

lemmas trace_simps = trace_open trace_read trace_write trace_lseek trace_getstat trace_remove
  trace_rename trace_ioctl2 trace_heap trace_pad trace_held
  trace_mount

text \<open>The trace only grows, by events with a given property.\<close>

definition extends :: "(file_event \<Rightarrow> bool) \<Rightarrow> 'f file_world \<Rightarrow> 'f file_world \<Rightarrow> bool" where
  "extends P w w' \<longleftrightarrow> (\<exists>es. trace w' = trace w @ es \<and> list_all P es)"

lemma extends_refl [simp, intro]: "extends P w w"
  by (simp add: extends_def)

lemma extends_trans [trans]: "extends P w v \<Longrightarrow> extends P v u \<Longrightarrow> extends P w u"
  by (force simp: extends_def)

lemma extends_mono: "extends P w v \<Longrightarrow> (\<And>e. P e \<Longrightarrow> Q e) \<Longrightarrow> extends Q w v"
  by (auto simp: extends_def list.pred_set)

lemma extends_same: "trace v = trace w \<Longrightarrow> extends P w v"
  by (simp add: extends_def)

lemma extends_event: "trace v = trace w @ [e] \<Longrightarrow> P e \<Longrightarrow> extends P w v"
  by (simp add: extends_def)

lemma extends_close: "P (Closed fd) \<Longrightarrow> extends P w (fileXioClose api fd w)"
  by (rule extends_event) simp_all

text \<open>Reading a file opens it for reading only; writing one opens that file and writes.\<close>

fun reading_event :: "file_event \<Rightarrow> bool" where
  "reading_event (Opened p mode r) \<longleftrightarrow> mode = FIO_RDONLY"
| "reading_event (Closed fd) \<longleftrightarrow> True"
| "reading_event (ReadFrom fd n r) \<longleftrightarrow> True"
| "reading_event (Sought fd off origin r) \<longleftrightarrow> True"
| "reading_event (Stated p r st) \<longleftrightarrow> True"
| "reading_event e \<longleftrightarrow> False"

fun writing_event :: "file_event \<Rightarrow> bool" where
  "writing_event (WroteTo fd data r) \<longleftrightarrow> True"
| "writing_event (Closed fd) \<longleftrightarrow> True"
| "writing_event e \<longleftrightarrow> False"

lemma write_loop_extends:
  "write_loop api c fd data w = (r, w') \<Longrightarrow> extends writing_event w w'"
proof (induction "length data" arbitrary: data w rule: less_induct)
  case less
  obtain written w1 where step: "fileXioWrite api fd data w = (written, w1)" by fastforce
  have first: "extends writing_event w w1" using trace_write [OF step] by (auto simp: extends_def)
  show ?case
  proof (cases "data = [] \<or> written \<le> 0")
    case True
    then show ?thesis
      using less.prems step first by (auto simp: write_loop.simps [of api c fd data w] split: if_splits)
  next
    case False
    then have "write_loop api c fd (drop (nat written) data) w1 = (r, w')"
      using less.prems step by (simp add: write_loop.simps [of api c fd data w])
    moreover have "length (drop (nat written) data) < length data" using False by (cases data) auto
    ultimately show ?thesis using less.hyps first extends_trans by blast
  qed
qed

lemma read_loop_extends:
  "read_loop api c fd want received w = (r, w') \<Longrightarrow> extends reading_event w w' \<and>
    (\<forall>data. r = Inr data \<longrightarrow> length received \<le> want \<longrightarrow> length data = want)"
proof (induction "want - length received" arbitrary: received w rule: less_induct)
  case less
  obtain got w1 where step: "fileXioRead api fd (want - length received) w = (got, w1)" by fastforce
  have first: "extends reading_event w w1" using trace_read [OF step] by (auto simp: extends_def)
  show ?case
  proof (cases "length received < want \<and> (\<exists>bytes. got = Inr bytes \<and> bytes \<noteq> [])")
    case False
    then show ?thesis
      using less.prems step first
      by (auto simp: read_loop.simps [of api c fd want received w] split: if_splits sum.splits)
  next
    case True
    then obtain bytes where bytes: "got = Inr bytes" "bytes \<noteq> []" by blast
    then have run: "read_loop api c fd want (received @ bytes) w1 = (r, w')"
      using less.prems step True by (simp add: read_loop.simps [of api c fd want received w])
    have "length bytes \<le> want - length received" using step bytes(1) read_bounded by blast
    then have fits: "length (received @ bytes) \<le> want" using True [THEN conjunct1] by simp
    have "want - length (received @ bytes) < want - length received"
      using True bytes(2) by (cases bytes) auto
    note ih = less.hyps [OF this run]
    have "extends reading_event w w'" using ih extends_trans [OF first] by blast
    then show ?thesis using ih fits by blast
  qed
qed

lemma read_and_close_extends:
  assumes "read_and_close api c fd n w = (r, w')"
  shows "extends reading_event w w'" and "r = Inr data \<Longrightarrow> length data = n"
proof -
  obtain w1 where l: "read_loop api c fd n [] w = (r, w1)" and w': "w' = fileXioClose api fd w1"
    using assms by (auto simp: read_and_close_def split: prod.splits)
  show "extends reading_event w w'"
    unfolding w' using read_loop_extends [OF l] by (intro extends_trans [OF _ extends_close]) auto
  show "r = Inr data \<Longrightarrow> length data = n" using read_loop_extends [OF l] by simp
qed

lemma read_exact_file_extends:
  "read_exact_file api p n w = (r, w') \<Longrightarrow> extends reading_event w w'"
  by (auto simp: read_exact_file_def Let_def split: prod.splits if_splits
      dest!: trace_open trace_lseek read_and_close_extends(1))
    (auto simp: extends_def)

lemma read_exact_file_length:
  "read_exact_file api p n w = (Inr data, w') \<Longrightarrow> length data = n"
  by (auto simp: read_exact_file_def Let_def split: prod.splits if_splits dest: read_and_close_extends(2) [OF _ refl])

lemma read_opened_extends:
  "read_opened api m c1 c2 c3 c4 fd w = (r, w') \<Longrightarrow> extends reading_event w w'"
  by (auto simp: read_opened_def Let_def split: prod.splits if_splits
      dest!: trace_lseek trace_heap read_and_close_extends(1))
    (auto simp: extends_def)

lemma read_opened_length:
  "read_opened api m c1 c2 c3 c4 fd w = (Inr data, w') \<Longrightarrow> 0 < length data \<and> int (length data) \<le> m"
  by (auto simp: read_opened_def Let_def split: prod.splits if_splits dest!: read_and_close_extends(2) [OF _ refl])

lemma read_bounded_file_extends:
  "read_bounded_file api p n w = (r, w') \<Longrightarrow> extends reading_event w w'"
  by (auto simp: read_bounded_file_def split: prod.splits if_splits
      dest!: trace_open read_opened_extends)
    (auto simp: extends_def)

lemma read_bounded_file_length:
  "read_bounded_file api p n w = (Inr data, w') \<Longrightarrow> 0 < length data \<and> length data \<le> n"
  by (auto simp: read_bounded_file_def split: prod.splits if_splits dest!: read_opened_length)

lemma read_loop_code:
  "read_loop api c fd want received w = (Inl e, w') \<Longrightarrow> c < 0 \<Longrightarrow> e < 0"
proof (induction "want - length received" arbitrary: received w rule: less_induct)
  case less
  obtain got w1 where step: "fileXioRead api fd (want - length received) w = (got, w1)" by fastforce
  show ?case
  proof (cases "length received < want \<and> (\<exists>bytes. got = Inr bytes \<and> bytes \<noteq> [])")
    case False
    then show ?thesis
      using less.prems step
      by (auto simp: read_loop.simps [of api c fd want received w] split: if_splits sum.splits)
  next
    case True
    then obtain bytes where bytes: "got = Inr bytes" "bytes \<noteq> []" by blast
    then have "read_loop api c fd want (received @ bytes) w1 = (Inl e, w')"
      using less.prems(1) step True by (simp add: read_loop.simps [of api c fd want received w])
    moreover have "want - length (received @ bytes) < want - length received"
      using True bytes(2) by (cases bytes) auto
    ultimately show ?thesis using less.hyps less.prems(2) by blast
  qed
qed

lemma read_opened_code:
  "read_opened api m c1 c2 c3 c4 fd w = (Inl e, w') \<Longrightarrow> c1 < 0 \<Longrightarrow> c2 < 0 \<Longrightarrow> c3 < 0 \<Longrightarrow> c4 < 0 \<Longrightarrow> e < 0"
  by (auto simp: read_opened_def read_and_close_def Let_def split: if_splits prod.splits
      dest: read_loop_code)

lemma read_exact_file_code: "read_exact_file api p n w = (Inl e, w') \<Longrightarrow> e < 0"
  by (auto simp: read_exact_file_def read_and_close_def Let_def split: if_splits prod.splits
      dest: read_loop_code)

lemma write_whole_file_trace:
  assumes "write_whole_file api p data w = (r, w')"
  obtains fd es where "trace w' = trace w @ Opened p FIO_WRITE_TRUNC fd # es"
    and "list_all writing_event es"
proof -
  obtain fd w1 where o: "fileXioOpen api p FIO_WRITE_TRUNC w = (fd, w1)" by fastforce
  show thesis
  proof (cases "fd < 0")
    case True
    then show thesis using that [of fd "[]"] assms trace_open [OF o] by (simp add: write_whole_file_def o)
  next
    case False
    obtain k w2 where l: "write_loop api (- 1) fd data w1 = (k, w2)" by fastforce
    obtain es where "trace w2 = trace w1 @ es" "list_all writing_event es"
      using write_loop_extends [OF l] by (auto simp: extends_def)
    then show thesis using that [of fd "es @ [Closed fd]"] assms False trace_open [OF o] l
      by (auto simp: write_whole_file_def o)
  qed
qed

text \<open>
  No call damages an existing file: a file is opened for creation only if the latest inquiry about
  it has just reported that it does not exist, and none is removed or renamed.  \<open>absent_after\<close>
  tracks the paths so reported.
\<close>

fun absent_after :: "path set \<Rightarrow> file_event list \<Rightarrow> path set" where
  "absent_after A [] = A"
| "absent_after A (Stated p r st # es) = absent_after (if r < 0 then insert p A else A - {p}) es"
| "absent_after A (Opened p mode r # es) =
    absent_after (if mode = FIO_RDONLY \<or> mode = FIO_RDWR \<or> r < 0 then A else A - {p}) es"
| "absent_after A (e # es) = absent_after A es"

fun keeps_existing :: "path set \<Rightarrow> file_event list \<Rightarrow> bool" where
  "keeps_existing A [] \<longleftrightarrow> True"
| "keeps_existing A (Stated p r st # es) \<longleftrightarrow>
    keeps_existing (if r < 0 then insert p A else A - {p}) es"
| "keeps_existing A (Opened p mode r # es) \<longleftrightarrow>
    (if mode = FIO_RDONLY \<or> mode = FIO_RDWR then keeps_existing A es
     else p \<in> A \<and> keeps_existing (if r < 0 then A else A - {p}) es)"
| "keeps_existing A (Removed p r # es) \<longleftrightarrow> False"
| "keeps_existing A (Renamed p q r # es) \<longleftrightarrow> False"
| "keeps_existing A (e # es) \<longleftrightarrow> keeps_existing A es"

lemma keeps_existing_append:
  "keeps_existing A (es @ fs) \<longleftrightarrow> keeps_existing A es \<and> keeps_existing (absent_after A es) fs"
  by (induction A es rule: keeps_existing.induct) auto

lemma keeps_existing_mono: "keeps_existing A es \<Longrightarrow> A \<subseteq> B \<Longrightarrow> keeps_existing B es"
proof (induction A es arbitrary: B rule: keeps_existing.induct)
  case (2 A p r st es)
  have "(if r < 0 then insert p A else A - {p}) \<subseteq> (if r < 0 then insert p B else B - {p})"
    using "2.prems" by auto
  then show ?case using 2 by simp
next
  case (3 A p mode r es)
  have "A - {p} \<subseteq> B - {p}" using "3.prems"(2) by auto
  then show ?case using 3 by (cases "mode = FIO_RDONLY \<or> mode = FIO_RDWR") auto
qed auto

lemma reading_keeps_existing: "list_all reading_event es \<Longrightarrow> keeps_existing A es"
  by (induction A es rule: keeps_existing.induct) auto

lemma writing_keeps_existing: "list_all writing_event es \<Longrightarrow> keeps_existing A es"
  by (induction A es rule: keeps_existing.induct) auto

definition safely :: "'f file_world \<Rightarrow> 'f file_world \<Rightarrow> bool" where
  "safely w w' \<longleftrightarrow> (\<exists>es. trace w' = trace w @ es \<and> keeps_existing {} es)"

lemma safely_refl [simp, intro]: "safely w w"
  by (simp add: safely_def)

lemma safely_trans [trans]: "safely w v \<Longrightarrow> safely v u \<Longrightarrow> safely w u"
  unfolding safely_def by (metis append.assoc empty_subsetI keeps_existing_append keeps_existing_mono)

lemma safely_reading: "extends reading_event w v \<Longrightarrow> safely w v"
  by (auto simp: extends_def safely_def intro: reading_keeps_existing)

lemma safely_same: "trace v = trace w \<Longrightarrow> safely w v"
  by (simp add: safely_def)

lemma safely_getstat: "fileXioGetStat api p w = (r, st, v) \<Longrightarrow> safely w v"
  by (rule safely_reading) (auto simp: extends_def dest: trace_getstat)

text \<open>A file that has just been reported absent may be written.\<close>

lemma safely_write_absent:
  assumes "fileXioGetStat api p w = (r, st, v)" and "r < 0"
    and "write_whole_file api p data v = (written, u)"
  shows "safely w u"
proof -
  obtain fd es where "trace u = trace v @ Opened p FIO_WRITE_TRUNC fd # es" "list_all writing_event es"
    using write_whole_file_trace [OF assms(3)] .
  then show ?thesis
    using trace_getstat [OF assms(1)] assms(2)
    by (auto simp: safely_def intro!: exI [of _ "Stated p r st # Opened p FIO_WRITE_TRUNC fd # es"]
        writing_keeps_existing)
qed

lemma safely_error [simp]: "safely w (record_file_error d c s v) \<longleftrightarrow> safely w v"
  by (simp add: safely_def)

end
