(* ===== verification/FileStore.thy ===== *)
theory FileStore
  imports FileIo
begin

text \<open>
  What the program relies on of a file system.  The locale \<open>file_store\<close> states it as laws of a
  platform whose state shows the contents of its files and the positions of its descriptors: a call
  may fail at any time, transfers may be short, and a call that writes a file may leave anything in
  it, but reads are truthful and no other file changes.  A loss of power is the case in which every
  call fails from some point on.  The locale \<open>reliable_store\<close> adds that calls succeed.  Both are
  interpreted on a file system in memory with a schedule of faults.
\<close>

section \<open>The laws\<close>

locale file_store =
  fixes api :: "'f platform"
    and files :: "'f \<Rightarrow> path \<Rightarrow> byte list option"
    and fds :: "'f \<Rightarrow> int \<Rightarrow> (path \<times> nat) option"
  assumes open_read: "fx_open api p FIO_RDONLY f = (r, f') \<Longrightarrow> 0 \<le> r \<Longrightarrow>
      files f p \<noteq> None \<and> fds f' r = Some (p, 0)"
    and open_read_files: "fx_open api p FIO_RDONLY f = (r, f') \<Longrightarrow> files f' = files f"
    and open_trunc: "fx_open api p FIO_WRITE_TRUNC f = (r, f') \<Longrightarrow> 0 \<le> r \<Longrightarrow>
      files f' p = Some [] \<and> fds f' r = Some (p, 0)"
    and open_trunc_files: "fx_open api p FIO_WRITE_TRUNC f = (r, f') \<Longrightarrow> q \<noteq> p \<Longrightarrow> files f' q = files f q"
    and close_files: "files (fx_close api fd f) = files f"
    and read_files: "fx_read api fd n f = (res, f') \<Longrightarrow> files f' = files f"
    and read_data: "fds f fd = Some (p, pos) \<Longrightarrow> files f p = Some d \<Longrightarrow>
      fx_read api fd n f = (Inr bytes, f') \<Longrightarrow>
      take n bytes = take (length (take n bytes)) (drop pos d) \<and>
        fds f' fd = Some (p, pos + length (take n bytes))"
    and write_files: "fds f fd = Some (p, pos) \<Longrightarrow> fx_write api fd data f = (r, f') \<Longrightarrow> q \<noteq> p \<Longrightarrow>
      files f' q = files f q"
    and write_data: "fds f fd = Some (p, length d) \<Longrightarrow> files f p = Some d \<Longrightarrow>
      fx_write api fd data f = (r, f') \<Longrightarrow> 0 < r \<Longrightarrow>
      files f' p = Some (d @ take (nat r) data) \<and> fds f' fd = Some (p, length d + nat r) \<and>
        nat r \<le> length data"
    and lseek_files: "fx_lseek api fd off whence f = (r, f') \<Longrightarrow> files f' = files f"
    and lseek_end: "fds f fd = Some (p, pos) \<Longrightarrow> files f p = Some d \<Longrightarrow>
      fx_lseek api fd 0 FIO_SEEK_END f = (r, f') \<Longrightarrow> 0 \<le> r \<Longrightarrow>
      r = int (length d) \<and> fds f' fd = Some (p, length d)"
    and lseek_start: "fds f fd = Some (p, pos) \<Longrightarrow> files f p = Some d \<Longrightarrow>
      fx_lseek api fd 0 FIO_SEEK_SET f = (r, f') \<Longrightarrow> 0 \<le> r \<Longrightarrow> fds f' fd = Some (p, 0)"
    and getstat_files: "fx_getstat api p f = (r, st, f') \<Longrightarrow> files f' = files f"
    and getstat_absent: "fx_getstat api p f = (r, st, f') \<Longrightarrow> r < 0 \<Longrightarrow> files f p = None"
    and remove_files: "fx_remove api p f = (r, f') \<Longrightarrow>
      files f' = files f \<or> files f' = (files f)(p := None)"
    and rename_files: "fx_rename api p q f = (r, f') \<Longrightarrow>
      (if r < 0 then files f' = files f else files f' = (files f)(q := files f p, p := None))"
    and malloc_files: "fx_malloc api n f = (ok, f') \<Longrightarrow> files f' = files f"
    and devctl_files: "devctl (fx_hdd api) cmd f = (r, out, f') \<Longrightarrow> files f' = files f"
    and mbr_files: "getstat_mbr (fx_hdd api) f = (r, a, b, f') \<Longrightarrow> files f' = files f"
    and malloc_fds: "fx_malloc api n f = (ok, f') \<Longrightarrow> fds f' = fds f"
    and open_append: "fx_open api p FIO_WRITE_APPEND f = (r, f') \<Longrightarrow> 0 \<le> r \<Longrightarrow>
      \<exists>d. files f' p = Some d \<and> (files f p = Some d \<or> files f p = None \<and> d = []) \<and>
        fds f' r = Some (p, length d)"
    and open_append_files: "fx_open api p FIO_WRITE_APPEND f = (r, f') \<Longrightarrow>
      q \<noteq> p \<or> r < 0 \<Longrightarrow> files f' q = files f q"
    and pad_files: "fx_pad api f = (b, f') \<Longrightarrow> files f' = files f"
    and held_files: "fx_held api f = (h, f') \<Longrightarrow> files f' = files f"
    and mount_files: "fx_mount api at dev f = (r, f') \<Longrightarrow> take (length at) q \<noteq> at \<Longrightarrow>
      files f' q = files f q"
    and umount_files: "fx_umount api at f = (r, f') \<Longrightarrow> take (length at) q \<noteq> at \<Longrightarrow>
      files f' q = files f q"
begin

abbreviation stored :: "'f file_world \<Rightarrow> path \<Rightarrow> byte list option" where
  "stored w \<equiv> files (store w)"

lemma store_stepped [simp]: "store (stepped w f e) = f"
  by (simp add: stepped_def)

lemma close_stored [simp]: "stored (fileXioClose api fd w) = stored w"
  by (simp add: fileXioClose_def close_files)

text \<open>Writing: no other file changes, and success leaves exactly the data.\<close>

lemma write_loop_effect:
  "write_loop api c fd data w = (r, w') \<Longrightarrow> fds (store w) fd = Some (p, length d) \<Longrightarrow>
    stored w p = Some d \<Longrightarrow> c \<noteq> 0 \<Longrightarrow>
    (\<forall>q. q \<noteq> p \<longrightarrow> stored w' q = stored w q) \<and> (r = 0 \<longrightarrow> stored w' p = Some (d @ data) \<and>
      fds (store w') fd = Some (p, length (d @ data)))"
proof (induction "length data" arbitrary: data w d rule: less_induct)
  case less
  show ?case
  proof (cases "data = []")
    case True
    then show ?thesis using less.prems by (auto simp: write_loop.simps [of api c fd "[]" w])
  next
    case False
    obtain k f' where k: "fx_write api fd data (store w) = (k, f')" by fastforce
    have others: "files f' q = stored w q" if "q \<noteq> p" for q by (rule write_files [OF less.prems(2) k that])
    have run: "(r, w') = (let w1 = stepped w f' (WroteTo fd data k) in
        if k \<le> 0 then (if k < 0 then k else c, w1)
        else write_loop api c fd (drop (nat k) data) w1)"
      using less.prems(1) False k
      by (simp add: write_loop.simps [of api c fd data w] fileXioWrite_def Let_def)
    show ?thesis
    proof (cases "k \<le> 0")
      case True
      then show ?thesis using run others less.prems(4) by (auto simp: Let_def)
    next
      case pos: False
      then have p: "files f' p = Some (d @ take (nat k) data)"
          "fds f' fd = Some (p, length (d @ take (nat k) data))"
        using write_data [OF less.prems(2,3) k] by auto
      have "length (drop (nat k) data) < length data" using pos False by (cases data) auto
      moreover have "write_loop api c fd (drop (nat k) data) (stepped w f' (WroteTo fd data k)) = (r, w')"
        using run pos by (simp add: Let_def)
      ultimately have "(\<forall>q. q \<noteq> p \<longrightarrow> stored w' q = files f' q) \<and>
          (r = 0 \<longrightarrow> stored w' p = Some ((d @ take (nat k) data) @ drop (nat k) data) \<and>
            fds (store w') fd = Some (p, length ((d @ take (nat k) data) @ drop (nat k) data)))"
        using less.hyps [OF _ _ _ _ less.prems(4), of "drop (nat k) data"
            "stepped w f' (WroteTo fd data k)" "d @ take (nat k) data"] p by simp
      then show ?thesis using others by auto
    qed
  qed
qed

lemma write_whole_file_effect:
  assumes "write_whole_file api p data w = (r, w')"
  shows "q \<noteq> p \<Longrightarrow> stored w' q = stored w q" and "r = 0 \<Longrightarrow> stored w' p = Some data"
proof -
  obtain fd f' where o: "fx_open api p FIO_WRITE_TRUNC (store w) = (fd, f')" by fastforce
  have others: "q \<noteq> p \<Longrightarrow> files f' q = stored w q" for q by (rule open_trunc_files [OF o])
  define w1 where "w1 = stepped w f' (Opened p FIO_WRITE_TRUNC fd)"
  obtain k w2 where l: "write_loop api (- 1) fd data w1 = (k, w2)" by fastforce
  have run: "(r, w') = (if fd < 0 then (fd, w1) else (k, fileXioClose api fd w2))"
    using assms [symmetric] o l [unfolded w1_def]
    by (simp add: write_whole_file_def fileXioOpen_def Let_def w1_def)
  have "(q \<noteq> p \<longrightarrow> stored w' q = stored w q) \<and> (r = 0 \<longrightarrow> stored w' p = Some data)"
  proof (cases "fd < 0")
    case True
    then show ?thesis using run others by (auto simp: w1_def)
  next
    case False
    then have p: "files f' p = Some []" "fds f' fd = Some (p, length ([] :: byte list))"
      using open_trunc [OF o] by auto
    show ?thesis using write_loop_effect [OF l, of p "[]"] run False p others by (auto simp: w1_def)
  qed
  then show "q \<noteq> p \<Longrightarrow> stored w' q = stored w q" and "r = 0 \<Longrightarrow> stored w' p = Some data" by auto
qed

text \<open>Reading changes no file, and success gives exactly the contents.\<close>

lemma read_loop_effect:
  "read_loop api short_code fd want received w = (r, w') \<Longrightarrow>
    fds (store w) fd = Some (p, length received) \<Longrightarrow> stored w p = Some d \<Longrightarrow>
    received = take (length received) d \<Longrightarrow> length received \<le> want \<Longrightarrow>
    stored w' = stored w \<and> (\<forall>out. r = Inr out \<longrightarrow> out = take want d)"
proof (induction "want - length received" arbitrary: received w rule: less_induct)
  case less
  show ?case
  proof (cases "length received < want")
    case False
    then show ?thesis using less.prems
      by (auto simp: read_loop.simps [of api short_code fd want received w])
  next
    case True': True
    define n where "n = want - length received"
    obtain res f' where res: "fx_read api fd n (store w) = (res, f')" by fastforce
    have same: "files f' = stored w" by (rule read_files [OF res])
    define got where "got = (case res of Inl e \<Rightarrow> Inl e | Inr bytes \<Rightarrow> Inr (take n bytes))"
    define w1 where "w1 = stepped w f' (ReadFrom fd n got)"
    have step: "fileXioRead api fd n w = (got, w1)"
      by (simp add: fileXioRead_def res got_def w1_def Let_def)
    have run: "(r, w') = (case got of
        Inl e \<Rightarrow> (Inl (if e < 0 then e else short_code), w1)
      | Inr bytes \<Rightarrow> if bytes = [] then (Inl short_code, w1)
          else read_loop api short_code fd want (received @ bytes) w1)"
      using less.prems(1) True' step
      by (simp add: read_loop.simps [of api short_code fd want received w] n_def)
    have w1: "stored w1 = stored w" by (simp add: w1_def same)
    show ?thesis
    proof (cases "\<exists>bytes. got = Inr bytes \<and> bytes \<noteq> []")
      case False
      then show ?thesis using run w1 by (auto split: sum.splits if_splits)
    next
      case True
      then obtain bytes where bytes: "got = Inr bytes" "bytes \<noteq> []" by blast
      then obtain b where b: "res = Inr b" "bytes = take n b" by (auto simp: got_def split: sum.splits)
      have data: "bytes = take (length bytes) (drop (length received) d)"
          "fds f' fd = Some (p, length received + length bytes)"
        using read_data [OF less.prems(2,3) res [unfolded b(1)]] unfolding b(2) [symmetric] by blast+
      have "received @ bytes = take (length received + length bytes) d"
        using data(1) less.prems(4) by (simp add: take_add)
      then have prefix: "received @ bytes = take (length (received @ bytes)) d" unfolding length_append .
      have "length bytes \<le> n" by (simp add: b(2))
      then have fits: "length (received @ bytes) \<le> want" using True' by (simp add: n_def)
      have less: "want - length (received @ bytes) < want - length received"
        using bytes(2) True' by (cases bytes) auto
      have "fds (store w1) fd = Some (p, length (received @ bytes))" using data(2) by (simp add: w1_def)
      moreover have "read_loop api short_code fd want (received @ bytes) w1 = (r, w')"
        using run bytes by simp
      moreover have "stored w1 p = Some d" using less.prems(3) w1 by simp
      ultimately have "stored w' = stored w1 \<and> (\<forall>out. r = Inr out \<longrightarrow> out = take want d)"
        using less.hyps [OF less _ _ _ prefix fits] by blast
      then show ?thesis using w1 by simp
    qed
  qed
qed

lemma read_and_close_effect:
  assumes "read_and_close api c fd n w = (r, w')" and "fds (store w) fd = Some (p, 0)"
    and "stored w p = Some d"
  shows "stored w' = stored w \<and> (\<forall>out. r = Inr out \<longrightarrow> out = take n d)"
proof -
  obtain w1 where l: "read_loop api c fd n [] w = (r, w1)" and "w' = fileXioClose api fd w1"
    using assms(1) by (auto simp: read_and_close_def split: prod.splits)
  then show ?thesis using read_loop_effect [OF l, of p d] assms(2,3) by simp
qed

lemma read_exact_file_effect:
  assumes "read_exact_file api p n w = (r, w')"
  shows "stored w' = stored w" and "r = Inr data \<Longrightarrow> stored w p = Some data"
proof -
  obtain fd f1 where o: "fx_open api p FIO_RDONLY (store w) = (fd, f1)" by fastforce
  obtain e f2 where e: "fx_lseek api fd 0 FIO_SEEK_END f1 = (e, f2)" by fastforce
  obtain s f3 where s: "fx_lseek api fd 0 FIO_SEEK_SET f2 = (s, f3)" by fastforce
  define w1 where "w1 = stepped w f1 (Opened p FIO_RDONLY fd)"
  define w2 where "w2 = stepped w1 f2 (Sought fd 0 FIO_SEEK_END e)"
  define w3 where "w3 = stepped w2 f3 (Sought fd 0 FIO_SEEK_SET s)"
  have same: "stored w1 = stored w" "stored w2 = stored w" "stored w3 = stored w"
    using open_read_files [OF o] lseek_files [OF e] lseek_files [OF s]
    by (simp_all add: w1_def w2_def w3_def)
  have steps: "fileXioOpen api p FIO_RDONLY w = (fd, w1)"
      "fileXioLseek api fd 0 FIO_SEEK_END w1 = (e, w2)" "fileXioLseek api fd 0 FIO_SEEK_SET w2 = (s, w3)"
    using o e s by (simp_all add: fileXioOpen_def fileXioLseek_def w1_def w2_def w3_def)
  have run: "(r, w') = (if fd < 0 then (Inl fd, w1)
      else if e \<noteq> int n then (Inl (- 1), fileXioClose api fd w2)
      else if s < 0 then (Inl (- 1), fileXioClose api fd w3)
      else read_and_close api (- 1) fd n w3)"
    using assms [symmetric] by (simp add: read_exact_file_def steps Let_def)
  have "stored w' = stored w \<and> (r = Inr data \<longrightarrow> stored w p = Some data)"
  proof (cases "0 \<le> fd \<and> e = int n \<and> 0 \<le> s")
    case False
    then show ?thesis using run same by (auto split: if_splits)
  next
    case True
    then obtain d where d: "stored w p = Some d" "fds f1 fd = Some (p, 0)"
      using open_read [OF o] by auto
    have l: "n = length d" "fds f2 fd = Some (p, length d)"
      using lseek_end [OF d(2) _ e, of d] d(1) True same(1) by (auto simp: w1_def)
    have "fds f3 fd = Some (p, 0)"
      using lseek_start [OF l(2) _ s, of d] d(1) True same(2) by (auto simp: w2_def)
    then show ?thesis
      using read_and_close_effect [of "- 1" fd n w3 r w' p d] run True d(1) same(3) l(1)
      by (simp add: w3_def)
  qed
  then show "stored w' = stored w" and "r = Inr data \<Longrightarrow> stored w p = Some data" by auto
qed

lemma getstat_effect:
  assumes "fileXioGetStat api p w = (r, st, w')"
  shows "stored w' = stored w" and "r < 0 \<Longrightarrow> stored w p = None"
proof -
  obtain f' where "fx_getstat api p (store w) = (r, st, f')" and "store w' = f'"
    using assms by (auto simp: fileXioGetStat_def split: prod.splits)
  then show "stored w' = stored w" and "r < 0 \<Longrightarrow> stored w p = None"
    using getstat_files getstat_absent by auto
qed

lemma remove_effect:
  "fileXioRemove api p w = (r, w') \<Longrightarrow> stored w' = stored w \<or> stored w' = (stored w)(p := None)"
  by (auto simp: fileXioRemove_def split: prod.splits dest: remove_files)

lemma rename_effect:
  "fileXioRename api p q w = (r, w') \<Longrightarrow>
    (if r < 0 then stored w' = stored w else stored w' = (stored w)(q := stored w p, p := None))"
  by (auto simp: fileXioRename_def split: prod.splits dest: rename_files)

text \<open>The raw disk is not touched through files, nor files through the raw disk.\<close>

lemma bounds_device:
  "hdd_validate_payload_bounds (fx_hdd api) start sectors w = (r, w') \<Longrightarrow>
    files (device w') = files (device w)"
  by (auto simp: hdd_validate_payload_bounds_def record_error_def Let_def
      split: if_splits prod.splits dest: mbr_files)

lemma read_raw_device:
  "hdd_read_raw_sectors (fx_hdd api) lba n w = (r, out, w') \<Longrightarrow> files (device w') = files (device w)"
  by (auto simp: hdd_read_raw_sectors_def issue_command_def split: prod.splits dest: devctl_files)

lemma read_image_loop_device:
  "read_image_loop (fx_hdd api) start sectors off acc w = (r, w') \<Longrightarrow>
    files (device w') = files (device w)"
proof (induction "unat sectors - unat off" arbitrary: off acc w rule: less_induct)
  case less
  define k where "k = (if sectors - off > 2 then 2 else sectors - off)"
  obtain c buf w1 where c: "hdd_read_raw_sectors (fx_hdd api) (start + off) k w = (c, buf, w1)"
    by (metis prod_cases3)
  show ?case
  proof (cases "off < sectors \<and> \<not> c < 0")
    case True
    have run: "read_image_loop (fx_hdd api) start sectors (off + k) (acc @ buf) w1 = (r, w')"
      using less.prems True c
      by (simp add: read_image_loop.simps [of _ start sectors off] Let_def k_def)
    have "unat sectors - unat (off + k) < unat sectors - unat off"
      using True offset_step [of off sectors 2] by (auto simp: k_def word_less_nat_alt)
    from less.hyps [OF this run] show ?thesis using read_raw_device [OF c] by simp
  next
    case False
    then show ?thesis
      using less.prems c read_raw_device [OF c]
      by (auto simp: read_image_loop.simps [of _ start sectors off] Let_def k_def record_error_def
          split: if_splits)
  qed
qed

lemma read_image_device:
  "hdd_read_payload_image (fx_hdd api) ok start sectors w = (r, w') \<Longrightarrow>
    files (device w') = files (device w)"
  by (auto simp: hdd_read_payload_image_def split: if_splits dest: read_image_loop_device)

text \<open>The part of a world that the laws speak of is not touched by the heap and the pad.\<close>

lemma heap_effect: "heap_alloc api n w = (ok, w') \<Longrightarrow> stored w' = stored w"
  by (auto simp: heap_alloc_def split: prod.splits dest: malloc_files)

lemma read_opened_effect:
  assumes "read_opened api m c1 c2 c3 c4 fd w = (r, w')"
    and "stored w p = Some d" and "fds (store w) fd = Some (p, 0)"
  shows "stored w' = stored w \<and> (\<forall>data. r = Inr data \<longrightarrow> data = d)"
proof -
  obtain e f2 where e: "fx_lseek api fd 0 FIO_SEEK_END (store w) = (e, f2)" by fastforce
  obtain s f3 where s: "fx_lseek api fd 0 FIO_SEEK_SET f2 = (s, f3)" by fastforce
  obtain ok f4 where m: "fx_malloc api (nat e) f3 = (ok, f4)" by fastforce
  define w2 where "w2 = stepped w f2 (Sought fd 0 FIO_SEEK_END e)"
  define w3 where "w3 = stepped w2 f3 (Sought fd 0 FIO_SEEK_SET s)"
  define w4 where "w4 = w3\<lparr>store := f4\<rparr>"
  have same: "stored w2 = stored w" "stored w3 = stored w" "stored w4 = stored w"
    using lseek_files [OF e] lseek_files [OF s] malloc_files [OF m]
    by (simp_all add: w2_def w3_def w4_def)
  have steps: "fileXioLseek api fd 0 FIO_SEEK_END w = (e, w2)" "fileXioLseek api fd 0 FIO_SEEK_SET w2 = (s, w3)"
      "heap_alloc api (nat e) w3 = (ok, w4)"
    using e s m by (simp_all add: fileXioLseek_def heap_alloc_def w2_def w3_def w4_def)
  have run: "(r, w') = (if e \<le> 0 \<or> e > m then (Inl c1, fileXioClose api fd w2)
      else if s < 0 then (Inl c2, fileXioClose api fd w3)
      else if \<not> ok then (Inl c3, fileXioClose api fd w4)
      else read_and_close api c4 fd (nat e) w4)"
    using assms(1) [symmetric] by (simp add: read_opened_def steps Let_def)
  show ?thesis
  proof (cases "\<not> (e \<le> 0 \<or> e > m) \<and> 0 \<le> s \<and> ok")
    case False
    then show ?thesis using run same by (auto split: if_splits)
  next
    case True
    have l: "e = int (length d)" "fds f2 fd = Some (p, length d)"
      using lseek_end [OF assms(3,2) e] True by auto
    have "fds f3 fd = Some (p, 0)"
      using lseek_start [OF l(2) _ s, of d] assms(2) True same(1) by (auto simp: w2_def)
    then have "fds f4 fd = Some (p, 0)" using malloc_fds [OF m] by simp
    then show ?thesis
      using read_and_close_effect [of c4 fd "nat e" w4 r w' p d] run True assms(2) same(3) l(1)
      by (simp add: w4_def)
  qed
qed

lemma open_read_effect:
  assumes "fileXioOpen api p FIO_RDONLY w = (fd, w')"
  shows "stored w' = stored w" and "0 \<le> fd \<Longrightarrow> \<exists>d. stored w p = Some d \<and> fds (store w') fd = Some (p, 0)"
  using assms open_read_files [of p "store w"] open_read [of p "store w"]
  by (fastforce simp: fileXioOpen_def split: prod.splits)+

lemma read_bounded_file_effect:
  assumes "read_bounded_file api p n w = (r, w')"
  shows "stored w' = stored w" and "r = Inr data \<Longrightarrow> stored w p = Some data"
proof -
  obtain fd w1 where o: "fileXioOpen api p FIO_RDONLY w = (fd, w1)" by fastforce
  note same = open_read_effect(1) [OF o]
  have "stored w' = stored w \<and> (r = Inr data \<longrightarrow> stored w p = Some data)"
  proof (cases "fd < 0")
    case True
    then show ?thesis using assms o same by (auto simp: read_bounded_file_def)
  next
    case False
    then obtain d where d: "stored w p = Some d" "fds (store w1) fd = Some (p, 0)"
      using open_read_effect(2) [OF o] by auto
    show ?thesis
      using read_opened_effect [of "int n" "- 160" "- 160" "- 161" "- 162" fd w1 r w' p d] assms o False d same
      by (auto simp: read_bounded_file_def)
  qed
  then show "stored w' = stored w" and "r = Inr data \<Longrightarrow> stored w p = Some data" by auto
qed

end

section \<open>Careful runs\<close>

text \<open>
  A careful run creates a file only where the latest inquiry found none; so, on a file system that
  keeps the laws, every file that exists keeps its contents.
\<close>

definition careful :: "'f platform \<Rightarrow> 'f file_world \<Rightarrow> 'f file_world \<Rightarrow> bool" where
  "careful api w w' \<longleftrightarrow> safely w w' \<and>
    (\<forall>files fds p d. file_store api files fds \<longrightarrow> files (store w) p = Some d \<longrightarrow> files (store w') p = Some d)"

lemma careful_refl [simp, intro]: "careful api w w"
  by (simp add: careful_def)

lemma careful_trans [trans]: "careful api w v \<Longrightarrow> careful api v u \<Longrightarrow> careful api w u"
  by (auto simp: careful_def intro: safely_trans)

lemma careful_read: "read_exact_file api p n w = (r, w') \<Longrightarrow> careful api w w'"
  by (auto simp: careful_def file_store.read_exact_file_effect(1)
      intro: safely_reading dest: read_exact_file_extends)

lemma careful_read_bounded: "read_bounded_file api p n w = (r, w') \<Longrightarrow> careful api w w'"
  by (auto simp: careful_def file_store.read_bounded_file_effect(1)
      intro: safely_reading dest: read_bounded_file_extends)

lemma careful_getstat: "fileXioGetStat api p w = (r, st, w') \<Longrightarrow> careful api w w'"
  by (auto simp: careful_def file_store.getstat_effect(1) intro: safely_getstat)

lemma careful_heap: "heap_alloc api n w = (ok, w') \<Longrightarrow> careful api w w'"
  by (auto simp: careful_def file_store.heap_effect intro: safely_same dest: trace_heap)

lemma keeps_disk [simp]: "keeps_existing A (map Disk evs)"
  by (induction evs) auto

lemma careful_disk:
  assumes "\<And>files fds. file_store api files fds \<Longrightarrow> files (device h) = files (store w)"
  shows "careful api w (after_disk w h)"
  using assms by (auto simp: careful_def safely_def after_disk_def)

lemma careful_bounds:
  "hdd_validate_payload_bounds (fx_hdd api) start sectors (disk_view w) = (r, h) \<Longrightarrow>
    careful api w (after_disk w h)"
  by (rule careful_disk) (simp add: file_store.bounds_device disk_view_def)

lemma careful_read_image:
  "hdd_read_payload_image (fx_hdd api) ok start sectors (disk_view w) = (r, h) \<Longrightarrow>
    careful api w (after_disk w h)"
  by (rule careful_disk) (simp add: file_store.read_image_device disk_view_def)

lemma careful_error [simp]: "careful api w (record_file_error d c s v) \<longleftrightarrow> careful api w v"
  by (simp add: careful_def record_file_error_def safely_def)

lemma careful_write_absent:
  assumes "fileXioGetStat api p w = (r, st, v)" and "r < 0"
    and "write_whole_file api p data v = (k, u)"
  shows "careful api w u"
proof -
  have "files (store u) q = Some d"
    if fs: "file_store api files fds" and q: "files (store w) q = Some d" for files fds q d
  proof -
    have "files (store w) p = None" "files (store v) = files (store w)"
      using file_store.getstat_effect [OF fs assms(1)] assms(2) by auto
    then show ?thesis using file_store.write_whole_file_effect(1) [OF fs assms(3)] q by (metis option.distinct(1))
  qed
  then show ?thesis using safely_write_absent [OF assms] by (auto simp: careful_def)
qed

text \<open>The file at \<open>p\<close> was just read, whole and equal to the data.\<close>

definition confirmed :: "'f platform \<Rightarrow> path \<Rightarrow> byte list \<Rightarrow> 'f file_world \<Rightarrow> bool" where
  "confirmed api p data w \<longleftrightarrow> (\<exists>v. read_exact_file api p (length data) v = (Inr data, w))"

lemma confirmed_stored: "confirmed api p data w \<Longrightarrow> file_store api files fds \<Longrightarrow> files (store w) p = Some data"
  by (auto simp: confirmed_def file_store.read_exact_file_effect)

section \<open>A file system in memory\<close>

text \<open>
  Files and descriptors are maps; each element of the schedule decides whether the next call fails,
  and a transfer moves at most \<open>mem_chunk\<close> bytes (at least one).
\<close>

record memory =
  mem_files :: "path \<Rightarrow> byte list option"
  mem_fds :: "int \<Rightarrow> (path \<times> nat) option"
  mem_faults :: "bool list"
  mem_chunk :: nat

definition mem_step :: "memory \<Rightarrow> bool \<times> memory" where
  "mem_step m = (case mem_faults m of [] \<Rightarrow> (False, m) | b # bs \<Rightarrow> (b, m\<lparr>mem_faults := bs\<rparr>))"

definition mem_guard :: "(memory \<Rightarrow> int \<times> memory) \<Rightarrow> memory \<Rightarrow> int \<times> memory" where
  "mem_guard act m = (let (faulty, m1) = mem_step m in if faulty then (- 5, m1) else act m1)"

definition mem_open :: "path \<Rightarrow> open_mode \<Rightarrow> memory \<Rightarrow> int \<times> memory" where
  "mem_open p mode = mem_guard (\<lambda>m. case mode of
       FIO_WRITE_TRUNC \<Rightarrow> (3, m\<lparr>mem_files := (mem_files m)(p := Some []), mem_fds := (mem_fds m)(3 := Some (p, 0))\<rparr>)
     | FIO_WRITE_APPEND \<Rightarrow> let d = (case mem_files m p of None \<Rightarrow> [] | Some d \<Rightarrow> d) in
         (3, m\<lparr>mem_files := (mem_files m)(p := Some d), mem_fds := (mem_fds m)(3 := Some (p, length d))\<rparr>)
     | _ \<Rightarrow> (case mem_files m p of None \<Rightarrow> (- 2, m) | Some d \<Rightarrow> (3, m\<lparr>mem_fds := (mem_fds m)(3 := Some (p, 0))\<rparr>)))"

definition mem_read :: "int \<Rightarrow> nat \<Rightarrow> memory \<Rightarrow> (int + byte list) \<times> memory" where
  "mem_read fd n m0 = (let (faulty, m) = mem_step m0 in
     if faulty then (Inl (- 5), m)
     else (case mem_fds m fd of None \<Rightarrow> (Inl (- 9), m)
       | Some (p, pos) \<Rightarrow> (case mem_files m p of None \<Rightarrow> (Inl (- 9), m)
         | Some d \<Rightarrow> let bytes = take (min n (max 1 (mem_chunk m))) (drop pos d) in
             (Inr bytes, m\<lparr>mem_fds := (mem_fds m)(fd := Some (p, pos + length bytes))\<rparr>))))"

definition mem_write :: "int \<Rightarrow> byte list \<Rightarrow> memory \<Rightarrow> int \<times> memory" where
  "mem_write fd data = mem_guard (\<lambda>m. case mem_fds m fd of None \<Rightarrow> (- 9, m)
     | Some (p, pos) \<Rightarrow> (case mem_files m p of None \<Rightarrow> (- 9, m)
       | Some d \<Rightarrow> let bytes = take (max 1 (mem_chunk m)) data in
           (int (length bytes), m\<lparr>mem_files := (mem_files m)(p := Some (take pos d @ bytes)),
             mem_fds := (mem_fds m)(fd := Some (p, pos + length bytes))\<rparr>)))"

definition mem_lseek :: "int \<Rightarrow> int \<Rightarrow> seek_origin \<Rightarrow> memory \<Rightarrow> int \<times> memory" where
  "mem_lseek fd off whence = mem_guard (\<lambda>m. case mem_fds m fd of None \<Rightarrow> (- 9, m)
     | Some (p, pos) \<Rightarrow> let target = nat off + (case whence of FIO_SEEK_SET \<Rightarrow> 0
           | FIO_SEEK_END \<Rightarrow> (case mem_files m p of None \<Rightarrow> 0 | Some d \<Rightarrow> length d)) in
         (int target, m\<lparr>mem_fds := (mem_fds m)(fd := Some (p, target))\<rparr>))"

definition mem_getstat :: "path \<Rightarrow> memory \<Rightarrow> int \<times> file_stat \<times> memory" where
  "mem_getstat p m = (case mem_files m p of
      None \<Rightarrow> (- 2, \<lparr>st_mode = 0, st_attr = 0, st_size = 0, st_hisize = 0, st_private_5 = 0\<rparr>, m)
    | Some d \<Rightarrow> (0, \<lparr>st_mode = 0, st_attr = 0, st_size = of_nat (length d), st_hisize = 0,
        st_private_5 = 0\<rparr>, m))"

definition mem_remove :: "path \<Rightarrow> memory \<Rightarrow> int \<times> memory" where
  "mem_remove p = mem_guard (\<lambda>m. (0, m\<lparr>mem_files := (mem_files m)(p := None)\<rparr>))"

definition mem_rename :: "path \<Rightarrow> path \<Rightarrow> memory \<Rightarrow> int \<times> memory" where
  "mem_rename p q = mem_guard (\<lambda>m.
     (0, m\<lparr>mem_files := (mem_files m)(q := mem_files m p, p := None)\<rparr>))"

definition memory_platform :: "memory platform" where
  "memory_platform = \<lparr>fx_open = mem_open, fx_close = (\<lambda>fd m. m), fx_read = mem_read,
    fx_write = mem_write, fx_lseek = mem_lseek, fx_getstat = mem_getstat, fx_remove = mem_remove,
    fx_rename = mem_rename, fx_ioctl2 = (\<lambda>fd request m. (- 1, [], m)),
    fx_malloc = (\<lambda>n m. (True, m)), fx_mount = (\<lambda>at dev m. (- 1, m)), fx_umount = (\<lambda>at m. (- 1, m)),
    fx_pad = (\<lambda>m. (0, m)), fx_held = (\<lambda>m. (Some 0xefff, m)), fx_secr = (\<lambda>port slot data m. Some data),
    fx_hdd = \<lparr>devctl = (\<lambda>cmd m. (- 1, [], m)), getstat_mbr = (\<lambda>m. (- 1, 0, 0, m))\<rparr>\<rparr>"

definition fresh_memory :: "bool list \<Rightarrow> nat \<Rightarrow> memory file_world" where
  "fresh_memory faults chunk = \<lparr>store = \<lparr>mem_files = (\<lambda>p. None), mem_fds = (\<lambda>fd. None),
    mem_faults = faults, mem_chunk = chunk\<rparr>, trace = [],
    last_errors = errors (fresh_world ())\<rparr>"

lemmas memory_defs = memory_platform_def mem_open_def mem_read_def mem_write_def mem_lseek_def
  mem_getstat_def mem_remove_def mem_rename_def mem_guard_def Let_def

lemma mem_step_keeps:
  "mem_step m = (b, m') \<Longrightarrow> mem_files m' = mem_files m \<and> mem_fds m' = mem_fds m"
  by (auto simp: mem_step_def split: list.splits)

interpretation mem: file_store memory_platform mem_files mem_fds
proof (unfold_locales, goal_cases)
  case (7 fd p pos f d n bytes f')
  then show ?case
    by (auto simp: memory_defs min_def dest!: mem_step_keeps split: prod.splits if_splits option.splits)
qed (auto simp: memory_defs min_def dest!: mem_step_keeps
    split: prod.splits if_splits option.splits open_mode.splits)

text \<open>Without faults and with room for a file in one transfer, files are written and read back.\<close>

definition calm :: "nat \<Rightarrow> memory file_world \<Rightarrow> bool" where
  "calm n w \<longleftrightarrow> mem_faults (store w) = [] \<and> n \<le> mem_chunk (store w)"

lemma memory_calls:
  "fx_open memory_platform = mem_open" "fx_close memory_platform fd m = m"
  "fx_read memory_platform = mem_read" "fx_write memory_platform = mem_write"
  "fx_lseek memory_platform = mem_lseek" "fx_getstat memory_platform = mem_getstat"
  "fx_remove memory_platform = mem_remove" "fx_rename memory_platform = mem_rename"
  "fx_malloc memory_platform n m = (True, m)"
  by (simp_all add: memory_platform_def)

lemmas calm_defs = fileXioOpen_def fileXioLseek_def fileXioRead_def fileXioWrite_def fileXioClose_def
  memory_calls mem_open_def mem_read_def mem_write_def mem_lseek_def mem_guard_def mem_step_def
  stepped_def Let_def

lemma calm_write:
  assumes "calm (length data) w" and "data \<noteq> []"
  shows "\<exists>w'. write_whole_file memory_platform p data w = (0, w') \<and> calm (length data) w' \<and>
    mem_files (store w') p = Some data"
proof -
  have "max (Suc 0) (mem_chunk (store w)) = mem_chunk (store w)"
    using assms by (cases data) (auto simp: calm_def)
  then show ?thesis
    using assms
    by (simp add: calm_def write_whole_file_def calm_defs
        write_loop.simps [of _ _ _ data] write_loop.simps [of _ _ _ "[]"])
qed

lemma calm_read:
  assumes "calm (length data) w" and "data \<noteq> []" and "mem_files (store w) p = Some data"
  shows "\<exists>w'. read_exact_file memory_platform p (length data) w = (Inr data, w') \<and>
    calm (length data) w'"
proof -
  have "max (Suc 0) (mem_chunk (store w)) = mem_chunk (store w)"
    using assms by (cases data) (auto simp: calm_def)
  then show ?thesis
    using assms
    by (simp add: calm_def read_exact_file_def calm_defs min_def
        read_and_close_def read_loop.simps [of _ _ _ _ "[]"] read_loop.simps [of _ _ _ _ data])
qed

lemma calm_read_bounded:
  assumes "calm (length data) w" and "data \<noteq> []" and "mem_files (store w) p = Some data"
    and "length data \<le> limit"
  shows "\<exists>w'. read_bounded_file memory_platform p limit w = (Inr data, w')"
proof -
  have "max (Suc 0) (mem_chunk (store w)) = mem_chunk (store w)"
    using assms by (cases data) (auto simp: calm_def)
  then show ?thesis
    using assms
    by (simp add: calm_def read_bounded_file_def read_opened_def calm_defs heap_alloc_def min_def
        read_and_close_def read_loop.simps [of _ _ _ _ "[]"] read_loop.simps [of _ _ _ _ data])
qed

text \<open>A device that holds one file.\<close>

definition memory_with :: "path \<Rightarrow> byte list \<Rightarrow> memory file_world" where
  "memory_with p data = (fresh_memory [] (length data))
    \<lparr>store := (store (fresh_memory [] (length data)))\<lparr>mem_files := [p \<mapsto> data]\<rparr>\<rparr>"

lemma memory_with_facts:
  "calm (length data) (memory_with p data)" "mem_files (store (memory_with p data)) p = Some data"
  by (simp_all add: memory_with_def calm_def fresh_memory_def)

lemma memory_stat:
  assumes "mem_files (store w) p = Some data" and "calm n w"
  shows "\<exists>st w1. fileXioGetStat memory_platform p w = (0, st, w1) \<and> calm n w1 \<and>
    mem_files (store w1) = mem_files (store w)"
  using assms by (simp add: fileXioGetStat_def memory_calls mem_getstat_def stepped_def calm_def)

lemma calm_fresh: "n \<le> chunk \<Longrightarrow> calm n (fresh_memory [] chunk)"
  by (simp add: calm_def fresh_memory_def)

end
