(* ===== verification/Kelf.thy ===== *)
theory Kelf
  imports Buffers
begin

text \<open>
  The structural checks of the signed executable container: \<open>src/kelf.c\<close> with the result codes
  of \<open>include/kelf.h\<close>.  \<open>unsigned int\<close> is 32 bits on the console, so every size and offset is
  a \<open>u32\<close> and the additions wrap as in C.  The lemmas read the accepted layouts as plain
  arithmetic over the natural numbers, which shows that no accepted image ever wrapped, and
  show that the recovery of a file length from a padded disk image is exact.
\<close>

section \<open>The validator\<close>

abbreviation (input) KELF_FIXED_HEADER_SIZE :: u32 where "KELF_FIXED_HEADER_SIZE \<equiv> 32"
abbreviation (input) KELF_BIT_BLOCK_SIZE :: u32 where "KELF_BIT_BLOCK_SIZE \<equiv> 16"
abbreviation (input) KELF_MAX_BIT_COUNT :: u16 where "KELF_MAX_BIT_COUNT \<equiv> 63"
abbreviation (input) KELF_OPTIONAL_AREA_BYTES :: u32 where "KELF_OPTIONAL_AREA_BYTES \<equiv> 8"
abbreviation (input) KELF_KEY_AREA_BYTES :: u32 where "KELF_KEY_AREA_BYTES \<equiv> 32"
abbreviation (input) KELF_ELF_SIZE_OFFSET :: nat where "KELF_ELF_SIZE_OFFSET \<equiv> 0x10"
abbreviation (input) KELF_HEADER_SIZE_OFFSET :: nat where "KELF_HEADER_SIZE_OFFSET \<equiv> 0x14"
abbreviation (input) KELF_FLAGS_OFFSET :: nat where "KELF_FLAGS_OFFSET \<equiv> 0x18"
abbreviation (input) KELF_BIT_COUNT_OFFSET :: nat where "KELF_BIT_COUNT_OFFSET \<equiv> 0x1a"

datatype kelf_validation_result = KELF_VALID | KELF_ERR_TOO_SMALL | KELF_ERR_PLAIN_ELF
  | KELF_ERR_HEADER_SIZE | KELF_ERR_BIT_COUNT | KELF_ERR_FILE_SIZE | KELF_ERR_BIT_TABLE
  | KELF_ERR_VARIABLE_SECTION | KELF_ERR_KEY_AREA

datatype kelf_image_result = KELF_IMAGE_VALID | KELF_IMAGE_ERR_TOO_SMALL
  | KELF_IMAGE_ERR_SIZE_FIELDS | KELF_IMAGE_ERR_CALCULATED_SIZE | KELF_IMAGE_ERR_LAYOUT

text \<open>
  The tail of the validator, from the BIT table on: the running offset passes the BIT blocks,
  the optional length-prefixed section and the optional area, and the key area must still fit.
\<close>

definition kelf_key_area :: "u32 \<Rightarrow> u32 \<Rightarrow> kelf_validation_result" where
  "kelf_key_area header_size offset =
    (if offset > header_size \<or> KELF_KEY_AREA_BYTES > header_size - offset
     then KELF_ERR_KEY_AREA else KELF_VALID)"

definition kelf_optional_area :: "u16 \<Rightarrow> u32 \<Rightarrow> u32" where
  "kelf_optional_area flags offset =
    (if flags AND 0xf000 = 0 then offset + KELF_OPTIONAL_AREA_BYTES else offset)"

definition kelf_validate_layout :: "byte list \<Rightarrow> u32 \<Rightarrow> kelf_validation_result" where
  "kelf_validate_layout data nbytes =
    (if nbytes < KELF_FIXED_HEADER_SIZE then KELF_ERR_TOO_SMALL
     else if data ! 0 = 0x7f \<and> data ! 1 = of_char (CHR ''E'') \<and>
        data ! 2 = of_char (CHR ''L'') \<and> data ! 3 = of_char (CHR ''F'')
     then KELF_ERR_PLAIN_ELF
     else let elf_size = read_le32 data KELF_ELF_SIZE_OFFSET;
              header_size = ucast (read_le16 data KELF_HEADER_SIZE_OFFSET) :: u32;
              flags = read_le16 data KELF_FLAGS_OFFSET;
              bit_count = read_le16 data KELF_BIT_COUNT_OFFSET in
       if header_size < KELF_FIXED_HEADER_SIZE \<or> header_size > nbytes then KELF_ERR_HEADER_SIZE
       else if bit_count > KELF_MAX_BIT_COUNT then KELF_ERR_BIT_COUNT
       else if elf_size = 0 \<or> elf_size > nbytes - header_size \<or> header_size + elf_size \<noteq> nbytes
       then KELF_ERR_FILE_SIZE
       else let offset = KELF_FIXED_HEADER_SIZE + ucast bit_count * KELF_BIT_BLOCK_SIZE in
         if offset > header_size then KELF_ERR_BIT_TABLE
         else if flags AND 1 \<noteq> 0
         then if offset \<ge> header_size then KELF_ERR_VARIABLE_SECTION
              else kelf_key_area header_size
                (kelf_optional_area flags (offset + (ucast (data ! unat offset) + 1)))
         else kelf_key_area header_size (kelf_optional_area flags offset))"

definition kelf_size_from_disk_image ::
    "byte list \<Rightarrow> u32 \<Rightarrow> u32 \<Rightarrow> kelf_image_result \<times> u32" where
  "kelf_size_from_disk_image data disk_bytes file_bytes =
    (if disk_bytes < KELF_FIXED_HEADER_SIZE then (KELF_IMAGE_ERR_TOO_SMALL, file_bytes)
     else let elf_size = read_le32 data KELF_ELF_SIZE_OFFSET;
              header_size = ucast (read_le16 data KELF_HEADER_SIZE_OFFSET) :: u32 in
       if elf_size > disk_bytes \<or> header_size > disk_bytes - elf_size
       then (KELF_IMAGE_ERR_SIZE_FIELDS, file_bytes)
       else let calculated = header_size + elf_size in
         if calculated = 0 \<or> calculated > disk_bytes
         then (KELF_IMAGE_ERR_CALCULATED_SIZE, file_bytes)
         else if kelf_validate_layout data calculated \<noteq> KELF_VALID
         then (KELF_IMAGE_ERR_LAYOUT, file_bytes)
         else (KELF_IMAGE_VALID, calculated))"

section \<open>The layout as arithmetic\<close>

text \<open>The fields as natural numbers, and the end of the parts that precede the key area.\<close>

definition kelf_header_bytes :: "byte list \<Rightarrow> nat" where
  "kelf_header_bytes data = unat (read_le16 data KELF_HEADER_SIZE_OFFSET)"

definition kelf_payload_bytes :: "byte list \<Rightarrow> nat" where
  "kelf_payload_bytes data = unat (read_le32 data KELF_ELF_SIZE_OFFSET)"

definition kelf_bit_end :: "byte list \<Rightarrow> nat" where
  "kelf_bit_end data = 32 + 16 * unat (read_le16 data KELF_BIT_COUNT_OFFSET)"

definition kelf_has_section :: "byte list \<Rightarrow> bool" where
  "kelf_has_section data \<longleftrightarrow> read_le16 data KELF_FLAGS_OFFSET AND 1 \<noteq> 0"

definition kelf_section_bytes :: "byte list \<Rightarrow> nat" where
  "kelf_section_bytes data =
    (if kelf_has_section data then unat (data ! kelf_bit_end data) + 1 else 0)"

definition kelf_optional_bytes :: "byte list \<Rightarrow> nat" where
  "kelf_optional_bytes data = (if read_le16 data KELF_FLAGS_OFFSET AND 0xf000 = 0 then 8 else 0)"

definition kelf_well_formed :: "byte list \<Rightarrow> nat \<Rightarrow> bool" where
  "kelf_well_formed data n \<longleftrightarrow>
    map ((!) data) [0..<4] \<noteq> [0x7f, 0x45, 0x4c, 0x46] \<and>
    kelf_header_bytes data + kelf_payload_bytes data = n \<and> 0 < kelf_payload_bytes data \<and>
    read_le16 data KELF_BIT_COUNT_OFFSET \<le> 63 \<and>
    kelf_bit_end data + kelf_section_bytes data + kelf_optional_bytes data + 32
      \<le> kelf_header_bytes data"

lemma bit_offset:
  assumes "bit_count \<le> (63 :: u16)"
  shows "unat (32 + ucast bit_count * 16 :: u32) = 32 + 16 * unat bit_count"
proof -
  have "unat bit_count \<le> 63" using assms by (simp add: word_le_nat_alt)
  then show ?thesis by (simp add: unat_word_ariths)
qed


lemma key_area_ok:
  assumes "unat header_size < 65536" and "unat offset < 2 ^ 20"
  shows "kelf_key_area header_size offset = KELF_VALID \<longleftrightarrow> unat offset + 32 \<le> unat header_size"
  by (auto simp: kelf_key_area_def word_le_nat_alt word_less_nat_alt unat_sub_if_size)

lemma unat_optional_area:
  assumes "unat offset < 2 ^ 19"
  shows "unat (kelf_optional_area flags offset) =
    unat offset + (if flags AND 0xf000 = 0 then 8 else 0)"
  using assms by (auto simp: kelf_optional_area_def unat_word_ariths)

lemma unat_section:
  assumes "unat offset < 2 ^ 18"
  shows "unat (offset + (ucast (b :: byte) + 1) :: u32) = unat offset + unat b + 1"
  using assms unat_byte_bound [of b] by (simp add: unat_word_ariths)

lemma kelf_tail_ok:
  fixes header_size :: u32
  assumes hs: "unat header_size = kelf_header_bytes data" and small: "kelf_header_bytes data < 65536"
    and off: "unat offset = kelf_bit_end data" "kelf_bit_end data < 2000"
    and flags: "flags = read_le16 data KELF_FLAGS_OFFSET"
  shows "(if offset > header_size then KELF_ERR_BIT_TABLE
      else if flags AND 1 \<noteq> 0
      then if offset \<ge> header_size then KELF_ERR_VARIABLE_SECTION
           else kelf_key_area header_size
             (kelf_optional_area flags (offset + (ucast (data ! unat offset) + 1)))
      else kelf_key_area header_size (kelf_optional_area flags offset)) = KELF_VALID \<longleftrightarrow>
    kelf_bit_end data + kelf_section_bytes data + kelf_optional_bytes data + 32
      \<le> kelf_header_bytes data"
proof -
  have sec: "unat (offset + (ucast (data ! unat offset) + 1)) =
      kelf_bit_end data + (unat (data ! kelf_bit_end data) + 1)"
    using off by (subst unat_section) auto
  have byte: "unat (data ! kelf_bit_end data) < 256" by (rule unat_byte_bound)
  have o1: "unat (kelf_optional_area flags (offset + (ucast (data ! unat offset) + 1))) =
      kelf_bit_end data + (unat (data ! kelf_bit_end data) + 1) + kelf_optional_bytes data"
    using sec off(2) byte by (subst unat_optional_area) (auto simp: kelf_optional_bytes_def flags)
  have o2: "unat (kelf_optional_area flags offset) = kelf_bit_end data + kelf_optional_bytes data"
    using off by (subst unat_optional_area) (auto simp: kelf_optional_bytes_def flags)
  have opt: "kelf_optional_bytes data \<le> 8" by (simp add: kelf_optional_bytes_def)
  have k1: "kelf_key_area header_size
        (kelf_optional_area flags (offset + (ucast (data ! unat offset) + 1))) = KELF_VALID \<longleftrightarrow>
      kelf_bit_end data + (unat (data ! kelf_bit_end data) + 1) + kelf_optional_bytes data + 32
        \<le> kelf_header_bytes data"
    using hs small off(2) byte opt by (subst key_area_ok) (simp_all add: o1)
  have k2: "kelf_key_area header_size (kelf_optional_area flags offset) = KELF_VALID \<longleftrightarrow>
      kelf_bit_end data + kelf_optional_bytes data + 32 \<le> kelf_header_bytes data"
    using hs small off(2) opt by (subst key_area_ok) (simp_all add: o2)
  show ?thesis
    using hs off(1) k1 k2 flags
    by (auto simp: word_le_nat_alt word_less_nat_alt kelf_section_bytes_def kelf_has_section_def)
qed

lemma kelf_total_ok:
  fixes header_size :: u32
  assumes "header_size \<le> n"
  shows "\<not> (elf_size = 0 \<or> elf_size > n - header_size \<or> header_size + elf_size \<noteq> n) \<longleftrightarrow>
    0 < unat elf_size \<and> unat header_size + unat elf_size = unat n"
proof -
  have sub: "unat (n - header_size) = unat n - unat header_size"
    using assms by (simp add: word_le_nat_alt unat_sub_if_size)
  have "header_size + elf_size = n \<longleftrightarrow> unat header_size + unat elf_size = unat n"
    if "unat elf_size \<le> unat n - unat header_size"
  proof -
    have "unat header_size + unat elf_size < 2 ^ 32"
      using that assms unat_u32_bound [of n] by (simp add: word_le_nat_alt)
    then show ?thesis using unat_add_no_wrap(1) [of header_size elf_size] by (metis word_unat_eq_iff)
  qed
  then show ?thesis
    using assms by (auto simp: not_less word_le_nat_alt sub unat_gt_0)
qed

lemma kelf_valid_steps:
  "kelf_validate_layout data n = KELF_VALID \<longleftrightarrow>
    (let elf_size = read_le32 data KELF_ELF_SIZE_OFFSET;
         header_size = ucast (read_le16 data KELF_HEADER_SIZE_OFFSET) :: u32;
         flags = read_le16 data KELF_FLAGS_OFFSET;
         bit_count = read_le16 data KELF_BIT_COUNT_OFFSET;
         offset = 32 + ucast bit_count * 16 in
     \<not> n < 32 \<and> map ((!) data) [0..<4] \<noteq> [0x7f, 0x45, 0x4c, 0x46] \<and>
     \<not> header_size < 32 \<and> header_size \<le> n \<and> bit_count \<le> 63 \<and>
     \<not> (elf_size = 0 \<or> elf_size > n - header_size \<or> header_size + elf_size \<noteq> n) \<and>
     (if offset > header_size then KELF_ERR_BIT_TABLE
      else if flags AND 1 \<noteq> 0
      then if offset \<ge> header_size then KELF_ERR_VARIABLE_SECTION
           else kelf_key_area header_size
             (kelf_optional_area flags (offset + (ucast (data ! unat offset) + 1)))
      else kelf_key_area header_size (kelf_optional_area flags offset)) = KELF_VALID)"
proof -
  have elf: "data ! 0 = 0x7f \<and> data ! 1 = of_char (CHR ''E'') \<and> data ! 2 = of_char (CHR ''L'') \<and>
      data ! 3 = of_char (CHR ''F'') \<longleftrightarrow> map ((!) data) [0..<4] = [0x7f, 0x45, 0x4c, 0x46]"
    by (simp add: upt_conv_Cons numeral_2_eq_2 numeral_3_eq_3)
  have cond: "(if c then e else r) = KELF_VALID \<longleftrightarrow> \<not> c \<and> r = KELF_VALID" if "e \<noteq> KELF_VALID"
    for c e r
    using that by simp
  show ?thesis
    unfolding kelf_validate_layout_def Let_def elf
    by (simp only: cond kelf_validation_result.distinct not_less de_Morgan_disj simp_thms conj_assoc)
qed

lemma kelf_valid_arith:
  "kelf_validate_layout data n = KELF_VALID \<longleftrightarrow> kelf_well_formed data (unat n)"
proof -
  let ?hs = "ucast (read_le16 data KELF_HEADER_SIZE_OFFSET) :: u32"
  let ?bc = "read_le16 data KELF_BIT_COUNT_OFFSET"
  have hs: "unat ?hs = kelf_header_bytes data" by (simp add: kelf_header_bytes_def)
  have small: "kelf_header_bytes data < 65536"
    using unat_u16_bound by (simp add: kelf_header_bytes_def)
  have offset: "unat (32 + ucast ?bc * 16 :: u32) = kelf_bit_end data" "kelf_bit_end data < 2000"
    if "?bc \<le> 63"
    using that bit_offset [of ?bc] by (auto simp: kelf_bit_end_def word_le_nat_alt)
  have low: "\<not> n < 32" "\<not> ?hs < 32" "?hs \<le> n" if "kelf_well_formed data (unat n)"
    using that hs
    by (auto simp: kelf_well_formed_def word_le_nat_alt word_less_nat_alt kelf_bit_end_def)
  show ?thesis
  proof (cases "\<not> n < 32 \<and> \<not> ?hs < 32 \<and> ?hs \<le> n \<and> ?bc \<le> 63")
    case True
    then show ?thesis
      using kelf_tail_ok [OF hs small offset refl] kelf_total_ok [of ?hs n]
      unfolding kelf_valid_steps Let_def kelf_well_formed_def
      by (simp add: kelf_header_bytes_def kelf_payload_bytes_def conj_ac)
  next
    case False
    then show ?thesis
      using low unfolding kelf_valid_steps Let_def by (auto simp: kelf_well_formed_def)
  qed
qed

text \<open>Everything the layout check reads lies inside the declared file.\<close>

lemma prefix_reads:
  assumes "take n a = take n b"
  shows "off + 2 \<le> n \<Longrightarrow> read_le16 a off = read_le16 b off"
    and "off + 4 \<le> n \<Longrightarrow> read_le32 a off = read_le32 b off"
    and "i < n \<Longrightarrow> a ! i = b ! i"
proof -
  have "bytes_at 0 n a = bytes_at 0 n b" using assms by (simp add: bytes_at_def)
  then have field: "bytes_at off w a = bytes_at off w b" if "off + w \<le> n" for off w
    by (rule bytes_at_sub_eq) (use that in auto)
  show "off + 2 \<le> n \<Longrightarrow> read_le16 a off = read_le16 b off"
    "off + 4 \<le> n \<Longrightarrow> read_le32 a off = read_le32 b off"
    by (auto intro!: le16.rd_cong le32.rd_cong field)
  show "i < n \<Longrightarrow> a ! i = b ! i" using assms by (metis nth_take)
qed

lemma kelf_validate_prefix:
  assumes prefix: "take (unat n) a = take (unat n) b"
  shows "kelf_validate_layout a n = kelf_validate_layout b n"
proof (cases "n < 32")
  case True
  then show ?thesis by (simp add: kelf_validate_layout_def)
next
  case False
  then have n: "32 \<le> unat n" by (simp add: word_less_nat_alt)
  note reads = prefix_reads [OF prefix]
  let ?hs = "ucast (read_le16 b KELF_HEADER_SIZE_OFFSET) :: u32"
  let ?off = "32 + ucast (read_le16 b KELF_BIT_COUNT_OFFSET) * 16 :: u32"
  have section_byte: "a ! unat ?off = b ! unat ?off" if "\<not> ?hs \<le> ?off" "\<not> n < ?hs"
    using that by (intro reads(3)) (auto simp: word_less_nat_alt word_le_nat_alt)
  have bytes: "a ! 0 = b ! 0" "a ! 1 = b ! 1" "a ! 2 = b ! 2" "a ! 3 = b ! 3"
    using n by (auto intro!: reads(3))
  have fields: "read_le32 a 16 = read_le32 b 16" "read_le16 a 20 = read_le16 b 20"
    "read_le16 a 24 = read_le16 b 24" "read_le16 a 26 = read_le16 b 26"
    using n by (auto intro!: reads(1,2))
  show ?thesis
    unfolding kelf_validate_layout_def Let_def bytes fields
    by (intro if_cong refl) (simp add: section_byte)
qed

lemma kelf_size_iff:
  "kelf_size_from_disk_image data disk_bytes file_bytes = (KELF_IMAGE_VALID, n) \<longleftrightarrow>
    n \<le> disk_bytes \<and> kelf_validate_layout data n = KELF_VALID"
proof -
  let ?es = "read_le32 data KELF_ELF_SIZE_OFFSET"
  let ?hs = "ucast (read_le16 data KELF_HEADER_SIZE_OFFSET) :: u32"
  have sum: "unat (?hs + ?es) = kelf_header_bytes data + kelf_payload_bytes data"
    if "?es \<le> disk_bytes" "?hs \<le> disk_bytes - ?es"
  proof -
    have "unat ?hs \<le> unat disk_bytes - unat ?es"
      using that by (simp add: word_le_nat_alt unat_sub_if_size)
    then have "unat ?hs + unat ?es < 2 ^ 32"
      using that(1) unat_u32_bound [of disk_bytes] by (simp add: word_le_nat_alt)
    then show ?thesis
      using unat_add_no_wrap(1) [of ?hs ?es] by (simp add: kelf_header_bytes_def kelf_payload_bytes_def)
  qed
  have fits: "?es \<le> disk_bytes \<and> ?hs \<le> disk_bytes - ?es \<and> ?hs + ?es = n \<and> \<not> disk_bytes < 32 \<and> n \<noteq> 0"
    if "n \<le> disk_bytes" "kelf_well_formed data (unat n)"
  proof -
    have total: "unat ?hs + unat ?es = unat n"
      using that by (simp add: kelf_well_formed_def kelf_header_bytes_def kelf_payload_bytes_def)
    have "unat ?hs + unat ?es < 2 ^ 32" using total unat_u32_bound [of n] by simp
    then have "?hs + ?es = n" using total unat_add_no_wrap(1) [of ?hs ?es] by (simp add: word_unat_eq_iff)
    moreover have "64 \<le> unat n"
      using that by (simp add: kelf_well_formed_def kelf_bit_end_def)
    ultimately show ?thesis
      using that(1) total by (auto simp: word_le_nat_alt word_less_nat_alt unat_sub_if_size)
  qed
  show ?thesis
    unfolding kelf_size_from_disk_image_def Let_def
    using fits sum by (auto simp: kelf_valid_arith not_less split: if_splits)
qed

section \<open>Properties\<close>

text \<open>
  Property C27: the validator accepts exactly the well-formed containers: not a plain ELF, header
  and payload add up to the file, at most 63 BIT blocks, and the BIT table, the optional
  length-prefixed section, the optional area and the key area all end inside the header,
  computed without any wrap-around.
\<close>

theorem kelf_layout_exact:
  "kelf_validate_layout data n = KELF_VALID \<longleftrightarrow> kelf_well_formed data (unat n)"
  by (rule kelf_valid_arith)

text \<open>
  The length recovered from a disk image is the one length, within the bytes read,
  at which the image validates as a complete container.
\<close>

theorem kelf_recovered_length:
  "kelf_size_from_disk_image data disk_bytes file_bytes = (KELF_IMAGE_VALID, n) \<longleftrightarrow>
    n \<le> disk_bytes \<and> kelf_validate_layout data n = KELF_VALID"
  by (rule kelf_size_iff)

text \<open>
  A valid container written to disk and padded with arbitrary bytes is read back
  with its own length: sector padding neither changes the verdict nor the size.
\<close>

theorem kelf_padding_ignored:
  assumes "kelf_validate_layout kelf (of_nat (length kelf)) = KELF_VALID"
    and "length kelf + length padding < 2 ^ 32"
  shows "kelf_size_from_disk_image (kelf @ padding) (of_nat (length kelf + length padding)) file_bytes
    = (KELF_IMAGE_VALID, of_nat (length kelf))"
proof -
  have n: "unat (of_nat (length kelf) :: u32) = length kelf"
    using assms(2) by (intro unat_of_nat_small(2)) simp
  have "(of_nat (length kelf) :: u32) \<le> of_nat (length kelf + length padding)"
    using assms(2) n unat_of_nat_small(2) [of "length kelf + length padding"]
    by (simp add: word_le_nat_alt del: of_nat_add)
  moreover have "kelf_validate_layout (kelf @ padding) (of_nat (length kelf)) = KELF_VALID"
    using assms(1) kelf_validate_prefix [of "of_nat (length kelf)" "kelf @ padding" kelf] n by simp
  ultimately show ?thesis by (simp add: kelf_size_iff)
qed

text \<open>A container of 80 header bytes with a three-byte section and 16 payload bytes.\<close>

definition sample_kelf :: "byte list" where
  "sample_kelf = replicate 16 0 @ [16, 0, 0, 0, 80, 0, 0, 0, 1, 0, 0, 0, 0, 0, 0, 0] @
    [3] @ replicate 63 0"

theorem kelf_padding_ignored_witness:
  "kelf_size_from_disk_image (sample_kelf @ replicate 416 0) 512 0 = (KELF_IMAGE_VALID, 96)"
proof -
  have "kelf_validate_layout sample_kelf (of_nat (length sample_kelf)) = KELF_VALID"
    by code_simp
  from kelf_padding_ignored [OF this, of "replicate 416 0" 0] show ?thesis
    by (simp add: sample_kelf_def)
qed

end
