(* ===== verification/Capsule.thy ===== *)
theory Capsule
  imports Buffers
begin

text \<open>
  The metadata record of a rescue capsule: \<open>src/capsule_format.c\<close> and
  \<open>include/capsule_format.h\<close>.  A record is 256 bytes; the encoder fills a zeroed record, the
  decoder checks the fields in the order of the code and reports the first that fails.  The
  lemmas show the round trip and that an accepted record is internally consistent.
\<close>

section \<open>The record and its codec\<close>

abbreviation (input) RESCUE_CAPSULE_VERSION :: u32 where "RESCUE_CAPSULE_VERSION \<equiv> 1"
abbreviation (input) RESCUE_CAPSULE_METADATA_SIZE :: u32 where
  "RESCUE_CAPSULE_METADATA_SIZE \<equiv> 256"
abbreviation (input) RESCUE_CAPSULE_APA_HEADER_SIZE :: u32 where
  "RESCUE_CAPSULE_APA_HEADER_SIZE \<equiv> 1024"
abbreviation (input) RESCUE_CAPSULE_FAMILY_SIZE :: nat where "RESCUE_CAPSULE_FAMILY_SIZE \<equiv> 32"
abbreviation (input) RESCUE_CAPSULE_CONFIDENCE_SIZE :: nat where
  "RESCUE_CAPSULE_CONFIDENCE_SIZE \<equiv> 16"
abbreviation (input) RESCUE_CAPSULE_ROMVER_SIZE :: nat where "RESCUE_CAPSULE_ROMVER_SIZE \<equiv> 16"
abbreviation (input) RESCUE_CAPSULE_FLAG_VALID_APA :: u32 where
  "RESCUE_CAPSULE_FLAG_VALID_APA \<equiv> 1"
abbreviation (input) RESCUE_CAPSULE_FLAG_HAS_PAYLOAD :: u32 where
  "RESCUE_CAPSULE_FLAG_HAS_PAYLOAD \<equiv> 2"
abbreviation (input) RESCUE_CAPSULE_FLAG_VALID_KELF :: u32 where
  "RESCUE_CAPSULE_FLAG_VALID_KELF \<equiv> 4"
abbreviation (input) OFFSET_MAGIC :: nat where "OFFSET_MAGIC \<equiv> 0"
abbreviation (input) OFFSET_VERSION :: nat where "OFFSET_VERSION \<equiv> 8"
abbreviation (input) OFFSET_METADATA_SIZE :: nat where "OFFSET_METADATA_SIZE \<equiv> 12"
abbreviation (input) OFFSET_COMPLETE_SIZE :: nat where "OFFSET_COMPLETE_SIZE \<equiv> 16"
abbreviation (input) OFFSET_FLAGS :: nat where "OFFSET_FLAGS \<equiv> 20"
abbreviation (input) OFFSET_PAYLOAD_START :: nat where "OFFSET_PAYLOAD_START \<equiv> 24"
abbreviation (input) OFFSET_PAYLOAD_SECTORS :: nat where "OFFSET_PAYLOAD_SECTORS \<equiv> 28"
abbreviation (input) OFFSET_PAYLOAD_BYTES :: nat where "OFFSET_PAYLOAD_BYTES \<equiv> 32"
abbreviation (input) OFFSET_APA_BYTES :: nat where "OFFSET_APA_BYTES \<equiv> 36"
abbreviation (input) OFFSET_APA_SHA256 :: nat where "OFFSET_APA_SHA256 \<equiv> 40"
abbreviation (input) OFFSET_PAYLOAD_SHA256 :: nat where "OFFSET_PAYLOAD_SHA256 \<equiv> 72"
abbreviation (input) OFFSET_ROMVER :: nat where "OFFSET_ROMVER \<equiv> 104"
abbreviation (input) OFFSET_FAMILY :: nat where "OFFSET_FAMILY \<equiv> 120"
abbreviation (input) OFFSET_CONFIDENCE :: nat where "OFFSET_CONFIDENCE \<equiv> 152"
abbreviation (input) OFFSET_KELF_FILE_BYTES :: nat where "OFFSET_KELF_FILE_BYTES \<equiv> 168"

text \<open>\<open>rescue_capsule_info_t\<close>; the character arrays are byte lists of their declared size.\<close>

record rescue_capsule_info =
  cap_flags :: u32
  cap_payload_start :: u32
  cap_payload_sectors :: u32
  cap_payload_bytes :: u32
  cap_kelf_file_bytes :: u32
  cap_apa_sha256 :: "byte list"
  cap_payload_sha256 :: "byte list"
  cap_romver :: "byte list"
  cap_family :: "byte list"
  cap_confidence :: "byte list"

definition zero_capsule_info :: rescue_capsule_info where
  "zero_capsule_info = \<lparr>cap_flags = 0, cap_payload_start = 0, cap_payload_sectors = 0,
    cap_payload_bytes = 0, cap_kelf_file_bytes = 0, cap_apa_sha256 = replicate 32 0,
    cap_payload_sha256 = replicate 32 0, cap_romver = replicate 16 0,
    cap_family = replicate 32 0, cap_confidence = replicate 16 0\<rparr>"

definition capsule_magic :: "byte list" where
  "capsule_magic = map of_char ''PS2HBRC'' @ [0]"

definition rescue_capsule_encode :: "rescue_capsule_info \<Rightarrow> byte list" where
  "rescue_capsule_encode info =
    (let complete_size = RESCUE_CAPSULE_METADATA_SIZE + RESCUE_CAPSULE_APA_HEADER_SIZE +
           cap_payload_bytes info;
         m0 = replicate 256 0;
         m1 = blit OFFSET_MAGIC capsule_magic m0;
         m2 = write_le32 OFFSET_VERSION RESCUE_CAPSULE_VERSION m1;
         m3 = write_le32 OFFSET_METADATA_SIZE RESCUE_CAPSULE_METADATA_SIZE m2;
         m4 = write_le32 OFFSET_COMPLETE_SIZE complete_size m3;
         m5 = write_le32 OFFSET_FLAGS (cap_flags info) m4;
         m6 = write_le32 OFFSET_PAYLOAD_START (cap_payload_start info) m5;
         m7 = write_le32 OFFSET_PAYLOAD_SECTORS (cap_payload_sectors info) m6;
         m8 = write_le32 OFFSET_PAYLOAD_BYTES (cap_payload_bytes info) m7;
         m9 = write_le32 OFFSET_APA_BYTES RESCUE_CAPSULE_APA_HEADER_SIZE m8;
         m10 = blit OFFSET_APA_SHA256 (take 32 (cap_apa_sha256 info)) m9;
         m11 = blit OFFSET_PAYLOAD_SHA256 (take 32 (cap_payload_sha256 info)) m10;
         m12 = blit OFFSET_ROMVER (take RESCUE_CAPSULE_ROMVER_SIZE (cap_romver info)) m11;
         m13 = blit OFFSET_FAMILY (take RESCUE_CAPSULE_FAMILY_SIZE (cap_family info)) m12;
         m14 = blit OFFSET_CONFIDENCE (take RESCUE_CAPSULE_CONFIDENCE_SIZE (cap_confidence info)) m13
     in write_le32 OFFSET_KELF_FILE_BYTES (cap_kelf_file_bytes info) m14)"

text \<open>The last part of the decoder: the arrays are copied and the strings terminated.\<close>

definition decode_arrays :: "byte list \<Rightarrow> rescue_capsule_info \<Rightarrow> rescue_capsule_info" where
  "decode_arrays metadata info = info
    \<lparr>cap_apa_sha256 := bytes_at OFFSET_APA_SHA256 32 metadata,
     cap_payload_sha256 := bytes_at OFFSET_PAYLOAD_SHA256 32 metadata,
     cap_romver := (bytes_at OFFSET_ROMVER RESCUE_CAPSULE_ROMVER_SIZE metadata)
       [RESCUE_CAPSULE_ROMVER_SIZE - 1 := 0],
     cap_family := (bytes_at OFFSET_FAMILY RESCUE_CAPSULE_FAMILY_SIZE metadata)
       [RESCUE_CAPSULE_FAMILY_SIZE - 1 := 0],
     cap_confidence := (bytes_at OFFSET_CONFIDENCE RESCUE_CAPSULE_CONFIDENCE_SIZE metadata)
       [RESCUE_CAPSULE_CONFIDENCE_SIZE - 1 := 0]\<rparr>"

text \<open>
  The decoder returns its code and the record \<open>*info\<close>: the fields a failing call has already
  written are kept, as in the code.
\<close>

definition rescue_capsule_decode ::
    "byte list \<Rightarrow> u32 \<Rightarrow> rescue_capsule_info \<Rightarrow> int \<times> rescue_capsule_info" where
  "rescue_capsule_decode metadata complete_file_size info =
    (let known_flags = RESCUE_CAPSULE_FLAG_VALID_APA OR RESCUE_CAPSULE_FLAG_HAS_PAYLOAD OR
           RESCUE_CAPSULE_FLAG_VALID_KELF;
         payload_bytes = read_le32 metadata OFFSET_PAYLOAD_BYTES;
         payload_sectors = read_le32 metadata OFFSET_PAYLOAD_SECTORS;
         recorded_size = read_le32 metadata OFFSET_COMPLETE_SIZE in
     if bytes_at OFFSET_MAGIC (length capsule_magic) metadata \<noteq> capsule_magic then (- 1, info)
     else if read_le32 metadata OFFSET_VERSION \<noteq> RESCUE_CAPSULE_VERSION then (- 2, info)
     else if read_le32 metadata OFFSET_METADATA_SIZE \<noteq> RESCUE_CAPSULE_METADATA_SIZE
     then (- 3, info)
     else if read_le32 metadata OFFSET_APA_BYTES \<noteq> RESCUE_CAPSULE_APA_HEADER_SIZE
     then (- 4, info)
     else if payload_sectors > (- 1) div 512 \<or> payload_bytes \<noteq> payload_sectors * 512
     then (- 5, info)
     else if payload_bytes > (- 1) - RESCUE_CAPSULE_METADATA_SIZE - RESCUE_CAPSULE_APA_HEADER_SIZE
     then (- 6, info)
     else if recorded_size \<noteq> RESCUE_CAPSULE_METADATA_SIZE + RESCUE_CAPSULE_APA_HEADER_SIZE +
         payload_bytes \<or> complete_file_size \<noteq> recorded_size
     then (- 7, info)
     else let i1 = zero_capsule_info\<lparr>cap_flags := read_le32 metadata OFFSET_FLAGS\<rparr> in
       if cap_flags i1 AND NOT known_flags \<noteq> 0 then (- 8, i1)
       else let i2 = i1\<lparr>cap_payload_start := read_le32 metadata OFFSET_PAYLOAD_START,
             cap_payload_sectors := payload_sectors, cap_payload_bytes := payload_bytes,
             cap_kelf_file_bytes := read_le32 metadata OFFSET_KELF_FILE_BYTES\<rparr> in
       if cap_kelf_file_bytes i2 > cap_payload_bytes i2 then (- 9, i2)
       else if cap_flags i2 AND RESCUE_CAPSULE_FLAG_HAS_PAYLOAD = 0 \<and>
         (cap_payload_start i2 \<noteq> 0 \<or> cap_payload_sectors i2 \<noteq> 0 \<or> cap_payload_bytes i2 \<noteq> 0)
       then (- 10, i2)
       else if cap_flags i2 AND RESCUE_CAPSULE_FLAG_HAS_PAYLOAD \<noteq> 0 \<and>
         (cap_payload_start i2 = 0 \<or> cap_payload_sectors i2 = 0)
       then (- 11, i2)
       else if cap_flags i2 AND RESCUE_CAPSULE_FLAG_VALID_KELF \<noteq> 0 \<and>
         (cap_flags i2 AND RESCUE_CAPSULE_FLAG_HAS_PAYLOAD = 0 \<or> cap_kelf_file_bytes i2 = 0)
       then (- 12, i2)
       else if cap_flags i2 AND RESCUE_CAPSULE_FLAG_VALID_KELF = 0 \<and> cap_kelf_file_bytes i2 \<noteq> 0
       then (- 13, i2)
       else (0, decode_arrays metadata i2))"

section \<open>Consistent records\<close>

definition capsule_has_payload :: "rescue_capsule_info \<Rightarrow> bool" where
  "capsule_has_payload info \<longleftrightarrow> cap_flags info AND RESCUE_CAPSULE_FLAG_HAS_PAYLOAD \<noteq> 0"

definition capsule_has_kelf :: "rescue_capsule_info \<Rightarrow> bool" where
  "capsule_has_kelf info \<longleftrightarrow> cap_flags info AND RESCUE_CAPSULE_FLAG_VALID_KELF \<noteq> 0"

definition terminated :: "nat \<Rightarrow> byte list \<Rightarrow> bool" where
  "terminated n s \<longleftrightarrow> length s = n \<and> s ! (n - 1) = 0"

text \<open>
  A consistent record: the arrays have their sizes, the payload is whole sectors and the
  complete file fits 32 bits, and the flags agree with the pointer and the container length.
\<close>

definition capsule_fields_ok :: "rescue_capsule_info \<Rightarrow> bool" where
  "capsule_fields_ok info \<longleftrightarrow>
    unat (cap_payload_bytes info) = 512 * unat (cap_payload_sectors info) \<and>
    256 + 1024 + unat (cap_payload_bytes info) < 2 ^ 32 \<and>
    cap_flags info AND NOT 7 = 0 \<and>
    cap_kelf_file_bytes info \<le> cap_payload_bytes info \<and>
    (if capsule_has_payload info then cap_payload_start info \<noteq> 0 \<and> cap_payload_sectors info \<noteq> 0
     else cap_payload_start info = 0 \<and> cap_payload_sectors info = 0) \<and>
    (if capsule_has_kelf info then capsule_has_payload info \<and> cap_kelf_file_bytes info \<noteq> 0
     else cap_kelf_file_bytes info = 0)"

definition capsule_ok :: "rescue_capsule_info \<Rightarrow> bool" where
  "capsule_ok info \<longleftrightarrow> capsule_fields_ok info \<and>
    length (cap_apa_sha256 info) = 32 \<and> length (cap_payload_sha256 info) = 32 \<and>
    terminated 16 (cap_romver info) \<and> terminated 32 (cap_family info) \<and>
    terminated 16 (cap_confidence info)"

lemma length_capsule_magic [simp]: "length capsule_magic = 8"
  by (simp add: capsule_magic_def)

lemma length_encode [simp]: "length (rescue_capsule_encode info) = 256"
  by (simp add: rescue_capsule_encode_def Let_def)

text \<open>The fields an encoded record is read back with.\<close>

lemma encode_magic: "bytes_at 0 8 (rescue_capsule_encode info) = capsule_magic"
  and encode_words: "read_le32 (rescue_capsule_encode info) 8 = 1"
    "read_le32 (rescue_capsule_encode info) 12 = 256"
    "read_le32 (rescue_capsule_encode info) 16 = 256 + 1024 + cap_payload_bytes info"
    "read_le32 (rescue_capsule_encode info) 20 = cap_flags info"
    "read_le32 (rescue_capsule_encode info) 24 = cap_payload_start info"
    "read_le32 (rescue_capsule_encode info) 28 = cap_payload_sectors info"
    "read_le32 (rescue_capsule_encode info) 32 = cap_payload_bytes info"
    "read_le32 (rescue_capsule_encode info) 36 = 1024"
    "read_le32 (rescue_capsule_encode info) 168 = cap_kelf_file_bytes info"
  by (simp_all add: rescue_capsule_encode_def writes_def buf_simps)

lemma encode_arrays:
  assumes "capsule_ok info"
  shows "bytes_at 40 32 (rescue_capsule_encode info) = cap_apa_sha256 info"
    "bytes_at 72 32 (rescue_capsule_encode info) = cap_payload_sha256 info"
    "bytes_at 104 16 (rescue_capsule_encode info) = cap_romver info"
    "bytes_at 120 32 (rescue_capsule_encode info) = cap_family info"
    "bytes_at 152 16 (rescue_capsule_encode info) = cap_confidence info"
  using assms
  by (simp_all add: capsule_ok_def terminated_def rescue_capsule_encode_def writes_def buf_simps)

lemma terminated_update: "terminated n s \<Longrightarrow> s[n - 1 := 0] = s"
  by (metis terminated_def list_update_id)

lemma sectors_bound: "(- 1 :: u32) div 512 = 8388607" "(- 1 :: u32) - 256 - 1024 = 4294966015"
  by simp_all

lemma payload_size_ok_iff:
  fixes sectors bytes :: u32
  shows "\<not> (sectors > 8388607 \<or> bytes \<noteq> sectors * 512) \<and> \<not> bytes > 4294966015 \<longleftrightarrow>
    unat bytes = 512 * unat sectors \<and> 256 + 1024 + unat bytes < 2 ^ 32"
proof -
  have "unat (sectors * 512) = unat sectors * 512" if "unat sectors \<le> 8388607"
    using that by (simp add: unat_word_ariths)
  then show ?thesis
    using unat_u32_bound [of sectors]
    by (auto simp: word_le_nat_alt word_less_nat_alt word_unat_eq_iff not_less)
qed

section \<open>The accepted records\<close>

definition decoded_fields :: "byte list \<Rightarrow> rescue_capsule_info" where
  "decoded_fields metadata = zero_capsule_info
    \<lparr>cap_flags := read_le32 metadata 20, cap_payload_start := read_le32 metadata 24,
     cap_payload_sectors := read_le32 metadata 28, cap_payload_bytes := read_le32 metadata 32,
     cap_kelf_file_bytes := read_le32 metadata 168\<rparr>"

definition capsule_framed :: "byte list \<Rightarrow> u32 \<Rightarrow> bool" where
  "capsule_framed metadata complete_file_size \<longleftrightarrow>
    bytes_at 0 8 metadata = capsule_magic \<and> read_le32 metadata 8 = 1 \<and>
    read_le32 metadata 12 = 256 \<and> read_le32 metadata 36 = 1024 \<and>
    read_le32 metadata 16 = 256 + 1024 + read_le32 metadata 32 \<and>
    complete_file_size = read_le32 metadata 16"

lemma payload_zero_iff:
  fixes sectors bytes :: u32
  assumes "unat bytes = 512 * unat sectors"
  shows "bytes = 0 \<longleftrightarrow> sectors = 0"
proof -
  have "bytes = 0 \<longleftrightarrow> unat bytes = 0" "sectors = 0 \<longleftrightarrow> unat sectors = 0"
    by (simp_all add: unat_eq_0)
  then show ?thesis using assms by simp
qed

lemma fields_ok_checks:
  "capsule_fields_ok (decoded_fields m) \<longleftrightarrow>
    \<not> (read_le32 m 28 > 8388607 \<or> read_le32 m 32 \<noteq> read_le32 m 28 * 512) \<and>
    \<not> read_le32 m 32 > 4294966015 \<and>
    \<not> read_le32 m 20 AND NOT 7 \<noteq> 0 \<and>
    \<not> read_le32 m 168 > read_le32 m 32 \<and>
    \<not> (read_le32 m 20 AND 2 = 0 \<and>
       (read_le32 m 24 \<noteq> 0 \<or> read_le32 m 28 \<noteq> 0 \<or> read_le32 m 32 \<noteq> 0)) \<and>
    \<not> (read_le32 m 20 AND 2 \<noteq> 0 \<and> (read_le32 m 24 = 0 \<or> read_le32 m 28 = 0)) \<and>
    \<not> (read_le32 m 20 AND 4 \<noteq> 0 \<and> (read_le32 m 20 AND 2 = 0 \<or> read_le32 m 168 = 0)) \<and>
    \<not> (read_le32 m 20 AND 4 = 0 \<and> read_le32 m 168 \<noteq> 0)"
  (is "?L \<longleftrightarrow> ?R")
proof -
  note sizes = payload_size_ok_iff [of "read_le32 m 28" "read_le32 m 32"]
  show ?thesis
  proof (cases "unat (read_le32 m 32) = 512 * unat (read_le32 m 28) \<and>
      256 + 1024 + unat (read_le32 m 32) < 2 ^ 32")
    case True
    then have z: "read_le32 m 32 = 0 \<longleftrightarrow> read_le32 m 28 = 0" using payload_zero_iff by blast
    have s: "\<not> (read_le32 m 28 > 8388607 \<or> read_le32 m 32 \<noteq> read_le32 m 28 * 512)"
      "\<not> read_le32 m 32 > 4294966015" using True sizes by blast+
    show ?thesis
      unfolding capsule_fields_ok_def decoded_fields_def capsule_has_payload_def capsule_has_kelf_def
      using True s z by (auto simp: not_less)
  next
    case False
    then have "\<not> ?L" by (auto simp: capsule_fields_ok_def decoded_fields_def)
    moreover have "\<not> ?R" using False sizes by blast
    ultimately show ?thesis by blast
  qed
qed

lemma decode_ok_iff:
  "rescue_capsule_decode m n info = (0, i) \<longleftrightarrow>
    capsule_framed m n \<and> capsule_fields_ok (decoded_fields m) \<and>
    i = decode_arrays m (decoded_fields m)"
proof -
  have cond: "(if c then (e, x) else r) = (0, i) \<longleftrightarrow> \<not> c \<and> r = (0, i)" if "e \<noteq> (0 :: int)"
    for c e x r
    using that by simp
  have known: "1 OR 2 OR 4 = (7 :: u32)" by simp
  have "rescue_capsule_decode m n info = (0, i) \<longleftrightarrow>
    bytes_at 0 8 m = capsule_magic \<and> read_le32 m 8 = 1 \<and>
    read_le32 m 12 = 256 \<and> read_le32 m 36 = 1024 \<and>
    \<not> (read_le32 m 28 > 8388607 \<or> read_le32 m 32 \<noteq> read_le32 m 28 * 512) \<and>
    \<not> read_le32 m 32 > 4294966015 \<and>
    \<not> (read_le32 m 16 \<noteq> 256 + 1024 + read_le32 m 32 \<or> n \<noteq> read_le32 m 16) \<and>
    \<not> read_le32 m 20 AND NOT 7 \<noteq> 0 \<and>
    \<not> read_le32 m 168 > read_le32 m 32 \<and>
    \<not> (read_le32 m 20 AND 2 = 0 \<and>
       (read_le32 m 24 \<noteq> 0 \<or> read_le32 m 28 \<noteq> 0 \<or> read_le32 m 32 \<noteq> 0)) \<and>
    \<not> (read_le32 m 20 AND 2 \<noteq> 0 \<and> (read_le32 m 24 = 0 \<or> read_le32 m 28 = 0)) \<and>
    \<not> (read_le32 m 20 AND 4 \<noteq> 0 \<and> (read_le32 m 20 AND 2 = 0 \<or> read_le32 m 168 = 0)) \<and>
    \<not> (read_le32 m 20 AND 4 = 0 \<and> read_le32 m 168 \<noteq> 0) \<and>
    decode_arrays m (decoded_fields m) = i"
    unfolding rescue_capsule_decode_def Let_def known sectors_bound
    by (simp add: cond decoded_fields_def)
  then show ?thesis
    unfolding fields_ok_checks capsule_framed_def by blast
qed

lemma decode_arrays_ok:
  assumes "length m = 256" and "capsule_fields_ok i"
  shows "capsule_ok (decode_arrays m i)"
  using assms
  by (simp add: capsule_ok_def decode_arrays_def terminated_def capsule_fields_ok_def
      capsule_has_payload_def capsule_has_kelf_def cong: if_cong)

lemma encode_decode:
  assumes ok: "capsule_ok info"
  shows "rescue_capsule_decode (rescue_capsule_encode info) (256 + 1024 + cap_payload_bytes info) old
    = (0, info)"
proof -
  let ?m = "rescue_capsule_encode info"
  have fields: "decoded_fields ?m = info\<lparr>cap_apa_sha256 := replicate 32 0,
      cap_payload_sha256 := replicate 32 0, cap_romver := replicate 16 0,
      cap_family := replicate 32 0, cap_confidence := replicate 16 0\<rparr>"
    unfolding decoded_fields_def encode_words zero_capsule_info_def by simp
  have "capsule_fields_ok (decoded_fields ?m)"
    using ok by (simp add: fields capsule_ok_def capsule_fields_ok_def capsule_has_payload_def
        capsule_has_kelf_def cong: if_cong)
  moreover have "capsule_framed ?m (256 + 1024 + cap_payload_bytes info)"
    by (simp add: capsule_framed_def encode_magic encode_words)
  moreover have "decode_arrays ?m (decoded_fields ?m) = info"
    using ok terminated_update [of 16] terminated_update [of 32]
    unfolding decode_arrays_def encode_arrays [OF ok] fields
    by (simp add: capsule_ok_def)
  ultimately show ?thesis by (simp add: decode_ok_iff)
qed

section \<open>Properties\<close>

text \<open>
  Property C16: encoding a consistent record and decoding it with the size of the complete file
  gives the record back, whatever the output record held before.
\<close>

theorem capsule_roundtrip:
  assumes "capsule_ok info"
  shows "rescue_capsule_decode (rescue_capsule_encode info) (256 + 1024 + cap_payload_bytes info) old
    = (0, info)"
  by (rule encode_decode [OF assms])

definition sample_capsule :: rescue_capsule_info where
  "sample_capsule = \<lparr>cap_flags = 7, cap_payload_start = 0x2000, cap_payload_sectors = 3,
    cap_payload_bytes = 1536, cap_kelf_file_bytes = 1200, cap_apa_sha256 = replicate 32 17,
    cap_payload_sha256 = replicate 32 34, cap_romver = replicate 15 48 @ [0],
    cap_family = replicate 32 0, cap_confidence = replicate 16 0\<rparr>"

lemma sample_capsule_ok: "capsule_ok sample_capsule"
  by (simp add: capsule_ok_def capsule_fields_ok_def capsule_has_payload_def capsule_has_kelf_def
      terminated_def sample_capsule_def nth_append)

theorem capsule_roundtrip_witness:
  "rescue_capsule_decode (rescue_capsule_encode sample_capsule) 2816 zero_capsule_info =
    (0, sample_capsule)"
  using capsule_roundtrip [OF sample_capsule_ok, of zero_capsule_info]
  by (simp add: sample_capsule_def)

text \<open>
  Whatever the bytes of a 256-byte record are, a record the decoder accepts is
  consistent: whole sectors, a size that is that of the complete file and does not wrap, flags
  that agree with the pointer and the container, terminated strings.
\<close>

theorem capsule_decode_sound:
  assumes "length metadata = 256"
    and "rescue_capsule_decode metadata complete_file_size old = (0, info)"
  shows "capsule_ok info \<and>
    unat complete_file_size = 256 + 1024 + 512 * unat (cap_payload_sectors info)"
proof -
  have parts: "capsule_framed metadata complete_file_size"
      "capsule_fields_ok (decoded_fields metadata)"
      "info = decode_arrays metadata (decoded_fields metadata)"
    using decode_ok_iff [THEN iffD1, OF assms(2)] by blast+
  have bytes: "unat (read_le32 metadata 32) = 512 * unat (read_le32 metadata 28)"
      "256 + 1024 + unat (read_le32 metadata 32) < 2 ^ 32"
    using parts(2) by (simp_all add: capsule_fields_ok_def decoded_fields_def)
  have "unat (256 + 1024 + read_le32 metadata 32) = 256 + 1024 + 512 * unat (read_le32 metadata 28)"
    using bytes unat_add_no_wrap(1) [of "256 + 1024" "read_le32 metadata 32"] by simp
  moreover have "complete_file_size = 256 + 1024 + read_le32 metadata 32"
    using parts(1) by (simp add: capsule_framed_def)
  moreover have "cap_payload_sectors info = read_le32 metadata 28"
    by (simp add: parts(3) decode_arrays_def decoded_fields_def)
  ultimately show ?thesis
    using decode_arrays_ok [OF assms(1) parts(2)] by (simp only: parts(3))
qed

theorem capsule_decode_sound_witness:
  "capsule_ok sample_capsule \<and> unat (2816 :: u32) = 256 + 1024 + 512 * unat (3 :: u32)"
proof -
  have "rescue_capsule_decode (rescue_capsule_encode sample_capsule) 2816 zero_capsule_info =
      (0, sample_capsule)"
    using encode_decode [OF sample_capsule_ok, of zero_capsule_info] by (simp add: sample_capsule_def)
  from capsule_decode_sound [OF length_encode this] show ?thesis
    by (simp add: sample_capsule_def)
qed

end
