(* ===== verification/ApaRepair.thy ===== *)
theory ApaRepair
  imports Apa
begin

text \<open>
  Planning and building an exceptional repair of the APA master header:
  \<open>include/apa_repair.h\<close> and \<open>src/apa_repair.c\<close>.  The planner is a total function of the
  1024 header bytes; the builder refuses a plan that is not marked safe.  The lemmas
  characterise exactly when a plan is safe and show what the built header is.
\<close>

section \<open>Flags and plans\<close>

abbreviation (input) APA_REPAIR_ISSUE_CHECKSUM :: u32 where "APA_REPAIR_ISSUE_CHECKSUM \<equiv> 1"
abbreviation (input) APA_REPAIR_ISSUE_APA_MAGIC :: u32 where "APA_REPAIR_ISSUE_APA_MAGIC \<equiv> 2"
abbreviation (input) APA_REPAIR_ISSUE_MBR_ID :: u32 where "APA_REPAIR_ISSUE_MBR_ID \<equiv> 4"
abbreviation (input) APA_REPAIR_ISSUE_SONY_MAGIC :: u32 where "APA_REPAIR_ISSUE_SONY_MAGIC \<equiv> 8"
abbreviation (input) APA_REPAIR_ISSUE_MASTER_START :: u32 where "APA_REPAIR_ISSUE_MASTER_START \<equiv> 16"
abbreviation (input) APA_REPAIR_ISSUE_MASTER_TYPE :: u32 where "APA_REPAIR_ISSUE_MASTER_TYPE \<equiv> 32"
abbreviation (input) APA_REPAIR_ISSUE_MBR_VERSION :: u32 where "APA_REPAIR_ISSUE_MBR_VERSION \<equiv> 64"
abbreviation (input) APA_REPAIR_ISSUE_POINTER_INCONSISTENT :: u32
  where "APA_REPAIR_ISSUE_POINTER_INCONSISTENT \<equiv> 128"

abbreviation (input) APA_REPAIR_BLOCKER_HYBRID_GPT :: u32 where "APA_REPAIR_BLOCKER_HYBRID_GPT \<equiv> 1"
abbreviation (input) APA_REPAIR_BLOCKER_LOW_IDENTITY :: u32 where "APA_REPAIR_BLOCKER_LOW_IDENTITY \<equiv> 2"
abbreviation (input) APA_REPAIR_BLOCKER_NOT_MASTER :: u32 where "APA_REPAIR_BLOCKER_NOT_MASTER \<equiv> 4"
abbreviation (input) APA_REPAIR_BLOCKER_UNEXPLAINED_CHECKSUM :: u32
  where "APA_REPAIR_BLOCKER_UNEXPLAINED_CHECKSUM \<equiv> 8"

record apa_repair_plan =
  issues :: u32
  safe_header_fixes :: u32
  blockers :: u32
  identity_matches :: u32
  master_anchor_matches :: u32
  header_patch_safe :: bool
  pointer_clear_recommended :: bool

section \<open>Operations\<close>

function bit_count32 :: "u32 \<Rightarrow> u32" where
  "bit_count32 value =
    (if value \<noteq> 0 then (value AND 1) + bit_count32 (drop_bit 1 value) else 0)"
  by pat_completeness auto
termination
proof (relation "measure unat", goal_cases)
  case (2 v)
  then have "0 < unat v" by (simp add: unat_gt_0)
  then show ?case by (simp add: drop_bit_eq_div unat_div)
qed simp

declare bit_count32.simps [simp del]

definition apply_known_fixes :: "byte list \<Rightarrow> u32 \<Rightarrow> byte list" where
  "apply_known_fixes header fixes =
    (let header = (if fixes AND APA_REPAIR_ISSUE_APA_MAGIC \<noteq> 0
           then blit APA_MAGIC_OFFSET apa_magic header else header);
         header = (if fixes AND APA_REPAIR_ISSUE_MBR_ID \<noteq> 0
           then blit APA_ID_OFFSET mbr_id header else header);
         header = (if fixes AND APA_REPAIR_ISSUE_SONY_MAGIC \<noteq> 0
           then blit APA_MBR_MAGIC_OFFSET sce_magic header else header);
         header = (if fixes AND APA_REPAIR_ISSUE_MASTER_START \<noteq> 0
           then write_le32 APA_START_OFFSET 0 header else header);
         header = (if fixes AND APA_REPAIR_ISSUE_MASTER_TYPE \<noteq> 0
           then write_le16 APA_TYPE_OFFSET APA_MASTER_TYPE_VALUE header else header);
         header = (if fixes AND APA_REPAIR_ISSUE_MBR_VERSION \<noteq> 0
           then write_le32 APA_MBR_VERSION_OFFSET APA_MASTER_VERSION_VALUE header else header)
     in header)"

text \<open>
  The identity markers and the master anchors are scanned alike: a field that differs adds
  its flag to the issues, one that agrees is counted as a match.
\<close>

definition scan_field :: "bool \<Rightarrow> u32 \<Rightarrow> u32 \<times> u32 \<Rightarrow> u32 \<times> u32" where
  "scan_field differs flag acc = (case acc of (found, matches) \<Rightarrow>
    if differs then (found OR flag, matches) else (found, matches + 1))"

definition scan_identity :: "byte list \<Rightarrow> u32 \<times> u32" where
  "scan_identity header =
    scan_field (bytes_at APA_MBR_MAGIC_OFFSET (length sce_magic) header \<noteq> sce_magic)
      APA_REPAIR_ISSUE_SONY_MAGIC
    (scan_field (bytes_at APA_ID_OFFSET (length mbr_id) header \<noteq> mbr_id)
      APA_REPAIR_ISSUE_MBR_ID
    (scan_field (bytes_at APA_MAGIC_OFFSET (length apa_magic) header \<noteq> apa_magic)
      APA_REPAIR_ISSUE_APA_MAGIC (0, 0)))"

definition scan_anchors :: "byte list \<Rightarrow> u32 \<times> u32" where
  "scan_anchors header =
    scan_field (read_le32 header APA_MBR_VERSION_OFFSET \<noteq> APA_MASTER_VERSION_VALUE)
      APA_REPAIR_ISSUE_MBR_VERSION
    (scan_field (read_le16 header APA_TYPE_OFFSET \<noteq> APA_MASTER_TYPE_VALUE)
      APA_REPAIR_ISSUE_MASTER_TYPE
    (scan_field (read_le32 header APA_START_OFFSET \<noteq> 0)
      APA_REPAIR_ISSUE_MASTER_START (0, 0)))"

text \<open>The two repair rules, and the checksum rule that follows them.\<close>

definition consider_identity :: "u32 \<Rightarrow> apa_repair_plan \<Rightarrow> apa_repair_plan" where
  "consider_identity identity_issues plan =
    (if identity_issues \<noteq> 0 then
       if identity_matches plan \<ge> 2 \<and> master_anchor_matches plan = 3 \<and>
          bit_count32 identity_issues = 1
       then plan\<lparr>safe_header_fixes := safe_header_fixes plan OR identity_issues\<rparr>
       else plan\<lparr>blockers := blockers plan OR APA_REPAIR_BLOCKER_LOW_IDENTITY\<rparr>
     else plan)"

definition consider_anchors :: "u32 \<Rightarrow> apa_repair_plan \<Rightarrow> apa_repair_plan" where
  "consider_anchors anchor_issues plan =
    (if anchor_issues \<noteq> 0 then
       if identity_matches plan = 3 \<and> master_anchor_matches plan \<ge> 2 \<and>
          bit_count32 anchor_issues = 1
       then plan\<lparr>safe_header_fixes := safe_header_fixes plan OR anchor_issues\<rparr>
       else plan\<lparr>blockers := blockers plan OR APA_REPAIR_BLOCKER_NOT_MASTER\<rparr>
     else plan)"

definition consider_checksum :: "byte list \<Rightarrow> apa_repair_plan \<Rightarrow> apa_repair_plan" where
  "consider_checksum header plan =
    (let stored_checksum = read_le32 header 0;
         calculated_checksum = apa_checksum header;
         unexplained = plan\<lparr>blockers := blockers plan OR APA_REPAIR_BLOCKER_UNEXPLAINED_CHECKSUM\<rparr>
     in if safe_header_fixes plan \<noteq> 0 \<and> blockers plan = 0 then
          if stored_checksum = calculated_checksum then unexplained
          else (let candidate = apply_known_fixes header (safe_header_fixes plan)
                in if apa_checksum candidate \<noteq> stored_checksum then unexplained else plan)
        else if stored_checksum \<noteq> calculated_checksum then unexplained else plan)"

definition apa_repair_analyze :: "byte list \<Rightarrow> apa_repair_plan" where
  "apa_repair_analyze header =
    (let (identity_issues, id_matches) = scan_identity header;
         (anchor_issues, anchor_matches) = scan_anchors header;
         found = identity_issues OR anchor_issues;
         found = (if read_le32 header 0 \<noteq> apa_checksum header
                  then found OR APA_REPAIR_ISSUE_CHECKSUM else found);
         start = read_le32 header APA_OSD_START_OFFSET;
         size = read_le32 header APA_OSD_SIZE_OFFSET;
         inconsistent = ((start = 0) \<noteq> (size = 0));
         found = (if inconsistent then found OR APA_REPAIR_ISSUE_POINTER_INCONSISTENT else found);
         plan = \<lparr>issues = found, safe_header_fixes = 0, blockers = 0,
                 identity_matches = id_matches, master_anchor_matches = anchor_matches,
                 header_patch_safe = False, pointer_clear_recommended = inconsistent\<rparr>
     in if is_hybrid_gpt header
        then plan\<lparr>blockers := blockers plan OR APA_REPAIR_BLOCKER_HYBRID_GPT\<rparr>
        else (let plan = consider_checksum header
                    (consider_anchors anchor_issues (consider_identity identity_issues plan))
              in plan\<lparr>header_patch_safe := blockers plan = 0 \<and> safe_header_fixes plan \<noteq> 0\<rparr>))"

text \<open>The builder: the known fixes, then a recomputed checksum word; \<open>None\<close> is the refusal.\<close>

definition apa_repair_build_header :: "byte list \<Rightarrow> apa_repair_plan \<Rightarrow> byte list option" where
  "apa_repair_build_header source plan =
    (if \<not> header_patch_safe plan \<or> blockers plan \<noteq> 0 then None
     else let repaired = apply_known_fixes source (safe_header_fixes plan)
          in Some (write_le32 0 (apa_checksum repaired) repaired))"

section \<open>Specification: one faulty field, corroborated by the checksum\<close>

text \<open>
  The six fields the planner knows the canonical value of.  A repair is justified when exactly
  one of them is wrong and restoring it restores the checksum the header stores.
\<close>

datatype master_field = Apa_Magic | Mbr_Id | Sony_Magic | Master_Start | Master_Type | Mbr_Version

fun field_ok :: "master_field \<Rightarrow> byte list \<Rightarrow> bool" where
  "field_ok Apa_Magic h = (bytes_at APA_MAGIC_OFFSET 4 h = apa_magic)"
| "field_ok Mbr_Id h = (bytes_at APA_ID_OFFSET 5 h = mbr_id)"
| "field_ok Sony_Magic h = (bytes_at APA_MBR_MAGIC_OFFSET 32 h = sce_magic)"
| "field_ok Master_Start h = (read_le32 h APA_START_OFFSET = 0)"
| "field_ok Master_Type h = (read_le16 h APA_TYPE_OFFSET = APA_MASTER_TYPE_VALUE)"
| "field_ok Mbr_Version h = (read_le32 h APA_MBR_VERSION_OFFSET = APA_MASTER_VERSION_VALUE)"

fun field_fix :: "master_field \<Rightarrow> byte list \<Rightarrow> byte list" where
  "field_fix Apa_Magic h = blit APA_MAGIC_OFFSET apa_magic h"
| "field_fix Mbr_Id h = blit APA_ID_OFFSET mbr_id h"
| "field_fix Sony_Magic h = blit APA_MBR_MAGIC_OFFSET sce_magic h"
| "field_fix Master_Start h = write_le32 APA_START_OFFSET 0 h"
| "field_fix Master_Type h = write_le16 APA_TYPE_OFFSET APA_MASTER_TYPE_VALUE h"
| "field_fix Mbr_Version h = write_le32 APA_MBR_VERSION_OFFSET APA_MASTER_VERSION_VALUE h"

fun field_flag :: "master_field \<Rightarrow> u32" where
  "field_flag Apa_Magic = APA_REPAIR_ISSUE_APA_MAGIC"
| "field_flag Mbr_Id = APA_REPAIR_ISSUE_MBR_ID"
| "field_flag Sony_Magic = APA_REPAIR_ISSUE_SONY_MAGIC"
| "field_flag Master_Start = APA_REPAIR_ISSUE_MASTER_START"
| "field_flag Master_Type = APA_REPAIR_ISSUE_MASTER_TYPE"
| "field_flag Mbr_Version = APA_REPAIR_ISSUE_MBR_VERSION"

definition faults :: "byte list \<Rightarrow> master_field set" where
  "faults h = {f. \<not> field_ok f h}"

definition justified_fix :: "byte list \<Rightarrow> master_field \<Rightarrow> bool" where
  "justified_fix h f \<longleftrightarrow> \<not> is_hybrid_gpt h \<and> faults h = {f} \<and>
    read_le32 h 0 \<noteq> apa_checksum h \<and> apa_checksum (field_fix f h) = read_le32 h 0"

lemma all_master_field:
  "(\<forall>f. P f) \<longleftrightarrow> P Apa_Magic \<and> P Mbr_Id \<and> P Sony_Magic \<and> P Master_Start \<and> P Master_Type \<and> P Mbr_Version"
  by (metis master_field.exhaust)

lemma ex_master_field:
  "(\<exists>f. P f) \<longleftrightarrow> P Apa_Magic \<or> P Mbr_Id \<or> P Sony_Magic \<or> P Master_Start \<or> P Master_Type \<or> P Mbr_Version"
  by (metis master_field.exhaust)

lemma faults_single: "faults h = {f} \<longleftrightarrow> (\<forall>g. field_ok g h \<longleftrightarrow> g \<noteq> f)"
  by (auto simp: faults_def set_eq_iff)

lemma bit_count32_step: "v \<noteq> 0 \<Longrightarrow> bit_count32 v = (v AND 1) + bit_count32 (drop_bit 1 v)"
  by (simp add: bit_count32.simps [of v])

lemma bit_count32_values:
  "bit_count32 2 = 1" "bit_count32 4 = 1" "bit_count32 8 = 1"
  "bit_count32 16 = 1" "bit_count32 32 = 1" "bit_count32 64 = 1"
  "bit_count32 6 = 2" "bit_count32 10 = 2" "bit_count32 12 = 2" "bit_count32 14 = 3"
  "bit_count32 48 = 2" "bit_count32 80 = 2" "bit_count32 96 = 2" "bit_count32 112 = 3"
  by code_simp+

lemma length_apply_known_fixes [simp]: "length (apply_known_fixes h fixes) = length h"
  by (simp add: apply_known_fixes_def Let_def)

lemma apply_one_fix: "apply_known_fixes h (field_flag f) = field_fix f h"
  by (cases f) (simp_all add: apply_known_fixes_def)

lemmas apply_fix_values =
  apply_one_fix [of _ Apa_Magic, simplified] apply_one_fix [of _ Mbr_Id, simplified]
  apply_one_fix [of _ Sony_Magic, simplified] apply_one_fix [of _ Master_Start, simplified]
  apply_one_fix [of _ Master_Type, simplified] apply_one_fix [of _ Mbr_Version, simplified]

lemmas analyze_defs = apa_repair_analyze_def scan_identity_def scan_anchors_def scan_field_def
  consider_identity_def consider_anchors_def consider_checksum_def Let_def
  bit_count32_values apply_fix_values

lemma analyze_safe_justified:
  "header_patch_safe (apa_repair_analyze h) \<Longrightarrow>
    \<exists>f. justified_fix h f \<and> safe_header_fixes (apa_repair_analyze h) = field_flag f \<and>
      blockers (apa_repair_analyze h) = 0"
  unfolding justified_fix_def faults_single all_master_field ex_master_field
  by (cases "field_ok Apa_Magic h"; cases "field_ok Mbr_Id h"; cases "field_ok Sony_Magic h";
      cases "field_ok Master_Start h"; cases "field_ok Master_Type h"; cases "field_ok Mbr_Version h")
     (simp_all add: analyze_defs split: if_splits)

lemma justified_analyze_safe:
  "justified_fix h f \<Longrightarrow> header_patch_safe (apa_repair_analyze h) \<and>
    safe_header_fixes (apa_repair_analyze h) = field_flag f \<and>
    blockers (apa_repair_analyze h) = 0"
  unfolding justified_fix_def faults_single all_master_field
  by (cases f) (simp_all add: analyze_defs)

text \<open>Every fix is one block write, and a field is right when its block is there.\<close>

fun field_offset :: "master_field \<Rightarrow> nat" where
  "field_offset Apa_Magic = APA_MAGIC_OFFSET"
| "field_offset Mbr_Id = APA_ID_OFFSET"
| "field_offset Sony_Magic = APA_MBR_MAGIC_OFFSET"
| "field_offset Master_Start = APA_START_OFFSET"
| "field_offset Master_Type = APA_TYPE_OFFSET"
| "field_offset Mbr_Version = APA_MBR_VERSION_OFFSET"

fun field_bytes :: "master_field \<Rightarrow> byte list" where
  "field_bytes Apa_Magic = apa_magic"
| "field_bytes Mbr_Id = mbr_id"
| "field_bytes Sony_Magic = sce_magic"
| "field_bytes Master_Start = le32_bytes 0"
| "field_bytes Master_Type = le16_bytes APA_MASTER_TYPE_VALUE"
| "field_bytes Mbr_Version = le32_bytes APA_MASTER_VERSION_VALUE"

lemma field_fix_blit: "field_fix f h = blit (field_offset f) (field_bytes f) h"
  by (cases f) (simp_all add: writes_def)

lemma length_field_fix [simp]: "length (field_fix f h) = length h"
  by (simp add: field_fix_blit)

lemma field_place:
  "4 \<le> field_offset f" "field_offset f + length (field_bytes f) \<le> 0x124"
  by (cases f; simp)+

lemma field_fix_frame:
  "off + n \<le> 4 \<or> 0x124 \<le> off \<Longrightarrow> bytes_at off n (field_fix f h) = bytes_at off n h"
  unfolding field_fix_blit using field_place [of f] by (intro bytes_at_blit_out) auto

lemma field_ok_fixed: "length h = APA_HEADER_SIZE \<Longrightarrow> field_ok f (field_fix f h)"
  by (cases f) (simp_all add: writes_def buf_simps)

lemma field_ok_other: "g \<noteq> f \<Longrightarrow> field_ok g (field_fix f h) = field_ok g h"
  by (cases f; cases g) (simp_all add: writes_def buf_simps)

lemma faults_fixed:
  assumes "length h = APA_HEADER_SIZE" and "faults h = {f}"
  shows "faults (field_fix f h) = {}"
  using assms(2) field_ok_fixed [OF assms(1), of f] field_ok_other [of _ f h]
  unfolding faults_single by (auto simp: faults_def)

lemma hybrid_frame: "is_hybrid_gpt (field_fix f h) = is_hybrid_gpt h"
proof -
  have "read_u8 (field_fix f h) off = read_u8 h off" if "0x124 \<le> off" for off
    by (rule u8.rd_cong, rule field_fix_frame) (use that in simp)
  then show ?thesis by (simp add: is_hybrid_gpt_def)
qed

lemma standard_when_no_faults:
  "faults h = {} \<Longrightarrow> read_le32 h 0 = apa_checksum h \<Longrightarrow> is_standard_apa_header h"
proof -
  assume none: "faults h = {}" and sum: "read_le32 h 0 = apa_checksum h"
  from none have "field_ok f h" for f by (auto simp: faults_def)
  from this [of Apa_Magic] this [of Mbr_Id] this [of Sony_Magic] sum
  show ?thesis by (simp add: is_standard_iff)
qed

text \<open>What the builder emits for a justified fix: the fixed header itself.\<close>

lemma justified_build:
  assumes len: "length h = APA_HEADER_SIZE" and jf: "justified_fix h f"
  shows "apa_repair_build_header h (apa_repair_analyze h) = Some (field_fix f h)"
    and "is_standard_apa_header (field_fix f h)"
    and "\<not> is_hybrid_gpt (field_fix f h)"
    and "faults (field_fix f h) = {}"
    and "read_le32 (field_fix f h) 0 = read_le32 h 0"
proof -
  let ?r = "field_fix f h"
  have keep: "read_le32 ?r 0 = read_le32 h 0"
    by (rule le32.rd_cong, rule field_fix_frame) simp
  have sum: "apa_checksum ?r = read_le32 h 0" and one: "faults h = {f}" and hyb: "\<not> is_hybrid_gpt h"
    using jf by (auto simp: justified_fix_def)
  have "write_le32 0 (apa_checksum ?r) ?r = ?r"
    using le32.write_read_id [of 0 ?r] len sum keep by (simp add: write_le32_def)
  then show "apa_repair_build_header h (apa_repair_analyze h) = Some ?r"
    using justified_analyze_safe [OF jf] by (simp add: apa_repair_build_header_def apply_one_fix)
  show none: "faults ?r = {}" by (rule faults_fixed [OF len one])
  show "is_standard_apa_header ?r"
    using none sum keep by (intro standard_when_no_faults) auto
  show "\<not> is_hybrid_gpt ?r" using hyb by (simp add: hybrid_frame)
  show "read_le32 ?r 0 = read_le32 h 0" by (rule keep)
qed

lemma analyze_clean:
  assumes "faults h = {}" and "read_le32 h 0 = apa_checksum h" and "\<not> is_hybrid_gpt h"
  shows "\<not> header_patch_safe (apa_repair_analyze h)" "blockers (apa_repair_analyze h) = 0"
    "issues (apa_repair_analyze h) \<in> {0, APA_REPAIR_ISSUE_POINTER_INCONSISTENT}"
proof -
  have "field_ok f h" for f using assms(1) by (auto simp: faults_def)
  from this [of Apa_Magic] this [of Mbr_Id] this [of Sony_Magic]
    this [of Master_Start] this [of Master_Type] this [of Mbr_Version]
  show "\<not> header_patch_safe (apa_repair_analyze h)" "blockers (apa_repair_analyze h) = 0"
    "issues (apa_repair_analyze h) \<in> {0, APA_REPAIR_ISSUE_POINTER_INCONSISTENT}"
    using assms(2,3) by (simp_all add: analyze_defs)
qed

section \<open>Sample headers\<close>

text \<open>
  A canonical master with an empty partition chain, and the same header with its version field
  overwritten after the checksum was stored: inputs for the witnesses below.
\<close>

definition blank_master :: "byte list" where
  "blank_master =
    write_le32 APA_MBR_VERSION_OFFSET APA_MASTER_VERSION_VALUE
    (write_le16 APA_TYPE_OFFSET APA_MASTER_TYPE_VALUE
    (blit APA_MBR_MAGIC_OFFSET sce_magic (blit APA_ID_OFFSET mbr_id
    (blit APA_MAGIC_OFFSET apa_magic (replicate APA_HEADER_SIZE 0)))))"

definition sample_master :: "byte list" where
  "sample_master = write_le32 0 (apa_checksum blank_master) blank_master"

definition damaged_master :: "byte list" where
  "damaged_master = write_le32 APA_MBR_VERSION_OFFSET 3 sample_master"

lemma length_samples [simp]:
  "length blank_master = 1024" "length sample_master = 1024" "length damaged_master = 1024"
  by (simp_all add: blank_master_def sample_master_def damaged_master_def)

lemma sample_fields: "field_ok f sample_master"
  unfolding sample_master_def
  by (cases f) (simp_all add: blank_master_def writes_def buf_simps read_zero32)

lemma sample_sum: "read_le32 sample_master 0 = apa_checksum sample_master"
  unfolding sample_master_def by (rule checksum_store_consistent) simp

lemma sample_not_hybrid: "\<not> is_hybrid_gpt sample_master"
  by (simp add: is_hybrid_gpt_def sample_master_def blank_master_def writes_def buf_simps read_u8_def)

lemma sample_standard: "is_standard_apa_header sample_master"
  by (rule standard_when_no_faults) (auto simp: faults_def sample_fields sample_sum)

lemma damaged_checksum: "apa_checksum damaged_master = apa_checksum sample_master + 1"
proof -
  have "read_le32 sample_master APA_MBR_VERSION_OFFSET = 2"
    using sample_fields [of Mbr_Version] by simp
  then show ?thesis
    using apa_checksum_write [of sample_master 72 3] by (simp add: damaged_master_def)
qed

lemma damaged_repaired: "field_fix Mbr_Version damaged_master = sample_master"
  using sample_fields [of Mbr_Version] le32.write_read_id [of APA_MBR_VERSION_OFFSET sample_master]
  by (simp add: damaged_master_def write_le32_def blit_blit_same)

lemma damaged_justified: "justified_fix damaged_master Mbr_Version"
proof -
  have "read_le32 damaged_master 0 = read_le32 sample_master 0"
    by (simp add: damaged_master_def write_le32_def buf_simps)
  moreover have "\<not> is_hybrid_gpt damaged_master"
    using sample_not_hybrid hybrid_frame [of Mbr_Version damaged_master] damaged_repaired by simp
  moreover have "field_ok g damaged_master \<longleftrightarrow> g \<noteq> Mbr_Version" for g
  proof (cases "g = Mbr_Version")
    case True
    then show ?thesis by (simp add: damaged_master_def write_le32_def buf_simps)
  next
    case False
    then show ?thesis
      using field_ok_other [of g Mbr_Version damaged_master, unfolded damaged_repaired] sample_fields
      by blast
  qed
  ultimately show ?thesis
    unfolding justified_fix_def faults_single damaged_repaired damaged_checksum sample_sum by simp
qed

section \<open>Properties\<close>


text \<open>
  A patch the planner allows is built, the built header is a standard non-hybrid
  master with all six fields canonical, it keeps the stored checksum, and it differs from the
  damaged header only inside the one field that was wrong.
\<close>

theorem repair_build_correct:
  assumes "length h = APA_HEADER_SIZE" and "header_patch_safe (apa_repair_analyze h)"
  shows "\<exists>f h'. apa_repair_build_header h (apa_repair_analyze h) = Some h' \<and>
    is_standard_apa_header h' \<and> \<not> is_hybrid_gpt h' \<and> faults h' = {} \<and>
    read_le32 h' 0 = read_le32 h 0 \<and> length h' = APA_HEADER_SIZE \<and>
    (\<forall>i < APA_HEADER_SIZE. i < field_offset f \<or> field_offset f + length (field_bytes f) \<le> i \<longrightarrow>
      h' ! i = h ! i)"
proof -
  obtain f where f: "justified_fix h f" using analyze_safe_justified assms(2) by blast
  have "\<forall>i < APA_HEADER_SIZE. i < field_offset f \<or> field_offset f + length (field_bytes f) \<le> i \<longrightarrow>
      field_fix f h ! i = h ! i"
    using assms(1) by (simp add: field_fix_blit nth_blit_out)
  then show ?thesis using justified_build [OF assms(1) f] assms(1) by (intro exI [of _ f]) auto
qed

theorem repair_build_correct_witness:
  "\<exists>f h'. apa_repair_build_header damaged_master (apa_repair_analyze damaged_master) = Some h' \<and>
    is_standard_apa_header h' \<and> \<not> is_hybrid_gpt h' \<and> faults h' = {} \<and>
    read_le32 h' 0 = read_le32 damaged_master 0 \<and> length h' = APA_HEADER_SIZE \<and>
    (\<forall>i < APA_HEADER_SIZE. i < field_offset f \<or> field_offset f + length (field_bytes f) \<le> i \<longrightarrow>
      h' ! i = damaged_master ! i)"
  by (rule repair_build_correct) (use damaged_justified justified_analyze_safe in auto)

text \<open>
  Repair is idempotent.  Analysing the header a repair emits finds at most an
  inconsistent boot pointer, no blocker, and nothing left to patch.
\<close>

theorem repair_then_clean:
  assumes "length h = APA_HEADER_SIZE"
    and "apa_repair_build_header h (apa_repair_analyze h) = Some h'"
  shows "\<not> header_patch_safe (apa_repair_analyze h') \<and> blockers (apa_repair_analyze h') = 0 \<and>
    issues (apa_repair_analyze h') \<in> {0, APA_REPAIR_ISSUE_POINTER_INCONSISTENT}"
proof -
  have "header_patch_safe (apa_repair_analyze h)"
    using assms(2) by (simp add: apa_repair_build_header_def split: if_splits)
  then obtain f where f: "justified_fix h f" using analyze_safe_justified by blast
  note built = justified_build [OF assms(1) f]
  then have "h' = field_fix f h" using assms(2) by simp
  then show ?thesis
    using analyze_clean [of h'] built is_standard_iff [of h'] by simp
qed

theorem repair_then_clean_witness:
  "\<not> header_patch_safe (apa_repair_analyze sample_master) \<and>
    blockers (apa_repair_analyze sample_master) = 0 \<and>
    issues (apa_repair_analyze sample_master) \<in> {0, APA_REPAIR_ISSUE_POINTER_INCONSISTENT}"
  by (rule repair_then_clean [of damaged_master])
    (simp_all only: length_samples justified_build(1) [OF _ damaged_justified] damaged_repaired)

end
