(* ===== verification/RescueImage.thy ===== *)
theory RescueImage
  imports Apa Capsule Kelf Sha256_Correct ApaRepair
begin

text \<open>
  Validation of a complete rescue file held in memory: \<open>src/rescue_image.c\<close>.  A file is the
  256-byte metadata record, the saved 1024-byte master header and the payload sectors.  The
  lemmas characterise the accepted files and show that a file put together from a consistent
  record whose digests are those of its parts is accepted.
\<close>

abbreviation (input) RESCUE_IMAGE_TOO_SMALL :: int where "RESCUE_IMAGE_TOO_SMALL \<equiv> - 181"
abbreviation (input) RESCUE_IMAGE_APA_INVALID :: int where "RESCUE_IMAGE_APA_INVALID \<equiv> - 182"
abbreviation (input) RESCUE_IMAGE_PAYLOAD_HASH_MISMATCH :: int where
  "RESCUE_IMAGE_PAYLOAD_HASH_MISMATCH \<equiv> - 183"
abbreviation (input) RESCUE_IMAGE_KELF_MISMATCH :: int where "RESCUE_IMAGE_KELF_MISMATCH \<equiv> - 184"

definition rescue_image_validate ::
    "byte list \<Rightarrow> u32 \<Rightarrow> rescue_capsule_info \<Rightarrow> int \<times> rescue_capsule_info" where
  "rescue_image_validate data nbytes info0 =
    (if nbytes < RESCUE_CAPSULE_METADATA_SIZE + of_nat APA_HEADER_SIZE
     then (RESCUE_IMAGE_TOO_SMALL, info0)
     else let (result, info) = rescue_capsule_decode data nbytes info0 in
       if result < 0 then (- 190 + result, info)
       else let saved_header = bytes_at 256 APA_HEADER_SIZE data;
                saved_payload = drop (256 + APA_HEADER_SIZE) data in
         if sha256_buffer saved_header \<noteq> cap_apa_sha256 info \<or>
            \<not> is_standard_apa_header saved_header \<or>
            cap_flags info AND RESCUE_CAPSULE_FLAG_VALID_APA = 0
         then (RESCUE_IMAGE_APA_INVALID, info)
         else if cap_flags info AND RESCUE_CAPSULE_FLAG_HAS_PAYLOAD \<noteq> 0
         then if sha256_buffer (take (unat (cap_payload_bytes info)) saved_payload) \<noteq>
                cap_payload_sha256 info
              then (RESCUE_IMAGE_PAYLOAD_HASH_MISMATCH, info)
              else let (kelf_result, kelf_bytes) =
                  kelf_size_from_disk_image saved_payload (cap_payload_bytes info) 0 in
                if cap_flags info AND RESCUE_CAPSULE_FLAG_VALID_KELF \<noteq> 0 \<and>
                   (kelf_result \<noteq> KELF_IMAGE_VALID \<or> kelf_bytes \<noteq> cap_kelf_file_bytes info)
                then (RESCUE_IMAGE_KELF_MISMATCH, info)
                else (0, info)
         else (0, info))"

definition rescue_image_state_matches :: "rescue_capsule_info \<Rightarrow> rescue_capsule_info \<Rightarrow> bool" where
  "rescue_image_state_matches existing expected \<longleftrightarrow>
    cap_flags existing = cap_flags expected \<and>
    cap_payload_start existing = cap_payload_start expected \<and>
    cap_payload_sectors existing = cap_payload_sectors expected \<and>
    cap_payload_bytes existing = cap_payload_bytes expected \<and>
    cap_apa_sha256 existing = cap_apa_sha256 expected \<and>
    cap_payload_sha256 existing = cap_payload_sha256 expected"

section \<open>The accepted files\<close>

text \<open>What an accepted file attests about the master header and the payload it carries.\<close>

definition image_contents_ok :: "rescue_capsule_info \<Rightarrow> byte list \<Rightarrow> byte list \<Rightarrow> bool" where
  "image_contents_ok info header payload \<longleftrightarrow>
    cap_flags info AND RESCUE_CAPSULE_FLAG_VALID_APA \<noteq> 0 \<and>
    is_standard_apa_header header \<and> sha256_spec header = cap_apa_sha256 info \<and>
    (capsule_has_payload info \<longrightarrow> sha256_spec payload = cap_payload_sha256 info) \<and>
    (capsule_has_kelf info \<longrightarrow> kelf_validate_layout payload (cap_kelf_file_bytes info) = KELF_VALID)"

lemma decode_codes:
  assumes "rescue_capsule_decode m n old = (r, i)"
  shows "r = 0 \<or> (- 13 \<le> r \<and> r \<le> - 1)"
  using assms unfolding rescue_capsule_decode_def Let_def
  by (auto split: if_splits)

lemma kelf_image_check:
  assumes "cap_kelf_file_bytes info \<le> cap_payload_bytes info"
  shows "(let (kelf_result, kelf_bytes) =
        kelf_size_from_disk_image payload (cap_payload_bytes info) 0 in
      kelf_result \<noteq> KELF_IMAGE_VALID \<or> kelf_bytes \<noteq> cap_kelf_file_bytes info) \<longleftrightarrow>
    kelf_validate_layout payload (cap_kelf_file_bytes info) \<noteq> KELF_VALID"
  using assms kelf_size_iff [of payload "cap_payload_bytes info" 0 "cap_kelf_file_bytes info"]
  by (cases "kelf_size_from_disk_image payload (cap_payload_bytes info) 0") auto

lemma decode_prefix:
  assumes "length m = 256"
  shows "rescue_capsule_decode (m @ rest) n old = rescue_capsule_decode m n old"
  unfolding rescue_capsule_decode_def decode_arrays_def Let_def
  using assms by (simp add: reads_append bytes_at_append_left)

lemma validate_split:
  assumes "length m = 256" and "length h = APA_HEADER_SIZE"
  shows "bytes_at 256 APA_HEADER_SIZE (m @ h @ p) = h"
    and "drop (256 + APA_HEADER_SIZE) (m @ h @ p) = p"
  using assms by (simp_all add: bytes_at_def)

text \<open>An accepted record says how long the payload of the file is.\<close>

lemma accepted_payload_length:
  assumes "length m = 256" and "length h = APA_HEADER_SIZE" and "length (m @ h @ p) < 2 ^ 32"
    and "rescue_capsule_decode m (of_nat (length (m @ h @ p))) old = (0, info)"
  shows "length p = unat (cap_payload_bytes info)" and "capsule_ok info"
proof -
  have i: "capsule_framed m (of_nat (length (m @ h @ p)))" "capsule_fields_ok (decoded_fields m)"
    "info = decode_arrays m (decoded_fields m)"
    using decode_ok_iff [THEN iffD1, OF assms(4)] by blast+
  have "unat (256 + 1024 + cap_payload_bytes info) = 256 + 1024 + unat (cap_payload_bytes info)"
    using i(2) unat_add_no_wrap(1) [of "256 + 1024" "read_le32 m 32"]
    by (simp add: i(3) decode_arrays_def decoded_fields_def capsule_fields_ok_def)
  moreover have "of_nat (length (m @ h @ p)) = 256 + 1024 + cap_payload_bytes info"
    using i(1) by (simp add: capsule_framed_def i(3) decode_arrays_def decoded_fields_def)
  ultimately have "length (m @ h @ p) = 256 + 1024 + unat (cap_payload_bytes info)"
    using unat_of_nat_small(2) [of "length (m @ h @ p)"] assms(3) by simp
  then show "length p = unat (cap_payload_bytes info)" using assms(1,2) by simp
  show "capsule_ok info" using decode_arrays_ok [OF assms(1) i(2)] by (simp only: i(3))
qed

lemma validate_iff:
  assumes m: "length m = 256" and h: "length h = APA_HEADER_SIZE"
    and size: "length (m @ h @ p) < 2 ^ 32"
  shows "rescue_image_validate (m @ h @ p) (of_nat (length (m @ h @ p))) old = (0, info) \<longleftrightarrow>
    rescue_capsule_decode m (of_nat (length (m @ h @ p))) old = (0, info) \<and>
    image_contents_ok info h p"
proof -
  let ?n = "of_nat (length (m @ h @ p)) :: u32"
  obtain r i where d: "rescue_capsule_decode m ?n old = (r, i)" by (cases "rescue_capsule_decode m ?n old")
  have big: "\<not> ?n < 1280"
    using size m h unat_of_nat_small(2) [of "length (m @ h @ p)"] by (simp add: word_less_nat_alt)
  show ?thesis
  proof (cases "r < 0")
    case True
    then show ?thesis
      using big unfolding rescue_image_validate_def decode_prefix [OF m] d by auto
  next
    case False
    then have r: "r = 0" using decode_codes [OF d] by simp
    have len: "length p = unat (cap_payload_bytes i)" and ok: "capsule_ok i"
      using accepted_payload_length [OF m h size] d r by auto
    have kelf: "cap_kelf_file_bytes i \<le> cap_payload_bytes i"
      and sub: "capsule_has_kelf i \<Longrightarrow> capsule_has_payload i"
      using ok by (auto simp: capsule_ok_def capsule_fields_ok_def split: if_splits)
    obtain kr kb where k: "kelf_size_from_disk_image p (cap_payload_bytes i) 0 = (kr, kb)"
      by (cases "kelf_size_from_disk_image p (cap_payload_bytes i) 0")
    have "kr \<noteq> KELF_IMAGE_VALID \<or> kb \<noteq> cap_kelf_file_bytes i \<longleftrightarrow>
        kelf_validate_layout p (cap_kelf_file_bytes i) \<noteq> KELF_VALID"
      using kelf_image_check [OF kelf, of p] by (simp add: k)
    then show ?thesis
      using big r len sub
      unfolding rescue_image_validate_def decode_prefix [OF m] d validate_split [OF m h]
        image_contents_ok_def capsule_has_payload_def capsule_has_kelf_def sha256_buffer_spec
      by (auto simp: k)
  qed
qed

section \<open>Properties\<close>

text \<open>
  Property C17: a complete rescue file is accepted, with the record \<open>info\<close>, exactly when its
  metadata decodes to \<open>info\<close> for the file's size, the saved master header is a standard one whose
  SHA-256 is the recorded digest, and the payload has the recorded digest and, when one is
  announced, a valid container of the recorded length.
\<close>

theorem rescue_image_exact:
  assumes "length metadata = 256" and "length header = APA_HEADER_SIZE"
    and "length (metadata @ header @ payload) < 2 ^ 32"
  shows "rescue_image_validate (metadata @ header @ payload)
      (of_nat (length (metadata @ header @ payload))) old = (0, info) \<longleftrightarrow>
    rescue_capsule_decode metadata (of_nat (length (metadata @ header @ payload))) old = (0, info) \<and>
    image_contents_ok info header payload"
  by (rule validate_iff [OF assms])

text \<open>The record of a file being written carries the digests of the parts it is put together from.\<close>

definition sealed_info :: "rescue_capsule_info \<Rightarrow> byte list \<Rightarrow> byte list \<Rightarrow> rescue_capsule_info" where
  "sealed_info info header payload = info
    \<lparr>cap_apa_sha256 := sha256_buffer header, cap_payload_sha256 := sha256_buffer payload\<rparr>"

lemma sealed_ok: "capsule_ok info \<Longrightarrow> capsule_ok (sealed_info info header payload)"
  by (simp add: capsule_ok_def capsule_fields_ok_def capsule_has_payload_def capsule_has_kelf_def
      sealed_info_def cong: if_cong)

lemma sealed_accepted:
  assumes ok: "capsule_ok info" and apa: "cap_flags info AND RESCUE_CAPSULE_FLAG_VALID_APA \<noteq> 0"
    and h: "length header = APA_HEADER_SIZE" "is_standard_apa_header header"
    and p: "length payload = unat (cap_payload_bytes info)"
    and kelf: "capsule_has_kelf info \<Longrightarrow>
      kelf_validate_layout payload (cap_kelf_file_bytes info) = KELF_VALID"
  defines "file \<equiv> rescue_capsule_encode (sealed_info info header payload) @ header @ payload"
  shows "rescue_image_validate file (of_nat (length file)) old =
    (0, sealed_info info header payload)"
proof -
  let ?i = "sealed_info info header payload"
  have len: "length file = 256 + 1024 + unat (cap_payload_bytes info)"
    using h p by (simp add: file_def)
  have size: "256 + 1024 + unat (cap_payload_bytes info) < 2 ^ 32"
    using ok by (simp add: capsule_ok_def capsule_fields_ok_def)
  have "(of_nat (length file) :: u32) = 256 + 1024 + cap_payload_bytes ?i"
    unfolding len by (simp add: sealed_info_def)
  then have "rescue_capsule_decode (rescue_capsule_encode ?i) (of_nat (length file)) old = (0, ?i)"
    using encode_decode [OF sealed_ok [OF ok], of header payload old] by simp
  moreover have "image_contents_ok ?i header payload"
    using apa h(2) kelf
    by (auto simp: image_contents_ok_def sealed_info_def sha256_buffer_spec capsule_has_kelf_def)
  ultimately show ?thesis
    unfolding file_def
    by (subst validate_iff) (use len size h(1) in \<open>auto simp: file_def\<close>)
qed

definition sample_rescue_info :: rescue_capsule_info where
  "sample_rescue_info = sample_capsule\<lparr>cap_payload_sectors := 1, cap_payload_bytes := 512,
    cap_kelf_file_bytes := 96\<rparr>"

lemma sample_rescue_ok: "capsule_ok sample_rescue_info"
  by (simp add: capsule_ok_def capsule_fields_ok_def capsule_has_payload_def capsule_has_kelf_def
      terminated_def sample_rescue_info_def sample_capsule_def nth_append)

lemma sample_kelf_valid: "kelf_validate_layout (sample_kelf @ padding) 96 = KELF_VALID"
proof -
  have "kelf_validate_layout sample_kelf 96 = KELF_VALID" by code_simp
  moreover have "length sample_kelf = 96" by (simp add: sample_kelf_def)
  ultimately show ?thesis using kelf_validate_prefix [of 96 "sample_kelf @ padding" sample_kelf] by simp
qed

theorem rescue_image_exact_witness:
  "let payload = sample_kelf @ replicate 416 0;
       info = sealed_info sample_rescue_info sample_master payload in
    image_contents_ok info sample_master payload"
proof -
  let ?p = "sample_kelf @ replicate 416 0 :: byte list"
  let ?i = "sealed_info sample_rescue_info sample_master ?p"
  let ?m = "rescue_capsule_encode ?i"
  have p: "length ?p = 512" by (simp add: sample_kelf_def)
  have "rescue_image_validate (?m @ sample_master @ ?p)
      (of_nat (length (?m @ sample_master @ ?p))) zero_capsule_info = (0, ?i)"
    by (rule sealed_accepted)
      (use p sample_standard sample_rescue_ok sample_kelf_valid in
        \<open>auto simp: sample_rescue_info_def sample_capsule_def\<close>)
  moreover have "length (?m @ sample_master @ ?p) < 2 ^ 32" using p by simp
  ultimately show ?thesis
    using rescue_image_exact [of ?m sample_master ?p zero_capsule_info ?i] by simp
qed

text \<open>
  A rescue file put together from a consistent record, a standard master header
  and the payload the record announces, sealed with the digests of both, is accepted, and
  validating it returns the record that was written.
\<close>

theorem rescue_image_sealed:
  assumes "capsule_ok info" and "cap_flags info AND RESCUE_CAPSULE_FLAG_VALID_APA \<noteq> 0"
    and "length header = APA_HEADER_SIZE" and "is_standard_apa_header header"
    and "length payload = unat (cap_payload_bytes info)"
    and "capsule_has_kelf info \<Longrightarrow>
      kelf_validate_layout payload (cap_kelf_file_bytes info) = KELF_VALID"
  shows "let file = rescue_capsule_encode (sealed_info info header payload) @ header @ payload in
    rescue_image_validate file (of_nat (length file)) old = (0, sealed_info info header payload)"
  unfolding Let_def by (rule sealed_accepted) (use assms in auto)

theorem rescue_image_sealed_witness:
  "let payload = sample_kelf @ replicate 416 0;
       info = sealed_info sample_rescue_info sample_master payload;
       file = rescue_capsule_encode info @ sample_master @ payload in
    rescue_image_validate file (of_nat (length file)) zero_capsule_info = (0, info)"
  unfolding Let_def
  by (rule rescue_image_sealed [of sample_rescue_info sample_master "sample_kelf @ replicate 416 0"
        zero_capsule_info, unfolded Let_def])
    (use sample_standard sample_rescue_ok sample_kelf_valid in
      \<open>auto simp: sample_rescue_info_def sample_capsule_def sample_kelf_def\<close>)

end
