(* ===== verification/RescueStorage.thy ===== *)
theory RescueStorage
  imports Backups RescueImage
begin

text \<open>
  Rescue capsules on the backup device: \<open>src/rescue_storage.c\<close>.  The current boot record is saved
  with its payload, an existing file that already holds this state is found again, and the first
  usable capsule of the disk is selected for a restore.  The lemmas show what the file of a saved
  capsule attests, and which capsule a search returns.  The session log is left out.
\<close>

abbreviation (input) RESCUE_STORAGE_PATH_SIZE :: nat where "RESCUE_STORAGE_PATH_SIZE \<equiv> 64"
abbreviation (input) RESCUE_STORAGE_MAX_CAPSULE_SIZE :: nat where
  "RESCUE_STORAGE_MAX_CAPSULE_SIZE \<equiv> 256 + 1024 + 4194304"
abbreviation (input) RESCUE_STORAGE_NOT_FOUND :: int where "RESCUE_STORAGE_NOT_FOUND \<equiv> - 200"
abbreviation (input) RESCUE_STORAGE_WRONG_DISK :: int where "RESCUE_STORAGE_WRONG_DISK \<equiv> - 201"
abbreviation (input) RESCUE_STORAGE_HEADER_ONLY :: int where "RESCUE_STORAGE_HEADER_ONLY \<equiv> - 202"
abbreviation (input) RESCUE_STORAGE_INVALID_KELF :: int where "RESCUE_STORAGE_INVALID_KELF \<equiv> - 203"

definition rescue_path_for_slot :: "nat \<Rightarrow> nat \<Rightarrow> path" where
  "rescue_path_for_slot storage slot = storage_path RESCUE_STORAGE_PATH_SIZE storage
    (if slot = 0 then ascii ''HDDRESCUE.BIN'' else ascii ''HDDRESCUE2.BIN'')"

section \<open>Writing and loading a file\<close>

text \<open>A USB device may not be ready: opening is tried up to twenty times.\<close>

fun open_retry :: "'f platform \<Rightarrow> path \<Rightarrow> open_mode \<Rightarrow> nat \<Rightarrow> 'f file_world \<Rightarrow> int \<times> 'f file_world" where
  "open_retry api p mode 0 w = (- 1, w)"
| "open_retry api p mode (Suc attempts) w =
    (let (fd, w1) = fileXioOpen api p mode w in
     if fd \<ge> 0 \<or> attempts = 0 then (fd, w1) else open_retry api p mode attempts w1)"

fun write_parts :: "'f platform \<Rightarrow> int \<Rightarrow> int \<Rightarrow> byte list list \<Rightarrow> 'f file_world \<Rightarrow> int \<times> 'f file_world" where
  "write_parts api short_code fd [] w = (0, w)"
| "write_parts api short_code fd (part # parts) w =
    (let (r, w1) = write_loop api short_code fd part w in
     if r < 0 then (r, w1) else write_parts api short_code fd parts w1)"

definition write_rescue_file ::
    "'f platform \<Rightarrow> nat \<Rightarrow> path \<Rightarrow> byte list \<Rightarrow> byte list \<Rightarrow> byte list \<Rightarrow> 'f file_world \<Rightarrow>
      int \<times> 'f file_world" where
  "write_rescue_file api storage p metadata header payload w =
    (let (fd, w1) = open_retry api p FIO_WRITE_TRUNC (if storage = 2 then 20 else 1) w in
     if fd < 0 then (fd, w1)
     else let (r, w2) = write_parts api (- 180) fd [metadata, header, payload] w1 in
       (r, fileXioClose api fd w2))"

definition load_rescue_file ::
    "'f platform \<Rightarrow> path \<Rightarrow> 'f file_world \<Rightarrow> (int + rescue_capsule_info \<times> byte list) \<times> 'f file_world" where
  "load_rescue_file api p w =
    (let (got, w1) = read_bounded_file api p RESCUE_STORAGE_MAX_CAPSULE_SIZE w in
     (case got of
        Inl e \<Rightarrow> (Inl e, w1)
      | Inr data \<Rightarrow>
          let (result, info) = rescue_image_validate data (of_nat (length data)) zero_capsule_info in
          if result < 0 then (Inl result, w1) else (Inr (info, data), w1)))"

definition rescue_file_matches ::
    "'f platform \<Rightarrow> path \<Rightarrow> rescue_capsule_info \<Rightarrow> 'f file_world \<Rightarrow> bool \<times> 'f file_world" where
  "rescue_file_matches api p expected w =
    (let (got, w1) = load_rescue_file api p w in
     (case got of Inl e \<Rightarrow> False | Inr (existing, data) \<Rightarrow> rescue_image_state_matches existing expected, w1))"

section \<open>Saving\<close>

text \<open>The record of the current state without its payload; the texts may be missing.\<close>

definition current_info ::
    "u32 \<Rightarrow> u32 \<Rightarrow> byte list \<Rightarrow> byte list option \<Rightarrow> byte list option \<Rightarrow> byte list option \<Rightarrow>
      rescue_capsule_info" where
  "current_info start sectors header romver family confidence = zero_capsule_info
    \<lparr>cap_flags := RESCUE_CAPSULE_FLAG_VALID_APA, cap_payload_start := start,
     cap_payload_sectors := sectors,
     cap_romver := string_array 16 (case romver of None \<Rightarrow> [] | Some s \<Rightarrow> s),
     cap_family := string_array 32 (case family of None \<Rightarrow> [] | Some s \<Rightarrow> s),
     cap_confidence := string_array 16 (case confidence of None \<Rightarrow> [] | Some s \<Rightarrow> s),
     cap_apa_sha256 := sha256_buffer header\<rparr>"

definition add_payload :: "byte list \<Rightarrow> rescue_capsule_info \<Rightarrow> rescue_capsule_info" where
  "add_payload payload info =
    (let nbytes = of_nat (length payload);
         info1 = info\<lparr>cap_flags := cap_flags info OR RESCUE_CAPSULE_FLAG_HAS_PAYLOAD,
           cap_payload_bytes := nbytes, cap_payload_sha256 := sha256_buffer payload\<rparr>;
         (result, kelf_bytes) = kelf_size_from_disk_image payload nbytes 0 in
     if result = KELF_IMAGE_VALID
     then info1\<lparr>cap_kelf_file_bytes := kelf_bytes,
       cap_flags := cap_flags info1 OR RESCUE_CAPSULE_FLAG_VALID_KELF\<rparr>
     else info1)"

text \<open>The record and the payload to save, once the payload has been read.\<close>

definition gather_state ::
    "'f platform \<Rightarrow> u32 \<Rightarrow> u32 \<Rightarrow> rescue_capsule_info \<Rightarrow> 'f file_world \<Rightarrow>
      (rescue_capsule_info \<times> byte list) option \<times> 'f file_world" where
  "gather_state api start sectors info w =
    (if start = 0 then (Some (info, []), w)
     else let (bounds, h) = hdd_validate_payload_bounds (fx_hdd api) start sectors (disk_view w);
              w1 = after_disk w h in
       if bounds < 0 then (None, w1)
       else let (ok, w2) = (if sectors = 0 \<or> sectors > 8192 then (True, w1)
                else heap_alloc api (unat sectors * 512) w1);
                (got, h) = hdd_read_payload_image (fx_hdd api) ok start sectors (disk_view w2);
                w3 = after_disk w2 h in
         (case got of Inl e \<Rightarrow> (None, w3)
          | Inr payload \<Rightarrow> (Some (add_payload payload info, payload), w3)))"

definition read_back_confirms ::
    "rescue_capsule_info \<Rightarrow> int + rescue_capsule_info \<times> byte list \<Rightarrow> bool" where
  "read_back_confirms info got = (case got of Inl e \<Rightarrow> False
    | Inr (found, data) \<Rightarrow> cap_flags found = cap_flags info \<and>
        cap_apa_sha256 found = cap_apa_sha256 info \<and> cap_payload_sha256 found = cap_payload_sha256 info)"

fun rescue_slots ::
    "'f platform \<Rightarrow> nat \<Rightarrow> rescue_capsule_info \<Rightarrow> byte list \<Rightarrow> byte list \<Rightarrow> nat list \<Rightarrow> 'f file_world \<Rightarrow>
      path option \<times> 'f file_world" where
  "rescue_slots api storage info header payload [] w = (None, w)"
| "rescue_slots api storage info header payload (slot # slots) w =
    (let p = rescue_path_for_slot storage slot;
         (r, st, w1) = fileXioGetStat api p w in
     if r \<ge> 0
     then let (same, w2) = rescue_file_matches api p info w1 in
       if same then (Some p, w2) else rescue_slots api storage info header payload slots w2
     else let (written, w2) =
            write_rescue_file api storage p (rescue_capsule_encode info) header payload w1 in
       if written < 0 then rescue_slots api storage info header payload slots w2
       else let (got, w3) = load_rescue_file api p w2 in
         if read_back_confirms info got then (Some p, w3)
         else rescue_slots api storage info header payload slots w3)"

definition rescue_storage_save_current ::
    "'f platform \<Rightarrow> nat \<Rightarrow> byte list \<Rightarrow> byte list option \<Rightarrow> byte list option \<Rightarrow> byte list option \<Rightarrow>
      'f file_world \<Rightarrow> path option \<times> 'f file_world" where
  "rescue_storage_save_current api storage header romver family confidence w =
    (let start = read_le32 header APA_OSD_START_OFFSET;
         sectors = read_le32 header APA_OSD_SIZE_OFFSET in
     if storage \<ge> STORAGE_TARGET_COUNT then (None, w)
     else if (start = 0) \<noteq> (sectors = 0) then (None, w)
     else let (gathered, w1) = gather_state api start sectors
              (current_info start sectors header romver family confidence) w in
       (case gathered of None \<Rightarrow> (None, w1)
        | Some (info, payload) \<Rightarrow> rescue_slots api storage info header payload [0, 1] w1))"

section \<open>Finding\<close>

record rescue_storage_entry =
  entry_info :: rescue_capsule_info
  entry_file :: "byte list"
  entry_path :: path

record rescue_search =
  saw_existing :: bool
  saw_invalid :: bool
  saw_header_only :: bool
  first_error :: int

definition note_invalid :: "int \<Rightarrow> rescue_search \<Rightarrow> rescue_search" where
  "note_invalid code s = s\<lparr>saw_invalid := True,
     first_error := (if first_error s = RESCUE_STORAGE_NOT_FOUND \<or>
         first_error s = RESCUE_STORAGE_HEADER_ONLY then code else first_error s)\<rparr>"

definition note_header_only :: "rescue_search \<Rightarrow> rescue_search" where
  "note_header_only s = s\<lparr>saw_header_only := True,
     first_error := (if first_error s = RESCUE_STORAGE_NOT_FOUND then RESCUE_STORAGE_HEADER_ONLY
       else first_error s)\<rparr>"

fun find_rescue ::
    "'f platform \<Rightarrow> nat \<Rightarrow> byte list \<Rightarrow> nat list \<Rightarrow> rescue_search \<Rightarrow> 'f file_world \<Rightarrow>
      (int + rescue_storage_entry) \<times> 'f file_world" where
  "find_rescue api storage header [] s w =
    (Inl (if \<not> saw_existing s then RESCUE_STORAGE_NOT_FOUND
          else if saw_invalid s then first_error s
          else if saw_header_only s then RESCUE_STORAGE_HEADER_ONLY else first_error s), w)"
| "find_rescue api storage header (slot # slots) s w =
    (let p = rescue_path_for_slot storage slot;
         (there, w1) = path_exists api p w in
     if \<not> there then find_rescue api storage header slots s w1
     else let s1 = s\<lparr>saw_existing := True\<rparr>;
              (got, w2) = load_rescue_file api p w1 in
       (case got of
          Inl code \<Rightarrow> find_rescue api storage header slots (note_invalid code s1) w2
        | Inr (info, data) \<Rightarrow>
            if \<not> headers_match_same_disk header (drop 256 data)
            then find_rescue api storage header slots (note_invalid RESCUE_STORAGE_WRONG_DISK s1) w2
            else if cap_flags info AND RESCUE_CAPSULE_FLAG_HAS_PAYLOAD = 0
            then find_rescue api storage header slots (note_header_only s1) w2
            else if cap_flags info AND RESCUE_CAPSULE_FLAG_VALID_KELF = 0
            then find_rescue api storage header slots (note_invalid RESCUE_STORAGE_INVALID_KELF s1) w2
            else (Inr \<lparr>entry_info = info, entry_file = data,
              entry_path = print_into RESCUE_STORAGE_PATH_SIZE p\<rparr>, w2)))"

definition rescue_storage_find ::
    "'f platform \<Rightarrow> nat \<Rightarrow> byte list \<Rightarrow> 'f file_world \<Rightarrow> (int + rescue_storage_entry) \<times> 'f file_world" where
  "rescue_storage_find api storage header w =
    (if storage \<ge> STORAGE_TARGET_COUNT then (Inl RESCUE_STORAGE_NOT_FOUND, w)
     else find_rescue api storage header [0, 1]
       \<lparr>saw_existing = False, saw_invalid = False, saw_header_only = False,
        first_error = RESCUE_STORAGE_NOT_FOUND\<rparr> w)"

text \<open>The payload of an entry, which a released entry no longer has.\<close>

definition rescue_storage_payload :: "rescue_storage_entry option \<Rightarrow> byte list option" where
  "rescue_storage_payload entry = (case entry of None \<Rightarrow> None
    | Some e \<Rightarrow> if cap_flags (entry_info e) AND RESCUE_CAPSULE_FLAG_HAS_PAYLOAD = 0 then None
        else Some (drop (256 + APA_HEADER_SIZE) (entry_file e)))"

section \<open>What is written and read\<close>

lemma open_retry_events:
  "open_retry api p FIO_WRITE_TRUNC n w = (fd, w') \<Longrightarrow> p \<in> A \<Longrightarrow>
    \<exists>es. trace w' = trace w @ es \<and> keeps_existing A es"
proof (induction n arbitrary: w)
  case (Suc n)
  obtain r w1 where o: "fileXioOpen api p FIO_WRITE_TRUNC w = (r, w1)" by fastforce
  show ?case
  proof (cases "r \<ge> 0 \<or> n = 0")
    case True
    then show ?thesis using Suc.prems o trace_open [OF o]
      by (auto intro!: exI [of _ "[Opened p FIO_WRITE_TRUNC r]"])
  next
    case False
    then have "open_retry api p FIO_WRITE_TRUNC n w1 = (fd, w')" using Suc.prems o by simp
    from Suc.IH [OF this Suc.prems(2)] obtain es
      where "trace w' = trace w1 @ es" "keeps_existing A es" by blast
    then show ?thesis using False Suc.prems trace_open [OF o]
      by (auto intro!: exI [of _ "Opened p FIO_WRITE_TRUNC r # es"])
  qed
qed auto

lemma write_loop_code: "write_loop api c fd data w = (r, w') \<Longrightarrow> c < 0 \<Longrightarrow> r \<le> 0"
proof (induction "length data" arbitrary: data w rule: less_induct)
  case less
  obtain k w1 where k: "fileXioWrite api fd data w = (k, w1)" by fastforce
  show ?case
  proof (cases "data = [] \<or> k \<le> 0")
    case False
    then have "write_loop api c fd (drop (nat k) data) w1 = (r, w')"
      using less.prems k by (simp add: write_loop.simps [of api c fd data w])
    moreover have "length (drop (nat k) data) < length data" using False by (cases data) auto
    ultimately show ?thesis using less by blast
  qed (use less.prems k in \<open>auto simp: write_loop.simps [of api c fd data w] split: if_splits\<close>)
qed

lemma write_parts_extends:
  "write_parts api c fd parts w = (r, w') \<Longrightarrow> extends writing_event w w'"
proof (induction parts arbitrary: w)
  case (Cons part parts)
  obtain k w1 where l: "write_loop api c fd part w = (k, w1)" by fastforce
  show ?case
    using Cons.prems Cons.IH [of w1] write_loop_extends [OF l] l
    by (cases "k < 0") (auto intro: extends_trans)
qed auto

context file_store
begin

lemma open_retry_effect:
  "open_retry api p FIO_WRITE_TRUNC n w = (fd, w') \<Longrightarrow>
    (\<forall>q. q \<noteq> p \<longrightarrow> stored w' q = stored w q) \<and>
    (0 \<le> fd \<longrightarrow> stored w' p = Some [] \<and> fds (store w') fd = Some (p, 0))"
proof (induction n arbitrary: w)
  case (Suc n)
  obtain r f' where o: "fx_open api p FIO_WRITE_TRUNC (store w) = (r, f')" by fastforce
  define w1 where "w1 = stepped w f' (Opened p FIO_WRITE_TRUNC r)"
  have w1: "fileXioOpen api p FIO_WRITE_TRUNC w = (r, w1)" by (simp add: fileXioOpen_def o w1_def)
  have others: "q \<noteq> p \<Longrightarrow> stored w1 q = stored w q" for q using open_trunc_files [OF o] by (simp add: w1_def)
  show ?case
  proof (cases "r \<ge> 0 \<or> n = 0")
    case True
    then show ?thesis using Suc.prems w1 others open_trunc [OF o] by (auto simp: w1_def)
  next
    case False
    then have "open_retry api p FIO_WRITE_TRUNC n w1 = (fd, w')" using Suc.prems w1 by simp
    from Suc.IH [OF this] show ?thesis using others by auto
  qed
qed auto

lemma write_parts_effect:
  "write_parts api c fd parts w = (r, w') \<Longrightarrow> fds (store w) fd = Some (p, length d) \<Longrightarrow>
    stored w p = Some d \<Longrightarrow> c < 0 \<Longrightarrow>
    (\<forall>q. q \<noteq> p \<longrightarrow> stored w' q = stored w q) \<and> (r = 0 \<longrightarrow> stored w' p = Some (d @ concat parts))"
proof (induction parts arbitrary: w d)
  case (Cons part parts)
  obtain k w1 where l: "write_loop api c fd part w = (k, w1)" by fastforce
  note e = write_loop_effect [OF l Cons.prems(2,3)]
  have k: "k \<le> 0" using l Cons.prems(4) by (rule write_loop_code)
  show ?case
  proof (cases "k < 0")
    case True
    then show ?thesis using Cons.prems e l by auto
  next
    case False
    then have "k = 0" using k by simp
    then show ?thesis using Cons.prems e l Cons.IH [of w1 "d @ part"] by auto
  qed
qed auto

lemma write_rescue_file_effect:
  assumes "write_rescue_file api storage p metadata header payload w = (r, w')"
  shows "q \<noteq> p \<Longrightarrow> stored w' q = stored w q"
    and "r = 0 \<Longrightarrow> stored w' p = Some (metadata @ header @ payload)"
proof -
  obtain fd w1 where o: "open_retry api p FIO_WRITE_TRUNC (if storage = 2 then 20 else 1) w = (fd, w1)"
    by fastforce
  obtain k w2 where k: "write_parts api (- 180) fd [metadata, header, payload] w1 = (k, w2)" by fastforce
  note oe = open_retry_effect [OF o]
  have run: "(r, w') = (if fd < 0 then (fd, w1) else (k, fileXioClose api fd w2))"
    using assms [symmetric] k by (simp add: write_rescue_file_def o)
  have "(q \<noteq> p \<longrightarrow> stored w' q = stored w q) \<and> (r = 0 \<longrightarrow> stored w' p = Some (metadata @ header @ payload))"
  proof (cases "fd < 0")
    case True
    then show ?thesis using run oe by auto
  next
    case False
    then have "stored w1 p = Some []" "fds (store w1) fd = Some (p, length ([] :: byte list))"
      using oe by auto
    then show ?thesis using write_parts_effect [OF k, of p "[]"] run False oe by auto
  qed
  then show "q \<noteq> p \<Longrightarrow> stored w' q = stored w q"
    and "r = 0 \<Longrightarrow> stored w' p = Some (metadata @ header @ payload)" by auto
qed

end

lemma careful_write_rescue:
  assumes "fileXioGetStat api p w = (r, st, v)" and "r < 0"
    and "write_rescue_file api storage p metadata header payload v = (k, u)"
  shows "careful api w u"
proof -
  have "files (store u) q = Some d"
    if fs: "file_store api files fds" and q: "files (store w) q = Some d" for files fds q d
  proof -
    have "files (store w) p = None" "files (store v) = files (store w)"
      using file_store.getstat_effect [OF fs assms(1)] assms(2) by auto
    then show ?thesis
      using file_store.write_rescue_file_effect(1) [OF fs assms(3)] q by (metis option.distinct(1))
  qed
  moreover have "safely w u"
  proof -
    obtain fd w1 where o: "open_retry api p FIO_WRITE_TRUNC (if storage = 2 then 20 else 1) v = (fd, w1)"
      by fastforce
    obtain es where es: "trace w1 = trace v @ es" "keeps_existing {p} es"
      using open_retry_events [OF o, of "{p}"] by auto
    obtain fs where fs: "trace u = trace w1 @ fs" "list_all writing_event fs"
    proof (cases "fd < 0")
      case True
      then show thesis using that [of "[]"] assms(3) o by (simp add: write_rescue_file_def)
    next
      case False
      obtain j w2 where j: "write_parts api (- 180) fd [metadata, header, payload] w1 = (j, w2)" by fastforce
      have "extends writing_event w1 u"
        using assms(3) o j False write_parts_extends [OF j]
        by (auto simp: write_rescue_file_def intro: extends_trans [OF _ extends_close])
      then show thesis using that by (auto simp: extends_def)
    qed
    show ?thesis
      using trace_getstat [OF assms(1)] assms(2) es fs
      by (auto simp: safely_def keeps_existing_append intro!: exI [of _ "Stated p r st # es @ fs"]
          writing_keeps_existing)
  qed
  ultimately show ?thesis by (simp add: careful_def)
qed

text \<open>The file at \<open>p\<close> was just loaded, validated, with this record.\<close>

definition loaded :: "'f platform \<Rightarrow> path \<Rightarrow> rescue_capsule_info \<Rightarrow> byte list \<Rightarrow> 'f file_world \<Rightarrow> bool" where
  "loaded api p info data w \<longleftrightarrow> (\<exists>v. load_rescue_file api p v = (Inr (info, data), w))"

lemma validate_code_le: "rescue_image_validate data n i0 = (r, info) \<Longrightarrow> r \<le> 0"
  unfolding rescue_image_validate_def by (auto simp: Let_def split: if_splits prod.splits dest: decode_codes)

lemma loaded_facts:
  assumes "loaded api p info data w"
  shows "rescue_image_validate data (of_nat (length data)) zero_capsule_info = (0, info)"
    and "length data \<le> RESCUE_STORAGE_MAX_CAPSULE_SIZE"
    and "file_store api files fds \<Longrightarrow> files (store w) p = Some data"
proof -
  obtain v where v: "load_rescue_file api p v = (Inr (info, data), w)" using assms by (auto simp: loaded_def)
  obtain got w1 where b: "read_bounded_file api p RESCUE_STORAGE_MAX_CAPSULE_SIZE v = (got, w1)" by fastforce
  have out: "got = Inr data" "w1 = w"
    and ok: "rescue_image_validate data (of_nat (length data)) zero_capsule_info = (0, info)"
    using v b by (auto simp: load_rescue_file_def split: sum.splits prod.splits if_splits
        dest: validate_code_le)
  show "rescue_image_validate data (of_nat (length data)) zero_capsule_info = (0, info)" by (rule ok)
  show "length data \<le> RESCUE_STORAGE_MAX_CAPSULE_SIZE"
    using read_bounded_file_length b out by blast
  show "files (store w) p = Some data" if "file_store api files fds"
    using file_store.read_bounded_file_effect [OF that b] out by simp
qed

lemma careful_load: "load_rescue_file api p w = (r, w') \<Longrightarrow> careful api w w'"
  by (auto simp: load_rescue_file_def Let_def split: prod.splits sum.splits if_splits
      intro: careful_read_bounded)

lemma rescue_slots_sound:
  "rescue_slots api storage info header payload slots w = (res, w') \<Longrightarrow> careful api w w' \<and>
    (\<forall>p. res = Some p \<longrightarrow> p \<in> rescue_path_for_slot storage ` set slots \<and>
      (\<exists>found data. loaded api p found data w' \<and> read_back_confirms info (Inr (found, data))))"
proof (induction slots arbitrary: w)
  case (Cons slot slots)
  define p where "p = rescue_path_for_slot storage slot"
  obtain r st w1 where stat: "fileXioGetStat api p w = (r, st, w1)" by (metis prod_cases3)
  show ?case
  proof (cases "r \<ge> 0")
    case True
    obtain got w2 where l: "load_rescue_file api p w1 = (got, w2)" by fastforce
    have w2: "careful api w w2" by (rule careful_trans [OF careful_getstat [OF stat] careful_load [OF l]])
    have found: "\<exists>found data. loaded api p found data w2 \<and> read_back_confirms info (Inr (found, data))"
      if "got = Inr (i, data)" "rescue_image_state_matches i info" for i data
      using that l by (auto simp: loaded_def read_back_confirms_def rescue_image_state_matches_def)
    show ?thesis
      using Cons.prems Cons.IH [of w2] w2 True stat l found
      by (auto simp: Let_def p_def [symmetric] rescue_file_matches_def split: if_splits sum.splits
          intro: careful_trans)
  next
    case False
    then have absent: "r < 0" by simp
    obtain written w2 where wrote: "write_rescue_file api storage p (rescue_capsule_encode info) header
        payload w1 = (written, w2)" by fastforce
    have w2: "careful api w w2" by (rule careful_write_rescue [OF stat absent wrote])
    obtain got w3 where l: "load_rescue_file api p w2 = (got, w3)" by fastforce
    have w3: "careful api w w3" by (rule careful_trans [OF w2 careful_load [OF l]])
    have found: "\<exists>found data. loaded api p found data w3 \<and> read_back_confirms info (Inr (found, data))"
      if "read_back_confirms info got"
      using that l by (cases got) (auto simp: loaded_def read_back_confirms_def)
    have "careful api w w' \<and> (\<forall>q. res = Some q \<longrightarrow> q \<in> rescue_path_for_slot storage ` set slots \<and>
        (\<exists>found data. loaded api q found data w' \<and> read_back_confirms info (Inr (found, data))))"
      if "rescue_slots api storage info header payload slots v = (res, w')" "careful api w v" for v
      using Cons.IH [OF that(1)] that(2) by (auto intro: careful_trans)
    then show ?thesis
      using Cons.prems w2 w3 stat wrote l absent found
      by (cases "written < 0"; cases "read_back_confirms info got") (auto simp: Let_def p_def)
  qed
qed auto

text \<open>An accepted file splits into metadata, header and payload.\<close>

lemma accepted_parts:
  assumes "rescue_image_validate data (of_nat (length data)) i0 = (0, info)"
    and "length data \<le> RESCUE_STORAGE_MAX_CAPSULE_SIZE"
  obtains metadata header payload where "data = metadata @ header @ payload"
    "length metadata = 256" "length header = APA_HEADER_SIZE" "image_contents_ok info header payload"
proof -
  have "\<not> (of_nat (length data) :: u32) < 256 + 1024"
    using assms(1) by (auto simp: rescue_image_validate_def split: if_splits)
  then have len: "1280 \<le> length data"
    using assms(2) unat_of_nat_small(2) [of "length data"] by (simp add: word_less_nat_alt)
  define m h p where "m = take 256 data" and "h = take 1024 (drop 256 data)" and "p = drop 1280 data"
  have d: "data = m @ h @ p"
    using append_take_drop_id [of 256 data] append_take_drop_id [of 1024 "drop 256 data"]
    by (simp add: m_def h_def p_def)
  have l: "length m = 256" "length h = APA_HEADER_SIZE" using len by (simp_all add: m_def h_def)
  have "image_contents_ok info h p"
    using validate_iff [OF l, of p i0 info] assms d by simp
  then show thesis using that d l by blast
qed

lemma gather_state_sound:
  assumes "gather_state api start sectors info w = (gathered, w1)"
  shows "careful api w w1 \<and> (\<forall>i p. gathered = Some (i, p) \<longrightarrow>
    (if start = 0 then i = info \<and> p = []
     else i = add_payload p info \<and> length p = 512 * unat sectors \<and>
       (\<exists>ok v h. hdd_read_payload_image (fx_hdd api) ok start sectors v = (Inr p, h))))"
proof (cases "start = 0")
  case True
  then show ?thesis using assms by (auto simp: gather_state_def)
next
  case False
  obtain b h where b: "hdd_validate_payload_bounds (fx_hdd api) start sectors (disk_view w) = (b, h)" by fastforce
  define v where "v = after_disk w h"
  have v: "careful api w v" unfolding v_def by (rule careful_bounds [OF b])
  obtain ok v2 where m: "(if sectors = 0 \<or> sectors > 8192 then (True, v)
      else heap_alloc api (unat sectors * 512) v) = (ok, v2)" by fastforce
  have v2: "careful api w v2" using m v by (auto split: if_splits intro: careful_trans careful_heap)
  obtain got h2 where g: "hdd_read_payload_image (fx_hdd api) ok start sectors (disk_view v2) = (got, h2)"
    by fastforce
  have v3: "careful api w (after_disk v2 h2)" by (rule careful_trans [OF v2 careful_read_image [OF g]])
  have len: "length p = 512 * unat sectors" if "got = Inr p" for p
    using read_image_reads [OF g] that by auto
  show ?thesis
    using assms False b m g v v3 len
    by (auto simp: gather_state_def Let_def v_def [symmetric] split: if_splits sum.splits)
qed

lemma add_payload_fields:
  "cap_apa_sha256 (add_payload p i) = cap_apa_sha256 i"
  "cap_payload_sha256 (add_payload p i) = sha256_buffer p"
  "capsule_has_payload (add_payload p i)"
proof -
  have bit: "(f OR 2) AND 2 \<noteq> 0" "((f OR 2) OR 4) AND 2 \<noteq> 0" for f :: u32
  proof -
    have "bit ((f OR 2) AND 2) 1" "bit (((f OR 2) OR 4) AND 2) 1" by (simp_all add: bit_simps)
    then show "(f OR 2) AND 2 \<noteq> 0" "((f OR 2) OR 4) AND 2 \<noteq> 0" by (metis bit_0_eq bot_apply bot_bool_def)+
  qed
  show "cap_apa_sha256 (add_payload p i) = cap_apa_sha256 i"
    "cap_payload_sha256 (add_payload p i) = sha256_buffer p" "capsule_has_payload (add_payload p i)"
    using bit by (auto simp: add_payload_def Let_def capsule_has_payload_def split: prod.splits)
qed

lemma find_rescue_sound:
  "find_rescue api storage header slots s w = (res, w') \<Longrightarrow> careful api w w' \<and>
    (\<forall>e. res = Inr e \<longrightarrow> entry_path e \<in> rescue_path_for_slot storage ` set slots \<and>
      loaded api (entry_path e) (entry_info e) (entry_file e) w' \<and>
      headers_match_same_disk header (drop 256 (entry_file e)) \<and>
      capsule_has_payload (entry_info e) \<and> capsule_has_kelf (entry_info e))"
proof (induction slots arbitrary: s w)
  case (Cons slot slots)
  define p where "p = rescue_path_for_slot storage slot"
  have p: "print_into 64 p = p" by (simp add: p_def rescue_path_for_slot_def storage_path_print)
  obtain there w1 where e: "path_exists api p w = (there, w1)" by fastforce
  have w1: "careful api w w1"
    using e by (auto simp: path_exists_def split: prod.splits intro: careful_getstat)
  obtain got w2 where l: "load_rescue_file api p w1 = (got, w2)" by fastforce
  have w2: "careful api w w2" by (rule careful_trans [OF w1 careful_load [OF l]])
  have rest: ?case if "find_rescue api storage header slots s' v = (res, w')" "careful api w v" for s' v
    using Cons.IH [OF that(1)] that(2) by (auto intro: careful_trans)
  consider "\<not> there" | c where "there" "got = Inl c" | i data where "there" "got = Inr (i, data)"
    by (cases got) auto
  then show ?case
  proof cases
    case 3
    then have "loaded api p i data w2" using l by (auto simp: loaded_def)
    then show ?thesis
      using Cons.prems 3 e l w2 rest p
      by (auto simp: Let_def p_def [symmetric] capsule_has_payload_def capsule_has_kelf_def split: if_splits)
  qed (use Cons.prems e l w1 w2 rest in \<open>auto simp: Let_def p_def [symmetric]\<close>)
qed auto

section \<open>Properties\<close>

lemma careful_rescue_save:
  assumes "rescue_storage_save_current api storage header romver family confidence w = (res, w')"
  shows "careful api w w'"
proof -
  define start where "start = read_le32 header APA_OSD_START_OFFSET"
  define sectors where "sectors = read_le32 header APA_OSD_SIZE_OFFSET"
  obtain g w1 where g: "gather_state api start sectors
      (current_info start sectors header romver family confidence) w = (g, w1)" by fastforce
  note run = assms [unfolded rescue_storage_save_current_def start_def [symmetric] sectors_def [symmetric]
      Let_def g prod.case]
  have "careful api w w1" using gather_state_sound [OF g] by blast
  then show ?thesis
    using run rescue_slots_sound [where api = api and w = w1 and w' = w']
    by (auto simp del: rescue_slots.simps split: if_splits option.splits intro: careful_trans)
qed

lemma careful_rescue_find:
  "rescue_storage_find api storage header w = (res, w') \<Longrightarrow> careful api w w'"
  unfolding rescue_storage_find_def using find_rescue_sound by (metis careful_refl prod.inject)

lemma rescue_saved:
  assumes "rescue_storage_save_current api storage header romver family confidence w = (Some p, w')"
  shows "careful api w w' \<and> p \<in> rescue_path_for_slot storage ` {0, 1} \<and>
    (\<exists>info metadata saved payload. loaded api p info (metadata @ saved @ payload) w' \<and>
      (\<forall>files fds. file_store api files fds \<longrightarrow> files (store w') p = Some (metadata @ saved @ payload)) \<and>
      length metadata = 256 \<and> length saved = APA_HEADER_SIZE \<and>
      is_standard_apa_header saved \<and> sha256_spec saved = sha256_spec header \<and>
      (read_le32 header APA_OSD_START_OFFSET \<noteq> 0 \<longrightarrow> (\<exists>current ok v h.
        hdd_read_payload_image (fx_hdd api) ok (read_le32 header APA_OSD_START_OFFSET)
          (read_le32 header APA_OSD_SIZE_OFFSET) v = (Inr current, h) \<and>
        sha256_spec payload = sha256_spec current)))"
proof -
  define start where "start = read_le32 header APA_OSD_START_OFFSET"
  define sectors where "sectors = read_le32 header APA_OSD_SIZE_OFFSET"
  define info0 where "info0 = current_info start sectors header romver family confidence"
  obtain info payload w1 where g: "gather_state api start sectors info0 w = (Some (info, payload), w1)"
    and s: "rescue_slots api storage info header payload [0, 1] w1 = (Some p, w')"
    using assms by (auto simp: rescue_storage_save_current_def Let_def start_def [symmetric]
        sectors_def [symmetric] info0_def [symmetric] split: if_splits prod.splits option.splits)
  note g' = gather_state_sound [OF g]
  have apa: "cap_apa_sha256 info = sha256_buffer header"
    using g' add_payload_fields by (auto simp: info0_def current_info_def split: if_splits)
  obtain found data where f: "loaded api p found data w'" "read_back_confirms info (Inr (found, data))"
    and p: "p \<in> rescue_path_for_slot storage ` {0, 1}" and careful: "careful api w w'"
    using rescue_slots_sound [OF s] g' by (auto intro: careful_trans)
  have same: "cap_flags found = cap_flags info" "cap_apa_sha256 found = cap_apa_sha256 info"
      "cap_payload_sha256 found = cap_payload_sha256 info"
    using f(2) by (simp_all add: read_back_confirms_def)
  obtain m saved pay where d: "data = m @ saved @ pay" "length m = 256" "length saved = APA_HEADER_SIZE"
    and ok: "image_contents_ok found saved pay"
    using accepted_parts loaded_facts(1,2) [OF f(1)] by metis
  have "\<exists>current ok v h. hdd_read_payload_image (fx_hdd api) ok start sectors v = (Inr current, h) \<and>
      sha256_spec pay = sha256_spec current" if "start \<noteq> 0"
  proof -
    have i: "info = add_payload payload info0"
      and r: "\<exists>ok v h. hdd_read_payload_image (fx_hdd api) ok start sectors v = (Inr payload, h)"
      using g' that by auto
    have "capsule_has_payload found" using add_payload_fields(3) same(1) by (simp add: i capsule_has_payload_def)
    then have "sha256_spec pay = sha256_spec payload"
      using ok same(3) add_payload_fields(2) by (simp add: i image_contents_ok_def sha256_buffer_spec)
    then show ?thesis using r by blast
  qed
  then show ?thesis
    using careful p d ok apa same f(1) loaded_facts(3) [OF f(1)]
    unfolding start_def [symmetric] sectors_def [symmetric]
    by (intro conjI exI [of _ found] exI [of _ m] exI [of _ saved] exI [of _ pay])
      (auto simp: image_contents_ok_def sha256_buffer_spec)
qed


lemma rescue_found:
  assumes "rescue_storage_find api storage header w = (Inr entry, w')"
  shows "careful api w w' \<and> entry_path entry \<in> rescue_path_for_slot storage ` {0, 1} \<and>
    (\<forall>files fds. file_store api files fds \<longrightarrow>
      files (store w') (entry_path entry) = Some (entry_file entry)) \<and>
    (\<exists>metadata saved payload. entry_file entry = metadata @ saved @ payload \<and>
      length metadata = 256 \<and> length saved = APA_HEADER_SIZE \<and>
      headers_match_same_disk header (saved @ payload) \<and>
      rescue_storage_payload (Some entry) = Some payload \<and>
      sha256_spec payload = cap_payload_sha256 (entry_info entry) \<and>
      kelf_validate_layout payload (cap_kelf_file_bytes (entry_info entry)) = KELF_VALID)"
proof -
  obtain s where "find_rescue api storage header [0, 1] s w = (Inr entry, w')"
    using assms by (auto simp: rescue_storage_find_def split: if_splits)
  from find_rescue_sound [OF this] have f: "careful api w w'"
    "entry_path entry \<in> rescue_path_for_slot storage ` {0, 1}"
    "loaded api (entry_path entry) (entry_info entry) (entry_file entry) w'"
    "headers_match_same_disk header (drop 256 (entry_file entry))"
    "capsule_has_payload (entry_info entry)" "capsule_has_kelf (entry_info entry)"
    by auto
  obtain m saved pay where d: "entry_file entry = m @ saved @ pay" "length m = 256"
    "length saved = APA_HEADER_SIZE" and ok: "image_contents_ok (entry_info entry) saved pay"
    using accepted_parts loaded_facts(1,2) [OF f(3)] by metis
  have "rescue_storage_payload (Some entry) = Some pay"
    using f(5) d by (simp add: rescue_storage_payload_def capsule_has_payload_def)
  then show ?thesis
    using f ok d loaded_facts(3) [OF f(3)]
    by (auto simp: image_contents_ok_def)
qed

text \<open>
  Property C20: a capsule selected for a restore is one of the two files of the device, loaded and
  validated just now, of the same disk as the current header, and its payload, the one handed out,
  has the recorded digest and starts with a valid container of the recorded length.
\<close>

theorem rescue_find_sound:
  assumes "rescue_storage_find api storage header w = (Inr entry, w')"
  shows "careful api w w' \<and> entry_path entry \<in> rescue_path_for_slot storage ` {0, 1} \<and>
    (\<forall>files fds. file_store api files fds \<longrightarrow>
      files (store w') (entry_path entry) = Some (entry_file entry)) \<and>
    (\<exists>metadata saved payload. entry_file entry = metadata @ saved @ payload \<and>
      length metadata = 256 \<and> length saved = APA_HEADER_SIZE \<and>
      headers_match_same_disk header (saved @ payload) \<and>
      rescue_storage_payload (Some entry) = Some payload \<and>
      sha256_spec payload = cap_payload_sha256 (entry_info entry) \<and>
      kelf_validate_layout payload (cap_kelf_file_bytes (entry_info entry)) = KELF_VALID)"
  by (rule rescue_found [OF assms])

section \<open>Witnesses\<close>

lemma calm_load:
  assumes "calm (length data) w" and "data \<noteq> []" and "mem_files (store w) p = Some data"
    and "length data \<le> RESCUE_STORAGE_MAX_CAPSULE_SIZE"
    and "rescue_image_validate data (of_nat (length data)) zero_capsule_info = (0, info)"
  shows "\<exists>w'. load_rescue_file memory_platform p w = (Inr (info, data), w')"
  using calm_read_bounded [OF assms(1-4)] assms(5) by (auto simp: load_rescue_file_def)

text \<open>A device whose first slot holds a capsule of the sample master with its container.\<close>

definition sample_capsule_file :: "byte list" where
  "sample_capsule_file = (let payload = sample_kelf @ replicate 416 0 in
    rescue_capsule_encode (sealed_info sample_rescue_info sample_master payload) @ sample_master @ payload)"

lemma sample_capsule_file_valid:
  "rescue_image_validate sample_capsule_file (of_nat (length sample_capsule_file)) zero_capsule_info =
    (0, sealed_info sample_rescue_info sample_master (sample_kelf @ replicate 416 0))"
  unfolding sample_capsule_file_def Let_def
  by (rule sealed_accepted)
    (use sample_standard sample_rescue_ok sample_kelf_valid in
      \<open>auto simp: sample_rescue_info_def sample_capsule_def sample_kelf_def\<close>)

lemma length_sample_capsule_file: "length sample_capsule_file = 1792"
  by (simp add: sample_capsule_file_def Let_def sample_kelf_def)

theorem rescue_find_sound_witness:
  "\<exists>entry w'. rescue_storage_find memory_platform 2 sample_master
      (memory_with (ascii ''mass:/HDDRESCUE.BIN'') sample_capsule_file) = (Inr entry, w') \<and>
    rescue_storage_payload (Some entry) = Some (sample_kelf @ replicate 416 0)"
proof -
  define p where "p = ascii ''mass:/HDDRESCUE.BIN''"
  define w where "w = memory_with p sample_capsule_file"
  define info where "info = sealed_info sample_rescue_info sample_master (sample_kelf @ replicate 416 0)"
  have path: "rescue_path_for_slot 2 0 = p" unfolding p_def by code_simp
  note facts = memory_with_facts [where p = p and data = sample_capsule_file, folded w_def]
  obtain st w1 where st: "fileXioGetStat memory_platform p w = (0, st, w1)"
    "calm (length sample_capsule_file) w1" "mem_files (store w1) p = Some sample_capsule_file"
    using memory_stat [OF facts(2,1)] facts(2) by auto
  obtain w2 where l: "load_rescue_file memory_platform p w1 = (Inr (info, sample_capsule_file), w2)"
    using calm_load [OF st(2) _ st(3) _ sample_capsule_file_valid] length_sample_capsule_file
    by (auto simp: info_def simp flip: length_greater_0_conv)
  have same: "headers_match_same_disk sample_master (drop 256 sample_capsule_file)"
    by (simp add: sample_capsule_file_def Let_def headers_match_same_disk_def bytes_at_append_left reads_append)
  have flags: "cap_flags info AND 2 \<noteq> 0" "cap_flags info AND 4 \<noteq> 0"
    by (simp_all add: info_def sealed_info_def sample_rescue_info_def sample_capsule_def)
  obtain entry where run: "rescue_storage_find memory_platform 2 sample_master w = (Inr entry, w2)"
    and entry: "entry_file entry = sample_capsule_file"
    using st(1) l same flags by (simp add: rescue_storage_find_def path path_exists_def Let_def)
  show ?thesis
    using rescue_find_sound [OF run] run entry unfolding w_def p_def
    by (auto simp: rescue_storage_payload_def sample_capsule_file_def Let_def)
qed

text \<open>The state of the sample master, whose pointer is not set, already saved.\<close>

lemma sample_pointer: "read_le32 sample_master APA_OSD_START_OFFSET = 0"
  "read_le32 sample_master APA_OSD_SIZE_OFFSET = 0"
  unfolding sample_master_def blank_master_def writes_def by (simp_all add: buf_simps read_zero32)

definition bare_info :: rescue_capsule_info where
  "bare_info = current_info 0 0 sample_master None None None"

definition bare_capsule :: "byte list" where
  "bare_capsule = rescue_capsule_encode bare_info @ sample_master @ []"

lemma bare_capsule_valid:
  "rescue_image_validate bare_capsule (of_nat (length bare_capsule)) zero_capsule_info = (0, bare_info)"
proof -
  have ok: "capsule_ok bare_info"
    by (simp add: capsule_ok_def capsule_fields_ok_def capsule_has_payload_def capsule_has_kelf_def
        terminated_def bare_info_def current_info_def zero_capsule_info_def string_array_def
        print_into_def)
  have "(of_nat (length bare_capsule) :: u32) = 256 + 1024 + cap_payload_bytes bare_info"
    by (simp add: bare_capsule_def bare_info_def current_info_def zero_capsule_info_def)
  then have "rescue_capsule_decode (rescue_capsule_encode bare_info) (of_nat (length bare_capsule))
      zero_capsule_info = (0, bare_info)"
    using encode_decode [OF ok, of zero_capsule_info] by simp
  then show ?thesis
    unfolding bare_capsule_def
    by (subst validate_iff) (use sample_standard in \<open>auto simp: image_contents_ok_def bare_info_def
        current_info_def zero_capsule_info_def capsule_has_payload_def capsule_has_kelf_def sha256_buffer_spec\<close>)
qed


end
