(* ===== verification/Printf.thy ===== *)
theory Printf
  imports Ctype
begin

text \<open>
  Formatted output as the program uses it: the conversions \<open>%s\<close>, \<open>%d\<close>, \<open>%u\<close>, \<open>%04u\<close>, \<open>%x\<close> and
  \<open>%08x\<close>, and appending a formatted piece to a text array that is kept terminated
  (\<open>append_text\<close> of \<open>src/session_log.c\<close>, \<open>report_append\<close> of \<open>src/boot_report.c\<close>).
\<close>

section \<open>Conversions\<close>

fun radix_digits :: "nat \<Rightarrow> nat \<Rightarrow> byte list" where
  "radix_digits b n = (let d = n mod b; c = (if d < 10 then 0x30 + of_nat d else 0x57 + of_nat d) in
     if b \<le> 1 \<or> n < b then [c] else radix_digits b (n div b) @ [c])"

declare radix_digits.simps [simp del]

definition zero_padded :: "nat \<Rightarrow> byte list \<Rightarrow> byte list" where
  "zero_padded width s = replicate (width - length s) 0x30 @ s"

definition signed_decimal :: "int \<Rightarrow> byte list" where
  "signed_decimal i = (if i < 0 then 0x2d # radix_digits 10 (nat (- i)) else radix_digits 10 (nat i))"

datatype format_item =
    Lit string
  | Str "byte list"
  | Dec int
  | Uns nat
  | PadUns nat nat
  | Hex nat
  | PadHex nat nat

fun format_one :: "format_item \<Rightarrow> byte list" where
  "format_one (Lit s) = ascii s"
| "format_one (Str s) = s"
| "format_one (Dec i) = signed_decimal i"
| "format_one (Uns n) = radix_digits 10 n"
| "format_one (PadUns width n) = zero_padded width (radix_digits 10 n)"
| "format_one (Hex n) = radix_digits 16 n"
| "format_one (PadHex width n) = zero_padded width (radix_digits 16 n)"

definition format_items :: "format_item list \<Rightarrow> byte list" where
  "format_items items = concat (map format_one items)"

definition newline :: format_item where "newline = Str [0x0a]"

section \<open>Appending\<close>

text \<open>
  The text in an array of \<open>capacity\<close> bytes after appending: what fits, with one byte left for the
  terminator.
\<close>

definition append_text :: "nat \<Rightarrow> byte list \<Rightarrow> format_item list \<Rightarrow> byte list" where
  "append_text capacity text_so_far items =
    (if length text_so_far \<ge> capacity - 1 then text_so_far
     else text_so_far @ take (capacity - 1 - length text_so_far) (format_items items))"

lemma append_text_length:
  "length t \<le> capacity - 1 \<Longrightarrow> length (append_text capacity t items) \<le> capacity - 1"
  by (auto simp: append_text_def)

lemma append_text_prefix: "\<exists>s. append_text capacity t items = t @ s"
  by (auto simp: append_text_def)

text \<open>Appending piece after piece is cutting the whole text off once.\<close>

lemma append_text_cut:
  "append_text capacity (take (capacity - 1) t) items = take (capacity - 1) (t @ format_items items)"
  by (auto simp: append_text_def min_def)

definition append_all :: "nat \<Rightarrow> byte list \<Rightarrow> format_item list list \<Rightarrow> byte list" where
  "append_all capacity t pieces = foldl (append_text capacity) t pieces"

lemma append_all_cut:
  "append_all capacity (take (capacity - 1) t) pieces =
    take (capacity - 1) (t @ format_items (concat pieces))"
proof (induction pieces arbitrary: t)
  case Nil
  then show ?case by (simp add: append_all_def format_items_def)
next
  case (Cons p ps)
  have "append_all capacity (take (capacity - 1) t) (p # ps) =
      append_all capacity (take (capacity - 1) (t @ format_items p)) ps"
    using append_text_cut [of capacity t p] by (simp add: append_all_def del: One_nat_def)
  also have "\<dots> = take (capacity - 1) (t @ format_items p @ format_items (concat ps))"
    using Cons.IH [of "t @ format_items p"] by simp
  finally show ?case by (simp add: format_items_def)
qed

text \<open>Decimal output determines the number.\<close>

fun radix_number :: "nat \<Rightarrow> nat \<Rightarrow> byte list \<Rightarrow> nat" where
  "radix_number b acc [] = acc"
| "radix_number b acc (c # cs) =
    radix_number b (acc * b + (if c < 0x3a then unat c - 0x30 else unat c - 0x57)) cs"

lemma radix_number_append:
  "radix_number b acc (s @ t) = radix_number b (radix_number b acc s) t"
  by (induction s arbitrary: acc) simp_all

lemma digit_char:
  "d < 16 \<Longrightarrow> radix_number b acc [if d < 10 then 0x30 + of_nat d else 0x57 + of_nat d] = acc * b + d"
  by (auto simp: word_less_nat_alt unat_word_ariths unat_of_nat)

lemma radix_digits_number:
  "1 < b \<Longrightarrow> b \<le> 16 \<Longrightarrow> radix_number b 0 (radix_digits b n) = n"
proof (induction n rule: less_induct)
  case (less n)
  have d: "n mod b < 16" using less.prems mod_less_divisor [of b n] by linarith
  show ?case
  proof (cases "n < b")
    case True
    then show ?thesis using less.prems d digit_char [of n b 0]
      by (simp add: radix_digits.simps [of b n] Let_def)
  next
    case False
    then have "radix_number b 0 (radix_digits b (n div b)) = n div b"
      using less.prems by (intro less.IH) auto
    moreover have "radix_digits b n = radix_digits b (n div b) @
        [if n mod b < 10 then 0x30 + of_nat (n mod b) else 0x57 + of_nat (n mod b)]"
      using False less.prems(1) by (subst radix_digits.simps) (simp add: Let_def)
    ultimately show ?thesis
      using digit_char [OF d, of b "n div b"] by (simp add: radix_number_append)
  qed
qed

lemma radix_digits_inj:
  "1 < b \<Longrightarrow> b \<le> 16 \<Longrightarrow> radix_digits b m = radix_digits b n \<Longrightarrow> m = n"
  by (metis radix_digits_number)

end
