(* ===== verification/SessionLog.thy ===== *)
theory SessionLog
  imports FileStore Printf
begin

text \<open>
  The bounded session log and its file: \<open>src/session_log.c\<close>.  The lemmas show that the buffer is
  never overrun and only grows, what a flush appends to the file, and that it touches no other file.
\<close>

abbreviation (input) SESSION_LOG_SIZE :: nat where "SESSION_LOG_SIZE \<equiv> 16384"
abbreviation (input) SESSION_LOG_ROTATE_SIZE :: u32 where "SESSION_LOG_ROTATE_SIZE \<equiv> 131072"
abbreviation (input) SESSION_LOG_PATH_SIZE :: nat where "SESSION_LOG_PATH_SIZE \<equiv> 64"
abbreviation (input) USB_WRITE_ATTEMPTS :: nat where "USB_WRITE_ATTEMPTS \<equiv> 20"

text \<open>The text logged so far; how much of it each device has; the number of the last line.\<close>

record session_log =
  log_buffer :: "byte list"
  log_saved :: "nat list"
  log_sequence :: u32

definition session_log_line :: "format_item list \<Rightarrow> session_log \<Rightarrow> session_log" where
  "session_log_line items lg =
    (let line = take 255 (format_items items); seq = log_sequence lg + 1 in
     lg\<lparr>log_sequence := seq,
       log_buffer := append_text SESSION_LOG_SIZE (log_buffer lg)
         [Lit ''['', PadUns 4 (unat seq), Lit ''] '', Str line, newline]\<rparr>)"

text \<open>A call that is tried again, after a pause, up to \<open>again\<close> times as long as it fails.\<close>

primrec retry :: "nat \<Rightarrow> ('w \<Rightarrow> int \<times> 'w) \<Rightarrow> 'w \<Rightarrow> int \<times> 'w" where
  "retry 0 act w = act w"
| "retry (Suc again) act w = (let (r, w1) = act w in if r \<ge> 0 then (r, w1) else retry again act w1)"

definition log_path :: "nat \<Rightarrow> path" where
  "log_path storage = storage_path SESSION_LOG_PATH_SIZE storage (ascii ''HDDMAN.LOG'')"

text \<open>Where the part a device does not have begins; and the log after its file has been rotated.\<close>

definition flush_start :: "nat \<Rightarrow> session_log \<Rightarrow> nat" where
  "flush_start storage lg = (if log_saved lg ! storage > length (log_buffer lg) then 0
    else log_saved lg ! storage)"

definition rotated :: "nat \<Rightarrow> bool \<Rightarrow> session_log \<Rightarrow> session_log" where
  "rotated storage anew lg = (if anew then lg\<lparr>log_saved := (log_saved lg)[storage := 0]\<rparr> else lg)"

definition flush_unsaved ::
    "'f platform \<Rightarrow> nat \<Rightarrow> bool \<Rightarrow> session_log \<Rightarrow> 'f file_world \<Rightarrow> int \<times> session_log \<times> 'f file_world" where
  "flush_unsaved api storage anew lg w =
    (if flush_start storage lg = length (log_buffer lg) then (0, lg, w)
     else let (result, w2) = retry (if storage = 2 then USB_WRITE_ATTEMPTS - 1 else 0)
            (append_log_file api (log_path storage) (drop (flush_start storage lg) (log_buffer lg)) anew) w in
       (result, if result = 0 then lg\<lparr>log_saved := (log_saved lg)[storage := length (log_buffer lg)]\<rparr>
        else lg, w2))"

definition session_log_flush ::
    "'f platform \<Rightarrow> nat \<Rightarrow> session_log \<Rightarrow> 'f file_world \<Rightarrow> int \<times> session_log \<times> 'f file_world" where
  "session_log_flush api storage lg w =
    (if storage \<ge> STORAGE_TARGET_COUNT \<or> log_buffer lg = [] then (- 1, lg, w)
     else let (r, st, w1) = fileXioGetStat api (log_path storage) w;
              anew = (r \<ge> 0 \<and> st_size st \<ge> SESSION_LOG_ROTATE_SIZE) in
       flush_unsaved api storage anew (rotated storage anew lg) w1)"

section \<open>The buffer\<close>

definition log_ok :: "session_log \<Rightarrow> bool" where
  "log_ok lg \<longleftrightarrow> length (log_buffer lg) < SESSION_LOG_SIZE \<and> length (log_saved lg) = STORAGE_TARGET_COUNT"

lemma log_ok_line: "log_ok lg \<Longrightarrow> log_ok (session_log_line items lg)"
proof -
  assume ok: "log_ok lg"
  have "length (append_text 16384 (log_buffer lg) pieces) \<le> 16384 - 1" for pieces
    using ok by (intro append_text_length) (simp add: log_ok_def)
  then have "length (append_text 16384 (log_buffer lg) pieces) < 16384" for pieces
    by (simp add: less_Suc_eq_le [of _ 16383, simplified])
  then show ?thesis using ok by (simp add: log_ok_def session_log_line_def Let_def)
qed

lemma log_ok_unsaved: "flush_unsaved api storage anew lg w = (r, lg', w') \<Longrightarrow> log_ok lg \<Longrightarrow> log_ok lg'"
  by (auto simp: flush_unsaved_def log_ok_def split: prod.splits if_splits)

lemma log_ok_rotated: "log_ok lg \<Longrightarrow> log_ok (rotated storage anew lg)"
  by (simp add: rotated_def log_ok_def)

lemma log_ok_flush: "session_log_flush api storage lg w = (r, lg', w') \<Longrightarrow> log_ok lg \<Longrightarrow> log_ok lg'"
  by (auto simp: session_log_flush_def Let_def split: prod.splits if_splits
      dest: log_ok_unsaved intro: log_ok_rotated)

section \<open>The file\<close>

lemma retry_induct:
  assumes "retry again act w = (r, w')" and "P w"
    and "\<And>v k v'. P v \<Longrightarrow> act v = (k, v') \<Longrightarrow> P v'"
  shows "P w'"
  using assms(1,2)
proof (induction again arbitrary: w)
  case 0
  then show ?case using assms(3) by simp
next
  case (Suc again)
  obtain k v where k: "act w = (k, v)" by fastforce
  then have "P v" using assms(3) Suc.prems(2) by blast
  then show ?case using Suc k by (auto split: if_splits)
qed

lemma retry_result:
  "retry again act w = (r, w') \<Longrightarrow> \<exists>v. act v = (r, w')"
  by (induction again arbitrary: w) (auto split: prod.splits if_splits)

context file_store
begin

lemma append_log_effect:
  assumes "append_log_file api p data anew w = (r, w')"
  shows "q \<noteq> p \<Longrightarrow> stored w' q = stored w q"
    and "r = 0 \<Longrightarrow> \<exists>d. stored w' p = Some (d @ data) \<and>
      (if anew then d = [] else stored w p = Some d \<or> stored w p = None \<and> d = [])"
proof -
  define mode where "mode = (if anew then FIO_WRITE_TRUNC else FIO_WRITE_APPEND)"
  obtain fd f' where o: "fx_open api p mode (store w) = (fd, f')" by fastforce
  have others: "q \<noteq> p \<Longrightarrow> files f' q = stored w q" for q
    using o open_trunc_files [of p "store w"] open_append_files [of p "store w"]
    by (auto simp: mode_def split: if_splits)
  define w1 where "w1 = stepped w f' (Opened p mode fd)"
  obtain k w2 where l: "write_loop api (- 1) fd data w1 = (k, w2)" by fastforce
  have run: "(r, w') = (if fd < 0 then (fd, w1) else (k, fileXioClose api fd w2))"
    using assms [symmetric] o l [unfolded w1_def]
    by (simp add: append_log_file_def mode_def [symmetric] fileXioOpen_def Let_def w1_def)
  have all: "(q \<noteq> p \<longrightarrow> stored w' q = stored w q) \<and> (r = 0 \<longrightarrow> (\<exists>d. stored w' p = Some (d @ data) \<and>
      (if anew then d = [] else stored w p = Some d \<or> stored w p = None \<and> d = [])))" for q
  proof (cases "fd < 0")
    case True
    then show ?thesis using run others by (auto simp: w1_def)
  next
    case False
    then obtain d where d: "files f' p = Some d" "fds f' fd = Some (p, length d)"
        "if anew then d = [] else stored w p = Some d \<or> stored w p = None \<and> d = []"
      using open_trunc [of p "store w" fd f'] open_append [of p "store w" fd f'] o
      by (cases anew) (auto simp: mode_def)
    show ?thesis using write_loop_effect [OF l, of p d] run False d others by (auto simp: w1_def)
  qed
  show "q \<noteq> p \<Longrightarrow> stored w' q = stored w q" using all by blast
  show "r = 0 \<Longrightarrow> \<exists>d. stored w' p = Some (d @ data) \<and>
      (if anew then d = [] else stored w p = Some d \<or> stored w p = None \<and> d = [])" using all by blast
qed

lemma retry_append_effect:
  assumes "retry again (append_log_file api p data anew) w = (r, w')"
  shows "q \<noteq> p \<Longrightarrow> stored w' q = stored w q" and "r = 0 \<Longrightarrow> \<exists>d. stored w' p = Some (d @ data)"
proof -
  assume q: "q \<noteq> p"
  show "stored w' q = stored w q"
    by (rule retry_induct [OF assms, of "\<lambda>v. stored v q = stored w q"])
      (simp_all add: append_log_effect(1) [OF _ q])
next
  assume r: "r = 0"
  obtain v where "append_log_file api p data anew v = (r, w')" using retry_result [OF assms] by blast
  from append_log_effect(2) [OF this r] show "\<exists>d. stored w' p = Some (d @ data)" by blast
qed

lemma flush_unsaved_effect:
  assumes "flush_unsaved api storage anew lg w = (r, lg', w')" and q: "q \<noteq> log_path storage"
  shows "stored w' q = stored w q"
proof -
  obtain result w2 where re: "retry (if storage = 2 then USB_WRITE_ATTEMPTS - 1 else 0)
      (append_log_file api (log_path storage) (drop (flush_start storage lg) (log_buffer lg)) anew) w =
    (result, w2)" by (metis prod.exhaust)
  have "w' = w \<or> w' = w2"
    using assms(1) unfolding flush_unsaved_def re prod.case by (auto split: if_splits)
  then show ?thesis using retry_append_effect(1) [OF re q] by auto
qed

lemma flush_effect:
  assumes "session_log_flush api storage lg w = (r, lg', w')" and q: "q \<noteq> log_path storage"
  shows "stored w' q = stored w q"
proof (cases "storage < STORAGE_TARGET_COUNT \<and> log_buffer lg \<noteq> []")
  case False
  then show ?thesis using assms by (auto simp: session_log_flush_def not_le)
next
  case True
  obtain k st w1 where st: "fileXioGetStat api (log_path storage) w = (k, st, w1)" by (metis prod_cases3)
  show ?thesis
    using assms(1) True flush_unsaved_effect [OF _ q] getstat_effect(1) [OF st]
    by (simp add: session_log_flush_def st Let_def not_le [symmetric])
qed

end

section \<open>Whole sessions\<close>

text \<open>Any sequence of logged lines and flushes, from the state at the start of the program.\<close>

datatype log_call = Log_line "format_item list" | Log_flush nat

definition empty_log :: session_log where
  "empty_log = \<lparr>log_buffer = [], log_saved = replicate STORAGE_TARGET_COUNT 0, log_sequence = 0\<rparr>"

fun log_calls :: "'f platform \<Rightarrow> log_call list \<Rightarrow> session_log \<times> 'f file_world \<Rightarrow> session_log \<times> 'f file_world" where
  "log_calls api [] st = st"
| "log_calls api (Log_line items # cs) (lg, w) = log_calls api cs (session_log_line items lg, w)"
| "log_calls api (Log_flush storage # cs) (lg, w) =
    (let (r, lg1, w1) = session_log_flush api storage lg w in log_calls api cs (lg1, w1))"

definition log_wf :: "session_log \<Rightarrow> bool" where
  "log_wf lg \<longleftrightarrow> log_ok lg \<and> (\<forall>n \<in> set (log_saved lg). n \<le> length (log_buffer lg))"

lemma line_prefix: "\<exists>t. log_buffer (session_log_line items lg) = log_buffer lg @ t"
  unfolding session_log_line_def Let_def by simp (rule append_text_prefix)

lemma line_saved [simp]: "log_saved (session_log_line items lg) = log_saved lg"
  by (simp add: session_log_line_def Let_def)

lemma log_wf_line: "log_wf lg \<Longrightarrow> log_wf (session_log_line items lg)"
  using line_prefix [of items lg] log_ok_line [of lg items] by (fastforce simp: log_wf_def)

lemma log_wf_rotated: "log_wf lg \<Longrightarrow> log_wf (rotated storage anew lg)"
  using set_update_subset_insert [of "log_saved lg" storage 0] log_ok_rotated [of lg storage anew]
  by (auto simp: log_wf_def rotated_def)

lemma log_wf_unsaved:
  assumes "flush_unsaved api storage anew lg w = (r, lg', w')" and "log_wf lg"
  shows "log_wf lg'"
  using assms set_update_subset_insert [of "log_saved lg" storage "length (log_buffer lg)"] log_ok_unsaved
  by (auto simp: flush_unsaved_def log_wf_def split: prod.splits if_splits) (auto simp: log_ok_def)

lemma log_wf_flush: "session_log_flush api storage lg w = (r, lg', w') \<Longrightarrow> log_wf lg \<Longrightarrow> log_wf lg'"
  by (auto simp: session_log_flush_def Let_def split: prod.splits if_splits
      dest!: log_wf_unsaved intro: log_wf_rotated)

lemma flush_buffer:
  "session_log_flush api storage lg w = (r, lg', w') \<Longrightarrow>
    log_buffer lg' = log_buffer lg \<and> log_sequence lg' = log_sequence lg"
  by (auto simp: session_log_flush_def flush_unsaved_def rotated_def Let_def split: prod.splits if_splits)

lemma log_wf_calls: "log_wf lg \<Longrightarrow> log_wf (fst (log_calls api cs (lg, w)))"
proof (induction api cs "(lg, w)" arbitrary: lg w rule: log_calls.induct)
  case (3 api storage cs lg w)
  obtain r lg1 w1 where f: "session_log_flush api storage lg w = (r, lg1, w1)" by (metis prod_cases3)
  from 3(1) [OF f [symmetric] refl refl log_wf_flush [OF f 3(2)]] show ?case by (simp add: f)
qed (simp_all add: log_wf_line)

text \<open>What the log would hold without a bound: every line cut to 255 characters, with its number.\<close>

fun log_text :: "u32 \<Rightarrow> log_call list \<Rightarrow> byte list" where
  "log_text seq [] = []"
| "log_text seq (Log_line items # cs) =
    format_items [Lit ''['', PadUns 4 (unat (seq + 1)), Lit ''] '', Str (take 255 (format_items items)), newline] @
      log_text (seq + 1) cs"
| "log_text seq (Log_flush storage # cs) = log_text seq cs"

lemma log_calls_text:
  "log_buffer lg = take 16383 t \<Longrightarrow>
    log_buffer (fst (log_calls api cs (lg, w))) = take 16383 (t @ log_text (log_sequence lg) cs)"
proof (induction api cs "(lg, w)" arbitrary: lg w t rule: log_calls.induct)
  case (1 api lg w)
  then show ?case by simp
next
  case (2 api items cs lg w)
  have "log_buffer (session_log_line items lg) = take 16383 (t @ format_items [Lit ''['',
      PadUns 4 (unat (log_sequence lg + 1)), Lit ''] '', Str (take 255 (format_items items)), newline])"
    using append_text_cut [of 16384 t] 2(2) by (simp add: session_log_line_def Let_def)
  from 2(1) [OF this] show ?case by (simp add: session_log_line_def Let_def)
next
  case (3 api storage cs lg w)
  obtain r lg1 w1 where f: "session_log_flush api storage lg w = (r, lg1, w1)" by (metis prod_cases3)
  then show ?case using 3(1) [OF f [symmetric] refl refl, of t] 3(2) flush_buffer [OF f] by simp
qed

text \<open>
  Property C23: the typing of the log.  Whatever is logged and flushed, in any order and on any
  platform, the text fits its array with a terminator, there is one saved length per device, and
  none exceeds the text, so that the flush always continues where the device's file ends.
\<close>

theorem session_log_typed: "log_wf (fst (log_calls api cs (empty_log, w)))"
  by (rule log_wf_calls) (simp add: log_wf_def log_ok_def empty_log_def)

text \<open>
  Property C24: the bounded log refines the unbounded sequence of numbered lines: its text is that
  sequence cut to what fits the array; flushing never changes it.
\<close>

theorem session_log_refines: "log_buffer (fst (log_calls api cs (empty_log, w))) = take 16383 (log_text 0 cs)"
  using log_calls_text [of empty_log "[]"] by (simp add: empty_log_def)

end
