(* ===== verification/BootChain.thy ===== *)
theory BootChain
  imports Apa Capsule Ctype
begin

text \<open>
  Boot-chain policy: \<open>src/boot_chain.c\<close>.  Configuration texts are parsed line by line and the
  evidence a scan has gathered is turned into a family, a confidence and a next stage.  A C string
  is the byte list before its terminator, a pointer into it the suffix it points at; \<open>snprintf\<close> of a
  string into an array keeps what fits.  The lemmas show which assignment a lookup returns and
  what the classification depends on.
\<close>

abbreviation (input) BOOT_AUTO_NONE :: int where "BOOT_AUTO_NONE \<equiv> 0"
abbreviation (input) BOOT_AUTO_PSBBN :: int where "BOOT_AUTO_PSBBN \<equiv> 1"
abbreviation (input) BOOT_AUTO_HOSDSYS :: int where "BOOT_AUTO_HOSDSYS \<equiv> 2"
abbreviation (input) BOOT_AUTO_CUSTOM :: int where "BOOT_AUTO_CUSTOM \<equiv> 3"

section \<open>Evidence\<close>

record boot_chain_info =
  bc_romver :: "byte list"
  bc_expected_system_folder :: "byte list"
  bc_family :: "byte list"
  bc_confidence :: "byte list"
  bc_next_stage :: "byte list"
  bc_pointer_consistent :: bool
  bc_payload_read_result :: int
  bc_payload_kelf_result :: int
  bc_payload_bytes :: u32
  bc_kelf_file_bytes :: u32
  bc_payload_sha256 :: "byte list"
  bc_kelf_sha256 :: "byte list"
  bc_skip_hdd :: "int list"
  bc_mc_module_count :: "int list"
  bc_mc_folder_mask :: "u32 list"
  bc_mc_folder_module_mask :: "u32 list list"
  bc_fhdb_config :: int
  bc_fhdb_boot_elf :: int
  bc_fhdb_config_path :: "byte list"
  bc_fhdb_auto_path :: "byte list"
  bc_osdmenu_mbr_config :: int
  bc_osdmenu_auto_target :: int
  bc_osdmenu_auto_path :: "byte list"
  bc_psbbn_boot :: int
  bc_psbbn_partition_count :: int
  bc_hosdmenu_boot :: int
  bc_hddosd_boot :: int
  bc_hddosd_path :: "byte list"
  bc_legacy_osdmain :: int
  bc_sysconf_mount_result :: int
  bc_system_mount_result :: int

section \<open>Configuration texts\<close>

definition ascii_lower :: "byte \<Rightarrow> byte" where
  "ascii_lower a = (if is_upper a then a - 0x41 + 0x61 else a)"

definition same_nocase :: "byte \<Rightarrow> byte \<Rightarrow> bool" where
  "same_nocase a b \<longleftrightarrow> ascii_lower a = ascii_lower b"

definition blank_char :: "byte \<Rightarrow> bool" where "blank_char c \<longleftrightarrow> c = 0x20 \<or> c = 0x09"

text \<open>The value a line assigns to the key, with room for \<open>capacity - 1\<close> characters.\<close>

definition copied_value :: "nat \<Rightarrow> byte list \<Rightarrow> byte list" where
  "copied_value capacity cursor =
    rev (dropWhile blank_char (rev (takeWhile (\<lambda>c. c \<noteq> 0x23 \<and> c \<noteq> 0x0d) (take (capacity - 1) cursor))))"

definition line_value :: "byte list \<Rightarrow> byte list \<Rightarrow> nat \<Rightarrow> byte list option" where
  "line_value line key capacity =
    (let cursor = dropWhile (\<lambda>c. blank_char c \<or> c = 0x0d) line in
     if cursor \<noteq> [] \<and> hd cursor \<noteq> 0x23 \<and> length cursor \<ge> length key \<and>
       list_all2 same_nocase (take (length key) cursor) key
     then let cursor = dropWhile blank_char (drop (length key) cursor) in
       if cursor \<noteq> [] \<and> hd cursor = 0x3d
       then Some (copied_value capacity (dropWhile blank_char (tl cursor)))
       else None
     else None)"

text \<open>Whether the key was found, and the contents of \<open>value\<close>.\<close>

function config_value :: "byte list \<Rightarrow> byte list \<Rightarrow> nat \<Rightarrow> bool \<times> byte list" where
  "config_value text key capacity =
    (if capacity = 0 \<or> text = [] then (False, [])
     else let line = takeWhile (\<lambda>c. c \<noteq> 0x0a) text; rest = dropWhile (\<lambda>c. c \<noteq> 0x0a) text in
       (case line_value line key capacity of
          Some v \<Rightarrow> (True, v)
        | None \<Rightarrow> config_value (drop 1 rest) key capacity))"
  by pat_completeness auto

termination config_value
proof (relation "measure (\<lambda>(s, key, capacity). length s)", simp)
  fix s key :: "byte list" and capacity :: nat and line rest :: "byte list"
  assume "\<not> (capacity = 0 \<or> s = [])" and "rest = dropWhile (\<lambda>c. c \<noteq> 0x0a) s"
  moreover have "length (dropWhile (\<lambda>c. c \<noteq> 0x0a) s) \<le> length s" by (rule length_dropWhile_le)
  ultimately show "((drop 1 rest, key, capacity), s, key, capacity)
      \<in> measure (\<lambda>(s, key, capacity). length s)"
    by (cases s) auto
qed

declare config_value.simps [simp del]

text \<open>\<open>value[i]\<close> of a C string; the terminator is NUL.\<close>

definition char_at :: "byte list \<Rightarrow> nat \<Rightarrow> byte" where
  "char_at s i = (if i < length s then s ! i else 0)"

definition parse_boolean_value :: "byte list \<Rightarrow> int" where
  "parse_boolean_value s =
    (if s = [] then - 2
     else let is_char = (\<lambda>i c. same_nocase (char_at s i) c) in
       if char_at s 0 = 0x31 \<or> is_char 0 0x79 \<or> is_char 0 0x74 \<or> is_char 0 0x6f \<and> is_char 1 0x6e
       then 1
       else if char_at s 0 = 0x30 \<or> is_char 0 0x6e \<or> is_char 0 0x66 \<or>
         is_char 0 0x6f \<and> is_char 1 0x66
       then 0 else - 2)"

definition parse_skip_hdd_text :: "byte list \<Rightarrow> int" where
  "parse_skip_hdd_text text =
    (let (found, v) = config_value text (ascii ''OSDSYS_Skip_HDD'') 32;
         (found, v) = (if found then (found, v) else config_value text (ascii ''Skip_HDD'') 32) in
     if \<not> found then - 2 else parse_boolean_value v)"

definition parse_osdmenu_boot_auto :: "byte list \<Rightarrow> nat \<Rightarrow> int \<times> byte list" where
  "parse_osdmenu_boot_auto text capacity =
    (let (found, v) = config_value text (ascii ''boot_auto'') capacity in
     (if \<not> found then BOOT_AUTO_NONE
      else if v = ascii ''$PSBBN'' then BOOT_AUTO_PSBBN
      else if v = ascii ''$HOSDSYS'' then BOOT_AUTO_HOSDSYS
      else BOOT_AUTO_CUSTOM, v))"

definition find_fhdb_auto_target :: "byte list \<Rightarrow> nat \<Rightarrow> bool \<times> byte list" where
  "find_fhdb_auto_target text capacity =
    (let first = config_value text (ascii ''LK_Auto_E1'') capacity in
     if fst first then first
     else let second = config_value text (ascii ''LK_Auto_E2'') capacity in
       if fst second then second else config_value text (ascii ''LK_Auto_E3'') capacity)"

definition expected_system_folder :: "byte list option \<Rightarrow> nat \<Rightarrow> byte list" where
  "expected_system_folder romver capacity =
    print_into capacity
      (case romver of
         Some r \<Rightarrow>
           (if length r \<ge> 5
            then if r ! 4 = 0x4a then ascii ''BIEXEC-SYSTEM''
              else if r ! 4 = 0x41 \<or> r ! 4 = 0x48 then ascii ''BAEXEC-SYSTEM''
              else if r ! 4 = 0x45 then ascii ''BEEXEC-SYSTEM''
              else if r ! 4 = 0x43 then ascii ''BCEXEC-SYSTEM''
              else ascii ''unknown''
            else ascii ''unknown'')
       | None \<Rightarrow> ascii ''unknown'')"

section \<open>Classification\<close>

definition set_labels ::
    "string \<Rightarrow> string \<Rightarrow> byte list \<Rightarrow> boot_chain_info \<Rightarrow> boot_chain_info" where
  "set_labels family confidence next_stage info = info
    \<lparr>bc_family := print_into RESCUE_CAPSULE_FAMILY_SIZE (ascii family),
     bc_confidence := print_into RESCUE_CAPSULE_CONFIDENCE_SIZE (ascii confidence),
     bc_next_stage := print_into 96 next_stage\<rparr>"

definition classify_active :: "boot_chain_info \<Rightarrow> boot_chain_info" where
  "classify_active info =
    (if bc_osdmenu_mbr_config info \<noteq> 0 \<and> bc_osdmenu_auto_target info = BOOT_AUTO_PSBBN
     then set_labels ''PSBBN / OSDMenu MBR''
       (if bc_psbbn_boot info \<noteq> 0 then ''high'' else ''medium'')
       (ascii ''hdd0:__system:pfs:/p2lboot/osdboot.elf'') info
     else if bc_osdmenu_mbr_config info \<noteq> 0 \<and> bc_osdmenu_auto_target info = BOOT_AUTO_HOSDSYS
     then set_labels ''HDD-OSD / OSDMenu MBR''
       (if bc_hosdmenu_boot info \<noteq> 0 \<or> bc_hddosd_boot info \<noteq> 0 then ''high'' else ''medium'')
       (if bc_hosdmenu_boot info \<noteq> 0 then ascii ''hdd0:__system:pfs:/osdmenu/hosdmenu.elf''
        else if bc_hddosd_boot info \<noteq> 0 then bc_hddosd_path info
        else ascii ''OSDMenu built-in $HOSDSYS target'') info
     else if bc_osdmenu_mbr_config info \<noteq> 0 \<and> bc_osdmenu_auto_target info = BOOT_AUTO_CUSTOM
     then set_labels ''Custom OSDMenu MBR'' ''high''
       (if bc_osdmenu_auto_path info \<noteq> [] then bc_osdmenu_auto_path info
        else ascii ''custom target'') info
     else if bc_fhdb_config info \<noteq> 0
     then set_labels ''FHDB-compatible MBR'' ''medium''
       (if bc_legacy_osdmain info \<noteq> 0 then ascii ''hdd0:__system:pfs:/osd/osdmain.elf''
        else if bc_hddosd_boot info \<noteq> 0 then ascii ''hdd0:__system:pfs:/osd100 + __sysconf:/FMCB''
        else ascii ''hdd0:__sysconf:pfs:/FMCB (OSD stage unknown)'') info
     else if bc_hosdmenu_boot info \<noteq> 0 \<or> bc_osdmenu_mbr_config info \<noteq> 0
     then set_labels ''HOSDMenu / OSDMenu MBR'' ''high''
       (ascii ''hdd0:__system:pfs:/osdmenu/hosdmenu.elf'') info
     else if bc_psbbn_boot info \<noteq> 0 \<or> bc_psbbn_partition_count info \<ge> 4
     then set_labels ''PSBBN-compatible MBR'' ''medium''
       (ascii ''hdd0:__system:pfs:/p2lboot/osdboot.elf'') info
     else if bc_hddosd_boot info \<noteq> 0 \<or> bc_legacy_osdmain info \<noteq> 0
     then set_labels ''HDD-OSD-compatible MBR'' ''medium''
       (if bc_hddosd_boot info \<noteq> 0 then bc_hddosd_path info
        else ascii ''hdd0:__system:pfs:/osd/osdmain.elf'') info
     else set_labels ''Other / unknown KELF'' ''low'' (ascii ''not detected'') info)"

definition classify_boot_chain :: "boot_chain_info \<Rightarrow> u32 \<Rightarrow> u32 \<Rightarrow> boot_chain_info" where
  "classify_boot_chain info start sectors =
    (if (start = 0) \<noteq> (sectors = 0)
     then set_labels ''Invalid pointer state'' ''certain'' (ascii ''none safely inferable'') info
     else if start = 0 then set_labels ''No active payload'' ''certain'' (ascii ''none'') info
     else if bc_payload_read_result info < 0
     then set_labels ''Unreadable payload'' ''certain'' (ascii ''unknown'') info
     else if bc_payload_kelf_result info < 0
     then set_labels ''Other / invalid KELF'' ''high'' (ascii ''unknown'') info
     else classify_active info)"

section \<open>What a lookup returns\<close>

text \<open>The lines of a configuration file: assignments with free spacing, and comments.\<close>

datatype config_line =
    Assignment (indent: "byte list") (name: "byte list") (before: "byte list") (after: "byte list")
      (assigned: "byte list") (trailing: "byte list") (remark: "byte list")
  | Comment "byte list" "byte list"

fun line_bytes :: "config_line \<Rightarrow> byte list" where
  "line_bytes (Assignment ind k b a v t r) = ind @ k @ b @ 0x3d # a @ v @ t @ r"
| "line_bytes (Comment ind r) = ind @ r"

definition key_ok :: "byte list \<Rightarrow> bool" where
  "key_ok k \<longleftrightarrow> k \<noteq> [] \<and> hd k \<noteq> 0x23 \<and>
    (\<forall>c \<in> set k. \<not> blank_char c \<and> c \<noteq> 0x0d \<and> c \<noteq> 0x0a \<and> c \<noteq> 0x3d)"

fun line_ok :: "nat \<Rightarrow> config_line \<Rightarrow> bool" where
  "line_ok capacity (Assignment ind k b a v t r) \<longleftrightarrow>
    (\<forall>c \<in> set ind. blank_char c \<or> c = 0x0d) \<and> key_ok k \<and>
    (\<forall>c \<in> set b. blank_char c) \<and> (\<forall>c \<in> set a. blank_char c) \<and>
    (\<forall>c \<in> set v. c \<noteq> 0x23 \<and> c \<noteq> 0x0d \<and> c \<noteq> 0x0a) \<and>
    v \<noteq> [] \<and> \<not> blank_char (hd v) \<and> \<not> blank_char (last v) \<and> length v < capacity \<and>
    (\<forall>c \<in> set t. blank_char c) \<and> (r = [] \<or> hd r \<in> {0x23, 0x0d}) \<and> 0x0a \<notin> set r"
| "line_ok capacity (Comment ind r) \<longleftrightarrow>
    (\<forall>c \<in> set ind. blank_char c \<or> c = 0x0d) \<and> (r = [] \<or> hd r = 0x23) \<and> 0x0a \<notin> set r"

fun assigns :: "byte list \<Rightarrow> config_line \<Rightarrow> byte list option" where
  "assigns key (Assignment ind k b a v t r) = (if list_all2 same_nocase k key then Some v else None)"
| "assigns key (Comment ind r) = None"

definition config_text :: "config_line list \<Rightarrow> byte list" where
  "config_text ls = concat (map (\<lambda>l. line_bytes l @ [0x0a]) ls)"

fun first_assigned :: "byte list \<Rightarrow> config_line list \<Rightarrow> byte list option" where
  "first_assigned key [] = None"
| "first_assigned key (l # ls) =
    (case assigns key l of Some v \<Rightarrow> Some v | None \<Rightarrow> first_assigned key ls)"

lemma dropWhile_prefix:
  "\<forall>c \<in> set xs. P c \<Longrightarrow> ys = [] \<or> \<not> P (hd ys) \<Longrightarrow> dropWhile P (xs @ ys) = ys"
  by (induction xs) (cases ys; auto)+

lemma takeWhile_prefix:
  "\<forall>c \<in> set xs. P c \<Longrightarrow> ys = [] \<or> \<not> P (hd ys) \<Longrightarrow> takeWhile P (xs @ ys) = xs"
  by (induction xs) (cases ys; auto)+

lemma copied_value_exact:
  assumes "\<forall>c \<in> set v. c \<noteq> 0x23 \<and> c \<noteq> 0x0d" and "v \<noteq> []" and "\<not> blank_char (last v)"
    and "length v < capacity" and "\<forall>c \<in> set t. blank_char c" and "r = [] \<or> hd r \<in> {0x23, 0x0d}"
  shows "copied_value capacity (v @ t @ r) = v"
proof -
  let ?P = "\<lambda>c. c \<noteq> (0x23 :: byte) \<and> c \<noteq> 0x0d"
  have split: "take (capacity - 1) (v @ t @ r) = v @ take (capacity - 1 - length v) (t @ r)"
    using assms(4) by simp
  have t: "\<forall>c \<in> set t. ?P c" using assms(5) by (auto simp: blank_char_def)
  obtain t' where t': "takeWhile ?P (take (capacity - 1) (v @ t @ r)) = v @ t'" "\<forall>c \<in> set t'. blank_char c"
  proof -
    let ?m = "capacity - 1 - length v"
    have "takeWhile ?P (v @ take ?m (t @ r)) = v @ takeWhile ?P (take ?m (t @ r))"
      using assms(1) by (intro takeWhile_append2) auto
    moreover have "takeWhile ?P (take ?m (t @ r)) = take ?m t"
    proof (cases "length t < ?m")
      case True
      then have "take ?m (t @ r) = t @ take (?m - length t) r" by simp
      moreover have "takeWhile ?P (take (?m - length t) r) = []"
        using assms(6) True by (cases r) (auto simp: take_Cons')
      ultimately show ?thesis using t True by (simp add: takeWhile_append2)
    next
      case False
      then show ?thesis using t by (auto simp: takeWhile_eq_all_conv dest: in_set_takeD)
    qed
    ultimately show ?thesis using that [of "take ?m t"] split assms(5) by (auto dest: in_set_takeD)
  qed
  have "dropWhile blank_char (rev t' @ rev v) = rev v"
    using assms(2,3) t'(2) by (intro dropWhile_prefix) (auto simp: hd_rev)
  then show ?thesis unfolding copied_value_def t'(1) by simp
qed

lemma same_nocase_plain:
  assumes "same_nocase c d" and "blank_char c \<or> c = 0x3d"
  shows "d = c"
proof -
  have "\<not> is_upper c" "\<not> is_upper d \<Longrightarrow> d = c"
    using assms unfolding blank_char_def is_upper_def same_nocase_def ascii_lower_def by auto
  moreover have "\<not> is_upper d"
  proof
    assume up: "is_upper d"
    then have d: "65 \<le> unat d" "unat d \<le> 90" by (simp_all add: is_upper_def word_le_nat_alt)
    have "unat (d - 0x41 + 0x61) = unat d + 32"
      using d by (simp add: unat_word_ariths unat_sub_if_size)
    moreover have "d - 0x41 + 0x61 = c"
      using assms up \<open>\<not> is_upper c\<close> by (simp add: same_nocase_def ascii_lower_def)
    ultimately have "unat c = unat d + 32" by simp
    then show False using assms(2) d by (auto simp: blank_char_def)
  qed
  ultimately show ?thesis by blast
qed

text \<open>A key only matches a whole name.\<close>

lemma key_match:
  assumes k: "key_ok k" and key: "key_ok key" and x: "blank_char x \<or> x = 0x3d"
  shows "length key \<le> length (k @ x # rest) \<and>
      list_all2 same_nocase (take (length key) (k @ x # rest)) key \<and>
      (dropWhile blank_char (drop (length key) (k @ x # rest)) \<noteq> [] \<and>
       hd (dropWhile blank_char (drop (length key) (k @ x # rest))) = 0x3d) \<longleftrightarrow>
    list_all2 same_nocase k key \<and> (dropWhile blank_char (x # rest) \<noteq> [] \<and>
       hd (dropWhile blank_char (x # rest)) = 0x3d)"
proof (cases "length key" "length k" rule: linorder_cases)
  case less
  have "drop (length key) (k @ x # rest) = drop (length key) k @ x # rest" using less by simp
  moreover obtain c cs where c: "drop (length key) k = c # cs" using less by (cases "drop (length key) k") auto
  moreover have "c \<in> set k" by (metis c in_set_dropD list.set_intros(1))
  ultimately have "hd (dropWhile blank_char (drop (length key) (k @ x # rest))) \<noteq> 0x3d"
    using k by (simp add: key_ok_def)
  then show ?thesis using less by (auto dest: list_all2_lengthD)
next
  case equal
  then show ?thesis by simp
next
  case greater
  have "\<not> list_all2 same_nocase (take (length key) (k @ x # rest)) key"
  proof
    assume all: "list_all2 same_nocase (take (length key) (k @ x # rest)) key"
    then have "length (take (length key) (k @ x # rest)) = length key" by (rule list_all2_lengthD)
    then have "same_nocase (take (length key) (k @ x # rest) ! length k) (key ! length k)"
      using all greater by (simp add: list_all2_conv_all_nth)
    then have "same_nocase x (key ! length k)" using greater by (simp add: nth_append)
    then have "key ! length k = x" using x by (rule same_nocase_plain)
    then show False using key x greater nth_mem [of "length k" key] by (auto simp: key_ok_def)
  qed
  then show ?thesis using greater by (auto dest: list_all2_lengthD)
qed

lemma line_value_line:
  assumes "line_ok capacity l" and key: "key_ok key"
  shows "line_value (line_bytes l) key capacity = assigns key l"
proof (cases l)
  case (Comment ind r)
  have "dropWhile (\<lambda>c. blank_char c \<or> c = 0x0d) (ind @ r) = r"
    using assms(1) by (intro dropWhile_prefix) (auto simp: Comment blank_char_def)
  then show ?thesis using assms(1) by (auto simp: Comment line_value_def Let_def)
next
  case (Assignment ind k b a v t r)
  let ?x = "hd (b @ [0x3d])" and ?tail = "tl (b @ [0x3d]) @ a @ v @ t @ r"
  note ok = assms(1) [unfolded Assignment line_ok.simps]
  have k: "k \<noteq> []" "key_ok k" "hd k \<noteq> 0x23" "\<not> blank_char (hd k)" "hd k \<noteq> 0x0d"
    using ok by (auto simp: key_ok_def)
  have x: "blank_char ?x \<or> ?x = 0x3d" using ok by (cases b) auto
  have join: "k @ b @ 0x3d # a @ v @ t @ r = k @ ?x # ?tail" by (cases b) simp_all
  have cursor: "dropWhile (\<lambda>c. blank_char c \<or> c = 0x0d) (line_bytes l) = k @ ?x # ?tail"
    unfolding Assignment line_bytes.simps join using ok k by (intro dropWhile_prefix) auto
  have "dropWhile blank_char (b @ 0x3d # a @ v @ t @ r) = 0x3d # a @ v @ t @ r"
    using ok by (intro dropWhile_prefix) (auto simp: blank_char_def)
  moreover have "b @ 0x3d # a @ v @ t @ r = ?x # ?tail" by (cases b) simp_all
  ultimately have eq: "dropWhile blank_char (?x # ?tail) = 0x3d # a @ v @ t @ r" by simp
  have val: "copied_value capacity (dropWhile blank_char (a @ v @ t @ r)) = v"
  proof -
    have "dropWhile blank_char (a @ v @ t @ r) = v @ t @ r"
      using ok by (intro dropWhile_prefix) auto
    then show ?thesis using ok copied_value_exact [of v capacity t r] by auto
  qed
  note match = key_match [OF k(2) key x, of ?tail]
  show ?thesis
  proof (cases "list_all2 same_nocase k key")
    case True
    then have len: "length k = length key" by (rule list_all2_lengthD)
    have "take (length key) (k @ ?x # ?tail) = k" "drop (length key) (k @ ?x # ?tail) = ?x # ?tail"
      using len by simp_all
    then show ?thesis
      using True k len eq val unfolding line_value_def cursor Let_def by (simp add: Assignment)
  next
    case False
    have "line_value (line_bytes l) key capacity = None"
      unfolding line_value_def cursor Let_def using match False by auto
    then show ?thesis using False by (simp add: Assignment)
  qed
qed

lemma line_no_newline: "line_ok capacity l \<Longrightarrow> 0x0a \<notin> set (line_bytes l)"
  by (cases l) (auto simp: blank_char_def key_ok_def)

lemma config_lookup:
  assumes "\<forall>l \<in> set ls. line_ok capacity l" and "key_ok key" and "0 < capacity"
  shows "config_value (config_text ls) key capacity =
    (case first_assigned key ls of Some v \<Rightarrow> (True, v) | None \<Rightarrow> (False, []))"
  using assms(1)
proof (induction ls)
  case Nil
  show ?case by (subst config_value.simps) (simp add: config_text_def)
next
  case (Cons l ls)
  have join: "config_text (l # ls) = line_bytes l @ 0x0a # config_text ls"
    by (simp add: config_text_def)
  have no: "0x0a \<notin> set (line_bytes l)" using line_no_newline Cons.prems by auto
  have "takeWhile (\<lambda>c. c \<noteq> 0x0a) (config_text (l # ls)) = line_bytes l"
    unfolding join using no by (intro takeWhile_prefix) auto
  moreover have "dropWhile (\<lambda>c. c \<noteq> 0x0a) (config_text (l # ls)) = 0x0a # config_text ls"
    unfolding join using no by (intro dropWhile_prefix) auto
  moreover have "line_value (line_bytes l) key capacity = assigns key l"
    using Cons.prems assms(2) by (intro line_value_line) auto
  moreover have "config_text (l # ls) \<noteq> []" by (simp add: join)
  ultimately show ?case
    using Cons assms(3) by (subst config_value.simps) (auto simp: Let_def split: option.splits)
qed

section \<open>Properties\<close>

text \<open>
  Property C26: a lookup in any configuration file of comments and assignments, with free spacing,
  carriage returns and remarks, returns the value of the first line whose whole name is the key,
  ignoring case, without surrounding blanks or remark; it finds nothing if no line has that name.
\<close>

theorem config_lookup_exact:
  assumes "\<forall>l \<in> set ls. line_ok capacity l" and "key_ok key" and "0 < capacity"
  shows "config_value (config_text ls) key capacity =
    (case first_assigned key ls of Some v \<Rightarrow> (True, v) | None \<Rightarrow> (False, []))"
  using assms by (rule config_lookup)

lemma sample_config: "\<forall>l \<in> set [Comment [] (ascii ''# test''),
    Assignment [0x20] (ascii ''boot_auto_x'') [] [] (ascii ''1'') [] [],
    Assignment [] (ascii ''Boot_Auto'') [0x20] [0x20] (ascii ''$PSBBN'') [0x20] (ascii ''# old'')].
  line_ok 32 l" "key_ok (ascii ''boot_auto'')"
  by code_simp+

theorem config_lookup_exact_witness:
  "config_value (config_text [Comment [] (ascii ''# test''),
    Assignment [0x20] (ascii ''boot_auto_x'') [] [] (ascii ''1'') [] [],
    Assignment [] (ascii ''Boot_Auto'') [0x20] [0x20] (ascii ''$PSBBN'') [0x20] (ascii ''# old'')])
    (ascii ''boot_auto'') 32 = (True, ascii ''$PSBBN'')"
proof -
  have found: "first_assigned (ascii ''boot_auto'') [Comment [] (ascii ''# test''),
    Assignment [0x20] (ascii ''boot_auto_x'') [] [] (ascii ''1'') [] [],
    Assignment [] (ascii ''Boot_Auto'') [0x20] [0x20] (ascii ''$PSBBN'') [0x20] (ascii ''# old'')] =
    Some (ascii ''$PSBBN'')" by code_simp
  show ?thesis
    unfolding config_lookup_exact [OF sample_config zero_less_numeral] found option.case ..
qed

end
