(* ===== verification/BootReport.thy ===== *)
theory BootReport
  imports SessionLog BootChain Sha256
begin

text \<open>
  The text of \<open>BOOTCHAIN.TXT\<close> and its file: \<open>src/boot_report.c\<close>, \<open>src/boot_report_session.c\<close> and
  \<open>src/boot_report_ps2.c\<close>.  The report is the list of the pieces the code appends one by one to a
  bounded buffer.
\<close>

section \<open>The pieces of a report\<close>

abbreviation line_end :: "string \<Rightarrow> format_item" where "line_end s \<equiv> Str (ascii s @ [0x0a])"

definition report_folders :: "string list" where
  "report_folders = [''BIEXEC-SYSTEM'', ''BAEXEC-SYSTEM'', ''BEEXEC-SYSTEM'', ''BCEXEC-SYSTEM'']"

definition report_modules :: "string list" where
  "report_modules = [''hddload.irx'', ''dev9.irx'', ''atad.irx'']"

definition report_config_names :: "string list" where
  "report_config_names =
    [''mc0:/SYS-CONF/FREEMCB.CNF'', ''mc1:/SYS-CONF/FREEMCB.CNF'', ''mass:/FREEMCB.CNF'']"

definition report_heading ::
    "boot_chain_info \<Rightarrow> u32 \<Rightarrow> u32 \<Rightarrow> byte list \<Rightarrow> byte list \<Rightarrow> format_item list list" where
  "report_heading info start sectors app_name app_version =
    [[line_end ''PS2 HDD BOOT CHAIN REPORT'', Lit ''Generated by '', Str app_name, Lit '' v'', Str app_version,
      newline, newline],
     [line_end ''CONSOLE'', Lit ''ROMVER: '',
      Str (if bc_romver info \<noteq> [] then bc_romver info else ascii ''unavailable''), newline,
      Lit ''Expected regional system folder: '', Str (bc_expected_system_folder info), newline, newline],
     [line_end ''APA MBR'', line_end ''Header validation: valid'',
      Lit ''osdStart: 0x'', PadHex 8 (unat start), newline,
      Lit ''osdSize:  0x'', PadHex 8 (unat sectors), line_end '' sectors'', Lit ''Pointer state: '',
      Lit (if bc_pointer_consistent info
        then (if start = 0 then ''disabled'' else ''enabled and consistent'')
        else ''INCONSISTENT (only one field is zero)''), newline, newline]]"

definition report_payload :: "boot_chain_info \<Rightarrow> u32 \<Rightarrow> u32 \<Rightarrow> format_item list list" where
  "report_payload info start sectors =
    [line_end ''ACTIVE PAYLOAD''] #
    (if start = 0 \<and> sectors = 0
     then [[line_end ''State: not read because the bootstrap pointer is disabled'']]
     else [Lit ''Read result: '', Dec (bc_payload_read_result info), newline,
         Lit ''Sector image bytes: '', Uns (unat (bc_payload_bytes info)), newline,
         Lit ''KELF validation result: '', Dec (bc_payload_kelf_result info), newline,
         Lit ''Unpadded KELF bytes: '', Uns (unat (bc_kelf_file_bytes info)), newline] #
       (if bc_payload_read_result info = 0
        then [[Lit ''Sector-image SHA-256: '', Lit (sha256_hex (bc_payload_sha256 info)), newline]] else []) @
       (if bc_payload_kelf_result info = 0
        then [[Lit ''Unpadded KELF SHA-256: '', Lit (sha256_hex (bc_kelf_sha256 info)), newline]] else [])) @
    [[Lit ''Probable family: '', Str (bc_family info), newline,
      Lit ''Confidence: '', Str (bc_confidence info), newline,
      Lit ''Probable next stage: '', Str (bc_next_stage info), newline,
      Lit ''Identification method: KELF structure plus downstream filesystem evidence. '',
      line_end ''Encrypted payload identity is not claimed from plaintext strings.'', newline]]"

definition skip_state :: "int \<Rightarrow> string" where
  "skip_state v = (if v = 1 then ''ON'' else if v = 0 then ''OFF''
    else if v = - 1 then ''file not found'' else ''setting unavailable'')"

definition report_configuration :: "boot_chain_info \<Rightarrow> format_item list list" where
  "report_configuration info = [line_end ''FMCB CONFIGURATION''] #
    map (\<lambda>i. [Lit (report_config_names ! i), Lit '' -> Skip_HDD: '',
      Lit (skip_state (bc_skip_hdd info ! i)), newline]) [0..<3]"

definition report_folder :: "boot_chain_info \<Rightarrow> nat \<Rightarrow> nat \<Rightarrow> format_item list list" where
  "report_folder info port i =
    (if bit (bc_mc_folder_mask info ! port) i
     then [Lit ''  folder: '', Lit (report_folders ! i), newline] #
       concat (map (\<lambda>m. if bit (bc_mc_folder_module_mask info ! port ! i) m
         then [[Lit ''    '', Lit (report_modules ! m), newline]] else []) [0..<3])
     else [])"

definition report_cards :: "boot_chain_info \<Rightarrow> format_item list list" where
  "report_cards info = [newline, line_end ''MEMORY-CARD HDD MODULES''] #
    concat (map (\<lambda>port. [Lit ''mc'', Uns port, Lit '': '', Dec (bc_mc_module_count info ! port),
        line_end '' module file(s) detected''] # concat (map (report_folder info port) [0..<4])) [0..<2])"

definition shown :: "int \<Rightarrow> format_item" where
  "shown flag = (if flag \<noteq> 0 then Lit ''present'' else Lit ''not found'')"

definition text_or :: "byte list \<Rightarrow> format_item" where
  "text_or s = (if s \<noteq> [] then Str s else Lit ''unavailable'')"

definition report_evidence :: "boot_chain_info \<Rightarrow> format_item list list" where
  "report_evidence info =
    [[newline, line_end ''DOWNSTREAM HDD EVIDENCE'',
      Lit ''__sysconf mount result: '', Dec (bc_sysconf_mount_result info), newline,
      Lit ''__system mount result: '', Dec (bc_system_mount_result info), newline,
      Lit ''FHDB FREEHDB.CNF: '',
      (if bc_fhdb_config info \<noteq> 0 then Str (bc_fhdb_config_path info) else Lit ''not found''), newline,
      Lit ''FHDB BOOT.ELF: '', shown (bc_fhdb_boot_elf info), newline,
      Lit ''FHDB LK_Auto target: '', text_or (bc_fhdb_auto_path info), newline,
      Lit ''OSDMBR.CNF: '', shown (bc_osdmenu_mbr_config info), newline,
      Lit ''OSDMBR boot_auto target: '',
      Lit (if bc_osdmenu_auto_target info = BOOT_AUTO_PSBBN then ''$PSBBN''
        else if bc_osdmenu_auto_target info = BOOT_AUTO_HOSDSYS then ''$HOSDSYS''
        else if bc_osdmenu_auto_target info = BOOT_AUTO_CUSTOM then ''custom'' else ''unavailable''), newline,
      Lit ''OSDMBR boot_auto value: '', text_or (bc_osdmenu_auto_path info), newline,
      Lit ''PSBBN osdboot.elf: '', shown (bc_psbbn_boot info), newline,
      Lit ''PSBBN characteristic partitions: '', Dec (bc_psbbn_partition_count info), line_end ''/8'',
      Lit ''HOSDMenu executable: '', shown (bc_hosdmenu_boot info), newline,
      Lit ''HDD-OSD osd100 executable: '',
      (if bc_hddosd_boot info \<noteq> 0 then Str (bc_hddosd_path info) else Lit ''not found''), newline,
      Lit ''Legacy osdmain.elf: '', shown (bc_legacy_osdmain info), newline, newline]]"

datatype assessment = Inconsistent_pointer | Unreadable_payload | Invalid_payload
  | Nothing_downstream | No_contradiction

definition assess :: "boot_chain_info \<Rightarrow> u32 \<Rightarrow> assessment" where
  "assess info start =
    (if \<not> bc_pointer_consistent info then Inconsistent_pointer
     else if start \<noteq> 0 \<and> bc_payload_read_result info < 0 then Unreadable_payload
     else if start \<noteq> 0 \<and> bc_payload_kelf_result info < 0 then Invalid_payload
     else if start \<noteq> 0 \<and> bc_fhdb_config info = 0 \<and> bc_psbbn_boot info = 0 \<and>
         bc_hosdmenu_boot info = 0 \<and> bc_hddosd_boot info = 0 \<and> bc_legacy_osdmain info = 0
     then Nothing_downstream else No_contradiction)"

fun assessment_text :: "assessment \<Rightarrow> format_item list" where
  "assessment_text Inconsistent_pointer = [Lit ''CRITICAL: osdStart/osdSize are inconsistent. Do not '',
    line_end ''attempt a payload restore until a header backup exists.'']"
| "assessment_text Unreadable_payload = [Lit ''CRITICAL: The ROM pointer is enabled but the referenced '',
    line_end ''payload could not be read safely.'']"
| "assessment_text Invalid_payload = [Lit ''WARNING: The active sector image does not contain a '',
    line_end ''structurally valid KELF at its beginning.'']"
| "assessment_text Nothing_downstream = [Lit ''WARNING: A valid-looking active payload exists, but no '',
    line_end ''recognized downstream environment was found.'']"
| "assessment_text No_contradiction = [Lit ''No structural contradiction was found in the observed '',
    line_end ''boot chain.'']"

definition report_assessment :: "boot_chain_info \<Rightarrow> u32 \<Rightarrow> format_item list list" where
  "report_assessment info start =
    [[line_end ''ASSESSMENT''], assessment_text (assess info start)] @
    (if (bc_mc_module_count info ! 0 > 0 \<or> bc_mc_module_count info ! 1 > 0) \<and>
        (bc_skip_hdd info ! 0 = 1 \<or> bc_skip_hdd info ! 1 = 1)
     then [[Lit ''NOTE: External HDD modules are present. Some FMCB setups '',
       Lit ''can load the HDD even when Skip_HDD is ON. Back up and '',
       Lit ''remove hddload.irx, dev9.irx, and atad.irx from the '',
       line_end ''active regional folder if HDD loading persists.'']]
     else [])"

definition report_pieces ::
    "boot_chain_info \<Rightarrow> u32 \<Rightarrow> u32 \<Rightarrow> byte list \<Rightarrow> byte list \<Rightarrow> format_item list list" where
  "report_pieces info start sectors app_name app_version =
    report_heading info start sectors app_name app_version @ report_payload info start sectors @
    report_configuration info @ report_cards info @ report_evidence info @ report_assessment info start"

definition boot_report_render ::
    "nat \<Rightarrow> boot_chain_info \<Rightarrow> u32 \<Rightarrow> u32 \<Rightarrow> byte list \<Rightarrow> byte list \<Rightarrow> byte list" where
  "boot_report_render capacity info start sectors app_name app_version =
    append_all capacity [] (report_pieces info start sectors app_name app_version)"

text \<open>The rendered report is the beginning of the whole text that fits with a terminator.\<close>

lemma boot_report_exact:
  "boot_report_render capacity info start sectors app_name app_version =
    take (capacity - 1) (format_items (concat (report_pieces info start sectors app_name app_version)))"
  using append_all_cut [of capacity "[]"] by (simp add: boot_report_render_def)

section \<open>The session's report\<close>

abbreviation (input) BOOT_REPORT_SIZE :: nat where "BOOT_REPORT_SIZE \<equiv> 16384"
abbreviation (input) REPORT_SAVE_NOT_TRIED :: int where "REPORT_SAVE_NOT_TRIED \<equiv> 999999"

record report_session =
  report_text :: "byte list"
  report_save_result :: int

definition boot_report_session_render ::
    "boot_chain_info \<Rightarrow> u32 \<Rightarrow> u32 \<Rightarrow> byte list \<Rightarrow> byte list \<Rightarrow> report_session \<Rightarrow> report_session" where
  "boot_report_session_render info start sectors app_name app_version rs =
    rs\<lparr>report_text := boot_report_render BOOT_REPORT_SIZE info start sectors app_name app_version\<rparr>"

definition report_path :: "nat \<Rightarrow> path" where
  "report_path storage = storage_path 64 storage (ascii ''BOOTCHAIN.TXT'')"

definition boot_report_save ::
    "'f platform \<Rightarrow> nat \<Rightarrow> byte list \<Rightarrow> 'f file_world \<Rightarrow> int \<times> 'f file_world" where
  "boot_report_save api storage report w =
    (if storage \<ge> STORAGE_TARGET_COUNT \<or> report = [] then (- 1, w)
     else retry (if storage = 2 then USB_WRITE_ATTEMPTS - 1 else 0)
       (write_whole_file api (report_path storage) report) w)"

definition boot_report_session_save ::
    "'f platform \<Rightarrow> nat \<Rightarrow> report_session \<Rightarrow> 'f file_world \<Rightarrow> int \<times> report_session \<times> 'f file_world" where
  "boot_report_session_save api storage rs w =
    (if report_text rs = [] then (- 1, rs, w)
     else let (result, w1) = boot_report_save api storage (report_text rs) w in
       (result, rs\<lparr>report_save_result := result\<rparr>, w1))"

context file_store
begin

lemma report_save_effect:
  assumes "boot_report_save api storage report w = (r, w')"
  shows "q \<noteq> report_path storage \<Longrightarrow> stored w' q = stored w q"
    and "r = 0 \<Longrightarrow> stored w' (report_path storage) = Some report"
proof -
  assume q: "q \<noteq> report_path storage"
  show "stored w' q = stored w q"
  proof (cases "storage \<ge> STORAGE_TARGET_COUNT \<or> report = []")
    case True
    then show ?thesis using assms by (simp add: boot_report_save_def)
  next
    case False
    then have "retry (if storage = 2 then USB_WRITE_ATTEMPTS - 1 else 0)
        (write_whole_file api (report_path storage) report) w = (r, w')"
      using assms unfolding boot_report_save_def if_not_P [OF False] by blast
    then show ?thesis
      by (rule retry_induct [where P = "\<lambda>v. stored v q = stored w q"])
        (simp_all add: write_whole_file_effect(1) [OF _ q])
  qed
next
  assume r: "r = 0"
  then have False: "\<not> (storage \<ge> STORAGE_TARGET_COUNT \<or> report = [])"
    using assms by (auto simp: boot_report_save_def)
  have "retry (if storage = 2 then USB_WRITE_ATTEMPTS - 1 else 0)
      (write_whole_file api (report_path storage) report) w = (r, w')"
    using assms unfolding boot_report_save_def if_not_P [OF False] by blast
  from retry_result [OF this] obtain v where "write_whole_file api (report_path storage) report v = (0, w')"
    using r by blast
  from write_whole_file_effect(2) [OF this refl] show "stored w' (report_path storage) = Some report" .
qed

lemma report_session_effect:
  assumes "boot_report_session_save api storage rs w = (r, rs', w')" and "q \<noteq> report_path storage"
  shows "stored w' q = stored w q"
  using assms report_save_effect(1)
  by (auto simp: boot_report_session_save_def split: prod.splits if_splits)

end

end
