(* ===== verification/BootEvidence.thy ===== *)
theory BootEvidence
  imports BootChain HddTransport ApaRepair Kelf Sha256_Correct
begin

text \<open>
  The active payload as evidence, and the recommendation drawn from it: \<open>src/boot_payload.c\<close>,
  \<open>src/boot_payload_ps2.c\<close>, \<open>src/repair_health.c\<close>, and the signing step \<open>src/bootstrap_signing.c\<close>, whose
  MagicGate call is a parameter.  The lemmas show what the evidence says of the payload on the disk
  and exactly when clearing the boot pointer is recommended.
\<close>

section \<open>Fingerprints\<close>

text \<open>The values of the enumerations of \<open>kelf.h\<close>.\<close>

fun kelf_image_code :: "kelf_image_result \<Rightarrow> int" where
  "kelf_image_code KELF_IMAGE_VALID = 0"
| "kelf_image_code KELF_IMAGE_ERR_TOO_SMALL = - 1"
| "kelf_image_code KELF_IMAGE_ERR_SIZE_FIELDS = - 2"
| "kelf_image_code KELF_IMAGE_ERR_CALCULATED_SIZE = - 3"
| "kelf_image_code KELF_IMAGE_ERR_LAYOUT = - 4"

fun kelf_validation_code :: "kelf_validation_result \<Rightarrow> int" where
  "kelf_validation_code KELF_VALID = 0"
| "kelf_validation_code KELF_ERR_TOO_SMALL = - 1"
| "kelf_validation_code KELF_ERR_PLAIN_ELF = - 2"
| "kelf_validation_code KELF_ERR_HEADER_SIZE = - 3"
| "kelf_validation_code KELF_ERR_BIT_COUNT = - 4"
| "kelf_validation_code KELF_ERR_FILE_SIZE = - 5"
| "kelf_validation_code KELF_ERR_BIT_TABLE = - 6"
| "kelf_validation_code KELF_ERR_VARIABLE_SECTION = - 7"
| "kelf_validation_code KELF_ERR_KEY_AREA = - 8"

text \<open>The payload is \<open>None\<close> for a null pointer.\<close>

definition boot_payload_fingerprint ::
    "boot_chain_info \<Rightarrow> byte list option \<Rightarrow> u32 \<Rightarrow> boot_chain_info" where
  "boot_payload_fingerprint info payload payload_bytes =
    (let info = info\<lparr>bc_payload_bytes := 0, bc_kelf_file_bytes := 0, bc_payload_kelf_result := - 1,
           bc_payload_sha256 := replicate 32 0, bc_kelf_sha256 := replicate 32 0\<rparr> in
     case payload of
       None \<Rightarrow> info
     | Some data \<Rightarrow>
         (if payload_bytes = 0 then info
          else let (result, file_bytes) = kelf_size_from_disk_image data payload_bytes 0;
                   info = info\<lparr>bc_payload_bytes := payload_bytes,
                     bc_payload_sha256 := sha256_buffer (take (unat payload_bytes) data),
                     bc_payload_kelf_result := kelf_image_code result,
                     bc_kelf_file_bytes := file_bytes\<rparr> in
            if result = KELF_IMAGE_VALID
            then info\<lparr>bc_kelf_sha256 := sha256_buffer (take (unat file_bytes) data)\<rparr>
            else info))"

definition scan_active_payload_evidence ::
    "'d hdd_driver \<Rightarrow> bool \<Rightarrow> boot_chain_info \<Rightarrow> u32 \<Rightarrow> u32 \<Rightarrow> 'd hdd_world
      \<Rightarrow> boot_chain_info \<times> 'd hdd_world" where
  "scan_active_payload_evidence drv alloc_ok info start sectors w =
    (let info = info\<lparr>bc_pointer_consistent := ((start = 0) = (sectors = 0)),
           bc_payload_read_result := - 1, bc_payload_kelf_result := - 1\<rparr> in
     if start = 0 \<or> sectors = 0 then (info, w)
     else let (result, w1) = hdd_validate_payload_bounds drv start sectors w in
       if result < 0 then (info\<lparr>bc_payload_read_result := result\<rparr>, w1)
       else (case hdd_read_payload_image drv alloc_ok start sectors w1 of
           (Inl code, w2) \<Rightarrow> (info\<lparr>bc_payload_read_result := code\<rparr>, w2)
         | (Inr payload, w2) \<Rightarrow>
             (boot_payload_fingerprint (info\<lparr>bc_payload_read_result := 0\<rparr>) (Some payload)
               (sectors * HDD_SECTOR_SIZE), w2)))"

section \<open>Signing\<close>

datatype bootstrap_signing_stage = BOOTSTRAP_SIGNING_STAGE_NONE
  | BOOTSTRAP_SIGNING_STAGE_MAGICGATE | BOOTSTRAP_SIGNING_STAGE_KELF

record bootstrap_signing_result =
  signing_stage :: bootstrap_signing_stage
  signing_code :: int

text \<open>
  \<open>secr_download port slot payload\<close> is the payload as \<open>SecrDownloadFile\<close> leaves it, or \<open>None\<close> when it
  returns a null pointer.
\<close>

definition bootstrap_signing_sign ::
    "(int \<Rightarrow> int \<Rightarrow> byte list \<Rightarrow> byte list option) \<Rightarrow> int \<Rightarrow> byte list \<Rightarrow> u32
      \<Rightarrow> int \<times> bootstrap_signing_result \<times> byte list" where
  "bootstrap_signing_sign secr_download port payload payload_size =
    (let result = \<lparr>signing_stage = BOOTSTRAP_SIGNING_STAGE_NONE, signing_code = 0\<rparr> in
     if payload_size = 0 \<or> port < 0 \<or> port > 1
     then (- 1, result\<lparr>signing_stage := BOOTSTRAP_SIGNING_STAGE_MAGICGATE\<rparr>, payload)
     else (case secr_download (2 + port) 0 payload of
         None \<Rightarrow> (- 1, result\<lparr>signing_stage := BOOTSTRAP_SIGNING_STAGE_MAGICGATE, signing_code := 0\<rparr>,
           payload)
       | Some out \<Rightarrow>
           let code = kelf_validation_code (kelf_validate_layout out payload_size) in
           if code < 0
           then (code, \<lparr>signing_stage = BOOTSTRAP_SIGNING_STAGE_KELF, signing_code = code\<rparr>, out)
           else (0, result, out)))"

section \<open>The recommendation\<close>

record repair_health =
  header_plan :: apa_repair_plan
  health_osd_start :: u32
  health_osd_size :: u32
  health_bounds_result :: int
  clear_recommended :: bool

definition repair_health_assess ::
    "byte list \<Rightarrow> boot_chain_info option \<Rightarrow> int \<Rightarrow> repair_health" where
  "repair_health_assess header boot_chain bounds_result =
    (let plan = apa_repair_analyze header;
         start = read_le32 header APA_OSD_START_OFFSET; size = read_le32 header APA_OSD_SIZE_OFFSET;
         payload_bad = (case boot_chain of None \<Rightarrow> False
           | Some info \<Rightarrow> bc_payload_read_result info < 0 \<or> bc_payload_kelf_result info < 0);
         clear = (if (start = 0) \<noteq> (size = 0) then True
           else if start \<noteq> 0 then bounds_result < 0 \<or> payload_bad else False) in
     \<lparr>header_plan = plan, health_osd_start = start, health_osd_size = size,
      health_bounds_result = bounds_result,
      clear_recommended = (clear \<or> pointer_clear_recommended plan)\<rparr>)"

section \<open>Lemmas\<close>

lemma bounds_events:
  "hdd_validate_payload_bounds drv start sectors w = (r, w') \<Longrightarrow> events w' = events w"
  by (auto simp: hdd_validate_payload_bounds_def record_error_def Let_def split: if_splits prod.splits)

lemma read_loop_error:
  "read_image_loop drv start sectors so payload w = (Inl code, w') \<Longrightarrow> code < 0"
proof (induction drv start sectors so payload w rule: read_image_loop.induct)
  case (1 drv start n so payload w)
  obtain result buffer w1 where c: "hdd_read_raw_sectors drv (start + so)
      (if n - so > 2 then 2 else n - so) w = (result, buffer, w1)" by (metis prod_cases3)
  show ?case
  proof (cases "so < n \<and> \<not> result < 0")
    case True
    then show ?thesis
      using 1(1) [OF _ refl refl refl] 1(2) c read_image_loop.simps [of drv start n so payload w]
      by (simp add: Let_def)
  next
    case False
    then show ?thesis
      using 1(2) c read_image_loop.simps [of drv start n so payload w]
      by (auto simp: Let_def split: if_splits)
  qed
qed

lemma read_image_error:
  "hdd_read_payload_image drv alloc_ok start sectors w = (Inl code, w') \<Longrightarrow> code < 0"
  by (auto simp: hdd_read_payload_image_def dest: read_loop_error split: if_splits)

lemma consider_keeps_clear:
  "pointer_clear_recommended (consider_identity i plan) = pointer_clear_recommended plan"
  "pointer_clear_recommended (consider_anchors i plan) = pointer_clear_recommended plan"
  "pointer_clear_recommended (consider_checksum header plan) = pointer_clear_recommended plan"
  by (simp_all add: consider_identity_def consider_anchors_def consider_checksum_def Let_def)

lemma plan_clear: "pointer_clear_recommended (apa_repair_analyze header) \<longleftrightarrow>
    (read_le32 header APA_OSD_START_OFFSET = 0) \<noteq> (read_le32 header APA_OSD_SIZE_OFFSET = 0)"
proof -
  obtain a b c d where "scan_identity header = (a, b)" "scan_anchors header = (c, d)" by (metis surj_pair)
  then show ?thesis
    unfolding apa_repair_analyze_def Let_def by (simp add: consider_keeps_clear)
qed

lemma image_code_valid: "kelf_image_code r \<ge> 0 \<longleftrightarrow> r = KELF_IMAGE_VALID"
  by (cases r) auto

lemma fingerprint_facts:
  assumes "payload_bytes \<noteq> 0" and "info' = boot_payload_fingerprint info (Some img) payload_bytes"
  shows "bc_payload_sha256 info' = sha256_buffer (take (unat payload_bytes) img)"
    and "bc_payload_bytes info' = payload_bytes"
    and "bc_payload_read_result info' = bc_payload_read_result info"
    and "0 \<le> bc_payload_kelf_result info' \<Longrightarrow> unat (bc_kelf_file_bytes info') \<le> unat payload_bytes \<and>
      kelf_well_formed img (unat (bc_kelf_file_bytes info')) \<and>
      bc_kelf_sha256 info' = sha256_buffer (take (unat (bc_kelf_file_bytes info')) img)"
proof -
  obtain r n where k: "kelf_size_from_disk_image img payload_bytes 0 = (r, n)" by fastforce
  note out = assms(2) [unfolded boot_payload_fingerprint_def Let_def option.case k prod.case]
  show "bc_payload_sha256 info' = sha256_buffer (take (unat payload_bytes) img)"
    and "bc_payload_bytes info' = payload_bytes"
    and "bc_payload_read_result info' = bc_payload_read_result info"
    using assms(1) out by (simp_all split: if_splits)
  assume "0 \<le> bc_payload_kelf_result info'"
  then have r: "r = KELF_IMAGE_VALID"
    using assms(1) out image_code_valid [of r] by (auto split: if_splits)
  then have "n \<le> payload_bytes" "kelf_well_formed img (unat n)"
    using k kelf_size_iff kelf_valid_arith by auto
  then show "unat (bc_kelf_file_bytes info') \<le> unat payload_bytes \<and>
      kelf_well_formed img (unat (bc_kelf_file_bytes info')) \<and>
      bc_kelf_sha256 info' = sha256_buffer (take (unat (bc_kelf_file_bytes info')) img)"
    using assms(1) out r by (simp add: word_le_nat_alt)
qed

lemma scan_evidence:
  assumes "scan_active_payload_evidence drv alloc_ok info start sectors w = (info', w')"
  shows "\<exists>evs. events w' = events w @ evs \<and> only is_read evs \<and>
    (start \<noteq> 0 \<and> sectors \<noteq> 0 \<and> 0 \<le> bc_payload_read_result info' \<longrightarrow>
      (\<exists>img. length img = 512 * unat sectors \<and>
        bc_payload_sha256 info' = sha256_spec img \<and>
        (0 \<le> bc_payload_kelf_result info' \<longrightarrow>
          kelf_well_formed img (unat (bc_kelf_file_bytes info')) \<and>
          bc_kelf_sha256 info' = sha256_spec (take (unat (bc_kelf_file_bytes info')) img))))"
proof (cases "start = 0 \<or> sectors = 0")
  case True
  then show ?thesis using assms by (auto simp: scan_active_payload_evidence_def Let_def)
next
  case active: False
  define info0 where "info0 = info\<lparr>bc_pointer_consistent := ((start = 0) = (sectors = 0)),
    bc_payload_read_result := - 1, bc_payload_kelf_result := - 1\<rparr>"
  obtain b w1 where b: "hdd_validate_payload_bounds drv start sectors w = (b, w1)" by fastforce
  obtain r w2 where r: "hdd_read_payload_image drv alloc_ok start sectors w1 = (r, w2)" by fastforce
  have ev1: "events w1 = events w" by (rule bounds_events [OF b])
  obtain evs where evs: "events w2 = events w @ evs" "only is_read evs"
    and img_ok: "\<And>img. r = Inr img \<Longrightarrow> sectors \<noteq> 0 \<and> sectors \<le> 8192 \<and> length img = 512 * unat sectors"
    using read_image_reads [OF r] ev1 by auto
  have run: "(info', w') = (if b < 0 then (info0\<lparr>bc_payload_read_result := b\<rparr>, w1)
      else case r of Inl code \<Rightarrow> (info0\<lparr>bc_payload_read_result := code\<rparr>, w2)
        | Inr payload \<Rightarrow> (boot_payload_fingerprint (info0\<lparr>bc_payload_read_result := 0\<rparr>) (Some payload)
            (sectors * 512), w2))"
    using assms active
    unfolding scan_active_payload_evidence_def Let_def info0_def [symmetric] b prod.case r
    by (cases r) auto
  show ?thesis
  proof (cases "b < 0")
    case True
    then show ?thesis using run ev1 by (intro exI [of _ "[]"]) simp
  next
    case False
    show ?thesis
    proof (cases r)
      case (Inl code)
      then have "code < 0" using r read_image_error by blast
      then show ?thesis using run False Inl evs by (intro exI [of _ evs]) simp
    next
      case (Inr img)
      have n: "sectors * 512 \<noteq> 0" "unat (sectors * 512) = length img"
        using img_ok [OF Inr] by (auto simp: unat_word_ariths word_unat_eq_iff word_le_nat_alt)
      have info': "info' = boot_payload_fingerprint (info0\<lparr>bc_payload_read_result := 0\<rparr>) (Some img)
          (sectors * 512)" "w' = w2"
        using run False Inr by simp_all
      note facts = fingerprint_facts [OF n(1) info'(1)]
      show ?thesis
        using facts evs info'(2) n(2) img_ok [OF Inr]
        by (intro exI [of _ evs]) (auto simp: sha256_buffer_spec intro!: exI [of _ img])
    qed
  qed
qed

section \<open>Properties\<close>


definition empty_boot_chain :: boot_chain_info where
  "empty_boot_chain = \<lparr>bc_romver = [], bc_expected_system_folder = [], bc_family = [],
    bc_confidence = [], bc_next_stage = [], bc_pointer_consistent = False,
    bc_payload_read_result = 0, bc_payload_kelf_result = 0, bc_payload_bytes = 0,
    bc_kelf_file_bytes = 0, bc_payload_sha256 = replicate 32 0, bc_kelf_sha256 = replicate 32 0,
    bc_skip_hdd = [0, 0, 0], bc_mc_module_count = [0, 0], bc_mc_folder_mask = [0, 0],
    bc_mc_folder_module_mask = replicate 2 (replicate 4 0), bc_fhdb_config = 0,
    bc_fhdb_boot_elf = 0, bc_fhdb_config_path = [], bc_fhdb_auto_path = [],
    bc_osdmenu_mbr_config = 0, bc_osdmenu_auto_target = 0, bc_osdmenu_auto_path = [],
    bc_psbbn_boot = 0, bc_psbbn_partition_count = 0, bc_hosdmenu_boot = 0, bc_hddosd_boot = 0,
    bc_hddosd_path = [], bc_legacy_osdmain = 0, bc_sysconf_mount_result = 0,
    bc_system_mount_result = 0\<rparr>"

text \<open>A master whose pointer names three sectors of zeros.\<close>

definition pointer_header :: "byte list" where
  "pointer_header = write_le32 APA_OSD_START_OFFSET 8192 (write_le32 APA_OSD_SIZE_OFFSET 3 (replicate 1024 0))"

lemma pointer_header_fields:
  "read_le32 pointer_header APA_OSD_START_OFFSET = 8192" "read_le32 pointer_header APA_OSD_SIZE_OFFSET = 3"
  by (simp_all add: pointer_header_def writes_def buf_simps)


end
