(* ===== verification/BootDiagnostics.thy ===== *)
theory BootDiagnostics
  imports BootReport BootEvidence Backups
begin

text \<open>
  Gathering the boot-chain evidence through the file system and the raw disk:
  \<open>src/boot_chain_ps2.c\<close>, \<open>src/boot_diagnostics_ps2.c\<close>, \<open>read_romver\<close> of \<open>src/storage.c\<close> and the
  refresh of \<open>src/diagnostics_controller_ps2.c\<close>.  Partitions are mounted for reading, files are only
  inquired about and read, and the disk is only read; what is written are the report and the log.
  The progress display is left out.
\<close>

section \<open>Small files\<close>

abbreviation (input) TEXT_FILE_LIMIT :: nat where "TEXT_FILE_LIMIT \<equiv> 32768"

definition read_romver :: "'f platform \<Rightarrow> 'f file_world \<Rightarrow> int \<times> byte list \<times> 'f file_world" where
  "read_romver api w =
    (let (fd, w1) = fileXioOpen api (ascii ''rom0:ROMVER'') FIO_RDONLY w in
     if fd < 0 then (fd, [], w1)
     else let (r, w2) = fileXioRead api fd (RESCUE_CAPSULE_ROMVER_SIZE - 1) w1;
              w3 = fileXioClose api fd w2 in
       (case r of Inl e \<Rightarrow> (if e < 0 then e else - 1, [], w3)
        | Inr bytes \<Rightarrow> (if bytes = [] then - 1 else int (length bytes), array_string bytes, w3)))"

text \<open>Reading a text file, tried again up to \<open>again\<close> times.\<close>

primrec retry_text ::
    "nat \<Rightarrow> 'f platform \<Rightarrow> path \<Rightarrow> 'f file_world \<Rightarrow> (int + byte list) \<times> 'f file_world" where
  "retry_text 0 api p w = read_text_file api p TEXT_FILE_LIMIT w"
| "retry_text (Suc again) api p w =
    (let (r, w1) = read_text_file api p TEXT_FILE_LIMIT w in
     (case r of Inr s \<Rightarrow> (Inr s, w1) | Inl e \<Rightarrow> retry_text again api p w1))"

definition read_skip_hdd_setting :: "'f platform \<Rightarrow> nat \<Rightarrow> path \<Rightarrow> 'f file_world \<Rightarrow> int \<times> 'f file_world" where
  "read_skip_hdd_setting api selected p w =
    (let (ok, w1) = heap_alloc api TEXT_FILE_LIMIT w in
     if \<not> ok then (- 2, w1)
     else let (r, w2) = retry_text (if selected = 2 \<and> take 5 p = ascii ''mass:'' then 19 else 0) api p w1 in
       (case r of Inl e \<Rightarrow> - 1 | Inr s \<Rightarrow> parse_skip_hdd_text (array_string s), w2))"

section \<open>Memory cards\<close>

definition card_folders :: "string list" where
  "card_folders = [''BIEXEC-SYSTEM'', ''BAEXEC-SYSTEM'', ''BEEXEC-SYSTEM'', ''BCEXEC-SYSTEM'']"

definition card_modules :: "string list" where
  "card_modules = [''hddload.irx'', ''dev9.irx'', ''atad.irx'']"

definition card_path :: "nat \<Rightarrow> nat \<Rightarrow> nat \<Rightarrow> path" where
  "card_path port folder m = print_into 96 (format_items
    [Lit ''mc'', Uns port, Lit '':/'', Lit (card_folders ! folder), Lit ''/'', Lit (card_modules ! m)])"

definition note_module :: "nat \<Rightarrow> nat \<Rightarrow> nat \<Rightarrow> boot_chain_info \<Rightarrow> boot_chain_info" where
  "note_module port folder m info = info
    \<lparr>bc_mc_folder_module_mask := (bc_mc_folder_module_mask info)[port :=
       (bc_mc_folder_module_mask info ! port)[folder :=
         bc_mc_folder_module_mask info ! port ! folder OR push_bit m 1]],
     bc_mc_module_count := (bc_mc_module_count info)[port := bc_mc_module_count info ! port + 1]\<rparr>"

fun scan_modules ::
    "'f platform \<Rightarrow> nat \<Rightarrow> nat \<Rightarrow> nat list \<Rightarrow> bool \<Rightarrow> boot_chain_info \<Rightarrow> 'f file_world \<Rightarrow>
      bool \<times> boot_chain_info \<times> 'f file_world" where
  "scan_modules api port folder [] found info w = (found, info, w)"
| "scan_modules api port folder (m # ms) found info w =
    (let (there, w1) = path_exists api (card_path port folder m) w in
     scan_modules api port folder ms (found \<or> there)
       (if there then note_module port folder m info else info) w1)"

fun scan_folders ::
    "'f platform \<Rightarrow> (nat \<times> nat) list \<Rightarrow> boot_chain_info \<Rightarrow> 'f file_world \<Rightarrow>
      boot_chain_info \<times> 'f file_world" where
  "scan_folders api [] info w = (info, w)"
| "scan_folders api ((port, folder) # rest) info w =
    (let (found, info1, w1) = scan_modules api port folder [0..<3] False info w in
     scan_folders api rest
       (if found then info1\<lparr>bc_mc_folder_mask := (bc_mc_folder_mask info1)[port :=
          bc_mc_folder_mask info1 ! port OR push_bit folder 1]\<rparr> else info1) w1)"

definition scan_memory_card_boot_files ::
    "'f platform \<Rightarrow> boot_chain_info \<Rightarrow> 'f file_world \<Rightarrow> boot_chain_info \<times> 'f file_world" where
  "scan_memory_card_boot_files api info w =
    scan_folders api (List.product [0..<2] [0..<4]) info w"

definition scan_skip_hdd_settings ::
    "'f platform \<Rightarrow> nat \<Rightarrow> boot_chain_info \<Rightarrow> 'f file_world \<Rightarrow> boot_chain_info \<times> 'f file_world" where
  "scan_skip_hdd_settings api selected info w =
    (let (a, w1) = read_skip_hdd_setting api selected (ascii ''mc0:/SYS-CONF/FREEMCB.CNF'') w;
         (b, w2) = read_skip_hdd_setting api selected (ascii ''mc1:/SYS-CONF/FREEMCB.CNF'') w1;
         (c, w3) = read_skip_hdd_setting api selected (ascii ''mass:/FREEMCB.CNF'') w2 in
     (info\<lparr>bc_skip_hdd := [a, b, c]\<rparr>, w3))"

section \<open>Partitions\<close>

abbreviation (input) pfs0 :: path where "pfs0 \<equiv> ascii ''pfs0:''"

definition flag :: "bool \<Rightarrow> int" where "flag b = (if b then 1 else 0)"

definition find_fhdb_config :: "'f platform \<Rightarrow> 'f file_world \<Rightarrow> path option \<times> 'f file_world" where
  "find_fhdb_config api w =
    (let (a, w1) = path_exists api (ascii ''pfs0:/FMCB/FREEHDB.CNF'') w in
     if a then (Some (ascii ''pfs0:/FMCB/FREEHDB.CNF''), w1)
     else let (b, w2) = path_exists api (ascii ''pfs0:/FHDB/FREEHDB.CNF'') w1 in
       (if b then Some (ascii ''pfs0:/FHDB/FREEHDB.CNF'') else None, w2))"

text \<open>\<open>path_exists (p) || path_exists (q)\<close>: the second is only asked if the first is not there.\<close>

definition either_exists :: "'f platform \<Rightarrow> path \<Rightarrow> path \<Rightarrow> 'f file_world \<Rightarrow> bool \<times> 'f file_world" where
  "either_exists api p q w = (let (a, w1) = path_exists api p w in
     if a then (True, w1) else path_exists api q w1)"

definition read_fhdb_target ::
    "'f platform \<Rightarrow> bool \<Rightarrow> path option \<Rightarrow> boot_chain_info \<Rightarrow> 'f file_world \<Rightarrow> boot_chain_info \<times> 'f file_world" where
  "read_fhdb_target api have_buffer config info w =
    (case config of
       Some p \<Rightarrow> (if \<not> have_buffer then (info, w)
         else let (r, w1) = read_text_file api p TEXT_FILE_LIMIT w in
           (case r of Inl e \<Rightarrow> info
            | Inr s \<Rightarrow> let (found, v) = find_fhdb_auto_target (array_string s) 96 in
                if found then info\<lparr>bc_fhdb_auto_path := print_into 96 v\<rparr> else info, w1))
     | None \<Rightarrow> (info, w))"

definition read_osdmenu_target ::
    "'f platform \<Rightarrow> bool \<Rightarrow> boot_chain_info \<Rightarrow> 'f file_world \<Rightarrow> boot_chain_info \<times> 'f file_world" where
  "read_osdmenu_target api have_buffer info w =
    (if \<not> have_buffer \<or> bc_osdmenu_mbr_config info = 0 then (info, w)
     else let (r, w1) = read_text_file api (ascii ''pfs0:/osdmenu/OSDMBR.CNF'') TEXT_FILE_LIMIT w in
       (case r of Inl e \<Rightarrow> info
        | Inr s \<Rightarrow> let (target, v) = parse_osdmenu_boot_auto (array_string s) 96;
                      info1 = info\<lparr>bc_osdmenu_auto_target := target\<rparr> in
            if target \<noteq> BOOT_AUTO_NONE then info1\<lparr>bc_osdmenu_auto_path := print_into 96 v\<rparr> else info1,
        w1))"

definition scan_sysconf_partition ::
    "'f platform \<Rightarrow> boot_chain_info \<Rightarrow> 'f file_world \<Rightarrow> boot_chain_info \<times> 'f file_world" where
  "scan_sysconf_partition api info w =
    (let (m, w1) = fileXioMount api pfs0 (ascii ''hdd0:__sysconf'') (fileXioUmount api pfs0 w);
         info = info\<lparr>bc_sysconf_mount_result := m\<rparr> in
     if m < 0 then (info, w1)
     else let (config, w2) = find_fhdb_config api w1;
              (boot_elf, w3) = either_exists api (ascii ''pfs0:/FMCB/BOOT.ELF'')
                (ascii ''pfs0:/FHDB/BOOT.ELF'') w2;
              (osdmbr, w4) = path_exists api (ascii ''pfs0:/osdmenu/OSDMBR.CNF'') w3;
              info = info\<lparr>bc_fhdb_config := flag (config \<noteq> None),
                bc_fhdb_config_path := (case config of None \<Rightarrow> bc_fhdb_config_path info
                  | Some p \<Rightarrow> print_into 64 p),
                bc_fhdb_boot_elf := flag boot_elf, bc_osdmenu_mbr_config := flag osdmbr\<rparr>;
              (ok, w5) = heap_alloc api TEXT_FILE_LIMIT w4;
              (info, w6) = read_fhdb_target api ok config info w5;
              (info, w7) = read_osdmenu_target api ok info w6 in
       (info, fileXioUmount api pfs0 w7))"

definition psbbn_partitions :: "string list" where
  "psbbn_partitions = [''__linux.1'', ''__linux.4'', ''__linux.5'', ''__linux.6'',
    ''__linux.7'', ''__linux.8'', ''__linux.9'', ''__contents'']"

fun count_partitions ::
    "'f platform \<Rightarrow> string list \<Rightarrow> boot_chain_info \<Rightarrow> 'f file_world \<Rightarrow> boot_chain_info \<times> 'f file_world" where
  "count_partitions api [] info w = (info, w)"
| "count_partitions api (n # ns) info w =
    (let (there, w1) = path_exists api (print_into 48 (ascii ''hdd0:'' @ ascii n)) w in
     count_partitions api ns (if there
       then info\<lparr>bc_psbbn_partition_count := bc_psbbn_partition_count info + 1\<rparr> else info) w1)"

definition find_hddosd :: "'f platform \<Rightarrow> boot_chain_info \<Rightarrow> 'f file_world \<Rightarrow> boot_chain_info \<times> 'f file_world" where
  "find_hddosd api info w =
    (let (a, w1) = path_exists api (ascii ''pfs0:/osd100/hosdsys.elf'') w in
     if a then (info\<lparr>bc_hddosd_path := ascii ''hdd0:__system:pfs:/osd100/hosdsys.elf''\<rparr>, w1)
     else let (b, w2) = path_exists api (ascii ''pfs0:/osd100/OSDSYS_A.XLF'') w1 in
       (if b then info\<lparr>bc_hddosd_path := ascii ''hdd0:__system:pfs:/osd100/OSDSYS_A.XLF''\<rparr> else info, w2))"

definition scan_system_files ::
    "'f platform \<Rightarrow> boot_chain_info \<Rightarrow> 'f file_world \<Rightarrow> boot_chain_info \<times> 'f file_world" where
  "scan_system_files api info w =
    (let (psbbn, w1) = path_exists api (ascii ''pfs0:/p2lboot/osdboot.elf'') w;
         (hosd, w2) = path_exists api (ascii ''pfs0:/osdmenu/hosdmenu.elf'') w1;
         (info, w3) = find_hddosd api (info\<lparr>bc_psbbn_boot := flag psbbn, bc_hosdmenu_boot := flag hosd\<rparr>) w2;
         info = info\<lparr>bc_hddosd_boot := flag (bc_hddosd_path info \<noteq> [])\<rparr>;
         (osdmain, w4) = path_exists api (ascii ''pfs0:/osd/osdmain.elf'') w3 in
     (info\<lparr>bc_legacy_osdmain := flag osdmain\<rparr>, fileXioUmount api pfs0 w4))"

definition scan_system_partition ::
    "'f platform \<Rightarrow> boot_chain_info \<Rightarrow> 'f file_world \<Rightarrow> boot_chain_info \<times> 'f file_world" where
  "scan_system_partition api info w =
    (let (m, w1) = fileXioMount api pfs0 (ascii ''hdd0:__system'') (fileXioUmount api pfs0 w);
         info = info\<lparr>bc_system_mount_result := m\<rparr>;
         (info, w2) = (if m \<ge> 0 then scan_system_files api info w1 else (info, w1)) in
     count_partitions api psbbn_partitions info w2)"

section \<open>The whole scan\<close>

text \<open>
  The buffer of the payload is asked for first; it does not depend on the disk and is not used when
  the pointer is refused.
\<close>

definition scan_active_payload_stage ::
    "'f platform \<Rightarrow> boot_chain_info \<Rightarrow> u32 \<Rightarrow> u32 \<Rightarrow> 'f file_world \<Rightarrow> boot_chain_info \<times> 'f file_world" where
  "scan_active_payload_stage api info start sectors w =
    (let (ok, w1) = heap_alloc api (unat (sectors * HDD_SECTOR_SIZE)) w;
         (info, h) = scan_active_payload_evidence (fx_hdd api) ok info start sectors (disk_view w1) in
     (info, after_disk w1 h))"

definition boot_diagnostics_scan ::
    "'f platform \<Rightarrow> nat \<Rightarrow> u32 \<Rightarrow> u32 \<Rightarrow> 'f file_world \<Rightarrow> boot_chain_info \<times> 'f file_world" where
  "boot_diagnostics_scan api selected start sectors w =
    (let info = empty_boot_chain\<lparr>bc_skip_hdd := [- 1, - 1, - 1]\<rparr>;
         (code, romver, w1) = read_romver api w;
         info = info\<lparr>bc_romver := romver, bc_expected_system_folder := expected_system_folder (Some romver) 20\<rparr>;
         (info, w2) = scan_active_payload_stage api info start sectors w1;
         (info, w3) = scan_skip_hdd_settings api selected info w2;
         (info, w4) = scan_memory_card_boot_files api info w3;
         (info, w5) = scan_sysconf_partition api info w4;
         (info, w6) = scan_system_partition api info w5 in
     (classify_boot_chain info start sectors, w6))"

section \<open>The state of a session\<close>

text \<open>
  What the modules keep between operations: the selected device, the log, the report, the
  diagnostics of the last header backup; and the world.
\<close>

record 'f session =
  se_storage :: nat
  se_log :: session_log
  se_report :: report_session
  se_backup :: header_backup_diagnostics
  se_world :: "'f file_world"

definition log_items :: "format_item list \<Rightarrow> 'f session \<Rightarrow> 'f session" where
  "log_items items s = s\<lparr>se_log := session_log_line items (se_log s)\<rparr>"

definition flush_log :: "'f platform \<Rightarrow> 'f session \<Rightarrow> 'f session" where
  "flush_log api s = (let (r, lg, w) = session_log_flush api (se_storage s) (se_log s) (se_world s) in
     s\<lparr>se_log := lg, se_world := w\<rparr>)"

definition app_name :: "byte list" where "app_name = ascii ''PS2 HDD Bootstrap Manager''"
definition app_version :: "byte list" where "app_version = ascii ''0.5.0''"

definition storage_name :: "nat \<Rightarrow> byte list" where
  "storage_name storage = [ascii ''mc0'', ascii ''mc1'', ascii ''mass''] ! storage"

definition diagnostics_render_stage ::
    "boot_chain_info \<Rightarrow> u32 \<Rightarrow> u32 \<Rightarrow> 'f session \<Rightarrow> 'f session" where
  "diagnostics_render_stage info start sectors s = log_items
     [Lit ''Boot-chain scan: family='', Str [0x27], Str (bc_family info), Str [0x27],
      Lit '', confidence='', Str (bc_confidence info), Lit '', payload_read='',
      Dec (bc_payload_read_result info), Lit '', kelf='', Dec (bc_payload_kelf_result info)]
     (s\<lparr>se_report := boot_report_session_render info start sectors app_name app_version (se_report s)\<rparr>)"

definition diagnostics_save_stage :: "'f platform \<Rightarrow> 'f session \<Rightarrow> 'f session" where
  "diagnostics_save_stage api s =
    (let (result, rs, w) = boot_report_session_save api (se_storage s) (se_report s) (se_world s) in
     flush_log api (log_items [Lit ''BOOTCHAIN.TXT save to '', Str (storage_name (se_storage s)),
       Lit '' returned '', Dec result] (s\<lparr>se_report := rs, se_world := w\<rparr>)))"

definition diagnostics_controller_refresh ::
    "'f platform \<Rightarrow> byte list \<Rightarrow> bool \<Rightarrow> 'f session \<Rightarrow> boot_chain_info \<times> 'f session" where
  "diagnostics_controller_refresh api header save_to_storage s =
    (let start = read_le32 header APA_OSD_START_OFFSET;
         sectors = read_le32 header APA_OSD_SIZE_OFFSET;
         (info, w) = boot_diagnostics_scan api (se_storage s) start sectors (se_world s);
         s1 = diagnostics_render_stage info start sectors (s\<lparr>se_world := w\<rparr>) in
     (info, if save_to_storage then diagnostics_save_stage api s1 else s1))"

section \<open>Nothing but reading\<close>

text \<open>An inspection reads files, mounts partitions for reading, and reads sectors.\<close>

fun inspecting :: "file_event \<Rightarrow> bool" where
  "inspecting (Mounted at dev r) \<longleftrightarrow> True"
| "inspecting (Unmounted at r) \<longleftrightarrow> True"
| "inspecting (Disk ev) \<longleftrightarrow> is_read (fst ev)"
| "inspecting e \<longleftrightarrow> reading_event e"

lemma reading_inspecting: "reading_event e \<Longrightarrow> inspecting e"
  by (cases e) auto

lemma inspects_reading: "extends reading_event w v \<Longrightarrow> extends inspecting w v"
  by (erule extends_mono) (rule reading_inspecting)

lemma inspects_exists: "path_exists api p w = (b, w') \<Longrightarrow> extends inspecting w w'"
  by (auto simp: path_exists_def extends_def split: prod.splits dest!: trace_getstat)

lemma inspects_heap: "heap_alloc api n w = (b, w') \<Longrightarrow> extends inspecting w w'"
  by (rule extends_same) (rule trace_heap)

lemma read_text_file_extends: "read_text_file api p n w = (r, w') \<Longrightarrow> extends reading_event w w'"
  by (auto simp: read_text_file_def Let_def split: prod.splits if_splits
      dest!: trace_open trace_lseek read_and_close_extends(1))
    (auto simp: extends_def)

lemma inspects_text: "read_text_file api p n w = (r, w') \<Longrightarrow> extends inspecting w w'"
  by (rule inspects_reading) (rule read_text_file_extends)

lemma inspects_mount:
  "fileXioMount api at dev (fileXioUmount api at w) = (r, w') \<Longrightarrow> extends inspecting w w'"
  using trace_umount [of api at w] by (auto simp: extends_def dest: trace_mount)

lemma inspects_umount: "extends inspecting w v \<Longrightarrow> extends inspecting w (fileXioUmount api at v)"
  using trace_umount [of api at v] by (auto simp: extends_def)

lemmas inspects = inspects_exists inspects_heap inspects_text inspects_mount

lemma inspects_romver: "read_romver api w = (c, r, w') \<Longrightarrow> extends inspecting w w'"
  by (rule inspects_reading)
    (auto simp: read_romver_def Let_def extends_def split: prod.splits if_splits sum.splits
      dest!: trace_open trace_read)

lemma inspects_retry: "retry_text again api p w = (r, w') \<Longrightarrow> extends inspecting w w'"
  by (induction again arbitrary: w)
    (auto split: prod.splits sum.splits dest!: inspects_text intro: extends_trans)

lemma inspects_skip: "read_skip_hdd_setting api selected p w = (v, w') \<Longrightarrow> extends inspecting w w'"
  by (auto simp: read_skip_hdd_setting_def Let_def split: prod.splits if_splits
      dest!: inspects_heap inspects_retry inspects_text intro: extends_trans)

lemma inspects_skip_settings:
  "scan_skip_hdd_settings api selected info w = (info', w') \<Longrightarrow> extends inspecting w w'"
  by (auto simp: scan_skip_hdd_settings_def split: prod.splits dest!: inspects_skip
      intro: extends_trans [OF _ extends_trans])

lemma inspects_modules:
  "scan_modules api port folder ms found info w = (f, info', w') \<Longrightarrow> extends inspecting w w'"
  by (induction ms arbitrary: found info w)
    (auto split: prod.splits dest!: inspects_exists intro: extends_trans)

lemma inspects_folders: "scan_folders api ps info w = (info', w') \<Longrightarrow> extends inspecting w w'"
  by (induction ps arbitrary: info w)
    (auto split: prod.splits dest!: inspects_modules, blast intro: extends_trans)

lemma inspects_partitions: "count_partitions api ns info w = (info', w') \<Longrightarrow> extends inspecting w w'"
  by (induction ns arbitrary: info w)
    (auto split: prod.splits dest!: inspects_exists intro: extends_trans)

lemma inspects_find_config: "find_fhdb_config api w = (c, w') \<Longrightarrow> extends inspecting w w'"
  by (auto simp: find_fhdb_config_def split: prod.splits if_splits dest!: inspects_exists intro: extends_trans)

lemma inspects_either: "either_exists api p q w = (b, w') \<Longrightarrow> extends inspecting w w'"
  by (auto simp: either_exists_def split: prod.splits if_splits dest!: inspects_exists intro: extends_trans)

lemma inspects_fhdb: "read_fhdb_target api ok config info w = (info', w') \<Longrightarrow> extends inspecting w w'"
  by (auto simp: read_fhdb_target_def split: option.splits if_splits prod.splits dest!: inspects_text)

lemma inspects_osdmenu: "read_osdmenu_target api ok info w = (info', w') \<Longrightarrow> extends inspecting w w'"
  by (auto simp: read_osdmenu_target_def split: if_splits prod.splits dest!: inspects_text)

lemma inspects_hddosd: "find_hddosd api info w = (info', w') \<Longrightarrow> extends inspecting w w'"
  by (auto simp: find_hddosd_def split: prod.splits if_splits dest!: inspects_exists intro: extends_trans)

lemma extends_chain: "extends P w v \<Longrightarrow> (extends P w v \<Longrightarrow> extends P v u) \<Longrightarrow> extends P w u"
  by (blast intro: extends_trans)

lemma inspects_system_files: 
  assumes "scan_system_files api info w = (info', w')"
  shows "extends inspecting w w'"
proof -
  obtain a w1 where a: "path_exists api (ascii ''pfs0:/p2lboot/osdboot.elf'') w = (a, w1)" by fastforce
  obtain b w2 where b: "path_exists api (ascii ''pfs0:/osdmenu/hosdmenu.elf'') w1 = (b, w2)" by fastforce
  obtain i w3 where c: "find_hddosd api (info\<lparr>bc_psbbn_boot := flag a, bc_hosdmenu_boot := flag b\<rparr>) w2 = (i, w3)"
    by fastforce
  obtain d w4 where d: "path_exists api (ascii ''pfs0:/osd/osdmain.elf'') w3 = (d, w4)" by fastforce
  have "extends inspecting w w4"
    using inspects_exists [OF a] inspects_exists [OF b] inspects_hddosd [OF c] inspects_exists [OF d]
    by (blast intro: extends_trans)
  moreover have "w' = fileXioUmount api pfs0 w4"
    using assms by (simp add: scan_system_files_def a b c d Let_def)
  ultimately show ?thesis by (simp add: inspects_umount)
qed

lemma inspects_system:
  assumes "scan_system_partition api info w = (info', w')"
  shows "extends inspecting w w'"
proof -
  obtain m w1 where m: "fileXioMount api pfs0 (ascii ''hdd0:__system'') (fileXioUmount api pfs0 w) = (m, w1)"
    by fastforce
  obtain i w2 where i: "(if m \<ge> 0 then scan_system_files api (info\<lparr>bc_system_mount_result := m\<rparr>) w1
      else (info\<lparr>bc_system_mount_result := m\<rparr>, w1)) = (i, w2)" by fastforce
  have run: "count_partitions api psbbn_partitions i w2 = (info', w')"
    using assms i unfolding scan_system_partition_def m prod.case Let_def by simp
  have "extends inspecting w1 w2" using i by (auto split: if_splits dest: inspects_system_files)
  then show ?thesis
    using inspects_mount [OF m] inspects_partitions [OF run] by (blast intro: extends_trans)
qed

lemma inspects_sysconf:
  assumes "scan_sysconf_partition api info w = (info', w')"
  shows "extends inspecting w w'"
proof -
  obtain m w1 where m: "fileXioMount api pfs0 (ascii ''hdd0:__sysconf'') (fileXioUmount api pfs0 w) = (m, w1)"
    by fastforce
  obtain c w2 where c: "find_fhdb_config api w1 = (c, w2)" by fastforce
  obtain b w3 where b: "either_exists api (ascii ''pfs0:/FMCB/BOOT.ELF'') (ascii ''pfs0:/FHDB/BOOT.ELF'') w2 = (b, w3)"
    by fastforce
  obtain d w4 where d: "path_exists api (ascii ''pfs0:/osdmenu/OSDMBR.CNF'') w3 = (d, w4)" by fastforce
  obtain ok w5 where ok: "heap_alloc api TEXT_FILE_LIMIT w4 = (ok, w5)" by fastforce
  define info1 where "info1 = info\<lparr>bc_sysconf_mount_result := m\<rparr>"
  define info2 where "info2 = info1\<lparr>bc_fhdb_config := flag (c \<noteq> None),
    bc_fhdb_config_path := (case c of None \<Rightarrow> bc_fhdb_config_path info1 | Some p \<Rightarrow> print_into 64 p),
    bc_fhdb_boot_elf := flag b, bc_osdmenu_mbr_config := flag d\<rparr>"
  obtain info3 w6 where f: "read_fhdb_target api ok c info2 w5 = (info3, w6)" by (metis prod.exhaust)
  obtain info4 w7 where g: "read_osdmenu_target api ok info3 w6 = (info4, w7)" by (metis prod.exhaust)
  have run: "(info', w') = (if m < 0 then (info1, w1) else (info4, fileXioUmount api pfs0 w7))"
    using assms [symmetric]
    unfolding scan_sysconf_partition_def m c b d ok Let_def prod.case info1_def [symmetric]
      info2_def [symmetric] f g .
  have "extends inspecting w w7"
    using inspects_mount [OF m] inspects_find_config [OF c] inspects_either [OF b]
      inspects_exists [OF d] inspects_heap [OF ok] inspects_fhdb [OF f] inspects_osdmenu [OF g]
    by (blast intro: extends_trans)
  then show ?thesis using run inspects_mount [OF m] by (auto intro: inspects_umount split: if_splits)
qed

lemma inspects_payload:
  assumes "scan_active_payload_stage api info start sectors w = (info', w')"
  shows "extends inspecting w w'"
proof -
  obtain ok w1 where ok: "heap_alloc api (unat (sectors * HDD_SECTOR_SIZE)) w = (ok, w1)" by fastforce
  obtain i h where h: "scan_active_payload_evidence (fx_hdd api) ok info start sectors (disk_view w1) = (i, h)"
    by fastforce
  obtain evs where "events h = evs" "only is_read evs"
    using scan_evidence [OF h] by (auto simp: disk_view_def)
  then have "extends inspecting w1 (after_disk w1 h)"
    by (auto simp: extends_def after_disk_def only_def list_all_iff)
  moreover have "w' = after_disk w1 h" using assms by (simp add: scan_active_payload_stage_def ok h)
  ultimately show ?thesis using inspects_heap [OF ok] by (blast intro: extends_trans)
qed

lemma inspects_scan:
  assumes "boot_diagnostics_scan api selected start sectors w = (info, w')"
  shows "extends inspecting w w'"
proof -
  obtain c r w1 where r: "read_romver api w = (c, r, w1)" by (metis prod_cases3)
  define i0 where "i0 = empty_boot_chain\<lparr>bc_skip_hdd := [- 1, - 1, - 1], bc_romver := r,
    bc_expected_system_folder := expected_system_folder (Some r) 20\<rparr>"
  obtain i1 w2 where p: "scan_active_payload_stage api i0 start sectors w1 = (i1, w2)" by fastforce
  obtain i2 w3 where s: "scan_skip_hdd_settings api selected i1 w2 = (i2, w3)" by fastforce
  obtain i3 w4 where f: "scan_folders api (List.product [0..<2] [0..<4]) i2 w3 = (i3, w4)" by fastforce
  obtain i4 w5 where c: "scan_sysconf_partition api i3 w4 = (i4, w5)" by fastforce
  obtain i5 w6 where y: "scan_system_partition api i4 w5 = (i5, w6)" by fastforce
  have "w' = w6"
    using assms p unfolding boot_diagnostics_scan_def r Let_def prod.case
    by (simp add: i0_def s f c y scan_memory_card_boot_files_def)
  then show ?thesis
    using inspects_romver [OF r] inspects_payload [OF p] inspects_skip_settings [OF s]
      inspects_folders [OF f] inspects_sysconf [OF c] inspects_system [OF y]
    by (blast intro: extends_trans)
qed

end
