(* ===== verification/BootstrapSource.thy ===== *)
theory BootstrapSource
  imports FileStore Kelf RescueStorage BootDiagnostics
begin

text \<open>
  Preparing an installable boot payload: \<open>src/bootstrap_source.c\<close> and the wrapper around
  \<open>fileXioOpen\<close> of \<open>src/mbr_compat.c\<close>, which prefers a sibling \<open>MBR.XIN\<close> of \<open>MBR.XLF\<close>.  The
  wrapper writes the name it chose into the caller's buffer, so an open returns the path too.
\<close>

section \<open>The preferred name\<close>

abbreviation (input) MBR_PATH_CAPACITY :: nat where "MBR_PATH_CAPACITY \<equiv> 64"

definition is_legacy_mbr_source_path :: "path \<Rightarrow> bool" where
  "is_legacy_mbr_source_path p \<longleftrightarrow> length p \<ge> 8 \<and> drop (length p - 8) p = ascii ''/MBR.XLF''"

definition preferred_path :: "path \<Rightarrow> path" where
  "preferred_path p = take (length p - 3) p @ ascii ''XIN''"

definition wrap_fileXioOpen ::
    "'f platform \<Rightarrow> path \<Rightarrow> open_mode \<Rightarrow> 'f file_world \<Rightarrow> int \<times> path \<times> 'f file_world" where
  "wrap_fileXioOpen api p mode w =
    (if is_legacy_mbr_source_path p \<and> length p + 1 \<le> MBR_PATH_CAPACITY
     then let (r, st, w1) = fileXioGetStat api (preferred_path p) w in
       if r \<ge> 0 then let (fd, w2) = fileXioOpen api (preferred_path p) mode w1 in (fd, preferred_path p, w2)
       else let (fd, w2) = fileXioOpen api p mode w1 in (fd, p, w2)
     else let (fd, w1) = fileXioOpen api p mode w in (fd, p, w1))"

text \<open>All other paths are opened as they are, so the other theories call \<open>fileXioOpen\<close> directly.\<close>

lemma wrap_other: "\<not> is_legacy_mbr_source_path p \<Longrightarrow>
    wrap_fileXioOpen api p mode w = (let (fd, w1) = fileXioOpen api p mode w in (fd, p, w1))"
  by (simp add: wrap_fileXioOpen_def)

section \<open>The source\<close>

datatype bootstrap_source_stage = BOOTSTRAP_SOURCE_STAGE_NONE | BOOTSTRAP_SOURCE_STAGE_LOAD
  | BOOTSTRAP_SOURCE_STAGE_KELF | BOOTSTRAP_SOURCE_STAGE_CAPACITY

abbreviation (input) BOOTSTRAP_SOURCE_SIZE_INVALID :: int where "BOOTSTRAP_SOURCE_SIZE_INVALID \<equiv> - 120"
abbreviation (input) BOOTSTRAP_SOURCE_SEEK_FAILED :: int where "BOOTSTRAP_SOURCE_SEEK_FAILED \<equiv> - 121"
abbreviation (input) BOOTSTRAP_SOURCE_ALLOC_FAILED :: int where "BOOTSTRAP_SOURCE_ALLOC_FAILED \<equiv> - 122"
abbreviation (input) BOOTSTRAP_SOURCE_SHORT_READ :: int where "BOOTSTRAP_SOURCE_SHORT_READ \<equiv> - 123"
abbreviation (input) BOOTSTRAP_SOURCE_CAPACITY_INVALID :: int where
  "BOOTSTRAP_SOURCE_CAPACITY_INVALID \<equiv> - 124"
abbreviation (input) HDD_MAX_MBR_PAYLOAD_SIZE :: int where "HDD_MAX_MBR_PAYLOAD_SIZE \<equiv> 4194304"
abbreviation (input) HDD_MBR_PAYLOAD_START :: u32 where "HDD_MBR_PAYLOAD_START \<equiv> 0x2000"

record bootstrap_source_result =
  source_stage :: bootstrap_source_stage
  source_code :: int
  source_getstat_result :: int
  source_mbr_start :: u32
  source_mbr_size :: u32
  source_payload_sectors :: u32

record bootstrap_source =
  source_path :: path
  source_payload :: "byte list option"
  source_payload_size :: u32
  source_sectors :: u32

definition empty_source_result :: bootstrap_source_result where
  "empty_source_result = \<lparr>source_stage = BOOTSTRAP_SOURCE_STAGE_NONE, source_code = 0,
    source_getstat_result = 0, source_mbr_start = 0, source_mbr_size = 0, source_payload_sectors = 0\<rparr>"

fun stage_name :: "bootstrap_source_stage \<Rightarrow> string" where
  "stage_name BOOTSTRAP_SOURCE_STAGE_LOAD = ''load MBR.XIN/XLF from selected storage''"
| "stage_name BOOTSTRAP_SOURCE_STAGE_KELF = ''KELF structural validation''"
| "stage_name BOOTSTRAP_SOURCE_STAGE_CAPACITY = ''validate source against live __mbr capacity''"
| "stage_name BOOTSTRAP_SOURCE_STAGE_NONE = ''bootstrap source preparation''"

definition fail_source ::
    "bootstrap_source_result \<Rightarrow> bootstrap_source_stage \<Rightarrow> int \<Rightarrow> 'f file_world \<Rightarrow>
      int \<times> bootstrap_source_result \<times> 'f file_world" where
  "fail_source res stage code w = (code, res\<lparr>source_stage := stage, source_code := code\<rparr>,
    record_file_error (if stage = BOOTSTRAP_SOURCE_STAGE_KELF then APP_ERROR_DOMAIN_KELF
      else APP_ERROR_DOMAIN_BOOTSTRAP_SOURCE) code (stage_name stage) w)"

definition bootstrap_source_init :: "nat \<Rightarrow> bootstrap_source" where
  "bootstrap_source_init storage = \<lparr>source_path = storage_path 64 storage (ascii ''MBR.XLF''),
    source_payload = None, source_payload_size = 0, source_sectors = 0\<rparr>"

definition bootstrap_source_release :: "bootstrap_source \<Rightarrow> bootstrap_source" where
  "bootstrap_source_release source =
    source\<lparr>source_payload := None, source_payload_size := 0, source_sectors := 0\<rparr>"

text \<open>Opening the source, from the number of attempts left; the path may change on the way.\<close>

fun open_source_retry :: "'f platform \<Rightarrow> path \<Rightarrow> nat \<Rightarrow> 'f file_world \<Rightarrow> int \<times> path \<times> 'f file_world" where
  "open_source_retry api p 0 w = (- 1, p, w)"
| "open_source_retry api p (Suc attempts) w =
    (let (fd, p1, w1) = wrap_fileXioOpen api p FIO_RDONLY w in
     if fd \<ge> 0 \<or> attempts = 0 then (fd, p1, w1) else open_source_retry api p1 attempts w1)"

definition load_payload_file ::
    "'f platform \<Rightarrow> nat \<Rightarrow> bootstrap_source \<Rightarrow> bootstrap_source_result \<Rightarrow> 'f file_world \<Rightarrow>
      int \<times> bootstrap_source \<times> bootstrap_source_result \<times> 'f file_world" where
  "load_payload_file api storage source res w =
    (let (fd, p, w1) = open_source_retry api (source_path source) (if storage = 2 then 20 else 1) w;
         source1 = source\<lparr>source_path := p\<rparr>;
         (got, w2) = (if fd < 0 then (Inl fd, w1) else read_opened api HDD_MAX_MBR_PAYLOAD_SIZE BOOTSTRAP_SOURCE_SIZE_INVALID
           BOOTSTRAP_SOURCE_SEEK_FAILED BOOTSTRAP_SOURCE_ALLOC_FAILED BOOTSTRAP_SOURCE_SHORT_READ fd w1) in
     (case got of
        Inl code \<Rightarrow> let (c, res1, w3) = fail_source res BOOTSTRAP_SOURCE_STAGE_LOAD code w2 in
          (c, source1, res1, w3)
      | Inr data \<Rightarrow>
          let n = of_nat (length data); sectors = (n + HDD_SECTOR_SIZE - 1) div HDD_SECTOR_SIZE in
          (0, source1\<lparr>source_payload := Some data, source_payload_size := n, source_sectors := sectors\<rparr>,
           res\<lparr>source_payload_sectors := sectors\<rparr>, w2)))"

definition check_capacity ::
    "'f platform \<Rightarrow> bootstrap_source \<Rightarrow> bootstrap_source_result \<Rightarrow> 'f file_world \<Rightarrow>
      int \<times> bootstrap_source \<times> bootstrap_source_result \<times> 'f file_world" where
  "check_capacity api source res w =
    (let (code, st, w1) = fileXioGetStat api (ascii ''hdd0:__mbr'') w;
         res1 = res\<lparr>source_getstat_result := code, source_mbr_start := st_private_5 st,
           source_mbr_size := st_size st\<rparr> in
     if code < 0 \<or> st_private_5 st \<noteq> 0 \<or> st_size st \<le> HDD_MBR_PAYLOAD_START \<or>
       source_sectors source > st_size st - HDD_MBR_PAYLOAD_START
     then let (c, res2, w2) = fail_source res1 BOOTSTRAP_SOURCE_STAGE_CAPACITY
              (if code < 0 then code else BOOTSTRAP_SOURCE_CAPACITY_INVALID) w1 in
       (c, bootstrap_source_release source, res2, w2)
     else (0, source, res1\<lparr>source_stage := BOOTSTRAP_SOURCE_STAGE_NONE, source_code := 0\<rparr>, w1))"

definition bootstrap_source_prepare ::
    "'f platform \<Rightarrow> nat \<Rightarrow> bootstrap_source \<Rightarrow> 'f file_world \<Rightarrow>
      int \<times> bootstrap_source \<times> bootstrap_source_result \<times> 'f file_world" where
  "bootstrap_source_prepare api storage source w0 =
    (let w = w0\<lparr>last_errors := app_error_clear (last_errors w0)\<rparr> in
     if storage \<ge> STORAGE_TARGET_COUNT
     then let (c, res, w1) = fail_source empty_source_result BOOTSTRAP_SOURCE_STAGE_LOAD
              BOOTSTRAP_SOURCE_SIZE_INVALID w in (c, source, res, w1)
     else let source = (if source_path source = [] then bootstrap_source_init storage else source);
              (code, source, res, w1) = load_payload_file api storage source empty_source_result w in
       if code < 0 then (code, source, res, w1)
       else let code = kelf_validation_code
                (kelf_validate_layout (the (source_payload source)) (source_payload_size source)) in
         if code < 0
         then let (c, res, w2) = fail_source res BOOTSTRAP_SOURCE_STAGE_KELF code w1 in
           (c, bootstrap_source_release source, res, w2)
         else check_capacity api source res w1)"

section \<open>What a prepared source is\<close>

lemma inspects_wrap_open:
  "wrap_fileXioOpen api p FIO_RDONLY w = (fd, p', w') \<Longrightarrow> extends inspecting w w'"
  by (auto simp: wrap_fileXioOpen_def extends_def split: if_splits prod.splits
      dest!: trace_open trace_getstat)

lemma inspects_open_retry:
  "open_source_retry api p n w = (fd, p', w') \<Longrightarrow> extends inspecting w w'"
  by (induction n arbitrary: p w)
    (auto split: prod.splits if_splits dest!: inspects_wrap_open, blast intro: extends_trans)

lemma inspects_opened: "read_opened api m c1 c2 c3 c4 fd w = (r, w') \<Longrightarrow> extends inspecting w w'"
  by (rule inspects_reading) (rule read_opened_extends)

lemma inspects_error [simp]: "extends P w (record_file_error d c x v) \<longleftrightarrow> extends P w v"
  by (simp add: extends_def)

lemma inspects_fail: "fail_source res stage code w = (c, res', w') \<Longrightarrow> extends P v w \<Longrightarrow> extends P v w'"
  by (auto simp: fail_source_def)

lemma inspects_getstat: "fileXioGetStat api p w = (r, st, w') \<Longrightarrow> extends inspecting w w'"
  by (auto simp: extends_def dest: trace_getstat)

lemma fail_source_result:
  "fail_source res stage code w = (c, res', w') \<Longrightarrow> c = code \<and> source_stage res' = stage \<and> source_code res' = code \<and>
    app_error_get (last_errors w') = Some \<lparr>err_domain = (if stage = BOOTSTRAP_SOURCE_STAGE_KELF
        then APP_ERROR_DOMAIN_KELF else APP_ERROR_DOMAIN_BOOTSTRAP_SOURCE), err_code = code,
      err_context = take 63 (stage_name stage)\<rparr>"
  by (auto simp: fail_source_def record_file_error_def app_error_get_def app_error_record_def)

lemma load_payload_facts:
  assumes "load_payload_file api storage source res w = (code, source', res', w')"
  shows "extends inspecting w w'"
    and "code < 0 \<Longrightarrow> source_stage res' = BOOTSTRAP_SOURCE_STAGE_LOAD \<and> source_code res' = code \<and>
      source_payload source' = source_payload source \<and>
      (\<exists>e. app_error_get (last_errors w') = Some e \<and> err_code e = code)"
    and "0 \<le> code \<Longrightarrow> \<exists>data fd v m. code = 0 \<and> source_payload source' = Some data \<and>
      0 < length data \<and> length data \<le> 4194304 \<and> source_payload_size source' = of_nat (length data) \<and>
      source_sectors source' = (of_nat (length data) + 512 - 1) div 512 \<and>
      open_source_retry api (source_path source) m w = (fd, source_path source', v) \<and> 0 \<le> fd \<and>
      read_opened api 4194304 (- 120) (- 121) (- 122) (- 123) fd v = (Inr data, w')"
proof -
  define m where "m = (if storage = 2 then 20 else 1 :: nat)"
  obtain fd p w1 where o: "open_source_retry api (source_path source) m w = (fd, p, w1)"
    by (metis prod_cases3)
  obtain got w2 where g: "(if fd < 0 then (Inl fd, w1) else read_opened api 4194304 (- 120) (- 121)
      (- 122) (- 123) fd w1) = (got, w2)" by fastforce
  have v: "extends inspecting w w2"
    using inspects_open_retry [OF o] g by (auto split: if_splits dest: inspects_opened intro: extends_trans)
  note run = assms [unfolded load_payload_file_def m_def [symmetric] o Let_def prod.case g]
  have neg: "got = Inl e \<Longrightarrow> e < 0" for e
    using g read_opened_code [of api 4194304 "- 120" "- 121" "- 122" "- 123" fd w1 e w2]
    by (auto split: if_splits)
  show "extends inspecting w w'"
    using run v by (auto split: sum.splits prod.splits dest: inspects_fail)
  show "code < 0 \<Longrightarrow> source_stage res' = BOOTSTRAP_SOURCE_STAGE_LOAD \<and> source_code res' = code \<and>
      source_payload source' = source_payload source \<and>
      (\<exists>e. app_error_get (last_errors w') = Some e \<and> err_code e = code)"
    using run by (auto split: sum.splits prod.splits dest!: fail_source_result)
  assume "0 \<le> code"
  then obtain data where data: "got = Inr data"
    using run neg by (cases got) (auto split: prod.splits dest!: fail_source_result)
  then have r: "read_opened api 4194304 (- 120) (- 121) (- 122) (- 123) fd w1 = (Inr data, w2)" "0 \<le> fd"
    using g by (auto split: if_splits)
  show "\<exists>data fd v m. code = 0 \<and> source_payload source' = Some data \<and>
      0 < length data \<and> length data \<le> 4194304 \<and> source_payload_size source' = of_nat (length data) \<and>
      source_sectors source' = (of_nat (length data) + 512 - 1) div 512 \<and>
      open_source_retry api (source_path source) m w = (fd, source_path source', v) \<and> 0 \<le> fd \<and>
      read_opened api 4194304 (- 120) (- 121) (- 122) (- 123) fd v = (Inr data, w')"
    using run data o r read_opened_length [OF r(1)]
    by (intro exI [of _ data] exI [of _ fd] exI [of _ w1] exI [of _ m]) auto
qed

lemma capacity_facts:
  assumes "check_capacity api source res w = (code, source', res', w')"
  shows "extends inspecting w w'"
    and "code < 0 \<Longrightarrow> source_stage res' = BOOTSTRAP_SOURCE_STAGE_CAPACITY \<and> source_code res' = code \<and>
      source_payload source' = None \<and> (\<exists>e. app_error_get (last_errors w') = Some e \<and> err_code e = code)"
    and "0 \<le> code \<Longrightarrow> code = 0 \<and> source' = source \<and> source_mbr_start res' = 0 \<and>
      0x2000 < source_mbr_size res' \<and> source_sectors source \<le> source_mbr_size res' - 0x2000 \<and>
      source_stage res' = BOOTSTRAP_SOURCE_STAGE_NONE \<and> source_code res' = 0 \<and>
      (\<exists>r st. fileXioGetStat api (ascii ''hdd0:__mbr'') w = (r, st, w'))"
proof -
  obtain r st w1 where r: "fileXioGetStat api (ascii ''hdd0:__mbr'') w = (r, st, w1)" by (metis prod_cases3)
  have w1: "extends inspecting w w1" by (rule inspects_getstat [OF r])
  show "extends inspecting w w'"
    using assms w1
    by (auto simp: check_capacity_def r Let_def split: prod.splits if_splits intro: inspects_fail)
  show "code < 0 \<Longrightarrow> source_stage res' = BOOTSTRAP_SOURCE_STAGE_CAPACITY \<and> source_code res' = code \<and>
      source_payload source' = None \<and> (\<exists>e. app_error_get (last_errors w') = Some e \<and> err_code e = code)"
    and "0 \<le> code \<Longrightarrow> code = 0 \<and> source' = source \<and> source_mbr_start res' = 0 \<and>
      0x2000 < source_mbr_size res' \<and> source_sectors source \<le> source_mbr_size res' - 0x2000 \<and>
      source_stage res' = BOOTSTRAP_SOURCE_STAGE_NONE \<and> source_code res' = 0 \<and>
      (\<exists>r st. fileXioGetStat api (ascii ''hdd0:__mbr'') w = (r, st, w'))"
    using assms r
    by (auto simp: check_capacity_def Let_def bootstrap_source_release_def not_le
        split: prod.splits if_splits dest!: fail_source_result)
qed

lemma validation_code_valid: "0 \<le> kelf_validation_code r \<longleftrightarrow> r = KELF_VALID"
  by (cases r) auto

lemma sectors_of_bytes:
  assumes "n \<le> 4194304"
  shows "unat ((of_nat n + 512 - 1) div 512 :: u32) = (n + 511) div 512"
proof -
  have "unat (of_nat n + 512 - 1 :: u32) = n + 511"
    using assms by (simp add: unat_word_ariths unat_of_nat)
  then show ?thesis by (simp add: unat_div)
qed

definition source_usable :: "bootstrap_source \<Rightarrow> bootstrap_source_result \<Rightarrow> byte list \<Rightarrow> bool" where
  "source_usable source res data \<longleftrightarrow> source_payload source = Some data \<and>
    source_payload_size source = of_nat (length data) \<and> 0 < length data \<and> length data \<le> 4194304 \<and>
    kelf_well_formed data (length data) \<and>
    unat (source_sectors source) = (length data + 511) div 512 \<and>
    source_mbr_start res = 0 \<and> 0x2000 + unat (source_sectors source) \<le> unat (source_mbr_size res)"

lemma loaded_stored:
  assumes "file_store api files fds"
    and "open_source_retry api p m w = (fd, p', v)" and "0 \<le> fd"
    and "read_opened api n c1 c2 c3 c4 fd v = (Inr data, w')"
  shows "files (store w') p' = Some data"
proof -
  have "\<exists>u. fileXioOpen api p' FIO_RDONLY u = (fd, v)"
    using assms(2,3)
  proof (induction m arbitrary: p w)
    case (Suc m)
    obtain k q u where o: "wrap_fileXioOpen api p FIO_RDONLY w = (k, q, u)" by (metis prod_cases3)
    then have "\<exists>u'. fileXioOpen api q FIO_RDONLY u' = (k, u)"
      by (auto simp: wrap_fileXioOpen_def split: if_splits prod.splits)
    then show ?case using Suc o by (auto split: if_splits)
  qed simp
  then obtain u where u: "fileXioOpen api p' FIO_RDONLY u = (fd, v)" ..
  from file_store.open_read_effect [OF assms(1) u] assms(3) obtain d where "files (store v) p' = Some d" "fds (store v) fd = Some (p', 0)"
    by auto
  with file_store.read_opened_effect [OF assms(1,4) this] show ?thesis by simp
qed

lemma prepare_facts:
  assumes "bootstrap_source_prepare api storage source w = (code, source', res, w')"
    and "source_payload source = None"
  shows "extends inspecting w w'" and "source_code res = code"
    and "code < 0 \<Longrightarrow> source_payload source' = None \<and> source_stage res \<noteq> BOOTSTRAP_SOURCE_STAGE_NONE \<and>
      (\<exists>e. app_error_get (last_errors w') = Some e \<and> err_code e = code)"
    and "0 \<le> code \<Longrightarrow> \<exists>data. source_usable source' res data \<and>
      (\<forall>files fds. file_store api files fds \<longrightarrow> files (store w') (source_path source') = Some data)"
proof -
  define w0 where "w0 = w\<lparr>last_errors := app_error_clear (last_errors w)\<rparr>"
  have w0: "extends inspecting w w0" by (rule extends_same) (simp add: w0_def)
  define s0 where "s0 = (if source_path source = [] then bootstrap_source_init storage else source)"
  have s0: "source_payload s0 = None" using assms(2) by (simp add: s0_def bootstrap_source_init_def)
  obtain c s1 r1 w1 where l: "load_payload_file api storage s0 empty_source_result w0 = (c, s1, r1, w1)"
    by (metis prod_cases4)
  note load = load_payload_facts [OF l]
  define k where "k = kelf_validation_code (kelf_validate_layout (the (source_payload s1)) (source_payload_size s1))"
  have run: "(code, source', res, w') = (if storage \<ge> STORAGE_TARGET_COUNT
      then (let (c, res, w1) = fail_source empty_source_result BOOTSTRAP_SOURCE_STAGE_LOAD (- 120) w0 in (c, source, res, w1))
      else if c < 0 then (c, s1, r1, w1)
      else if k < 0 then (let (c, res, w2) = fail_source r1 BOOTSTRAP_SOURCE_STAGE_KELF k w1 in
        (c, bootstrap_source_release s1, res, w2))
      else check_capacity api s1 r1 w1)"
    using assms(1) [symmetric]
    unfolding bootstrap_source_prepare_def w0_def [symmetric] Let_def s0_def [symmetric] l prod.case k_def [symmetric] .
  have w1: "extends inspecting w w1" using w0 load(1) by (rule extends_trans)
  consider (target) "storage \<ge> STORAGE_TARGET_COUNT" | (load) "storage < STORAGE_TARGET_COUNT" "c < 0"
    | (kelf) "storage < STORAGE_TARGET_COUNT" "0 \<le> c" "k < 0"
    | (checked) "storage < STORAGE_TARGET_COUNT" "0 \<le> c" "0 \<le> k" by linarith
  then have "extends inspecting w w' \<and> source_code res = code \<and>
    (code < 0 \<longrightarrow> source_payload source' = None \<and> source_stage res \<noteq> BOOTSTRAP_SOURCE_STAGE_NONE \<and>
      (\<exists>e. app_error_get (last_errors w') = Some e \<and> err_code e = code)) \<and>
    (0 \<le> code \<longrightarrow> (\<exists>data. source_usable source' res data \<and>
      (\<forall>files fds. file_store api files fds \<longrightarrow> files (store w') (source_path source') = Some data)))"
  proof cases
    case target
    have "extends inspecting w w'" using run target w0 by (auto split: prod.splits intro: inspects_fail)
    then show ?thesis using run target assms(2) by (auto split: prod.splits dest!: fail_source_result)
  next
    case load
    then show ?thesis using run load_payload_facts(2) [OF l] w1 s0 by auto
  next
    case kelf
    have "extends inspecting w w'" using run kelf w1 by (auto split: prod.splits intro: inspects_fail)
    then show ?thesis using run kelf
      by (auto simp: bootstrap_source_release_def split: prod.splits dest!: fail_source_result)
  next
    case checked
    then have run: "check_capacity api s1 r1 w1 = (code, source', res, w')" using run by simp
    note cap = capacity_facts [OF run]
    obtain data fd v m where data: "source_payload s1 = Some data" "0 < length data" "length data \<le> 4194304"
      "source_payload_size s1 = of_nat (length data)" "source_sectors s1 = (of_nat (length data) + 512 - 1) div 512"
      "open_source_retry api (source_path s0) m w0 = (fd, source_path s1, v)" "0 \<le> fd"
      "read_opened api 4194304 (- 120) (- 121) (- 122) (- 123) fd v = (Inr data, w1)"
      using load(3) [OF checked(2)] by blast
    have "kelf_validate_layout data (of_nat (length data)) = KELF_VALID"
      using checked(3) data(1,4) by (simp add: k_def validation_code_valid)
    then have kelf: "kelf_well_formed data (length data)"
      using data(3) by (simp add: kelf_valid_arith unat_of_nat)
    have n: "unat (source_sectors s1) = (length data + 511) div 512"
      using sectors_of_bytes [OF data(3)] data(5) by simp
    have usable: "source_usable source' res data" if "0 \<le> code"
    proof -
      have c: "source' = s1" "source_mbr_start res = 0" "0x2000 < source_mbr_size res"
          "source_sectors s1 \<le> source_mbr_size res - 0x2000"
        using cap(3) [OF that] by auto
      then have "unat (source_sectors s1) \<le> unat (source_mbr_size res) - 0x2000"
        by (simp add: word_le_nat_alt word_less_nat_alt unat_sub_if_size)
      then show ?thesis
        using c data kelf n by (simp add: source_usable_def word_less_nat_alt)
    qed
    have kept: "files (store w') (source_path source') = Some data"
      if "0 \<le> code" "file_store api files fds" for files fds
    proof -
      note stat = cap(3) [OF that(1)]
      obtain r st where "fileXioGetStat api (ascii ''hdd0:__mbr'') w1 = (r, st, w')" using stat by blast
      then show ?thesis
        using file_store.getstat_effect(1) [OF that(2)] loaded_stored [OF that(2) data(6-8)] cap(3) [OF that(1)] by auto
    qed
    show ?thesis using cap usable kept extends_trans [OF w1 cap(1)] by fastforce
  qed
  then show "extends inspecting w w'" "source_code res = code"
    "code < 0 \<Longrightarrow> source_payload source' = None \<and> source_stage res \<noteq> BOOTSTRAP_SOURCE_STAGE_NONE \<and>
      (\<exists>e. app_error_get (last_errors w') = Some e \<and> err_code e = code)"
    "0 \<le> code \<Longrightarrow> \<exists>data. source_usable source' res data \<and>
      (\<forall>files fds. file_store api files fds \<longrightarrow> files (store w') (source_path source') = Some data)"
    by blast+
qed

section \<open>Properties\<close>


text \<open>A memory card with a payload, and a disk whose \<open>__mbr\<close> has room.\<close>

definition roomy_platform :: "memory platform" where
  "roomy_platform = memory_platform\<lparr>fx_getstat := (\<lambda>p m.
     if p = ascii ''hdd0:__mbr''
     then (0, \<lparr>st_mode = 0, st_attr = 0, st_size = 0x40000, st_hisize = 0, st_private_5 = 0\<rparr>, m)
     else mem_getstat p m)\<rparr>"

definition prepared_sample :: "int \<times> bootstrap_source \<times> bootstrap_source_result \<times> memory file_world" where
  "prepared_sample = bootstrap_source_prepare roomy_platform 0 (bootstrap_source_init 0)
    (memory_with (ascii ''mc0:/MBR.XIN'') sample_kelf)"

lemma prepared_sample_code: "fst prepared_sample = 0"
  by code_simp


end
