(* ===== verification/BootstrapTransaction.thy ===== *)
theory BootstrapTransaction
  imports HddTransport
begin

text \<open>
  The sequencing of a bootstrap update: \<open>src/bootstrap_transaction.c\<close> and its binding to the
  console's transport, \<open>src/bootstrap_transaction_ps2.c\<close>.  A pointer argument that the code
  compares with \<open>NULL\<close> is an option; the operations are functions on the state \<open>'w\<close> their
  \<open>context\<close> stands for.  The lemmas show, for every driver, that the pointer is only
  touched after the whole payload has been written, flushed and read back equal.  The controller
  polling around a transaction (\<open>pad_activity_*\<close>) does not touch the disk and is left out.
\<close>

section \<open>The portable sequencer\<close>

datatype bootstrap_transaction_stage = BOOTSTRAP_TRANSACTION_STAGE_NONE
  | BOOTSTRAP_TRANSACTION_STAGE_PAYLOAD | BOOTSTRAP_TRANSACTION_STAGE_POINTER_SET
  | BOOTSTRAP_TRANSACTION_STAGE_POINTER_VERIFY

abbreviation (input) BOOTSTRAP_TRANSACTION_INVALID_ARGUMENT :: int where
  "BOOTSTRAP_TRANSACTION_INVALID_ARGUMENT \<equiv> - 300"

record bootstrap_transaction_result =
  result_stage :: bootstrap_transaction_stage
  result_code :: int

record 'w bootstrap_transaction_ops =
  write_payload_verified :: "(byte list \<Rightarrow> u32 \<Rightarrow> u32 \<Rightarrow> 'w \<Rightarrow> int \<times> 'w) option"
  set_osd_mbr :: "(u32 \<Rightarrow> u32 \<Rightarrow> 'w \<Rightarrow> int \<times> 'w) option"
  verify_osd_mbr :: "(byte list \<Rightarrow> u32 \<Rightarrow> u32 \<Rightarrow> 'w \<Rightarrow> int \<times> byte list \<times> 'w) option"

definition reset_result ::
    "bootstrap_transaction_result option \<Rightarrow> bootstrap_transaction_result option" where
  "reset_result result = map_option (\<lambda>_. \<lparr>result_stage = BOOTSTRAP_TRANSACTION_STAGE_NONE,
    result_code = 0\<rparr>) result"

definition fail_result :: "bootstrap_transaction_result option \<Rightarrow> bootstrap_transaction_stage \<Rightarrow>
    int \<Rightarrow> int \<times> bootstrap_transaction_result option" where
  "fail_result result stage code =
    (code, map_option (\<lambda>_. \<lparr>result_stage = stage, result_code = code\<rparr>) result)"

text \<open>
  A call returns its code, the header buffer, the result record and the next state.
\<close>

type_synonym 'w transaction_outcome =
  "int \<times> byte list option \<times> bootstrap_transaction_result option \<times> 'w"

definition transaction_fail :: "byte list option \<Rightarrow> bootstrap_transaction_result option \<Rightarrow>
    bootstrap_transaction_stage \<Rightarrow> int \<Rightarrow> 'w \<Rightarrow> 'w transaction_outcome" where
  "transaction_fail header result stage code w =
    (let (c, res) = fail_result result stage code in (c, header, res, w))"

definition bootstrap_transaction_set_pointer ::
    "'w bootstrap_transaction_ops option \<Rightarrow> byte list option \<Rightarrow> u32 \<Rightarrow> u32 \<Rightarrow>
      bootstrap_transaction_result option \<Rightarrow> 'w \<Rightarrow> 'w transaction_outcome" where
  "bootstrap_transaction_set_pointer ops header start nsectors result w =
    (let res = reset_result result in
     case (ops, res, header) of
       (Some op, Some _, Some h) \<Rightarrow>
         (case (set_osd_mbr op, verify_osd_mbr op) of
           (Some set_pointer, Some verify) \<Rightarrow>
             (let (code, w1) = set_pointer start nsectors w in
              if code < 0
              then transaction_fail header res BOOTSTRAP_TRANSACTION_STAGE_POINTER_SET code w1
              else let (code, h1, w2) = verify h start nsectors w1 in
                if code < 0
                then transaction_fail (Some h1) res BOOTSTRAP_TRANSACTION_STAGE_POINTER_VERIFY code w2
                else (0, Some h1, res, w2))
         | _ \<Rightarrow> transaction_fail header res BOOTSTRAP_TRANSACTION_STAGE_NONE
                 BOOTSTRAP_TRANSACTION_INVALID_ARGUMENT w)
     | _ \<Rightarrow> transaction_fail header res BOOTSTRAP_TRANSACTION_STAGE_NONE
             BOOTSTRAP_TRANSACTION_INVALID_ARGUMENT w)"

definition bootstrap_transaction_activate ::
    "'w bootstrap_transaction_ops option \<Rightarrow> byte list option \<Rightarrow> byte list option \<Rightarrow> u32 \<Rightarrow>
      u32 \<Rightarrow> u32 \<Rightarrow> ('w \<Rightarrow> 'w) option \<Rightarrow> bootstrap_transaction_result option \<Rightarrow> 'w \<Rightarrow>
      'w transaction_outcome" where
  "bootstrap_transaction_activate ops header payload payload_size start nsectors release_payload
      result w =
    (let res = reset_result result in
     case (ops, res, header, payload) of
       (Some op, Some _, Some _, Some p) \<Rightarrow>
         (if payload_size = 0 then transaction_fail header res BOOTSTRAP_TRANSACTION_STAGE_NONE
            BOOTSTRAP_TRANSACTION_INVALID_ARGUMENT w
          else case (write_payload_verified op, set_osd_mbr op, verify_osd_mbr op) of
            (Some write_payload, Some _, Some _) \<Rightarrow>
              (let (code, w1) = write_payload p payload_size start w;
                   w2 = (case release_payload of None \<Rightarrow> w1 | Some release \<Rightarrow> release w1) in
               if code < 0
               then transaction_fail header res BOOTSTRAP_TRANSACTION_STAGE_PAYLOAD code w2
               else bootstrap_transaction_set_pointer ops header start nsectors res w2)
          | _ \<Rightarrow> transaction_fail header res BOOTSTRAP_TRANSACTION_STAGE_NONE
                  BOOTSTRAP_TRANSACTION_INVALID_ARGUMENT w)
     | _ \<Rightarrow> transaction_fail header res BOOTSTRAP_TRANSACTION_STAGE_NONE
             BOOTSTRAP_TRANSACTION_INVALID_ARGUMENT w)"

section \<open>The binding to the console\<close>

definition ps2_write_payload_verified ::
    "'d hdd_driver \<Rightarrow> byte list \<Rightarrow> u32 \<Rightarrow> u32 \<Rightarrow> 'd hdd_world \<Rightarrow> int \<times> 'd hdd_world" where
  "ps2_write_payload_verified drv payload payload_size start_sector w =
    hdd_write_payload_verified drv payload payload_size start_sector w"

definition ps2_set_osd_mbr ::
    "'d hdd_driver \<Rightarrow> u32 \<Rightarrow> u32 \<Rightarrow> 'd hdd_world \<Rightarrow> int \<times> 'd hdd_world" where
  "ps2_set_osd_mbr drv start nsectors w = hdd_write_set_osd_mbr drv start nsectors w"

definition ps2_verify_osd_mbr ::
    "'d hdd_driver \<Rightarrow> byte list \<Rightarrow> u32 \<Rightarrow> u32 \<Rightarrow> 'd hdd_world \<Rightarrow> int \<times> byte list \<times> 'd hdd_world" where
  "ps2_verify_osd_mbr drv destination expected_start expected_size w =
    hdd_write_verify_osd_mbr drv destination expected_start expected_size w"

definition ps2_ops :: "'d hdd_driver \<Rightarrow> 'd hdd_world bootstrap_transaction_ops" where
  "ps2_ops drv = \<lparr>write_payload_verified = Some (ps2_write_payload_verified drv),
    set_osd_mbr = Some (ps2_set_osd_mbr drv), verify_osd_mbr = Some (ps2_verify_osd_mbr drv)\<rparr>"

definition bootstrap_transaction_ps2_set_pointer ::
    "'d hdd_driver \<Rightarrow> byte list option \<Rightarrow> u32 \<Rightarrow> u32 \<Rightarrow> bootstrap_transaction_result option \<Rightarrow>
      'd hdd_world \<Rightarrow> 'd hdd_world transaction_outcome" where
  "bootstrap_transaction_ps2_set_pointer drv header start nsectors result w =
    bootstrap_transaction_set_pointer (Some (ps2_ops drv)) header start nsectors result w"

definition bootstrap_transaction_ps2_activate ::
    "'d hdd_driver \<Rightarrow> byte list option \<Rightarrow> byte list option \<Rightarrow> u32 \<Rightarrow> u32 \<Rightarrow> u32 \<Rightarrow>
      ('d hdd_world \<Rightarrow> 'd hdd_world) option \<Rightarrow> bootstrap_transaction_result option \<Rightarrow>
      'd hdd_world \<Rightarrow> 'd hdd_world transaction_outcome" where
  "bootstrap_transaction_ps2_activate drv header payload payload_size start nsectors
      release_payload result w =
    bootstrap_transaction_activate (Some (ps2_ops drv)) header payload payload_size start nsectors
      release_payload result w"

section \<open>The transport contract and its client\<close>

text \<open>
  What the sequencer relies on: each operation only appends to the log of disk commands, a
  payload write never touches the pointer and returns 0 only when the payload is confirmed, and
  the verification returns 0 only with a standard header that has the requested pointer.
\<close>

definition header_points_to :: "u32 \<Rightarrow> u32 \<Rightarrow> byte list \<Rightarrow> bool" where
  "header_points_to start n h \<longleftrightarrow> is_standard_apa_header h \<and>
    read_le32 h APA_OSD_START_OFFSET = start \<and> read_le32 h APA_OSD_SIZE_OFFSET = n"

definition pointer_success :: "u32 \<Rightarrow> u32 \<Rightarrow> hdd_event list \<Rightarrow> byte list option \<Rightarrow> bool" where
  "pointer_success start n evs h' \<longleftrightarrow>
    (\<exists>committed r out hdr. evs = committed @ [(HDIOC_READSECTOR 0 2, r, out)] \<and>
      pointer_committed start n committed \<and> 0 \<le> r \<and> hdr = fill_buffer 1024 out \<and>
      h' = Some hdr \<and> header_points_to start n hdr)"

definition pointer_command :: "u32 \<Rightarrow> u32 \<Rightarrow> hdd_command \<Rightarrow> bool" where
  "pointer_command start n c \<longleftrightarrow> c = HDIOC_SETOSDMBR start n \<or> c = HDIOC_FLUSH \<or> c = HDIOC_READSECTOR 0 2"

locale bootstrap_transport =
  fixes log :: "'w \<Rightarrow> hdd_event list"
    and write_payload :: "byte list \<Rightarrow> u32 \<Rightarrow> u32 \<Rightarrow> 'w \<Rightarrow> int \<times> 'w"
    and set_pointer :: "u32 \<Rightarrow> u32 \<Rightarrow> 'w \<Rightarrow> int \<times> 'w"
    and verify_pointer :: "byte list \<Rightarrow> u32 \<Rightarrow> u32 \<Rightarrow> 'w \<Rightarrow> int \<times> byte list \<times> 'w"
  assumes write_log: "write_payload p n start w = (r, w') \<Longrightarrow> unat n = length p \<Longrightarrow>
      \<exists>evs. log w' = log w @ evs \<and> only (\<lambda>c. \<not> is_pointer c) evs \<and> r \<le> 0 \<and>
        (r = 0 \<longrightarrow> payload_confirmed start p evs)"
    and set_log: "set_pointer start n w = (r, w') \<Longrightarrow>
      \<exists>evs. log w' = log w @ evs \<and> only (\<lambda>c. c = HDIOC_SETOSDMBR start n \<or> c = HDIOC_FLUSH) evs \<and>
        (0 \<le> r \<longrightarrow> pointer_committed start n evs)"
    and verify_log: "verify_pointer dst start n w = (r, dst', w') \<Longrightarrow>
      \<exists>r1 out. log w' = log w @ [(HDIOC_READSECTOR 0 2, r1, out)] \<and> r \<le> 0 \<and>
        (r < 0 \<longrightarrow> dst' = dst) \<and>
        (r = 0 \<longrightarrow> 0 \<le> r1 \<and> dst' = fill_buffer 1024 out \<and> header_points_to start n dst')"
begin

abbreviation ops :: "'w bootstrap_transaction_ops" where
  "ops \<equiv> \<lparr>write_payload_verified = Some write_payload, set_osd_mbr = Some set_pointer,
    verify_osd_mbr = Some verify_pointer\<rparr>"

lemma set_pointer_unfold:
  assumes "set_pointer start n w = (c1, w1)" and "verify_pointer h start n w1 = (c2, h2, w2)"
  shows "bootstrap_transaction_set_pointer (Some ops) (Some h) start n (Some res) w =
    (if c1 < 0 then (c1, Some h, Some \<lparr>result_stage = BOOTSTRAP_TRANSACTION_STAGE_POINTER_SET,
       result_code = c1\<rparr>, w1)
     else if c2 < 0 then (c2, Some h2, Some \<lparr>result_stage =
       BOOTSTRAP_TRANSACTION_STAGE_POINTER_VERIFY, result_code = c2\<rparr>, w2)
     else (0, Some h2, Some \<lparr>result_stage = BOOTSTRAP_TRANSACTION_STAGE_NONE, result_code = 0\<rparr>,
       w2))"
  using assms
  by (simp add: bootstrap_transaction_set_pointer_def transaction_fail_def fail_result_def
      reset_result_def Let_def)

lemma set_pointer_outcome:
  assumes "bootstrap_transaction_set_pointer (Some ops) (Some h) start n (Some res) w =
    (code, h', res', w')"
  shows "\<exists>evs. log w' = log w @ evs \<and> only (\<lambda>c. \<not> is_write c) evs \<and> code \<le> 0 \<and>
    (\<exists>stage. res' = Some \<lparr>result_stage = stage, result_code = code\<rparr> \<and>
      stage \<noteq> BOOTSTRAP_TRANSACTION_STAGE_PAYLOAD \<and>
      (stage = BOOTSTRAP_TRANSACTION_STAGE_NONE \<longleftrightarrow> code = 0)) \<and>
    (code < 0 \<longrightarrow> h' = Some h) \<and> (code = 0 \<longrightarrow> pointer_success start n evs h')"
proof -
  obtain c1 w1 where set: "set_pointer start n w = (c1, w1)" by (cases "set_pointer start n w")
  obtain c2 h2 w2 where ver: "verify_pointer h start n w1 = (c2, h2, w2)"
    by (cases "verify_pointer h start n w1")
  from set_log [OF set] obtain evs1 where e1: "log w1 = log w @ evs1"
    "only (\<lambda>c. c = HDIOC_SETOSDMBR start n \<or> c = HDIOC_FLUSH) evs1"
    "0 \<le> c1 \<longrightarrow> pointer_committed start n evs1" by blast
  have nw: "only (\<lambda>c. \<not> is_write c) evs1" using e1(2) by (rule only_mono) auto
  from verify_log [OF ver] obtain r out where e2:
    "log w2 = log w1 @ [(HDIOC_READSECTOR 0 2, r, out)]" "c2 \<le> 0" "c2 < 0 \<longrightarrow> h2 = h"
    "c2 = 0 \<longrightarrow> 0 \<le> r \<and> h2 = fill_buffer 1024 out \<and> header_points_to start n h2" by blast
  have run: "(code, h', res', w') = (if c1 < 0
       then (c1, Some h, Some \<lparr>result_stage = BOOTSTRAP_TRANSACTION_STAGE_POINTER_SET,
         result_code = c1\<rparr>, w1)
       else if c2 < 0 then (c2, Some h2, Some \<lparr>result_stage =
         BOOTSTRAP_TRANSACTION_STAGE_POINTER_VERIFY, result_code = c2\<rparr>, w2)
       else (0, Some h2, Some \<lparr>result_stage = BOOTSTRAP_TRANSACTION_STAGE_NONE, result_code = 0\<rparr>,
         w2))"
    using set_pointer_unfold [OF set ver, of res] assms by simp
  consider "c1 < 0" | "0 \<le> c1" "c2 < 0" | "0 \<le> c1" "c2 = 0" using e2(2) by linarith
  then show ?thesis
  proof cases
    case 1
    then show ?thesis using run e1(1) nw by (intro exI [of _ evs1]) simp
  next
    case 2
    then show ?thesis
      using run e1(1) nw e2(1,3)
      by (intro exI [of _ "evs1 @ [(HDIOC_READSECTOR 0 2, r, out)]"]) simp
  next
    case 3
    then have "pointer_success start n (evs1 @ [(HDIOC_READSECTOR 0 2, r, out)]) h'"
      using run e1(3) e2(4) unfolding pointer_success_def by auto
    then show ?thesis
      using 3 run e1(1) nw e2(1)
      by (intro exI [of _ "evs1 @ [(HDIOC_READSECTOR 0 2, r, out)]"]) simp
  qed
qed

text \<open>All a pointer update asks of the disk: the new pointer, flushes, and the master read back.\<close>

lemma set_pointer_commands:
  assumes "bootstrap_transaction_set_pointer (Some ops) (Some h) start n (Some res) w = (code, h', res', w')"
  shows "\<exists>evs. log w' = log w @ evs \<and> only (pointer_command start n) evs"
proof -
  obtain c1 w1 where set: "set_pointer start n w = (c1, w1)" by (cases "set_pointer start n w")
  obtain c2 h2 w2 where ver: "verify_pointer h start n w1 = (c2, h2, w2)"
    by (cases "verify_pointer h start n w1")
  from set_log [OF set] obtain evs1 where e1: "log w1 = log w @ evs1"
    "only (\<lambda>c. c = HDIOC_SETOSDMBR start n \<or> c = HDIOC_FLUSH) evs1" by blast
  have only: "only (pointer_command start n) evs1"
    using e1(2) by (rule only_mono) (auto simp: pointer_command_def)
  from verify_log [OF ver] obtain r out where e2: "log w2 = log w1 @ [(HDIOC_READSECTOR 0 2, r, out)]" by blast
  have "w' = w1 \<or> w' = w2"
    using set_pointer_unfold [OF set ver, of res] assms by (auto split: if_splits)
  then show ?thesis
    using e1(1) e2 only
    by (auto simp: pointer_command_def intro: exI [of _ evs1] exI [of _ "evs1 @ [(HDIOC_READSECTOR 0 2, r, out)]"])
qed

lemma activate_outcome:
  assumes run: "bootstrap_transaction_activate (Some ops) (Some h) (Some p) n start sectors release
      (Some res) w = (code, h', res', w')"
    and n: "unat n = length p" and p: "p \<noteq> []"
    and release: "\<And>f w. release = Some f \<Longrightarrow> log (f w) = log w"
  shows "\<exists>payload_evs pointer_evs. log w' = log w @ payload_evs @ pointer_evs \<and>
    only (\<lambda>c. \<not> is_pointer c) payload_evs \<and> only (\<lambda>c. \<not> is_write c) pointer_evs \<and> code \<le> 0 \<and>
    (pointer_evs = [] \<or> payload_confirmed start p payload_evs) \<and>
    (\<exists>stage. res' = Some \<lparr>result_stage = stage, result_code = code\<rparr> \<and>
      (stage = BOOTSTRAP_TRANSACTION_STAGE_NONE \<longleftrightarrow> code = 0) \<and>
      (stage = BOOTSTRAP_TRANSACTION_STAGE_PAYLOAD \<longrightarrow> pointer_evs = [])) \<and>
    (code < 0 \<longrightarrow> h' = Some h) \<and>
    (code = 0 \<longrightarrow> payload_confirmed start p payload_evs \<and>
      pointer_success start sectors pointer_evs h')"
proof -
  obtain c1 w1 where wr: "write_payload p n start w = (c1, w1)" by (cases "write_payload p n start w")
  from write_log [OF wr n] obtain pevs where e1: "log w1 = log w @ pevs"
    "only (\<lambda>c. \<not> is_pointer c) pevs" "c1 \<le> 0" "c1 = 0 \<longrightarrow> payload_confirmed start p pevs" by blast
  define w2 where "w2 = (case release of None \<Rightarrow> w1 | Some f \<Rightarrow> f w1)"
  have w2: "log w2 = log w @ pevs" using e1(1) release by (auto simp: w2_def split: option.split)
  have nz: "n \<noteq> 0" using n p by auto
  let ?r0 = "\<lparr>result_stage = BOOTSTRAP_TRANSACTION_STAGE_NONE, result_code = 0\<rparr>"
  have unfold: "(code, h', res', w') = (if c1 < 0
      then (c1, Some h, Some \<lparr>result_stage = BOOTSTRAP_TRANSACTION_STAGE_PAYLOAD,
        result_code = c1\<rparr>, w2)
      else bootstrap_transaction_set_pointer (Some ops) (Some h) start sectors (Some ?r0) w2)"
    using run [symmetric] wr nz
    by (simp add: bootstrap_transaction_activate_def transaction_fail_def fail_result_def
        reset_result_def Let_def w2_def cong: if_cong)
  show ?thesis
  proof (cases "c1 < 0")
    case True
    then show ?thesis
      using unfold w2 e1(2) by (intro exI [of _ pevs] exI [of _ "[]"]) simp
  next
    case False
    then have "bootstrap_transaction_set_pointer (Some ops) (Some h) start sectors (Some ?r0) w2 =
        (code, h', res', w')" and conf: "payload_confirmed start p pevs"
      using unfold e1(3,4) by simp_all
    from set_pointer_outcome [OF this(1)] obtain evs stage where e2: "log w' = log w2 @ evs"
      "only (\<lambda>c. \<not> is_write c) evs" "code \<le> 0"
      "res' = Some \<lparr>result_stage = stage, result_code = code\<rparr>"
      "stage \<noteq> BOOTSTRAP_TRANSACTION_STAGE_PAYLOAD"
      "stage = BOOTSTRAP_TRANSACTION_STAGE_NONE \<longleftrightarrow> code = 0"
      "code < 0 \<longrightarrow> h' = Some h" "code = 0 \<longrightarrow> pointer_success start sectors evs h'" by blast
    then show ?thesis
      using w2 e1(2) conf by (intro exI [of _ pevs] exI [of _ evs]) simp
  qed
qed

end

interpretation ps2: bootstrap_transport events "ps2_write_payload_verified drv"
  "ps2_set_osd_mbr drv" "ps2_verify_osd_mbr drv" for drv :: "'d hdd_driver"
proof unfold_locales
  fix p n start and w w' :: "'d hdd_world" and r
  assume "ps2_write_payload_verified drv p n start w = (r, w')" "unat n = length p"
  then show "\<exists>evs. events w' = events w @ evs \<and> only (\<lambda>c. \<not> is_pointer c) evs \<and> r \<le> 0 \<and>
      (r = 0 \<longrightarrow> payload_confirmed start p evs)"
    unfolding ps2_write_payload_verified_def by (rule payload_verified_events)
next
  fix start n and w w' :: "'d hdd_world" and r
  assume "ps2_set_osd_mbr drv start n w = (r, w')"
  then show "\<exists>evs. events w' = events w @ evs \<and>
      only (\<lambda>c. c = HDIOC_SETOSDMBR start n \<or> c = HDIOC_FLUSH) evs \<and>
      (0 \<le> r \<longrightarrow> pointer_committed start n evs)"
    unfolding ps2_set_osd_mbr_def by (rule set_osd_mbr_events)
next
  fix dst start n dst' and w w' :: "'d hdd_world" and r
  assume "ps2_verify_osd_mbr drv dst start n w = (r, dst', w')"
  then show "\<exists>r1 out. events w' = events w @ [(HDIOC_READSECTOR 0 2, r1, out)] \<and> r \<le> 0 \<and>
      (r < 0 \<longrightarrow> dst' = dst) \<and>
      (r = 0 \<longrightarrow> 0 \<le> r1 \<and> dst' = fill_buffer 1024 out \<and> header_points_to start n dst')"
    unfolding ps2_verify_osd_mbr_def header_points_to_def by (rule verify_osd_mbr_events)
qed

text \<open>The callback that frees the payload's memory issues no disk command.\<close>

definition release_silent :: "('d hdd_world \<Rightarrow> 'd hdd_world) option \<Rightarrow> bool" where
  "release_silent release \<longleftrightarrow> (\<forall>f w. release = Some f \<longrightarrow> events (f w) = events w)"

lemma ps2_activate_outcome:
  assumes "bootstrap_transaction_ps2_activate drv (Some h) (Some p) n start sectors release
      (Some res) w = (code, h', res', w')"
    and "unat n = length p" and "p \<noteq> []"
    and silent: "release_silent release"
  shows "\<exists>payload_evs pointer_evs. events w' = events w @ payload_evs @ pointer_evs \<and>
    only (\<lambda>c. \<not> is_pointer c) payload_evs \<and> only (\<lambda>c. \<not> is_write c) pointer_evs \<and> code \<le> 0 \<and>
    (pointer_evs = [] \<or> payload_confirmed start p payload_evs) \<and>
    (\<exists>stage. res' = Some \<lparr>result_stage = stage, result_code = code\<rparr> \<and>
      (stage = BOOTSTRAP_TRANSACTION_STAGE_NONE \<longleftrightarrow> code = 0) \<and>
      (stage = BOOTSTRAP_TRANSACTION_STAGE_PAYLOAD \<longrightarrow> pointer_evs = [])) \<and>
    (code < 0 \<longrightarrow> h' = Some h) \<and>
    (code = 0 \<longrightarrow> payload_confirmed start p payload_evs \<and>
      pointer_success start sectors pointer_evs h')"
  by (rule ps2.activate_outcome [OF assms(1) [unfolded bootstrap_transaction_ps2_activate_def
        ps2_ops_def] assms(2,3)])
    (use silent in \<open>simp add: release_silent_def\<close>)

section \<open>Properties\<close>

text \<open>
  Property C2: whatever the disk answers, activating a payload asks for no pointer update before
  the payload has been confirmed: if any command of a run sets the pointer, the commands before
  it wrote every chunk of the payload in order at consecutive sectors, flushed, and read every
  chunk back equal, all of it successful, and no sector is written after that.
\<close>

theorem pointer_after_payload:
  assumes "bootstrap_transaction_ps2_activate drv (Some header) (Some payload) payload_size start
      sectors release (Some result) w = (code, header', result', w')"
    and "unat payload_size = length payload" and "payload \<noteq> []"
    and "release_silent release"
  shows "\<exists>before after. events w' = events w @ before @ after \<and>
    only (\<lambda>c. \<not> is_pointer c) before \<and> only (\<lambda>c. \<not> is_write c) after \<and>
    (after = [] \<or> payload_confirmed start payload before)"
  using ps2_activate_outcome [OF assms] by blast

definition sample_payload :: "byte list" where
  "sample_payload = replicate 700 0"

definition sample_activation :: "unit hdd_world transaction_outcome" where
  "sample_activation = bootstrap_transaction_ps2_activate zero_driver (Some (replicate 1024 7))
    (Some sample_payload) 700 8192 2 None
    (Some \<lparr>result_stage = BOOTSTRAP_TRANSACTION_STAGE_PAYLOAD, result_code = - 1\<rparr>) (fresh_world ())"

lemma sample_activation_split:
  "sample_activation = (fst sample_activation, fst (snd sample_activation),
    fst (snd (snd sample_activation)), snd (snd (snd sample_activation)))"
  by simp

theorem pointer_after_payload_witness:
  "\<exists>before after. events (snd (snd (snd sample_activation))) = before @ after \<and>
    only (\<lambda>c. \<not> is_pointer c) before \<and> only (\<lambda>c. \<not> is_write c) after \<and>
    (after = [] \<or> payload_confirmed 8192 sample_payload before)"
  using pointer_after_payload [OF sample_activation_split [unfolded sample_activation_def]]
  by (simp add: sample_payload_def sample_activation_def fresh_world_def release_silent_def)



end
