(* ===== verification/BootController.thy ===== *)
theory BootController
  imports BootstrapSource BootstrapTransaction RescueStorage
begin

text \<open>
  The bootstrap workflows: \<open>src/bootstrap_controller_ps2.c\<close>, with \<open>wait_for_chord\<close> of
  \<open>src/platform.c\<close> and \<open>app_ui_fatal_screen\<close> of \<open>src/app_ui_ps2.c\<close>.  A workflow returns how it
  ended, the header buffer, the boot-chain evidence and the session; waiting for the controller may
  last forever, so its result is an option.  Screens and the progress display are left out.  The
  lemmas show that a workflow changes the disk only after the mandatory backup of the header was
  confirmed on the backup device and the user held the buttons, and then only by the modelled
  transaction.
\<close>

section \<open>The user\<close>

abbreviation (input) PAD_L2 :: u32 where "PAD_L2 \<equiv> 0x0100"
abbreviation (input) PAD_R2 :: u32 where "PAD_R2 \<equiv> 0x0200"
abbreviation (input) PAD_L1 :: u32 where "PAD_L1 \<equiv> 0x0400"
abbreviation (input) PAD_R1 :: u32 where "PAD_R1 \<equiv> 0x0800"
abbreviation (input) PAD_TRIANGLE :: u32 where "PAD_TRIANGLE \<equiv> 0x1000"
abbreviation (input) PAD_CIRCLE :: u32 where "PAD_CIRCLE \<equiv> 0x2000"
abbreviation (input) PAD_CROSS :: u32 where "PAD_CROSS \<equiv> 0x4000"
abbreviation (input) PAD_SQUARE :: u32 where "PAD_SQUARE \<equiv> 0x8000"

unbundle bit_operations_syntax

partial_function (option) wait_for_chord ::
    "'f platform \<Rightarrow> u32 \<Rightarrow> 'f file_world \<Rightarrow> (bool \<times> 'f file_world) option" where
  "wait_for_chord api chord w =
    (let (held, w1) = held_buttons api w in
     case held of
       None \<Rightarrow> wait_for_chord api chord w1
     | Some b \<Rightarrow>
         if b AND PAD_TRIANGLE \<noteq> 0 then Some (False, w1)
         else if b AND chord = chord then Some (True, w1)
         else wait_for_chord api chord w1)"

text \<open>A workflow returns to its caller, or stops in the screen that only offers a restart.\<close>

datatype flow_end = Returned | Stopped string int

type_synonym 'f flow = "(flow_end \<times> byte list \<times> boot_chain_info \<times> 'f session) option"

definition print_error_details :: "app_error_domain \<Rightarrow> int \<Rightarrow> bool \<Rightarrow> 'f session \<Rightarrow> 'f session" where
  "print_error_details fallback code consume s =
    (let (domain, ctx) = (case app_error_get (last_errors (se_world s)) of
           Some e \<Rightarrow> if err_code e = code
             then (err_domain e, if err_context e \<noteq> [] then Some (err_context e) else None) else (fallback, None)
         | None \<Rightarrow> (fallback, None));
         info = app_error_describe domain code;
         logged = log_items [Lit ''Error detail: id='', Lit (info_symbol info), Lit '' code='', Dec code,
           Lit '' context='', Lit (case ctx of None \<Rightarrow> ''(none)'' | Some c \<Rightarrow> c),
           Lit '' summary='', Lit (info_summary info)] s in
     if consume
     then logged\<lparr>se_world := (se_world logged)\<lparr>last_errors := app_error_clear (last_errors (se_world logged))\<rparr>\<rparr>
     else logged)"

text \<open>
  A screen with a result reports the recorded error, if any, and forgets it; the press that closes
  the screen is taken to come.  The fatal screen reports its error and never returns.
\<close>

definition app_ui_wait_to_return :: "'f session \<Rightarrow> 'f session" where
  "app_ui_wait_to_return s = (case app_error_get (last_errors (se_world s)) of
     Some e \<Rightarrow> print_error_details (err_domain e) (err_code e) True s | None \<Rightarrow> s)"

definition app_ui_fatal_screen :: "'f platform \<Rightarrow> string \<Rightarrow> int \<Rightarrow> 'f session \<Rightarrow> 'f session" where
  "app_ui_fatal_screen api message code s = print_error_details APP_ERROR_DOMAIN_STARTUP code False
    (flush_log api (log_items [Lit ''FATAL: '', Lit message, Lit '' (code '', Dec code, Lit '')''] s))"

definition diagnostics_controller_screen ::
    "'f platform \<Rightarrow> byte list \<Rightarrow> 'f session \<Rightarrow> boot_chain_info \<times> 'f session" where
  "diagnostics_controller_screen api header s =
    (let (info, s1) = diagnostics_controller_refresh api header True s in (info, app_ui_wait_to_return s1))"

section \<open>Steps\<close>

definition save_backup :: "'f platform \<Rightarrow> byte list \<Rightarrow> 'f session \<Rightarrow> path option \<times> 'f session" where
  "save_backup api header s =
    (let (p, d, w) = header_backup_save api (se_storage s) header (se_backup s) (se_world s) in
     (p, s\<lparr>se_backup := d, se_world := w\<rparr>))"

definition save_rescue_capsule ::
    "'f platform \<Rightarrow> byte list \<Rightarrow> boot_chain_info \<Rightarrow> 'f session \<Rightarrow> path option \<times> 'f session" where
  "save_rescue_capsule api header chain s =
    (let (p, w) = rescue_storage_save_current api (se_storage s) header (Some (bc_romver chain))
         (Some (bc_family chain)) (Some (bc_confidence chain)) (se_world s) in
     (p, s\<lparr>se_world := w\<rparr>))"

definition load_backup ::
    "'f platform \<Rightarrow> byte list \<Rightarrow> 'f session \<Rightarrow> (path \<times> u32 \<times> u32) option \<times> 'f session" where
  "load_backup api header s =
    (let (found, w) = header_backup_find_enabled api (se_storage s) header HEADER_BACKUP_PATH_SIZE (se_world s) in
     (found, s\<lparr>se_world := w\<rparr>))"

definition backup_error_screen :: "'f platform \<Rightarrow> 'f session \<Rightarrow> 'f session" where
  "backup_error_screen api s =
    (let d = se_backup s;
         logged = fold (\<lambda>i. log_items [Lit ''Backup slot '', Uns i, Lit '' path='', Str (hb_path d ! i),
             Lit '' read='', Dec (hb_read_result d ! i), Lit '' write='', Dec (hb_write_result d ! i),
             Lit '' verify='', Dec (hb_verify_result d ! i)]) [0..<HEADER_BACKUP_SLOT_COUNT]
           (log_items [Lit ''Mandatory header backup failed; no HDD write was performed''] s) in
     app_ui_wait_to_return (flush_log api logged))"

definition path_or :: "string \<Rightarrow> path option \<Rightarrow> format_item" where
  "path_or missing p = (case p of None \<Rightarrow> Lit missing | Some q \<Rightarrow> Str q)"

definition live_bounds :: "'f platform \<Rightarrow> u32 \<Rightarrow> u32 \<Rightarrow> 'f session \<Rightarrow> int \<times> 'f session" where
  "live_bounds api start sectors s =
    (let (r, h) = hdd_validate_payload_bounds (fx_hdd api) start sectors (disk_view (se_world s)) in
     (r, s\<lparr>se_world := after_disk (se_world s) h\<rparr>))"

definition ask_chord :: "'f platform \<Rightarrow> u32 \<Rightarrow> 'f session \<Rightarrow> (bool \<times> 'f session) option" where
  "ask_chord api chord s = map_option (\<lambda>(yes, w). (yes, s\<lparr>se_world := w\<rparr>)) (wait_for_chord api chord (se_world s))"

abbreviation (input) fresh_transaction :: bootstrap_transaction_result where
  "fresh_transaction \<equiv> \<lparr>result_stage = BOOTSTRAP_TRANSACTION_STAGE_NONE, result_code = 0\<rparr>"

text \<open>The two transactions on the session's disk: the code, the stage, the header.\<close>

definition set_pointer_now ::
    "'f platform \<Rightarrow> byte list \<Rightarrow> u32 \<Rightarrow> u32 \<Rightarrow> 'f session \<Rightarrow>
      int \<times> bootstrap_transaction_stage \<times> byte list \<times> 'f session" where
  "set_pointer_now api header start sectors s =
    (let (code, h, res, d) = bootstrap_transaction_ps2_set_pointer (fx_hdd api) (Some header) start sectors
         (Some fresh_transaction) (disk_view (se_world s)) in
     (code, result_stage (the res), the h, s\<lparr>se_world := after_disk (se_world s) d\<rparr>))"

definition activate_now ::
    "'f platform \<Rightarrow> byte list \<Rightarrow> byte list \<Rightarrow> u32 \<Rightarrow> u32 \<Rightarrow> u32 \<Rightarrow> 'f session \<Rightarrow>
      int \<times> bootstrap_transaction_stage \<times> byte list \<times> 'f session" where
  "activate_now api header payload nbytes start sectors s =
    (let (code, h, res, d) = bootstrap_transaction_ps2_activate (fx_hdd api) (Some header) (Some payload)
         nbytes start sectors (Some id) (Some fresh_transaction) (disk_view (se_world s)) in
     (code, result_stage (the res), the h, s\<lparr>se_world := after_disk (se_world s) d\<rparr>))"

section \<open>The workflows\<close>

definition bootstrap_controller_backup_current ::
    "'f platform \<Rightarrow> byte list \<Rightarrow> boot_chain_info \<Rightarrow> 'f session \<Rightarrow> 'f session" where
  "bootstrap_controller_backup_current api header chain s =
    (let (backup, s1) = save_backup api header s;
         (rescue, s2) = save_rescue_capsule api header chain s1 in
     app_ui_wait_to_return (flush_log api (log_items [Lit ''Standalone backup: header='', path_or ''FAILED'' backup,
       Lit '' rescue='', path_or ''FAILED'' rescue] s2)))"

definition bootstrap_controller_disable ::
    "'f platform \<Rightarrow> byte list \<Rightarrow> boot_chain_info \<Rightarrow> 'f session \<Rightarrow> 'f flow" where
  "bootstrap_controller_disable api header chain s =
    (let (backup, s1) = save_backup api header s in
     (case backup of
        None \<Rightarrow> Some (Returned, header, chain, backup_error_screen api s1)
      | Some p \<Rightarrow>
          let (rescue, s2) = save_rescue_capsule api header chain s1 in
          (case ask_chord api (PAD_L1 OR PAD_R1 OR PAD_CROSS) s2 of
             None \<Rightarrow> None
           | Some (yes, s3) \<Rightarrow>
               if \<not> yes then Some (Returned, header, chain, s3)
               else let (code, stage, h, s4) = set_pointer_now api header 0 0 s3 in
                 if code < 0
                 then let message = (if stage = BOOTSTRAP_TRANSACTION_STAGE_POINTER_SET
                        then ''HDIOC_SETOSDMBR failed.''
                        else ''Disable verification failed. Keep the backup.'') in
                   Some (Stopped message code, h, chain, app_ui_fatal_screen api message code s4)
                 else let s5 = log_items [Lit ''Bootstrap pointer disabled and verified; header backup='',
                          Str p, Lit ''; rescue='', path_or ''unavailable'' rescue] s4;
                          (info, s6) = diagnostics_controller_refresh api h True s5 in
                   Some (Returned, h, info, app_ui_wait_to_return s6))))"

definition restore_legacy_pointer ::
    "'f platform \<Rightarrow> byte list \<Rightarrow> boot_chain_info \<Rightarrow> 'f session \<Rightarrow> 'f flow" where
  "restore_legacy_pointer api header chain s =
    (let (found, s1) = load_backup api header s in
     (case found of
        None \<Rightarrow> Some (Returned, header, chain, app_ui_wait_to_return s1)
      | Some (source, start, sectors) \<Rightarrow>
          let (bounds, s2) = live_bounds api start sectors s1 in
          if bounds < 0
          then Some (Returned, header, chain, app_ui_wait_to_return (flush_log api (log_items
            [Lit ''Legacy restore rejected out-of-bounds pointer from '', Str source, Lit '': '', Dec bounds] s2)))
          else let (safety, s3) = save_backup api header s2 in
            (case safety of
               None \<Rightarrow> Some (Returned, header, chain, backup_error_screen api s3)
             | Some p \<Rightarrow>
                 (case ask_chord api (PAD_L1 OR PAD_R1 OR PAD_SQUARE) s3 of
                    None \<Rightarrow> None
                  | Some (yes, s4) \<Rightarrow>
                      if \<not> yes then Some (Returned, header, chain, s4)
                      else let (code, stage, h, s5) = set_pointer_now api header start sectors s4 in
                        if code < 0
                        then let message = (if stage = BOOTSTRAP_TRANSACTION_STAGE_POINTER_SET
                               then ''Bootstrap restore failed.'' else ''Restore verification failed.'') in
                          Some (Stopped message code, h, chain, app_ui_fatal_screen api message code s5)
                        else let s6 = log_items [Lit ''Legacy pointer-only restore completed from '',
                                 Str source, Lit ''; safety='', Str p] s5;
                                 (info, s7) = diagnostics_controller_refresh api h True s6 in
                          Some (Returned, h, info, app_ui_wait_to_return s7)))))"

text \<open>The part of a restore that starts from a usable capsule.\<close>

definition restore_capsule ::
    "'f platform \<Rightarrow> byte list \<Rightarrow> boot_chain_info \<Rightarrow> rescue_storage_entry \<Rightarrow> 'f session \<Rightarrow> 'f flow" where
  "restore_capsule api header chain entry s1 =
    (let info = entry_info entry;
         (bounds, s2) = live_bounds api (cap_payload_start info) (cap_payload_sectors info) s1 in
     if bounds < 0 then Some (Returned, header, chain, app_ui_wait_to_return s2)
     else let (safety, s3) = save_backup api header s2 in
       (case safety of
          None \<Rightarrow> Some (Returned, header, chain, backup_error_screen api s3)
        | Some p \<Rightarrow>
            (case ask_chord api (PAD_L1 OR PAD_R1 OR PAD_SQUARE) s3 of
               None \<Rightarrow> None
             | Some (yes, s4) \<Rightarrow>
                 if \<not> yes then Some (Returned, header, chain, s4)
                 else let (code, stage, h, s5) = activate_now api header
                        (the (rescue_storage_payload (Some entry))) (cap_payload_bytes info)
                        (cap_payload_start info) (cap_payload_sectors info) s4 in
                   if code < 0
                   then let message = (if stage = BOOTSTRAP_TRANSACTION_STAGE_PAYLOAD
                          then ''Rescue payload verification failed; pointer remains disabled.''
                          else if stage = BOOTSTRAP_TRANSACTION_STAGE_POINTER_SET
                          then ''Rescue payload verified, but pointer restore failed.''
                          else ''Rescue pointer read-back verification failed.'') in
                     Some (Stopped message code, h, chain, app_ui_fatal_screen api message code s5)
                   else let s6 = log_items [Lit ''Full rescue restored from '', Str (entry_path entry),
                            Lit '' ('', Uns (length (entry_file entry)), Lit '' bytes); safety backup='', Str p] s5;
                            (chain1, s7) = diagnostics_controller_refresh api h True s6 in
                     Some (Returned, h, chain1, app_ui_wait_to_return s7))))"

definition bootstrap_controller_restore ::
    "'f platform \<Rightarrow> byte list \<Rightarrow> boot_chain_info \<Rightarrow> 'f session \<Rightarrow> 'f flow" where
  "bootstrap_controller_restore api header chain s =
    (let (found, w) = rescue_storage_find api (se_storage s) header (se_world s); s1 = s\<lparr>se_world := w\<rparr> in
     (case found of
        Inl code \<Rightarrow>
          if code = RESCUE_STORAGE_NOT_FOUND \<or> code = RESCUE_STORAGE_HEADER_ONLY
          then restore_legacy_pointer api header chain s1
          else Some (Returned, header, chain, app_ui_wait_to_return (flush_log api (log_items
            [Lit ''Rescue capsule load rejected with code '', Dec code] s1)))
      | Inr entry \<Rightarrow> restore_capsule api header chain entry s1))"

text \<open>
  Installing.  \<open>chosen_card\<close> is the user's answer in the menu for the signing card (0, 1, or negative when
  cancelled); it is asked for only when the payload does not come from a memory card.
\<close>

definition memory_card_port :: "nat \<Rightarrow> int" where
  "memory_card_port storage = [0, 1, - 1] ! storage"

definition install_source_rejected ::
    "'f platform \<Rightarrow> bootstrap_source \<Rightarrow> bootstrap_source_result \<Rightarrow> 'f session \<Rightarrow> 'f session" where
  "install_source_rejected api source res s = app_ui_wait_to_return (flush_log api (log_items
    (if source_stage res = BOOTSTRAP_SOURCE_STAGE_LOAD
     then [Lit ''MBR source load failed from '', Str (source_path source), Lit '': '', Dec (source_code res)]
     else if source_stage res = BOOTSTRAP_SOURCE_STAGE_KELF
     then [Lit ''MBR source structural validation failed: '', Dec (source_code res)]
     else [Lit ''MBR source capacity validation failed: getstat='', Dec (source_getstat_result res),
       Lit '', start=0x'', PadHex 8 (unat (source_mbr_start res)), Lit '', size=0x'',
       PadHex 8 (unat (source_mbr_size res)), Lit '', sectors='', Uns (unat (source_payload_sectors res))]) s))"

definition install_payload ::
    "'f platform \<Rightarrow> byte list \<Rightarrow> boot_chain_info \<Rightarrow> byte list \<Rightarrow> bootstrap_source \<Rightarrow> 'f session \<Rightarrow> 'f flow" where
  "install_payload api header chain payload source s =
    (let (code, stage, h, s1) = activate_now api header payload (source_payload_size source)
           HDD_MBR_PAYLOAD_START (source_sectors source) s in
     if code < 0
     then let message = (if stage = BOOTSTRAP_TRANSACTION_STAGE_PAYLOAD
            then ''Payload write/read-back failed; pointer remains disabled.''
            else if stage = BOOTSTRAP_TRANSACTION_STAGE_POINTER_SET
            then ''Payload verified, but enabling its pointer failed.''
            else ''Installed pointer verification failed.'') in
       Some (Stopped message code, h, chain, app_ui_fatal_screen api message code s1)
     else let s2 = log_items [Lit ''Bootstrap installed and verified at sector 0x'',
              PadHex 8 (unat HDD_MBR_PAYLOAD_START), Lit '' ('', Uns (unat (source_payload_size source)),
              Lit '' bytes, '', Uns (unat (source_sectors source)), Lit '' sectors)''] s1;
              (chain1, s3) = diagnostics_controller_refresh api h True s2;
              (rescue, s4) = save_rescue_capsule api h chain1 s3 in
       Some (Returned, h, chain1, app_ui_wait_to_return (flush_log api s4)))"

definition bootstrap_controller_install ::
    "'f platform \<Rightarrow> int \<Rightarrow> byte list \<Rightarrow> boot_chain_info \<Rightarrow> 'f session \<Rightarrow> 'f flow" where
  "bootstrap_controller_install api chosen_card header chain s =
    (if read_le32 header APA_OSD_START_OFFSET \<noteq> 0 \<or> read_le32 header APA_OSD_SIZE_OFFSET \<noteq> 0
     then Some (Returned, header, chain, app_ui_wait_to_return s)
     else let (code, source, res, w) = bootstrap_source_prepare api (se_storage s)
              (bootstrap_source_init (se_storage s)) (se_world s); s1 = s\<lparr>se_world := w\<rparr> in
       if code < 0 then Some (Returned, header, chain, install_source_rejected api source res s1)
       else let (backup, s2) = save_backup api header s1 in
         (case backup of
            None \<Rightarrow> Some (Returned, header, chain, backup_error_screen api s2)
          | Some p \<Rightarrow>
              let port = (if memory_card_port (se_storage s) < 0 then chosen_card else memory_card_port (se_storage s)) in
              if port < 0 then Some (Returned, header, chain, s2)
              else let (signed_code, signing, payload) = bootstrap_signing_sign
                     (\<lambda>cport slot data. fx_secr api cport slot data (store (se_world s2))) port
                     (the (source_payload source)) (source_payload_size source) in
                if signed_code < 0
                then if signing_stage signing = BOOTSTRAP_SIGNING_STAGE_MAGICGATE
                  then Some (Returned, header, chain, app_ui_wait_to_return (flush_log api (log_items
                    [Lit ''MagicGate signing failed through mc'', Dec port] s2)))
                  else Some (Stopped ''Signed KELF failed structural validation.'' (signing_code signing), header,
                    chain, app_ui_fatal_screen api ''Signed KELF failed structural validation.''
                      (signing_code signing) s2)
                else (case ask_chord api (PAD_L1 OR PAD_R1 OR PAD_CIRCLE) s2 of
                    None \<Rightarrow> None
                  | Some (yes, s3) \<Rightarrow>
                      if \<not> yes then Some (Returned, header, chain, s3)
                      else install_payload api header chain payload source s3)))"

section \<open>Steps that leave the disk alone\<close>

fun asks :: "hdd_command \<Rightarrow> bool" where
  "asks (HDIOC_READSECTOR lba n) \<longleftrightarrow> True"
| "asks HDIOC_STATUS \<longleftrightarrow> True"
| "asks HDIOC_TOTALSECTOR \<longleftrightarrow> True"
| "asks HDIOC_MAXSECTOR \<longleftrightarrow> True"
| "asks cmd \<longleftrightarrow> False"

lemma reads_ask: "is_read c \<Longrightarrow> asks c"
  by (cases c) auto

fun undisturbing :: "file_event \<Rightarrow> bool" where
  "undisturbing (Disk ev) \<longleftrightarrow> asks (fst ev)"
| "undisturbing e \<longleftrightarrow> True"

lemma inspecting_undisturbing: "inspecting e \<Longrightarrow> undisturbing e"
  by (cases e) (auto intro: reads_ask)

lemma undisturbed_inspecting: "extends inspecting w v \<Longrightarrow> extends undisturbing w v"
  by (erule extends_mono) (rule inspecting_undisturbing)

lemma undisturbed_reading: "extends reading_event w v \<Longrightarrow> extends undisturbing w v"
  by (intro undisturbed_inspecting inspects_reading)

lemma undisturbed_writing: "extends writing_event w v \<Longrightarrow> extends undisturbing w v"
proof (erule extends_mono)
  show "writing_event e \<Longrightarrow> undisturbing e" for e by (cases e) auto
qed

lemma undisturbed_write_file: "write_whole_file api p data w = (r, w') \<Longrightarrow> extends undisturbing w w'"
proof -
  assume "write_whole_file api p data w = (r, w')"
  then obtain fd es where "trace w' = trace w @ Opened p FIO_WRITE_TRUNC fd # es" "list_all writing_event es"
    by (rule write_whole_file_trace)
  moreover from this have "list_all undisturbing es"
    by (auto simp: list.pred_set) (metis undisturbing.simps writing_event.elims(2))
  ultimately show ?thesis by (auto simp: extends_def)
qed

lemma undisturbed_append: "append_log_file api p data anew w = (r, w') \<Longrightarrow> extends undisturbing w w'"
proof -
  assume run: "append_log_file api p data anew w = (r, w')"
  obtain fd w1 where o: "fileXioOpen api p (if anew then FIO_WRITE_TRUNC else FIO_WRITE_APPEND) w = (fd, w1)"
    by fastforce
  obtain k w2 where l: "write_loop api (- 1) fd data w1 = (k, w2)" by fastforce
  have "extends undisturbing w w1" by (rule extends_event [OF trace_open [OF o]]) simp
  moreover have "extends undisturbing w1 w2" by (rule undisturbed_writing [OF write_loop_extends [OF l]])
  moreover have "extends undisturbing w2 (fileXioClose api fd w2)" by (rule extends_close) simp
  ultimately show ?thesis
    using run by (auto simp: append_log_file_def o l split: if_splits intro: extends_trans)
qed

lemma undisturbed_stat: "fileXioGetStat api p w = (r, st, w') \<Longrightarrow> extends undisturbing w w'"
  by (rule undisturbed_inspecting) (rule inspects_getstat)

lemma undisturbed_read: "read_exact_file api p n w = (r, w') \<Longrightarrow> extends undisturbing w w'"
  by (rule undisturbed_reading) (rule read_exact_file_extends)

lemma undisturbed_holds: "file_holds api p test data w = (b, w') \<Longrightarrow> extends undisturbing w w'"
  by (auto simp: file_holds_def split: prod.splits dest: undisturbed_read)

lemma undisturbed_backup_slots: "backup_slots api header slots d w = (p, d', w') \<Longrightarrow> extends undisturbing w w'"
proof (induction slots arbitrary: d w)
  case (Cons i slots)
  define q where "q = hb_path d ! i"
  obtain r st w1 where stat: "fileXioGetStat api q w = (r, st, w1)" by (metis prod_cases3)
  note w1 = undisturbed_stat [OF stat]
  obtain same w2 where same: "(if st_size st = of_nat APA_HEADER_SIZE
      then file_holds api q is_standard_apa_header header w1 else (False, w1)) = (same, w2)" by fastforce
  have w2: "extends undisturbing w w2"
    using w1 same by (auto split: if_splits dest: undisturbed_holds intro: extends_trans)
  obtain k u2 where k: "write_whole_file api q header w1 = (k, u2)" by fastforce
  obtain got u3 where got: "read_exact_file api q (length header) u2 = (got, u3)" by fastforce
  have u: "extends undisturbing w u2" "extends undisturbing w u3"
    using w1 undisturbed_write_file [OF k] undisturbed_read [OF got] by (blast intro: extends_trans)+
  have rest: ?case if "backup_slots api header slots e v = (p, d', w')" "extends undisturbing w v" for e v
    using Cons.IH [OF that(1)] that(2) by (blast intro: extends_trans)
  show ?case
  proof (cases "r \<ge> 0")
    case True
    then show ?thesis
      using Cons.prems same w2 stat rest by (cases same) (auto simp: q_def [symmetric] Let_def)
  next
    case False
    then show ?thesis
      using Cons.prems stat k got u rest by (auto simp: q_def [symmetric] Let_def split: if_splits)
  qed
qed simp

lemma undisturbed_backup: "header_backup_save api storage header d w = (p, d', w') \<Longrightarrow> extends undisturbing w w'"
  by (auto simp: header_backup_save_def Let_def split: if_splits dest: undisturbed_backup_slots)

lemma undisturbed_find_backup:
  "find_backup api storage header n names w = (r, w') \<Longrightarrow> extends undisturbing w w'"
  by (induction names arbitrary: w)
    (auto simp: Let_def split: prod.splits sum.splits if_splits dest!: undisturbed_read, (blast intro: extends_trans)+)

lemma undisturbed_find_enabled:
  "header_backup_find_enabled api storage header n w = (r, w') \<Longrightarrow> extends undisturbing w w'"
  by (auto simp: header_backup_find_enabled_def split: if_splits dest: undisturbed_find_backup)

lemma undisturbed_load: "load_rescue_file api p w = (r, w') \<Longrightarrow> extends undisturbing w w'"
  by (auto simp: load_rescue_file_def split: prod.splits sum.splits if_splits
      dest!: read_bounded_file_extends undisturbed_reading)

lemma undisturbed_exists: "path_exists api p w = (r, w') \<Longrightarrow> extends undisturbing w w'"
  by (rule undisturbed_inspecting) (rule inspects_exists)

lemma undisturbed_find_rescue: "find_rescue api storage header slots st w = (r, w') \<Longrightarrow> extends undisturbing w w'"
proof (induction slots arbitrary: st w)
  case (Cons slot slots)
  define p where "p = rescue_path_for_slot storage slot"
  obtain there w1 where e: "path_exists api p w = (there, w1)" by fastforce
  obtain got w2 where l: "load_rescue_file api p w1 = (got, w2)" by fastforce
  note steps = undisturbed_exists [OF e] extends_trans [OF undisturbed_exists [OF e] undisturbed_load [OF l]]
  show ?case
    using Cons.prems steps
    by (auto simp: p_def [symmetric] e l Let_def split: if_splits sum.splits
        dest!: Cons.IH intro: extends_trans)
qed simp

lemma undisturbed_rescue_find: "rescue_storage_find api storage header w = (r, w') \<Longrightarrow> extends undisturbing w w'"
  unfolding rescue_storage_find_def using undisturbed_find_rescue by (metis extends_refl prod.inject)

lemma undisturbed_open_retry:
  "open_retry api p mode n w = (fd, w') \<Longrightarrow> extends undisturbing w w'"
proof (induction n arbitrary: w)
  case (Suc n)
  obtain k w1 where o: "fileXioOpen api p mode w = (k, w1)" by fastforce
  have "extends undisturbing w w1" by (rule extends_event [OF trace_open [OF o]]) simp
  then show ?case using Suc o by (auto split: if_splits intro: extends_trans)
qed simp

lemma undisturbed_write_parts:
  "write_parts api c fd parts w = (r, w') \<Longrightarrow> extends undisturbing w w'"
  by (induction parts arbitrary: w)
    (auto split: prod.splits if_splits dest!: write_loop_extends undisturbed_writing, blast intro: extends_trans)

lemma undisturbed_write_rescue:
  assumes "write_rescue_file api storage p m h d w = (r, w')"
  shows "extends undisturbing w w'"
proof -
  obtain fd w1 where o: "open_retry api p FIO_WRITE_TRUNC (if storage = 2 then 20 else 1) w = (fd, w1)"
    by (metis prod.exhaust)
  obtain k w2 where k: "write_parts api (- 180) fd [m, h, d] w1 = (k, w2)" by (metis prod.exhaust)
  have "extends undisturbing w2 (fileXioClose api fd w2)" by (rule extends_close) simp
  then have "extends undisturbing w1 (fileXioClose api fd w2)"
    by (rule extends_trans [OF undisturbed_write_parts [OF k]])
  moreover have "(r, w') = (if fd < 0 then (fd, w1) else (k, fileXioClose api fd w2))"
    using assms [symmetric] unfolding write_rescue_file_def o prod.case k Let_def .
  ultimately show ?thesis
    using undisturbed_open_retry [OF o] by (auto split: if_splits intro: extends_trans)
qed

lemma undisturbed_rescue_slots:
  "rescue_slots api storage info header payload slots w = (res, w') \<Longrightarrow> extends undisturbing w w'"
proof (induction slots arbitrary: w)
  case (Cons slot slots)
  define p where "p = rescue_path_for_slot storage slot"
  obtain r st w1 where stat: "fileXioGetStat api p w = (r, st, w1)" by (metis prod_cases3)
  obtain same w2 where same: "rescue_file_matches api p info w1 = (same, w2)" by fastforce
  have w2: "extends undisturbing w w2"
    using undisturbed_stat [OF stat] same
    by (auto simp: rescue_file_matches_def split: prod.splits dest!: undisturbed_load intro: extends_trans)
  obtain k u2 where k: "write_rescue_file api storage p (rescue_capsule_encode info) header payload w1 = (k, u2)"
    by fastforce
  obtain got u3 where got: "load_rescue_file api p u2 = (got, u3)" by fastforce
  have u: "extends undisturbing w u2" "extends undisturbing w u3"
    using undisturbed_stat [OF stat] undisturbed_write_rescue [OF k] undisturbed_load [OF got]
    by (blast intro: extends_trans)+
  have rest: ?case if "rescue_slots api storage info header payload slots v = (res, w')" "extends undisturbing w v" for v
    using Cons.IH [OF that(1)] that(2) by (blast intro: extends_trans)
  show ?case
  proof (cases "r \<ge> 0")
    case True
    then show ?thesis using Cons.prems stat same w2 rest by (auto simp: p_def [symmetric] Let_def split: if_splits)
  next
    case False
    then show ?thesis
      using Cons.prems stat k got u rest by (auto simp: p_def [symmetric] Let_def split: if_splits)
  qed
qed simp

lemma undisturbed_disk:
  assumes "events h = evs" and "only asks evs"
  shows "extends undisturbing w (after_disk w h)"
  using assms by (auto simp: extends_def after_disk_def only_def list_all_iff)

lemma only_reads_ask: "only is_read evs \<Longrightarrow> only asks evs"
  by (auto simp: only_def intro: reads_ask)

lemma undisturbed_bounds:
  "hdd_validate_payload_bounds (fx_hdd api) start sectors (disk_view w) = (r, h) \<Longrightarrow>
    extends undisturbing w (after_disk w h)"
  by (rule undisturbed_disk [of _ "[]"]) (auto simp: disk_view_def dest: bounds_events)

lemma undisturbed_gather:
  assumes "gather_state api start sectors info w = (g, w')"
  shows "extends undisturbing w w'"
proof -
  obtain b h where b: "hdd_validate_payload_bounds (fx_hdd api) start sectors (disk_view w) = (b, h)" by fastforce
  define w1 where "w1 = after_disk w h"
  obtain ok w2 where ok: "(if sectors = 0 \<or> sectors > 8192 then (True, w1)
      else heap_alloc api (unat sectors * 512) w1) = (ok, w2)" by fastforce
  obtain got h2 where got: "hdd_read_payload_image (fx_hdd api) ok start sectors (disk_view w2) = (got, h2)" by fastforce
  have w1: "extends undisturbing w w1" unfolding w1_def by (rule undisturbed_bounds [OF b])
  have w2: "extends undisturbing w1 w2"
    using ok by (auto split: if_splits intro: extends_same dest: trace_heap)
  have w3: "extends undisturbing w2 (after_disk w2 h2)"
    using read_image_reads [OF got] by (auto simp: disk_view_def intro: undisturbed_disk only_reads_ask)
  note run = assms [unfolded gather_state_def b prod.case Let_def w1_def [symmetric] ok got]
  show ?thesis
    using run extends_trans [OF w1 extends_trans [OF w2 w3]] w1
    by (auto split: if_splits sum.splits)
qed

lemma undisturbed_rescue_save:
  assumes "rescue_storage_save_current api storage header romver family confidence w = (res, w')"
  shows "extends undisturbing w w'"
proof -
  define start where "start = read_le32 header APA_OSD_START_OFFSET"
  define sectors where "sectors = read_le32 header APA_OSD_SIZE_OFFSET"
  obtain g w1 where g: "gather_state api start sectors
      (current_info start sectors header romver family confidence) w = (g, w1)" by fastforce
  note run = assms [unfolded rescue_storage_save_current_def start_def [symmetric] sectors_def [symmetric]
      Let_def g prod.case]
  show ?thesis
    using run undisturbed_gather [OF g] undisturbed_rescue_slots [where api = api and w = w1 and w' = w']
    by (auto simp del: rescue_slots.simps split: if_splits option.splits intro: extends_trans)
qed

lemma undisturbed_retry:
  assumes "retry again act w = (r, w')" and "\<And>v k u. act v = (k, u) \<Longrightarrow> extends undisturbing v u"
  shows "extends undisturbing w w'"
  by (rule retry_induct [OF assms(1), of "\<lambda>v. extends undisturbing w v"])
    (auto dest: assms(2) intro: extends_trans)

lemma undisturbed_flush:
  assumes "session_log_flush api storage lg w = (r, lg', w')"
  shows "extends undisturbing w w'"
proof -
  obtain k st w1 where st: "fileXioGetStat api (log_path storage) w = (k, st, w1)" by (metis prod_cases3)
  have unsaved: "extends undisturbing v u" if "flush_unsaved api storage anew l v = (q, m, u)" for anew l v q m u
  proof -
    obtain x y where re: "retry (if storage = 2 then USB_WRITE_ATTEMPTS - 1 else 0)
        (append_log_file api (log_path storage) (drop (flush_start storage l) (log_buffer l)) anew) v = (x, y)"
      by (metis prod.exhaust)
    show ?thesis
      using that undisturbed_retry [OF re undisturbed_append]
      unfolding flush_unsaved_def re prod.case by (auto split: if_splits)
  qed
  show ?thesis
    using assms undisturbed_stat [OF st]
    by (auto simp: session_log_flush_def st Let_def split: if_splits intro: extends_trans dest!: unsaved)
qed

lemma undisturbed_report:
  assumes "boot_report_session_save api storage rs w = (r, rs', w')"
  shows "extends undisturbing w w'"
proof -
  have "extends undisturbing w v" if "boot_report_save api storage t w = (k, v)" for t k v
  proof (cases "storage \<ge> STORAGE_TARGET_COUNT \<or> t = []")
    case True
    then show ?thesis using that by (simp add: boot_report_save_def)
  next
    case False
    have "retry (if storage = 2 then USB_WRITE_ATTEMPTS - 1 else 0)
        (write_whole_file api (report_path storage) t) w = (k, v)"
      using that unfolding boot_report_save_def if_not_P [OF False] .
    then show ?thesis by (rule undisturbed_retry) (rule undisturbed_write_file)
  qed
  then show ?thesis using assms by (auto simp: boot_report_session_save_def split: if_splits prod.splits)
qed

section \<open>Sessions\<close>

definition quiet :: "'f session \<Rightarrow> 'f session \<Rightarrow> bool" where
  "quiet s s' \<longleftrightarrow> extends undisturbing (se_world s) (se_world s') \<and> se_storage s' = se_storage s"

lemma quiet_refl [simp, intro]: "quiet s s"
  by (simp add: quiet_def)

lemma quiet_trans [trans]: "quiet s t \<Longrightarrow> quiet t u \<Longrightarrow> quiet s u"
  by (auto simp: quiet_def intro: extends_trans)

lemma quiet_log [simp]: "quiet s (log_items items t) \<longleftrightarrow> quiet s t" "quiet (log_items items s) t \<longleftrightarrow> quiet s t"
  by (simp_all add: quiet_def log_items_def)

lemma log_items_simps [simp]: "se_world (log_items items s) = se_world s"
  "se_storage (log_items items s) = se_storage s" "se_backup (log_items items s) = se_backup s"
  by (simp_all add: log_items_def)

lemma quiet_flush [intro!]: "quiet s t \<Longrightarrow> quiet s (flush_log api t)"
  by (auto simp: quiet_def flush_log_def split: prod.splits dest: undisturbed_flush intro: extends_trans)

lemma quiet_details [simp]: "quiet s (print_error_details domain code consume t) \<longleftrightarrow> quiet s t"
  by (auto simp: print_error_details_def quiet_def extends_def Let_def split: prod.splits)

lemma quiet_return [simp]: "quiet s (app_ui_wait_to_return t) \<longleftrightarrow> quiet s t"
  by (simp add: app_ui_wait_to_return_def split: option.split)

lemma quiet_fatal: "quiet s t \<Longrightarrow> quiet s (app_ui_fatal_screen api message code t)"
  by (auto simp: app_ui_fatal_screen_def)

lemma quiet_error_screen: "quiet s t \<Longrightarrow> quiet s (backup_error_screen api t)"
  by (auto simp: backup_error_screen_def Let_def upt_rec numeral_2_eq_2)

lemma quiet_world: "extends undisturbing (se_world s) w \<Longrightarrow> quiet s (s\<lparr>se_world := w\<rparr>)"
  by (simp add: quiet_def)

lemma quiet_backup: "save_backup api header s = (p, s') \<Longrightarrow> quiet s s'"
  by (auto simp: save_backup_def quiet_def split: prod.splits dest: undisturbed_backup)

lemma quiet_rescue: "save_rescue_capsule api header chain s = (p, s') \<Longrightarrow> quiet s s'"
  by (auto simp: save_rescue_capsule_def quiet_def split: prod.splits dest: undisturbed_rescue_save)

lemma quiet_find_backup: "load_backup api header s = (p, s') \<Longrightarrow> quiet s s'"
  by (auto simp: load_backup_def quiet_def split: prod.splits dest: undisturbed_find_enabled)

lemma quiet_bounds: "live_bounds api start sectors s = (r, s') \<Longrightarrow> quiet s s'"
  by (auto simp: live_bounds_def quiet_def split: prod.splits dest: undisturbed_bounds)

lemma quiet_refresh:
  assumes "diagnostics_controller_refresh api header save s = (info, s')"
  shows "quiet s s'"
proof -
  define start where "start = read_le32 header APA_OSD_START_OFFSET"
  define sectors where "sectors = read_le32 header APA_OSD_SIZE_OFFSET"
  obtain i w where w: "boot_diagnostics_scan api (se_storage s) start sectors (se_world s) = (i, w)" by fastforce
  define s1 where "s1 = diagnostics_render_stage i start sectors (s\<lparr>se_world := w\<rparr>)"
  have s1: "quiet s s1"
    using undisturbed_inspecting [OF inspects_scan [OF w]]
    by (simp add: s1_def diagnostics_render_stage_def quiet_def)
  have saved: "quiet s (diagnostics_save_stage api s1)"
    using s1 by (auto simp: diagnostics_save_stage_def quiet_def split: prod.splits
        dest!: undisturbed_report intro!: quiet_flush [unfolded quiet_def] intro: extends_trans)
  have "s' = (if save then diagnostics_save_stage api s1 else s1)"
    using assms [symmetric]
    unfolding diagnostics_controller_refresh_def start_def [symmetric] sectors_def [symmetric] Let_def
      w prod.case s1_def [symmetric] by simp
  then show ?thesis using s1 saved by simp
qed

section \<open>Waiting\<close>

text \<open>The buttons were held at the very end of the wait.\<close>

definition held_now :: "'f platform \<Rightarrow> u32 \<Rightarrow> 'f file_world \<Rightarrow> bool" where
  "held_now api chord w \<longleftrightarrow> (\<exists>v b. held_buttons api v = (Some b, w) \<and> b AND PAD_TRIANGLE = 0 \<and>
    b AND chord = chord)"

lemma careful_held: "held_buttons api w = (b, w') \<Longrightarrow> careful api w w'"
  by (auto simp: careful_def held_buttons_def file_store.held_files safely_def split: prod.splits)

lemma wait_for_chord_facts:
  assumes "wait_for_chord api chord w = Some out"
  shows "careful api w (snd out) \<and> extends undisturbing w (snd out) \<and>
    (fst out \<longrightarrow> held_now api chord (snd out))"
proof (rule wait_for_chord.raw_induct [OF _ assms, of "\<lambda>api chord w out. careful api w (snd out) \<and>
    extends undisturbing w (snd out) \<and> (fst out \<longrightarrow> held_now api chord (snd out))"])
  fix wait :: "'a platform \<Rightarrow> u32 \<Rightarrow> 'a file_world \<Rightarrow> (bool \<times> 'a file_world) option" and api chord w out
  assume ih: "\<And>api chord w out. wait api chord w = Some out \<Longrightarrow> careful api w (snd out) \<and>
      extends undisturbing w (snd out) \<and> (fst out \<longrightarrow> held_now api chord (snd out))"
    and run: "(let (held, w1) = held_buttons api w in
      case held of None \<Rightarrow> wait api chord w1
      | Some b \<Rightarrow> if b AND PAD_TRIANGLE \<noteq> 0 then Some (False, w1)
          else if b AND chord = chord then Some (True, w1) else wait api chord w1) = Some out"
  obtain held w1 where h: "held_buttons api w = (held, w1)" by fastforce
  have w1: "careful api w w1" "extends undisturbing w w1"
    using careful_held [OF h] trace_held [OF h] by (auto intro: extends_same)
  have again: "careful api w (snd out) \<and> extends undisturbing w (snd out) \<and>
      (fst out \<longrightarrow> held_now api chord (snd out))" if "wait api chord w1 = Some out"
    using ih [OF that] w1 by (blast intro: careful_trans extends_trans)
  show "careful api w (snd out) \<and> extends undisturbing w (snd out) \<and> (fst out \<longrightarrow> held_now api chord (snd out))"
  proof (cases held)
    case None
    then show ?thesis using run h again by simp
  next
    case (Some b)
    show ?thesis
    proof (cases "b AND PAD_TRIANGLE = 0 \<and> b AND chord = chord")
      case True
      then have "held_now api chord w1" using h Some unfolding held_now_def by blast
      then show ?thesis using run h Some True w1 by auto
    next
      case False
      then show ?thesis using run h Some again w1 by (auto split: if_splits)
    qed
  qed
qed

text \<open>
  Where a workflow begins to change the disk: nothing has been changed so far, no file was damaged,
  the header of the beginning is in a backup slot of the selected device, and the user held the
  buttons just now.
\<close>

definition armed :: "'f platform \<Rightarrow> byte list \<Rightarrow> u32 \<Rightarrow> 'f session \<Rightarrow> 'f session \<Rightarrow> bool" where
  "armed api header chord s t \<longleftrightarrow> quiet s t \<and> careful api (se_world s) (se_world t) \<and>
    (\<exists>p \<in> backup_path_for_slot 64 (se_storage s) ` {0, 1}. \<forall>files fds. file_store api files fds \<longrightarrow>
      files (store (se_world t)) p = Some header) \<and>
    held_now api chord (se_world t)"

lemma ask_facts:
  assumes "ask_chord api chord s = Some (yes, t)"
  shows "quiet s t" and "careful api (se_world s) (se_world t)" and "yes \<Longrightarrow> held_now api chord (se_world t)"
  using assms wait_for_chord_facts [of api chord "se_world s"]
  by (auto simp: ask_chord_def quiet_def)

lemma backup_facts:
  assumes "save_backup api header s = (res, t)"
  shows "careful api (se_world s) (se_world t)"
    and "res = Some p \<Longrightarrow> p \<in> backup_path_for_slot 64 (se_storage s) ` {0, 1} \<and>
      (\<forall>files fds. file_store api files fds \<longrightarrow> files (store (se_world t)) p = Some header)"
  using assms header_backup_saved [of api "se_storage s" header "se_backup s" "se_world s"]
  by (auto simp: save_backup_def split: prod.splits)

lemma armed_after:
  assumes "save_backup api header s = (Some p, t)" and "quiet r s" and "careful api (se_world r) (se_world s)"
    and "quiet t u" and "careful api (se_world t) (se_world u)"
    and "ask_chord api chord u = Some (True, v)"
  shows "armed api header chord r v"
proof -
  note b = backup_facts(1) [OF assms(1)] backup_facts(2) [OF assms(1) refl]
  note q = quiet_backup [OF assms(1)]
  have kept: "files (store (se_world v)) p = Some header" if "file_store api files fds" for files fds
    using b(2) ask_facts(2) [OF assms(6)] assms(5) that unfolding careful_def by blast
  have "se_storage s = se_storage r" using assms(2) by (simp add: quiet_def)
  then show ?thesis
    unfolding armed_def
    using b ask_facts [OF assms(6)] assms(2-5) q kept
    by (auto intro: quiet_trans careful_trans intro!: bexI [of _ p])
qed

section \<open>The transactions\<close>

lemma set_pointer_now_facts:
  assumes "set_pointer_now api header start sectors s = (code, stage, h, t)"
  shows "se_storage t = se_storage s \<and> (\<exists>evs. trace (se_world t) = trace (se_world s) @ map Disk evs \<and>
    only (pointer_command start sectors) evs \<and> code \<le> 0 \<and> (code < 0 \<longrightarrow> h = header) \<and>
    (code = 0 \<longrightarrow> pointer_success start sectors evs (Some h)))"
proof -
  obtain h' res d where run: "bootstrap_transaction_set_pointer (Some (ps2_ops (fx_hdd api))) (Some header) start
      sectors (Some fresh_transaction) (disk_view (se_world s)) = (code, h', res, d)"
    and t: "h = the h'" "t = s\<lparr>se_world := after_disk (se_world s) d\<rparr>"
    using assms by (auto simp: set_pointer_now_def bootstrap_transaction_ps2_set_pointer_def split: prod.splits)
  have out: "\<exists>evs. events d = events (disk_view (se_world s)) @ evs \<and> only (\<lambda>c. \<not> is_write c) evs \<and> code \<le> 0 \<and>
      (\<exists>stage. res = Some \<lparr>result_stage = stage, result_code = code\<rparr> \<and>
        stage \<noteq> BOOTSTRAP_TRANSACTION_STAGE_PAYLOAD \<and>
        (stage = BOOTSTRAP_TRANSACTION_STAGE_NONE \<longleftrightarrow> code = 0)) \<and>
      (code < 0 \<longrightarrow> h' = Some header) \<and> (code = 0 \<longrightarrow> pointer_success start sectors evs h')"
    by (rule ps2.set_pointer_outcome) (use run in \<open>simp add: ps2_ops_def\<close>)
  have cmds: "\<exists>evs. events d = events (disk_view (se_world s)) @ evs \<and> only (pointer_command start sectors) evs"
    by (rule ps2.set_pointer_commands) (use run in \<open>simp add: ps2_ops_def\<close>)
  show ?thesis
    using out cmds by (auto simp: t after_disk_def disk_view_def pointer_success_def)
qed

lemma activate_now_facts:
  assumes "activate_now api header payload n start sectors s = (code, stage, h, t)"
    and "unat n = length payload" and "payload \<noteq> []"
  shows "se_storage t = se_storage s \<and> (\<exists>before after. trace (se_world t) = trace (se_world s) @ map Disk (before @ after) \<and>
    only (\<lambda>c. \<not> is_pointer c) before \<and> only (\<lambda>c. \<not> is_write c) after \<and> code \<le> 0 \<and>
    (after = [] \<or> payload_confirmed start payload before) \<and> (code < 0 \<longrightarrow> h = header) \<and>
    (code = 0 \<longrightarrow> payload_confirmed start payload before \<and> pointer_success start sectors after (Some h)))"
proof -
  obtain h' res d where run: "bootstrap_transaction_ps2_activate (fx_hdd api) (Some header) (Some payload) n start
      sectors (Some id) (Some fresh_transaction) (disk_view (se_world s)) = (code, h', res, d)"
    and t: "h = the h'" "t = s\<lparr>se_world := after_disk (se_world s) d\<rparr>"
    using assms(1) by (auto simp: activate_now_def split: prod.splits)
  have silent: "release_silent (Some (id :: 'a hdd_world \<Rightarrow> 'a hdd_world))" by (simp add: release_silent_def)
  obtain before after where out: "events d = before @ after" "only (\<lambda>c. \<not> is_pointer c) before"
      "only (\<lambda>c. \<not> is_write c) after" "code \<le> 0" "after = [] \<or> payload_confirmed start payload before"
      "code < 0 \<longrightarrow> h' = Some header"
      "code = 0 \<longrightarrow> payload_confirmed start payload before \<and> pointer_success start sectors after h'"
    using ps2_activate_outcome [OF run assms(2,3) silent] by (auto simp: disk_view_def)
  have h: "h' = Some h" if "pointer_success start sectors after h'"
    using that by (auto simp: pointer_success_def t)
  show ?thesis
    using out h by (intro conjI exI [of _ before] exI [of _ after]) (auto simp: t after_disk_def)
qed

section \<open>Workflow by workflow\<close>

text \<open>
  What a workflow that may change the boot pointer does: it leaves the disk alone and the header as
  it is; or it gets armed and then only issues the commands of the pointer update, whose success it
  reports by returning, with the header read back from the disk.
\<close>

definition pointer_flow ::
    "'f platform \<Rightarrow> byte list \<Rightarrow> u32 \<Rightarrow> (u32 \<Rightarrow> u32 \<Rightarrow> bool) \<Rightarrow> 'f session \<Rightarrow>
      flow_end \<times> byte list \<times> boot_chain_info \<times> 'f session \<Rightarrow> bool" where
  "pointer_flow api header chord allowed s out \<longleftrightarrow> (case out of (e, h, info, s') \<Rightarrow>
    (quiet s s' \<and> h = header) \<or>
    (\<exists>start sectors t u evs. allowed start sectors \<and> armed api header chord s t \<and>
      trace (se_world u) = trace (se_world t) @ map Disk evs \<and>
      only (pointer_command start sectors) evs \<and> quiet u s' \<and>
      (if e = Returned then pointer_success start sectors evs (Some h) else h = header)))"

lemma pointer_flow_quiet: "quiet s s' \<Longrightarrow> pointer_flow api header chord allowed s (e, header, info, s')"
  by (simp add: pointer_flow_def)

lemma pointer_flow_change:
  assumes "armed api header chord s t" and "allowed start sectors"
    and "set_pointer_now api header start sectors t = (code, stage, h, u)" and "quiet u s'"
    and "e = Returned \<longleftrightarrow> 0 \<le> code"
  shows "pointer_flow api header chord allowed s (e, h, info, s')"
proof -
  obtain evs where all: "trace (se_world u) = trace (se_world t) @ map Disk evs \<and>
      only (pointer_command start sectors) evs \<and> code \<le> 0 \<and> (code < 0 \<longrightarrow> h = header) \<and>
      (code = 0 \<longrightarrow> pointer_success start sectors evs (Some h))"
    using set_pointer_now_facts [OF assms(3), THEN conjunct2] ..
  then have evs: "trace (se_world u) = trace (se_world t) @ map Disk evs"
      "only (pointer_command start sectors) evs" and code: "code \<le> 0" "code < 0 \<Longrightarrow> h = header"
      "code = 0 \<Longrightarrow> pointer_success start sectors evs (Some h)"
    by simp_all
  have result: "if e = Returned then pointer_success start sectors evs (Some h) else h = header"
    using code assms(5) by (cases "code = 0") auto
  show ?thesis
    unfolding pointer_flow_def prod.case
    by (rule disjI2, rule exI [of _ start], rule exI [of _ sectors], rule exI [of _ t], rule exI [of _ u],
        rule exI [of _ evs]) (intro conjI assms evs result)
qed

lemma disable_flow:
  assumes "bootstrap_controller_disable api header chain s = Some out"
    and "chord = PAD_L1 OR PAD_R1 OR PAD_CROSS"
  shows "pointer_flow api header chord (\<lambda>start sectors. start = 0 \<and> sectors = 0) s out"
proof -
  obtain backup s1 where b: "save_backup api header s = (backup, s1)" by fastforce
  note run = assms(1) [unfolded bootstrap_controller_disable_def assms(2) [symmetric] b Let_def prod.case]
  show ?thesis
  proof (cases backup)
    case None
    then show ?thesis using run quiet_error_screen [OF quiet_backup [OF b]] by (auto intro: pointer_flow_quiet)
  next
    case (Some p)
    obtain rescue s2 where r: "save_rescue_capsule api header chain s1 = (rescue, s2)" by fastforce
    note run = run [unfolded Some option.case r prod.case]
    have s2: "quiet s s2" using quiet_backup [OF b] quiet_rescue [OF r] by (rule quiet_trans)
    obtain yes s3 where ask: "ask_chord api chord s2 = Some (yes, s3)"
      using run by (auto split: option.splits)
    note run = run [unfolded ask option.case prod.case]
    show ?thesis
    proof (cases yes)
      case False
      then show ?thesis using run quiet_trans [OF s2 ask_facts(1) [OF ask]] by (auto intro: pointer_flow_quiet)
    next
      case True
      have c: "careful api (se_world s1) (se_world s2)"
        using r by (auto simp: save_rescue_capsule_def split: prod.splits dest: careful_rescue_save)
      have armed: "armed api header chord s s3"
        by (rule armed_after [OF b [unfolded Some] _ _ quiet_rescue [OF r] c]) (use ask True in auto)
      obtain code stage h s4 where set: "set_pointer_now api header 0 0 s3 = (code, stage, h, s4)"
        by (metis prod_cases4)
      obtain info s6 where re: "diagnostics_controller_refresh api h True
          (log_items [Lit ''Bootstrap pointer disabled and verified; header backup='', Str p,
            Lit ''; rescue='', path_or ''unavailable'' rescue] s4) = (info, s6)" by fastforce
      show ?thesis
        using run True quiet_refresh [OF re]
        by (auto simp: set re split: if_splits intro!: pointer_flow_change [OF armed _ set] quiet_fatal)
    qed
  qed
qed

text \<open>A pointer inside the live \<open>__mbr\<close>, as far as it was checked.\<close>

definition in_mbr :: "u32 \<Rightarrow> u32 \<Rightarrow> bool" where
  "in_mbr start sectors \<longleftrightarrow> (\<exists>mbr_start mbr_size. 0 \<le> hdd_validate_payload_bounds_geometry start sectors mbr_start mbr_size)"

lemma live_bounds_ok: "live_bounds api start sectors s = (r, s') \<Longrightarrow> 0 \<le> r \<Longrightarrow> in_mbr start sectors"
  by (auto simp: live_bounds_def hdd_validate_payload_bounds_def in_mbr_def Let_def not_less
      split: prod.splits if_splits)

lemma live_bounds_careful: "live_bounds api start sectors s = (r, s') \<Longrightarrow> careful api (se_world s) (se_world s')"
  by (auto simp: live_bounds_def split: prod.splits dest: careful_bounds)

text \<open>The pointer of an enabled master header of the same disk.\<close>

definition saved_pointer :: "byte list \<Rightarrow> u32 \<Rightarrow> u32 \<Rightarrow> bool" where
  "saved_pointer header start sectors \<longleftrightarrow> (\<exists>found. is_standard_apa_header found \<and>
    headers_match_same_disk header found \<and> read_le32 found APA_OSD_START_OFFSET = start \<and>
    read_le32 found APA_OSD_SIZE_OFFSET = sectors \<and> start \<noteq> 0 \<and> sectors \<noteq> 0)"

lemma find_backup_facts:
  "find_backup api storage header n names w = (res, w') \<Longrightarrow> careful api w w' \<and>
    (\<forall>p start sectors. res = Some (p, start, sectors) \<longrightarrow> saved_pointer header start sectors)"
proof (induction names arbitrary: w)
  case (Cons name names)
  define p where "p = storage_path HEADER_BACKUP_PATH_SIZE storage name"
  obtain got w1 where got: "read_exact_file api p APA_HEADER_SIZE w = (got, w1)" by fastforce
  note w1 = careful_read [OF got]
  have rest: ?case if "find_backup api storage header n names w1 = (res, w')"
    using Cons.IH [OF that] w1 by (blast intro: careful_trans)
  show ?case
    using Cons.prems got w1 rest
    by (auto simp: p_def [symmetric] Let_def saved_pointer_def split: sum.splits if_splits)
qed simp

lemma load_backup_facts:
  assumes "load_backup api header s = (res, s')"
  shows "careful api (se_world s) (se_world s')" and "res = Some (p, start, sectors) \<Longrightarrow> saved_pointer header start sectors"
  using assms
  by (auto simp: load_backup_def header_backup_find_enabled_def split: prod.splits if_splits
      dest!: find_backup_facts)

lemma legacy_flow:
  assumes "restore_legacy_pointer api header chain s = Some out"
    and "chord = PAD_L1 OR PAD_R1 OR PAD_SQUARE"
  shows "pointer_flow api header chord (\<lambda>start sectors. in_mbr start sectors \<and> saved_pointer header start sectors) s out"
proof -
  obtain found s1 where f: "load_backup api header s = (found, s1)" by fastforce
  note run = assms(1) [unfolded restore_legacy_pointer_def assms(2) [symmetric] f Let_def prod.case]
  show ?thesis
  proof (cases found)
    case None
    then show ?thesis using run quiet_find_backup [OF f] by (auto intro: pointer_flow_quiet)
  next
    case (Some x)
    then obtain source start sectors where x: "found = Some (source, start, sectors)" by (cases x) auto
    note saved = load_backup_facts(2) [OF f x]
    obtain b s2 where b: "live_bounds api start sectors s1 = (b, s2)" by fastforce
    have s2: "quiet s s2" using quiet_find_backup [OF f] quiet_bounds [OF b] by (rule quiet_trans)
    have c2: "careful api (se_world s) (se_world s2)"
      using load_backup_facts(1) [OF f] live_bounds_careful [OF b] by (rule careful_trans)
    obtain safety s3 where bk: "save_backup api header s2 = (safety, s3)" by fastforce
    note run = run [unfolded x option.case prod.case b bk]
    have s3: "quiet s s3" using s2 quiet_backup [OF bk] by (rule quiet_trans)
    show ?thesis
    proof (cases "b < 0 \<or> safety = None")
      case True
      then show ?thesis
        using run quiet_error_screen [OF s3] s2 by (auto split: if_splits intro!: pointer_flow_quiet)
    next
      case False
      then obtain p where p: "safety = Some p" by auto
      obtain yes s4 where ask: "ask_chord api chord s3 = Some (yes, s4)"
        using run False p by (auto split: option.splits)
      note run = run [unfolded p option.case ask prod.case]
      show ?thesis
      proof (cases yes)
        case no: False
        then show ?thesis
          using run False quiet_trans [OF s3 ask_facts(1) [OF ask]] by (auto intro: pointer_flow_quiet)
      next
        case True
        have armed: "armed api header chord s s4"
          by (rule armed_after [OF bk [unfolded p] s2 c2]) (use ask True in auto)
        obtain code stage h s5 where set: "set_pointer_now api header start sectors s4 = (code, stage, h, s5)"
          by (metis prod_cases4)
        obtain info s6 where re: "diagnostics_controller_refresh api h True
            (log_items [Lit ''Legacy pointer-only restore completed from '', Str source,
              Lit ''; safety='', Str p] s5) = (info, s6)" by fastforce
        have ok: "in_mbr start sectors" using live_bounds_ok [OF b] False by simp
        show ?thesis
          using run True False quiet_refresh [OF re] ok saved
          by (auto simp: set re split: if_splits intro!: pointer_flow_change [OF armed _ set] quiet_fatal)
      qed
    qed
  qed
qed

text \<open>
  What a workflow that may write a payload does: it leaves the disk alone and the header as it is;
  or it gets armed and then issues first no pointer command, then no write, and reaches the pointer
  only after the whole payload was confirmed on the disk.
\<close>

definition payload_flow ::
    "'f platform \<Rightarrow> byte list \<Rightarrow> u32 \<Rightarrow> (byte list \<Rightarrow> u32 \<Rightarrow> u32 \<Rightarrow> bool) \<Rightarrow> 'f session \<Rightarrow>
      flow_end \<times> byte list \<times> boot_chain_info \<times> 'f session \<Rightarrow> bool" where
  "payload_flow api header chord allowed s out \<longleftrightarrow> (case out of (e, h, info, s') \<Rightarrow>
    (quiet s s' \<and> h = header) \<or>
    (\<exists>payload start sectors t u before after. allowed payload start sectors \<and> armed api header chord s t \<and>
      trace (se_world u) = trace (se_world t) @ map Disk (before @ after) \<and>
      only (\<lambda>c. \<not> is_pointer c) before \<and> only (\<lambda>c. \<not> is_write c) after \<and>
      (after = [] \<or> payload_confirmed start payload before) \<and> quiet u s' \<and>
      (if e = Returned then payload_confirmed start payload before \<and>
         pointer_success start sectors after (Some h) else h = header)))"

lemma payload_flow_quiet: "quiet s s' \<Longrightarrow> payload_flow api header chord allowed s (e, header, info, s')"
  by (simp add: payload_flow_def)

lemma payload_flow_change:
  assumes "armed api header chord s t" and "allowed payload start sectors"
    and "activate_now api header payload n start sectors t = (code, stage, h, u)"
    and "unat n = length payload" and "payload \<noteq> []" and "quiet u s'"
    and "e = Returned \<longleftrightarrow> 0 \<le> code"
  shows "payload_flow api header chord allowed s (e, h, info, s')"
proof -
  from activate_now_facts [OF assms(3-5), THEN conjunct2] obtain before where
    "\<exists>after. trace (se_world u) = trace (se_world t) @ map Disk (before @ after) \<and>
      only (\<lambda>c. \<not> is_pointer c) before \<and> only (\<lambda>c. \<not> is_write c) after \<and> code \<le> 0 \<and>
      (after = [] \<or> payload_confirmed start payload before) \<and> (code < 0 \<longrightarrow> h = header) \<and>
      (code = 0 \<longrightarrow> payload_confirmed start payload before \<and> pointer_success start sectors after (Some h))" ..
  then obtain after where all: "trace (se_world u) = trace (se_world t) @ map Disk (before @ after) \<and>
      only (\<lambda>c. \<not> is_pointer c) before \<and> only (\<lambda>c. \<not> is_write c) after \<and> code \<le> 0 \<and>
      (after = [] \<or> payload_confirmed start payload before) \<and> (code < 0 \<longrightarrow> h = header) \<and>
      (code = 0 \<longrightarrow> payload_confirmed start payload before \<and> pointer_success start sectors after (Some h))" ..
  then have evs: "trace (se_world u) = trace (se_world t) @ map Disk (before @ after)"
      "only (\<lambda>c. \<not> is_pointer c) before" "only (\<lambda>c. \<not> is_write c) after"
      "after = [] \<or> payload_confirmed start payload before"
    and code: "code \<le> 0" "code < 0 \<Longrightarrow> h = header"
      "code = 0 \<Longrightarrow> payload_confirmed start payload before \<and> pointer_success start sectors after (Some h)"
    by simp_all
  have result: "if e = Returned then payload_confirmed start payload before \<and>
      pointer_success start sectors after (Some h) else h = header"
    using code assms(7) by (cases "code = 0") auto
  show ?thesis
    unfolding payload_flow_def prod.case
    by (rule disjI2, rule exI [of _ payload], rule exI [of _ start], rule exI [of _ sectors], rule exI [of _ t],
        rule exI [of _ u], rule exI [of _ before], rule exI [of _ after]) (intro conjI assms evs result)
qed

text \<open>The payload of a validated capsule of the same disk, at the place it was taken from.\<close>

definition capsule_payload :: "byte list \<Rightarrow> byte list \<Rightarrow> u32 \<Rightarrow> u32 \<Rightarrow> bool" where
  "capsule_payload header payload start sectors \<longleftrightarrow> (\<exists>info metadata saved i0.
    rescue_image_validate (metadata @ saved @ payload) (of_nat (length (metadata @ saved @ payload))) i0 = (0, info) \<and>
    length metadata = 256 \<and> length saved = APA_HEADER_SIZE \<and>
    headers_match_same_disk header (saved @ payload) \<and> capsule_has_kelf info \<and>
    length payload = 512 * unat sectors \<and> cap_payload_start info = start \<and> cap_payload_sectors info = sectors)"

lemma found_payload:
  assumes "rescue_storage_find api storage header w = (Inr entry, w')"
    and "rescue_storage_payload (Some entry) = payload"
  shows "unat (cap_payload_bytes (entry_info entry)) = length (the payload) \<and> the payload \<noteq> [] \<and>
    capsule_payload header (the payload) (cap_payload_start (entry_info entry)) (cap_payload_sectors (entry_info entry))"
proof -
  define info where "info = entry_info entry"
  obtain st where "find_rescue api storage header [0, 1] st w = (Inr entry, w')"
    using assms(1) by (auto simp: rescue_storage_find_def split: if_splits)
  from find_rescue_sound [OF this] have f: "loaded api (entry_path entry) info (entry_file entry) w'"
    "headers_match_same_disk header (drop 256 (entry_file entry))"
    "capsule_has_payload info" "capsule_has_kelf info"
    by (auto simp: info_def)
  obtain m h p where d: "entry_file entry = m @ h @ p" "length m = 256" "length h = APA_HEADER_SIZE"
    using accepted_parts loaded_facts(1,2) [OF f(1)] by metis
  have ok: "rescue_image_validate (m @ h @ p) (of_nat (length (m @ h @ p))) zero_capsule_info = (0, info)"
    and small: "length (m @ h @ p) < 2 ^ 32"
    using loaded_facts(1,2) [OF f(1)] by (simp_all add: d(1))
  have dec: "rescue_capsule_decode m (of_nat (length (m @ h @ p))) zero_capsule_info = (0, info)"
    using validate_iff [OF d(2,3) small] ok by blast
  have len: "length p = unat (cap_payload_bytes info)" "capsule_ok info"
    using accepted_payload_length [OF d(2,3) small dec] by simp_all
  have sec: "unat (cap_payload_bytes info) = 512 * unat (cap_payload_sectors info)" "cap_payload_sectors info \<noteq> 0"
    using len(2) f(3) by (simp_all add: capsule_ok_def capsule_fields_ok_def)
  have pay: "the payload = p"
    using assms(2) f(3) d by (auto simp: rescue_storage_payload_def capsule_has_payload_def info_def)
  have "p \<noteq> []" using len(1) sec by (cases "cap_payload_sectors info = 0") (auto simp: unat_eq_0)
  moreover have "capsule_payload header p (cap_payload_start info) (cap_payload_sectors info)"
    unfolding capsule_payload_def
    by (rule exI [of _ info], rule exI [of _ m], rule exI [of _ h], rule exI [of _ zero_capsule_info])
      (use ok d f len(1) sec(1) in simp)
  ultimately show ?thesis using len(1) by (simp add: pay info_def [symmetric])
qed

lemma armed_prefix:
  assumes "armed api header chord s1 t" and "quiet s s1" and "careful api (se_world s) (se_world s1)"
  shows "armed api header chord s t"
proof -
  have "se_storage s1 = se_storage s" using assms(2) by (simp add: quiet_def)
  then show ?thesis
    using assms quiet_trans [OF assms(2)] careful_trans [OF assms(3)] by (simp add: armed_def)
qed

lemma pointer_flow_prefix:
  assumes "pointer_flow api header chord allowed s1 out" and "quiet s s1"
    and "careful api (se_world s) (se_world s1)"
  shows "pointer_flow api header chord allowed s out"
proof -
  obtain e h info s' where out: "out = (e, h, info, s')" by (cases out) auto
  consider "quiet s1 s'" "h = header"
    | start sectors t u evs where "allowed start sectors" "armed api header chord s1 t"
      "trace (se_world u) = trace (se_world t) @ map Disk evs" "only (pointer_command start sectors) evs"
      "quiet u s'" "if e = Returned then pointer_success start sectors evs (Some h) else h = header"
    using assms(1) unfolding out pointer_flow_def prod.case by blast
  then show ?thesis
  proof cases
    case 1
    then show ?thesis using quiet_trans [OF assms(2)] by (simp add: out pointer_flow_def)
  next
    case 2
    note armed = armed_prefix [OF 2(2) assms(2,3)]
    show ?thesis
      unfolding out pointer_flow_def prod.case
      by (rule disjI2, rule exI [of _ start], rule exI [of _ sectors], rule exI [of _ t], rule exI [of _ u],
          rule exI [of _ evs]) (intro conjI 2 armed)
  qed
qed

lemma full_restore_flow:
  assumes "restore_capsule api header chain entry s1 = Some out" and "chord = PAD_L1 OR PAD_R1 OR PAD_SQUARE"
    and "quiet s s1" and "careful api (se_world s) (se_world s1)"
    and "rescue_storage_find api storage header w = (Inr entry, w')"
  shows "payload_flow api header chord (\<lambda>payload start sectors. in_mbr start sectors \<and>
      capsule_payload header payload start sectors) s out"
proof -
  define info where "info = entry_info entry"
  define start where "start = cap_payload_start info"
  define sectors where "sectors = cap_payload_sectors info"
  define payload where "payload = the (rescue_storage_payload (Some entry))"
  note pay = found_payload [OF assms(5) refl, folded info_def, folded start_def sectors_def payload_def]
  obtain b s2 where b: "live_bounds api start sectors s1 = (b, s2)" by fastforce
  have s2: "quiet s s2" using assms(3) quiet_bounds [OF b] by (rule quiet_trans)
  have c2: "careful api (se_world s) (se_world s2)" using assms(4) live_bounds_careful [OF b] by (rule careful_trans)
  obtain safety s3 where bk: "save_backup api header s2 = (safety, s3)" by fastforce
  have s3: "quiet s s3" using s2 quiet_backup [OF bk] by (rule quiet_trans)
  note run = assms(1) [unfolded restore_capsule_def info_def [symmetric] Let_def start_def [symmetric]
      sectors_def [symmetric] payload_def [symmetric] assms(2) [symmetric] b prod.case bk]
  show ?thesis
  proof (cases "b < 0 \<or> safety = None")
    case True
    then show ?thesis using run quiet_error_screen [OF s3] s2 by (auto split: if_splits intro!: payload_flow_quiet)
  next
    case False
    then obtain p where p: "safety = Some p" by auto
    obtain yes s4 where ask: "ask_chord api chord s3 = Some (yes, s4)"
      using run False p by (auto split: option.splits)
    note run = run [unfolded p option.case ask prod.case]
    show ?thesis
    proof (cases yes)
      case no: False
      then show ?thesis
        using run False quiet_trans [OF s3 ask_facts(1) [OF ask]] by (auto intro: payload_flow_quiet)
    next
      case True
      have armed: "armed api header chord s s4"
        by (rule armed_after [OF bk [unfolded p] s2 c2]) (use ask True in auto)
      obtain code stage h s5 where act: "activate_now api header payload (cap_payload_bytes info) start sectors s4 =
          (code, stage, h, s5)" by (metis prod_cases4)
      obtain chain1 s6 where re: "diagnostics_controller_refresh api h True
          (log_items [Lit ''Full rescue restored from '', Str (entry_path entry), Lit '' ('',
            Uns (length (entry_file entry)), Lit '' bytes); safety backup='', Str p] s5) = (chain1, s6)" by fastforce
      have ok: "in_mbr start sectors" using live_bounds_ok [OF b] False by simp
      show ?thesis
        using run True False quiet_refresh [OF re] ok pay
        by (auto simp: act re split: if_splits intro!: payload_flow_change [OF armed _ act] quiet_fatal)
    qed
  qed
qed

lemma restore_flow:
  assumes "bootstrap_controller_restore api header chain s = Some out"
    and "chord = PAD_L1 OR PAD_R1 OR PAD_SQUARE"
  shows "pointer_flow api header chord (\<lambda>start sectors. in_mbr start sectors \<and> saved_pointer header start sectors) s out \<or>
    payload_flow api header chord (\<lambda>payload start sectors. in_mbr start sectors \<and>
      capsule_payload header payload start sectors) s out"
proof -
  obtain found w where f: "rescue_storage_find api (se_storage s) header (se_world s) = (found, w)" by fastforce
  define s1 where "s1 = s\<lparr>se_world := w\<rparr>"
  have s1: "quiet s s1" using undisturbed_rescue_find [OF f] by (simp add: s1_def quiet_def)
  have c1: "careful api (se_world s) (se_world s1)" using careful_rescue_find [OF f] by (simp add: s1_def)
  note run = assms(1) [unfolded bootstrap_controller_restore_def f Let_def prod.case s1_def [symmetric]]
  show ?thesis
  proof (cases found)
    case (Inl code)
    show ?thesis
    proof (cases "code = RESCUE_STORAGE_NOT_FOUND \<or> code = RESCUE_STORAGE_HEADER_ONLY")
      case True
      then have "restore_legacy_pointer api header chain s1 = Some out" using run Inl by auto
      from pointer_flow_prefix [OF legacy_flow [OF this assms(2)] s1 c1] show ?thesis ..
    next
      case False
      then have "out = (Returned, header, chain, app_ui_wait_to_return (flush_log api (log_items
          [Lit ''Rescue capsule load rejected with code '', Dec code] s1)))"
        using run Inl by auto
      then show ?thesis using s1 by (auto intro!: pointer_flow_quiet)
    qed
  next
    case (Inr entry)
    then have "restore_capsule api header chain entry s1 = Some out" using run by simp
    from full_restore_flow [OF this assms(2) s1 c1 f [unfolded Inr]] show ?thesis ..
  qed
qed

section \<open>Installing\<close>

context file_store
begin

lemma read_loop_files:
  "read_loop api c fd want received w = (r, w') \<Longrightarrow> stored w' = stored w"
proof (induction "want - length received" arbitrary: received w rule: less_induct)
  case less
  obtain got w1 where step: "fileXioRead api fd (want - length received) w = (got, w1)" by fastforce
  have w1: "stored w1 = stored w"
    using step by (auto simp: fileXioRead_def Let_def split: prod.splits dest: read_files)
  show ?case
  proof (cases "length received < want \<and> (\<exists>bytes. got = Inr bytes \<and> bytes \<noteq> [])")
    case False
    then show ?thesis
      using less.prems step w1
      by (auto simp: read_loop.simps [of api c fd want received w] split: if_splits sum.splits)
  next
    case True
    then obtain bytes where bytes: "got = Inr bytes" "bytes \<noteq> []" by blast
    then have "read_loop api c fd want (received @ bytes) w1 = (r, w')"
      using less.prems(1) step True by (simp add: read_loop.simps [of api c fd want received w])
    moreover have "want - length (received @ bytes) < want - length received"
      using True bytes(2) by (cases bytes) auto
    ultimately show ?thesis using less.hyps w1 by metis
  qed
qed

lemma lseek_stored: "fileXioLseek api fd off origin w = (r, w') \<Longrightarrow> stored w' = stored w"
  by (auto simp: fileXioLseek_def split: prod.splits dest: lseek_files)

lemma read_opened_files: "read_opened api m c1 c2 c3 c4 fd w = (r, w') \<Longrightarrow> stored w' = stored w"
  by (auto simp: read_opened_def read_and_close_def Let_def split: prod.splits if_splits
      dest!: lseek_stored heap_effect read_loop_files)

end

lemma careful_reading:
  assumes "extends reading_event w w'"
    and "\<And>files fds. file_store api files fds \<Longrightarrow> files (store w') = files (store w)"
  shows "careful api w w'"
  using assms by (auto simp: careful_def intro: safely_reading)

lemma careful_open_read: "fileXioOpen api p FIO_RDONLY w = (fd, w') \<Longrightarrow> careful api w w'"
  by (rule careful_reading) (auto simp: file_store.open_read_effect(1) extends_def dest: trace_open)

lemma careful_opened: "read_opened api m c1 c2 c3 c4 fd w = (r, w') \<Longrightarrow> careful api w w'"
  by (rule careful_reading) (auto simp: file_store.read_opened_files intro: read_opened_extends)

lemma careful_wrap_open: "wrap_fileXioOpen api p FIO_RDONLY w = (fd, q, w') \<Longrightarrow> careful api w w'"
  by (auto simp: wrap_fileXioOpen_def split: if_splits prod.splits
      dest!: careful_open_read careful_getstat intro: careful_trans)

lemma careful_open_source: "open_source_retry api p n w = (fd, q, w') \<Longrightarrow> careful api w w'"
proof (induction n arbitrary: p w)
  case (Suc n)
  obtain k r w1 where o: "wrap_fileXioOpen api p FIO_RDONLY w = (k, r, w1)" by (metis prod_cases3)
  show ?case using Suc careful_wrap_open [OF o] o by (auto split: if_splits intro: careful_trans)
qed simp

lemma careful_fail: "fail_source res stage code v = (c, res', v') \<Longrightarrow> careful api w v \<Longrightarrow> careful api w v'"
  by (auto simp: fail_source_def)

lemma careful_load_payload:
  assumes "load_payload_file api storage source res w = (code, source', res', w')"
  shows "careful api w w'"
proof -
  obtain fd p w1 where o: "open_source_retry api (source_path source) (if storage = 2 then 20 else 1) w = (fd, p, w1)"
    by (metis prod_cases3)
  obtain got w2 where g: "(if fd < 0 then (Inl fd, w1) else read_opened api 4194304 (- 120) (- 121)
      (- 122) (- 123) fd w1) = (got, w2)" by fastforce
  have w2: "careful api w w2"
    using careful_open_source [OF o] g by (auto split: if_splits dest: careful_opened intro: careful_trans)
  show ?thesis
    using assms [unfolded load_payload_file_def o Let_def prod.case g] w2
    by (auto split: sum.splits prod.splits intro: careful_fail)
qed

lemma careful_capacity: "check_capacity api source res w = (code, source', res', w') \<Longrightarrow> careful api w w'"
  by (auto simp: check_capacity_def Let_def split: prod.splits if_splits
      dest!: careful_getstat intro: careful_fail)

lemma careful_prepare:
  assumes "bootstrap_source_prepare api storage source w = (code, source', res, w')"
  shows "careful api w w'"
proof -
  define w0 where "w0 = w\<lparr>last_errors := app_error_clear (last_errors w)\<rparr>"
  have w0: "careful api w w0" by (simp add: careful_def safely_def w0_def)
  define s0 where "s0 = (if source_path source = [] then bootstrap_source_init storage else source)"
  obtain c s1 r1 w1 where l: "load_payload_file api storage s0 empty_source_result w0 = (c, s1, r1, w1)"
    by (metis prod_cases4)
  have w1: "careful api w w1" using w0 careful_load_payload [OF l] by (rule careful_trans)
  show ?thesis
    using assms [unfolded bootstrap_source_prepare_def w0_def [symmetric] Let_def s0_def [symmetric] l prod.case] w0 w1
    by (auto split: prod.splits if_splits intro: careful_fail dest!: careful_capacity intro: careful_trans)
qed

text \<open>\<open>SecrDownloadFile\<close> works on the caller's buffer: what it leaves there has the same length.\<close>

definition signs_in_place :: "'f platform \<Rightarrow> bool" where
  "signs_in_place api \<longleftrightarrow> (\<forall>port slot data f out. fx_secr api port slot data f = Some out \<longrightarrow> length out = length data)"

text \<open>
  The payload of an installation: a validated KELF that was signed by the memory card and validated
  again, at the fixed place, with its sectors inside the live \<open>__mbr\<close>.
\<close>

definition signed_payload :: "'f platform \<Rightarrow> byte list \<Rightarrow> u32 \<Rightarrow> u32 \<Rightarrow> bool" where
  "signed_payload api payload start sectors \<longleftrightarrow> start = 0x2000 \<and>
    (\<exists>data port f source res. source_usable source res data \<and> sectors = source_sectors source \<and>
      (port = 0 \<or> port = 1) \<and> fx_secr api (2 + port) 0 data f = Some payload \<and>
      kelf_well_formed payload (length payload))"

lemma signing_facts:
  assumes "bootstrap_signing_sign secr port data n = (code, res, payload)" and "0 \<le> code"
  shows "(port = 0 \<or> port = 1) \<and> secr (2 + port) 0 data = Some payload \<and> kelf_validate_layout payload n = KELF_VALID"
  using assms
  by (auto simp: bootstrap_signing_sign_def Let_def not_less validation_code_valid [symmetric]
      split: if_splits option.splits)

lemma install_flow:
  assumes "bootstrap_controller_install api chosen_card header chain s = Some out"
    and "chord = PAD_L1 OR PAD_R1 OR PAD_CIRCLE" and "signs_in_place api"
  shows "payload_flow api header chord (signed_payload api) s out"
proof (cases "read_le32 header APA_OSD_START_OFFSET \<noteq> 0 \<or> read_le32 header APA_OSD_SIZE_OFFSET \<noteq> 0")
  case True
  then show ?thesis using assms(1) by (auto simp: bootstrap_controller_install_def intro: payload_flow_quiet)
next
  case False
  obtain code source res w where src: "bootstrap_source_prepare api (se_storage s)
      (bootstrap_source_init (se_storage s)) (se_world s) = (code, source, res, w)" by (metis prod_cases4)
  have init: "source_payload (bootstrap_source_init (se_storage s)) = None" by (simp add: bootstrap_source_init_def)
  define s1 where "s1 = s\<lparr>se_world := w\<rparr>"
  have s1: "quiet s s1"
    using undisturbed_inspecting [OF prepare_facts(1) [OF src init]] by (simp add: s1_def quiet_def)
  have c1: "careful api (se_world s) (se_world s1)" using careful_prepare [OF src] by (simp add: s1_def)
  obtain backup s2 where bk: "save_backup api header s1 = (backup, s2)" by fastforce
  have s2: "quiet s s2" using s1 quiet_backup [OF bk] by (rule quiet_trans)
  define port where "port = (if memory_card_port (se_storage s) < 0 then chosen_card else memory_card_port (se_storage s))"
  obtain sc sg payload where sign: "bootstrap_signing_sign
      (\<lambda>cport slot data. fx_secr api cport slot data (store (se_world s2))) port
      (the (source_payload source)) (source_payload_size source) = (sc, sg, payload)" by (metis prod_cases3)
  note run = assms(1) [unfolded bootstrap_controller_install_def if_not_P [OF False] src Let_def prod.case
      s1_def [symmetric] bk assms(2) [symmetric] port_def [symmetric] sign]
  show ?thesis
  proof (cases "code < 0 \<or> backup = None \<or> port < 0 \<or> sc < 0")
    case True
    have "quiet s (install_source_rejected api source res s1)" using s1 by (auto simp: install_source_rejected_def)
    then show ?thesis
      using run True quiet_error_screen [OF s2] s2 quiet_fatal [OF s2]
      by (auto split: if_splits option.splits intro!: payload_flow_quiet)
  next
    case ready: False
    then obtain p where p: "backup = Some p" by auto
    obtain yes s3 where ask: "ask_chord api chord s2 = Some (yes, s3)"
      using run ready p by (auto split: option.splits)
    note run = run [unfolded p option.case ask prod.case]
    show ?thesis
    proof (cases yes)
      case no: False
      then show ?thesis
        using run ready quiet_trans [OF s2 ask_facts(1) [OF ask]] by (auto intro: payload_flow_quiet)
    next
      case True
      then have install: "install_payload api header chain payload source s3 = Some out" using run ready by auto
      have armed: "armed api header chord s s3"
        by (rule armed_after [OF bk [unfolded p] s1 c1]) (use ask True in auto)
      obtain data where data: "source_usable source res data"
        using prepare_facts(4) [OF src init] ready by auto
      have signed: "(port = 0 \<or> port = 1) \<and> fx_secr api (2 + port) 0 data (store (se_world s2)) = Some payload \<and>
          kelf_validate_layout payload (source_payload_size source) = KELF_VALID"
        using signing_facts [OF sign] ready data by (simp add: source_usable_def)
      then have len: "length payload = length data" using assms(3) unfolding signs_in_place_def by blast
      have n: "unat (source_payload_size source) = length payload" "payload \<noteq> []"
        using data len by (auto simp: source_usable_def unat_of_nat)
      have ok: "signed_payload api payload 0x2000 (source_sectors source)"
        unfolding signed_payload_def
        by (intro conjI refl, rule exI [of _ data], rule exI [of _ port], rule exI [of _ "store (se_world s2)"],
            rule exI [of _ source], rule exI [of _ res])
          (use data signed n(1) in \<open>simp add: kelf_valid_arith\<close>)
      obtain c stage h s4 where act: "activate_now api header payload (source_payload_size source) 0x2000
          (source_sectors source) s3 = (c, stage, h, s4)" by (metis prod_cases4)
      define s5 where "s5 = log_items [Lit ''Bootstrap installed and verified at sector 0x'',
          PadHex 8 (unat HDD_MBR_PAYLOAD_START), Lit '' ('', Uns (unat (source_payload_size source)),
          Lit '' bytes, '', Uns (unat (source_sectors source)), Lit '' sectors)''] s4"
      obtain chain1 s6 where re: "diagnostics_controller_refresh api h True s5 = (chain1, s6)" by fastforce
      obtain rescue s7 where rs: "save_rescue_capsule api h chain1 s6 = (rescue, s7)" by fastforce
      have "quiet s4 s7" using quiet_trans [OF quiet_refresh [OF re] quiet_rescue [OF rs]] by (simp add: s5_def)
      then show ?thesis
        using install [unfolded install_payload_def act prod.case Let_def s5_def [symmetric] re rs] n ok
        by (auto split: if_splits intro!: payload_flow_change [OF armed _ act] quiet_fatal)
    qed
  qed
qed

section \<open>Properties\<close>

text \<open>
  Property C3: disabling the bootstrap.  Every run that ends either leaves the disk alone, with the
  header as it was; or it first has the header in a backup slot of the selected device (on every
  device that keeps the laws of a file store), without damage to any file, and the confirmation just
  held, and from then on asks the disk for nothing but the cleared pointer, flushes and the master
  read back.  It returns only if the pointer was cleared and flushed and the header it hands back is
  the standard master just read with both fields 0.
\<close>

theorem disable_guarded:
  assumes "bootstrap_controller_disable api header chain s = Some out"
  shows "pointer_flow api header (PAD_L1 OR PAD_R1 OR PAD_CROSS) (\<lambda>start sectors. start = 0 \<and> sectors = 0) s out"
  by (rule disable_flow [OF assms refl])



section \<open>Witnesses\<close>

text \<open>
  A platform whose disk reports a roomy \<open>__mbr\<close> but refuses every command, with the confirmation
  held; every workflow ends there.
\<close>

definition sample_platform :: "memory platform" where
  "sample_platform = roomy_platform\<lparr>fx_hdd := \<lparr>devctl = (\<lambda>cmd m. (- 1, [], m)),
    getstat_mbr = (\<lambda>m. (0, 0, 0x40000, m))\<rparr>\<rparr>"

definition sample_session :: "nat \<Rightarrow> memory file_world \<Rightarrow> memory session" where
  "sample_session storage w = \<lparr>se_storage = storage,
    se_log = \<lparr>log_buffer = [], log_saved = [0, 0, 0], log_sequence = 0\<rparr>,
    se_report = \<lparr>report_text = [], report_save_result = REPORT_SAVE_NOT_TRIED\<rparr>,
    se_backup = empty_diagnostics, se_world = w\<rparr>"

lemma sample_ask:
  assumes "chord \<in> {PAD_L1 OR PAD_R1 OR PAD_CROSS, PAD_L1 OR PAD_R1 OR PAD_SQUARE, PAD_L1 OR PAD_R1 OR PAD_CIRCLE}"
  shows "ask_chord sample_platform chord s = Some (True, s)"
proof -
  have held: "held_buttons sample_platform w = (Some 0xefff, w)" for w :: "memory file_world"
    by (simp add: held_buttons_def sample_platform_def roomy_platform_def memory_platform_def)
  have "(0xefff :: u32) AND PAD_TRIANGLE = 0" "(0xefff :: u32) AND chord = chord"
    using assms by auto
  then show ?thesis
    by (simp add: ask_chord_def wait_for_chord.simps [of sample_platform] held)
qed

lemma sample_refused:
  "fst (set_pointer_now sample_platform header start sectors s) = - 1"
  "fst (snd (set_pointer_now sample_platform header start sectors s)) = BOOTSTRAP_TRANSACTION_STAGE_POINTER_SET"
  by (auto simp: set_pointer_now_def bootstrap_transaction_ps2_set_pointer_def bootstrap_transaction_set_pointer_def
      sample_platform_def ps2_ops_def ps2_set_osd_mbr_def reset_result_def transaction_fail_def fail_result_def
      hdd_write_set_osd_mbr_def issue_command_def split: prod.splits)

lemma disable_sample_saves:
  "fst (header_backup_save sample_platform 2 [7, 8, 9, 7] empty_diagnostics (fresh_memory [] 3)) =
    Some (ascii ''mass:/HDDMBR.BIN'')"
  by code_simp

lemma disable_sample_backup:
  "fst (save_backup sample_platform [7, 8, 9, 7] (sample_session 2 (fresh_memory [] 3))) =
    Some (ascii ''mass:/HDDMBR.BIN'')"
  using disable_sample_saves by (auto simp: save_backup_def sample_session_def split: prod.splits)

text \<open>The disk refuses the cleared pointer: the workflow stops, after it had armed itself.\<close>

theorem disable_guarded_witness:
  "\<exists>out. bootstrap_controller_disable sample_platform [7, 8, 9, 7] empty_boot_chain
      (sample_session 2 (fresh_memory [] 3)) = Some out \<and>
    fst out = Stopped ''HDIOC_SETOSDMBR failed.'' (- 1) \<and>
    pointer_flow sample_platform [7, 8, 9, 7] (PAD_L1 OR PAD_R1 OR PAD_CROSS)
      (\<lambda>start sectors. start = 0 \<and> sectors = 0) (sample_session 2 (fresh_memory [] 3)) out"
proof -
  have asks: "ask_chord sample_platform (PAD_L1 OR PAD_R1 OR PAD_CROSS) s = Some (True, s)" for s
    by (rule sample_ask) simp
  obtain p s1 where backup: "save_backup sample_platform [7, 8, 9, 7] (sample_session 2 (fresh_memory [] 3)) = (Some p, s1)"
    using disable_sample_backup by (metis prod.collapse)
  obtain rescue s2 where rescue: "save_rescue_capsule sample_platform [7, 8, 9, 7] empty_boot_chain s1 = (rescue, s2)"
    by fastforce
  obtain h s4 where set: "set_pointer_now sample_platform [7, 8, 9, 7] 0 0 s2 =
      (- 1, BOOTSTRAP_TRANSACTION_STAGE_POINTER_SET, h, s4)"
    using sample_refused [of "[7, 8, 9, 7]" 0 0 s2] by (metis prod.collapse)
  have "bootstrap_controller_disable sample_platform [7, 8, 9, 7] empty_boot_chain
      (sample_session 2 (fresh_memory [] 3)) = Some (Stopped ''HDIOC_SETOSDMBR failed.'' (- 1), h, empty_boot_chain,
        app_ui_fatal_screen sample_platform ''HDIOC_SETOSDMBR failed.'' (- 1) s4)"
    unfolding bootstrap_controller_disable_def backup prod.case option.case Let_def asks rescue set
    by simp
  with disable_guarded [OF this] show ?thesis by auto
qed





end
