(* ===== verification/ForensicIndex.thy ===== *)
theory ForensicIndex
  imports Apa
begin

text \<open>
  The working set of the forensic scan: the nodes found so far, the index of them sorted by
  sector, and the bit sets the map builders use.  It models the first part of
  \<open>src/apa_forensic.c\<close> and the node type of \<open>include/apa_forensic.h\<close>.  An array with a count
  of used entries is the list of the used entries.  The lemmas show that the binary search finds
  exactly the node at a sector, that insertion keeps the index sorted, and that the bit sets are
  sets.
\<close>

abbreviation (input) APA_FORENSIC_MAX_NODES :: nat where "APA_FORENSIC_MAX_NODES \<equiv> 2048"
abbreviation (input) NODE_SET_BYTES :: nat where "NODE_SET_BYTES \<equiv> (2048 + 7) div 8"

section \<open>Bit sets\<close>

definition node_set_empty :: "byte list" where
  "node_set_empty = replicate NODE_SET_BYTES 0"

definition node_set_contains :: "byte list \<Rightarrow> nat \<Rightarrow> bool" where
  "node_set_contains s i \<longleftrightarrow> s ! (i div 8) AND push_bit (i mod 8) 1 \<noteq> 0"

definition node_set_add :: "byte list \<Rightarrow> nat \<Rightarrow> byte list" where
  "node_set_add s i = s[i div 8 := s ! (i div 8) OR push_bit (i mod 8) 1]"

text \<open>What the map builders rely on: a membership test and an insertion on indices below a bound.\<close>

locale index_set =
  fixes empty :: 's and contains :: "'s \<Rightarrow> nat \<Rightarrow> bool" and add :: "'s \<Rightarrow> nat \<Rightarrow> 's"
    and good :: "'s \<Rightarrow> bool" and bound :: nat
  assumes good_empty: "good empty"
    and good_add: "good s \<Longrightarrow> i < bound \<Longrightarrow> good (add s i)"
    and contains_empty: "i < bound \<Longrightarrow> \<not> contains empty i"
    and contains_add: "good s \<Longrightarrow> i < bound \<Longrightarrow> j < bound \<Longrightarrow>
      contains (add s i) j \<longleftrightarrow> j = i \<or> contains s j"
begin

definition represents :: "'s \<Rightarrow> nat set \<Rightarrow> bool" where
  "represents s A \<longleftrightarrow> good s \<and> A \<subseteq> {..<bound} \<and> (\<forall>i<bound. contains s i \<longleftrightarrow> i \<in> A)"

lemma represents_empty: "represents empty {}"
  by (simp add: represents_def good_empty contains_empty)

lemma represents_add: "represents s A \<Longrightarrow> i < bound \<Longrightarrow> represents (add s i) (insert i A)"
  by (auto simp: represents_def good_add contains_add)

lemma represents_contains: "represents s A \<Longrightarrow> i < bound \<Longrightarrow> contains s i \<longleftrightarrow> i \<in> A"
  by (simp add: represents_def)

lemma represents_fold:
  "represents s A \<Longrightarrow> set xs \<subseteq> {..<bound} \<Longrightarrow> represents (fold (\<lambda>i s. add s i) xs s) (A \<union> set xs)"
proof (induction xs arbitrary: s A)
  case (Cons x xs)
  have "represents (add s x) (insert x A)" using Cons.prems by (intro represents_add) auto
  from Cons.IH [OF this] Cons.prems(2) show ?case by simp
qed simp

end

lemma mask_bit: "(w :: byte) AND push_bit k 1 \<noteq> 0 \<longleftrightarrow> bit w k" if "k < 8"
proof -
  have "w AND push_bit k 1 = (if bit w k then push_bit k 1 else 0)"
    by (rule bit_word_eqI) (auto simp: bit_simps)
  moreover have "k = 0 \<or> k = 1 \<or> k = 2 \<or> k = 3 \<or> k = 4 \<or> k = 5 \<or> k = 6 \<or> k = 7"
    using that by auto
  then have "push_bit k (1 :: byte) \<noteq> 0" by (elim disjE) simp_all
  ultimately show ?thesis by simp
qed

interpretation nodes: index_set node_set_empty node_set_contains node_set_add
  "\<lambda>s. length s = NODE_SET_BYTES" APA_FORENSIC_MAX_NODES
proof unfold_locales
  fix s :: "byte list" and i j :: nat
  assume s: "length s = (2048 + 7) div 8" and i: "i < 2048" and j: "j < 2048"
  have k: "i mod 8 < 8" "j mod 8 < 8" by simp_all
  have in_range: "i div 8 < length s" "j div 8 < length s" using s i j by simp_all
  have same: "i = j \<longleftrightarrow> i div 8 = j div 8 \<and> i mod 8 = j mod 8"
    by (metis div_mult_mod_eq)
  have bit: "bit (w OR push_bit (i mod 8) 1) (j mod 8) \<longleftrightarrow> bit w (j mod 8) \<or> i mod 8 = j mod 8"
    for w :: byte
    using k by (auto simp: bit_or_iff bit_push_bit_iff bit_1_iff simp del: push_bit_of_1)
  show "node_set_contains (node_set_add s i) j \<longleftrightarrow> j = i \<or> node_set_contains s j"
  proof (cases "i div 8 = j div 8")
    case True
    then show ?thesis
      using in_range bit [of "s ! (j div 8)"] same
      unfolding node_set_contains_def node_set_add_def mask_bit [OF k(2)] by auto
  next
    case False
    then show ?thesis
      using in_range same by (auto simp: node_set_contains_def node_set_add_def)
  qed
qed (simp_all add: node_set_empty_def node_set_contains_def node_set_add_def)

section \<open>Nodes and the sorted index\<close>

record apa_forensic_node =
  node_lba :: u32
  node_stored_checksum :: u32
  node_calculated_checksum :: u32
  node_next :: u32
  node_prev :: u32
  node_start :: u32
  node_length :: u32
  node_main :: u32
  node_nsub :: u32
  node_number :: u32
  node_type :: u16
  node_flags :: u16
  node_evidence :: u32
  node_confidence :: nat
  node_id :: "byte list"
  node_header :: "byte list"

text \<open>The search loop that \<open>find_node\<close> and \<open>index_node\<close> share.\<close>

function lower_bound :: "apa_forensic_node list \<Rightarrow> nat list \<Rightarrow> u32 \<Rightarrow> nat \<Rightarrow> nat \<Rightarrow> nat" where
  "lower_bound nodes by_lba lba low high =
    (if low < high then
       let middle = low + (high - low) div 2;
           candidate = node_lba (nodes ! (by_lba ! middle)) in
       if candidate < lba then lower_bound nodes by_lba lba (middle + 1) high
       else lower_bound nodes by_lba lba low middle
     else low)"
  by pat_completeness auto

termination
  by (relation "measure (\<lambda>(nodes, by_lba, lba, low, high). high - low)") auto

declare lower_bound.simps [simp del]

definition find_node :: "apa_forensic_node list \<Rightarrow> nat list \<Rightarrow> u32 \<Rightarrow> nat option" where
  "find_node nodes by_lba lba =
    (let low = lower_bound nodes by_lba lba 0 (length by_lba) in
     if low < length by_lba \<and> node_lba (nodes ! (by_lba ! low)) = lba then Some (by_lba ! low)
     else None)"

definition index_node :: "apa_forensic_node list \<Rightarrow> nat list \<Rightarrow> nat \<Rightarrow> nat list" where
  "index_node nodes by_lba node_index =
    (let low = lower_bound nodes by_lba (node_lba (nodes ! node_index)) 0 (length by_lba) in
     take low by_lba @ [node_index] @ drop low by_lba)"

text \<open>The index is the list of all node numbers in the strict order of their sectors.\<close>

definition lba_of :: "apa_forensic_node list \<Rightarrow> nat \<Rightarrow> u32" where
  "lba_of nodes i = node_lba (nodes ! i)"

definition index_ok :: "apa_forensic_node list \<Rightarrow> nat list \<Rightarrow> bool" where
  "index_ok nodes by_lba \<longleftrightarrow>
    sorted_wrt (<) (map (lba_of nodes) by_lba) \<and> set by_lba = {..<length nodes} \<and>
    length by_lba = length nodes"

lemma sorted_nth_less:
  "sorted_wrt (<) xs \<Longrightarrow> i < j \<Longrightarrow> j < length xs \<Longrightarrow> (xs ! i :: u32) < xs ! j"
  by (simp add: sorted_wrt_iff_nth_less)

lemma lower_bound_spec:
  assumes "sorted_wrt (<) (map (lba_of nodes) by_lba)" and "low \<le> high" and "high \<le> length by_lba"
    and "\<forall>k<low. lba_of nodes (by_lba ! k) < lba"
    and "\<forall>k. high \<le> k \<and> k < length by_lba \<longrightarrow> lba \<le> lba_of nodes (by_lba ! k)"
  defines "p \<equiv> lower_bound nodes by_lba lba low high"
  shows "p \<le> length by_lba \<and> (\<forall>k<p. lba_of nodes (by_lba ! k) < lba) \<and>
    (\<forall>k. p \<le> k \<and> k < length by_lba \<longrightarrow> lba \<le> lba_of nodes (by_lba ! k))"
  using assms(1-5) unfolding p_def
proof (induction nodes by_lba lba low high rule: lower_bound.induct)
  case (1 nodes by_lba lba low high)
  have mono: "lba_of nodes (by_lba ! i) \<le> lba_of nodes (by_lba ! j)"
    if "i \<le> j" "j < length by_lba" for i j
    using that sorted_nth_less [OF "1.prems"(1), of i j] by (cases "i = j") auto
  show ?case
  proof (cases "low < high")
    case False
    then have "lower_bound nodes by_lba lba low high = low"
      by (simp add: lower_bound.simps [of nodes by_lba lba low high])
    moreover have "low = high" using False "1.prems"(2) by simp
    ultimately show ?thesis using "1.prems"(3-5) by simp
  next
    case True
    define middle where "middle = low + (high - low) div 2"
    have mid: "low \<le> middle" "middle < high" using True by (auto simp: middle_def)
    have unfold: "lower_bound nodes by_lba lba low high =
        (if node_lba (nodes ! (by_lba ! middle)) < lba
         then lower_bound nodes by_lba lba (middle + 1) high
         else lower_bound nodes by_lba lba low middle)"
      using True by (simp add: lower_bound.simps [of nodes by_lba lba low high] middle_def Let_def)
    show ?thesis
    proof (cases "node_lba (nodes ! (by_lba ! middle)) < lba")
      case less: True
      have all: "\<forall>k<middle + 1. lba_of nodes (by_lba ! k) < lba"
      proof (intro allI impI)
        fix k assume "k < middle + 1"
        then have "lba_of nodes (by_lba ! k) \<le> lba_of nodes (by_lba ! middle)"
          using mid "1.prems"(3) by (intro mono) auto
        then show "lba_of nodes (by_lba ! k) < lba" using less by (simp add: lba_of_def)
      qed
      have "middle + 1 \<le> high" using mid by simp
      from "1.IH"(1) [OF True middle_def refl less "1.prems"(1) this "1.prems"(3) all "1.prems"(5)]
      show ?thesis unfolding unfold if_P [OF less] .
    next
      case ge: False
      have all: "\<forall>k. middle \<le> k \<and> k < length by_lba \<longrightarrow> lba \<le> lba_of nodes (by_lba ! k)"
      proof (intro allI impI)
        fix k assume k: "middle \<le> k \<and> k < length by_lba"
        then have "lba_of nodes (by_lba ! middle) \<le> lba_of nodes (by_lba ! k)"
          by (intro mono) auto
        then show "lba \<le> lba_of nodes (by_lba ! k)" using ge by (simp add: lba_of_def)
      qed
      have "middle \<le> length by_lba" using mid "1.prems"(3) by simp
      from "1.IH"(2) [OF True middle_def refl ge "1.prems"(1) mid(1) this "1.prems"(4) all]
      show ?thesis unfolding unfold if_not_P [OF ge] .
    qed
  qed
qed

lemma lower_bound_full:
  fixes lba :: u32
  assumes "sorted_wrt (<) (map (lba_of nodes) by_lba)"
  defines "p \<equiv> lower_bound nodes by_lba lba 0 (length by_lba)"
  shows "p \<le> length by_lba" "\<forall>k<p. lba_of nodes (by_lba ! k) < lba"
    "\<forall>k. p \<le> k \<and> k < length by_lba \<longrightarrow> lba \<le> lba_of nodes (by_lba ! k)"
proof -
  have "p \<le> length by_lba \<and> (\<forall>k<p. lba_of nodes (by_lba ! k) < lba) \<and>
      (\<forall>k. p \<le> k \<and> k < length by_lba \<longrightarrow> lba \<le> lba_of nodes (by_lba ! k))"
    unfolding p_def by (rule lower_bound_spec [OF assms(1)]) auto
  then show "p \<le> length by_lba" "\<forall>k<p. lba_of nodes (by_lba ! k) < lba"
    "\<forall>k. p \<le> k \<and> k < length by_lba \<longrightarrow> lba \<le> lba_of nodes (by_lba ! k)" by blast+
qed

text \<open>Looking up a sector finds exactly the node that is there.\<close>

lemma find_node_iff:
  assumes ok: "index_ok nodes by_lba"
  shows "find_node nodes by_lba lba = Some i \<longleftrightarrow> i < length nodes \<and> node_lba (nodes ! i) = lba"
proof -
  let ?p = "lower_bound nodes by_lba lba 0 (length by_lba)"
  have sorted: "sorted_wrt (<) (map (lba_of nodes) by_lba)"
    and members: "set by_lba = {..<length nodes}"
    using ok by (auto simp: index_ok_def)
  note lb = lower_bound_full [OF sorted, of lba]
  show ?thesis
  proof
    assume "find_node nodes by_lba lba = Some i"
    then have "?p < length by_lba" "node_lba (nodes ! (by_lba ! ?p)) = lba" "i = by_lba ! ?p"
      by (auto simp: find_node_def Let_def split: if_splits)
    then show "i < length nodes \<and> node_lba (nodes ! i) = lba"
      using members nth_mem [of ?p by_lba] by auto
  next
    assume i: "i < length nodes \<and> node_lba (nodes ! i) = lba"
    then obtain k where k: "k < length by_lba" "by_lba ! k = i"
      using members by (metis in_set_conv_nth lessThan_iff)
    then have lba_k: "lba_of nodes (by_lba ! k) = lba" using i by (simp add: lba_of_def)
    have "?p \<le> k" using lb(2) lba_k by (metis less_irrefl not_le)
    moreover have "\<not> ?p < k"
    proof
      assume "?p < k"
      then have "lba_of nodes (by_lba ! ?p) < lba_of nodes (by_lba ! k)"
        using sorted_nth_less [OF sorted, of ?p k] k(1) by simp
      moreover have "lba \<le> lba_of nodes (by_lba ! ?p)" using lb(3) \<open>?p < k\<close> k(1) by simp
      ultimately show False using lba_k by simp
    qed
    ultimately have "?p = k" by simp
    then show "find_node nodes by_lba lba = Some i"
      using k i by (simp add: find_node_def Let_def)
  qed
qed

lemma find_node_None:
  assumes "index_ok nodes by_lba"
  shows "find_node nodes by_lba lba = None \<longleftrightarrow> lba \<notin> set (map node_lba nodes)"
proof -
  have "find_node nodes by_lba lba \<noteq> None \<longleftrightarrow> (\<exists>i<length nodes. node_lba (nodes ! i) = lba)"
    using find_node_iff [OF assms, of lba] by (auto simp: not_None_eq)
  also have "\<dots> \<longleftrightarrow> lba \<in> set (map node_lba nodes)"
    by (auto simp: in_set_conv_nth image_iff) (metis in_set_conv_nth)
  finally show ?thesis by blast
qed

text \<open>Inserting the newest node at its place.\<close>

lemma index_node_ok:
  assumes ok: "index_ok nodes by_lba" and new: "node_lba node \<notin> set (map node_lba nodes)"
  shows "index_ok (nodes @ [node]) (index_node (nodes @ [node]) by_lba (length nodes))"
proof -
  let ?nodes = "nodes @ [node]"
  let ?lba = "node_lba node"
  let ?p = "lower_bound ?nodes by_lba ?lba 0 (length by_lba)"
  have members: "set by_lba = {..<length nodes}" and len: "length by_lba = length nodes"
    using ok by (auto simp: index_ok_def)
  have same: "lba_of ?nodes j = lba_of nodes j" if "j < length nodes" for j
    using that by (simp add: lba_of_def nth_append)
  have map_same: "map (lba_of ?nodes) by_lba = map (lba_of nodes) by_lba"
    using members same by auto
  have sorted: "sorted_wrt (<) (map (lba_of ?nodes) by_lba)"
    using ok unfolding map_same index_ok_def by blast
  note lb = lower_bound_full [OF sorted, of ?lba]
  have neq: "lba_of ?nodes (by_lba ! k) \<noteq> ?lba" if "k < length by_lba" for k
  proof -
    have "by_lba ! k < length nodes" using that members nth_mem [of k by_lba] by auto
    then have "lba_of ?nodes (by_lba ! k) = map node_lba nodes ! (by_lba ! k)"
      unfolding same [OF \<open>by_lba ! k < length nodes\<close>] by (simp add: lba_of_def)
    then have "lba_of ?nodes (by_lba ! k) \<in> set (map node_lba nodes)"
      using \<open>by_lba ! k < length nodes\<close> by (metis length_map nth_mem)
    then show ?thesis using new by metis
  qed
  have below: "\<forall>x \<in> set (take ?p by_lba). lba_of ?nodes x < ?lba"
    using lb(1,2) by (auto simp: in_set_conv_nth)
  have above: "\<forall>x \<in> set (drop ?p by_lba). ?lba < lba_of ?nodes x"
  proof
    fix x assume "x \<in> set (drop ?p by_lba)"
    then obtain k where "k < length (drop ?p by_lba)" "x = drop ?p by_lba ! k"
      by (metis in_set_conv_nth)
    then have "?p + k < length by_lba" "x = by_lba ! (?p + k)" by auto
    then show "?lba < lba_of ?nodes x"
      using lb(3) neq [of "?p + k"] by (metis le_add1 le_neq_trans)
  qed
  have s1: "sorted_wrt (<) (map (lba_of ?nodes) (take ?p by_lba))"
    using sorted_wrt_take [OF sorted, of ?p] by (simp only: take_map)
  have s2: "sorted_wrt (<) (map (lba_of ?nodes) (drop ?p by_lba))"
    using sorted_wrt_drop [OF sorted, of ?p] by (simp only: drop_map)
  have last: "lba_of ?nodes (length nodes) = ?lba" by (simp add: lba_of_def)
  have across: "\<forall>x \<in> set (take ?p by_lba). \<forall>y \<in> set (drop ?p by_lba).
      lba_of ?nodes x < lba_of ?nodes y"
    using below above by (meson less_trans)
  have A: "sorted_wrt (<) (map (lba_of ?nodes) (take ?p by_lba @ [length nodes] @ drop ?p by_lba))"
    unfolding map_append list.map last
    using s1 s2 below above across by (simp add: sorted_wrt_append)
  have B: "set (take ?p by_lba @ [length nodes] @ drop ?p by_lba) = {..<length ?nodes}"
  proof -
    have "set (take ?p by_lba) \<union> set (drop ?p by_lba) = set by_lba"
      by (metis append_take_drop_id set_append)
    then show ?thesis using members by (simp add: lessThan_Suc)
  qed
  have C: "length (take ?p by_lba @ [length nodes] @ drop ?p by_lba) = length ?nodes"
    using len lb(1) by simp
  have "index_node ?nodes by_lba (length nodes) = take ?p by_lba @ [length nodes] @ drop ?p by_lba"
    by (simp add: index_node_def Let_def)
  then show ?thesis unfolding index_ok_def using A B C by metis
qed

end
