(* ===== verification/ForensicScan.thy ===== *)
theory ForensicScan
  imports ForensicIndex
begin

text \<open>
  Discovery of candidate headers: the inspection of a header, the grid pass and the pass that
  follows references, from \<open>src/apa_forensic.c\<close>.  The device is the parameter \<open>reader\<close>, an
  arbitrary function on its own context; a progress callback may use the same context.  The
  lemmas show that every node found records the header that was read for it, that no sector is
  listed twice, and that both passes end.
\<close>

section \<open>Evidence\<close>

abbreviation (input) EVIDENCE_MAGIC :: u32 where "EVIDENCE_MAGIC \<equiv> 0x001"
abbreviation (input) EVIDENCE_SELF_START :: u32 where "EVIDENCE_SELF_START \<equiv> 0x002"
abbreviation (input) EVIDENCE_CHECKSUM :: u32 where "EVIDENCE_CHECKSUM \<equiv> 0x004"
abbreviation (input) EVIDENCE_LENGTH :: u32 where "EVIDENCE_LENGTH \<equiv> 0x008"
abbreviation (input) EVIDENCE_NSUB :: u32 where "EVIDENCE_NSUB \<equiv> 0x010"
abbreviation (input) EVIDENCE_TYPE :: u32 where "EVIDENCE_TYPE \<equiv> 0x020"
abbreviation (input) EVIDENCE_ID :: u32 where "EVIDENCE_ID \<equiv> 0x040"
abbreviation (input) EVIDENCE_GRID :: u32 where "EVIDENCE_GRID \<equiv> 0x080"
abbreviation (input) EVIDENCE_REFERENCED :: u32 where "EVIDENCE_REFERENCED \<equiv> 0x100"
abbreviation (input) EVIDENCE_DORMANT_FREE :: u32 where "EVIDENCE_DORMANT_FREE \<equiv> 0x200"
abbreviation (input) APA_FORENSIC_SCAN_STEP :: u32 where "APA_FORENSIC_SCAN_STEP \<equiv> 0x40000"

definition type_plausible :: "u16 \<Rightarrow> bool" where
  "type_plausible type \<longleftrightarrow>
    type \<in> {0x0000, 0x0001, 0x0082, 0x0083, 0x0088, 0x0100, 0x0101, 0x1337}"

fun id_loop :: "byte list \<Rightarrow> bool \<Rightarrow> bool" where
  "id_loop [] saw_character = saw_character"
| "id_loop (b # bs) saw_character =
    (if b = 0 then saw_character
     else if b < 0x20 \<or> b > 0x7e then False
     else id_loop bs True)"

definition id_plausible :: "byte list \<Rightarrow> bool" where
  "id_plausible ident = id_loop (take APA_ID_SIZE ident) False"

definition clamp_confidence :: "int \<Rightarrow> nat" where
  "clamp_confidence value = (if value < 0 then 0 else if value > 100 then 100 else nat value)"

text \<open>One test of the inspection: the evidence bit and the points it adds.\<close>

definition credit :: "bool \<Rightarrow> u32 \<Rightarrow> int \<Rightarrow> u32 \<times> int \<Rightarrow> u32 \<times> int" where
  "credit test bits points acc =
    (if test then (fst acc OR bits, snd acc + points) else acc)"

text \<open>\<open>inspect_header\<close> returns the confidence, the evidence and the calculated checksum.\<close>

definition inspect_header :: "byte list \<Rightarrow> u32 \<Rightarrow> u32 \<Rightarrow> u32 \<Rightarrow> nat \<times> u32 \<times> u32" where
  "inspect_header header lba total_sectors source_evidence =
    (let start = read_le32 header APA_START_OFFSET;
         len = read_le32 header APA_LENGTH_OFFSET;
         nsub = read_le32 header APA_NSUB_OFFSET;
         type = read_le16 header APA_TYPE_OFFSET;
         end_lba = ucast start + ucast len :: u64;
         a0 = credit (bytes_at APA_MAGIC_OFFSET 4 header = apa_magic) EVIDENCE_MAGIC 25
           (source_evidence, 0);
         a1 = credit (start = lba) EVIDENCE_SELF_START 20 a0 in
     if source_evidence AND EVIDENCE_REFERENCED = 0 \<and>
        fst a1 AND (EVIDENCE_MAGIC OR EVIDENCE_SELF_START) = 0
     then (0, fst a1, 0)
     else let checksum = apa_checksum header;
              a2 = credit (read_le32 header 0 = checksum) EVIDENCE_CHECKSUM 20 a1;
              a3 = credit (len \<noteq> 0 \<and> start < total_sectors \<and> end_lba \<le> ucast total_sectors)
                EVIDENCE_LENGTH 15 a2;
              a4 = credit (nsub \<le> APA_MAX_SUBS) EVIDENCE_NSUB 5 a3;
              a5 = credit (type_plausible type) EVIDENCE_TYPE 5 a4;
              a6 = credit (id_plausible (drop APA_ID_OFFSET header)) EVIDENCE_ID 10 a5;
              score = (if fst a6 AND (EVIDENCE_MAGIC OR EVIDENCE_LENGTH OR EVIDENCE_ID) = 0
                then 0 else snd a6) in
       (clamp_confidence score, fst a6, checksum))"

section \<open>Results\<close>

datatype apa_forensic_map_kind = APA_FORENSIC_MAP_NONE | APA_FORENSIC_MAP_FORWARD
  | APA_FORENSIC_MAP_REVERSE | APA_FORENSIC_MAP_GEOMETRY

record apa_forensic_map =
  map_kind :: apa_forensic_map_kind
  map_reciprocal_links :: nat
  map_inferred_links :: nat
  map_conflicts :: nat
  map_overlaps :: nat
  map_confidence :: nat
  map_repairable :: bool
  map_order :: "nat list"

record apa_forensic_result =
  scan_total_sectors :: u32
  scan_grid_step :: u32
  scan_grid_reads :: nat
  scan_reference_reads :: nat
  scan_unreadable_reads :: nat
  scan_dormant_free_nodes :: nat
  scan_truncated :: bool
  scan_nodes :: "apa_forensic_node list"
  scan_maps :: "apa_forensic_map list"

record 'c forensic_state =
  fs_result :: apa_forensic_result
  fs_by_lba :: "nat list"
  fs_context :: 'c

type_synonym 'c forensic_reader = "u32 \<Rightarrow> nat \<Rightarrow> 'c \<Rightarrow> int \<times> byte list \<times> 'c"

abbreviation fs_nodes :: "'c forensic_state \<Rightarrow> apa_forensic_node list" where
  "fs_nodes s \<equiv> scan_nodes (fs_result s)"

definition map_result ::
    "(apa_forensic_result \<Rightarrow> apa_forensic_result) \<Rightarrow> 'c forensic_state \<Rightarrow> 'c forensic_state" where
  "map_result f s = s\<lparr>fs_result := f (fs_result s)\<rparr>"

definition mark_evidence ::
    "nat \<Rightarrow> u32 \<Rightarrow> apa_forensic_node list \<Rightarrow> apa_forensic_node list" where
  "mark_evidence i bits nodes = nodes[i := (nodes ! i)
    \<lparr>node_evidence := node_evidence (nodes ! i) OR bits\<rparr>]"

definition node_of_header ::
    "byte list \<Rightarrow> u32 \<Rightarrow> u32 \<Rightarrow> u32 \<Rightarrow> nat \<Rightarrow> apa_forensic_node" where
  "node_of_header header lba calculated_checksum evidence confidence =
    \<lparr>node_lba = lba, node_stored_checksum = read_le32 header 0,
     node_calculated_checksum = calculated_checksum,
     node_next = read_le32 header APA_NEXT_OFFSET, node_prev = read_le32 header APA_PREV_OFFSET,
     node_start = read_le32 header APA_START_OFFSET,
     node_length = read_le32 header APA_LENGTH_OFFSET,
     node_main = read_le32 header APA_MAIN_OFFSET, node_nsub = read_le32 header APA_NSUB_OFFSET,
     node_number = read_le32 header APA_NUMBER_OFFSET,
     node_type = read_le16 header APA_TYPE_OFFSET, node_flags = read_le16 header APA_FLAGS_OFFSET,
     node_evidence = evidence, node_confidence = confidence,
     node_id = bytes_at APA_ID_OFFSET APA_ID_SIZE header @ [0], node_header = header\<rparr>"

section \<open>Adding candidates\<close>

definition add_candidate ::
    "'c forensic_reader \<Rightarrow> u32 \<Rightarrow> u32 \<Rightarrow> u32 \<Rightarrow> 'c forensic_state \<Rightarrow> int \<times> 'c forensic_state" where
  "add_candidate reader lba total_sectors source_evidence s =
    (if lba \<ge> total_sectors \<or> total_sectors - lba < 2 then (0, s)
     else case find_node (fs_nodes s) (fs_by_lba s) lba of
       Some existing \<Rightarrow>
         (0, map_result (scan_nodes_update (mark_evidence existing source_evidence)) s)
     | None \<Rightarrow>
         let (read_result, header, ctx) = reader lba 2 (fs_context s);
             s1 = s\<lparr>fs_context := ctx\<rparr> in
         if read_result < 0
         then (read_result, map_result (scan_unreadable_reads_update Suc) s1)
         else let (confidence, evidence, checksum) =
             inspect_header header lba total_sectors source_evidence in
           if confidence < 30 \<and> \<not> (lba = 0 \<and> confidence \<ge> 20) then (0, s1)
           else if length (fs_nodes s1) \<ge> APA_FORENSIC_MAX_NODES
           then (1, map_result (scan_truncated_update (\<lambda>_. True)) s1)
           else let nodes = fs_nodes s1 @ [node_of_header header lba checksum evidence confidence] in
             (1, (map_result (scan_nodes_update (\<lambda>_. nodes)) s1)
               \<lparr>fs_by_lba := index_node nodes (fs_by_lba s1) (length nodes - 1)\<rparr>))"

definition referenced_node_candidate :: "apa_forensic_node \<Rightarrow> bool" where
  "referenced_node_candidate node \<longleftrightarrow> (let required = EVIDENCE_MAGIC OR EVIDENCE_LENGTH in
    node_confidence node \<ge> 50 \<and> node_evidence node AND required = required)"

definition follow_reference ::
    "'c forensic_reader \<Rightarrow> u32 \<Rightarrow> u32 \<Rightarrow> 'c forensic_state \<Rightarrow> 'c forensic_state" where
  "follow_reference reader lba total_sectors s =
    (if lba = 0 \<or> lba \<ge> total_sectors then s
     else case find_node (fs_nodes s) (fs_by_lba s) lba of
       Some before \<Rightarrow>
         map_result (scan_nodes_update (mark_evidence before EVIDENCE_REFERENCED)) s
     | None \<Rightarrow> snd (add_candidate reader lba total_sectors EVIDENCE_REFERENCED
         (map_result (scan_reference_reads_update Suc) s)))"

text \<open>The body of the loop of \<open>chase_references\<close> for the node at the cursor.\<close>

definition chase_node ::
    "'c forensic_reader \<Rightarrow> u32 \<Rightarrow> apa_forensic_node \<Rightarrow> 'c forensic_state \<Rightarrow> 'c forensic_state" where
  "chase_node reader total_sectors node s =
    (if \<not> referenced_node_candidate node then s
     else let follow = (\<lambda>lba s. follow_reference reader lba total_sectors s);
              s1 = follow (node_main node) (follow (node_prev node) (follow (node_next node) s)) in
       if node_nsub node \<le> APA_MAX_SUBS \<and> node_confidence node \<ge> 60
       then fold (\<lambda>i s. follow
           (read_le32 (node_header node) (APA_SUBS_OFFSET + i * APA_SUB_ENTRY_SIZE)) s)
         [0..<unat (node_nsub node)] s1
       else s1)"

section \<open>Room for nodes\<close>

text \<open>The node table only grows, and never beyond its capacity: what makes the passes end.\<close>

definition grows :: "'c forensic_state \<Rightarrow> 'c forensic_state \<Rightarrow> bool" where
  "grows s s' \<longleftrightarrow> length (fs_nodes s) \<le> length (fs_nodes s') \<and>
    length (fs_nodes s') \<le> max APA_FORENSIC_MAX_NODES (length (fs_nodes s))"

lemma grows_refl: "grows s s"
  by (simp add: grows_def)

lemma grows_trans: "grows s s' \<Longrightarrow> grows s' s'' \<Longrightarrow> grows s s''"
  by (auto simp: grows_def)

lemma length_mark_evidence [simp]: "length (mark_evidence i bits nodes) = length nodes"
  by (simp add: mark_evidence_def)

lemma grows_add: "grows s (snd (add_candidate reader lba tot src s))"
  by (auto simp: add_candidate_def grows_def map_result_def Let_def
      split: option.split prod.split)

lemma grows_follow: "grows s (follow_reference reader lba tot s)"
proof -
  let ?s1 = "map_result (scan_reference_reads_update Suc) s"
  have "grows s ?s1" by (simp add: grows_def map_result_def)
  then have "grows s (snd (add_candidate reader lba tot EVIDENCE_REFERENCED ?s1))"
    using grows_add by (rule grows_trans)
  then show ?thesis
    by (auto simp: follow_reference_def grows_def map_result_def split: option.split)
qed

lemma grows_fold: "(\<And>x s. grows s (f x s)) \<Longrightarrow> grows s (fold f xs s)"
  by (induction xs arbitrary: s) (auto intro: grows_refl grows_trans)

lemma grows_chase_node: "grows s (chase_node reader tot node s)"
proof -
  define s1 where "s1 = follow_reference reader (node_main node) tot
    (follow_reference reader (node_prev node) tot (follow_reference reader (node_next node) tot s))"
  have s1: "grows s s1"
    unfolding s1_def by (meson grows_follow grows_trans)
  have "grows s1 (fold (\<lambda>i s. follow_reference reader (f i) tot s) xs s1)" for f and xs :: "nat list"
    by (rule grows_fold) (rule grows_follow)
  with s1 have "grows s (fold (\<lambda>i s. follow_reference reader (f i) tot s) xs s1)"
    for f and xs :: "nat list"
    by (rule grows_trans)
  then show ?thesis
    using s1 unfolding chase_node_def Let_def s1_def by (simp add: grows_refl)
qed

function chase_references ::
    "'c forensic_reader \<Rightarrow> u32 \<Rightarrow> nat \<Rightarrow> 'c forensic_state \<Rightarrow> 'c forensic_state" where
  "chase_references reader total_sectors cursor s =
    (if cursor < length (fs_nodes s) \<and> \<not> scan_truncated (fs_result s)
     then chase_references reader total_sectors (cursor + 1)
       (chase_node reader total_sectors (fs_nodes s ! cursor) s)
     else s)"
  by pat_completeness auto

termination
proof (relation "measure (\<lambda>(reader, tot, cursor, s).
    max APA_FORENSIC_MAX_NODES (length (fs_nodes s)) - cursor)")
  fix reader :: "'c forensic_reader" and tot cursor and s :: "'c forensic_state"
  assume "cursor < length (fs_nodes s) \<and> \<not> scan_truncated (fs_result s)"
  then show "((reader, tot, cursor + 1, chase_node reader tot (fs_nodes s ! cursor) s),
      (reader, tot, cursor, s)) \<in> measure (\<lambda>(reader, tot, cursor, s).
        max APA_FORENSIC_MAX_NODES (length (fs_nodes s)) - cursor)"
    using grows_chase_node [of s reader tot "fs_nodes s ! cursor"] by (auto simp: grows_def)
qed simp

declare chase_references.simps [simp del]

text \<open>The progress callback of the scan, called after a grid read.\<close>

type_synonym 'c forensic_progress = "u32 \<Rightarrow> u32 \<Rightarrow> nat \<Rightarrow> 'c \<Rightarrow> 'c"

definition report_progress ::
    "'c forensic_progress option \<Rightarrow> u32 \<Rightarrow> u32 \<Rightarrow> 'c forensic_state \<Rightarrow> 'c forensic_state" where
  "report_progress progress lba total_sectors s = (case progress of None \<Rightarrow> s
    | Some f \<Rightarrow> s\<lparr>fs_context := f lba total_sectors (length (fs_nodes s)) (fs_context s)\<rparr>)"

text \<open>The grid loop of \<open>apa_forensic_scan\<close>, from a sector on.\<close>

function grid_loop ::
    "'c forensic_reader \<Rightarrow> 'c forensic_progress option \<Rightarrow> u32 \<Rightarrow> u32 \<Rightarrow> 'c forensic_state \<Rightarrow>
      'c forensic_state" where
  "grid_loop reader progress total_sectors lba s =
    (if lba < total_sectors \<and> \<not> scan_truncated (fs_result s) then
       let s1 = map_result (scan_grid_reads_update Suc) s;
           s2 = snd (add_candidate reader lba total_sectors EVIDENCE_GRID s1);
           s3 = (if scan_grid_reads (fs_result s2) mod 32 = 0 \<or>
                   total_sectors - lba \<le> APA_FORENSIC_SCAN_STEP
                 then report_progress progress lba total_sectors s2 else s2) in
       if (- 1) - lba < APA_FORENSIC_SCAN_STEP then s3
       else grid_loop reader progress total_sectors (lba + APA_FORENSIC_SCAN_STEP) s3
     else s)"
  by pat_completeness auto

lemma grid_step:
  fixes lba :: u32
  assumes "\<not> (- 1) - lba < 0x40000"
  shows "unat (lba + 0x40000) = unat lba + 0x40000"
proof -
  have "(- 1 :: u32) = 4294967295" by simp
  then have m1: "unat (- 1 :: u32) = 4294967295" by (simp only: unat_numeral) simp
  have "lba \<le> - 1" by simp
  then have "unat ((- 1) - lba) = 4294967295 - unat lba"
    using m1 by (simp add: unat_sub_if_size word_le_nat_alt)
  then have "unat lba + 0x40000 \<le> 4294967295"
    using assms unat_u32_bound [of lba] by (simp add: word_less_nat_alt not_less)
  then show ?thesis using unat_add_no_wrap(1) [of lba "0x40000"] by simp
qed

termination grid_loop
proof (relation "measure (\<lambda>(reader, progress, tot, lba, s). 2 ^ 32 - unat lba)")
  fix reader :: "'c forensic_reader" and progress tot lba and s x xa xb :: "'c forensic_state"
  assume "\<not> (- 1) - lba < (0x40000 :: u32)"
  then show "((reader, progress, tot, lba + 0x40000, xb), reader, progress, tot, lba, s)
      \<in> measure (\<lambda>(reader, progress, tot, lba, s). 2 ^ 32 - unat lba)"
    using grid_step [of lba] unat_u32_bound [of lba] by simp
qed simp

declare grid_loop.simps [simp del]

section \<open>What the nodes record\<close>

text \<open>
  A node is a faithful record of the header that was read at its sector: the fields are those
  of the header, and each of the evidence bits the repair relies on says what it is named after.
\<close>

definition node_ok :: "u32 \<Rightarrow> apa_forensic_node \<Rightarrow> bool" where
  "node_ok tot n \<longleftrightarrow> (let h = node_header n in
    node_lba n < tot \<and> 2 \<le> tot - node_lba n \<and>
    node_stored_checksum n = read_le32 h 0 \<and> node_calculated_checksum n = apa_checksum h \<and>
    node_next n = read_le32 h APA_NEXT_OFFSET \<and> node_prev n = read_le32 h APA_PREV_OFFSET \<and>
    node_start n = read_le32 h APA_START_OFFSET \<and> node_length n = read_le32 h APA_LENGTH_OFFSET \<and>
    (bit (node_evidence n) 0 \<longleftrightarrow> bytes_at APA_MAGIC_OFFSET 4 h = apa_magic) \<and>
    (bit (node_evidence n) 1 \<longleftrightarrow> node_start n = node_lba n) \<and>
    (bit (node_evidence n) 2 \<longleftrightarrow> node_stored_checksum n = node_calculated_checksum n) \<and>
    (bit (node_evidence n) 3 \<longleftrightarrow>
      0 < unat (node_length n) \<and> unat (node_start n) + unat (node_length n) \<le> unat tot))"

definition state_ok :: "u32 \<Rightarrow> 'c forensic_state \<Rightarrow> bool" where
  "state_ok tot s \<longleftrightarrow> index_ok (fs_nodes s) (fs_by_lba s) \<and>
    length (fs_nodes s) \<le> APA_FORENSIC_MAX_NODES \<and> (\<forall>n \<in> set (fs_nodes s). node_ok tot n) \<and>
    scan_maps (fs_result s) = []"

lemma bit_credit:
  "bit (fst (credit test bits points acc)) k \<longleftrightarrow> bit (fst acc) k \<or> test \<and> bit bits k"
  by (simp add: credit_def bit_or_iff)

lemma end_in_bounds:
  fixes start len tot :: u32
  shows "len \<noteq> 0 \<and> start < tot \<and> (ucast start + ucast len :: u64) \<le> ucast tot \<longleftrightarrow>
    0 < unat len \<and> unat start + unat len \<le> unat tot"
proof -
  have "unat (ucast start + ucast len :: u64) = unat start + unat len"
    using unat_u32_bound [of start] unat_u32_bound [of len]
    by (subst unat_add_no_wrap(2)) simp_all
  moreover have "len \<noteq> 0 \<longleftrightarrow> 0 < unat len" by (simp add: unat_gt_0)
  ultimately show ?thesis
    unfolding word_le_nat_alt word_less_nat_alt unat_ucast_widen by linarith
qed

lemma evidence_bits:
  "bit (EVIDENCE_MAGIC :: u32) k \<longleftrightarrow> k = 0" "bit (EVIDENCE_SELF_START :: u32) k \<longleftrightarrow> k = 1"
  "bit (EVIDENCE_CHECKSUM :: u32) k \<longleftrightarrow> k = 2" "bit (EVIDENCE_LENGTH :: u32) k \<longleftrightarrow> k = 3"
  "bit (EVIDENCE_NSUB :: u32) k \<longleftrightarrow> k = 4" "bit (EVIDENCE_TYPE :: u32) k \<longleftrightarrow> k = 5"
  "bit (EVIDENCE_ID :: u32) k \<longleftrightarrow> k = 6" "bit (EVIDENCE_GRID :: u32) k \<longleftrightarrow> k = 7"
  "bit (EVIDENCE_REFERENCED :: u32) k \<longleftrightarrow> k = 8" "bit (EVIDENCE_DORMANT_FREE :: u32) k \<longleftrightarrow> k = 9"
proof -
  have two: "bit (2 ^ m :: u32) k \<longleftrightarrow> k = m" if "m < 32" for m
    using that by (auto simp: bit_simps)
  show "bit (EVIDENCE_MAGIC :: u32) k \<longleftrightarrow> k = 0" "bit (EVIDENCE_SELF_START :: u32) k \<longleftrightarrow> k = 1"
    "bit (EVIDENCE_CHECKSUM :: u32) k \<longleftrightarrow> k = 2" "bit (EVIDENCE_LENGTH :: u32) k \<longleftrightarrow> k = 3"
    "bit (EVIDENCE_NSUB :: u32) k \<longleftrightarrow> k = 4" "bit (EVIDENCE_TYPE :: u32) k \<longleftrightarrow> k = 5"
    "bit (EVIDENCE_ID :: u32) k \<longleftrightarrow> k = 6" "bit (EVIDENCE_GRID :: u32) k \<longleftrightarrow> k = 7"
    "bit (EVIDENCE_REFERENCED :: u32) k \<longleftrightarrow> k = 8" "bit (EVIDENCE_DORMANT_FREE :: u32) k \<longleftrightarrow> k = 9"
    using two [of 0] two [of 1] two [of 2] two [of 3] two [of 4] two [of 5] two [of 6] two [of 7]
      two [of 8] two [of 9] by simp_all
qed

lemma inspect_evidence:
  assumes "inspect_header header lba tot src = (confidence, evidence, checksum)"
    and "0 < confidence" and "src = EVIDENCE_GRID \<or> src = EVIDENCE_REFERENCED"
  shows "checksum = apa_checksum header"
    and "bit evidence 0 \<longleftrightarrow> bytes_at APA_MAGIC_OFFSET 4 header = apa_magic"
    and "bit evidence 1 \<longleftrightarrow> read_le32 header APA_START_OFFSET = lba"
    and "bit evidence 2 \<longleftrightarrow> read_le32 header 0 = apa_checksum header"
    and "bit evidence 3 \<longleftrightarrow> 0 < unat (read_le32 header APA_LENGTH_OFFSET) \<and>
      unat (read_le32 header APA_START_OFFSET) + unat (read_le32 header APA_LENGTH_OFFSET) \<le> unat tot"
proof -
  have src: "\<not> bit src 0" "\<not> bit src 1" "\<not> bit src 2" "\<not> bit src 3"
    using assms(3) by (auto simp: evidence_bits)
  have full: "checksum = apa_checksum header \<and> evidence = fst
      (credit (id_plausible (drop APA_ID_OFFSET header)) EVIDENCE_ID 10
      (credit (type_plausible (read_le16 header APA_TYPE_OFFSET)) EVIDENCE_TYPE 5
      (credit (read_le32 header APA_NSUB_OFFSET \<le> APA_MAX_SUBS) EVIDENCE_NSUB 5
      (credit (read_le32 header APA_LENGTH_OFFSET \<noteq> 0 \<and> read_le32 header APA_START_OFFSET < tot \<and>
          (ucast (read_le32 header APA_START_OFFSET) +
            ucast (read_le32 header APA_LENGTH_OFFSET) :: u64) \<le> ucast tot) EVIDENCE_LENGTH 15
      (credit (read_le32 header 0 = apa_checksum header) EVIDENCE_CHECKSUM 20
      (credit (read_le32 header APA_START_OFFSET = lba) EVIDENCE_SELF_START 20
      (credit (bytes_at APA_MAGIC_OFFSET 4 header = apa_magic) EVIDENCE_MAGIC 25 (src, 0))))))))"
    using assms(1,2) unfolding inspect_header_def Let_def by (auto split: if_splits)
  then show "checksum = apa_checksum header" by blast
  note bits = full [THEN conjunct2, THEN arg_cong, of "\<lambda>e. bit e k" for k]
  show "bit evidence 0 \<longleftrightarrow> bytes_at APA_MAGIC_OFFSET 4 header = apa_magic"
    "bit evidence 1 \<longleftrightarrow> read_le32 header APA_START_OFFSET = lba"
    "bit evidence 2 \<longleftrightarrow> read_le32 header 0 = apa_checksum header"
    "bit evidence 3 \<longleftrightarrow> 0 < unat (read_le32 header APA_LENGTH_OFFSET) \<and>
      unat (read_le32 header APA_START_OFFSET) + unat (read_le32 header APA_LENGTH_OFFSET) \<le> unat tot"
    unfolding bits bit_credit evidence_bits end_in_bounds using src by simp_all
qed

lemma mark_lba [simp]: "map node_lba (mark_evidence i bits nodes) = map node_lba nodes"
proof (cases "i < length nodes")
  case True
  then have "(map node_lba nodes)[i := node_lba (nodes ! i)] = map node_lba nodes"
    by (metis list_update_id nth_map)
  then show ?thesis by (simp add: mark_evidence_def map_update)
qed (simp add: mark_evidence_def list_update_beyond)

lemma index_ok_cong:
  assumes "map node_lba nodes = map node_lba nodes'"
  shows "index_ok nodes by_lba \<longleftrightarrow> index_ok nodes' by_lba"
proof -
  have len: "length nodes = length nodes'" using assms by (metis length_map)
  have "lba_of nodes i = lba_of nodes' i" if "i < length nodes" for i
    using that len arg_cong [OF assms, of "\<lambda>xs. xs ! i"] by (simp add: lba_of_def)
  then have "map (lba_of nodes) by_lba = map (lba_of nodes') by_lba"
    if "set by_lba = {..<length nodes}" using that by auto
  then show ?thesis unfolding index_ok_def using len by metis
qed

lemma node_ok_mark:
  assumes "node_ok tot n" and "bits = EVIDENCE_GRID \<or> bits = EVIDENCE_REFERENCED"
  shows "node_ok tot (n\<lparr>node_evidence := node_evidence n OR bits\<rparr>)"
  using assms by (auto simp: node_ok_def Let_def bit_or_iff evidence_bits)

lemma mark_ok:
  assumes ok: "state_ok tot s" and bits: "bits = EVIDENCE_GRID \<or> bits = EVIDENCE_REFERENCED"
    and i: "i < length (fs_nodes s)"
  shows "state_ok tot (map_result (scan_nodes_update (mark_evidence i bits)) s)"
proof -
  have "\<forall>n \<in> set (mark_evidence i bits (fs_nodes s)). node_ok tot n"
  proof
    fix n assume "n \<in> set (mark_evidence i bits (fs_nodes s))"
    then have "n \<in> set (fs_nodes s) \<or> n = (fs_nodes s ! i)
        \<lparr>node_evidence := node_evidence (fs_nodes s ! i) OR bits\<rparr>"
      using set_update_subset_insert [of "fs_nodes s" i] by (auto simp: mark_evidence_def)
    then show "node_ok tot n"
      using ok node_ok_mark [OF _ bits, of tot "fs_nodes s ! i"] i
      by (auto simp: state_ok_def)
  qed
  then show ?thesis
    using ok index_ok_cong [of "mark_evidence i bits (fs_nodes s)" "fs_nodes s" "fs_by_lba s"]
    by (simp add: state_ok_def map_result_def)
qed

lemma add_candidate_ok:
  assumes ok: "state_ok tot s" and src: "src = EVIDENCE_GRID \<or> src = EVIDENCE_REFERENCED"
  shows "state_ok tot (snd (add_candidate reader lba tot src s))"
proof (cases "lba \<ge> tot \<or> tot - lba < 2")
  case True
  then show ?thesis using ok by (simp add: add_candidate_def)
next
  case range: False
  have index: "index_ok (fs_nodes s) (fs_by_lba s)" using ok by (simp add: state_ok_def)
  show ?thesis
  proof (cases "find_node (fs_nodes s) (fs_by_lba s) lba")
    case (Some i)
    then have "i < length (fs_nodes s)" using find_node_iff [OF index] by blast
    then show ?thesis
      using range Some mark_ok [OF ok src] by (simp add: add_candidate_def)
  next
    case None
    then have new: "lba \<notin> set (map node_lba (fs_nodes s))" using find_node_None [OF index] by blast
    obtain r h c where rd: "reader lba 2 (fs_context s) = (r, h, c)" by (metis prod_cases3)
    obtain conf ev cs where ins: "inspect_header h lba tot src = (conf, ev, cs)" by (metis prod_cases3)
    define s1 where "s1 = s\<lparr>fs_context := c\<rparr>"
    have s1: "state_ok tot s1" using ok by (simp add: state_ok_def s1_def)
    have keep: "state_ok tot (map_result f s1)" if "\<And>r. scan_nodes (f r) = scan_nodes r" "\<And>r. scan_maps (f r) = scan_maps r" for f
      using s1 that by (simp add: state_ok_def map_result_def)
    define node where "node = node_of_header h lba cs ev conf"
    let ?nodes = "fs_nodes s @ [node]"
    define s2 where "s2 = (map_result (scan_nodes_update (\<lambda>_. ?nodes)) s1)
      \<lparr>fs_by_lba := index_node ?nodes (fs_by_lba s) (length (fs_nodes s))\<rparr>"
    have s2: "state_ok tot s2" if "length (fs_nodes s) < 2048" "0 < conf"
    proof -
      have "node_ok tot node"
        using inspect_evidence [OF ins that(2) src] range
        by (simp add: node_ok_def node_def node_of_header_def not_le not_less)
      moreover have "index_ok ?nodes (index_node ?nodes (fs_by_lba s) (length (fs_nodes s)))"
        using new by (intro index_node_ok [OF index]) (simp add: node_def node_of_header_def)
      ultimately show ?thesis
        using ok that by (simp add: state_ok_def s2_def s1_def map_result_def)
    qed
    have run: "snd (add_candidate reader lba tot src s) =
        (if r < 0 then map_result (scan_unreadable_reads_update Suc) s1
         else if conf < 30 \<and> \<not> (lba = 0 \<and> conf \<ge> 20) then s1
         else if 2048 \<le> length (fs_nodes s) then map_result (scan_truncated_update (\<lambda>_. True)) s1
         else s2)"
      using range None rd ins
      by (auto simp: add_candidate_def s1_def s2_def node_def Let_def map_result_def)
    show ?thesis
      unfolding run using s1 s2 keep by (auto simp: not_le)
  qed
qed

lemma follow_reference_ok:
  assumes ok: "state_ok tot s"
  shows "state_ok tot (follow_reference reader lba tot s)"
proof (cases "find_node (fs_nodes s) (fs_by_lba s) lba")
  case (Some i)
  then have "i < length (fs_nodes s)" using find_node_iff ok by (auto simp: state_ok_def)
  then show ?thesis
    using Some mark_ok [OF ok] ok by (simp add: follow_reference_def)
next
  case None
  have "state_ok tot (map_result (scan_reference_reads_update Suc) s)"
    using ok by (simp add: state_ok_def map_result_def)
  then show ?thesis
    using None ok by (auto simp: follow_reference_def intro!: add_candidate_ok)
qed

lemma fold_ok: "(\<And>x s. P s \<Longrightarrow> P (f x s)) \<Longrightarrow> P s \<Longrightarrow> P (fold f xs s)"
  by (induction xs arbitrary: s) auto

lemma chase_node_ok: "state_ok tot s \<Longrightarrow> state_ok tot (chase_node reader tot node s)"
  unfolding chase_node_def Let_def
  by (auto intro!: fold_ok [where P = "state_ok tot"] follow_reference_ok)

lemma chase_references_ok: "state_ok tot s \<Longrightarrow> state_ok tot (chase_references reader tot cursor s)"
proof (induction reader tot cursor s rule: chase_references.induct)
  case (1 reader tot cursor s)
  then show ?case
    by (simp add: chase_references.simps [of reader tot cursor s] chase_node_ok)
qed

lemma report_progress_ok: "state_ok tot s \<Longrightarrow> state_ok tot (report_progress progress lba tot' s)"
  by (simp add: report_progress_def state_ok_def split: option.split)

lemma grid_loop_ok: "state_ok tot s \<Longrightarrow> state_ok tot (grid_loop reader progress tot lba s)"
proof (induction reader progress tot lba s rule: grid_loop.induct)
  case (1 reader progress tot lba s)
  define s1 where "s1 = map_result (scan_grid_reads_update Suc) s"
  define s2 where "s2 = snd (add_candidate reader lba tot EVIDENCE_GRID s1)"
  define s3 where "s3 = (if scan_grid_reads (fs_result s2) mod 32 = 0 \<or>
      tot - lba \<le> APA_FORENSIC_SCAN_STEP then report_progress progress lba tot s2 else s2)"
  have "state_ok tot s1" using "1.prems" by (simp add: state_ok_def map_result_def s1_def)
  then have "state_ok tot s2" unfolding s2_def by (intro add_candidate_ok) auto
  then have s3: "state_ok tot s3" by (simp add: s3_def report_progress_ok)
  have unfold: "grid_loop reader progress tot lba s =
      (if lba < tot \<and> \<not> scan_truncated (fs_result s)
       then if (- 1) - lba < APA_FORENSIC_SCAN_STEP then s3
         else grid_loop reader progress tot (lba + APA_FORENSIC_SCAN_STEP) s3
       else s)"
    by (simp add: grid_loop.simps [of reader progress tot lba s] s3_def s2_def s1_def Let_def)
  show ?case
    unfolding unfold using "1.prems" s3 "1.IH" [OF _ s1_def s2_def s3_def _ s3] by simp
qed

end
