(* ===== verification/ForensicMaps.thy ===== *)
theory ForensicMaps
  imports ForensicScan "HOL-Library.Multiset"
begin

text \<open>
  Candidate orders of the partition chain and their evaluation, and the scan as a whole: the
  middle part of \<open>src/apa_forensic.c\<close>.  A map's \<open>order\<close> array with its \<open>node_count\<close> is the list
  of the used entries.  The lemmas show that the map builders end, that the forward and the
  geometry order list existing nodes without repetition, that the geometry order is sorted by
  sector, and what a repairable map guarantees.
\<close>

abbreviation (input) APA_FORENSIC_MAX_MAPS :: nat where "APA_FORENSIC_MAX_MAPS \<equiv> 3"

definition empty_map :: "apa_forensic_map_kind \<Rightarrow> apa_forensic_map" where
  "empty_map kind = \<lparr>map_kind = kind, map_reciprocal_links = 0, map_inferred_links = 0,
    map_conflicts = 0, map_overlaps = 0, map_confidence = 0, map_repairable = False,
    map_order = []\<rparr>"

section \<open>Following links\<close>

text \<open>
  The loop of \<open>unique_link_candidate\<close> over the node numbers; \<open>None\<close> stands for the \<open>-1\<close> of the
  code, returned when there is no candidate and when there are two.
\<close>

fun link_loop :: "apa_forensic_node list \<Rightarrow> byte list \<Rightarrow> u32 \<Rightarrow> bool \<Rightarrow> nat list \<Rightarrow> nat option \<Rightarrow>
    nat option" where
  "link_loop nodes excluded current_lba match_prev [] found = found"
| "link_loop nodes excluded current_lba match_prev (i # is) found =
    (let node = nodes ! i;
         link = (if match_prev then node_prev node else node_next node) in
     if node_set_contains excluded i \<or> node_confidence node < 55
     then link_loop nodes excluded current_lba match_prev is found
     else if link \<noteq> current_lba then link_loop nodes excluded current_lba match_prev is found
     else if found \<noteq> None then None
     else link_loop nodes excluded current_lba match_prev is (Some i))"

definition unique_link_candidate ::
    "apa_forensic_node list \<Rightarrow> byte list \<Rightarrow> u32 \<Rightarrow> bool \<Rightarrow> nat option" where
  "unique_link_candidate nodes excluded current_lba match_prev =
    link_loop nodes excluded current_lba match_prev [0..<length nodes] None"

definition in_node_set :: "byte list \<Rightarrow> nat option \<Rightarrow> bool" where
  "in_node_set s i = (case i of None \<Rightarrow> False | Some k \<Rightarrow> node_set_contains s k)"

text \<open>The successor the forward loop takes from \<open>current\<close>; \<open>None\<close> where the loop breaks.\<close>

definition forward_successor ::
    "apa_forensic_node list \<Rightarrow> nat list \<Rightarrow> nat \<Rightarrow> nat \<Rightarrow> byte list \<Rightarrow> nat option" where
  "forward_successor nodes by_lba master current in_map =
    (let next_lba = node_next (nodes ! current) in
     if next_lba = 0 \<and> current \<noteq> master then None
     else let next0 = (if next_lba \<noteq> 0 then find_node nodes by_lba next_lba
               else unique_link_candidate nodes in_map 0 True);
              next1 = (if next0 = None \<or> in_node_set in_map next0
               then unique_link_candidate nodes in_map (node_lba (nodes ! current)) True
               else next0) in
       if in_node_set in_map next1 then None else next1)"

function forward_loop :: "apa_forensic_node list \<Rightarrow> nat list \<Rightarrow> nat \<Rightarrow> nat \<Rightarrow> nat list \<Rightarrow> byte list \<Rightarrow>
    nat list" where
  "forward_loop nodes by_lba master current order in_map =
    (if length order < APA_FORENSIC_MAX_NODES then
       case forward_successor nodes by_lba master current in_map of
         None \<Rightarrow> order
       | Some next \<Rightarrow>
           forward_loop nodes by_lba master next (order @ [next]) (node_set_add in_map next)
     else order)"
  by pat_completeness auto

termination
  by (relation "measure (\<lambda>(nodes, by_lba, master, current, order, in_map).
        APA_FORENSIC_MAX_NODES - length order)") auto

declare forward_loop.simps [simp del]

definition build_forward_map :: "apa_forensic_node list \<Rightarrow> nat list \<Rightarrow> apa_forensic_map" where
  "build_forward_map nodes by_lba = (case find_node nodes by_lba 0 of
      None \<Rightarrow> empty_map APA_FORENSIC_MAP_FORWARD
    | Some master \<Rightarrow> (empty_map APA_FORENSIC_MAP_FORWARD)
        \<lparr>map_order := forward_loop nodes by_lba master master [master]
          (node_set_add node_set_empty master)\<rparr>)"

section \<open>Dormant free space\<close>

definition c_string :: "byte list \<Rightarrow> byte list" where
  "c_string s = takeWhile (\<lambda>b. b \<noteq> 0) s"

definition canonical_empty_node :: "apa_forensic_node \<Rightarrow> bool" where
  "canonical_empty_node node \<longleftrightarrow>
    (let required = EVIDENCE_MAGIC OR EVIDENCE_SELF_START OR EVIDENCE_CHECKSUM OR
       EVIDENCE_LENGTH OR EVIDENCE_TYPE OR EVIDENCE_ID in
     node_type node = 0 \<and> node_flags node = 0 \<and> node_length node \<noteq> 0 \<and>
     c_string (node_id node) = ascii ''__empty'' \<and>
     node_stored_checksum node = node_calculated_checksum node \<and>
     node_evidence node AND required = required)"

definition node_end :: "apa_forensic_node \<Rightarrow> u64" where
  "node_end node = ucast (node_start node) + ucast (node_length node)"

definition dormant_step :: "byte list \<Rightarrow> nat list \<Rightarrow> nat \<Rightarrow> apa_forensic_node list \<times> nat \<Rightarrow>
    apa_forensic_node list \<times> nat" where
  "dormant_step in_forward order i acc = (let (nodes, hits) = acc; node = nodes ! i in
     if node_set_contains in_forward i \<or> \<not> canonical_empty_node node then acc
     else if list_ex (\<lambda>j. let container = nodes ! j in
         \<not> (\<not> canonical_empty_node container \<or> node_start node \<le> node_start container) \<and>
         node_end node \<le> node_end container) order
     then (mark_evidence i EVIDENCE_DORMANT_FREE nodes, hits + 1)
     else acc)"

definition classify_dormant_free_remnants ::
    "apa_forensic_map \<Rightarrow> apa_forensic_result \<Rightarrow> apa_forensic_result" where
  "classify_dormant_free_remnants forward result =
    (let in_forward = fold (\<lambda>i s. node_set_add s i) (map_order forward) node_set_empty;
         cleared = map (node_evidence_update (\<lambda>e. e AND NOT EVIDENCE_DORMANT_FREE))
           (scan_nodes result);
         (nodes, hits) = fold (dormant_step in_forward (map_order forward))
           [0..<length cleared] (cleared, 0) in
     result\<lparr>scan_nodes := nodes, scan_dormant_free_nodes := hits\<rparr>)"

section \<open>Reverse and geometry orders\<close>

function reverse_loop :: "apa_forensic_node list \<Rightarrow> nat list \<Rightarrow> nat option \<Rightarrow> nat list \<Rightarrow> byte list \<Rightarrow>
    nat list" where
  "reverse_loop nodes by_lba current reverse_order seen = (case current of
      None \<Rightarrow> reverse_order
    | Some c \<Rightarrow>
        if length reverse_order < APA_FORENSIC_MAX_NODES - 1 then
          if node_set_contains seen c then reverse_order
          else let order = reverse_order @ [c]; seen' = node_set_add seen c;
                   prev_lba = node_prev (nodes ! c) in
            if prev_lba = 0 then order
            else reverse_loop nodes by_lba
              (case find_node nodes by_lba prev_lba of Some prev \<Rightarrow> Some prev
               | None \<Rightarrow> unique_link_candidate nodes seen' (node_lba (nodes ! c)) False)
              order seen'
        else reverse_order)"
  by pat_completeness auto

termination
  by (relation "measure (\<lambda>(nodes, by_lba, current, order, seen).
        APA_FORENSIC_MAX_NODES - length order)") auto

declare reverse_loop.simps [simp del]

definition reverse_indices :: "nat list \<Rightarrow> nat \<Rightarrow> nat list" where
  "reverse_indices values hits =
    fold (\<lambda>i xs. xs[i := xs ! (hits - 1 - i), hits - 1 - i := xs ! i]) [0..<hits div 2] values"

definition build_reverse_map :: "apa_forensic_node list \<Rightarrow> nat list \<Rightarrow> apa_forensic_map" where
  "build_reverse_map nodes by_lba = (case find_node nodes by_lba 0 of
      None \<Rightarrow> empty_map APA_FORENSIC_MAP_REVERSE
    | Some master \<Rightarrow>
        let linked = (if node_prev (nodes ! master) \<noteq> 0
              then find_node nodes by_lba (node_prev (nodes ! master)) else None);
            current = (case linked of Some c \<Rightarrow> Some c
              | None \<Rightarrow> unique_link_candidate nodes node_set_empty 0 False);
            reverse_order = reverse_loop nodes by_lba current [] node_set_empty in
        (empty_map APA_FORENSIC_MAP_REVERSE)
          \<lparr>map_order := [master] @ reverse_indices reverse_order (length reverse_order)\<rparr>)"

text \<open>The insertion sort of \<open>sort_map_by_lba\<close>: the inner loop shifts larger entries up.\<close>

fun shift_up :: "apa_forensic_node list \<Rightarrow> nat \<Rightarrow> nat list \<Rightarrow> nat \<Rightarrow> nat list" where
  "shift_up nodes v order 0 = order[0 := v]"
| "shift_up nodes v order (Suc j) =
    (if node_lba (nodes ! (order ! j)) > node_lba (nodes ! v)
     then shift_up nodes v (order[Suc j := order ! j]) j
     else order[Suc j := v])"

definition sort_map_by_lba :: "apa_forensic_node list \<Rightarrow> nat list \<Rightarrow> nat list" where
  "sort_map_by_lba nodes order =
    fold (\<lambda>i order. shift_up nodes (order ! i) order i) [1..<length order] order"

definition geometry_member :: "apa_forensic_node \<Rightarrow> bool" where
  "geometry_member node \<longleftrightarrow> (let required = EVIDENCE_SELF_START OR EVIDENCE_LENGTH in
    node_evidence node AND EVIDENCE_DORMANT_FREE = 0 \<and>
    (node_lba node = 0 \<or> node_confidence node \<ge> 50 \<and> node_evidence node AND required = required))"

definition build_geometry_map :: "apa_forensic_node list \<Rightarrow> apa_forensic_map" where
  "build_geometry_map nodes = (empty_map APA_FORENSIC_MAP_GEOMETRY)\<lparr>map_order :=
    sort_map_by_lba nodes (take APA_FORENSIC_MAX_NODES
      (filter (\<lambda>i. geometry_member (nodes ! i)) [0..<length nodes]))\<rparr>"

section \<open>Evaluation\<close>

text \<open>The links a map wants for its \<open>i\<close>-th entry; the planner computes the same values.\<close>

definition desired_prev :: "apa_forensic_node list \<Rightarrow> nat list \<Rightarrow> nat \<Rightarrow> u32" where
  "desired_prev nodes order i =
    (if i = 0
     then if length order > 1 then node_lba (nodes ! (order ! (length order - 1))) else 0
     else if i = 1 then 0 else node_lba (nodes ! (order ! (i - 1))))"

definition desired_next :: "apa_forensic_node list \<Rightarrow> nat list \<Rightarrow> nat \<Rightarrow> u32" where
  "desired_next nodes order i =
    (if i = 0 then if length order > 1 then node_lba (nodes ! (order ! 1)) else 0
     else if i + 1 < length order then node_lba (nodes ! (order ! (i + 1))) else 0)"

definition evaluate_link ::
    "apa_forensic_node list \<Rightarrow> nat list \<Rightarrow> u32 \<Rightarrow> u32 \<Rightarrow> apa_forensic_map \<Rightarrow> apa_forensic_map" where
  "evaluate_link nodes by_lba link desired m =
    (if link \<noteq> desired then
       let target = (if link \<noteq> 0 then find_node nodes by_lba link else None);
           m1 = map_inferred_links_update Suc m in
       if target \<noteq> None \<and> link \<noteq> desired then map_conflicts_update Suc m1 else m1
     else m)"

definition evaluate_step :: "apa_forensic_node list \<Rightarrow> nat list \<Rightarrow> nat list \<Rightarrow> nat \<Rightarrow>
    apa_forensic_map \<times> nat \<Rightarrow> apa_forensic_map \<times> nat" where
  "evaluate_step nodes by_lba order i acc =
    (let (m, weak_nodes) = acc; node = nodes ! (order ! i);
         weak = (if node_confidence node < 60 then weak_nodes + 1 else weak_nodes);
         m1 = evaluate_link nodes by_lba (node_prev node) (desired_prev nodes order i) m;
         m2 = evaluate_link nodes by_lba (node_next node) (desired_next nodes order i) m1 in
     if i + 1 < length order then
       let nxt = nodes ! (order ! (i + 1));
           m3 = (if node_next node = node_lba nxt \<and> node_prev nxt = node_lba node
             then map_reciprocal_links_update Suc m2 else m2);
           m4 = (if i > 0 \<and> node_end node > ucast (node_start nxt)
             then map_overlaps_update Suc m3 else m3) in
       (m4, weak)
     else (m2, weak))"

definition writable_evidence :: "apa_forensic_node \<Rightarrow> bool" where
  "writable_evidence node \<longleftrightarrow>
    (let required = EVIDENCE_MAGIC OR EVIDENCE_SELF_START OR EVIDENCE_LENGTH in
     node_evidence node AND required = required)"

definition evaluate_map ::
    "apa_forensic_result \<Rightarrow> nat list \<Rightarrow> apa_forensic_map \<Rightarrow> apa_forensic_map" where
  "evaluate_map result by_lba m =
    (let nodes = scan_nodes result; order = map_order m in
     if order = [] then m\<lparr>map_confidence := 0\<rparr>
     else
       let high_nodes = length (filter (\<lambda>node. node_confidence node \<ge> 60 \<and>
             node_evidence node AND EVIDENCE_DORMANT_FREE = 0) nodes);
           (m1, weak_nodes) = fold (evaluate_step nodes by_lba order) [0..<length order] (m, 0);
           score = 100 - int (map_conflicts m1) * 15 - int (map_overlaps m1) * 30 -
             int (map_inferred_links m1) * 2 - int weak_nodes * 4 -
             (if high_nodes > length order then int (high_nodes - length order) * 5 else 0) -
             (if scan_truncated result then 10 else 0);
           confidence = clamp_confidence score;
           repairable = (\<not> scan_truncated result \<and> length order \<ge> 2 \<and>
             node_lba (nodes ! (order ! 0)) = 0 \<and> confidence \<ge> 85 \<and>
             map_conflicts m1 = 0 \<and> map_overlaps m1 = 0) in
       m1\<lparr>map_confidence := confidence,
          map_repairable := repairable \<and> (\<forall>i \<in> set order. writable_evidence (nodes ! i))\<rparr>)"

definition maps_equal :: "apa_forensic_map \<Rightarrow> apa_forensic_map \<Rightarrow> bool" where
  "maps_equal a b \<longleftrightarrow> map_order a = map_order b"

definition add_map_if_unique ::
    "apa_forensic_map \<Rightarrow> apa_forensic_result \<Rightarrow> apa_forensic_result" where
  "add_map_if_unique candidate result =
    (if map_order candidate = [] \<or> length (scan_maps result) \<ge> APA_FORENSIC_MAX_MAPS then result
     else if list_ex (\<lambda>m. maps_equal m candidate) (scan_maps result) then result
     else result\<lparr>scan_maps := scan_maps result @ [candidate]\<rparr>)"

section \<open>The scan\<close>

definition empty_result :: "u32 \<Rightarrow> apa_forensic_result" where
  "empty_result total_sectors = \<lparr>scan_total_sectors = total_sectors,
    scan_grid_step = APA_FORENSIC_SCAN_STEP, scan_grid_reads = 0, scan_reference_reads = 0,
    scan_unreadable_reads = 0, scan_dormant_free_nodes = 0, scan_truncated = False,
    scan_nodes = [], scan_maps = []\<rparr>"

text \<open>The discovery passes of the scan, up to the building of maps.\<close>

definition discover ::
    "'c forensic_reader \<Rightarrow> 'c forensic_progress option \<Rightarrow> u32 \<Rightarrow> 'c \<Rightarrow> 'c forensic_state" where
  "discover reader progress total_sectors ctx =
    (let s0 = \<lparr>fs_result = (empty_result total_sectors)\<lparr>scan_grid_reads := 1\<rparr>, fs_by_lba = [],
           fs_context = ctx\<rparr>;
         s1 = snd (add_candidate reader 0 total_sectors EVIDENCE_GRID s0);
         s2 = report_progress progress 0 total_sectors s1;
         s3 = grid_loop reader progress total_sectors APA_FORENSIC_SCAN_STEP s2 in
     chase_references reader total_sectors 0 s3)"

text \<open>The maps are built from the nodes found, in the order of the code.\<close>

definition build_maps :: "nat list \<Rightarrow> apa_forensic_result \<Rightarrow> apa_forensic_result" where
  "build_maps by_lba result =
    (let forward = build_forward_map (scan_nodes result) by_lba;
         r1 = classify_dormant_free_remnants forward result;
         r2 = add_map_if_unique (evaluate_map r1 by_lba forward) r1;
         r3 = add_map_if_unique
           (evaluate_map r2 by_lba (build_reverse_map (scan_nodes r2) by_lba)) r2 in
     add_map_if_unique (evaluate_map r3 by_lba (build_geometry_map (scan_nodes r3))) r3)"

definition apa_forensic_scan ::
    "'c forensic_reader option \<Rightarrow> u32 \<Rightarrow> 'c forensic_progress option \<Rightarrow> 'c \<Rightarrow>
      (apa_forensic_result \<times> 'c) option" where
  "apa_forensic_scan reader total_sectors progress ctx = (case reader of
      None \<Rightarrow> None
    | Some rd \<Rightarrow>
        if total_sectors < 2 then None
        else let s = discover rd progress total_sectors ctx;
                 s' = map_result (build_maps (fs_by_lba s)) s;
                 s'' = report_progress progress total_sectors total_sectors s' in
          Some (fs_result s'', fs_context s''))"

section \<open>Orders list existing nodes once\<close>

lemma link_loop_Some:
  "link_loop nodes excluded lba match_prev is found = Some i \<Longrightarrow> found = Some i \<or>
    i \<in> set is \<and> \<not> node_set_contains excluded i \<and>
    (if match_prev then node_prev (nodes ! i) else node_next (nodes ! i)) = lba"
  by (induction nodes excluded lba match_prev "is" found rule: link_loop.induct)
    (auto simp: Let_def split: if_splits)

lemma unique_link_Some:
  assumes "unique_link_candidate nodes excluded lba match_prev = Some i"
  shows "i < length nodes" "\<not> node_set_contains excluded i"
    "(if match_prev then node_prev (nodes ! i) else node_next (nodes ! i)) = lba"
  using link_loop_Some [of nodes excluded lba match_prev "[0..<length nodes]" None i] assms
  by (auto simp: unique_link_candidate_def)

lemma forward_successor_Some:
  assumes ok: "index_ok nodes by_lba"
    and succ: "forward_successor nodes by_lba master current in_map = Some i"
  shows "i < length nodes \<and> \<not> node_set_contains in_map i"
proof -
  have "i < length nodes" if "find_node nodes by_lba lba = Some i" for lba
    using find_node_iff [OF ok] that by blast
  then show ?thesis
    using succ unique_link_Some(1,2)
    by (auto simp: forward_successor_def Let_def in_node_set_def split: if_splits option.splits)
qed

lemma forward_loop_ok:
  assumes "index_ok nodes by_lba" and "length nodes \<le> APA_FORENSIC_MAX_NODES"
    and "nodes.represents in_map (set order)" and "distinct order" and "set order \<subseteq> {..<length nodes}"
  shows "distinct (forward_loop nodes by_lba master current order in_map) \<and>
    set (forward_loop nodes by_lba master current order in_map) \<subseteq> {..<length nodes} \<and>
    (\<exists>rest. forward_loop nodes by_lba master current order in_map = order @ rest)"
  using assms
proof (induction nodes by_lba master current order in_map rule: forward_loop.induct)
  case (1 nodes by_lba master current order in_map)
  let ?succ = "forward_successor nodes by_lba master current in_map"
  show ?case
  proof (cases "length order < 2048 \<and> ?succ \<noteq> None")
    case False
    then have "forward_loop nodes by_lba master current order in_map = order"
      by (auto simp: forward_loop.simps [of nodes by_lba master current order in_map]
          split: option.split)
    then show ?thesis using "1.prems" by simp
  next
    case True
    then obtain i where i: "?succ = Some i" by blast
    have lt: "i < length nodes" and "\<not> node_set_contains in_map i"
      using forward_successor_Some [OF "1.prems"(1) i] by auto
    then have new: "i \<notin> set order"
      using nodes.represents_contains [OF "1.prems"(3), of i] "1.prems"(2) by simp
    have rep: "nodes.represents (node_set_add in_map i) (set (order @ [i]))"
      using nodes.represents_add [OF "1.prems"(3), of i] lt "1.prems"(2) by simp
    have unfold: "forward_loop nodes by_lba master current order in_map =
        forward_loop nodes by_lba master i (order @ [i]) (node_set_add in_map i)"
      using True i by (simp add: forward_loop.simps [of nodes by_lba master current order in_map])
    have "distinct (order @ [i])" "set (order @ [i]) \<subseteq> {..<length nodes}"
      using "1.prems"(4,5) new lt by auto
    from "1.IH" [OF conjunct1 [OF True] i "1.prems"(1,2) rep this]
    show ?thesis unfolding unfold by auto
  qed
qed

lemma forward_map_ok:
  assumes "index_ok nodes by_lba" and "length nodes \<le> APA_FORENSIC_MAX_NODES"
  defines "order \<equiv> map_order (build_forward_map nodes by_lba)"
  shows "distinct order" "set order \<subseteq> {..<length nodes}"
    "order \<noteq> [] \<Longrightarrow> node_lba (nodes ! hd order) = 0"
proof -
  have "distinct order \<and> set order \<subseteq> {..<length nodes} \<and>
      (order \<noteq> [] \<longrightarrow> node_lba (nodes ! hd order) = 0)"
  proof (cases "find_node nodes by_lba 0")
    case None
    then show ?thesis by (simp add: order_def build_forward_map_def empty_map_def)
  next
    case (Some m)
    have m: "m < length nodes" "node_lba (nodes ! m) = 0"
      using find_node_iff [OF assms(1)] Some by auto
    have rep: "nodes.represents (node_set_add node_set_empty m) (set [m])"
      using nodes.represents_add [OF nodes.represents_empty, of m] m assms(2) by simp
    have "distinct (forward_loop nodes by_lba m m [m] (node_set_add node_set_empty m)) \<and>
        set (forward_loop nodes by_lba m m [m] (node_set_add node_set_empty m)) \<subseteq> {..<length nodes} \<and>
        (\<exists>rest. forward_loop nodes by_lba m m [m] (node_set_add node_set_empty m) = [m] @ rest)"
      using assms rep m by (intro forward_loop_ok) auto
    then show ?thesis
      using Some m(2) by (auto simp: order_def build_forward_map_def)
  qed
  then show "distinct order" "set order \<subseteq> {..<length nodes}"
    "order \<noteq> [] \<Longrightarrow> node_lba (nodes ! hd order) = 0" by blast+
qed

subsection \<open>The reverse order\<close>

lemma reverse_loop_ok:
  assumes "index_ok nodes by_lba" and "length nodes \<le> APA_FORENSIC_MAX_NODES"
    and "nodes.represents seen (set order)" and "distinct order" and "set order \<subseteq> {..<length nodes}"
    and "\<And>c. current = Some c \<Longrightarrow> c < length nodes" and "length order \<le> APA_FORENSIC_MAX_NODES - 1"
  shows "distinct (reverse_loop nodes by_lba current order seen) \<and>
    set (reverse_loop nodes by_lba current order seen) \<subseteq> {..<length nodes} \<and>
    length (reverse_loop nodes by_lba current order seen) \<le> APA_FORENSIC_MAX_NODES - 1"
  using assms
proof (induction nodes by_lba current order seen rule: reverse_loop.induct)
  case (1 nodes by_lba current order seen)
  show ?case
  proof (cases "\<exists>c. current = Some c \<and> length order < 2047 \<and> \<not> node_set_contains seen c")
    case False
    then have "reverse_loop nodes by_lba current order seen = order"
      by (auto simp: reverse_loop.simps [of nodes by_lba current order seen] split: option.split)
    then show ?thesis using "1.prems" by simp
  next
    case True
    then obtain c where c: "current = Some c" "length order < 2048 - 1" "\<not> node_set_contains seen c"
      by auto
    have lt: "c < length nodes" using "1.prems"(6) c(1) .
    have new: "c \<notin> set order"
      using nodes.represents_contains [OF "1.prems"(3), of c] c(3) lt "1.prems"(2) by simp
    have rep: "nodes.represents (node_set_add seen c) (set (order @ [c]))"
      using nodes.represents_add [OF "1.prems"(3), of c] lt "1.prems"(2) by simp
    have dist: "distinct (order @ [c])" "set (order @ [c]) \<subseteq> {..<length nodes}"
      "length (order @ [c]) \<le> 2048 - 1"
      using "1.prems"(4,5) new lt c(2) by auto
    define prev where "prev = (case find_node nodes by_lba (node_prev (nodes ! c)) of
        Some p \<Rightarrow> Some p | None \<Rightarrow> unique_link_candidate nodes (node_set_add seen c)
          (node_lba (nodes ! c)) False)"
    have prev: "p < length nodes" if "prev = Some p" for p
      using that find_node_iff [OF "1.prems"(1)] unique_link_Some(1)
      by (auto simp: prev_def split: option.splits)
    have unfold: "reverse_loop nodes by_lba current order seen =
        (if node_prev (nodes ! c) = 0 then order @ [c]
         else reverse_loop nodes by_lba prev (order @ [c]) (node_set_add seen c))"
      by (subst reverse_loop.simps) (use c in \<open>simp add: prev_def Let_def\<close>)
    show ?thesis
    proof (cases "node_prev (nodes ! c) = 0")
      case True
      then show ?thesis unfolding unfold using dist by simp
    next
      case False
      note "1.IH" [OF c(1,2,3) refl refl refl False "1.prems"(1,2) rep dist(1,2) _ dist(3)]
      then show ?thesis
        unfolding unfold using False prev by (simp add: prev_def)
    qed
  qed
qed

lemma reverse_step_nth:
  assumes "n \<le> length xs" and "k \<le> n div 2"
  shows "fold (\<lambda>i xs. xs[i := xs ! (n - 1 - i), n - 1 - i := xs ! i]) [0..<k] xs =
    map (\<lambda>j. if j < k \<or> n - k \<le> j \<and> j < n then xs ! (n - 1 - j) else xs ! j) [0..<length xs]"
  using assms(2)
proof (induction k)
  case 0
  then show ?case using assms(1) by (auto intro!: nth_equalityI)
next
  case (Suc k)
  have k: "k < n div 2" "k < n - 1 - k" "n - 1 - k < length xs"
    using Suc.prems assms(1) by linarith+
  let ?ys = "map (\<lambda>j. if j < k \<or> n - k \<le> j \<and> j < n then xs ! (n - 1 - j) else xs ! j)
      [0..<length xs]"
  have mid: "?ys ! k = xs ! k" "?ys ! (n - 1 - k) = xs ! (n - 1 - k)"
    using k by auto
  have "fold (\<lambda>i xs. xs[i := xs ! (n - 1 - i), n - 1 - i := xs ! i]) [0..<Suc k] xs =
      ?ys[k := xs ! (n - 1 - k), n - 1 - k := xs ! k]"
    using Suc.IH Suc.prems mid by simp
  also have "\<dots> = map (\<lambda>j. if j < Suc k \<or> n - Suc k \<le> j \<and> j < n then xs ! (n - 1 - j) else xs ! j)
      [0..<length xs]"
  proof (rule nth_equalityI)
    fix j assume "j < length (?ys[k := xs ! (n - 1 - k), n - 1 - k := xs ! k])"
    then have j: "j < length xs" by simp
    consider "j = k" | "j = n - 1 - k" | "j \<noteq> k" "j \<noteq> n - 1 - k" by blast
    then show "?ys[k := xs ! (n - 1 - k), n - 1 - k := xs ! k] ! j =
        map (\<lambda>j. if j < Suc k \<or> n - Suc k \<le> j \<and> j < n then xs ! (n - 1 - j) else xs ! j)
          [0..<length xs] ! j"
    proof cases
      case 1
      then show ?thesis using j k by simp
    next
      case 2
      then have "n - 1 - j = k" using k by simp
      then show ?thesis using 2 j k by simp
    next
      case 3
      then show ?thesis using j k by (auto simp: nth_list_update)
    qed
  qed simp
  finally show ?case .
qed

lemma reverse_indices_rev: "reverse_indices xs (length xs) = rev xs"
proof (rule nth_equalityI)
  let ?n = "length xs"
  have eq: "reverse_indices xs ?n =
      map (\<lambda>j. if j < ?n div 2 \<or> ?n - ?n div 2 \<le> j \<and> j < ?n then xs ! (?n - 1 - j) else xs ! j) [0..<?n]"
    unfolding reverse_indices_def by (rule reverse_step_nth) simp_all
  then show "length (reverse_indices xs ?n) = length (rev xs)" by simp
  fix j assume "j < length (reverse_indices xs ?n)"
  then have j: "j < ?n" using eq by simp
  show "reverse_indices xs ?n ! j = rev xs ! j"
  proof (cases "j < ?n div 2 \<or> ?n - ?n div 2 \<le> j")
    case True
    then show ?thesis using j unfolding eq by (auto simp: rev_nth)
  next
    case False
    then have "?n - 1 - j = j" by linarith
    then show ?thesis using j False unfolding eq by (simp add: rev_nth)
  qed
qed

lemma reverse_map_ok:
  assumes "index_ok nodes by_lba" and "length nodes \<le> APA_FORENSIC_MAX_NODES"
  defines "order \<equiv> map_order (build_reverse_map nodes by_lba)"
  shows "distinct (tl order)" "set order \<subseteq> {..<length nodes}"
    "length order \<le> APA_FORENSIC_MAX_NODES" "order \<noteq> [] \<Longrightarrow> node_lba (nodes ! hd order) = 0"
proof -
  have "distinct (tl order) \<and> set order \<subseteq> {..<length nodes} \<and> length order \<le> 2048 \<and>
      (order \<noteq> [] \<longrightarrow> node_lba (nodes ! hd order) = 0)"
  proof (cases "find_node nodes by_lba 0")
    case None
    then show ?thesis by (simp add: order_def build_reverse_map_def empty_map_def)
  next
    case (Some m)
    have m: "m < length nodes" "node_lba (nodes ! m) = 0"
      using find_node_iff [OF assms(1)] Some by auto
    define current where "current = (case (if node_prev (nodes ! m) \<noteq> 0
        then find_node nodes by_lba (node_prev (nodes ! m)) else None) of Some c \<Rightarrow> Some c
      | None \<Rightarrow> unique_link_candidate nodes node_set_empty 0 False)"
    have cur: "c < length nodes" if "current = Some c" for c
      using that find_node_iff [OF assms(1)] unique_link_Some(1)
      by (auto simp: current_def split: option.splits if_splits)
    define ro where "ro = reverse_loop nodes by_lba current [] node_set_empty"
    have "distinct ro \<and> set ro \<subseteq> {..<length nodes} \<and> length ro \<le> 2048 - 1"
      unfolding ro_def using assms nodes.represents_empty cur by (intro reverse_loop_ok) auto
    moreover have "order = m # rev ro"
      using Some by (simp add: order_def build_reverse_map_def current_def ro_def Let_def
          reverse_indices_rev empty_map_def)
    ultimately show ?thesis using m by auto
  qed
  then show "distinct (tl order)" "set order \<subseteq> {..<length nodes}"
    "length order \<le> APA_FORENSIC_MAX_NODES" "order \<noteq> [] \<Longrightarrow> node_lba (nodes ! hd order) = 0"
    by blast+
qed

subsection \<open>The geometry order\<close>

definition lba_sorted :: "apa_forensic_node list \<Rightarrow> nat list \<Rightarrow> bool" where
  "lba_sorted nodes order \<longleftrightarrow> sorted_wrt (\<lambda>i j. lba_of nodes i \<le> lba_of nodes j) order"

lemma shift_up_insert:
  "\<exists>zs. shift_up nodes v (xs @ y # ys) (length xs) = zs @ ys \<and> mset zs = mset (v # xs) \<and>
    (lba_sorted nodes xs \<longrightarrow> lba_sorted nodes zs)"
proof (induction xs arbitrary: y ys rule: rev_induct)
  case Nil
  show ?case by (intro exI [of _ "[v]"]) (simp add: lba_sorted_def)
next
  case (snoc x xs)
  show ?case
  proof (cases "node_lba (nodes ! x) > node_lba (nodes ! v)")
    case True
    obtain zs where zs: "shift_up nodes v (xs @ x # (x # ys)) (length xs) = zs @ x # ys"
      "mset zs = mset (v # xs)" "lba_sorted nodes xs \<longrightarrow> lba_sorted nodes zs"
      using snoc.IH by blast
    have "shift_up nodes v ((xs @ [x]) @ y # ys) (length (xs @ [x])) = (zs @ [x]) @ ys"
      using True zs(1) by (simp add: nth_append list_update_append)
    moreover have "lba_sorted nodes (zs @ [x])" if "lba_sorted nodes (xs @ [x])"
    proof -
      have "\<forall>i \<in> set xs. lba_of nodes i \<le> lba_of nodes x" "lba_sorted nodes xs"
        using that by (auto simp: lba_sorted_def sorted_wrt_append)
      moreover have "set zs = insert v (set xs)"
        using zs(2) by (metis list.simps(15) set_mset_mset)
      ultimately show ?thesis
        using zs(3) True by (auto simp: lba_sorted_def sorted_wrt_append lba_of_def)
    qed
    ultimately show ?thesis using zs(2) by (intro exI [of _ "zs @ [x]"]) auto
  next
    case False
    then have "shift_up nodes v ((xs @ [x]) @ y # ys) (length (xs @ [x])) = (xs @ [x, v]) @ ys"
      by (simp add: nth_append list_update_append)
    moreover have "lba_sorted nodes (xs @ [x, v])" if "lba_sorted nodes (xs @ [x])"
      using that False by (auto simp: lba_sorted_def sorted_wrt_append lba_of_def not_less
          intro: order_trans)
    ultimately show ?thesis by (intro exI [of _ "xs @ [x, v]"]) auto
  qed
qed

lemma sort_prefix:
  assumes "k \<le> length order" and "0 < k"
  shows "\<exists>zs. fold (\<lambda>i order. shift_up nodes (order ! i) order i) [1..<k] order = zs @ drop k order \<and>
    mset zs = mset (take k order) \<and> lba_sorted nodes zs"
  using assms
proof (induction k)
  case (Suc k)
  show ?case
  proof (cases "k = 0")
    case True
    then show ?thesis
      using Suc.prems by (intro exI [of _ "take 1 order"]) (cases order; simp add: lba_sorted_def)
  next
    case False
    then obtain zs where zs: "fold (\<lambda>i order. shift_up nodes (order ! i) order i) [1..<k] order =
        zs @ drop k order" "mset zs = mset (take k order)" "lba_sorted nodes zs"
      using Suc by auto
    have len: "length zs = k" using zs(2) Suc.prems by (metis Suc_leD length_take min.absorb2 size_mset)
    have drop: "drop k order = order ! k # drop (Suc k) order"
      using Suc.prems by (simp add: Cons_nth_drop_Suc)
    obtain ws where ws: "shift_up nodes (order ! k) (zs @ order ! k # drop (Suc k) order) (length zs) =
        ws @ drop (Suc k) order" "mset ws = mset (order ! k # zs)"
        "lba_sorted nodes zs \<longrightarrow> lba_sorted nodes ws"
      using shift_up_insert by blast
    have "[1..<Suc k] = [1..<k] @ [k]" using False by simp
    then have "fold (\<lambda>i order. shift_up nodes (order ! i) order i) [1..<Suc k] order =
        ws @ drop (Suc k) order"
      using ws(1) zs(1) len drop by (simp add: nth_append)
    moreover have "mset ws = mset (take (Suc k) order)"
      using ws(2) zs(2) Suc.prems by (simp add: take_Suc_conv_app_nth)
    ultimately show ?thesis using ws(3) zs(3) by blast
  qed
qed simp

lemma sort_map_ok:
  "mset (sort_map_by_lba nodes order) = mset order" "lba_sorted nodes (sort_map_by_lba nodes order)"
proof -
  have "mset (sort_map_by_lba nodes order) = mset order \<and>
      lba_sorted nodes (sort_map_by_lba nodes order)"
  proof (cases order)
    case Nil
    then show ?thesis by (simp add: sort_map_by_lba_def lba_sorted_def)
  next
    case (Cons x xs)
    then show ?thesis
      using sort_prefix [of "length order" order nodes] by (auto simp: sort_map_by_lba_def)
  qed
  then show "mset (sort_map_by_lba nodes order) = mset order"
    "lba_sorted nodes (sort_map_by_lba nodes order)" by blast+
qed

lemma geometry_map_ok:
  assumes "length nodes \<le> APA_FORENSIC_MAX_NODES"
  defines "order \<equiv> map_order (build_geometry_map nodes)"
  shows "distinct order" "set order = {i. i < length nodes \<and> geometry_member (nodes ! i)}"
    "lba_sorted nodes order"
proof -
  let ?members = "filter (\<lambda>i. geometry_member (nodes ! i)) [0..<length nodes]"
  have "length ?members \<le> length nodes" by (metis diff_zero length_filter_le length_upt)
  then have "take 2048 ?members = ?members" using assms(1) by simp
  then have order: "order = sort_map_by_lba nodes ?members"
    by (simp add: order_def build_geometry_map_def)
  have "mset order = mset ?members" unfolding order by (rule sort_map_ok)
  moreover have "distinct ?members" by simp
  ultimately show "distinct order" "set order = {i. i < length nodes \<and> geometry_member (nodes ! i)}"
    using mset_eq_imp_distinct_iff mset_eq_setD by fastforce+
  show "lba_sorted nodes order" unfolding order by (rule sort_map_ok)
qed

section \<open>Which nodes are dormant\<close>

text \<open>
  A node is a dormant remnant when it is a canonical free header outside the forward chain that
  begins inside, and does not reach beyond, a canonical free extent of the chain.
\<close>

definition dormant_spec :: "apa_forensic_node list \<Rightarrow> nat list \<Rightarrow> nat \<Rightarrow> bool" where
  "dormant_spec nodes order i \<longleftrightarrow> i \<notin> set order \<and> canonical_empty_node (nodes ! i) \<and>
    (\<exists>j \<in> set order. canonical_empty_node (nodes ! j) \<and>
      node_start (nodes ! j) < node_start (nodes ! i) \<and>
      node_end (nodes ! i) \<le> node_end (nodes ! j))"

definition set_dormant :: "apa_forensic_node \<Rightarrow> apa_forensic_node" where
  "set_dormant node = node\<lparr>node_evidence := node_evidence node OR EVIDENCE_DORMANT_FREE\<rparr>"

lemma required_bits:
  "(e OR EVIDENCE_DORMANT_FREE) AND m = e AND m" if "m AND EVIDENCE_DORMANT_FREE = 0" for e m :: u32
proof -
  have "(e OR d) AND m = (e AND m) OR (m AND d)" for d :: u32
    by (rule bit_word_eqI) (auto simp: bit_and_iff bit_or_iff)
  then show ?thesis using that by simp
qed

lemma set_dormant_simps [simp]:
  "canonical_empty_node (set_dormant n) = canonical_empty_node n"
  "node_start (set_dormant n) = node_start n" "node_end (set_dormant n) = node_end n"
  by (simp_all add: canonical_empty_node_def set_dormant_def node_end_def required_bits)

lemma dormant_fold:
  assumes order: "set order \<subseteq> {..<length nodes}" and len: "length nodes \<le> APA_FORENSIC_MAX_NODES"
    and rep: "nodes.represents in_forward (set order)" and k: "k \<le> length nodes"
  shows "fold (dormant_step in_forward order) [0..<k] (nodes, 0) =
    (map (\<lambda>i. if i < k \<and> dormant_spec nodes order i then set_dormant (nodes ! i) else nodes ! i)
       [0..<length nodes], card {i. i < k \<and> dormant_spec nodes order i})"
  using k
proof (induction k)
  case 0
  show ?case by (simp add: map_nth)
next
  case (Suc k)
  define marked where "marked = (\<lambda>k. map (\<lambda>i. if i < k \<and> dormant_spec nodes order i
    then set_dormant (nodes ! i) else nodes ! i) [0..<length nodes])"
  have keep: "canonical_empty_node (marked k ! i) = canonical_empty_node (nodes ! i)"
    "node_start (marked k ! i) = node_start (nodes ! i)"
    "node_end (marked k ! i) = node_end (nodes ! i)" if "i < length nodes" for i
    using that by (simp_all add: marked_def)
  have k: "k < length nodes" using Suc.prems by simp
  have cont: "node_set_contains in_forward k \<longleftrightarrow> k \<in> set order"
    using nodes.represents_contains [OF rep, of k] k len by simp
  have covered: "list_ex (\<lambda>j. let container = marked k ! j in
        \<not> (\<not> canonical_empty_node container \<or> node_start (marked k ! k) \<le> node_start container) \<and>
        node_end (marked k ! k) \<le> node_end container) order \<longleftrightarrow>
      (\<exists>j \<in> set order. canonical_empty_node (nodes ! j) \<and>
        node_start (nodes ! j) < node_start (nodes ! k) \<and> node_end (nodes ! k) \<le> node_end (nodes ! j))"
    unfolding list_ex_iff Let_def keep(2,3) [OF k] de_Morgan_disj not_not not_le
    by (intro bex_cong refl) (use order keep in auto)
  have step: "dormant_step in_forward order k (marked k, c) =
      (if dormant_spec nodes order k then (mark_evidence k EVIDENCE_DORMANT_FREE (marked k), c + 1)
       else (marked k, c))" for c
    unfolding dormant_step_def dormant_spec_def using cont covered keep(1) [OF k] by auto
  have here: "marked k ! k = nodes ! k" using k by (simp add: marked_def)
  have mark: "mark_evidence k EVIDENCE_DORMANT_FREE (marked k) = marked (Suc k)"
    if "dormant_spec nodes order k"
  proof (rule nth_equalityI)
    fix i assume "i < length (mark_evidence k EVIDENCE_DORMANT_FREE (marked k))"
    then have "i < length nodes" by (simp add: marked_def)
    then show "mark_evidence k EVIDENCE_DORMANT_FREE (marked k) ! i = marked (Suc k) ! i"
      using that here k
      by (cases "i = k") (auto simp: mark_evidence_def marked_def set_dormant_def nth_list_update
          less_Suc_eq)
  qed (simp add: marked_def)
  have unmark: "marked k = marked (Suc k)" if "\<not> dormant_spec nodes order k"
    using that by (auto simp: marked_def less_Suc_eq)
  have split: "{i. i < Suc k \<and> dormant_spec nodes order i} =
      (if dormant_spec nodes order k then insert k {i. i < k \<and> dormant_spec nodes order i}
       else {i. i < k \<and> dormant_spec nodes order i})"
    by (auto simp: less_Suc_eq)
  have "fold (dormant_step in_forward order) [0..<Suc k] (nodes, 0) =
      dormant_step in_forward order k (marked k, card {i. i < k \<and> dormant_spec nodes order i})"
    using Suc.IH Suc.prems by (simp add: marked_def)
  then show ?case
    unfolding step split using mark unmark by (auto simp: marked_def)
qed

lemma classify_nodes:
  fixes result :: apa_forensic_result
  defines "cleared \<equiv> map (node_evidence_update (\<lambda>e. e AND NOT EVIDENCE_DORMANT_FREE))
    (scan_nodes result)"
  assumes order: "set (map_order forward) \<subseteq> {..<length (scan_nodes result)}"
    and len: "length (scan_nodes result) \<le> APA_FORENSIC_MAX_NODES"
  shows "classify_dormant_free_remnants forward result = result
    \<lparr>scan_nodes := map (\<lambda>i. if dormant_spec cleared (map_order forward) i
       then set_dormant (cleared ! i) else cleared ! i) [0..<length cleared],
     scan_dormant_free_nodes := card {i. i < length cleared \<and> dormant_spec cleared (map_order forward) i}\<rparr>"
proof -
  let ?set = "fold (\<lambda>i s. node_set_add s i) (map_order forward) node_set_empty"
  have clen: "length cleared = length (scan_nodes result)" by (simp add: cleared_def)
  have "set (map_order forward) \<subseteq> {..<2048}" using order len by auto
  then have rep: "nodes.represents ?set (set (map_order forward))"
    using nodes.represents_fold [OF nodes.represents_empty] by simp
  have "fold (dormant_step ?set (map_order forward)) [0..<length cleared] (cleared, 0) =
      (map (\<lambda>i. if i < length cleared \<and> dormant_spec cleared (map_order forward) i
         then set_dormant (cleared ! i) else cleared ! i) [0..<length cleared],
       card {i. i < length cleared \<and> dormant_spec cleared (map_order forward) i})"
    by (rule dormant_fold) (use order len rep clen in simp_all)
  then show ?thesis
    unfolding classify_dormant_free_remnants_def Let_def cleared_def [symmetric]
    by (simp cong: map_cong)
qed

section \<open>What a scan result guarantees\<close>

definition map_ok :: "apa_forensic_result \<Rightarrow> apa_forensic_map \<Rightarrow> bool" where
  "map_ok result m \<longleftrightarrow>
    set (map_order m) \<subseteq> {..<length (scan_nodes result)} \<and>
    length (map_order m) \<le> APA_FORENSIC_MAX_NODES \<and> distinct (tl (map_order m)) \<and>
    (map_kind m \<noteq> APA_FORENSIC_MAP_REVERSE \<longrightarrow> distinct (map_order m)) \<and>
    (map_repairable m \<longrightarrow> \<not> scan_truncated result \<and> 2 \<le> length (map_order m) \<and>
      node_lba (scan_nodes result ! hd (map_order m)) = 0 \<and> 85 \<le> map_confidence m \<and>
      map_conflicts m = 0 \<and> map_overlaps m = 0 \<and>
      (\<forall>i \<in> set (map_order m). writable_evidence (scan_nodes result ! i)))"

definition result_ok :: "u32 \<Rightarrow> nat list \<Rightarrow> apa_forensic_result \<Rightarrow> bool" where
  "result_ok tot by_lba result \<longleftrightarrow> index_ok (scan_nodes result) by_lba \<and>
    length (scan_nodes result) \<le> APA_FORENSIC_MAX_NODES \<and>
    (\<forall>n \<in> set (scan_nodes result). node_ok tot n) \<and>
    (\<forall>m \<in> set (scan_maps result). map_ok result m)"

lemma evaluate_link_order [simp]:
  "map_order (evaluate_link nodes by_lba link desired m) = map_order m"
  "map_kind (evaluate_link nodes by_lba link desired m) = map_kind m"
  by (simp_all add: evaluate_link_def Let_def)

lemma evaluate_fold_order:
  "map_order (fst (fold (evaluate_step nodes by_lba order) is acc)) = map_order (fst acc) \<and>
    map_kind (fst (fold (evaluate_step nodes by_lba order) is acc)) = map_kind (fst acc)"
  by (induction "is" arbitrary: acc) (auto simp: evaluate_step_def Let_def split: prod.splits)

lemma evaluate_map_facts:
  defines "e result by_lba m \<equiv> evaluate_map result by_lba m"
  assumes "\<not> map_repairable m"
  shows "map_order (e result by_lba m) = map_order m" "map_kind (e result by_lba m) = map_kind m"
    "map_repairable (e result by_lba m) \<Longrightarrow> \<not> scan_truncated result \<and> 2 \<le> length (map_order m) \<and>
      node_lba (scan_nodes result ! (map_order m ! 0)) = 0 \<and>
      85 \<le> map_confidence (e result by_lba m) \<and>
      map_conflicts (e result by_lba m) = 0 \<and> map_overlaps (e result by_lba m) = 0 \<and>
      (\<forall>i \<in> set (map_order m). writable_evidence (scan_nodes result ! i))"
proof -
  obtain m1 weak where run: "fold (evaluate_step (scan_nodes result) by_lba (map_order m))
      [0..<length (map_order m)] (m, 0) = (m1, weak)"
    by (cases "fold (evaluate_step (scan_nodes result) by_lba (map_order m))
      [0..<length (map_order m)] (m, 0)")
  have m1: "map_order m1 = map_order m" "map_kind m1 = map_kind m"
    using evaluate_fold_order [of "scan_nodes result" by_lba "map_order m"
        "[0..<length (map_order m)]" "(m, 0)"] run by simp_all
  show "map_order (e result by_lba m) = map_order m" "map_kind (e result by_lba m) = map_kind m"
    using m1 by (simp_all add: e_def evaluate_map_def Let_def run)
  show "map_repairable (e result by_lba m) \<Longrightarrow> \<not> scan_truncated result \<and> 2 \<le> length (map_order m) \<and>
      node_lba (scan_nodes result ! (map_order m ! 0)) = 0 \<and>
      85 \<le> map_confidence (e result by_lba m) \<and>
      map_conflicts (e result by_lba m) = 0 \<and> map_overlaps (e result by_lba m) = 0 \<and>
      (\<forall>i \<in> set (map_order m). writable_evidence (scan_nodes result ! i))"
    using assms(2) by (auto simp: e_def evaluate_map_def Let_def run split: if_splits)
qed

lemma evaluated_map_ok:
  assumes "set (map_order m) \<subseteq> {..<length (scan_nodes result)}"
    and "length (map_order m) \<le> APA_FORENSIC_MAX_NODES" and "distinct (tl (map_order m))"
    and "map_kind m \<noteq> APA_FORENSIC_MAP_REVERSE \<longrightarrow> distinct (map_order m)"
    and new: "\<not> map_repairable m"
  shows "map_ok result (evaluate_map result by_lba m)"
proof -
  have "hd (map_order m) = map_order m ! 0" if "2 \<le> length (map_order m)"
    using that by (cases "map_order m") auto
  then show ?thesis
    unfolding map_ok_def evaluate_map_facts(1,2) [OF new]
    using assms(1-4) evaluate_map_facts(3) [OF new, of result by_lba] by auto
qed

lemma add_map_ok:
  assumes "result_ok tot by_lba result" and "map_ok result m"
  shows "result_ok tot by_lba (add_map_if_unique m result)"
    "scan_nodes (add_map_if_unique m result) = scan_nodes result"
  using assms by (auto simp: result_ok_def add_map_if_unique_def map_ok_def)

lemma build_kinds:
  "map_kind (build_forward_map nodes by_lba) = APA_FORENSIC_MAP_FORWARD"
  "map_kind (build_reverse_map nodes by_lba) = APA_FORENSIC_MAP_REVERSE"
  "map_kind (build_geometry_map nodes) = APA_FORENSIC_MAP_GEOMETRY"
  "\<not> map_repairable (build_forward_map nodes by_lba)"
  "\<not> map_repairable (build_reverse_map nodes by_lba)"
  "\<not> map_repairable (build_geometry_map nodes)"
  by (simp_all add: build_forward_map_def build_reverse_map_def build_geometry_map_def
      empty_map_def Let_def split: option.split)

lemma distinct_bounded:
  assumes "distinct xs" and "set xs \<subseteq> {..<n}"
  shows "length xs \<le> n"
  using assms by (metis card_lessThan card_mono distinct_card finite_lessThan)

lemma node_ok_evidence:
  assumes "node_ok tot n" and "\<And>k. k < 4 \<Longrightarrow> bit e k \<longleftrightarrow> bit (node_evidence n) k"
  shows "node_ok tot (n\<lparr>node_evidence := e\<rparr>)"
  using assms by (simp add: node_ok_def Let_def)

lemma classify_ok:
  assumes ok: "index_ok (scan_nodes result) by_lba" "length (scan_nodes result) \<le> APA_FORENSIC_MAX_NODES"
      "\<forall>n \<in> set (scan_nodes result). node_ok tot n" "scan_maps result = []"
    and order: "set (map_order forward) \<subseteq> {..<length (scan_nodes result)}"
  shows "result_ok tot by_lba (classify_dormant_free_remnants forward result)"
    "length (scan_nodes (classify_dormant_free_remnants forward result)) = length (scan_nodes result)"
proof -
  let ?clear = "node_evidence_update (\<lambda>e. e AND NOT EVIDENCE_DORMANT_FREE)"
  let ?r = "classify_dormant_free_remnants forward result"
  define cleared where "cleared = map ?clear (scan_nodes result)"
  define nodes where "nodes = map (\<lambda>i. if dormant_spec cleared (map_order forward) i
      then set_dormant (cleared ! i) else cleared ! i) [0..<length cleared]"
  have r: "scan_nodes ?r = nodes" "scan_maps ?r = []"
    unfolding classify_nodes [OF order ok(2)] by (simp_all add: nodes_def cleared_def ok(4))
  have len: "length nodes = length (scan_nodes result)" by (simp add: nodes_def cleared_def)
  have nth: "nodes ! i = set_dormant (?clear (scan_nodes result ! i)) \<or>
      nodes ! i = ?clear (scan_nodes result ! i)" if "i < length nodes" for i
    using that len by (simp add: nodes_def cleared_def)
  have "map node_lba nodes = map node_lba (scan_nodes result)"
  proof (rule nth_equalityI)
    fix i assume "i < length (map node_lba nodes)"
    then show "map node_lba nodes ! i = map node_lba (scan_nodes result) ! i"
      using nth [of i] len by (auto simp: set_dormant_def)
  qed (simp add: len)
  then have index: "index_ok nodes by_lba" using ok(1) index_ok_cong by blast
  have "node_ok tot n" if n: "n \<in> set nodes" for n
  proof -
    obtain i where i: "i < length nodes" "n = nodes ! i" using n by (metis in_set_conv_nth)
    let ?n = "scan_nodes result ! i"
    have nok: "node_ok tot ?n" using ok(3) i(1) len by auto
    have low: "bit ((node_evidence ?n) AND NOT EVIDENCE_DORMANT_FREE) k \<longleftrightarrow> bit (node_evidence ?n) k"
      if "k < 4" for k
      using that unfolding bit_and_iff bit_not_iff evidence_bits by auto
    have "?clear ?n = ?n\<lparr>node_evidence := node_evidence ?n AND NOT EVIDENCE_DORMANT_FREE\<rparr>"
      by (cases ?n) simp
    then have "node_ok tot (?clear ?n)" using node_ok_evidence [OF nok low] by metis
    moreover from this have "node_ok tot (set_dormant (?clear ?n))"
      unfolding set_dormant_def
    proof (rule node_ok_evidence)
      fix k :: nat assume "k < 4"
      then show "bit (node_evidence (?clear ?n) OR EVIDENCE_DORMANT_FREE) k \<longleftrightarrow>
          bit (node_evidence (?clear ?n)) k"
        unfolding bit_or_iff evidence_bits by simp
    qed
    ultimately show ?thesis using nth [OF i(1)] i(2) by auto
  qed
  then show "result_ok tot by_lba ?r"
    using index ok(2) len r by (simp add: result_ok_def)
  show "length (scan_nodes ?r) = length (scan_nodes result)" using r len by simp
qed

lemma build_maps_ok:
  assumes ok: "index_ok (scan_nodes result) by_lba" "length (scan_nodes result) \<le> APA_FORENSIC_MAX_NODES"
      "\<forall>n \<in> set (scan_nodes result). node_ok tot n" "scan_maps result = []"
  shows "result_ok tot by_lba (build_maps by_lba result)"
proof -
  define forward where "forward = build_forward_map (scan_nodes result) by_lba"
  define r1 where "r1 = classify_dormant_free_remnants forward result"
  define r2 where "r2 = add_map_if_unique (evaluate_map r1 by_lba forward) r1"
  define r3 where "r3 = add_map_if_unique
    (evaluate_map r2 by_lba (build_reverse_map (scan_nodes r2) by_lba)) r2"
  have fwd: "distinct (map_order forward)" "set (map_order forward) \<subseteq> {..<length (scan_nodes result)}"
    using forward_map_ok [OF ok(1,2)] by (simp_all add: forward_def)
  have r1: "result_ok tot by_lba r1" "length (scan_nodes r1) = length (scan_nodes result)"
    unfolding r1_def by (rule classify_ok [OF ok fwd(2)])+
  have "map_ok r1 (evaluate_map r1 by_lba forward)"
  proof (rule evaluated_map_ok)
    show "length (map_order forward) \<le> 2048"
      using distinct_bounded [OF fwd] ok(2) by simp
  qed (use fwd r1(2) in \<open>auto simp: forward_def build_kinds distinct_tl\<close>)
  then have r2: "result_ok tot by_lba r2" "scan_nodes r2 = scan_nodes r1"
    unfolding r2_def using add_map_ok [OF r1(1)] by blast+
  have index: "index_ok (scan_nodes r2) by_lba" "length (scan_nodes r2) \<le> 2048"
    using r2(1) by (auto simp: result_ok_def)
  have "map_ok r2 (evaluate_map r2 by_lba (build_reverse_map (scan_nodes r2) by_lba))"
    by (rule evaluated_map_ok) (use reverse_map_ok [OF index] in \<open>auto simp: build_kinds\<close>)
  then have r3: "result_ok tot by_lba r3" "scan_nodes r3 = scan_nodes r2"
    unfolding r3_def using add_map_ok [OF r2(1)] by blast+
  note geo = geometry_map_ok [of "scan_nodes r3", unfolded r3(2), OF index(2)]
  have "map_ok r3 (evaluate_map r3 by_lba (build_geometry_map (scan_nodes r3)))"
  proof (rule evaluated_map_ok)
    have sub: "set (map_order (build_geometry_map (scan_nodes r3))) \<subseteq> {..<length (scan_nodes r3)}"
      using geo(2) r3(2) by auto
    then show "set (map_order (build_geometry_map (scan_nodes r3))) \<subseteq> {..<length (scan_nodes r3)}" .
    show "length (map_order (build_geometry_map (scan_nodes r3))) \<le> 2048"
      using distinct_bounded [OF _ sub] geo(1) r3(2) index(2) by simp
  qed (use geo(1) r3(2) in \<open>auto simp: build_kinds distinct_tl\<close>)
  then have "result_ok tot by_lba (add_map_if_unique
      (evaluate_map r3 by_lba (build_geometry_map (scan_nodes r3))) r3)"
    using add_map_ok [OF r3(1)] by blast
  then show ?thesis
    by (simp add: build_maps_def Let_def forward_def r1_def r2_def r3_def)
qed

lemma discover_ok: "state_ok tot (discover reader progress tot ctx)"
proof -
  let ?s0 = "\<lparr>fs_result = (empty_result tot)\<lparr>scan_grid_reads := 1\<rparr>, fs_by_lba = [],
      fs_context = ctx\<rparr>"
  have "state_ok tot ?s0"
    by (simp add: state_ok_def empty_result_def index_ok_def)
  then have "state_ok tot (snd (add_candidate reader 0 tot EVIDENCE_GRID ?s0))"
    by (intro add_candidate_ok) auto
  then show "state_ok tot (discover reader progress tot ctx)"
    unfolding discover_def Let_def
    by (intro chase_references_ok grid_loop_ok report_progress_ok)
qed

lemma scan_unfold:
  "apa_forensic_scan (Some rd) tot progress ctx = (if tot < 2 then None
    else let s = discover rd progress tot ctx in
      Some (build_maps (fs_by_lba s) (fs_result s), fs_context
        (report_progress progress tot tot (map_result (build_maps (fs_by_lba s)) s))))"
  by (simp add: apa_forensic_scan_def Let_def report_progress_def map_result_def split: option.split)

section \<open>Properties\<close>

text \<open>
  Property C12: for every device, a scan of at least two sectors ends with a result in which no
  sector is listed twice, every node records the header found at its sector inside the disk
  with evidence bits that mean what they say, and every map lists existing nodes: without
  repetition in the forward and geometry order, apart from the leading master in the reverse
  order, and marked repairable only when the scan was complete, the order starts at sector 0,
  no link conflicts, no extents overlap and every member is writable evidence.
\<close>

theorem forensic_scan_sound:
  assumes "2 \<le> tot"
  shows "\<exists>result ctx' by_lba. apa_forensic_scan (Some rd) tot progress ctx = Some (result, ctx') \<and>
    index_ok (scan_nodes result) by_lba \<and> length (scan_nodes result) \<le> APA_FORENSIC_MAX_NODES \<and>
    (\<forall>n \<in> set (scan_nodes result). node_ok tot n) \<and>
    (\<forall>m \<in> set (scan_maps result). map_ok result m)"
proof -
  let ?s = "discover rd progress tot ctx"
  have "result_ok tot (fs_by_lba ?s) (build_maps (fs_by_lba ?s) (fs_result ?s))"
    by (rule build_maps_ok) (use discover_ok [of tot rd progress ctx] in \<open>simp_all add: state_ok_def\<close>)
  moreover have "\<not> tot < 2" using assms by simp
  ultimately show ?thesis
    unfolding scan_unfold Let_def result_ok_def by auto
qed

text \<open>A device on which every sector reads as zero.\<close>

definition zero_reader :: "unit forensic_reader" where
  "zero_reader lba sectors ctx = (0, replicate 1024 0, ctx)"

theorem forensic_scan_sound_witness:
  "\<exists>result ctx'. apa_forensic_scan (Some zero_reader) 0x100000 None () = Some (result, ctx') \<and>
    (\<forall>m \<in> set (scan_maps result). map_ok result m)"
  using forensic_scan_sound [of "0x100000" zero_reader None "()"] by (auto simp: le_numeral_simps)

text \<open>
  Looking up a sector by the binary search of the sorted index finds exactly the
  node recorded for that sector, and inserting the node of a new sector keeps the index sorted
  and complete.
\<close>

theorem index_search_exact:
  assumes "index_ok nodes by_lba" and "node_lba node \<notin> set (map node_lba nodes)"
  shows "(find_node nodes by_lba lba = Some i \<longleftrightarrow> i < length nodes \<and> node_lba (nodes ! i) = lba) \<and>
    index_ok (nodes @ [node]) (index_node (nodes @ [node]) by_lba (length nodes))"
  using find_node_iff [OF assms(1)] index_node_ok [OF assms] by blast

definition plain_node :: "u32 \<Rightarrow> u32 \<Rightarrow> u32 \<Rightarrow> apa_forensic_node" where
  "plain_node lba next prev = \<lparr>node_lba = lba, node_stored_checksum = 0,
    node_calculated_checksum = 0, node_next = next, node_prev = prev, node_start = lba,
    node_length = 0x1000, node_main = 0, node_nsub = 0, node_number = 0, node_type = 0x100,
    node_flags = 0, node_evidence = 0x7f, node_confidence = 100, node_id = [80, 0],
    node_header = []\<rparr>"

theorem index_search_exact_witness:
  "find_node [plain_node 0 8 8, plain_node 8 0 0] [0, 1] 8 = Some 1 \<and>
    index_ok [plain_node 0 8 8, plain_node 8 0 0, plain_node 4 0 0] [0, 2, 1]"
proof -
  have ok: "index_ok [plain_node 0 8 8, plain_node 8 0 0] [0, 1]"
    by (auto simp: index_ok_def lba_of_def plain_node_def)
  have new: "node_lba (plain_node 4 0 0) \<notin> set (map node_lba [plain_node 0 8 8, plain_node 8 0 0])"
    by (simp add: plain_node_def)
  have idx: "index_node [plain_node 0 8 8, plain_node 8 0 0, plain_node 4 0 0] [0, 1]
      (length [plain_node 0 8 8, plain_node 8 0 0]) = [0, 2, 1]"
    by (simp add: index_node_def lower_bound.simps plain_node_def)
  have "1 < length [plain_node 0 8 8, plain_node 8 0 0] \<and>
      node_lba ([plain_node 0 8 8, plain_node 8 0 0] ! 1) = 8" by (simp add: plain_node_def)
  then show ?thesis
    using index_search_exact [OF ok new, of 8 1] unfolding append.simps idx by blast
qed

text \<open>
  The geometry map lists each active candidate exactly once (a self-consistent
  extent of sufficient confidence, or sector 0, that is not a dormant remnant), in the order of
  the sectors.
\<close>

theorem geometry_map_exact:
  assumes "length nodes \<le> APA_FORENSIC_MAX_NODES"
  shows "distinct (map_order (build_geometry_map nodes)) \<and>
    set (map_order (build_geometry_map nodes)) =
      {i. i < length nodes \<and> geometry_member (nodes ! i)} \<and>
    lba_sorted nodes (map_order (build_geometry_map nodes))"
  using geometry_map_ok [OF assms] by blast

theorem geometry_map_exact_witness:
  "lba_sorted [plain_node 8 0 0, plain_node 0 8 8]
    (map_order (build_geometry_map [plain_node 8 0 0, plain_node 0 8 8]))"
  using geometry_map_exact [of "[plain_node 8 0 0, plain_node 0 8 8]"] by simp

text \<open>
  After the classification a node carries the dormant mark exactly when it is a
  canonical free header outside the forward chain covered by a canonical free extent of the
  chain, the count is the number of these nodes, and nothing else of a node changes.
\<close>

theorem dormant_classification_exact:
  assumes "set (map_order forward) \<subseteq> {..<length (scan_nodes result)}"
    and "length (scan_nodes result) \<le> APA_FORENSIC_MAX_NODES"
    and "\<forall>n \<in> set (scan_nodes result). node_evidence n AND EVIDENCE_DORMANT_FREE = 0"
  shows "classify_dormant_free_remnants forward result = result
    \<lparr>scan_nodes := map (\<lambda>i. if dormant_spec (scan_nodes result) (map_order forward) i
       then set_dormant (scan_nodes result ! i) else scan_nodes result ! i)
         [0..<length (scan_nodes result)],
     scan_dormant_free_nodes :=
       card {i. i < length (scan_nodes result) \<and>
         dormant_spec (scan_nodes result) (map_order forward) i}\<rparr>"
proof -
  have keep: "e AND NOT d = e" if "e AND d = 0" for e d :: u32
  proof (rule bit_word_eqI)
    fix k assume k: "k < LENGTH(32)"
    have "\<not> bit (e AND d) k" using that by simp
    then show "bit (e AND NOT d) k \<longleftrightarrow> bit e k"
      using k by (auto simp: bit_and_iff bit_not_iff)
  qed
  have "node_evidence_update (\<lambda>e. e AND NOT EVIDENCE_DORMANT_FREE) n = n"
    if "n \<in> set (scan_nodes result)" for n
    using keep [of "node_evidence n" EVIDENCE_DORMANT_FREE] assms(3) that by (cases n) auto
  then have "map (node_evidence_update (\<lambda>e. e AND NOT EVIDENCE_DORMANT_FREE)) (scan_nodes result)
      = scan_nodes result"
    by (simp add: map_idI)
  then show ?thesis using classify_nodes [OF assms(1,2)] by simp
qed

definition free_node :: "u32 \<Rightarrow> u32 \<Rightarrow> apa_forensic_node" where
  "free_node lba len = (plain_node lba 0 0)
    \<lparr>node_length := len, node_type := 0, node_id := ascii ''__empty'' @ [0]\<rparr>"

definition sample_scan :: apa_forensic_result where
  "sample_scan = (empty_result 0x100000)
    \<lparr>scan_nodes := [plain_node 0 0x40000 0x40000, free_node 0x40000 0x80000, free_node 0x80000 0x40000]\<rparr>"

theorem dormant_classification_exact_witness:
  "scan_dormant_free_nodes (classify_dormant_free_remnants
      ((empty_map APA_FORENSIC_MAP_FORWARD)\<lparr>map_order := [0, 1]\<rparr>) sample_scan) =
    card {i. i < length (scan_nodes sample_scan) \<and> dormant_spec (scan_nodes sample_scan) [0, 1] i}"
  by (subst dormant_classification_exact)
    (auto simp: sample_scan_def empty_result_def plain_node_def free_node_def)

end
