(* ===== verification/ForensicPlan.thy ===== *)
theory ForensicPlan
  imports ForensicMaps
begin

text \<open>
  Repair plans: the last part of \<open>src/apa_forensic.c\<close> and the bit distance of
  \<open>include/apa_forensic.h\<close>.  A plan lists, for the entries of a map whose links are not the ones
  the map wants, a patch of the two links.  The lemmas show that a plan over a map without
  repetition turns its members into one ring of links, and that a patched header differs from
  the scanned one only in the links and the checksum word.
\<close>

abbreviation (input) APA_FORENSIC_MAX_PATCHES :: nat where "APA_FORENSIC_MAX_PATCHES \<equiv> 2048"

record apa_forensic_patch =
  patch_node_index :: nat
  patch_lba :: u32
  patch_old_next :: u32
  patch_old_prev :: u32
  patch_new_next :: u32
  patch_new_prev :: u32
  patch_checksum_corroborated :: bool

record apa_forensic_repair_plan =
  plan_map_index :: nat
  plan_corroborated_count :: nat
  plan_speculative_count :: nat
  plan_confidence :: nat
  plan_automatic_safe :: bool
  plan_manual_allowed :: bool
  plan_patches :: "apa_forensic_patch list"

section \<open>Bit distance\<close>

lemma clear_lowest_less:
  fixes v :: "'a :: len word"
  assumes "v \<noteq> 0"
  shows "unat (v AND (v - 1)) < unat v"
proof -
  have "v AND (v - 1) \<le> v - 1" by (simp add: and.commute word_and_le1)
  moreover have "v - 1 < v" using assms by (simp add: word_gt_0 [symmetric] measure_unat word_less_nat_alt)
  ultimately show ?thesis by (simp add: word_less_nat_alt word_le_nat_alt)
qed

function count_bits :: "u32 \<Rightarrow> nat \<Rightarrow> nat" where
  "count_bits v hits = (if v \<noteq> 0 then count_bits (v AND (v - 1)) (hits + 1) else hits)"
  by pat_completeness auto

termination
  by (relation "measure (\<lambda>(v, hits). unat v)") (auto simp: clear_lowest_less)

declare count_bits.simps [simp del]

definition apa_forensic_patch_bit_distance :: "apa_forensic_patch \<Rightarrow> nat" where
  "apa_forensic_patch_bit_distance patch = fold count_bits
    [patch_old_next patch XOR patch_new_next patch,
     patch_old_prev patch XOR patch_new_prev patch] 0"

section \<open>Planning\<close>

definition patch_checksum_test :: "apa_forensic_node \<Rightarrow> u32 \<Rightarrow> u32 \<Rightarrow> bool" where
  "patch_checksum_test node new_next new_prev \<longleftrightarrow>
    (let repaired = write_le32 APA_PREV_OFFSET new_prev
       (write_le32 APA_NEXT_OFFSET new_next (node_header node)) in
     apa_checksum repaired = node_stored_checksum node)"

definition empty_plan :: "nat \<Rightarrow> nat \<Rightarrow> apa_forensic_repair_plan" where
  "empty_plan map_index confidence = \<lparr>plan_map_index = map_index, plan_corroborated_count = 0,
    plan_speculative_count = 0, plan_confidence = confidence, plan_automatic_safe = False,
    plan_manual_allowed = False, plan_patches = []\<rparr>"

definition make_patch :: "apa_forensic_node list \<Rightarrow> nat list \<Rightarrow> nat \<Rightarrow> apa_forensic_patch" where
  "make_patch nodes order i = (let node = nodes ! (order ! i) in
    \<lparr>patch_node_index = order ! i, patch_lba = node_lba node, patch_old_next = node_next node,
     patch_old_prev = node_prev node, patch_new_next = desired_next nodes order i,
     patch_new_prev = desired_prev nodes order i,
     patch_checksum_corroborated =
       patch_checksum_test node (desired_next nodes order i) (desired_prev nodes order i)\<rparr>)"

definition add_patch :: "apa_forensic_patch \<Rightarrow> apa_forensic_repair_plan \<Rightarrow> apa_forensic_repair_plan" where
  "add_patch patch plan = (let p = plan\<lparr>plan_patches := plan_patches plan @ [patch]\<rparr> in
    if patch_checksum_corroborated patch then plan_corroborated_count_update Suc p
    else plan_speculative_count_update Suc p)"

text \<open>The loop of \<open>apa_forensic_build_repair_plan\<close> over the entries of the map.\<close>

fun plan_loop :: "apa_forensic_node list \<Rightarrow> nat list \<Rightarrow> nat list \<Rightarrow> apa_forensic_repair_plan \<Rightarrow>
    int \<times> apa_forensic_repair_plan" where
  "plan_loop nodes order [] plan = (0, plan)"
| "plan_loop nodes order (i # is) plan = (let node = nodes ! (order ! i) in
     if node_prev node = desired_prev nodes order i \<and> node_next node = desired_next nodes order i
     then plan_loop nodes order is plan
     else if length (plan_patches plan) \<ge> APA_FORENSIC_MAX_PATCHES then (- 2, plan)
     else plan_loop nodes order is (add_patch (make_patch nodes order i) plan))"

definition apa_forensic_build_repair_plan :: "apa_forensic_result \<Rightarrow> nat \<Rightarrow>
    apa_forensic_repair_plan \<Rightarrow> int \<times> apa_forensic_repair_plan" where
  "apa_forensic_build_repair_plan result map_index plan =
    (if map_index \<ge> length (scan_maps result) then (- 1, plan)
     else let m = scan_maps result ! map_index; p0 = empty_plan map_index (map_confidence m) in
       if scan_truncated result \<or> \<not> map_repairable m then (0, p0)
       else let (code, p) = plan_loop (scan_nodes result) (map_order m)
           [0..<length (map_order m)] p0 in
         if code \<noteq> 0 then (code, p)
         else (0, p\<lparr>plan_automatic_safe := \<not> scan_truncated result \<and> plan_patches p \<noteq> [] \<and>
               plan_speculative_count p = 0 \<and> map_confidence m \<ge> 90,
             plan_manual_allowed := \<not> scan_truncated result \<and> plan_patches p \<noteq> [] \<and>
               map_confidence m \<ge> 90 \<and> map_conflicts m = 0 \<and> map_overlaps m = 0\<rparr>))"

definition apa_forensic_build_patched_header :: "apa_forensic_result \<Rightarrow> apa_forensic_patch \<Rightarrow>
    byte list \<Rightarrow> int \<times> byte list" where
  "apa_forensic_build_patched_header result patch repaired =
    (if patch_node_index patch \<ge> length (scan_nodes result) then (- 1, repaired)
     else let node = scan_nodes result ! patch_node_index patch in
       if node_lba node \<noteq> patch_lba patch \<or> node_next node \<noteq> patch_old_next patch \<or>
          node_prev node \<noteq> patch_old_prev patch then (- 2, repaired)
       else let h1 = write_le32 APA_NEXT_OFFSET (patch_new_next patch) (node_header node);
                h2 = write_le32 APA_PREV_OFFSET (patch_new_prev patch) h1 in
         (0, write_le32 0 (apa_checksum h2) h2))"

definition apa_forensic_map_name :: "apa_forensic_map_kind \<Rightarrow> string" where
  "apa_forensic_map_name kind = (case kind of
      APA_FORENSIC_MAP_FORWARD \<Rightarrow> ''forward links''
    | APA_FORENSIC_MAP_REVERSE \<Rightarrow> ''reverse links''
    | APA_FORENSIC_MAP_GEOMETRY \<Rightarrow> ''geometry order''
    | APA_FORENSIC_MAP_NONE \<Rightarrow> ''unknown'')"

section \<open>The bit distance counts the differing bits\<close>

fun ones :: "nat \<Rightarrow> nat" where
  "ones n = (if n = 0 then 0 else n mod 2 + ones (n div 2))"

declare ones.simps [simp del]

lemma ones_clear_lowest: "0 < n \<Longrightarrow> Suc (ones (n AND (n - 1))) = ones n"
proof (induction n rule: less_induct)
  case (less n)
  show ?case
  proof (cases "odd n")
    case True
    then obtain k where k: "n = 2 * k + 1" by (elim oddE)
    have "n AND (n - 1) = 2 * k"
      unfolding k by (subst and_rec) (simp add: and.idem)
    moreover have "ones (2 * k) = ones k" "ones (2 * k + 1) = Suc (ones k)"
      by (cases "k = 0"; simp add: ones.simps [of "2 * k"] ones.simps [of 0])
        (simp add: ones.simps [of "Suc (2 * k)"])
    ultimately show ?thesis using k by simp
  next
    case False
    then have "even n" by simp
    then obtain k where "n = 2 * k" by (elim evenE)
    then have k: "n = 2 * k" "0 < k" using less.prems by auto
    have pred: "(n - 1) div 2 = k - 1" "odd (n - 1)" using k by auto
    have "n AND (n - 1) = 2 * (k AND (k - 1))"
      by (subst and_rec) (use k pred in simp)
    moreover have dbl: "ones (2 * m) = ones m" for m
      by (cases "m = 0") (simp_all add: ones.simps [of "2 * m"] ones.simps [of 0])
    ultimately show ?thesis using less.IH [of k] k by simp
  qed
qed

lemma bits_step: "{k. bit n k} = (if odd n then {0} else {}) \<union> Suc ` {k. bit (n div 2) k}"
  for n :: nat
proof (rule set_eqI)
  fix k
  show "k \<in> {k. bit n k} \<longleftrightarrow> k \<in> (if odd n then {0} else {}) \<union> Suc ` {k. bit (n div 2) k}"
    by (cases k) (auto simp: bit_0 bit_Suc)
qed

lemma ones_card: "finite {k. bit n k} \<and> ones n = card {k. bit n k}"
proof (induction n rule: less_induct)
  case (less n)
  show ?case
  proof (cases "n = 0")
    case True
    then show ?thesis by (simp add: ones.simps [of 0])
  next
    case False
    then have IH: "finite {k. bit (n div 2) k}" "ones (n div 2) = card {k. bit (n div 2) k}"
      using less.IH [of "n div 2"] by auto
    have "card (Suc ` {k. bit (n div 2) k}) = card {k. bit (n div 2) k}"
      by (simp add: card_image)
    moreover have "0 \<notin> Suc ` {k. bit (n div 2) k}" by auto
    ultimately have "card {k. bit n k} = n mod 2 + card {k. bit (n div 2) k}"
      unfolding bits_step [of n] using IH(1) by (auto simp: odd_iff_mod_2_eq_one)
    then show ?thesis
      using IH False unfolding bits_step [of n] by (simp add: ones.simps [of n])
  qed
qed

lemma count_bits_ones: "count_bits v hits = hits + ones (unat v)"
proof (induction v hits rule: count_bits.induct)
  case (1 v hits)
  show ?case
  proof (cases "v = 0")
    case True
    then show ?thesis by (simp add: count_bits.simps [of 0 hits] ones.simps [of 0])
  next
    case False
    then have pos: "0 < unat v" by (simp add: unat_gt_0)
    have "unat (v AND (v - 1)) = unat v AND (unat v - 1)"
      using False by (simp add: unsigned_and_eq unat_minus_one)
    then show ?thesis
      using "1.IH" False ones_clear_lowest [OF pos] by (simp add: count_bits.simps [of v hits])
  qed
qed

lemma bit_distance_card:
  "apa_forensic_patch_bit_distance p =
    card {k. bit (patch_old_next p XOR patch_new_next p) k} +
    card {k. bit (patch_old_prev p XOR patch_new_prev p) k}"
proof -
  have "bit w k \<longleftrightarrow> bit (unat w) k" for w :: u32 and k
    by (simp add: bit_unsigned_iff)
  then show ?thesis
    by (simp add: apa_forensic_patch_bit_distance_def count_bits_ones ones_card)
qed

section \<open>A patched header\<close>

lemma patched_header_ok:
  assumes run: "apa_forensic_build_patched_header result patch buffer = (0, h')"
    and len: "length (node_header (scan_nodes result ! patch_node_index patch)) = APA_HEADER_SIZE"
  defines "h \<equiv> node_header (scan_nodes result ! patch_node_index patch)"
  shows "length h' = APA_HEADER_SIZE"
    and "read_le32 h' 0 = apa_checksum h'"
    and "read_le32 h' APA_NEXT_OFFSET = patch_new_next patch"
    and "read_le32 h' APA_PREV_OFFSET = patch_new_prev patch"
    and "\<And>i. 4 \<le> i \<Longrightarrow> i < 8 \<or> 16 \<le> i \<Longrightarrow> i < APA_HEADER_SIZE \<Longrightarrow> h' ! i = h ! i"
    and "apa_checksum h' = apa_checksum (write_le32 APA_PREV_OFFSET (patch_new_prev patch)
      (write_le32 APA_NEXT_OFFSET (patch_new_next patch) h))"
proof -
  define h2 where "h2 = write_le32 APA_PREV_OFFSET (patch_new_prev patch)
    (write_le32 APA_NEXT_OFFSET (patch_new_next patch) h)"
  have h': "h' = write_le32 0 (apa_checksum h2) h2"
    using run by (simp add: apa_forensic_build_patched_header_def Let_def h2_def h_def split: if_splits)
  have l2: "length h2 = APA_HEADER_SIZE" using len by (simp add: h2_def h_def)
  show "length h' = APA_HEADER_SIZE" using l2 by (simp add: h')
  show "read_le32 h' 0 = apa_checksum h'"
    unfolding h' using l2 by (intro checksum_store_consistent) simp
  show "read_le32 h' APA_NEXT_OFFSET = patch_new_next patch"
    "read_le32 h' APA_PREV_OFFSET = patch_new_prev patch"
    using len by (simp_all add: h' h2_def h_def writes_def buf_simps)
  show "h' ! i = h ! i" if "4 \<le> i" "i < 8 \<or> 16 \<le> i" "i < APA_HEADER_SIZE" for i
    using that len by (auto simp: h' h2_def h_def writes_def nth_blit)
  show "apa_checksum h' = apa_checksum (write_le32 APA_PREV_OFFSET (patch_new_prev patch)
      (write_le32 APA_NEXT_OFFSET (patch_new_next patch) h))"
    by (simp add: h' h2_def [symmetric])
qed

section \<open>A plan\<close>

definition links_right :: "apa_forensic_node list \<Rightarrow> nat list \<Rightarrow> nat \<Rightarrow> bool" where
  "links_right nodes order i \<longleftrightarrow> node_prev (nodes ! (order ! i)) = desired_prev nodes order i \<and>
    node_next (nodes ! (order ! i)) = desired_next nodes order i"

lemma plan_loop_patches:
  assumes "length (plan_patches plan) + length is \<le> APA_FORENSIC_MAX_PATCHES"
  shows "\<exists>plan'. plan_loop nodes order is plan = (0, plan') \<and>
    plan_patches plan' = plan_patches plan @
      map (make_patch nodes order) (filter (\<lambda>i. \<not> links_right nodes order i) is) \<and>
    plan_map_index plan' = plan_map_index plan \<and> plan_confidence plan' = plan_confidence plan \<and>
    plan_speculative_count plan' = plan_speculative_count plan +
      length (filter (\<lambda>p. \<not> patch_checksum_corroborated p)
        (map (make_patch nodes order) (filter (\<lambda>i. \<not> links_right nodes order i) is))) \<and>
    plan_corroborated_count plan' = plan_corroborated_count plan +
      length (filter patch_checksum_corroborated
        (map (make_patch nodes order) (filter (\<lambda>i. \<not> links_right nodes order i) is)))"
  using assms
proof (induction "is" arbitrary: plan)
  case (Cons i "is")
  show ?case
  proof (cases "links_right nodes order i")
    case True
    then show ?thesis
      using Cons.IH [of plan] Cons.prems by (simp add: links_right_def Let_def)
  next
    case False
    have room: "\<not> 2048 \<le> length (plan_patches plan)" using Cons.prems by simp
    let ?p = "add_patch (make_patch nodes order i) plan"
    have "length (plan_patches ?p) + length is \<le> 2048"
      using Cons.prems by (simp add: add_patch_def Let_def)
    from Cons.IH [OF this] show ?thesis
      using False room by (auto simp: links_right_def Let_def add_patch_def)
  qed
qed simp

definition plan_ready :: "apa_forensic_result \<Rightarrow> nat \<Rightarrow> bool" where
  "plan_ready result k \<longleftrightarrow> k < length (scan_maps result) \<and> \<not> scan_truncated result \<and>
    map_repairable (scan_maps result ! k)"

lemma plan_patches_eq:
  assumes "plan_ready result k" and "length (map_order (scan_maps result ! k)) \<le> APA_FORENSIC_MAX_NODES"
    and "apa_forensic_build_repair_plan result k plan0 = (code, plan)"
  defines "nodes \<equiv> scan_nodes result" and "order \<equiv> map_order (scan_maps result ! k)"
  shows "code = 0"
    and "plan_patches plan = map (make_patch nodes order)
      (filter (\<lambda>i. \<not> links_right nodes order i) [0..<length order])"
    and "plan_map_index plan = k"
    and "plan_automatic_safe plan \<longrightarrow> (\<forall>p \<in> set (plan_patches plan). patch_checksum_corroborated p)"
    and "plan_manual_allowed plan \<longleftrightarrow> plan_patches plan \<noteq> [] \<and> 90 \<le> map_confidence (scan_maps result ! k) \<and>
      map_conflicts (scan_maps result ! k) = 0 \<and> map_overlaps (scan_maps result ! k) = 0"
    and "plan_corroborated_count plan + plan_speculative_count plan = length (plan_patches plan)"
proof -
  let ?m = "scan_maps result ! k"
  let ?p0 = "empty_plan k (map_confidence ?m)"
  have "length (plan_patches ?p0) + length [0..<length order] \<le> 2048"
    using assms(2) by (simp add: empty_plan_def order_def)
  from plan_loop_patches [OF this, of nodes order] obtain p where p:
    "plan_loop nodes order [0..<length order] ?p0 = (0, p)"
    "plan_patches p = map (make_patch nodes order)
      (filter (\<lambda>i. \<not> links_right nodes order i) [0..<length order])"
    "plan_map_index p = k"
    "plan_speculative_count p = length (filter (\<lambda>p. \<not> patch_checksum_corroborated p) (plan_patches p))"
    "plan_corroborated_count p = length (filter patch_checksum_corroborated (plan_patches p))"
    by (auto simp: empty_plan_def)
  have run: "(code, plan) = (0, p\<lparr>plan_automatic_safe := plan_patches p \<noteq> [] \<and>
      plan_speculative_count p = 0 \<and> map_confidence ?m \<ge> 90,
      plan_manual_allowed := plan_patches p \<noteq> [] \<and>
      map_confidence ?m \<ge> 90 \<and> map_conflicts ?m = 0 \<and> map_overlaps ?m = 0\<rparr>)"
    using assms(1,3) p(1)
    by (simp add: apa_forensic_build_repair_plan_def plan_ready_def Let_def nodes_def order_def)
  show "code = 0" using run by simp
  show "plan_patches plan = map (make_patch nodes order)
      (filter (\<lambda>i. \<not> links_right nodes order i) [0..<length order])"
    using run p(2) by simp
  show "plan_map_index plan = k" using run p(3) by simp
  show "plan_automatic_safe plan \<longrightarrow> (\<forall>p \<in> set (plan_patches plan). patch_checksum_corroborated p)"
    using run p(4) by (auto simp: filter_empty_conv)
  show "plan_manual_allowed plan \<longleftrightarrow> plan_patches plan \<noteq> [] \<and> 90 \<le> map_confidence ?m \<and>
      map_conflicts ?m = 0 \<and> map_overlaps ?m = 0"
    using run by simp
  show "plan_corroborated_count plan + plan_speculative_count plan = length (plan_patches plan)"
    using run p(4,5) sum_length_filter_compl [of patch_checksum_corroborated "plan_patches p"] by simp
qed

text \<open>The links of a node once a plan's patches are applied: those of its patch, if it has one.\<close>

definition planned_links :: "apa_forensic_repair_plan \<Rightarrow> apa_forensic_node list \<Rightarrow> nat \<Rightarrow> u32 \<times> u32" where
  "planned_links plan nodes i =
    (case find (\<lambda>p. patch_node_index p = i) (plan_patches plan) of
       Some p \<Rightarrow> (patch_new_prev p, patch_new_next p)
     | None \<Rightarrow> (node_prev (nodes ! i), node_next (nodes ! i)))"

lemma planned_links_desired:
  assumes patches: "plan_patches plan = map (make_patch nodes order)
      (filter (\<lambda>i. \<not> links_right nodes order i) [0..<length order])"
    and dist: "distinct order" and i: "i < length order"
  shows "planned_links plan nodes (order ! i) = (desired_prev nodes order i, desired_next nodes order i)"
proof -
  have idx: "patch_node_index (make_patch nodes order j) = order ! j" for j
    by (simp add: make_patch_def Let_def)
  have same: "order ! j = order ! i \<longleftrightarrow> j = i" if "j < length order" for j
    using dist i that by (simp add: nth_eq_iff_index_eq)
  show ?thesis
  proof (cases "find (\<lambda>p. patch_node_index p = order ! i) (plan_patches plan)")
    case None
    then have "links_right nodes order i"
      using i by (auto simp: patches find_None_iff idx)
    then show ?thesis using None by (simp add: planned_links_def links_right_def)
  next
    case (Some p)
    then have "p \<in> set (plan_patches plan)" "patch_node_index p = order ! i"
      by (auto simp: find_Some_iff in_set_conv_nth)
    then have "p = make_patch nodes order i"
      using same by (auto simp: patches idx)
    then show ?thesis using Some by (simp add: planned_links_def make_patch_def Let_def)
  qed
qed

text \<open>The desired links of an order that begins at sector 0 are one ring.\<close>

lemma desired_ring:
  assumes "2 \<le> length order" and "node_lba (nodes ! (order ! 0)) = 0" and "i < length order"
  shows "desired_next nodes order i = node_lba (nodes ! (order ! (Suc i mod length order)))"
    and "desired_prev nodes order (Suc i mod length order) = node_lba (nodes ! (order ! i))"
proof -
  show "desired_next nodes order i = node_lba (nodes ! (order ! (Suc i mod length order)))"
    using assms by (cases "Suc i = length order") (auto simp: desired_next_def)
  show "desired_prev nodes order (Suc i mod length order) = node_lba (nodes ! (order ! i))"
  proof (cases "Suc i = length order")
    case True
    then have "length order - 1 = i" by simp
    then show ?thesis using True assms by (simp add: desired_prev_def)
  next
    case False
    then have "Suc i mod length order = Suc i" using assms(3) by simp
    then show ?thesis using assms(2) by (cases i) (simp_all add: desired_prev_def)
  qed
qed

section \<open>Properties\<close>

text \<open>
  When the plan of a repairable map without repetition is applied, the members of
  the map form one ring: following \<open>next\<close> visits them in the map's order and returns to the
  master, and every \<open>prev\<close> points back, whatever the links were before; the plan has a patch
  for no other node, and is marked automatic only if the stored checksum confirms every patch.
\<close>

theorem plan_restores_ring:
  assumes "plan_ready result k" and "map_ok result (scan_maps result ! k)"
    and "distinct (map_order (scan_maps result ! k))"
    and "apa_forensic_build_repair_plan result k plan0 = (code, plan)"
  shows "code = 0 \<and>
    (let nodes = scan_nodes result; order = map_order (scan_maps result ! k); n = length order in
     (\<forall>i<n. snd (planned_links plan nodes (order ! i)) = node_lba (nodes ! (order ! (Suc i mod n))) \<and>
       fst (planned_links plan nodes (order ! (Suc i mod n))) = node_lba (nodes ! (order ! i))) \<and>
     (\<forall>p \<in> set (plan_patches plan). patch_node_index p \<in> set order) \<and>
     (plan_automatic_safe plan \<longrightarrow> (\<forall>p \<in> set (plan_patches plan). patch_checksum_corroborated p)))"
proof -
  let ?nodes = "scan_nodes result"
  let ?order = "map_order (scan_maps result ! k)"
  let ?n = "length ?order"
  have len: "?n \<le> 2048" and two: "2 \<le> ?n" and master: "node_lba (?nodes ! hd ?order) = 0"
    using assms(1,2) by (auto simp: map_ok_def plan_ready_def)
  have first: "node_lba (?nodes ! (?order ! 0)) = 0"
    using master two by (cases ?order) auto
  note plan = plan_patches_eq [OF assms(1) len assms(4)]
  note links = planned_links_desired [OF plan(2) assms(3)]
  have "snd (planned_links plan ?nodes (?order ! i)) = node_lba (?nodes ! (?order ! (Suc i mod ?n))) \<and>
      fst (planned_links plan ?nodes (?order ! (Suc i mod ?n))) = node_lba (?nodes ! (?order ! i))"
    if i: "i < ?n" for i
  proof -
    have "0 < ?n" using two by linarith
    then have "Suc i mod ?n < ?n" by simp
    then show ?thesis using links [OF i] links desired_ring [OF two first i] by simp
  qed
  moreover have "\<forall>p \<in> set (plan_patches plan). patch_node_index p \<in> set ?order"
    by (auto simp: plan(2) make_patch_def Let_def)
  ultimately show ?thesis using plan(1,4) by (simp add: Let_def)
qed

definition broken_chain :: apa_forensic_result where
  "broken_chain = (empty_result 0x100000)
    \<lparr>scan_nodes := [plain_node 0 8 16, plain_node 8 16 0, plain_node 16 0 4],
     scan_maps := [(empty_map APA_FORENSIC_MAP_FORWARD)
       \<lparr>map_order := [0, 1, 2], map_confidence := 98, map_repairable := True\<rparr>]\<rparr>"

theorem plan_restores_ring_witness:
  "fst (planned_links (snd (apa_forensic_build_repair_plan broken_chain 0 (empty_plan 0 0)))
    (scan_nodes broken_chain) 2) = 8"
proof -
  have "plan_ready broken_chain 0"
    by (simp add: plan_ready_def broken_chain_def empty_result_def)
  moreover have "map_ok broken_chain (scan_maps broken_chain ! 0)"
    by (auto simp: map_ok_def broken_chain_def empty_result_def empty_map_def plain_node_def
        writable_evidence_def)
  moreover have "distinct (map_order (scan_maps broken_chain ! 0))"
    by (simp add: broken_chain_def)
  moreover obtain code plan where run:
      "apa_forensic_build_repair_plan broken_chain 0 (empty_plan 0 0) = (code, plan)"
    by (cases "apa_forensic_build_repair_plan broken_chain 0 (empty_plan 0 0)")
  ultimately have "\<forall>i<3. fst (planned_links plan (scan_nodes broken_chain)
      ([0, 1, 2] ! (Suc i mod 3))) = node_lba (scan_nodes broken_chain ! ([0, 1, 2] ! i))"
    using plan_restores_ring [OF _ _ _ run] by (auto simp: Let_def broken_chain_def)
  from this [THEN spec, of 1]
  have "fst (planned_links plan (scan_nodes broken_chain) 2) = node_lba (scan_nodes broken_chain ! 1)"
    by simp
  moreover have "node_lba (scan_nodes broken_chain ! 1) = 8"
    by (simp add: broken_chain_def plain_node_def)
  ultimately show ?thesis by (simp only: run snd_conv)
qed

text \<open>
  A patched header is the scanned header with the planned links and a consistent
  checksum: apart from the checksum word and the two links every byte is kept, and the checksum
  word itself is kept exactly when the stored checksum corroborates the patch.
\<close>

theorem patched_header_faithful:
  assumes "apa_forensic_build_patched_header result patch buffer = (0, h')"
    and "node_ok tot (scan_nodes result ! patch_node_index patch)"
    and "length (node_header (scan_nodes result ! patch_node_index patch)) = APA_HEADER_SIZE"
  shows "let node = scan_nodes result ! patch_node_index patch; h = node_header node in
    length h' = APA_HEADER_SIZE \<and> read_le32 h' 0 = apa_checksum h' \<and>
    read_le32 h' APA_NEXT_OFFSET = patch_new_next patch \<and>
    read_le32 h' APA_PREV_OFFSET = patch_new_prev patch \<and>
    (\<forall>i \<in> {4..<8} \<union> {16..<APA_HEADER_SIZE}. h' ! i = h ! i) \<and>
    (read_le32 h' 0 = read_le32 h 0 \<longleftrightarrow>
      patch_checksum_test node (patch_new_next patch) (patch_new_prev patch))"
proof -
  let ?node = "scan_nodes result ! patch_node_index patch"
  note p = patched_header_ok [OF assms(1,3)]
  have "read_le32 h' 0 = read_le32 (node_header ?node) 0 \<longleftrightarrow>
      patch_checksum_test ?node (patch_new_next patch) (patch_new_prev patch)"
    using assms(2) p(2,6) by (simp add: patch_checksum_test_def node_ok_def Let_def)
  then show ?thesis using p(1-5) by (auto simp: Let_def)
qed

definition zero_node :: apa_forensic_node where
  "zero_node = node_of_header (replicate 1024 0) 0 0 0x06 0"

lemma zero_checksum: "apa_checksum (replicate 1024 0) = 0"
  unfolding apa_checksum_sum by (rule sum.neutral) (auto intro: read_zero32)

theorem patched_header_faithful_witness:
  "let result = (empty_result 0x100000)\<lparr>scan_nodes := [zero_node]\<rparr>;
       patch = \<lparr>patch_node_index = 0, patch_lba = 0, patch_old_next = 0, patch_old_prev = 0,
         patch_new_next = 8, patch_new_prev = 16, patch_checksum_corroborated = False\<rparr> in
    read_le32 (snd (apa_forensic_build_patched_header result patch [])) APA_NEXT_OFFSET = 8"
proof -
  let ?result = "(empty_result 0x100000)\<lparr>scan_nodes := [zero_node]\<rparr>"
  let ?patch = "\<lparr>patch_node_index = 0, patch_lba = 0, patch_old_next = 0, patch_old_prev = 0,
    patch_new_next = 8, patch_new_prev = 16, patch_checksum_corroborated = False\<rparr>"
  have zero: "read_le32 (replicate 1024 0) off = 0" if "off + 4 \<le> 1024" for off
    using that by (rule read_zero32)
  have run: "apa_forensic_build_patched_header ?result ?patch [] =
      (0, snd (apa_forensic_build_patched_header ?result ?patch []))"
    by (simp add: apa_forensic_build_patched_header_def Let_def zero_node_def node_of_header_def zero)
  have "hd (replicate 4 (0 :: byte)) \<noteq> hd apa_magic" by (simp add: apa_magic_def)
  then have "replicate 4 0 \<noteq> apa_magic" by metis
  then have magic: "bytes_at 4 4 (replicate 1024 0) \<noteq> apa_magic"
    by (simp add: bytes_at_replicate)
  have bits: "\<not> bit (6 :: u32) 0" "bit (6 :: u32) 1" "bit (6 :: u32) 2" "\<not> bit (6 :: u32) 3"
    by simp_all
  have "node_ok 0x100000 zero_node"
    using magic bits
    by (simp add: node_ok_def zero_node_def node_of_header_def Let_def zero zero_checksum)
  then show ?thesis
    using patched_header_faithful [OF run, of "0x100000"]
    by (simp add: Let_def zero_node_def node_of_header_def)
qed

text \<open>
  The bit distance of a patch is the number of link bits that it flips, in both
  links together.
\<close>

theorem patch_bit_distance_exact:
  "apa_forensic_patch_bit_distance patch =
    card {k. bit (patch_old_next patch XOR patch_new_next patch) k} +
    card {k. bit (patch_old_prev patch XOR patch_new_prev patch) k}"
  by (rule bit_distance_card)

section \<open>A map that lists the master twice\<close>

definition lonely_master :: apa_forensic_result where
  "lonely_master = (empty_result 0x100000)\<lparr>scan_nodes := [plain_node 0 0 0x1234]\<rparr>"

lemma lonely_index: "index_ok (scan_nodes lonely_master) [0]"
  by (auto simp: index_ok_def lonely_master_def)

lemma lonely_lookup: "find_node (scan_nodes lonely_master) [0] 0x1234 = None"
    "find_node (scan_nodes lonely_master) [0] 0 = Some 0"
  by (simp_all add: find_node_None [OF lonely_index] find_node_iff [OF lonely_index])
    (simp_all add: lonely_master_def plain_node_def)

lemma lonely_reverse: "build_reverse_map (scan_nodes lonely_master) [0] =
    (empty_map APA_FORENSIC_MAP_REVERSE)\<lparr>map_order := [0, 0]\<rparr>"
proof -
  have node: "scan_nodes lonely_master = [plain_node 0 0 0x1234]" by (simp add: lonely_master_def)
  have sets: "\<not> node_set_contains node_set_empty 0"
    "node_set_contains (node_set_add node_set_empty 0) 0"
    using nodes.contains_empty [of 0] nodes.contains_add [OF nodes.good_empty, of 0 0] by simp_all
  have links: "unique_link_candidate (scan_nodes lonely_master) node_set_empty 0 False = Some 0"
    "unique_link_candidate (scan_nodes lonely_master) (node_set_add node_set_empty 0) 0 False = None"
    using sets by (simp_all add: unique_link_candidate_def node plain_node_def)
  have prev: "node_prev (scan_nodes lonely_master ! 0) = 0x1234"
    and lba: "node_lba (scan_nodes lonely_master ! 0) = 0" by (simp_all add: node plain_node_def)
  have "reverse_loop (scan_nodes lonely_master) [0] None xs s = xs" for xs s
    by (simp add: reverse_loop.simps)
  then have loop: "reverse_loop (scan_nodes lonely_master) [0] (Some 0) [] node_set_empty = [0]"
    using sets links by (subst reverse_loop.simps) (simp add: prev lba lonely_lookup Let_def)
  show ?thesis
    by (simp add: build_reverse_map_def lonely_lookup prev links(1) loop Let_def
        reverse_indices_def)
qed

lemma lonely_step: "evaluate_step (scan_nodes lonely_master) [0] [0, 0] i (m, k) =
    (map_inferred_links_update Suc m, k)" if "i < 2"
proof -
  let ?node = "plain_node 0 0 0x1234"
  have node: "scan_nodes lonely_master ! 0 = ?node" by (simp add: lonely_master_def)
  have f: "node_lba ?node = 0" "node_next ?node = 0" "node_prev ?node = 0x1234"
    "node_confidence ?node = 100" by (simp_all add: plain_node_def)
  have at: "[0, 0 :: nat] ! i = 0" "i + 1 < 2 \<Longrightarrow> [0, 0 :: nat] ! (i + 1) = 0" "i = 0 \<or> i = 1"
    using that by (auto simp: less_2_cases_iff)
  have links: "evaluate_link (scan_nodes lonely_master) [0] 0 0 m = m"
    "evaluate_link (scan_nodes lonely_master) [0] 0x1234 0 m = map_inferred_links_update Suc m" for m
    by (simp_all add: evaluate_link_def lonely_lookup)
  have "desired_prev (scan_nodes lonely_master) [0, 0] i = 0"
    "desired_next (scan_nodes lonely_master) [0, 0] i = 0"
    using at(3) by (auto simp: desired_prev_def desired_next_def node f)
  then show ?thesis
    using at by (auto simp: evaluate_step_def node f links Let_def)
qed

lemma lonely_map: "evaluate_map lonely_master [0] (build_reverse_map (scan_nodes lonely_master) [0]) =
    (empty_map APA_FORENSIC_MAP_REVERSE)\<lparr>map_order := [0, 0], map_inferred_links := 2,
      map_confidence := 96, map_repairable := True\<rparr>"
proof -
  have master: "node_lba (scan_nodes lonely_master ! 0) = 0"
    "writable_evidence (scan_nodes lonely_master ! 0)"
    "length (filter (\<lambda>node. node_confidence node \<ge> 60 \<and>
      node_evidence node AND EVIDENCE_DORMANT_FREE = 0) (scan_nodes lonely_master)) \<le> 1"
    "\<not> scan_truncated lonely_master"
    by (simp_all add: lonely_master_def plain_node_def writable_evidence_def empty_result_def)
  show ?thesis
    unfolding lonely_reverse evaluate_map_def Let_def using master
    by (simp add: empty_map_def clamp_confidence_def lonely_step)
qed

text \<open>
  Property C29 (a defect): the reverse map can list the master twice, because the master is not
  excluded from the search for a node that links to sector 0.  A master whose \<open>next\<close> is 0 and
  whose \<open>prev\<close> is damaged then yields a repairable map of two entries, and a plan that is
  allowed for manual repair and patches sector 0 twice.
\<close>

theorem reverse_map_master_twice:
  "let m = evaluate_map lonely_master [0] (build_reverse_map (scan_nodes lonely_master) [0]);
       plan = snd (apa_forensic_build_repair_plan (lonely_master\<lparr>scan_maps := [m]\<rparr>) 0
         (empty_plan 0 0)) in
    index_ok (scan_nodes lonely_master) [0] \<and> map_order m = [0, 0] \<and> map_repairable m \<and>
    plan_manual_allowed plan \<and> map patch_lba (plan_patches plan) = [0, 0]"
proof -
  let ?m = "evaluate_map lonely_master [0] (build_reverse_map (scan_nodes lonely_master) [0])"
  let ?r = "lonely_master\<lparr>scan_maps := [?m]\<rparr>"
  let ?plan = "snd (apa_forensic_build_repair_plan ?r 0 (empty_plan 0 0))"
  have node: "scan_nodes lonely_master = [plain_node 0 0 0x1234]"
    "scan_truncated lonely_master = False" by (simp_all add: lonely_master_def empty_result_def)
  have order: "map_order ?m = [0, 0]"
    and facts: "map_repairable ?m" "90 \<le> map_confidence ?m" "map_conflicts ?m = 0"
      "map_overlaps ?m = 0"
    by (simp_all add: lonely_map empty_map_def)
  obtain code where run: "apa_forensic_build_repair_plan ?r 0 (empty_plan 0 0) = (code, ?plan)"
    by (rule that [of "fst (apa_forensic_build_repair_plan ?r 0 (empty_plan 0 0))"]) simp
  have maps: "scan_maps ?r ! 0 = ?m" "length (scan_maps ?r) = 1" "scan_nodes ?r = [plain_node 0 0 0x1234]"
    "scan_truncated ?r = False" by (simp_all add: node)
  have ready: "plan_ready ?r 0"
    unfolding plan_ready_def maps using facts(1) by simp
  have len: "length (map_order (scan_maps ?r ! 0)) \<le> APA_FORENSIC_MAX_NODES"
    unfolding maps order by simp
  note plan = plan_patches_eq [OF ready len run, unfolded maps order]
  have patches: "map patch_lba (plan_patches ?plan) = [0, 0]"
    unfolding plan(2)
    by (simp add: links_right_def desired_prev_def make_patch_def Let_def plain_node_def)
  then have "plan_patches ?plan \<noteq> []" by force
  then have "plan_manual_allowed ?plan"
    unfolding plan(5) using facts by simp
  then show ?thesis
    unfolding Let_def using patches order facts(1) lonely_index by blast
qed

end
