(* ===== verification/ForensicSnapshot.thy ===== *)
theory ForensicSnapshot
  imports Backups ForensicPlan Sha256_Correct
begin

text \<open>
  The snapshot taken before a forensic repair: \<open>src/forensic_snapshot.c\<close>.  One file keeps every
  header the plan touches, sealed with a digest.  The lemmas show what the image consists of, and
  that a reported snapshot is on the device, whole, without any existing file having been damaged.
\<close>

abbreviation (input) FORENSIC_SNAPSHOT_INVALID_ARGUMENT :: int where
  "FORENSIC_SNAPSHOT_INVALID_ARGUMENT \<equiv> - 360"
abbreviation (input) FORENSIC_SNAPSHOT_ALLOC_FAILED :: int where "FORENSIC_SNAPSHOT_ALLOC_FAILED \<equiv> - 361"
abbreviation (input) FORENSIC_SNAPSHOT_NO_SLOT :: int where "FORENSIC_SNAPSHOT_NO_SLOT \<equiv> - 362"
abbreviation (input) FORENSIC_SNAPSHOT_WRITE_FAILED :: int where "FORENSIC_SNAPSHOT_WRITE_FAILED \<equiv> - 363"
abbreviation (input) FORENSIC_SNAPSHOT_VERIFY_FAILED :: int where
  "FORENSIC_SNAPSHOT_VERIFY_FAILED \<equiv> - 364"
abbreviation (input) FORENSIC_SNAPSHOT_PATH_SIZE :: nat where "FORENSIC_SNAPSHOT_PATH_SIZE \<equiv> 64"
abbreviation (input) FORENSIC_SNAPSHOT_VERSION :: u32 where "FORENSIC_SNAPSHOT_VERSION \<equiv> 1"
abbreviation (input) SNAPSHOT_HEADER_BYTES :: nat where "SNAPSHOT_HEADER_BYTES \<equiv> 64"
abbreviation (input) SNAPSHOT_ENTRY_BYTES :: nat where "SNAPSHOT_ENTRY_BYTES \<equiv> 4 + 32 + 1024"
abbreviation (input) SNAPSHOT_TRAILER_BYTES :: nat where "SNAPSHOT_TRAILER_BYTES \<equiv> 32"

definition snapshot_magic :: "byte list" where "snapshot_magic = ascii ''APAMETA1''"

definition forensic_snapshot_names :: "byte list list" where
  "forensic_snapshot_names = [ascii ''HDDMETA.BIN'', ascii ''HDDMETA2.BIN'']"

abbreviation fail_forensic_snapshot :: "int \<Rightarrow> string \<Rightarrow> 'f file_world \<Rightarrow> (int + 'a) \<times> 'f file_world"
  where "fail_forensic_snapshot \<equiv> fail_snapshot APP_ERROR_DOMAIN_FORENSIC_SNAPSHOT"

section \<open>The img\<close>

definition small_bit_count :: "apa_forensic_patch list \<Rightarrow> nat" where
  "small_bit_count patches = length (filter
    (\<lambda>p. apa_forensic_patch_bit_distance p = 1 \<or> apa_forensic_patch_bit_distance p = 2) patches)"

definition snapshot_header ::
    "apa_forensic_result \<Rightarrow> apa_forensic_repair_plan \<Rightarrow> byte list \<Rightarrow> byte list" where
  "snapshot_header result plan img =
    write_le32 36 (of_nat (small_bit_count (plan_patches plan)))
    (write_le32 32 (of_nat (plan_speculative_count plan))
    (write_le32 28 (of_nat (plan_corroborated_count plan))
    (write_le32 24 (of_nat (length (plan_patches plan)))
    (write_le32 20 (of_nat (plan_confidence plan))
    (write_le32 16 (of_nat (plan_map_index plan))
    (write_le32 12 (scan_total_sectors result)
    (write_le32 8 FORENSIC_SNAPSHOT_VERSION (blit 0 snapshot_magic img))))))))"

text \<open>The entries from an offset on; a patch that does not fit the scan gives the failing step.\<close>

fun snapshot_entries ::
    "apa_forensic_node list \<Rightarrow> apa_forensic_patch list \<Rightarrow> nat \<Rightarrow> byte list \<Rightarrow> string + byte list" where
  "snapshot_entries nodes [] offset img = Inr img"
| "snapshot_entries nodes (patch # patches) offset img =
    (if patch_node_index patch \<ge> length nodes then Inl ''resolve patch node for HDDMETA''
     else let node = nodes ! patch_node_index patch in
       if node_lba node \<noteq> patch_lba patch then Inl ''match patch LBA to scanned node''
       else snapshot_entries nodes patches (offset + SNAPSHOT_ENTRY_BYTES)
         (blit (offset + 36) (take 1024 (node_header node))
         (blit (offset + 4) (sha256_buffer (take 1024 (node_header node)))
         (write_le32 offset (patch_lba patch) img))))"

definition build_snapshot_image ::
    "'f platform \<Rightarrow> apa_forensic_result \<Rightarrow> apa_forensic_repair_plan \<Rightarrow> 'f file_world \<Rightarrow>
      (int + byte list) \<times> 'f file_world" where
  "build_snapshot_image api result plan w =
    (let count = length (plan_patches plan) in
     if count = 0 \<or> count > APA_FORENSIC_MAX_PATCHES
     then fail_forensic_snapshot FORENSIC_SNAPSHOT_INVALID_ARGUMENT ''validate forensic patch count'' w
     else if count > (0xffffffff - SNAPSHOT_HEADER_BYTES - SNAPSHOT_TRAILER_BYTES) div SNAPSHOT_ENTRY_BYTES
     then fail_forensic_snapshot FORENSIC_SNAPSHOT_INVALID_ARGUMENT ''validate HDDMETA image size'' w
     else let nbytes = SNAPSHOT_HEADER_BYTES + count * SNAPSHOT_ENTRY_BYTES + SNAPSHOT_TRAILER_BYTES;
              (ok, w1) = heap_alloc api nbytes w in
       if \<not> ok then fail_forensic_snapshot FORENSIC_SNAPSHOT_ALLOC_FAILED ''allocate HDDMETA image'' w1
       else (case snapshot_entries (scan_nodes result) (plan_patches plan) SNAPSHOT_HEADER_BYTES
               (snapshot_header result plan (replicate nbytes 0)) of
           Inl stage \<Rightarrow> fail_forensic_snapshot FORENSIC_SNAPSHOT_INVALID_ARGUMENT stage w1
         | Inr img \<Rightarrow>
             (Inr (blit (nbytes - SNAPSHOT_TRAILER_BYTES)
               (sha256_buffer (take (nbytes - SNAPSHOT_TRAILER_BYTES) img)) img), w1)))"

section \<open>Saving\<close>

fun forensic_snapshot_slots ::
    "'f platform \<Rightarrow> nat \<Rightarrow> byte list \<Rightarrow> byte list list \<Rightarrow> 'f file_world \<Rightarrow>
      (int + path) \<times> 'f file_world" where
  "forensic_snapshot_slots api storage img [] w =
    fail_forensic_snapshot FORENSIC_SNAPSHOT_NO_SLOT ''select non-overwriting HDDMETA slot'' w"
| "forensic_snapshot_slots api storage img (name # names) w =
    (let p = storage_path FORENSIC_SNAPSHOT_PATH_SIZE storage name;
         (r, st, w1) = fileXioGetStat api p w in
     if r \<ge> 0
     then let (same, w2) = (if st_size st = of_nat (length img)
            then file_holds api p (\<lambda>_. True) img w1 else (False, w1)) in
       if same then (Inr (print_into FORENSIC_SNAPSHOT_PATH_SIZE p), w2)
       else forensic_snapshot_slots api storage img names w2
     else let (written, w2) = write_whole_file api p img w1 in
       if written < 0
       then fail_forensic_snapshot FORENSIC_SNAPSHOT_WRITE_FAILED ''write HDDMETA snapshot'' w2
       else let (same, w3) = file_holds api p (\<lambda>_. True) img w2 in
         if \<not> same
         then fail_forensic_snapshot FORENSIC_SNAPSHOT_VERIFY_FAILED ''read back/compare HDDMETA snapshot'' w3
         else (Inr (print_into FORENSIC_SNAPSHOT_PATH_SIZE p), w3))"

definition forensic_snapshot_save ::
    "'f platform \<Rightarrow> nat \<Rightarrow> apa_forensic_result \<Rightarrow> apa_forensic_repair_plan \<Rightarrow> 'f file_world \<Rightarrow>
      (int + path) \<times> 'f file_world" where
  "forensic_snapshot_save api storage result plan w =
    (if storage \<ge> STORAGE_TARGET_COUNT
     then fail_forensic_snapshot FORENSIC_SNAPSHOT_INVALID_ARGUMENT ''validate HDDMETA snapshot arguments'' w
     else let (built, w1) = build_snapshot_image api result plan w in
       (case built of
          Inl code \<Rightarrow> (Inl code, w1)
        | Inr img \<Rightarrow>
            let (ok, w2) = heap_alloc api (length img) w1 in
            if \<not> ok
            then fail_forensic_snapshot FORENSIC_SNAPSHOT_ALLOC_FAILED
              ''allocate HDDMETA read-back buffer'' w2
            else forensic_snapshot_slots api storage img forensic_snapshot_names w2))"

section \<open>What the image consists of\<close>

text \<open>The entry of one patch at an offset of an image: sector, digest and whole header of its node.\<close>

definition snapshot_entry_ok ::
    "apa_forensic_node list \<Rightarrow> apa_forensic_patch \<Rightarrow> nat \<Rightarrow> byte list \<Rightarrow> bool" where
  "snapshot_entry_ok nodes patch offset img \<longleftrightarrow>
    patch_node_index patch < length nodes \<and>
    (let node = nodes ! patch_node_index patch in
     node_lba node = patch_lba patch \<and> read_le32 img offset = patch_lba patch \<and>
     bytes_at (offset + 4) 32 img = sha256_spec (node_header node) \<and>
     bytes_at (offset + 36) 1024 img = node_header node)"

definition snapshot_image_ok ::
    "apa_forensic_result \<Rightarrow> apa_forensic_repair_plan \<Rightarrow> byte list \<Rightarrow> bool" where
  "snapshot_image_ok result plan img \<longleftrightarrow>
    (let n = length (plan_patches plan) in
     0 < n \<and> length img = 64 + n * 1060 + 32 \<and>
     bytes_at 0 8 img = snapshot_magic \<and> read_le32 img 8 = FORENSIC_SNAPSHOT_VERSION \<and>
     read_le32 img 12 = scan_total_sectors result \<and> read_le32 img 24 = of_nat n \<and>
     (\<forall>i < n. snapshot_entry_ok (scan_nodes result) (plan_patches plan ! i) (64 + i * 1060) img) \<and>
     bytes_at (length img - 32) 32 img = sha256_spec (take (length img - 32) img))"

lemma snapshot_entry_cong:
  "bytes_at offset 1060 img = bytes_at offset 1060 img' \<Longrightarrow>
    snapshot_entry_ok nodes patch offset img = snapshot_entry_ok nodes patch offset img'"
proof -
  assume eq: "bytes_at offset 1060 img = bytes_at offset 1060 img'"
  have sub: "bytes_at (offset + k) m img = bytes_at (offset + k) m img'" if "k + m \<le> 1060" for k m
  proof -
    have "bytes_at k m (bytes_at offset 1060 img) = bytes_at (offset + k) m img"
      "bytes_at k m (bytes_at offset 1060 img') = bytes_at (offset + k) m img'"
      using that by (auto simp: bytes_at_bytes_at min_def)
    then show ?thesis using eq by simp
  qed
  then have "read_le32 img offset = read_le32 img' offset"
    using le32.rd_cong [of offset img img'] sub [of 0 4] by simp
  then show ?thesis using sub [of 4 32] sub [of 36 1024] by (simp add: snapshot_entry_ok_def Let_def)
qed

lemma snapshot_entries_ok:
  assumes "snapshot_entries nodes patches offset img = Inr img'"
    and "\<forall>node \<in> set nodes. length (node_header node) = 1024"
    and "offset + length patches * 1060 \<le> length img"
  shows "length img' = length img \<and>
    (\<forall>a m. a + m \<le> offset \<or> offset + length patches * 1060 \<le> a \<longrightarrow> bytes_at a m img' = bytes_at a m img) \<and>
    (\<forall>i < length patches. snapshot_entry_ok nodes (patches ! i) (offset + i * 1060) img')"
  using assms(1,3)
proof (induction patches arbitrary: offset img)
  case (Cons patch patches)
  define node where "node = nodes ! patch_node_index patch"
  define img1 where "img1 = blit (offset + 36) (take 1024 (node_header node))
    (blit (offset + 4) (sha256_buffer (take 1024 (node_header node))) (write_le32 offset (patch_lba patch) img))"
  have k: "patch_node_index patch < length nodes" "node_lba node = patch_lba patch"
    and rest: "snapshot_entries nodes patches (offset + 1060) img1 = Inr img'"
    using Cons.prems(1) by (auto simp: node_def img1_def Let_def split: if_splits)
  have h: "length (node_header node) = 1024" using assms(2) k(1) by (simp add: node_def)
  have len: "length img1 = length img" by (simp add: img1_def)
  have "offset + 1060 + length patches * 1060 \<le> length img1" using Cons.prems(2) len by simp
  from Cons.IH [OF rest this] have ih: "length img' = length img"
    "\<And>a m. a + m \<le> offset + 1060 \<or> offset + 1060 + length patches * 1060 \<le> a \<Longrightarrow>
      bytes_at a m img' = bytes_at a m img1"
    "\<And>i. i < length patches \<Longrightarrow> snapshot_entry_ok nodes (patches ! i) (offset + 1060 + i * 1060) img'"
    using len by auto
  have sha: "length (sha256_buffer (node_header node)) = 32" by simp
  have out: "bytes_at a m img1 = bytes_at a m img" if "a + m \<le> offset \<or> offset + 1060 \<le> a" for a m
    using that h sha unfolding img1_def writes_def
    by (auto simp: bytes_at_blit_out)
  have entry: "snapshot_entry_ok nodes patch offset img1"
    using k h sha Cons.prems(2) unfolding snapshot_entry_ok_def Let_def node_def [symmetric] img1_def writes_def
    by (simp add: buf_simps sha256_buffer_spec)
  have "snapshot_entry_ok nodes patch offset img'"
    using entry snapshot_entry_cong [of offset img' img1] ih(2) [of offset 1060] by simp
  then have entries: "snapshot_entry_ok nodes ((patch # patches) ! i) (offset + i * 1060) img'"
    if "i < length (patch # patches)" for i
    using that ih(3) by (cases i) (auto simp: algebra_simps)
  have "bytes_at a m img' = bytes_at a m img"
    if "a + m \<le> offset \<or> offset + length (patch # patches) * 1060 \<le> a" for a m
    using that ih(2) [of a m] out [of a m] by (auto simp: algebra_simps)
  then show ?case using ih(1) entries by blast
qed auto

lemma snapshot_header_fields:
  assumes "64 \<le> length img"
  shows "length (snapshot_header result plan img) = length img"
    and "bytes_at 0 8 (snapshot_header result plan img) = snapshot_magic"
    and "read_le32 (snapshot_header result plan img) 8 = 1"
    and "read_le32 (snapshot_header result plan img) 12 = scan_total_sectors result"
    and "read_le32 (snapshot_header result plan img) 24 = of_nat (length (plan_patches plan))"
proof -
  have m: "length snapshot_magic = 8" by (simp add: snapshot_magic_def)
  show "length (snapshot_header result plan img) = length img"
    by (simp add: snapshot_header_def)
  show "bytes_at 0 8 (snapshot_header result plan img) = snapshot_magic"
      "read_le32 (snapshot_header result plan img) 8 = 1"
      "read_le32 (snapshot_header result plan img) 12 = scan_total_sectors result"
      "read_le32 (snapshot_header result plan img) 24 = of_nat (length (plan_patches plan))"
    using assms m unfolding snapshot_header_def writes_def by (simp_all add: buf_simps)
qed

lemma build_snapshot_image_ok:
  assumes "build_snapshot_image api result plan w = (Inr img, w')"
    and headers: "\<forall>node \<in> set (scan_nodes result). length (node_header node) = 1024"
  shows "snapshot_image_ok result plan img"
proof -
  define n where "n = length (plan_patches plan)"
  define size where "size = 64 + n * 1060 + 32"
  define img0 where "img0 = snapshot_header result plan (replicate size 0)"
  obtain img1 where n: "0 < n" and entries: "snapshot_entries (scan_nodes result) (plan_patches plan) 64 img0 = Inr img1"
    and img: "img = blit (size - 32) (sha256_buffer (take (size - 32) img1)) img1"
    using assms(1)
    by (auto simp: build_snapshot_image_def Let_def fail_snapshot_def n_def size_def img0_def
        split: if_splits prod.splits sum.splits)
  note head = snapshot_header_fields [of "replicate size 0" result plan, folded img0_def]
  have len0: "length img0 = size" using head(1) by (simp add: size_def)
  have "64 + length (plan_patches plan) * 1060 \<le> length img0" by (simp add: len0 size_def n_def)
  note e = snapshot_entries_ok [OF entries headers this]
  have len: "length img1 = size" "length img = size" using e len0 by (simp_all add: img)
  have keep: "bytes_at a m img = bytes_at a m img1" if "a + m \<le> size - 32" for a m
    unfolding img using that by (rule bytes_at_blit_out [OF disjI1])
  have first: "bytes_at a m img = bytes_at a m img0" if "a + m \<le> 64" for a m
    using keep [of a m] e that by (simp add: size_def)
  have "bytes_at 0 8 img = snapshot_magic" "read_le32 img 8 = 1"
      "read_le32 img 12 = scan_total_sectors result" "read_le32 img 24 = of_nat n"
    using head first [of 0 8] le32.rd_cong [OF first] by (simp_all add: size_def n_def)
  moreover have "snapshot_entry_ok (scan_nodes result) (plan_patches plan ! i) (64 + i * 1060) img"
    if "i < n" for i
  proof -
    have "64 + i * 1060 + 1060 \<le> size - 32" using that by (simp add: size_def)
    then show ?thesis
      using e that snapshot_entry_cong [OF keep [of "64 + i * 1060" 1060]] by (simp add: n_def)
  qed
  moreover have "bytes_at (size - 32) 32 img = sha256_spec (take (size - 32) img)"
  proof -
    have "take (size - 32) img = take (size - 32) img1" using keep [of 0 "size - 32"] by (simp add: bytes_at_def)
    moreover have "bytes_at (size - 32) 32 img = sha256_buffer (take (size - 32) img1)"
      unfolding img by (rule bytes_at_blit_same) (simp_all add: len size_def)
    ultimately show ?thesis by (simp add: sha256_buffer_spec)
  qed
  ultimately show ?thesis
    using n len by (simp add: snapshot_image_ok_def Let_def n_def [symmetric] size_def)
qed

interpretation meta: slot_saver api "storage_path 64 storage" img "length img"
  "forensic_snapshot_slots api storage img" APP_ERROR_DOMAIN_FORENSIC_SNAPSHOT FORENSIC_SNAPSHOT_NO_SLOT
  FORENSIC_SNAPSHOT_WRITE_FAILED FORENSIC_SNAPSHOT_VERIFY_FAILED "''select non-overwriting HDDMETA slot''"
  "''write HDDMETA snapshot''" "''read back/compare HDDMETA snapshot''"
  for api storage img
  by (unfold_locales; unfold forensic_snapshot_slots.simps Let_def storage_path_print; rule refl)

lemma forensic_snapshot_saved:
  assumes "forensic_snapshot_save api storage result plan w = (res, w')"
    and "\<forall>node \<in> set (scan_nodes result). length (node_header node) = 1024"
  shows "careful api w w' \<and>
    (case res of
       Inr p \<Rightarrow> p \<in> storage_path 64 storage ` set forensic_snapshot_names \<and>
         (\<exists>img. snapshot_image_ok result plan img \<and> confirmed api p img w')
     | Inl code \<Rightarrow> code \<in> {- 364 .. - 360})"
proof (cases "storage < STORAGE_TARGET_COUNT")
  case True
  obtain built w1 where b: "build_snapshot_image api result plan w = (built, w1)" by fastforce
  have w1: "careful api w w1"
    using b by (auto simp: build_snapshot_image_def Let_def fail_snapshot_def
        split: if_splits prod.splits sum.splits intro: careful_heap)
  show ?thesis
  proof (cases built)
    case (Inl code)
    then have "code \<in> {- 361, - 360}"
      using b by (auto simp: build_snapshot_image_def Let_def fail_snapshot_def
          split: if_splits prod.splits sum.splits)
    then show ?thesis using assms(1) True b w1 Inl by (auto simp: forensic_snapshot_save_def)
  next
    case (Inr img)
    have ok: "snapshot_image_ok result plan img"
      by (rule build_snapshot_image_ok [OF b [unfolded Inr] assms(2)])
    obtain fine w2 where m: "heap_alloc api (length img) w1 = (fine, w2)" by fastforce
    have w2: "careful api w w2" by (rule careful_trans [OF w1 careful_heap [OF m]])
    show ?thesis
    proof (cases fine)
      case False
      then show ?thesis
        using assms(1) True b Inr m w2 by (auto simp: forensic_snapshot_save_def fail_snapshot_def)
    next
      case fine: True
      then have "forensic_snapshot_slots api storage img forensic_snapshot_names w2 = (res, w')"
        using assms(1) True b Inr m by (simp add: forensic_snapshot_save_def)
      from meta.run_sound [OF this] show ?thesis
        using w2 ok by (auto split: sum.splits intro: careful_trans)
    qed
  qed
qed (use assms in \<open>auto simp: forensic_snapshot_save_def fail_snapshot_def\<close>)

section \<open>Properties\<close>


text \<open>One patch of one scanned header, on an empty file system in memory.\<close>

definition snapshot_scan :: apa_forensic_result where
  "snapshot_scan = \<lparr>scan_total_sectors = 5000, scan_grid_step = 0, scan_grid_reads = 0,
    scan_reference_reads = 0, scan_unreadable_reads = 0, scan_dormant_free_nodes = 0,
    scan_truncated = False, scan_nodes = [\<lparr>node_lba = 7, node_stored_checksum = 0,
      node_calculated_checksum = 0, node_next = 0, node_prev = 0, node_start = 7, node_length = 1,
      node_main = 0, node_nsub = 0, node_number = 0, node_type = 0, node_flags = 0,
      node_evidence = 0, node_confidence = 0, node_id = replicate 32 0,
      node_header = replicate 1024 9\<rparr>], scan_maps = []\<rparr>"

definition snapshot_plan :: apa_forensic_repair_plan where
  "snapshot_plan = \<lparr>plan_map_index = 0, plan_corroborated_count = 0, plan_speculative_count = 1,
    plan_confidence = 50, plan_automatic_safe = False, plan_manual_allowed = True,
    plan_patches = [\<lparr>patch_node_index = 0, patch_lba = 7, patch_old_next = 0, patch_old_prev = 0,
      patch_new_next = 1, patch_new_prev = 0, patch_checksum_corroborated = False\<rparr>]\<rparr>"

lemma snapshot_saves: "\<exists>w'. forensic_snapshot_save memory_platform 2 snapshot_scan snapshot_plan
    (fresh_memory [] 2000) = (Inr (ascii ''mass:/HDDMETA.BIN''), w')"
proof -
  define w where "w = fresh_memory [] 2000"
  obtain img where b: "build_snapshot_image memory_platform snapshot_scan snapshot_plan w = (Inr img, w)"
    by (auto simp: build_snapshot_image_def snapshot_plan_def snapshot_scan_def heap_alloc_def memory_calls Let_def)
  then have len: "length img = 1156"
    using build_snapshot_image_ok [OF b] by (auto simp: snapshot_image_ok_def snapshot_plan_def snapshot_scan_def Let_def)
  then have img: "img \<noteq> []" by auto
  define p where "p = ascii ''mass:/HDDMETA.BIN''"
  have path: "storage_path 64 2 (ascii ''HDDMETA.BIN'') = p" "print_into 64 p = p"
    unfolding p_def by code_simp+
  define v where "v = stepped w (store w) (Stated p (- 2)
    \<lparr>st_mode = 0, st_attr = 0, st_size = 0, st_hisize = 0, st_private_5 = 0\<rparr>)"
  have stat: "fileXioGetStat memory_platform p w = (- 2,
      \<lparr>st_mode = 0, st_attr = 0, st_size = 0, st_hisize = 0, st_private_5 = 0\<rparr>, v)"
    by (simp add: fileXioGetStat_def memory_calls mem_getstat_def w_def fresh_memory_def v_def)
  have "calm (length img) v"
    using calm_fresh [of 1156 2000] by (simp add: v_def w_def len calm_def)
  then obtain w1 where w1: "write_whole_file memory_platform p img v = (0, w1)" "calm (length img) w1"
    "mem_files (store w1) p = Some img" using calm_write img by blast
  then obtain w2 where "read_exact_file memory_platform p (length img) w1 = (Inr img, w2)"
    using calm_read img by blast
  then have holds: "file_holds memory_platform p (\<lambda>_. True) img w1 = (True, w2)"
    by (simp add: file_holds_def)
  show ?thesis
    unfolding w_def [symmetric] p_def [symmetric]
    by (simp add: forensic_snapshot_save_def b heap_alloc_def memory_calls forensic_snapshot_names_def
        path stat w1(1) holds Let_def)
qed


end
