(* ===== verification/PadInput.thy ===== *)
theory PadInput
  imports BootController HddRepair ForensicSnapshot
begin

text \<open>
  Button presses (\<open>src/platform.c\<close>): waiting for one, waiting for the cross that closes a screen, and
  commands to the disk driver outside the transport.  A press is an input of the platform.  The
  lemmas show that waiting changes neither disk nor files.
\<close>

unbundle bit_operations_syntax

abbreviation (input) PAD_SELECT :: u32 where "PAD_SELECT \<equiv> 0x0001"
abbreviation (input) PAD_START :: u32 where "PAD_START \<equiv> 0x0008"
abbreviation (input) PAD_UP :: u32 where "PAD_UP \<equiv> 0x0010"
abbreviation (input) PAD_RIGHT :: u32 where "PAD_RIGHT \<equiv> 0x0020"
abbreviation (input) PAD_DOWN :: u32 where "PAD_DOWN \<equiv> 0x0040"
abbreviation (input) PAD_LEFT :: u32 where "PAD_LEFT \<equiv> 0x0080"

definition pressed :: "u32 \<Rightarrow> u32 \<Rightarrow> bool" where "pressed buttons button \<longleftrightarrow> buttons AND button \<noteq> 0"

partial_function (option) wait_for_press :: "'f platform \<Rightarrow> 'f session \<Rightarrow> (u32 \<times> 'f session) option" where
  "wait_for_press api s =
    (let (buttons, w) = poll_pad api (se_world s); s1 = s\<lparr>se_world := w\<rparr> in
     if buttons \<noteq> 0 then Some (buttons, s1) else wait_for_press api s1)"

partial_function (option) wait_cross :: "'f platform \<Rightarrow> 'f session \<Rightarrow> 'f session option" where
  "wait_cross api s = (case wait_for_press api s of
     None \<Rightarrow> None
   | Some (buttons, s1) \<Rightarrow> if pressed buttons PAD_CROSS then Some s1 else wait_cross api s1)"

text \<open>A result screen with the press that closes it.\<close>

definition show_result :: "'f platform \<Rightarrow> 'f session \<Rightarrow> 'f session option" where
  "show_result api s = wait_cross api (app_ui_wait_to_return s)"

definition devctl_now ::
    "'f platform \<Rightarrow> hdd_command \<Rightarrow> 'f session \<Rightarrow> int \<times> byte list \<times> 'f session" where
  "devctl_now api cmd s =
    (let (r, out, d) = issue_command (fx_hdd api) cmd (disk_view (se_world s)) in
     (r, out, s\<lparr>se_world := after_disk (se_world s) d\<rparr>))"

section \<open>Nothing changes\<close>

definition still :: "'f platform \<Rightarrow> 'f session \<Rightarrow> 'f session \<Rightarrow> bool" where
  "still api s t \<longleftrightarrow> extends undisturbing (se_world s) (se_world t) \<and> careful api (se_world s) (se_world t)"

lemma still_refl [simp, intro]: "still api s s"
  by (simp add: still_def)

lemma still_trans [trans]: "still api s t \<Longrightarrow> still api t u \<Longrightarrow> still api s u"
  by (auto simp: still_def intro: extends_trans careful_trans)

lemma still_world: "still api s t \<Longrightarrow> se_world t = se_world u \<Longrightarrow> still api s u"
  by (simp add: still_def)

lemma still_storage [simp]: "still api s (t\<lparr>se_storage := n\<rparr>) \<longleftrightarrow> still api s t"
  by (simp add: still_def)

lemma still_log [simp]: "still api s (log_items items t) \<longleftrightarrow> still api s t"
  by (simp add: still_def)

lemma still_return [simp]: "still api s (app_ui_wait_to_return t) \<longleftrightarrow> still api s t"
proof -
  have "store (se_world (app_ui_wait_to_return t)) = store (se_world t) \<and>
      trace (se_world (app_ui_wait_to_return t)) = trace (se_world t)"
    by (auto simp: app_ui_wait_to_return_def print_error_details_def Let_def split: option.split prod.split)
  then show ?thesis by (simp add: still_def extends_def careful_def safely_def)
qed

lemma still_poll:
  assumes "poll_pad api w = (b, w')"
  shows "careful api w w'" and "extends undisturbing w w'"
  using assms trace_pad [OF assms]
  by (auto simp: careful_def poll_pad_def file_store.pad_files safely_def extends_same split: prod.splits)

lemma still_press:
  assumes "wait_for_press api s = Some (buttons, t)"
  shows "still api s t \<and> se_storage t = se_storage s"
proof (rule wait_for_press.raw_induct [OF _ assms, of "\<lambda>api s out. still api s (snd out) \<and>
    se_storage (snd out) = se_storage s", unfolded snd_conv])
  fix wait :: "'a platform \<Rightarrow> 'a session \<Rightarrow> (u32 \<times> 'a session) option" and api s out
  assume ih: "\<And>api s out. wait api s = Some out \<Longrightarrow> still api s (snd out) \<and> se_storage (snd out) = se_storage s"
    and run: "(let (buttons, w) = poll_pad api (se_world s); s1 = s\<lparr>se_world := w\<rparr> in
      if buttons \<noteq> 0 then Some (buttons, s1) else wait api s1) = Some out"
  obtain b w where p: "poll_pad api (se_world s) = (b, w)" by fastforce
  have s1: "still api s (s\<lparr>se_world := w\<rparr>)" using still_poll [OF p] by (simp add: still_def)
  show "still api s (snd out) \<and> se_storage (snd out) = se_storage s"
    using run p s1 ih [of api "s\<lparr>se_world := w\<rparr>" out] by (auto simp: Let_def split: if_splits intro: still_trans)
qed

lemma still_cross:
  assumes "wait_cross api s = Some t"
  shows "still api s t \<and> se_storage t = se_storage s"
proof (rule wait_cross.raw_induct [OF _ assms, of "\<lambda>api s t. still api s t \<and> se_storage t = se_storage s"])
  fix wait :: "'a platform \<Rightarrow> 'a session \<Rightarrow> 'a session option" and api s t
  assume ih: "\<And>api s t. wait api s = Some t \<Longrightarrow> still api s t \<and> se_storage t = se_storage s"
    and run: "(case wait_for_press api s of None \<Rightarrow> None
      | Some (buttons, s1) \<Rightarrow> if pressed buttons PAD_CROSS then Some s1 else wait api s1) = Some t"
  then obtain b s1 where p: "wait_for_press api s = Some (b, s1)" by (auto split: option.splits)
  show "still api s t \<and> se_storage t = se_storage s"
    using run p still_press [OF p] ih [of api s1 t] by (auto split: if_splits intro: still_trans)
qed

lemma still_result: "show_result api s = Some t \<Longrightarrow> still api s t"
  using still_trans [of api s "app_ui_wait_to_return s" t] still_cross [of api "app_ui_wait_to_return s" t]
  by (simp add: show_result_def)

lemma still_chord: "ask_chord api chord s = Some (yes, t) \<Longrightarrow> still api s t"
  using ask_facts(1,2) [of api chord s yes t] by (simp add: still_def quiet_def)

lemma still_devctl:
  assumes "devctl_now api cmd s = (r, out, t)" and "asks cmd"
  shows "still api s t \<and> se_storage t = se_storage s"
proof -
  obtain d where d: "issue_command (fx_hdd api) cmd (disk_view (se_world s)) = (r, out, d)"
    and t: "t = s\<lparr>se_world := after_disk (se_world s) d\<rparr>"
    using assms(1) by (auto simp: devctl_now_def split: prod.splits)
  have "events d = [(cmd, r, out)]" using d by (auto simp: issue_command_def disk_view_def split: prod.splits)
  then have "extends undisturbing (se_world s) (se_world t)"
    using assms(2) t undisturbed_disk [of d "[(cmd, r, out)]"] by (simp add: only_def)
  moreover have "careful api (se_world s) (se_world t)"
    using d by (auto simp: t issue_command_def disk_view_def intro!: careful_disk dest: file_store.devctl_files
        split: prod.splits)
  ultimately show ?thesis by (simp add: still_def t)
qed

section \<open>Snapshots\<close>

lemma undisturbed_error [simp]:
  "extends undisturbing w (record_file_error d c st v) \<longleftrightarrow> extends undisturbing w v"
  by (simp add: extends_def)

context slot_saver
begin

lemma undisturbed_run: "run names w = (res, w') \<Longrightarrow> extends undisturbing w w'"
proof (induction names arbitrary: w)
  case (Cons name names)
  define p where "p = path_of name"
  obtain r st w1 where stat: "fileXioGetStat api p w = (r, st, w1)" by (metis prod_cases3)
  obtain same w2 where same: "(if st_size st = of_nat nbytes
      then file_holds api p (\<lambda>_. True) data w1 else (False, w1)) = (same, w2)" by fastforce
  obtain written u2 where wrote: "write_whole_file api p data w1 = (written, u2)" by fastforce
  obtain same' u3 where held: "file_holds api p (\<lambda>_. True) data u2 = (same', u3)" by fastforce
  note w1 = undisturbed_stat [OF stat]
  have w2: "extends undisturbing w w2"
    using w1 same undisturbed_holds [of api p _ data w1 same w2] by (auto split: if_splits intro: extends_trans)
  have u: "extends undisturbing w u2" "extends undisturbing w u3"
    using w1 undisturbed_write_file [OF wrote] undisturbed_holds [OF held] by (blast intro: extends_trans)+
  show ?case
    using Cons.prems Cons.IH w2 u stat same wrote held
    by (auto simp: run_cons Let_def p_def [symmetric] fail_snapshot_def split: if_splits intro: extends_trans)
qed (auto simp: run_nil fail_snapshot_def)

end

lemma still_snapshot:
  assumes "repair_snapshot_save api storage header (se_world s) = (res, w)"
  shows "still api s (s\<lparr>se_world := w\<rparr>)"
proof -
  have "extends undisturbing (se_world s) w"
    using assms raw.undisturbed_run
    by (auto simp: repair_snapshot_save_def fail_snapshot_def split: if_splits)
  then show ?thesis using repair_snapshot_saved [OF assms] by (simp add: still_def)
qed

end
