(* ===== verification/RepairController.thy ===== *)
theory RepairController
  imports PadInput
begin

text \<open>
  Repairing a damaged APA master: \<open>src/repair_controller_ps2.c\<close> and the hook that starts it,
  \<open>src/hdd_recovery_wrap.c\<close>.  The lemmas show that sectors 0 and 1 are only ever written by the
  gated writer, with a header built from an approved plan, after their damaged bytes were confirmed
  in a snapshot and the user held the buttons.
\<close>

unbundle bit_operations_syntax

abbreviation (input) REPAIR_CONTROLLER_NONE :: int where "REPAIR_CONTROLLER_NONE \<equiv> 0"
abbreviation (input) REPAIR_CONTROLLER_REQUEST_DISABLE :: int where "REPAIR_CONTROLLER_REQUEST_DISABLE \<equiv> 1"
abbreviation (input) REPAIR_CONTROLLER_RESTART_REQUIRED :: int where "REPAIR_CONTROLLER_RESTART_REQUIRED \<equiv> 2"
abbreviation (input) REPAIR_CONTROLLER_BLOCKED :: int where "REPAIR_CONTROLLER_BLOCKED \<equiv> - 340"

text \<open>A workflow returns its code, the header buffer and the session.\<close>

type_synonym 'f repair_outcome = "(int \<times> byte list \<times> 'f session) option"

definition returning :: "int \<Rightarrow> byte list \<Rightarrow> 'f session option \<Rightarrow> 'f repair_outcome" where
  "returning code header = map_option (\<lambda>s. (code, header, s))"

definition write_master_now ::
    "'f platform \<Rightarrow> byte list \<Rightarrow> byte list \<Rightarrow> 'f session \<Rightarrow> int \<times> byte list \<times> 'f session" where
  "write_master_now api repaired header s =
    (let (code, h, d) = hdd_repair_write_master_header_verified (fx_hdd api) (Some repaired) (Some header)
         (disk_view (se_world s)) in
     (code, the h, s\<lparr>se_world := after_disk (se_world s) d\<rparr>))"

definition apply_header_repair ::
    "'f platform \<Rightarrow> byte list \<Rightarrow> apa_repair_plan \<Rightarrow> 'f session \<Rightarrow> 'f repair_outcome" where
  "apply_header_repair api header plan s =
    (case apa_repair_build_header header plan of
       None \<Rightarrow> Some (REPAIR_CONTROLLER_BLOCKED, header, s)
     | Some repaired \<Rightarrow>
         let (snapshot, w) = repair_snapshot_save api (se_storage s) header (se_world s);
             s1 = s\<lparr>se_world := w\<rparr> in
         (case snapshot of
            Inl code \<Rightarrow> returning REPAIR_CONTROLLER_NONE header (wait_cross api s1)
          | Inr p \<Rightarrow>
              (case ask_chord api (PAD_L1 OR PAD_R1 OR PAD_START) s1 of
                 None \<Rightarrow> None
               | Some (yes, s2) \<Rightarrow>
                   if \<not> yes then Some (REPAIR_CONTROLLER_NONE, header, s2)
                   else let (code, h, s3) = write_master_now api repaired header s2 in
                     if code < 0
                     then returning REPAIR_CONTROLLER_BLOCKED h (wait_cross api (flush_log api (log_items
                       [Lit ''Raw APA repair failed code='', Dec code, Lit '' snapshot='', Str p] s3)))
                     else returning REPAIR_CONTROLLER_RESTART_REQUIRED h (wait_cross api (flush_log api (log_items
                       [Lit ''Raw APA repair verified; snapshot='', Str p, Lit '' fixes=0x'',
                        PadHex 8 (unat (safe_header_fixes plan))] s3))))))"

text \<open>
  At start-up.  The menu lets the user choose the device of the snapshot; \<open>hdd_status\<close> is only shown.
\<close>

partial_function (option) startup_menu ::
    "'f platform \<Rightarrow> byte list \<Rightarrow> apa_repair_plan \<Rightarrow> 'f session \<Rightarrow> (int \<times> byte list \<times> 'f session) option" where
  "startup_menu api header plan s =
    (case wait_for_press api s of
       None \<Rightarrow> None
     | Some (buttons, s1) \<Rightarrow>
         if pressed buttons PAD_SELECT
         then startup_menu api header plan
           (s1\<lparr>se_storage := snd (storage_set_selected ((se_storage s1 + 1) mod STORAGE_TARGET_COUNT) (se_storage s1))\<rparr>)
         else if pressed buttons PAD_CROSS then apply_header_repair api header plan s1
         else if pressed buttons PAD_TRIANGLE then Some (REPAIR_CONTROLLER_BLOCKED, header, s1)
         else startup_menu api header plan s1)"

definition header_issue_mask :: u32 where
  "header_issue_mask = APA_REPAIR_ISSUE_CHECKSUM OR APA_REPAIR_ISSUE_APA_MAGIC OR APA_REPAIR_ISSUE_MBR_ID OR
    APA_REPAIR_ISSUE_SONY_MAGIC OR APA_REPAIR_ISSUE_MASTER_START OR APA_REPAIR_ISSUE_MASTER_TYPE OR APA_REPAIR_ISSUE_MBR_VERSION"

definition repair_controller_startup :: "'f platform \<Rightarrow> byte list \<Rightarrow> 'f session \<Rightarrow> 'f repair_outcome" where
  "repair_controller_startup api header s =
    (let plan = apa_repair_analyze header in
     if issues plan AND header_issue_mask = 0 \<and> blockers plan = 0
     then Some (REPAIR_CONTROLLER_NONE, header, s)
     else if \<not> header_patch_safe plan then returning REPAIR_CONTROLLER_BLOCKED header (wait_cross api s)
     else startup_menu api header plan s)"

text \<open>The health screen of a mounted disk.\<close>

partial_function (option) health_menu ::
    "'f platform \<Rightarrow> byte list \<Rightarrow> repair_health \<Rightarrow> 'f session \<Rightarrow> (int \<times> byte list \<times> 'f session) option" where
  "health_menu api header health s =
    (case wait_for_press api s of
       None \<Rightarrow> None
     | Some (buttons, s1) \<Rightarrow>
         if pressed buttons PAD_CROSS \<and> header_patch_safe (header_plan health)
         then apply_header_repair api header (header_plan health) s1
         else if pressed buttons PAD_SQUARE \<and> clear_recommended health
         then Some (REPAIR_CONTROLLER_REQUEST_DISABLE, header, s1)
         else if pressed buttons PAD_TRIANGLE then Some (REPAIR_CONTROLLER_NONE, header, s1)
         else health_menu api header health s1)"

definition repair_controller_health ::
    "'f platform \<Rightarrow> byte list \<Rightarrow> boot_chain_info option \<Rightarrow> 'f session \<Rightarrow> 'f repair_outcome" where
  "repair_controller_health api header boot_chain s =
    (let start = read_le32 header APA_OSD_START_OFFSET; sectors = read_le32 header APA_OSD_SIZE_OFFSET;
         (bounds, s1) = (if start \<noteq> 0 \<and> sectors \<noteq> 0 then live_bounds api start sectors s else (0, s)) in
     health_menu api header (repair_health_assess header boot_chain bounds) s1)"

section \<open>The hook\<close>

text \<open>
  The hook answers the disk commands of the program.  Its own state is whether the first status
  query has been seen; the recovery buffer is filled anew by each use.  A verified repair restarts
  the console.
\<close>

datatype devctl_end = Answered int "byte list" | Restarted

abbreviation (input) RECOVERY_CANCELLED_OR_BLOCKED :: int where "RECOVERY_CANCELLED_OR_BLOCKED \<equiv> - 341"

definition read_raw_master :: "'f platform \<Rightarrow> 'f session \<Rightarrow> int \<times> byte list \<times> 'f session" where
  "read_raw_master api s = (let (r, out, s1) = devctl_now api (HDIOC_READSECTOR 0 2) s in
     (r, fill_buffer 1024 out, s1))"

definition wrap_fileXioDevctl ::
    "'f platform \<Rightarrow> hdd_command \<Rightarrow> bool \<Rightarrow> 'f session \<Rightarrow> (devctl_end \<times> bool \<times> 'f session) option" where
  "wrap_fileXioDevctl api cmd seen s =
    (let (status, out, s1) = devctl_now api cmd s in
     if seen \<or> cmd \<noteq> HDIOC_STATUS then Some (Answered status out, seen, s1)
     else let (r, header, s2) = read_raw_master api s1 in
       if r < 0 then Some (Answered status out, True, s2)
       else map_option (\<lambda>(code, h, s3).
           (if code = REPAIR_CONTROLLER_RESTART_REQUIRED then Restarted
            else if code = REPAIR_CONTROLLER_BLOCKED then Answered RECOVERY_CANCELLED_OR_BLOCKED out
            else Answered status out, True, s3))
         (repair_controller_startup api header s2))"

section \<open>What a repair does\<close>

abbreviation (input) repair_chord :: u32 where "repair_chord \<equiv> PAD_L1 OR PAD_R1 OR PAD_START"

text \<open>
  Either the disk is left alone and no repair is reported, or: the header built from the plan of
  this very header is written, after the damaged bytes were stored and the buttons held.
\<close>

definition master_flow ::
    "'f platform \<Rightarrow> byte list \<Rightarrow> 'f session \<Rightarrow> int \<times> byte list \<times> 'f session \<Rightarrow> bool" where
  "master_flow api header s out \<longleftrightarrow> (case out of (code, h, s') \<Rightarrow>
    (extends undisturbing (se_world s) (se_world s') \<and> h = header \<and> code \<noteq> REPAIR_CONTROLLER_RESTART_REQUIRED) \<or>
    (\<exists>repaired p t (u :: 'f session) evs. apa_repair_build_header header (apa_repair_analyze header) = Some repaired \<and>
      still api s t \<and> p \<in> storage_path 64 (se_storage t) ` {ascii ''HDDRAW.BIN'', ascii ''HDDRAW2.BIN''} \<and>
      (\<forall>files fds. file_store api files fds \<longrightarrow> files (store (se_world t)) p = Some header) \<and>
      held_now api repair_chord (se_world t) \<and>
      trace (se_world u) = trace (se_world t) @ map Disk evs \<and>
      (evs \<noteq> [] \<longrightarrow> master_write_gate repaired) \<and>
      only (\<lambda>c. is_write c \<longrightarrow> c = HDIOC_WRITESECTOR 0 2 repaired) evs \<and>
      extends undisturbing (se_world u) (se_world s') \<and>
      (code = REPAIR_CONTROLLER_RESTART_REQUIRED \<and> master_commit repaired evs \<and> h = repaired \<or>
       code = REPAIR_CONTROLLER_BLOCKED \<and> h = header)))"

lemma master_flow_idle:
  "still api s s' \<Longrightarrow> code \<noteq> REPAIR_CONTROLLER_RESTART_REQUIRED \<Longrightarrow> master_flow api header s (code, header, s')"
  by (simp add: master_flow_def still_def)

lemma master_flow_prefix:
  assumes "master_flow api header t out" and "still api s t"
  shows "master_flow api header s out"
proof -
  obtain code h s' where out: "out = (code, h, s')" by (metis prod_cases3)
  have "extends undisturbing (se_world s) (se_world s')" if "extends undisturbing (se_world t) (se_world s')"
    using assms(2) that by (auto simp: still_def intro: extends_trans)
  moreover have "still api s u" if "still api t u" for u using assms(2) that by (rule still_trans)
  ultimately show ?thesis using assms(1) unfolding master_flow_def out prod.case by (elim disjE exE conjE) blast+
qed

lemma write_master_now_facts:
  assumes "write_master_now api repaired header s = (code, h, t)"
  shows "se_storage t = se_storage s \<and> (\<exists>evs. trace (se_world t) = trace (se_world s) @ map Disk evs \<and>
    (evs \<noteq> [] \<longrightarrow> master_write_gate repaired) \<and>
    only (\<lambda>c. is_write c \<longrightarrow> c = HDIOC_WRITESECTOR 0 2 repaired) evs \<and>
    (code = 0 \<and> master_commit repaired evs \<and> h = repaired \<or> code < 0 \<and> h = header))"
proof (cases "master_write_gate repaired")
  case True
  obtain c b d where run: "write_master_header (fx_hdd api) repaired header (disk_view (se_world s)) = (c, b, d)"
    by (metis prod_cases3)
  then have "code = c" "h = b" "t = s\<lparr>se_world := after_disk (se_world s) d\<rparr>"
    using assms True by (auto simp: write_master_now_def hdd_repair_write_master_header_verified_def)
  then show ?thesis
    using write_master_events [OF run] True by (fastforce simp: after_disk_def disk_view_def)
next
  case False
  then have "code = HDD_REPAIR_UNSAFE_HEADER" "h = header" "trace (se_world t) = trace (se_world s)"
      "se_storage t = se_storage s"
    using assms by (auto simp: write_master_now_def hdd_repair_write_master_header_verified_def after_disk_def
        disk_view_def record_error_def)
  then show ?thesis by (intro conjI exI [of _ "[]"]) (auto simp: only_def)
qed

lemma returning_Some:
  "returning code header r = Some out \<longleftrightarrow> (\<exists>s. r = Some s \<and> out = (code, header, s))"
  by (auto simp: returning_def)

lemma apply_flow:
  assumes "apply_header_repair api header (apa_repair_analyze header) s = Some out"
  shows "master_flow api header s out"
proof (cases "apa_repair_build_header header (apa_repair_analyze header)")
  case None
  then show ?thesis using assms by (auto simp: apply_header_repair_def intro!: master_flow_idle)
next
  case (Some repaired)
  obtain snapshot w where sn: "repair_snapshot_save api (se_storage s) header (se_world s) = (snapshot, w)" by fastforce
  define s1 where "s1 = s\<lparr>se_world := w\<rparr>"
  have s1: "still api s s1" unfolding s1_def by (rule still_snapshot [OF sn])
  note run = assms [unfolded apply_header_repair_def Some option.case sn Let_def prod.case s1_def [symmetric]]
  show ?thesis
  proof (cases snapshot)
    case (Inl code)
    then show ?thesis
      using run s1 by (auto simp: returning_Some dest!: still_cross intro!: master_flow_idle intro: still_trans)
  next
    case (Inr p)
    have saved: "p \<in> storage_path 64 (se_storage s) ` {ascii ''HDDRAW.BIN'', ascii ''HDDRAW2.BIN''}"
        "\<And>files fds. file_store api files fds \<Longrightarrow> files (store w) p = Some header"
      using repair_snapshot_saved [OF sn] by (auto simp: Inr)
    obtain yes s2 where ask: "ask_chord api repair_chord s1 = Some (yes, s2)"
      using run by (auto simp: Inr split: option.splits)
    note a = ask_facts [OF ask]
    have s2: "still api s s2" using s1 still_chord [OF ask] by (rule still_trans)
    have storage: "se_storage s2 = se_storage s" using a(1) by (simp add: quiet_def s1_def)
    have kept: "files (store (se_world s2)) p = Some header" if "file_store api files fds" for files fds
      using saved(2) [OF that] a(2) that by (auto simp: careful_def s1_def)
    obtain code h s3 where wr: "write_master_now api repaired header s2 = (code, h, s3)" by (metis prod_cases3)
    note run = run [unfolded Inr sum.case ask option.case prod.case wr]
    show ?thesis
    proof (cases yes)
      case False
      then show ?thesis using run s2 by (auto intro: master_flow_idle)
    next
      case True
      obtain evs where evs: "trace (se_world s3) = trace (se_world s2) @ map Disk evs"
          "evs \<noteq> [] \<longrightarrow> master_write_gate repaired" "only (\<lambda>c. is_write c \<longrightarrow> c = HDIOC_WRITESECTOR 0 2 repaired) evs"
          "code = 0 \<and> master_commit repaired evs \<and> h = repaired \<or> code < 0 \<and> h = header"
        using write_master_now_facts [OF wr] by blast
      have last: "extends undisturbing (se_world s3) (se_world u)"
        if "wait_cross api (flush_log api (log_items items s3)) = Some u" for u items
        using still_cross [OF that] quiet_flush [of "log_items items s3" "log_items items s3" api]
        by (auto simp: still_def quiet_def intro: extends_trans)
      obtain result s4 where out: "out = (result, h, s4)" "extends undisturbing (se_world s3) (se_world s4)"
          "result = (if code < 0 then REPAIR_CONTROLLER_BLOCKED else REPAIR_CONTROLLER_RESTART_REQUIRED)"
        using run True last by (auto simp: returning_Some split: if_splits)
      show ?thesis
        unfolding master_flow_def out(1) prod.case
        by (rule disjI2, rule exI [of _ repaired], rule exI [of _ p], rule exI [of _ s2], rule exI [of _ s3],
            rule exI [of _ evs])
          (use Some s2 saved(1) kept a(3) True evs out in \<open>auto simp: storage\<close>)
    qed
  qed
qed

lemma startup_menu_flow:
  assumes "startup_menu api header (apa_repair_analyze header) s = Some out"
  shows "master_flow api header s out"
proof -
  have "plan = apa_repair_analyze header \<longrightarrow> master_flow api header s out"
    if "startup_menu api header plan s = Some out" for api :: "'a platform" and header plan s out
  proof (rule startup_menu.raw_induct [OF _ that, of "\<lambda>api header plan s out. plan = apa_repair_analyze header \<longrightarrow>
      master_flow api header s out"], intro impI)
    fix menu :: "'a platform \<Rightarrow> byte list \<Rightarrow> apa_repair_plan \<Rightarrow> 'a session \<Rightarrow> (int \<times> byte list \<times> 'a session) option"
      and api header plan s out
    assume ih: "\<And>api header plan s out. menu api header plan s = Some out \<Longrightarrow>
        plan = apa_repair_analyze header \<longrightarrow> master_flow api header s out"
      and run: "(case wait_for_press api s of None \<Rightarrow> None
        | Some (buttons, s1) \<Rightarrow>
            if pressed buttons PAD_SELECT then menu api header plan (s1\<lparr>se_storage :=
              snd (storage_set_selected ((se_storage s1 + 1) mod STORAGE_TARGET_COUNT) (se_storage s1))\<rparr>)
            else if pressed buttons PAD_CROSS then apply_header_repair api header plan s1
            else if pressed buttons PAD_TRIANGLE then Some (REPAIR_CONTROLLER_BLOCKED, header, s1)
            else menu api header plan s1) = Some out"
      and plan: "plan = apa_repair_analyze header"
    obtain b s1 where p: "wait_for_press api s = Some (b, s1)" using run by (auto split: option.splits)
    have s1: "still api s s1" using still_press [OF p] ..
    have again: "master_flow api header s out" if "menu api header plan (s1\<lparr>se_storage := n\<rparr>) = Some out" for n
      by (rule master_flow_prefix [OF ih [OF that, THEN mp, OF plan]]) (simp add: s1)
    have again': "master_flow api header s out" if "menu api header plan s1 = Some out"
      by (rule master_flow_prefix [OF ih [OF that, THEN mp, OF plan] s1])
    have repair: "master_flow api header s out" if "apply_header_repair api header plan s1 = Some out"
      by (rule master_flow_prefix [OF apply_flow [OF that [unfolded plan]] s1])
    show "master_flow api header s out"
      using run p again again' repair s1 by (auto split: if_splits intro: master_flow_idle)
  qed
  then show ?thesis using assms by blast
qed

lemma startup_flow:
  assumes "repair_controller_startup api header s = Some out"
  shows "master_flow api header s out"
proof -
  define plan where "plan = apa_repair_analyze header"
  note run = assms [unfolded repair_controller_startup_def plan_def [symmetric] Let_def]
  show ?thesis
  proof (cases "issues plan AND header_issue_mask = 0 \<and> blockers plan = 0")
    case True
    then show ?thesis using run master_flow_idle [of api s s REPAIR_CONTROLLER_NONE header] by auto
  next
    case issue: False
    show ?thesis
    proof (cases "header_patch_safe plan")
      case True
      then have "startup_menu api header plan s = Some out" using run [unfolded if_not_P [OF issue]] by simp
      then show ?thesis unfolding plan_def by (rule startup_menu_flow)
    next
      case False
      then obtain t where "wait_cross api s = Some t" "out = (REPAIR_CONTROLLER_BLOCKED, header, t)"
        using run [unfolded if_not_P [OF issue]] by (auto simp: returning_Some)
      then show ?thesis using still_cross [of api s t] by (simp add: master_flow_idle)
    qed
  qed
qed

lemma health_menu_flow:
  assumes "health_menu api header health s = Some out" and "header_plan health = apa_repair_analyze header"
  shows "master_flow api header s out"
proof -
  have "header_plan health = apa_repair_analyze header \<longrightarrow> master_flow api header s out"
    if "health_menu api header health s = Some out" for api :: "'a platform" and header health s out
  proof (rule health_menu.raw_induct [OF _ that, of "\<lambda>api header health s out.
      header_plan health = apa_repair_analyze header \<longrightarrow> master_flow api header s out"], intro impI)
    fix menu :: "'a platform \<Rightarrow> byte list \<Rightarrow> repair_health \<Rightarrow> 'a session \<Rightarrow> (int \<times> byte list \<times> 'a session) option"
      and api header health s out
    assume ih: "\<And>api header health s out. menu api header health s = Some out \<Longrightarrow>
        header_plan health = apa_repair_analyze header \<longrightarrow> master_flow api header s out"
      and run: "(case wait_for_press api s of None \<Rightarrow> None
        | Some (buttons, s1) \<Rightarrow>
            if pressed buttons PAD_CROSS \<and> header_patch_safe (header_plan health)
            then apply_header_repair api header (header_plan health) s1
            else if pressed buttons PAD_SQUARE \<and> clear_recommended health
            then Some (REPAIR_CONTROLLER_REQUEST_DISABLE, header, s1)
            else if pressed buttons PAD_TRIANGLE then Some (REPAIR_CONTROLLER_NONE, header, s1)
            else menu api header health s1) = Some out"
      and plan: "header_plan health = apa_repair_analyze header"
    obtain b s1 where p: "wait_for_press api s = Some (b, s1)" using run by (auto split: option.splits)
    have s1: "still api s s1" using still_press [OF p] ..
    have again: "master_flow api header s out" if "menu api header health s1 = Some out"
      by (rule master_flow_prefix [OF ih [OF that, THEN mp, OF plan] s1])
    have repair: "master_flow api header s out"
      if "apply_header_repair api header (header_plan health) s1 = Some out"
      by (rule master_flow_prefix [OF apply_flow [OF that [unfolded plan]] s1])
    show "master_flow api header s out"
      using run p again repair s1 by (auto split: if_splits intro: master_flow_idle)
  qed
  then show ?thesis using assms by blast
qed

lemma still_bounds: "live_bounds api start sectors s = (r, t) \<Longrightarrow> still api s t"
  using quiet_bounds live_bounds_careful by (fastforce simp: still_def quiet_def)

lemma health_flow:
  assumes "repair_controller_health api header boot_chain s = Some out"
  shows "master_flow api header s out"
proof -
  obtain bounds s1 where b: "(if read_le32 header APA_OSD_START_OFFSET \<noteq> 0 \<and> read_le32 header APA_OSD_SIZE_OFFSET \<noteq> 0
      then live_bounds api (read_le32 header APA_OSD_START_OFFSET) (read_le32 header APA_OSD_SIZE_OFFSET) s
      else (0, s)) = (bounds, s1)" by fastforce
  have s1: "still api s s1" using b by (auto split: if_splits dest: still_bounds)
  have "health_menu api header (repair_health_assess header boot_chain bounds) s1 = Some out"
    using assms [unfolded repair_controller_health_def Let_def b prod.case] .
  then have "master_flow api header s1 out"
    by (rule health_menu_flow) (simp add: repair_health_assess_def Let_def)
  then show ?thesis using s1 by (rule master_flow_prefix)
qed

section \<open>Properties\<close>

text \<open>
  Property C6: repairing the master, at start-up or from the health screen.  Every run that ends
  either leaves the disk alone, with the header as it was and no repair reported; or it writes, at
  sectors 0 and 1 and nowhere else, the header that the planner builds for this very header and
  that passes the writer's own gate, after the damaged bytes were stored in one of the two snapshot
  slots (on every device that keeps the laws of a file store), without damage to any other file, and
  with the buttons held.  A restart is demanded exactly when that header was written, flushed and
  read back.
\<close>

theorem master_repair_guarded:
  assumes "repair_controller_startup api header s = Some out \<or>
    repair_controller_health api header boot_chain s = Some out"
  shows "master_flow api header s out"
  using assms startup_flow health_flow by blast


section \<open>Witnesses\<close>

text \<open>
  A console whose disk accepts every command and always reads as the damaged master, with the
  cross pressed again and again and the confirmation held: every repair workflow ends.
\<close>

definition repair_platform :: "memory platform" where
  "repair_platform = memory_platform\<lparr>fx_pad := (\<lambda>m. (PAD_CROSS, m)),
    fx_hdd := \<lparr>devctl = (\<lambda>cmd m. (0, damaged_master, m)), getstat_mbr = (\<lambda>m. (0, 0, 0x40000, m))\<rparr>\<rparr>"

lemma repair_press: "wait_for_press repair_platform s = Some (0x4000, s)"
proof -
  have "poll_pad repair_platform w = (0x4000, w)" for w :: "memory file_world"
    by (simp add: poll_pad_def repair_platform_def memory_platform_def)
  then show ?thesis by (subst wait_for_press.simps) simp
qed

lemma repair_cross: "wait_cross repair_platform s = Some s"
  by (subst wait_cross.simps) (simp add: repair_press pressed_def)

lemma repair_ask: "ask_chord repair_platform 0xC08 s = Some (True, s)"
proof -
  have held: "held_buttons repair_platform w = (Some 0xefff, w)" for w :: "memory file_world"
    by (simp add: held_buttons_def repair_platform_def memory_platform_def)
  show ?thesis by (simp add: ask_chord_def wait_for_chord.simps [of repair_platform] held)
qed

lemma repair_ends: "\<exists>out. apply_header_repair repair_platform header plan s = Some out"
  by (simp add: apply_header_repair_def repair_ask returning_def repair_cross Let_def
      split: option.splits prod.splits sum.splits)

lemma startup_ends: "\<exists>out. repair_controller_startup repair_platform header s = Some out"
proof -
  obtain code h t where "apply_header_repair repair_platform header (apa_repair_analyze header) s = Some (code, h, t)"
    using repair_ends by (metis prod_cases3)
  then show ?thesis
    by (subst repair_controller_startup_def, subst startup_menu.simps)
      (simp add: repair_press repair_cross returning_def Let_def pressed_def)
qed

theorem master_repair_guarded_witness:
  "\<exists>out. repair_controller_startup repair_platform damaged_master (sample_session 2 (fresh_memory [] 3)) = Some out \<and>
    master_flow repair_platform damaged_master (sample_session 2 (fresh_memory [] 3)) out"
proof -
  obtain out where "repair_controller_startup repair_platform damaged_master
      (sample_session 2 (fresh_memory [] 3)) = Some out" using startup_ends by blast
  with master_repair_guarded [OF disjI1 [OF this]] show ?thesis by blast
qed


end
