(* ===== verification/ForensicTrace.thy ===== *)
theory ForensicTrace
  imports ForensicMaps
begin

unbundle bit_operations_syntax

text \<open>
  What a scan of \<open>src/apa_forensic.c\<close> does to the device it reads from, and which headers it
  records: it reaches the device through the reader alone, so a relation every read keeps relates
  the device before and after, and what holds of every header read holds of every node.
\<close>

section \<open>Building maps keeps the headers\<close>

lemma mark_headers [simp]: "map node_header (mark_evidence i bits nodes) = map node_header nodes"
proof (cases "i < length nodes")
  case True
  then have "(map node_header nodes)[i := node_header (nodes ! i)] = map node_header nodes"
    by (metis list_update_id nth_map)
  then show ?thesis by (simp add: mark_evidence_def map_update)
qed (simp add: mark_evidence_def list_update_beyond)

lemma dormant_headers:
  "map node_header (fst (fold (dormant_step in_forward order) is acc)) = map node_header (fst acc)"
  by (induction "is" arbitrary: acc) (auto simp: dormant_step_def Let_def split: prod.split)

lemma add_map_nodes [simp]: "scan_nodes (add_map_if_unique m r) = scan_nodes r"
  by (simp add: add_map_if_unique_def)

lemma classified_headers:
  "map node_header (scan_nodes (classify_dormant_free_remnants forward r)) = map node_header (scan_nodes r)"
proof -
  define cleared where "cleared = map (node_evidence_update (\<lambda>e. e AND NOT EVIDENCE_DORMANT_FREE)) (scan_nodes r)"
  define steps where "steps = fold (dormant_step (fold (\<lambda>i s. node_set_add s i) (map_order forward) node_set_empty)
      (map_order forward)) [0..<length cleared] (cleared, 0)"
  have "map node_header (fst steps) = map node_header (scan_nodes r)"
    unfolding steps_def dormant_headers by (simp add: cleared_def comp_def)
  then show ?thesis
    by (simp add: classify_dormant_free_remnants_def Let_def steps_def cleared_def case_prod_unfold)
qed

lemma built_headers:
  "map node_header (scan_nodes (build_maps by_lba r)) = map node_header (scan_nodes r)"
  by (simp add: build_maps_def Let_def classified_headers)

section \<open>The reader\<close>

locale steady_reader =
  fixes reader :: "'c forensic_reader" and rel :: "'c \<Rightarrow> 'c \<Rightarrow> bool" and good :: "byte list \<Rightarrow> bool"
  assumes same: "rel c c"
    and chain: "rel a b \<Longrightarrow> rel b c \<Longrightarrow> rel a c"
    and reads: "reader lba 2 c = (r, h, c') \<Longrightarrow> rel c c' \<and> good h"
begin

definition kept :: "'c \<Rightarrow> 'c forensic_state \<Rightarrow> bool" where
  "kept c s \<longleftrightarrow> rel c (fs_context s) \<and> (\<forall>n \<in> set (fs_nodes s). good (node_header n))"

lemma marked_headers:
  "\<forall>n \<in> set nodes. good (node_header n) \<Longrightarrow> n \<in> set (mark_evidence i bits nodes) \<Longrightarrow> good (node_header n)"
  by (cases "i < length nodes") (auto simp: mark_evidence_def set_update_distinct list_update_beyond
      dest!: set_update_subset_insert [THEN subsetD])

lemma kept_add: "kept c s \<Longrightarrow> kept c (snd (add_candidate reader lba tot src s))"
  using marked_headers
  by (auto simp: kept_def add_candidate_def map_result_def Let_def node_of_header_def
      split: option.split prod.split dest: reads intro: chain)

lemma kept_follow: "kept c s \<Longrightarrow> kept c (follow_reference reader lba tot s)"
proof -
  assume s: "kept c s"
  then have "kept c (map_result (scan_reference_reads_update Suc) s)" by (simp add: kept_def map_result_def)
  from kept_add [OF this] show ?thesis
    using s marked_headers by (auto simp: follow_reference_def kept_def map_result_def split: option.split)
qed

lemma kept_fold: "(\<And>x s. kept c s \<Longrightarrow> kept c (f x s)) \<Longrightarrow> kept c s \<Longrightarrow> kept c (fold f xs s)"
  by (induction xs arbitrary: s) auto

lemma kept_chase_node: "kept c s \<Longrightarrow> kept c (chase_node reader tot node s)"
  unfolding chase_node_def Let_def by (auto intro!: kept_follow kept_fold)

lemma kept_chase: "kept c s \<Longrightarrow> kept c (chase_references reader tot cursor s)"
proof -
  have "rd = reader \<Longrightarrow> kept c s \<Longrightarrow> kept c (chase_references rd tot cursor s)" for rd
  proof (induction rd tot cursor s rule: chase_references.induct)
    case (1 rd tot cursor s)
    then show ?case using kept_chase_node by (subst chase_references.simps) auto
  qed
  then show "kept c s \<Longrightarrow> kept c (chase_references reader tot cursor s)" by blast
qed

lemma kept_grid: "kept c s \<Longrightarrow> kept c (grid_loop reader None tot lba s)"
proof -
  have "rd = reader \<Longrightarrow> progress = None \<Longrightarrow> kept c s \<Longrightarrow> kept c (grid_loop rd progress tot lba s)" for rd progress
  proof (induction rd progress tot lba s rule: grid_loop.induct)
    case (1 rd progress tot lba s)
    let ?s1 = "map_result (scan_grid_reads_update Suc) s"
    have s2: "kept c (snd (add_candidate reader lba tot EVIDENCE_GRID ?s1))"
      by (rule kept_add) (use 1(4) in \<open>simp add: kept_def map_result_def\<close>)
    then show ?case using 1 by (subst grid_loop.simps) (auto simp: report_progress_def Let_def)
  qed
  then show "kept c s \<Longrightarrow> kept c (grid_loop reader None tot lba s)" by blast
qed

lemma kept_discover: "kept c (discover reader None tot c)"
proof -
  let ?s0 = "\<lparr>fs_result = (empty_result tot)\<lparr>scan_grid_reads := 1\<rparr>, fs_by_lba = [], fs_context = c\<rparr>"
  have "kept c ?s0" by (simp add: kept_def empty_result_def same)
  from kept_chase [OF kept_grid [OF kept_add [OF this]]] show ?thesis
    by (simp add: discover_def report_progress_def Let_def)
qed

lemma scan_kept:
  assumes "apa_forensic_scan (Some reader) tot None c = Some (result, c')"
  shows "rel c c'" and "\<forall>n \<in> set (scan_nodes result). good (node_header n)"
proof -
  let ?s = "discover reader None tot c"
  have k: "kept c ?s" by (rule kept_discover)
  have r: "result = build_maps (fs_by_lba ?s) (fs_result ?s)" "c' = fs_context ?s"
    using assms by (auto simp: apa_forensic_scan_def report_progress_def map_result_def Let_def split: if_splits)
  show "rel c c'" using k r(2) by (simp add: kept_def)
  have "set (map node_header (scan_nodes result)) = set (map node_header (fs_nodes ?s))"
    unfolding r(1) built_headers ..
  then have "node_header ` set (scan_nodes result) = node_header ` set (fs_nodes ?s)" by simp
  then show "\<forall>n \<in> set (scan_nodes result). good (node_header n)" using k unfolding kept_def by (metis (no_types, lifting) image_iff)
qed

end

end
