(* ===== verification/HddForensicRepair.thy ===== *)
theory HddForensicRepair
  imports HddRepair ForensicPlan
begin

text \<open>
  The writer of forensic topology plans: \<open>src/hdd_forensic_repair_ps2.c\<close>.  It refuses blocked
  plans, and for each patch rereads the sector, compares it with the scanned evidence, builds and
  checks the new header, writes it, flushes it and reads it back; interior headers come first and
  the master last; at the end every touched header is read again.  The first group of lemmas says
  for every driver which commands a run issues; the second runs the writer on a disk that keeps
  what is written to it and shows that a plan over disjoint headers is applied completely.
\<close>

section \<open>The writer\<close>

abbreviation (input) HDD_FORENSIC_REPAIR_INVALID_ARGUMENT :: int where
  "HDD_FORENSIC_REPAIR_INVALID_ARGUMENT \<equiv> - 370"
abbreviation (input) HDD_FORENSIC_REPAIR_PLAN_BLOCKED :: int where
  "HDD_FORENSIC_REPAIR_PLAN_BLOCKED \<equiv> - 371"
abbreviation (input) HDD_FORENSIC_REPAIR_SOURCE_CHANGED :: int where
  "HDD_FORENSIC_REPAIR_SOURCE_CHANGED \<equiv> - 372"
abbreviation (input) HDD_FORENSIC_REPAIR_PATCH_INVALID :: int where
  "HDD_FORENSIC_REPAIR_PATCH_INVALID \<equiv> - 373"
abbreviation (input) HDD_FORENSIC_REPAIR_WRITE_FAILED :: int where
  "HDD_FORENSIC_REPAIR_WRITE_FAILED \<equiv> - 374"
abbreviation (input) HDD_FORENSIC_REPAIR_FLUSH_FAILED :: int where
  "HDD_FORENSIC_REPAIR_FLUSH_FAILED \<equiv> - 375"
abbreviation (input) HDD_FORENSIC_REPAIR_READBACK_FAILED :: int where
  "HDD_FORENSIC_REPAIR_READBACK_FAILED \<equiv> - 376"
abbreviation (input) HDD_FORENSIC_REPAIR_COMPARE_FAILED :: int where
  "HDD_FORENSIC_REPAIR_COMPARE_FAILED \<equiv> - 377"

definition fail_forensic :: "int \<Rightarrow> string \<Rightarrow> 'd hdd_world \<Rightarrow> int \<times> 'd hdd_world" where
  "fail_forensic code stage w =
    (code, record_error APP_ERROR_DOMAIN_FORENSIC_REPAIR code stage w)"

definition patch_header_is_safe ::
    "apa_forensic_result \<Rightarrow> apa_forensic_patch \<Rightarrow> byte list \<Rightarrow> bool" where
  "patch_header_is_safe scan patch header =
    (let required = EVIDENCE_MAGIC OR EVIDENCE_SELF_START OR EVIDENCE_LENGTH in
     if patch_node_index patch \<ge> length (scan_nodes scan) then False
     else let node = scan_nodes scan ! patch_node_index patch in
       if node_lba node \<noteq> patch_lba patch \<or> node_evidence node AND required \<noteq> required then False
       else if bytes_at APA_MAGIC_OFFSET 4 header \<noteq> apa_magic \<or>
         read_le32 header APA_START_OFFSET \<noteq> patch_lba patch \<or>
         read_le32 header APA_LENGTH_OFFSET = 0 \<or>
         read_le32 header 0 \<noteq> apa_checksum header then False
       else True)"

text \<open>
  The static buffer \<open>repaired_header\<close> is overwritten whole before it is used, so its earlier
  contents do not matter and the model starts from an empty one.
\<close>

definition write_one ::
    "'d hdd_driver \<Rightarrow> apa_forensic_result \<Rightarrow> apa_forensic_patch \<Rightarrow> 'd hdd_world \<Rightarrow>
      int \<times> 'd hdd_world" where
  "write_one drv scan patch w =
    (let node = scan_nodes scan ! patch_node_index patch;
         (result, source, w1) = hdd_read_raw_sectors drv (patch_lba patch) 2 w in
     if result < 0 then fail_forensic HDD_FORENSIC_REPAIR_READBACK_FAILED ''pre-write source read'' w1
     else if source \<noteq> node_header node
     then fail_forensic HDD_FORENSIC_REPAIR_SOURCE_CHANGED ''pre-write source stability compare'' w1
     else let (build, repaired) = apa_forensic_build_patched_header scan patch [] in
     if build < 0 \<or> \<not> patch_header_is_safe scan patch repaired
     then fail_forensic HDD_FORENSIC_REPAIR_PATCH_INVALID
       ''build/final-validate patched APA header'' w1
     else let (result, _, w2) = issue_command drv (HDIOC_WRITESECTOR (patch_lba patch) 2 repaired) w1 in
     if result < 0
     then fail_forensic HDD_FORENSIC_REPAIR_WRITE_FAILED ''HDIOC_WRITESECTOR APA header'' w2
     else let (result, _, w3) = issue_command drv HDIOC_FLUSH w2 in
     if result < 0 then fail_forensic HDD_FORENSIC_REPAIR_FLUSH_FAILED ''HDIOC_FLUSH APA header'' w3
     else let (result, verify, w4) = hdd_read_raw_sectors drv (patch_lba patch) 2 w3 in
     if result < 0
     then fail_forensic HDD_FORENSIC_REPAIR_READBACK_FAILED ''immediate APA header read-back'' w4
     else if verify \<noteq> repaired
     then fail_forensic HDD_FORENSIC_REPAIR_COMPARE_FAILED ''immediate APA header compare'' w4
     else (0, w4))"

definition verify_one_final ::
    "'d hdd_driver \<Rightarrow> apa_forensic_result \<Rightarrow> apa_forensic_patch \<Rightarrow> 'd hdd_world \<Rightarrow>
      int \<times> 'd hdd_world" where
  "verify_one_final drv scan patch w =
    (let (build, repaired) = apa_forensic_build_patched_header scan patch [] in
     if build < 0
     then fail_forensic HDD_FORENSIC_REPAIR_PATCH_INVALID
       ''rebuild expected header for final verification'' w
     else let (result, verify, w1) = hdd_read_raw_sectors drv (patch_lba patch) 2 w in
     if result < 0
     then fail_forensic HDD_FORENSIC_REPAIR_READBACK_FAILED ''final touched-set read-back'' w1
     else if verify \<noteq> repaired
     then fail_forensic HDD_FORENSIC_REPAIR_COMPARE_FAILED ''final touched-set compare'' w1
     else (0, w1))"

text \<open>The three loops of the writer share their shape: skip, do, stop at the first failure.\<close>

fun patch_loop ::
    "(apa_forensic_patch \<Rightarrow> 'd hdd_world \<Rightarrow> int \<times> 'd hdd_world) \<Rightarrow> (apa_forensic_patch \<Rightarrow> bool) \<Rightarrow>
      apa_forensic_patch list \<Rightarrow> 'd hdd_world \<Rightarrow> int \<times> 'd hdd_world" where
  "patch_loop step skip [] w = (0, w)"
| "patch_loop step skip (p # ps) w =
    (if skip p then patch_loop step skip ps w
     else let (result, w1) = step p w in
       if result < 0 then (result, w1) else patch_loop step skip ps w1)"

definition hdd_forensic_repair_apply_verified ::
    "'d hdd_driver \<Rightarrow> apa_forensic_result option \<Rightarrow> apa_forensic_repair_plan option \<Rightarrow> 'd hdd_world \<Rightarrow>
      int \<times> 'd hdd_world" where
  "hdd_forensic_repair_apply_verified drv scan_ref plan_ref w =
    (case (scan_ref, plan_ref) of
       (Some scan, Some plan) \<Rightarrow>
         (if scan_truncated scan \<or> \<not> plan_manual_allowed plan \<or> plan_patches plan = [] \<or>
             plan_map_index plan \<ge> length (scan_maps scan)
          then (HDD_FORENSIC_REPAIR_PLAN_BLOCKED,
            record_error APP_ERROR_DOMAIN_FORENSIC_REPAIR HDD_FORENSIC_REPAIR_PLAN_BLOCKED
              (if scan_truncated scan then ''validate forensic write gate: incomplete scan''
               else ''validate forensic write gate'') w)
          else let (result, w1) = patch_loop (write_one drv scan) (\<lambda>p. patch_lba p = 0)
              (plan_patches plan) w in
            if result < 0 then (result, w1)
            else let (result, w2) = patch_loop (write_one drv scan) (\<lambda>p. patch_lba p \<noteq> 0)
                (plan_patches plan) w1 in
              if result < 0 then (result, w2)
              else patch_loop (verify_one_final drv scan) (\<lambda>p. False) (plan_patches plan) w2)
     | _ \<Rightarrow> (HDD_FORENSIC_REPAIR_INVALID_ARGUMENT,
         record_error APP_ERROR_DOMAIN_FORENSIC_REPAIR HDD_FORENSIC_REPAIR_INVALID_ARGUMENT
           ''validate scan/plan arguments'' w))"

section \<open>The commands of a run\<close>

text \<open>The header a patch writes, the order of the writes, and the two complete transactions.\<close>

definition patched :: "apa_forensic_result \<Rightarrow> apa_forensic_patch \<Rightarrow> byte list" where
  "patched scan p = snd (apa_forensic_build_patched_header scan p [])"

definition commit_order :: "apa_forensic_patch list \<Rightarrow> apa_forensic_patch list" where
  "commit_order ps = filter (\<lambda>p. patch_lba p \<noteq> 0) ps @ filter (\<lambda>p. patch_lba p = 0) ps"

definition patch_commit ::
    "apa_forensic_result \<Rightarrow> apa_forensic_patch \<Rightarrow> hdd_event list \<Rightarrow> bool" where
  "patch_commit scan p evs \<longleftrightarrow> (\<exists>r1 o1 r2 o2 r3 o3 r4 o4.
    evs = [(HDIOC_READSECTOR (patch_lba p) 2, r1, o1),
      (HDIOC_WRITESECTOR (patch_lba p) 2 (patched scan p), r2, o2), (HDIOC_FLUSH, r3, o3),
      (HDIOC_READSECTOR (patch_lba p) 2, r4, o4)] \<and>
    0 \<le> r1 \<and> 0 \<le> r2 \<and> 0 \<le> r3 \<and> 0 \<le> r4 \<and>
    fill_buffer 1024 o1 = node_header (scan_nodes scan ! patch_node_index p) \<and>
    patch_header_is_safe scan p (patched scan p) \<and> fill_buffer 1024 o4 = patched scan p)"

definition patch_recheck ::
    "apa_forensic_result \<Rightarrow> apa_forensic_patch \<Rightarrow> hdd_event list \<Rightarrow> bool" where
  "patch_recheck scan p evs \<longleftrightarrow> (\<exists>r out. evs = [(HDIOC_READSECTOR (patch_lba p) 2, r, out)] \<and>
    0 \<le> r \<and> fill_buffer 1024 out = patched scan p)"

text \<open>A transaction that stopped: at most its own write, and that only after the source check.\<close>

definition patch_stopped ::
    "apa_forensic_result \<Rightarrow> apa_forensic_patch \<Rightarrow> hdd_event list \<Rightarrow> bool" where
  "patch_stopped scan p evs \<longleftrightarrow>
    only (\<lambda>c. is_write c \<longrightarrow> c = HDIOC_WRITESECTOR (patch_lba p) 2 (patched scan p)) evs \<and>
    (\<not> only (\<lambda>c. \<not> is_write c) evs \<longrightarrow> (\<exists>r out rest.
      evs = (HDIOC_READSECTOR (patch_lba p) 2, r, out) # rest \<and> 0 \<le> r \<and>
      fill_buffer 1024 out = node_header (scan_nodes scan ! patch_node_index p) \<and>
      patch_header_is_safe scan p (patched scan p)))"

fun each_in_turn :: "(apa_forensic_patch \<Rightarrow> hdd_event list \<Rightarrow> bool) \<Rightarrow>
    apa_forensic_patch list \<Rightarrow> hdd_event list \<Rightarrow> bool" where
  "each_in_turn P [] evs \<longleftrightarrow> evs = []"
| "each_in_turn P (p # ps) evs \<longleftrightarrow> (\<exists>e1 e2. evs = e1 @ e2 \<and> P p e1 \<and> each_in_turn P ps e2)"

lemma each_append: "each_in_turn P (ps @ qs) evs \<longleftrightarrow>
    (\<exists>e1 e2. evs = e1 @ e2 \<and> each_in_turn P ps e1 \<and> each_in_turn P qs e2)"
proof (induction ps arbitrary: evs)
  case (Cons p ps)
  have "each_in_turn P ((p # ps) @ qs) evs \<longleftrightarrow> (\<exists>a b c. evs = a @ b @ c \<and> P p a \<and>
      each_in_turn P ps b \<and> each_in_turn P qs c)"
    by (auto simp: Cons.IH)
  also have "\<dots> \<longleftrightarrow> (\<exists>e1 e2. evs = e1 @ e2 \<and> each_in_turn P (p # ps) e1 \<and> each_in_turn P qs e2)"
    by (auto simp: append_assoc) (metis append_assoc)+
  finally show ?case .
qed simp

lemma write_one_events:
  assumes run: "write_one drv scan p w = (code, w')"
  shows "\<exists>evs. events w' = events w @ evs \<and>
    (code = 0 \<and> patch_commit scan p evs \<or> code < 0 \<and> patch_stopped scan p evs)"
proof -
  let ?node = "scan_nodes scan ! patch_node_index p"
  let ?new = "patched scan p"
  obtain r1 source w1 where c1: "hdd_read_raw_sectors drv (patch_lba p) 2 w = (r1, source, w1)"
    by (cases "hdd_read_raw_sectors drv (patch_lba p) 2 w")
  obtain r2 o2 w2 where c2: "issue_command drv (HDIOC_WRITESECTOR (patch_lba p) 2 ?new) w1 = (r2, o2, w2)"
    by (cases "issue_command drv (HDIOC_WRITESECTOR (patch_lba p) 2 ?new) w1")
  obtain r3 o3 w3 where c3: "issue_command drv HDIOC_FLUSH w2 = (r3, o3, w3)"
    by (cases "issue_command drv HDIOC_FLUSH w2")
  obtain r4 verify w4 where c4: "hdd_read_raw_sectors drv (patch_lba p) 2 w3 = (r4, verify, w4)"
    by (cases "hdd_read_raw_sectors drv (patch_lba p) 2 w3")
  obtain build where b: "apa_forensic_build_patched_header scan p [] = (build, ?new)"
    unfolding patched_def by (cases "apa_forensic_build_patched_header scan p []") simp
  obtain o1 where e1: "events w1 = events w @ [(HDIOC_READSECTOR (patch_lba p) 2, r1, o1)]"
    "source = fill_buffer 1024 o1" using read_raw_events [OF c1] by auto
  obtain o4 where e4: "events w4 = events w3 @ [(HDIOC_READSECTOR (patch_lba p) 2, r4, o4)]"
    "verify = fill_buffer 1024 o4" using read_raw_events [OF c4] by auto
  note e = issue_command_events [OF c2] issue_command_events [OF c3] e1(1) e4(1)
  have run': "(code, w') =
    (if r1 < 0 then fail_forensic (- 376) ''pre-write source read'' w1
     else if source \<noteq> node_header ?node
     then fail_forensic (- 372) ''pre-write source stability compare'' w1
     else if build < 0 \<or> \<not> patch_header_is_safe scan p ?new
     then fail_forensic (- 373) ''build/final-validate patched APA header'' w1
     else if r2 < 0 then fail_forensic (- 374) ''HDIOC_WRITESECTOR APA header'' w2
     else if r3 < 0 then fail_forensic (- 375) ''HDIOC_FLUSH APA header'' w3
     else if r4 < 0 then fail_forensic (- 376) ''immediate APA header read-back'' w4
     else if verify \<noteq> ?new then fail_forensic (- 377) ''immediate APA header compare'' w4
     else (0, w4))"
    using run by (simp add: write_one_def Let_def c1 b c2 c3 c4 del: if_split cong: if_cong)
  consider "r1 < 0 \<or> source \<noteq> node_header ?node \<or> build < 0 \<or> \<not> patch_header_is_safe scan p ?new"
    | "0 \<le> r1" "source = node_header ?node" "patch_header_is_safe scan p ?new" "0 \<le> build" "r2 < 0"
    | "0 \<le> r1" "source = node_header ?node" "patch_header_is_safe scan p ?new" "0 \<le> build"
      "0 \<le> r2" "r3 < 0"
    | "0 \<le> r1" "source = node_header ?node" "patch_header_is_safe scan p ?new" "0 \<le> build"
      "0 \<le> r2" "0 \<le> r3" by linarith
  then show ?thesis
  proof cases
    case 1
    then show ?thesis
      using run' e by (auto simp: fail_forensic_def patch_stopped_def split: if_splits)
  next
    case 2
    then show ?thesis
      using run' e e1(2) by (auto simp: fail_forensic_def patch_stopped_def)
  next
    case 3
    then show ?thesis
      using run' e e1(2) by (auto simp: fail_forensic_def patch_stopped_def)
  next
    case 4
    then show ?thesis
      using run' e e1(2) e4(2)
      by (auto simp: fail_forensic_def patch_stopped_def patch_commit_def split: if_splits)
  qed
qed

lemma verify_one_events:
  assumes run: "verify_one_final drv scan p w = (code, w')"
  shows "\<exists>evs. events w' = events w @ evs \<and>
    (code = 0 \<and> patch_recheck scan p evs \<or> code < 0 \<and> only is_read evs)"
proof -
  obtain build where b: "apa_forensic_build_patched_header scan p [] = (build, patched scan p)"
    unfolding patched_def by (cases "apa_forensic_build_patched_header scan p []") simp
  obtain r1 verify w1 where c1: "hdd_read_raw_sectors drv (patch_lba p) 2 w = (r1, verify, w1)"
    by (cases "hdd_read_raw_sectors drv (patch_lba p) 2 w")
  obtain o1 where e1: "events w1 = events w @ [(HDIOC_READSECTOR (patch_lba p) 2, r1, o1)]"
    "verify = fill_buffer 1024 o1" using read_raw_events [OF c1] by auto
  show ?thesis
    using run b c1 e1 by (auto simp: verify_one_final_def fail_forensic_def patch_recheck_def
        split: if_splits)
qed

text \<open>A loop of transactions, each of which either completes or stops the loop.\<close>

lemma patch_loop_events:
  assumes step: "\<And>p w code w'. step p w = (code, w') \<Longrightarrow> \<exists>evs. events w' = events w @ evs \<and>
      (code = 0 \<and> P p evs \<or> code < 0 \<and> Q p evs)"
    and run: "patch_loop step skip ps w = (code, w')"
  shows "\<exists>evs. events w' = events w @ evs \<and>
    (code = 0 \<and> each_in_turn P (filter (\<lambda>p. \<not> skip p) ps) evs \<or>
     code < 0 \<and> (\<exists>done p rest e1 e2. filter (\<lambda>p. \<not> skip p) ps = done @ p # rest \<and>
       evs = e1 @ e2 \<and> each_in_turn P done e1 \<and> Q p e2))"
  using run
proof (induction ps arbitrary: w)
  case (Cons p ps)
  show ?case
  proof (cases "skip p")
    case False
    obtain r w1 where s: "step p w = (r, w1)" by (cases "step p w")
    obtain e where e: "events w1 = events w @ e" "r = 0 \<and> P p e \<or> r < 0 \<and> Q p e"
      using step [OF s] by blast
    show ?thesis
    proof (cases "r < 0")
      case True
      then have "code < 0" "w' = w1" "Q p e" using Cons.prems False s e by auto
      moreover have "filter (\<lambda>p. \<not> skip p) (p # ps) = [] @ p # filter (\<lambda>p. \<not> skip p) ps"
        "e = [] @ e" "each_in_turn P [] []"
        using False by simp_all
      ultimately show ?thesis using e(1) by blast
    next
      case ok: False
      then have tail: "patch_loop step skip ps w1 = (code, w')" and p: "P p e"
        using Cons.prems False s e by auto
      obtain evs where evs: "events w' = events w1 @ evs"
        "code = 0 \<and> each_in_turn P (filter (\<lambda>p. \<not> skip p) ps) evs \<or>
         code < 0 \<and> (\<exists>done p rest e1 e2. filter (\<lambda>p. \<not> skip p) ps = done @ p # rest \<and>
           evs = e1 @ e2 \<and> each_in_turn P done e1 \<and> Q p e2)"
        using Cons.IH [OF tail] by blast
      have all: "events w' = events w @ (e @ evs)" using evs(1) e(1) by simp
      from evs(2) show ?thesis
      proof (elim disjE conjE exE)
        assume "code = 0" "each_in_turn P (filter (\<lambda>p. \<not> skip p) ps) evs"
        then show ?thesis using all p False by (intro exI [of _ "e @ evs"]) auto
      next
        fix before q rest e1 e2
        assume c: "code < 0" "filter (\<lambda>p. \<not> skip p) ps = before @ q # rest"
          and e': "evs = e1 @ e2" "each_in_turn P before e1" "Q q e2"
        have "filter (\<lambda>p. \<not> skip p) (p # ps) = (p # before) @ q # rest"
          "e @ evs = (e @ e1) @ e2" "each_in_turn P (p # before) (e @ e1)"
          using c(2) e' p False by auto
        then show ?thesis using all c(1) e'(3) by blast
      qed
    qed
  qed (use Cons in simp)
qed simp

lemma write_pass_events:
  assumes "patch_loop (write_one drv scan) skip ps w = (code, w')"
  shows "\<exists>evs. events w' = events w @ evs \<and>
    (code = 0 \<and> each_in_turn (patch_commit scan) (filter (\<lambda>p. \<not> skip p) ps) evs \<or>
     code < 0 \<and> (\<exists>done p rest e1 e2. filter (\<lambda>p. \<not> skip p) ps = done @ p # rest \<and>
       evs = e1 @ e2 \<and> each_in_turn (patch_commit scan) done e1 \<and> patch_stopped scan p e2))"
  by (rule patch_loop_events [OF _ assms]) (rule write_one_events)

lemma verify_pass_events:
  assumes "patch_loop (verify_one_final drv scan) skip ps w = (code, w')"
  shows "\<exists>evs. events w' = events w @ evs \<and>
    (code = 0 \<and> each_in_turn (patch_recheck scan) (filter (\<lambda>p. \<not> skip p) ps) evs \<or>
     code < 0 \<and> (\<exists>done p rest e1 e2. filter (\<lambda>p. \<not> skip p) ps = done @ p # rest \<and>
       evs = e1 @ e2 \<and> each_in_turn (patch_recheck scan) done e1 \<and> only is_read e2))"
  by (rule patch_loop_events [OF _ assms]) (rule verify_one_events)

section \<open>Properties\<close>

text \<open>The events of a run that failed: some complete transactions, in order, and a last part.\<close>

definition repair_stopped ::
    "apa_forensic_result \<Rightarrow> apa_forensic_repair_plan \<Rightarrow> hdd_event list \<Rightarrow> bool" where
  "repair_stopped scan plan evs \<longleftrightarrow> (\<exists>before rest e1 e2.
    commit_order (plan_patches plan) = before @ rest \<and> evs = e1 @ e2 \<and>
    each_in_turn (patch_commit scan) before e1 \<and>
    (case rest of [] \<Rightarrow> only is_read e2 | p # _ \<Rightarrow> patch_stopped scan p e2))"

lemma each_recheck_reads: "each_in_turn (patch_recheck scan) ps evs \<Longrightarrow> only is_read evs"
  by (induction ps arbitrary: evs) (auto simp: patch_recheck_def)

text \<open>The two write passes together commit the patches in the order of \<open>commit_order\<close>.\<close>

lemma write_passes_events:
  assumes first: "patch_loop (write_one drv scan) (\<lambda>p. patch_lba p = 0) ps w = (r1, w1)"
    and second: "patch_loop (write_one drv scan) (\<lambda>p. patch_lba p \<noteq> 0) ps w1 = (r2, w2)"
    and whole: "(r, w') = (if r1 < 0 then (r1, w1) else (r2, w2))"
  shows "\<exists>evs. events w' = events w @ evs \<and>
    (r = 0 \<and> each_in_turn (patch_commit scan) (commit_order ps) evs \<or>
     r < 0 \<and> (\<exists>before p rest a b. commit_order ps = before @ p # rest \<and> evs = a @ b \<and>
       each_in_turn (patch_commit scan) before a \<and> patch_stopped scan p b))"
proof -
  let ?A = "filter (\<lambda>p. patch_lba p \<noteq> 0) ps" and ?B = "filter (\<lambda>p. patch_lba p = 0) ps"
  have order: "commit_order ps = ?A @ ?B" by (simp add: commit_order_def)
  obtain e1 where e1: "events w1 = events w @ e1"
    and d1: "r1 = 0 \<and> each_in_turn (patch_commit scan) ?A e1 \<or> r1 < 0 \<and>
      (\<exists>before p rest a b. ?A = before @ p # rest \<and> e1 = a @ b \<and>
        each_in_turn (patch_commit scan) before a \<and> patch_stopped scan p b)"
    using write_pass_events [OF first] by blast
  obtain e2 where e2: "events w2 = events w1 @ e2"
    and d2: "r2 = 0 \<and> each_in_turn (patch_commit scan) ?B e2 \<or> r2 < 0 \<and>
      (\<exists>before p rest a b. ?B = before @ p # rest \<and> e2 = a @ b \<and>
        each_in_turn (patch_commit scan) before a \<and> patch_stopped scan p b)"
    using write_pass_events [OF second, unfolded not_not] by blast
  show ?thesis
  proof (cases "r1 < 0")
    case True
    then obtain before p rest a b where s: "?A = before @ p # rest" "e1 = a @ b"
      "each_in_turn (patch_commit scan) before a" "patch_stopped scan p b" using d1 by auto
    have "commit_order ps = before @ p # (rest @ ?B)" by (simp add: order s(1))
    then show ?thesis using s True whole e1 by (intro exI [of _ e1]) auto
  next
    case False
    then have a: "each_in_turn (patch_commit scan) ?A e1" and r: "r = r2" "w' = w2"
      using d1 whole by auto
    have ev: "events w' = events w @ (e1 @ e2)" using e1 e2 r by simp
    from d2 show ?thesis
    proof (elim disjE conjE exE)
      assume "r2 = 0" "each_in_turn (patch_commit scan) ?B e2"
      then show ?thesis unfolding order each_append using ev a r by blast
    next
      fix before p rest a' b
      assume s: "r2 < 0" "?B = before @ p # rest" "e2 = a' @ b"
        "each_in_turn (patch_commit scan) before a'" "patch_stopped scan p b"
      have "commit_order ps = (?A @ before) @ p # rest" "e1 @ e2 = (e1 @ a') @ b"
        by (simp_all add: order s(2,3))
      moreover have "each_in_turn (patch_commit scan) (?A @ before) (e1 @ a')"
        unfolding each_append using a s(4) by blast
      ultimately show ?thesis using ev r s(1,5) by blast
    qed
  qed
qed

lemma forensic_repair_events:
  assumes "hdd_forensic_repair_apply_verified drv (Some scan) (Some plan) w = (code, w')"
  shows "\<exists>evs. events w' = events w @ evs \<and>
    (evs \<noteq> [] \<longrightarrow> \<not> scan_truncated scan \<and> plan_manual_allowed plan \<and>
      plan_map_index plan < length (scan_maps scan)) \<and>
    (code = 0 \<and> plan_patches plan \<noteq> [] \<and> (\<exists>e1 e2. evs = e1 @ e2 \<and>
       each_in_turn (patch_commit scan) (commit_order (plan_patches plan)) e1 \<and>
       each_in_turn (patch_recheck scan) (plan_patches plan) e2) \<or>
     code < 0 \<and> repair_stopped scan plan evs)"
proof (cases "scan_truncated scan \<or> \<not> plan_manual_allowed plan \<or> plan_patches plan = [] \<or>
    plan_map_index plan \<ge> length (scan_maps scan)")
  case True
  have "repair_stopped scan plan []"
    unfolding repair_stopped_def
    by (rule exI [of _ "[]"]) (auto simp: patch_stopped_def split: list.split)
  then show ?thesis
    using assms True by (auto simp: hdd_forensic_repair_apply_verified_def)
next
  case gate: False
  let ?ps = "plan_patches plan"
  obtain r1 w1 r2 w2 where l1: "patch_loop (write_one drv scan) (\<lambda>p. patch_lba p = 0) ?ps w = (r1, w1)"
    and l2: "patch_loop (write_one drv scan) (\<lambda>p. patch_lba p \<noteq> 0) ?ps w1 = (r2, w2)"
    by (metis surj_pair)
  obtain r wx where rw: "(r, wx) = (if r1 < 0 then (r1, w1) else (r2, w2))" by (metis surj_pair)
  obtain r3 w3 where l3: "patch_loop (verify_one_final drv scan) (\<lambda>p. False) ?ps w2 = (r3, w3)"
    by (metis surj_pair)
  have run: "(code, w') = (if r < 0 then (r, wx) else (r3, w3))" and wx: "\<not> r < 0 \<Longrightarrow> wx = w2"
    using assms gate rw by (auto simp: hdd_forensic_repair_apply_verified_def l1 l2 l3 split: if_splits)
  obtain e where e: "events wx = events w @ e"
    and d: "r = 0 \<and> each_in_turn (patch_commit scan) (commit_order ?ps) e \<or>
     r < 0 \<and> (\<exists>before p rest a b. commit_order ?ps = before @ p # rest \<and> e = a @ b \<and>
       each_in_turn (patch_commit scan) before a \<and> patch_stopped scan p b)"
    using write_passes_events [OF l1 l2 rw] by blast
  have gates: "\<not> scan_truncated scan \<and> plan_manual_allowed plan \<and>
      plan_map_index plan < length (scan_maps scan)" "?ps \<noteq> []" using gate by auto
  show ?thesis
  proof (cases "r < 0")
    case True
    then have "repair_stopped scan plan e" unfolding repair_stopped_def using d by fastforce
    then show ?thesis using run True e gates by (intro exI [of _ e]) auto
  next
    case False
    then have done_all: "each_in_turn (patch_commit scan) (commit_order ?ps) e" using d by auto
    have out: "code = r3" "w' = w3" using run False by simp_all
    obtain e3 where e3: "events w3 = events w @ (e @ e3)"
      and d3: "r3 = 0 \<and> each_in_turn (patch_recheck scan) ?ps e3 \<or> r3 < 0 \<and>
        (\<exists>before p rest a b. ?ps = before @ p # rest \<and> e3 = a @ b \<and>
          each_in_turn (patch_recheck scan) before a \<and> only is_read b)"
      using verify_pass_events [OF l3] e wx [OF False] by auto
    have "repair_stopped scan plan (e @ e3)" if neg: "r3 < 0"
    proof -
      obtain before a b where "e3 = a @ b" "each_in_turn (patch_recheck scan) before a" "only is_read b"
        using d3 neg by auto
      then have "only is_read e3" using each_recheck_reads by (simp add: only_simps(3))
      then show ?thesis unfolding repair_stopped_def using done_all
        by (intro exI [of _ "commit_order ?ps"] exI [of _ "[]"] exI [of _ e] exI [of _ e3]) simp
    qed
    then show ?thesis using d3 done_all gates out e3 by blast
  qed
qed

text \<open>
  Property C10: for every driver, a forensic repair run issues no command unless the scan is
  complete and the plan is non-empty, for one of its maps and allowed for manual repair.  It
  returns 0 exactly after a complete transaction for each patch (source reread and equal to the
  scanned header, the checked patched header written, flushed and read back), all headers at
  other sectors before those at sector 0, and after all of them a reread of every touched header.
  When it stops with an error, the transactions before were complete and in this order, and the
  last one wrote nothing but its own patched header, and only after its source check.
\<close>

theorem forensic_repair_outcome:
  assumes "hdd_forensic_repair_apply_verified drv (Some scan) (Some plan) w = (code, w')"
  shows "\<exists>evs. events w' = events w @ evs \<and>
    (evs \<noteq> [] \<longrightarrow> \<not> scan_truncated scan \<and> plan_manual_allowed plan \<and>
      plan_map_index plan < length (scan_maps scan)) \<and>
    (code = 0 \<and> plan_patches plan \<noteq> [] \<and> (\<exists>e1 e2. evs = e1 @ e2 \<and>
       each_in_turn (patch_commit scan) (commit_order (plan_patches plan)) e1 \<and>
       each_in_turn (patch_recheck scan) (plan_patches plan) e2) \<or>
     code < 0 \<and> repair_stopped scan plan evs)"
  by (rule forensic_repair_events [OF assms])

section \<open>A disk that keeps what is written to it\<close>

type_synonym sectors = "u32 \<Rightarrow> byte list"

definition write_sectors :: "u32 \<Rightarrow> u32 \<Rightarrow> byte list \<Rightarrow> sectors \<Rightarrow> sectors" where
  "write_sectors lba n bytes d =
    (\<lambda>s. if s - lba < n then bytes_at (512 * unat (s - lba)) 512 bytes else d s)"

definition sector_driver :: "sectors hdd_driver" where
  "sector_driver = \<lparr>devctl = \<lambda>cmd d. (case cmd of
      HDIOC_READSECTOR lba n \<Rightarrow> (0, concat (map (\<lambda>i. d (lba + of_nat i)) [0..<unat n]), d)
      | HDIOC_WRITESECTOR lba n bytes \<Rightarrow> (0, [], write_sectors lba n bytes d)
      | _ \<Rightarrow> (0, [], d)),
    getstat_mbr = \<lambda>d. (0, 0, 0x40000, d)\<rparr>"

definition header_at :: "sectors \<Rightarrow> u32 \<Rightarrow> byte list" where
  "header_at d lba = d lba @ d (lba + 1)"

definition well_sized :: "sectors \<Rightarrow> bool" where
  "well_sized d \<longleftrightarrow> (\<forall>s. length (d s) = 512)"

abbreviation apart :: "u32 \<Rightarrow> u32 \<Rightarrow> bool" where
  "apart a b \<equiv> a \<noteq> b \<and> a + 1 \<noteq> b \<and> b + 1 \<noteq> a"

lemma within_two: "s - lba < 2 \<longleftrightarrow> s = lba \<or> s = lba + 1" for s lba :: u32
proof
  assume "s - lba < 2"
  then have "unat (s - lba) = 0 \<or> unat (s - lba) = 1" by (auto simp: word_less_nat_alt)
  then have "s - lba = 0 \<or> s - lba = 1" by (simp add: word_unat_eq_iff)
  then show "s = lba \<or> s = lba + 1" by (auto simp: algebra_simps)
qed auto

lemma write_two [simp]:
  assumes "length h = 1024"
  shows "header_at (write_sectors lba 2 h d) lba = h"
    and "apart lba b \<Longrightarrow> header_at (write_sectors lba 2 h d) b = header_at d b"
    and "well_sized d \<Longrightarrow> well_sized (write_sectors lba 2 h d)"
    and "s \<noteq> lba \<Longrightarrow> s \<noteq> lba + 1 \<Longrightarrow> write_sectors lba 2 h d s = d s"
proof -
  show "header_at (write_sectors lba 2 h d) lba = h"
    using assms append_take_drop_id [of 512 h]
    by (simp add: header_at_def write_sectors_def bytes_at_def)
  show "apart lba b \<Longrightarrow> header_at (write_sectors lba 2 h d) b = header_at d b"
    unfolding header_at_def write_sectors_def within_two by (auto simp: algebra_simps)
  show "well_sized d \<Longrightarrow> well_sized (write_sectors lba 2 h d)"
    unfolding well_sized_def write_sectors_def within_two using assms
    by (auto simp: bytes_at_def)
  show "s \<noteq> lba \<Longrightarrow> s \<noteq> lba + 1 \<Longrightarrow> write_sectors lba 2 h d s = d s"
    unfolding write_sectors_def within_two by simp
qed

lemma sector_read:
  assumes "well_sized (device w)"
  shows "\<exists>w'. hdd_read_raw_sectors sector_driver lba 2 w = (0, header_at (device w) lba, w') \<and>
    device w' = device w"
proof -
  have "length (header_at (device w) lba) = 1024"
    using assms by (simp add: header_at_def well_sized_def)
  then show ?thesis
    by (simp add: hdd_read_raw_sectors_def issue_command_def sector_driver_def upt_rec [of 0 2]
        upt_rec [of "Suc 0" 2] fill_buffer_full header_at_def)
qed

text \<open>A patch that applies: its source is on the disk as scanned and its new header is safe.\<close>

definition patch_fits :: "apa_forensic_result \<Rightarrow> sectors \<Rightarrow> apa_forensic_patch \<Rightarrow> bool" where
  "patch_fits scan d p \<longleftrightarrow>
    header_at d (patch_lba p) = node_header (scan_nodes scan ! patch_node_index p) \<and>
    fst (apa_forensic_build_patched_header scan p []) = 0 \<and>
    length (patched scan p) = APA_HEADER_SIZE \<and> patch_header_is_safe scan p (patched scan p)"

definition apply_patch :: "apa_forensic_result \<Rightarrow> apa_forensic_patch \<Rightarrow> sectors \<Rightarrow> sectors" where
  "apply_patch scan p d = write_sectors (patch_lba p) 2 (patched scan p) d"

abbreviation disjoint_patches :: "apa_forensic_patch list \<Rightarrow> bool" where
  "disjoint_patches \<equiv> sorted_wrt (\<lambda>p q. apart (patch_lba p) (patch_lba q))"

lemma write_one_disk:
  assumes sized: "well_sized (device w)" and fits: "patch_fits scan (device w) p"
  shows "\<exists>w'. write_one sector_driver scan p w = (0, w') \<and>
    device w' = apply_patch scan p (device w)"
proof -
  let ?lba = "patch_lba p" and ?new = "patched scan p"
  have len: "length ?new = 1024" and safe: "patch_header_is_safe scan p ?new"
    and b: "apa_forensic_build_patched_header scan p [] = (0, ?new)"
    using fits by (simp_all add: patch_fits_def patched_def prod_eq_iff)
  obtain w1 where r1: "hdd_read_raw_sectors sector_driver ?lba 2 w =
      (0, node_header (scan_nodes scan ! patch_node_index p), w1)" "device w1 = device w"
    using sector_read [OF sized, of ?lba] fits by (auto simp: patch_fits_def)
  obtain w2 where r2: "issue_command sector_driver (HDIOC_WRITESECTOR ?lba 2 ?new) w1 = (0, [], w2)"
    "device w2 = apply_patch scan p (device w)"
    using r1(2) by (simp add: issue_command_def sector_driver_def apply_patch_def)
  obtain w3 where r3: "issue_command sector_driver HDIOC_FLUSH w2 = (0, [], w3)" "device w3 = device w2"
    by (simp add: issue_command_def sector_driver_def)
  have "well_sized (device w3)" "header_at (device w3) ?lba = ?new"
    using sized len by (simp_all add: r3 r2 apply_patch_def)
  then obtain w4 where r4: "hdd_read_raw_sectors sector_driver ?lba 2 w3 = (0, ?new, w4)"
      "device w4 = device w3"
    using sector_read [of w3 ?lba] by auto
  show ?thesis
    using r1 r2 r3 r4 safe b by (simp add: write_one_def)
qed

lemma apply_patch_simps:
  assumes "patch_fits scan d p"
  shows "header_at (apply_patch scan p d') (patch_lba p) = patched scan p"
    and "apart (patch_lba p) b \<Longrightarrow> header_at (apply_patch scan p d') b = header_at d' b"
    and "well_sized d' \<Longrightarrow> well_sized (apply_patch scan p d')"
    and "s \<noteq> patch_lba p \<Longrightarrow> s \<noteq> patch_lba p + 1 \<Longrightarrow> apply_patch scan p d' s = d' s"
  using assms by (simp_all add: patch_fits_def apply_patch_def)

lemma apply_patch_fits:
  "\<lbrakk>patch_fits scan d p; patch_fits scan d' q; apart (patch_lba p) (patch_lba q)\<rbrakk> \<Longrightarrow>
    patch_fits scan (apply_patch scan p d') q"
  using apply_patch_simps(2) [of scan d p "patch_lba q" d'] by (simp add: patch_fits_def)

lemma apply_all:
  assumes "disjoint_patches ps" and "\<forall>p \<in> set ps. patch_fits scan d0 p"
  shows "well_sized d \<longrightarrow> well_sized (fold (apply_patch scan) ps d)"
    and "(\<forall>p \<in> set ps. apart (patch_lba p) b) \<longrightarrow>
      header_at (fold (apply_patch scan) ps d) b = header_at d b"
    and "(\<forall>p \<in> set ps. s \<noteq> patch_lba p \<and> s \<noteq> patch_lba p + 1) \<longrightarrow>
      fold (apply_patch scan) ps d s = d s"
    and "\<forall>p \<in> set ps. header_at (fold (apply_patch scan) ps d) (patch_lba p) = patched scan p"
proof -
  show "well_sized d \<longrightarrow> well_sized (fold (apply_patch scan) ps d)"
    using assms(2) by (induction ps arbitrary: d) (auto simp: apply_patch_simps(3))
  have far: "(\<forall>p \<in> set qs. apart (patch_lba p) b) \<longrightarrow>
      header_at (fold (apply_patch scan) qs d) b = header_at d b"
    if "\<forall>p \<in> set qs. patch_fits scan d0 p" for qs b d
    using that by (induction qs arbitrary: d) (auto simp: apply_patch_simps(2))
  then show "(\<forall>p \<in> set ps. apart (patch_lba p) b) \<longrightarrow>
      header_at (fold (apply_patch scan) ps d) b = header_at d b" using assms(2) by blast
  show "(\<forall>p \<in> set ps. s \<noteq> patch_lba p \<and> s \<noteq> patch_lba p + 1) \<longrightarrow>
      fold (apply_patch scan) ps d s = d s"
    using assms(2) by (induction ps arbitrary: d) (auto simp: apply_patch_simps(4))
  show "\<forall>p \<in> set ps. header_at (fold (apply_patch scan) ps d) (patch_lba p) = patched scan p"
    using assms
  proof (induction ps arbitrary: d)
    case (Cons p ps)
    have "\<forall>q \<in> set ps. apart (patch_lba q) (patch_lba p)" using Cons.prems(1) by auto
    then have "header_at (fold (apply_patch scan) ps (apply_patch scan p d)) (patch_lba p) =
        patched scan p"
      using far [of ps "patch_lba p"] Cons.prems(2) apply_patch_simps(1) [of scan d0 p d] by simp
    then show ?case using Cons by simp
  qed simp
qed

lemma write_pass_disk:
  assumes "well_sized (device w)" and "disjoint_patches (filter (\<lambda>p. \<not> skip p) ps)"
    and "\<forall>p \<in> set (filter (\<lambda>p. \<not> skip p) ps). patch_fits scan (device w) p"
  shows "\<exists>w'. patch_loop (write_one sector_driver scan) skip ps w = (0, w') \<and>
    device w' = fold (apply_patch scan) (filter (\<lambda>p. \<not> skip p) ps) (device w)"
  using assms
proof (induction ps arbitrary: w)
  case (Cons p ps)
  show ?case
  proof (cases "skip p")
    case False
    then have fits: "patch_fits scan (device w) p" using Cons.prems(3) by simp
    obtain w1 where w1: "write_one sector_driver scan p w = (0, w1)"
        "device w1 = apply_patch scan p (device w)"
      using write_one_disk [OF Cons.prems(1) fits] by blast
    have "well_sized (device w1)"
      using Cons.prems(1) by (simp add: w1(2) apply_patch_simps(3) [OF fits])
    moreover have "\<forall>q \<in> set (filter (\<lambda>p. \<not> skip p) ps). patch_fits scan (device w1) q"
      unfolding w1(2) using Cons.prems False apply_patch_fits [OF fits] by simp
    ultimately show ?thesis using Cons.IH [of w1] Cons.prems(2) False w1 by simp
  qed (use Cons in simp)
qed simp

lemma verify_pass_disk:
  assumes "well_sized (device w)"
    and "\<forall>p \<in> set ps. header_at (device w) (patch_lba p) = patched scan p \<and>
      fst (apa_forensic_build_patched_header scan p []) = 0"
  shows "\<exists>w'. patch_loop (verify_one_final sector_driver scan) (\<lambda>p. False) ps w = (0, w') \<and>
    device w' = device w"
  using assms
proof (induction ps arbitrary: w)
  case (Cons p ps)
  have b: "apa_forensic_build_patched_header scan p [] = (0, patched scan p)"
    using Cons.prems(2) by (simp add: patched_def prod_eq_iff)
  obtain w1 where "hdd_read_raw_sectors sector_driver (patch_lba p) 2 w = (0, patched scan p, w1)"
      "device w1 = device w"
    using sector_read [OF Cons.prems(1), of "patch_lba p"] Cons.prems(2) by auto
  then show ?case
    using Cons.IH [of w1] Cons.prems b by (simp add: verify_one_final_def)
qed simp

lemma disjoint_apart:
  "\<lbrakk>disjoint_patches ps; p \<in> set ps; q \<in> set ps; p \<noteq> q\<rbrakk> \<Longrightarrow> apart (patch_lba p) (patch_lba q)"
  by (induction ps) auto

lemma repair_on_disk:
  assumes gate: "\<not> scan_truncated scan" "plan_manual_allowed plan" "plan_patches plan \<noteq> []"
      "plan_map_index plan < length (scan_maps scan)"
    and disk: "well_sized (device w)" "\<forall>p \<in> set (plan_patches plan). patch_fits scan (device w) p"
    and disjoint: "disjoint_patches (plan_patches plan)"
  shows "\<exists>w'. hdd_forensic_repair_apply_verified sector_driver (Some scan) (Some plan) w = (0, w') \<and>
    (\<forall>p \<in> set (plan_patches plan). header_at (device w') (patch_lba p) = patched scan p) \<and>
    (\<forall>s. (\<forall>p \<in> set (plan_patches plan). s \<noteq> patch_lba p \<and> s \<noteq> patch_lba p + 1) \<longrightarrow>
      device w' s = device w s)"
proof -
  let ?ps = "plan_patches plan"
  let ?A = "filter (\<lambda>p. \<not> patch_lba p = 0) ?ps" and ?B = "filter (\<lambda>p. patch_lba p = 0) ?ps"
  let ?d1 = "fold (apply_patch scan) ?A (device w)"
  let ?d2 = "fold (apply_patch scan) ?B ?d1"
  have split: "disjoint_patches ?A" "disjoint_patches ?B"
    using disjoint by (simp_all add: sorted_wrt_filter)
  have fits: "\<forall>p \<in> set ?A. patch_fits scan (device w) p" "\<forall>p \<in> set ?B. patch_fits scan (device w) p"
    using disk(2) by auto
  note A = apply_all [OF split(1) fits(1)] and B = apply_all [OF split(2) fits(2)]
  have across: "apart (patch_lba p) (patch_lba q)" if "p \<in> set ?A" "q \<in> set ?B" for p q
    using disjoint_apart [OF disjoint, of p q] that by auto
  obtain w1 where w1: "patch_loop (write_one sector_driver scan) (\<lambda>p. patch_lba p = 0) ?ps w = (0, w1)"
      "device w1 = ?d1"
    using write_pass_disk [OF disk(1) split(1) fits(1)] by blast
  have sized1: "well_sized (device w1)" using A(1) disk(1) w1(2) by simp
  have fits1: "\<forall>p \<in> set ?B. patch_fits scan (device w1) p"
  proof
    fix q
    assume q: "q \<in> set ?B"
    then have "header_at ?d1 (patch_lba q) = header_at (device w) (patch_lba q)"
      using A(2) across by blast
    then show "patch_fits scan (device w1) q"
      using fits(2) q w1(2) by (simp add: patch_fits_def)
  qed
  have skip: "filter (\<lambda>p. \<not> patch_lba p \<noteq> 0) ?ps = ?B" by simp
  obtain w2 where w2: "patch_loop (write_one sector_driver scan) (\<lambda>p. patch_lba p \<noteq> 0) ?ps w1 = (0, w2)"
      "device w2 = ?d2"
    using write_pass_disk [of w1 "\<lambda>p. patch_lba p \<noteq> 0" ?ps scan, unfolded skip] sized1 split(2) fits1 w1(2)
    by auto
  have sized2: "well_sized (device w2)" using B(1) sized1 w1(2) w2(2) by simp
  have heads: "header_at ?d2 (patch_lba p) = patched scan p" if "p \<in> set ?ps" for p
  proof (cases "patch_lba p = 0")
    case True
    then show ?thesis using that B(4) by simp
  next
    case False
    then have p: "p \<in> set ?A" using that by simp
    then have "\<forall>q \<in> set ?B. apart (patch_lba q) (patch_lba p)"
      using across [OF p] by fastforce
    then show ?thesis using B(2) A(4) p by simp
  qed
  have built: "\<forall>p \<in> set ?ps. fst (apa_forensic_build_patched_header scan p []) = 0"
    using disk(2) by (simp add: patch_fits_def)
  obtain w3 where w3: "patch_loop (verify_one_final sector_driver scan) (\<lambda>p. False) ?ps w2 = (0, w3)"
      "device w3 = device w2"
    using verify_pass_disk [OF sized2] heads built w2(2) by metis
  have rest: "?d2 s = device w s" if "\<forall>p \<in> set ?ps. s \<noteq> patch_lba p \<and> s \<noteq> patch_lba p + 1" for s
  proof -
    have "\<forall>p \<in> set ?A. s \<noteq> patch_lba p \<and> s \<noteq> patch_lba p + 1"
      "\<forall>p \<in> set ?B. s \<noteq> patch_lba p \<and> s \<noteq> patch_lba p + 1" using that by auto
    then show ?thesis using A(3) B(3) by metis
  qed
  show ?thesis
    using gate w1(1) w2 w3 heads rest by (simp add: hdd_forensic_repair_apply_verified_def)
qed

text \<open>
  On a disk that keeps what is written to it and whose headers are as scanned, a
  permitted plan whose patches are safe and lie in disjoint sectors is applied completely: the run
  returns 0, each touched header is the planned one, and every other sector is as before.
\<close>

theorem forensic_repair_completes:
  assumes gate: "\<not> scan_truncated scan" "plan_manual_allowed plan" "plan_patches plan \<noteq> []"
      "plan_map_index plan < length (scan_maps scan)"
    and disk: "well_sized (device w)" "\<forall>p \<in> set (plan_patches plan). patch_fits scan (device w) p"
    and disjoint: "disjoint_patches (plan_patches plan)"
  shows "\<exists>w'. hdd_forensic_repair_apply_verified sector_driver (Some scan) (Some plan) w = (0, w') \<and>
    (\<forall>p \<in> set (plan_patches plan). header_at (device w') (patch_lba p) = patched scan p) \<and>
    (\<forall>s. (\<forall>p \<in> set (plan_patches plan). s \<noteq> patch_lba p \<and> s \<noteq> patch_lba p + 1) \<longrightarrow>
      device w' s = device w s)"
  using assms by (rule repair_on_disk)

text \<open>A disk with two headers at sectors 0 and 8 whose links are to be set.\<close>

definition sample_header :: "u32 \<Rightarrow> byte list" where
  "sample_header lba = write_le32 APA_START_OFFSET lba (write_le32 APA_LENGTH_OFFSET 0x1000
    (blit 4 apa_magic (replicate 1024 0)))"

definition sample_disk :: sectors where
  "sample_disk = write_sectors 8 2 (sample_header 8) (write_sectors 0 2 (sample_header 0)
    (\<lambda>s. replicate 512 0))"

definition sample_scan_two :: apa_forensic_result where
  "sample_scan_two = (empty_result 0x100000)\<lparr>scan_maps := [empty_map APA_FORENSIC_MAP_FORWARD],
    scan_nodes := [node_of_header (sample_header 0) 0 0 0xB 100,
      node_of_header (sample_header 8) 8 0 0xB 100]\<rparr>"

definition sample_patch :: "nat \<Rightarrow> u32 \<Rightarrow> apa_forensic_patch" where
  "sample_patch k lba = \<lparr>patch_node_index = k, patch_lba = lba, patch_old_next = 0,
    patch_old_prev = 0, patch_new_next = 8 - lba, patch_new_prev = 8 - lba,
    patch_checksum_corroborated = False\<rparr>"

definition sample_plan :: apa_forensic_repair_plan where
  "sample_plan = (empty_plan 0 96)\<lparr>plan_manual_allowed := True,
    plan_patches := [sample_patch 0 0, sample_patch 1 8]\<rparr>"

lemma sample_header_fields: "length (sample_header lba) = 1024"
    "read_le32 (sample_header lba) APA_START_OFFSET = lba"
    "read_le32 (sample_header lba) APA_LENGTH_OFFSET = 0x1000"
    "read_le32 (sample_header lba) APA_NEXT_OFFSET = 0"
    "read_le32 (sample_header lba) APA_PREV_OFFSET = 0"
    "bytes_at APA_MAGIC_OFFSET 4 (sample_header lba) = apa_magic"
  by (simp_all add: sample_header_def writes_def buf_simps apa_magic_def read_zero32)

lemma sample_fits:
  assumes "lba = 0 \<and> k = 0 \<or> lba = 8 \<and> k = 1"
  shows "patch_fits sample_scan_two sample_disk (sample_patch k lba)"
proof -
  let ?p = "sample_patch k lba" and ?h = "sample_header lba"
  have node: "scan_nodes sample_scan_two ! k = node_of_header ?h lba 0 0xB 100"
    "k < length (scan_nodes sample_scan_two)"
    using assms by (auto simp: sample_scan_two_def)
  have p: "patch_node_index ?p = k" "patch_lba ?p = lba" "patch_old_next ?p = 0" "patch_old_prev ?p = 0"
    by (simp_all add: sample_patch_def)
  have n: "node_header (node_of_header ?h lba c e f) = ?h" "node_lba (node_of_header ?h lba c e f) = lba"
    "node_next (node_of_header ?h lba c e f) = 0" "node_prev (node_of_header ?h lba c e f) = 0"
    "node_evidence (node_of_header ?h lba c e f) = e" for c e f
    by (simp_all add: node_of_header_def sample_header_fields)
  have run: "apa_forensic_build_patched_header sample_scan_two ?p [] = (0, patched sample_scan_two ?p)"
    using node by (simp add: patched_def apa_forensic_build_patched_header_def Let_def p n)
  note new = patched_header_ok(1,2) [OF run, unfolded p node(1) n, OF sample_header_fields(1)]
  have same: "bytes_at APA_MAGIC_OFFSET 4 (patched sample_scan_two ?p) = apa_magic"
    "read_le32 (patched sample_scan_two ?p) APA_START_OFFSET = lba"
    "read_le32 (patched sample_scan_two ?p) APA_LENGTH_OFFSET = 0x1000"
    using node(2) sample_header_fields [of lba]
    by (simp_all add: patched_def apa_forensic_build_patched_header_def Let_def p node(1) n writes_def
        buf_simps)
  have at: "header_at sample_disk lba = ?h"
    using assms sample_header_fields(1) by (auto simp: sample_disk_def)
  show ?thesis
    using new same at node(2) run
    by (simp add: patch_fits_def patch_header_is_safe_def Let_def p node(1) n)
qed

lemma well_sized_zero: "well_sized (\<lambda>s. replicate 512 0)"
  by (simp add: well_sized_def)

lemma sample_facts: "\<not> scan_truncated sample_scan_two" "plan_manual_allowed sample_plan"
    "plan_patches sample_plan = [sample_patch 0 0, sample_patch 1 8]"
    "plan_patches sample_plan \<noteq> []" "plan_map_index sample_plan < length (scan_maps sample_scan_two)"
    "patch_lba (sample_patch k lba) = lba" "well_sized sample_disk"
  by (simp_all add: sample_scan_two_def sample_plan_def empty_plan_def empty_result_def
      sample_patch_def sample_disk_def sample_header_fields(1) well_sized_zero)

lemma sample_runs:
  "\<forall>p \<in> set (plan_patches sample_plan). patch_fits sample_scan_two (device (fresh_world sample_disk)) p"
  "disjoint_patches (plan_patches sample_plan)" "well_sized (device (fresh_world sample_disk))"
  using sample_fits by (auto simp: sample_facts fresh_world_def)

theorem forensic_repair_completes_witness:
  "\<exists>w'. hdd_forensic_repair_apply_verified sector_driver (Some sample_scan_two) (Some sample_plan)
    (fresh_world sample_disk) = (0, w') \<and>
    header_at (device w') 8 = patched sample_scan_two (sample_patch 1 8)"
  using forensic_repair_completes [OF sample_facts(1,2,4,5) sample_runs(3,1,2)]
  by (auto simp: sample_facts(3,6))

lemma sample_run_forensic: "\<exists>w'. hdd_forensic_repair_apply_verified sector_driver
    (Some sample_scan_two) (Some sample_plan) (fresh_world sample_disk) = (0, w')"
  using repair_on_disk [OF sample_facts(1,2,4,5) sample_runs(3,1,2)] by (elim exE conjE) (rule exI)

lemma sample_order: "commit_order (plan_patches sample_plan) = [sample_patch 1 8, sample_patch 0 0]"
  by (simp add: commit_order_def sample_facts)

lemma fresh_events: "events (fresh_world d) = []"
  by (simp add: fresh_world_def)

theorem forensic_repair_outcome_witness:
  "\<exists>w'. hdd_forensic_repair_apply_verified sector_driver (Some sample_scan_two) (Some sample_plan)
    (fresh_world sample_disk) = (0, w') \<and>
    (\<exists>e1 e2. events w' = e1 @ e2 \<and>
      each_in_turn (patch_commit sample_scan_two) [sample_patch 1 8, sample_patch 0 0] e1 \<and>
      each_in_turn (patch_recheck sample_scan_two) [sample_patch 0 0, sample_patch 1 8] e2)"
proof -
  obtain w' where run: "hdd_forensic_repair_apply_verified sector_driver (Some sample_scan_two)
      (Some sample_plan) (fresh_world sample_disk) = (0, w')"
    by (rule exE [OF sample_run_forensic])
  obtain evs where evs: "events w' = evs"
    and out: "(0 :: int) = 0 \<and> plan_patches sample_plan \<noteq> [] \<and> (\<exists>e1 e2. evs = e1 @ e2 \<and>
      each_in_turn (patch_commit sample_scan_two) (commit_order (plan_patches sample_plan)) e1 \<and>
      each_in_turn (patch_recheck sample_scan_two) (plan_patches sample_plan) e2) \<or>
      (0 :: int) < 0 \<and> repair_stopped sample_scan_two sample_plan evs"
    using forensic_repair_outcome [OF run, unfolded fresh_events append_Nil] by (elim exE conjE) (rule that)
  have "\<exists>e1 e2. evs = e1 @ e2 \<and>
      each_in_turn (patch_commit sample_scan_two) (commit_order (plan_patches sample_plan)) e1 \<and>
      each_in_turn (patch_recheck sample_scan_two) (plan_patches sample_plan) e2"
    by (rule disjE [OF out]) (elim conjE, assumption, elim conjE, erule notE [rotated], rule less_irrefl)
  then have "\<exists>e1 e2. events w' = e1 @ e2 \<and>
      each_in_turn (patch_commit sample_scan_two) [sample_patch 1 8, sample_patch 0 0] e1 \<and>
      each_in_turn (patch_recheck sample_scan_two) [sample_patch 0 0, sample_patch 1 8] e2"
    unfolding sample_order unfolding evs sample_facts(3) .
  then show ?thesis by (intro exI [of _ w'] conjI run)
qed

end
