(* ===== verification/ForensicController.thy ===== *)
theory ForensicController
  imports PadInput ForensicTrace HddForensicRepair
begin

text \<open>
  Forensic recovery as the user meets it: \<open>src/forensic_controller_ps2.c\<close>.  A scan of the raw disk is
  kept in memory, its maps can be browsed and reported, and a plan can be applied.  The lemmas show
  that the disk is only ever changed by the guarded writer, for an allowed plan of the complete scan
  in memory, after every header it touches was stored in a confirmed snapshot, and with the buttons
  held.
\<close>

unbundle bit_operations_syntax

abbreviation (input) FORENSIC_REPORT_BYTES :: nat where "FORENSIC_REPORT_BYTES \<equiv> 524288"

text \<open>The scan in memory.\<close>

record forensic_memory =
  fm_result :: apa_forensic_result
  fm_valid :: bool

definition raw_reader :: "'f platform \<Rightarrow> 'f hdd_world forensic_reader" where
  "raw_reader api lba sectors h = hdd_read_raw_sectors (fx_hdd api) lba (of_nat sectors) h"

definition get_total_sectors :: "'f platform \<Rightarrow> 'f session \<Rightarrow> (int + u32) \<times> 'f session" where
  "get_total_sectors api s =
    (let (v, out, s1) = devctl_now api HDIOC_TOTALSECTOR s in
     if v < 0 \<and> v > - 4096 then (Inl v, s1)
     else if (of_int v :: u32) < 2 then (Inl (- 1), s1) else (Inr (of_int v), s1))"

definition log_scan :: "apa_forensic_result \<Rightarrow> 'f session \<Rightarrow> 'f session" where
  "log_scan r s =
    (let s1 = log_items [Lit ''APA forensic scan: sectors=0x'', PadHex 8 (unat (scan_total_sectors r)),
       Lit '' nodes='', Uns (length (scan_nodes r)), Lit '' dormant_free='', Uns (scan_dormant_free_nodes r),
       Lit '' maps='', Uns (length (scan_maps r)), Lit '' grid='', Uns (scan_grid_reads r),
       Lit '' refs='', Uns (scan_reference_reads r), Lit '' unreadable='', Uns (scan_unreadable_reads r),
       Lit '' truncated='', Dec (if scan_truncated r then 1 else 0)] s in
     if scan_truncated r
     then log_items [Lit ''APA forensic write gate: LOCKED because scan reached node capacity '',
       Uns APA_FORENSIC_MAX_NODES] s1
     else s1)"

definition run_scan ::
    "'f platform \<Rightarrow> forensic_memory \<Rightarrow> 'f session \<Rightarrow> int \<times> forensic_memory \<times> 'f session" where
  "run_scan api fm s =
    (let (total, s1) = get_total_sectors api s in
     (case total of
        Inl e \<Rightarrow> (e, fm, s1)
      | Inr tot \<Rightarrow>
          (case apa_forensic_scan (Some (raw_reader api)) tot None (disk_view (se_world s1)) of
             None \<Rightarrow> (- 1, fm\<lparr>fm_valid := False\<rparr>, s1)
           | Some (r, h) \<Rightarrow>
               (0, \<lparr>fm_result = r, fm_valid = True\<rparr>,
                flush_log api (log_scan r (s1\<lparr>se_world := after_disk (se_world s1) h\<rparr>))))))"

section \<open>The report\<close>

definition yes_no :: "bool \<Rightarrow> string \<Rightarrow> string \<Rightarrow> format_item" where
  "yes_no b y n = Lit (if b then y else n)"

abbreviation (input) hex32 :: "u32 \<Rightarrow> format_item" where "hex32 v \<equiv> PadHex 8 (unat v)"

definition forensic_heading :: "apa_forensic_result \<Rightarrow> format_item list list" where
  "forensic_heading r =
    [[line_end ''PS2 HDD Bootstrap Manager - APA FORENSIC REPORT'', newline],
     [Lit ''Disk sectors : 0x'', hex32 (scan_total_sectors r), newline],
     [Lit ''Grid step    : 0x'', hex32 (scan_grid_step r), newline],
     [Lit ''Grid reads   : '', Uns (scan_grid_reads r), newline, Lit ''Reference reads: '',
      Uns (scan_reference_reads r), newline, Lit ''Unreadable   : '', Uns (scan_unreadable_reads r), newline],
     [Lit ''Nodes        : '', Uns (length (scan_nodes r)), Lit '' / '', Uns APA_FORENSIC_MAX_NODES,
      line_end '' capacity'', Lit ''Dormant free : '', Uns (scan_dormant_free_nodes r), newline,
      Lit ''Maps         : '', Uns (length (scan_maps r)), newline,
      Lit ''Truncated    : '', yes_no (scan_truncated r) ''YES'' ''no'', newline]] @
    (if scan_dormant_free_nodes r \<noteq> 0
     then [[Lit ''Dormant free note: checksum-valid historical __empty headers wholly covered '',
       Lit ''by an active coalesced __empty extent; retained as evidence, '',
       line_end ''excluded from active-map confidence'']]
     else []) @
    (if scan_truncated r
     then [[line_end ''Write planning: LOCKED - scan is incomplete; visible tail is not physical tail'']]
     else [[line_end ''Write planning: complete-scan policy applies'']]) @
    [[newline]]"

definition forensic_map_lines :: "apa_forensic_result \<Rightarrow> nat \<Rightarrow> format_item list list" where
  "forensic_map_lines r i =
    (let m = scan_maps r ! i; (code, plan) = apa_forensic_build_repair_plan r i (empty_plan 0 0) in
     [[Lit ''MAP '', Uns (i + 1), Lit '': '', Lit (apa_forensic_map_name (map_kind m)), newline,
       Lit '' confidence='', Uns (map_confidence m), Lit '' nodes='', Uns (length (map_order m)),
       Lit '' reciprocal='', Uns (map_reciprocal_links m), Lit '' inferred='', Uns (map_inferred_links m),
       Lit '' conflicts='', Uns (map_conflicts m), Lit '' overlaps='', Uns (map_overlaps m),
       Lit '' repairable='', yes_no (map_repairable m) ''yes'' ''no'', newline],
      [Lit '' patches='', Uns (length (plan_patches plan)), Lit '' corroborated='',
       Uns (plan_corroborated_count plan), Lit '' speculative='', Uns (plan_speculative_count plan),
       Lit '' automatic='', yes_no (plan_automatic_safe plan) ''yes'' ''no'',
       Lit '' manual='', yes_no (plan_manual_allowed plan) ''yes'' ''no'', newline, newline]])"

definition forensic_node_lines :: "apa_forensic_result \<Rightarrow> nat \<Rightarrow> format_item list list" where
  "forensic_node_lines r i =
    (let n = scan_nodes r ! i in
     [[Lit ''['', Uns i, Lit ''] LBA=0x'', hex32 (node_lba n), Lit '' id='', Str [0x27],
       Str (array_string (node_id n)), Str [0x27], Lit '' confidence='', Uns (node_confidence n),
       Lit '' evidence=0x'', hex32 (node_evidence n),
       yes_no (node_evidence n AND EVIDENCE_DORMANT_FREE \<noteq> 0) '' DORMANT_FREE'' [], newline],
      [Lit '' start=0x'', hex32 (node_start n), Lit '' length=0x'', hex32 (node_length n),
       Lit '' prev=0x'', hex32 (node_prev n), Lit '' next=0x'', hex32 (node_next n),
       Lit '' type=0x'', PadHex 4 (unat (node_type n)), Lit '' flags=0x'', PadHex 4 (unat (node_flags n)), newline],
      [Lit '' main=0x'', hex32 (node_main n), Lit '' number='', Uns (unat (node_number n)),
       Lit '' nsub='', Uns (unat (node_nsub n)), Lit '' checksum='',
       yes_no (node_stored_checksum n = node_calculated_checksum n) ''OK'' ''BAD'', newline, newline]])"

definition forensic_pieces :: "apa_forensic_result \<Rightarrow> format_item list list" where
  "forensic_pieces r =
    forensic_heading r @ concat (map (forensic_map_lines r) [0..<length (scan_maps r)]) @
    [[line_end ''DISCOVERED HEADERS'', newline]] @
    concat (map (forensic_node_lines r) [0..<length (scan_nodes r)])"

definition forensic_report :: "apa_forensic_result \<Rightarrow> byte list" where
  "forensic_report r =
    (let whole = append_all FORENSIC_REPORT_BYTES [] (forensic_pieces r) in
     if length whole \<ge> FORENSIC_REPORT_BYTES - 1
     then take (FORENSIC_REPORT_BYTES - 32) whole @ [0x0a] @ ascii ''[REPORT TRUNCATED]'' @ [0x0a]
     else whole)"

definition save_report :: "'f platform \<Rightarrow> forensic_memory \<Rightarrow> 'f session \<Rightarrow> int \<times> 'f session" where
  "save_report api fm s =
    (if \<not> fm_valid fm then (- 1, s)
     else let (r, w) = write_whole_file api (storage_path 64 (se_storage s) (ascii ''FORENSIC.TXT''))
            (array_string (forensic_report (fm_result fm))) (se_world s) in
       (r, s\<lparr>se_world := w\<rparr>))"

section \<open>The screens\<close>

text \<open>Looking through the patches of a plan; True when the user asks for the snapshot.\<close>

partial_function (option) patch_menu :: "'f platform \<Rightarrow> nat \<Rightarrow> nat \<Rightarrow> 'f session \<Rightarrow> (bool \<times> 'f session) option" where
  "patch_menu api entries position s =
    (case wait_for_press api s of
       None \<Rightarrow> None
     | Some (buttons, s1) \<Rightarrow>
         let p1 = (if pressed buttons PAD_LEFT \<and> position > 0 then position - 1 else position);
             p2 = (if pressed buttons PAD_RIGHT \<and> p1 + 1 < entries then p1 + 1 else p1) in
         if pressed buttons PAD_TRIANGLE then Some (False, s1)
         else if pressed buttons PAD_CROSS then Some (True, s1)
         else patch_menu api entries p2 s1)"

definition forensic_chord :: "apa_forensic_repair_plan \<Rightarrow> u32" where
  "forensic_chord plan = (if plan_automatic_safe plan then PAD_L1 OR PAD_R1 OR PAD_SQUARE
    else PAD_L1 OR PAD_R1 OR PAD_L2 OR PAD_R2 OR PAD_SQUARE)"

definition apply_plan_now ::
    "'f platform \<Rightarrow> apa_forensic_result \<Rightarrow> apa_forensic_repair_plan \<Rightarrow> 'f session \<Rightarrow> int \<times> 'f session" where
  "apply_plan_now api r plan s =
    (let (code, h) = hdd_forensic_repair_apply_verified (fx_hdd api) (Some r) (Some plan) (disk_view (se_world s)) in
     (code, s\<lparr>se_world := after_disk (se_world s) h\<rparr>))"

text \<open>A screen returns True when a plan has been applied: a restart is mandatory.\<close>

definition repair_plan_screen ::
    "'f platform \<Rightarrow> apa_forensic_result \<Rightarrow> nat \<Rightarrow> 'f session \<Rightarrow> (bool \<times> 'f session) option" where
  "repair_plan_screen api r map_index s =
    (if scan_truncated r then map_option (Pair False) (show_result api s)
     else let (code, plan) = apa_forensic_build_repair_plan r map_index (empty_plan 0 0) in
       if code < 0 then Some (False, s)
       else if plan_patches plan = [] \<or> \<not> plan_manual_allowed plan
       then map_option (Pair False) (show_result api s)
       else (case patch_menu api (length (plan_patches plan)) 0 s of
           None \<Rightarrow> None
         | Some (go, s1) \<Rightarrow>
             if \<not> go then Some (False, s1)
             else let (snapshot, w) = forensic_snapshot_save api (se_storage s1) r plan (se_world s1);
                      s2 = s1\<lparr>se_world := w\<rparr> in
               (case snapshot of
                  Inl e \<Rightarrow> map_option (Pair False) (show_result api s2)
                | Inr p \<Rightarrow>
                    (case ask_chord api (forensic_chord plan) s2 of
                       None \<Rightarrow> None
                     | Some (yes, s3) \<Rightarrow>
                         if \<not> yes then Some (False, s3)
                         else let (code, s4) = apply_plan_now api r plan s3 in
                           map_option (Pair True) (wait_cross api (flush_log api (log_items
                             [Lit ''Forensic topology repair result='', Dec code, Lit '' map='', Uns map_index,
                              Lit '' confidence='', Uns (plan_confidence plan),
                              Lit '' patches='', Uns (length (plan_patches plan)),
                              Lit '' corroborated='', Uns (plan_corroborated_count plan),
                              Lit '' speculative='', Uns (plan_speculative_count plan),
                              Lit '' snapshot='', Str p] s4)))))))"

partial_function (option) map_screen ::
    "'f platform \<Rightarrow> apa_forensic_result \<Rightarrow> nat \<Rightarrow> nat \<Rightarrow> 'f session \<Rightarrow> (bool \<times> 'f session) option" where
  "map_screen api r map_index position s =
    (case wait_for_press api s of
       None \<Rightarrow> None
     | Some (buttons, s1) \<Rightarrow>
         let p1 = (if pressed buttons PAD_LEFT \<and> position > 0 then position - 1 else position);
             p2 = (if pressed buttons PAD_RIGHT \<and> p1 + 1 < length (map_order (scan_maps r ! map_index))
               then p1 + 1 else p1) in
         (case (if pressed buttons PAD_SQUARE then repair_plan_screen api r map_index s1 else Some (False, s1)) of
            None \<Rightarrow> None
          | Some (applied, s2) \<Rightarrow>
              if applied then Some (True, s2)
              else if pressed buttons PAD_TRIANGLE then Some (False, s2)
              else map_screen api r map_index p2 s2))"

text \<open>What the buttons of the main screen do, one after the other.\<close>

definition select_map :: "u32 \<Rightarrow> nat \<Rightarrow> nat \<Rightarrow> nat" where
  "select_map buttons entries selected =
    (let s0 = (if selected \<ge> entries then 0 else selected);
         s1 = (if pressed buttons PAD_UP \<and> entries \<noteq> 0 then (s0 + entries - 1) mod entries else s0) in
     if pressed buttons PAD_DOWN \<and> entries \<noteq> 0 then (s1 + 1) mod entries else s1)"

definition inspect_step ::
    "'f platform \<Rightarrow> forensic_memory \<Rightarrow> u32 \<Rightarrow> nat \<Rightarrow> 'f session \<Rightarrow> (bool \<times> 'f session) option" where
  "inspect_step api fm buttons selected s =
    (if pressed buttons PAD_CROSS \<and> scan_maps (fm_result fm) \<noteq> []
     then map_screen api (fm_result fm) selected 0 s else Some (False, s))"

definition report_step ::
    "'f platform \<Rightarrow> forensic_memory \<Rightarrow> u32 \<Rightarrow> 'f session \<Rightarrow> 'f session option" where
  "report_step api fm buttons s =
    (if pressed buttons PAD_SQUARE then let (result, s1) = save_report api fm s in show_result api s1 else Some s)"

definition rescan_step ::
    "'f platform \<Rightarrow> forensic_memory \<Rightarrow> u32 \<Rightarrow> nat \<Rightarrow> 'f session \<Rightarrow> (forensic_memory \<times> nat \<times> 'f session) option" where
  "rescan_step api fm buttons selected s =
    (if pressed buttons PAD_START
     then let (result, fm1, s1) = run_scan api fm s in
       map_option (\<lambda>s2. (fm1, 0, s2)) (if result < 0 then show_result api s1 else Some s1)
     else Some (fm, selected, s))"

partial_function (option) forensic_menu ::
    "'f platform \<Rightarrow> forensic_memory \<Rightarrow> nat \<Rightarrow> 'f session \<Rightarrow> (bool \<times> forensic_memory \<times> 'f session) option" where
  "forensic_menu api fm selected s =
    (case wait_for_press api s of
       None \<Rightarrow> None
     | Some (buttons, s1) \<Rightarrow>
         let chosen = select_map buttons (length (scan_maps (fm_result fm))) selected in
         (case inspect_step api fm buttons chosen s1 of
            None \<Rightarrow> None
          | Some (applied, s2) \<Rightarrow>
              if applied then Some (True, fm, s2)
              else (case report_step api fm buttons s2 of
                  None \<Rightarrow> None
                | Some s3 \<Rightarrow>
                    (case rescan_step api fm buttons chosen s3 of
                       None \<Rightarrow> None
                     | Some (fm1, selected1, s4) \<Rightarrow>
                         if pressed buttons PAD_TRIANGLE then Some (False, fm1, s4)
                         else forensic_menu api fm1 selected1 s4))))"

definition forensic_controller_screen ::
    "'f platform \<Rightarrow> forensic_memory \<Rightarrow> 'f session \<Rightarrow> (bool \<times> forensic_memory \<times> 'f session) option" where
  "forensic_controller_screen api fm s =
    (if fm_valid fm then forensic_menu api fm 0 s
     else let (result, fm1, s1) = run_scan api fm s in
       if result < 0 then map_option (\<lambda>s2. (False, fm1, s2)) (show_result api s1)
       else forensic_menu api fm1 0 s1)"

section \<open>Scanning only reads\<close>

definition reads_only :: "'f hdd_world \<Rightarrow> 'f hdd_world \<Rightarrow> bool" where
  "reads_only h h' \<longleftrightarrow> (\<exists>evs. events h' = events h @ evs \<and> only is_read evs)"

lemma reads_only_raw: "raw_reader api lba sectors h = (r, d, h') \<Longrightarrow> reads_only h h'"
  by (auto simp: raw_reader_def hdd_read_raw_sectors_def issue_command_def reads_only_def only_def
      split: prod.splits)

interpretation raw_scan: steady_reader "raw_reader api" reads_only "\<lambda>d. length d = 1024" for api
proof
  show "reads_only c c" for c :: "'a hdd_world" by (simp add: reads_only_def only_def)
  show "reads_only a b \<Longrightarrow> reads_only b c \<Longrightarrow> reads_only a c" for a b c :: "'a hdd_world"
    by (auto simp: reads_only_def only_def)
  show "reads_only c c' \<and> length h = 1024" if "raw_reader api lba 2 c = (r, h, c')" for lba c r h c'
    using reads_only_raw [OF that] that
    by (auto simp: raw_reader_def hdd_read_raw_sectors_def length_fill_buffer split: prod.splits)
qed

definition headers_sized :: "apa_forensic_result \<Rightarrow> bool" where
  "headers_sized r \<longleftrightarrow> (\<forall>n \<in> set (scan_nodes r). length (node_header n) = 1024)"

definition scanned :: "'f platform \<Rightarrow> forensic_memory \<Rightarrow> apa_forensic_result \<Rightarrow> bool" where
  "scanned api fm r \<longleftrightarrow> r = fm_result fm \<and> fm_valid fm \<or>
    (\<exists>tot h h'. apa_forensic_scan (Some (raw_reader api)) tot None h = Some (r, h') \<and> \<not> tot < 2)"

lemma scanned_sized:
  assumes "scanned api fm r" and "fm_valid fm \<Longrightarrow> headers_sized (fm_result fm)"
  shows "headers_sized r"
  using assms raw_scan.scan_kept(2) [of api] unfolding scanned_def headers_sized_def by blast

lemma total_facts:
  assumes "get_total_sectors api s = (r, t)"
  shows "still api s t" and "r = Inr tot \<Longrightarrow> \<not> tot < 2"
  using assms still_devctl [of api HDIOC_TOTALSECTOR s]
  by (auto simp: get_total_sectors_def split: prod.splits if_splits)

lemma run_scan_facts:
  assumes "run_scan api fm s = (result, fm', t)"
  shows "extends undisturbing (se_world s) (se_world t)"
    and "0 \<le> result \<Longrightarrow> fm_valid fm' \<and> scanned api fm (fm_result fm')"
    and "result < 0 \<Longrightarrow> fm' = fm"
proof -
  obtain total s1 where tot: "get_total_sectors api s = (total, s1)" by fastforce
  note s1 = total_facts [OF tot]
  have base: "extends undisturbing (se_world s) (se_world s1)" using s1(1) by (simp add: still_def)
  note run = assms [unfolded run_scan_def tot Let_def prod.case]
  have all: "extends undisturbing (se_world s) (se_world t) \<and>
      (0 \<le> result \<longrightarrow> fm_valid fm' \<and> scanned api fm (fm_result fm')) \<and>
      (result < 0 \<longrightarrow> fm' = fm)"
  proof (cases total)
    case (Inl e)
    have "e < 0" using tot Inl by (auto simp: get_total_sectors_def split: prod.splits if_splits)
    then show ?thesis using run Inl base by auto
  next
    case (Inr n)
    note big = s1(2) [OF Inr]
    obtain r h where scan: "apa_forensic_scan (Some (raw_reader api)) n None (disk_view (se_world s1)) = Some (r, h)"
      using big by (auto simp: apa_forensic_scan_def Let_def)
    have "reads_only (disk_view (se_world s1)) h" by (rule raw_scan.scan_kept(1) [OF scan])
    then have "extends undisturbing (se_world s1) (after_disk (se_world s1) h)"
      by (auto simp: reads_only_def disk_view_def intro: undisturbed_disk only_reads_ask)
    moreover define s2 where "s2 = s1\<lparr>se_world := after_disk (se_world s1) h\<rparr>"
    moreover have "quiet s2 (flush_log api (log_scan r s2))"
      by (intro quiet_flush) (simp add: log_scan_def Let_def)
    moreover have "scanned api fm r" using scan big unfolding scanned_def by blast
    ultimately have out: "extends undisturbing (se_world s) (se_world (flush_log api (log_scan r s2)))"
        "scanned api fm r"
      using base by (auto simp: quiet_def intro: extends_trans)
    then show ?thesis using run [unfolded Inr sum.case scan option.case prod.case s2_def [symmetric]] by auto
  qed
  then show "extends undisturbing (se_world s) (se_world t)"
    and "0 \<le> result \<Longrightarrow> fm_valid fm' \<and> scanned api fm (fm_result fm')"
    and "result < 0 \<Longrightarrow> fm' = fm" by auto
qed

section \<open>What a repair does\<close>

text \<open>
  A plan is applied: it is the plan of a map of a complete scan and allowed for manual repair; before
  its first command the image of every header it touches was stored and confirmed, without damage
  to any other file, and the buttons for this kind of plan were held; the commands are those of the
  guarded writer.
\<close>

definition plan_applied :: "'f platform \<Rightarrow> apa_forensic_result \<Rightarrow> 'f session \<Rightarrow> 'f session \<Rightarrow> bool" where
  "plan_applied api r s s' \<longleftrightarrow> (\<exists>k plan img p t (u :: 'f session) evs.
    \<not> scan_truncated r \<and> apa_forensic_build_repair_plan r k (empty_plan 0 0) = (0, plan) \<and>
    plan_manual_allowed plan \<and> still api s t \<and> snapshot_image_ok r plan img \<and>
    p \<in> storage_path 64 (se_storage t) ` set forensic_snapshot_names \<and>
    (\<forall>files fds. file_store api files fds \<longrightarrow> files (store (se_world t)) p = Some img) \<and>
    held_now api (forensic_chord plan) (se_world t) \<and>
    trace (se_world u) = trace (se_world t) @ map Disk evs \<and>
    ((\<exists>e1 e2. evs = e1 @ e2 \<and> each_in_turn (patch_commit r) (commit_order (plan_patches plan)) e1 \<and>
       each_in_turn (patch_recheck r) (plan_patches plan) e2) \<or> repair_stopped r plan evs) \<and>
    extends undisturbing (se_world u) (se_world s'))"

definition plan_flow :: "'f platform \<Rightarrow> apa_forensic_result \<Rightarrow> 'f session \<Rightarrow> bool \<times> 'f session \<Rightarrow> bool" where
  "plan_flow api r s out \<longleftrightarrow> (case out of (applied, s') \<Rightarrow>
    if applied then plan_applied api r s s' else still api s s')"

lemma plan_applied_prefix: "plan_applied api r t s' \<Longrightarrow> still api s t \<Longrightarrow> plan_applied api r s s'"
  unfolding plan_applied_def by (elim exE conjE) (blast intro: still_trans)

lemma plan_flow_prefix: "plan_flow api r t out \<Longrightarrow> still api s t \<Longrightarrow> plan_flow api r s out"
  by (auto simp: plan_flow_def intro: plan_applied_prefix still_trans split: if_splits prod.splits)

lemma plan_flow_idle: "still api s t \<Longrightarrow> plan_flow api r s (False, t)"
  by (simp add: plan_flow_def)

lemma still_patch_menu:
  assumes "patch_menu api entries position s = Some (go, t)"
  shows "still api s t \<and> se_storage t = se_storage s"
proof (rule patch_menu.raw_induct [OF _ assms, of "\<lambda>api entries position s out. still api s (snd out) \<and>
    se_storage (snd out) = se_storage s", unfolded snd_conv])
  fix menu :: "'a platform \<Rightarrow> nat \<Rightarrow> nat \<Rightarrow> 'a session \<Rightarrow> (bool \<times> 'a session) option" and api entries position s out
  assume ih: "\<And>api entries position s out. menu api entries position s = Some out \<Longrightarrow>
      still api s (snd out) \<and> se_storage (snd out) = se_storage s"
    and run: "(case wait_for_press api s of None \<Rightarrow> None
      | Some (buttons, s1) \<Rightarrow>
         let p1 = (if pressed buttons PAD_LEFT \<and> position > 0 then position - 1 else position);
             p2 = (if pressed buttons PAD_RIGHT \<and> p1 + 1 < entries then p1 + 1 else p1) in
         if pressed buttons PAD_TRIANGLE then Some (False, s1)
         else if pressed buttons PAD_CROSS then Some (True, s1)
         else menu api entries p2 s1) = Some out"
  obtain b s1 where p: "wait_for_press api s = Some (b, s1)" using run by (auto split: option.splits)
  have "still api s (snd out) \<and> se_storage (snd out) = se_storage s" if "menu api entries q s1 = Some out" for q
    using ih [OF that] still_press [OF p] by (auto intro: still_trans)
  then show "still api s (snd out) \<and> se_storage (snd out) = se_storage s"
    using run p still_press [OF p] by (auto simp: Let_def split: if_splits)
qed

lemma still_meta:
  assumes "forensic_snapshot_save api storage r plan (se_world s) = (res, w)" and "headers_sized r"
  shows "still api s (s\<lparr>se_world := w\<rparr>)"
proof -
  obtain built w1 where b: "build_snapshot_image api r plan (se_world s) = (built, w1)" by fastforce
  define ok w2 where "ok img = fst (heap_alloc api (length img) w1)" and "w2 img = snd (heap_alloc api (length img) w1)"
    for img :: "byte list"
  then have a: "heap_alloc api (length img) w1 = (ok img, w2 img)" for img by simp
  have w1: "extends undisturbing (se_world s) w1"
    using b by (auto simp: build_snapshot_image_def Let_def fail_snapshot_def dest!: trace_heap
        split: if_splits prod.splits sum.splits intro: extends_same)
  have w2: "extends undisturbing (se_world s) (w2 img)" for img
    using w1 trace_heap [OF a] by (blast intro: extends_trans extends_same)
  have "extends undisturbing (se_world s) w"
    using assms(1) w1 w2 meta.undisturbed_run [of api storage _ forensic_snapshot_names _ res w]
    by (auto simp: forensic_snapshot_save_def fail_snapshot_def b a Let_def split: if_splits sum.splits
        intro: extends_trans)
  then show ?thesis
    using forensic_snapshot_saved [OF assms(1)] assms(2) by (simp add: still_def headers_sized_def)
qed

lemma plan_loop_code: "plan_loop nodes order is plan = (c, q) \<Longrightarrow> c = 0 \<or> c = - 2"
  by (induction nodes order "is" plan rule: plan_loop.induct) (auto simp: Let_def split: if_splits)

lemma apply_plan_facts:
  assumes "apply_plan_now api r plan s = (code, t)"
  shows "se_storage t = se_storage s \<and> (\<exists>evs. trace (se_world t) = trace (se_world s) @ map Disk evs \<and>
    ((\<exists>e1 e2. evs = e1 @ e2 \<and> each_in_turn (patch_commit r) (commit_order (plan_patches plan)) e1 \<and>
       each_in_turn (patch_recheck r) (plan_patches plan) e2) \<or> repair_stopped r plan evs))"
proof -
  obtain h where run: "hdd_forensic_repair_apply_verified (fx_hdd api) (Some r) (Some plan) (disk_view (se_world s)) = (code, h)"
    and t: "t = s\<lparr>se_world := after_disk (se_world s) h\<rparr>"
    using assms by (auto simp: apply_plan_now_def split: prod.splits)
  obtain evs where "events h = evs" "(\<exists>e1 e2. evs = e1 @ e2 \<and>
      each_in_turn (patch_commit r) (commit_order (plan_patches plan)) e1 \<and>
      each_in_turn (patch_recheck r) (plan_patches plan) e2) \<or> repair_stopped r plan evs"
    using forensic_repair_events [OF run] by (auto simp: disk_view_def)
  then show ?thesis by (auto simp: t after_disk_def)
qed

lemma repair_plan_flow:
  assumes "repair_plan_screen api r map_index s = Some out" and sized: "headers_sized r"
  shows "plan_flow api r s out"
proof -
  obtain code plan where build: "apa_forensic_build_repair_plan r map_index (empty_plan 0 0) = (code, plan)" by fastforce
  have shown: "plan_flow api r s out" if "map_option (Pair False) (show_result api t) = Some out" "still api s t" for t
    using that still_result by (auto intro!: plan_flow_idle intro: still_trans)
  note run = assms(1) [unfolded repair_plan_screen_def build Let_def prod.case]
  show ?thesis
  proof (cases "scan_truncated r \<or> code < 0 \<or> plan_patches plan = [] \<or> \<not> plan_manual_allowed plan")
    case True
    then show ?thesis using run shown [of s] by (auto intro!: plan_flow_idle split: if_splits)
  next
    case ready: False
    have "code = 0 \<or> code = - 1 \<or> code = - 2"
      using build by (auto simp: apa_forensic_build_repair_plan_def Let_def dest: plan_loop_code
          split: if_splits prod.splits)
    then have code: "code = 0" using ready by auto
    obtain go s1 where menu: "patch_menu api (length (plan_patches plan)) 0 s = Some (go, s1)"
      using run ready by (auto split: option.splits)
    note s1 = still_patch_menu [OF menu]
    obtain snapshot w where sn: "forensic_snapshot_save api (se_storage s1) r plan (se_world s1) = (snapshot, w)" by fastforce
    define s2 where "s2 = s1\<lparr>se_world := w\<rparr>"
    have s2: "still api s s2" using s1 still_meta [OF sn sized] unfolding s2_def by (blast intro: still_trans)
    note run = run [unfolded menu option.case prod.case sn s2_def [symmetric]]
    show ?thesis
    proof (cases "go \<and> (\<exists>p. snapshot = Inr p)")
      case False
      then show ?thesis using run ready s1 shown [OF _ s2] by (auto intro!: plan_flow_idle split: if_splits sum.splits)
    next
      case True
      then obtain p where p: "snapshot = Inr p" and go: go by blast
      obtain img where img: "snapshot_image_ok r plan img" "confirmed api p img w"
          "p \<in> storage_path 64 (se_storage s1) ` set forensic_snapshot_names"
        using forensic_snapshot_saved [OF sn] sized by (auto simp: p headers_sized_def)
      obtain yes s3 where ask: "ask_chord api (forensic_chord plan) s2 = Some (yes, s3)"
        using run ready go by (auto simp: p split: option.splits)
      note a = ask_facts [OF ask]
      have s3: "still api s s3" using s2 still_chord [OF ask] by (rule still_trans)
      have storage: "se_storage s3 = se_storage s1" using a(1) by (simp add: quiet_def s2_def)
      have kept: "files (store (se_world s3)) p = Some img" if "file_store api files fds" for files fds
        using confirmed_stored [OF img(2) that] a(2) that by (auto simp: careful_def s2_def)
      obtain c s4 where ap: "apply_plan_now api r plan s3 = (c, s4)" by fastforce
      from apply_plan_facts [OF ap] obtain evs where evs: "trace (se_world s4) = trace (se_world s3) @ map Disk evs"
          "(\<exists>e1 e2. evs = e1 @ e2 \<and> each_in_turn (patch_commit r) (commit_order (plan_patches plan)) e1 \<and>
            each_in_turn (patch_recheck r) (plan_patches plan) e2) \<or> repair_stopped r plan evs" by blast
      have last: "extends undisturbing (se_world s4) (se_world u)"
        if "wait_cross api (flush_log api (log_items items s4)) = Some u" for u items
        using still_cross [OF that] quiet_flush [of "log_items items s4" "log_items items s4" api]
        by (auto simp: still_def quiet_def intro: extends_trans)
      note run = run [unfolded p sum.case ask option.case prod.case ap]
      show ?thesis
      proof (cases yes)
        case False
        then show ?thesis using run ready go s3 by (auto intro: plan_flow_idle)
      next
        case True
        then obtain s5 where out: "out = (True, s5)" "extends undisturbing (se_world s4) (se_world s5)"
          using run ready go last by auto
        show ?thesis
          unfolding plan_flow_def out(1) prod.case if_P [OF TrueI] plan_applied_def
          by (rule exI [of _ map_index], rule exI [of _ plan], rule exI [of _ img], rule exI [of _ p],
              rule exI [of _ s3], rule exI [of _ s4], rule exI [of _ evs])
            (intro conjI allI impI; use ready build code s3 img storage kept a(3) True evs out in \<open>simp; fail\<close>)
      qed
    qed
  qed
qed

lemma map_screen_flow:
  assumes "map_screen api r map_index position s = Some out" and "headers_sized r"
  shows "plan_flow api r s out"
proof -
  have "headers_sized r \<longrightarrow> plan_flow api r s out"
    if "map_screen api r map_index position s = Some out"
    for api :: "'a platform" and r map_index position s out
  proof (rule map_screen.raw_induct [OF _ that, of "\<lambda>api r map_index position s out. headers_sized r \<longrightarrow>
      plan_flow api r s out"], intro impI)
    fix menu :: "'a platform \<Rightarrow> apa_forensic_result \<Rightarrow> nat \<Rightarrow> nat \<Rightarrow> 'a session \<Rightarrow> (bool \<times> 'a session) option"
      and api r map_index position s out
    assume ih: "\<And>api r map_index position s out. menu api r map_index position s = Some out \<Longrightarrow>
        headers_sized r \<longrightarrow> plan_flow api r s out"
      and run: "(case wait_for_press api s of None \<Rightarrow> None
        | Some (buttons, s1) \<Rightarrow>
         let p1 = (if pressed buttons PAD_LEFT \<and> position > 0 then position - 1 else position);
             p2 = (if pressed buttons PAD_RIGHT \<and> p1 + 1 < length (map_order (scan_maps r ! map_index))
               then p1 + 1 else p1) in
         (case (if pressed buttons PAD_SQUARE then repair_plan_screen api r map_index s1 else Some (False, s1)) of
            None \<Rightarrow> None
          | Some (applied, s2) \<Rightarrow>
              if applied then Some (True, s2)
              else if pressed buttons PAD_TRIANGLE then Some (False, s2)
              else menu api r map_index p2 s2)) = Some out"
      and sized: "headers_sized r"
    obtain b s1 where p: "wait_for_press api s = Some (b, s1)" using run by (auto split: option.splits)
    obtain applied s2 where screen: "(if pressed b PAD_SQUARE then repair_plan_screen api r map_index s1
        else Some (False, s1)) = Some (applied, s2)" using run p by (auto simp: Let_def split: option.splits)
    have s2: "plan_flow api r s (applied, s2)"
      using plan_flow_prefix [OF repair_plan_flow [OF _ sized, of api map_index s1 "(applied, s2)"], of s]
        screen still_press [OF p] by (auto split: if_splits intro: plan_flow_idle)
    have again: "plan_flow api r s out" if "menu api r map_index q s2 = Some out" "\<not> applied" for q
      using plan_flow_prefix [OF ih [OF that(1), THEN mp, OF sized], of s] s2 that(2) by (simp add: plan_flow_def)
    show "plan_flow api r s out"
      using run p screen s2 again by (auto simp: Let_def split: if_splits)
  qed
  then show ?thesis using assms by blast
qed

text \<open>The whole session with the forensic screen.\<close>

definition forensic_flow ::
    "'f platform \<Rightarrow> forensic_memory \<Rightarrow> 'f session \<Rightarrow> bool \<times> forensic_memory \<times> 'f session \<Rightarrow> bool" where
  "forensic_flow api fm s out \<longleftrightarrow> (case out of (applied, fm', s') \<Rightarrow>
    if applied
    then \<exists>r t. extends undisturbing (se_world s) (se_world t) \<and> scanned api fm r \<and> plan_applied api r t s'
    else extends undisturbing (se_world s) (se_world s'))"

lemma forensic_flow_prefix:
  assumes "forensic_flow api fm1 t out" and "extends undisturbing (se_world s) (se_world t)"
    and "\<And>r. scanned api fm1 r \<Longrightarrow> scanned api fm r"
  shows "forensic_flow api fm s out"
proof -
  obtain applied fm' s' where out: "out = (applied, fm', s')" by (metis prod_cases3)
  show ?thesis
  proof (cases applied)
    case True
    then obtain r u where "extends undisturbing (se_world t) (se_world u)" "scanned api fm1 r" "plan_applied api r u s'"
      using assms(1) by (auto simp: forensic_flow_def out)
    then have "extends undisturbing (se_world s) (se_world u) \<and> scanned api fm r \<and> plan_applied api r u s'"
      using assms(2,3) by (blast intro: extends_trans)
    then show ?thesis unfolding forensic_flow_def out prod.case using True by auto
  next
    case False
    then show ?thesis using assms(1,2) by (auto simp: forensic_flow_def out intro: extends_trans)
  qed
qed

lemma report_facts: "report_step api fm buttons s = Some t \<Longrightarrow> extends undisturbing (se_world s) (se_world t)"
proof -
  assume run: "report_step api fm buttons s = Some t"
  obtain c s1 where save: "save_report api fm s = (c, s1)" by fastforce
  have s1: "extends undisturbing (se_world s) (se_world s1)"
    using save by (auto simp: save_report_def split: if_splits prod.splits dest: undisturbed_write_file)
  show ?thesis
    using run still_result [of api s1 t] s1
    by (auto simp: report_step_def save still_def split: if_splits intro: extends_trans)
qed

lemma scanned_again:
  "scanned api fm (fm_result fm1) \<Longrightarrow> scanned api fm1 r \<Longrightarrow> scanned api fm r"
  unfolding scanned_def by blast

lemma rescan_facts:
  assumes "rescan_step api fm buttons selected s = Some (fm1, selected1, t)" and "fm_valid fm"
  shows "extends undisturbing (se_world s) (se_world t) \<and> fm_valid fm1 \<and> scanned api fm (fm_result fm1)"
proof -
  obtain c fm2 s1 where scan: "run_scan api fm s = (c, fm2, s1)" by (metis prod_cases3)
  note f = run_scan_facts [OF scan]
  have idle: "scanned api fm (fm_result fm)" using assms(2) by (simp add: scanned_def)
  show ?thesis
    using assms f idle still_result [of api s1 t]
    by (auto simp: rescan_step_def scan still_def split: if_splits intro: extends_trans)
qed

lemma inspect_facts:
  assumes "inspect_step api fm buttons chosen s = Some (applied, t)" and "headers_sized (fm_result fm)"
  shows "plan_flow api (fm_result fm) s (applied, t)"
  using assms map_screen_flow by (auto simp: inspect_step_def split: if_splits intro: plan_flow_idle)

lemma forensic_menu_flow:
  assumes "forensic_menu api fm selected s = Some out" and "fm_valid fm" and "headers_sized (fm_result fm)"
  shows "forensic_flow api fm s out"
proof -
  have "fm_valid fm \<and> headers_sized (fm_result fm) \<longrightarrow> forensic_flow api fm s out"
    if "forensic_menu api fm selected s = Some out" for api :: "'a platform" and fm selected s out
  proof (rule forensic_menu.raw_induct [OF _ that, of "\<lambda>api fm selected s out.
      fm_valid fm \<and> headers_sized (fm_result fm) \<longrightarrow> forensic_flow api fm s out"], intro impI)
    fix menu :: "'a platform \<Rightarrow> forensic_memory \<Rightarrow> nat \<Rightarrow> 'a session \<Rightarrow>
        (bool \<times> forensic_memory \<times> 'a session) option" and api fm selected s out
    assume ih: "\<And>api fm selected s out. menu api fm selected s = Some out \<Longrightarrow>
        fm_valid fm \<and> headers_sized (fm_result fm) \<longrightarrow> forensic_flow api fm s out"
      and run: "(case wait_for_press api s of None \<Rightarrow> None
        | Some (buttons, s1) \<Rightarrow>
         let chosen = select_map buttons (length (scan_maps (fm_result fm))) selected in
         (case inspect_step api fm buttons chosen s1 of
            None \<Rightarrow> None
          | Some (applied, s2) \<Rightarrow>
              if applied then Some (True, fm, s2)
              else (case report_step api fm buttons s2 of
                  None \<Rightarrow> None
                | Some s3 \<Rightarrow>
                    (case rescan_step api fm buttons chosen s3 of
                       None \<Rightarrow> None
                     | Some (fm1, selected1, s4) \<Rightarrow>
                         if pressed buttons PAD_TRIANGLE then Some (False, fm1, s4)
                         else menu api fm1 selected1 s4)))) = Some out"
      and ok: "fm_valid fm \<and> headers_sized (fm_result fm)"
    define total where "total = length (scan_maps (fm_result fm))"
    obtain b s1 where p: "wait_for_press api s = Some (b, s1)" using run by (auto split: option.splits)
    obtain applied s2 where i: "inspect_step api fm b (select_map b total selected) s1 = Some (applied, s2)"
      using run p by (auto simp: Let_def total_def split: option.splits)
    note run = run [unfolded p option.case prod.case Let_def total_def [symmetric] i]
    have s2: "plan_flow api (fm_result fm) s (applied, s2)"
      using plan_flow_prefix [OF inspect_facts [OF i]] ok still_press [OF p] by blast
    show "forensic_flow api fm s out"
    proof (cases applied)
      case True
      then have "out = (True, fm, s2)" "plan_applied api (fm_result fm) s s2" "scanned api fm (fm_result fm)"
        using run s2 ok by (auto simp: plan_flow_def scanned_def)
      then show ?thesis using extends_refl [of undisturbing "se_world s"] by (auto simp: forensic_flow_def)
    next
      case False
      obtain s3 where r: "report_step api fm b s2 = Some s3" using run False by (auto split: option.splits)
      obtain fm1 selected1 s4 where q: "rescan_step api fm b (select_map b total selected) s3 = Some (fm1, selected1, s4)"
        using run False by (auto simp: r split: option.splits)
      note f = rescan_facts [OF q ok [THEN conjunct1]]
      have s4: "extends undisturbing (se_world s) (se_world s4)"
        using s2 False report_facts [OF r] f by (auto simp: plan_flow_def still_def intro: extends_trans)
      have fm1: "fm_valid fm1 \<and> headers_sized (fm_result fm1)" using f scanned_sized [of api fm] ok by blast
      note run = run [unfolded if_not_P [OF False] r option.case q prod.case]
      show ?thesis
      proof (cases "pressed b PAD_TRIANGLE")
        case True
        then show ?thesis using run s4 by (auto simp: forensic_flow_def)
      next
        case go: False
        then have "menu api fm1 selected1 s4 = Some out" using run by simp
        then have "forensic_flow api fm1 s4 out" using ih fm1 by blast
        then show ?thesis using s4 by (rule forensic_flow_prefix) (use f scanned_again in blast)
      qed
    qed
  qed
  then show ?thesis using assms by blast
qed

section \<open>Property\<close>

text \<open>
  Property C7: the forensic screen.  Every visit that ends either leaves the disk alone, or ends by
  applying one plan: the plan of a map of the complete scan in memory (the one of the beginning or
  one taken during the visit), allowed for manual repair; before its first command the image of
  every header the plan touches was stored in a snapshot slot and confirmed (on every device that
  keeps the laws of a file store), without damage to any other file, and the buttons were held that
  this kind of plan demands; the commands are the complete transactions of the guarded writer,
  or its transactions up to the one that failed.
\<close>

theorem forensic_screen_guarded:
  assumes "forensic_controller_screen api fm s = Some out"
    and "fm_valid fm \<Longrightarrow> headers_sized (fm_result fm)"
  shows "forensic_flow api fm s out"
proof (cases "fm_valid fm")
  case True
  then show ?thesis using assms forensic_menu_flow [of api fm 0 s out] by (simp add: forensic_controller_screen_def)
next
  case False
  obtain c fm1 s1 where scan: "run_scan api fm s = (c, fm1, s1)" by (metis prod_cases3)
  note f = run_scan_facts [OF scan]
  show ?thesis
  proof (cases "c < 0")
    case True
    then show ?thesis
      using assms(1) False scan f(1) still_result [of api s1]
      by (auto simp: forensic_controller_screen_def forensic_flow_def still_def intro: extends_trans)
  next
    case ok: False
    then have fm1: "fm_valid fm1" "scanned api fm (fm_result fm1)" using f(2) by auto
    have "forensic_menu api fm1 0 s1 = Some out" using assms(1) False ok scan by (simp add: forensic_controller_screen_def)
    then have "forensic_flow api fm1 s1 out"
      by (rule forensic_menu_flow) (use fm1 scanned_sized [OF fm1(2)] False in blast)+
    then show ?thesis using f(1) by (rule forensic_flow_prefix) (use fm1 scanned_again in blast)
  qed
qed

text \<open>A disk of 0x100000 sectors that reads as zero, and a user who leaves after the scan.\<close>

definition forensic_platform :: "memory platform" where
  "forensic_platform = memory_platform\<lparr>fx_pad := (\<lambda>m. (PAD_TRIANGLE, m)),
    fx_hdd := \<lparr>devctl = (\<lambda>cmd m. (0x100000, [], m)), getstat_mbr = (\<lambda>m. (0, 0, 0x40000, m))\<rparr>\<rparr>"

definition no_scan :: forensic_memory where
  "no_scan = \<lparr>fm_result = empty_result 0, fm_valid = False\<rparr>"

lemma forensic_press: "wait_for_press forensic_platform s = Some (0x1000, s)"
proof -
  have "poll_pad forensic_platform w = (0x1000, w)" for w :: "memory file_world"
    by (simp add: poll_pad_def forensic_platform_def memory_platform_def)
  then show ?thesis by (subst wait_for_press.simps) simp
qed

lemma forensic_leaves: "forensic_menu forensic_platform fm selected s = Some (False, fm, s)"
  by (subst forensic_menu.simps)
    (simp add: forensic_press inspect_step_def report_step_def rescan_step_def pressed_def Let_def)

lemma forensic_scans: "\<exists>fm1 s1. run_scan forensic_platform fm s = (0, fm1, s1)"
proof -
  obtain s1 where "get_total_sectors forensic_platform s = (Inr 0x100000, s1)"
    by (simp add: get_total_sectors_def devctl_now_def issue_command_def forensic_platform_def)
  then show ?thesis
    by (auto simp: run_scan_def apa_forensic_scan_def Let_def)
qed

theorem forensic_screen_guarded_witness:
  "\<exists>fm1 s1. forensic_controller_screen forensic_platform no_scan (sample_session 2 (fresh_memory [] 3)) =
      Some (False, fm1, s1) \<and>
    extends undisturbing (se_world (sample_session 2 (fresh_memory [] 3))) (se_world s1)"
proof -
  obtain fm1 s1 where "run_scan forensic_platform no_scan (sample_session 2 (fresh_memory [] 3)) = (0, fm1, s1)"
    using forensic_scans by blast
  then have run: "forensic_controller_screen forensic_platform no_scan (sample_session 2 (fresh_memory [] 3)) =
      Some (False, fm1, s1)" by (simp add: forensic_controller_screen_def forensic_leaves no_scan_def)
  have "forensic_flow forensic_platform no_scan (sample_session 2 (fresh_memory [] 3)) (False, fm1, s1)"
    by (rule forensic_screen_guarded [OF run]) (simp add: no_scan_def)
  then show ?thesis using run by (simp add: forensic_flow_def)
qed

end
