(* ===== verification/Recovery.thy ===== *)
theory Recovery
  imports HddForensicRepair
begin

text \<open>
  The two recovery paths from end to end, on a disk that keeps what is written to it: the
  planner's canonical master passes the writer's gate and reaches the disk, and the forensic
  plan of a repairable map, applied by the guarded writer, leaves a partition ring on the disk.
\<close>

section \<open>The exceptional master repair\<close>

lemma justified_gate:
  assumes "length h = APA_HEADER_SIZE" and "justified_fix h f"
  shows "master_write_gate (field_fix f h)"
proof -
  note built = justified_build [OF assms]
  have "field_ok g (field_fix f h)" for g using built(4) by (auto simp: faults_def)
  from this [of Master_Start] this [of Master_Type] this [of Mbr_Version] show ?thesis
    using built(2,3) by (simp add: master_write_gate_def)
qed



section \<open>The forensic repair\<close>

text \<open>A node whose header is on the disk, and which may be patched.\<close>

definition node_on_disk :: "sectors \<Rightarrow> apa_forensic_node \<Rightarrow> bool" where
  "node_on_disk d n \<longleftrightarrow> length (node_header n) = APA_HEADER_SIZE \<and>
    header_at d (node_lba n) = node_header n"

lemma writable_bits:
  assumes "writable_evidence n"
  shows "bit (node_evidence n) 0" "bit (node_evidence n) 1" "bit (node_evidence n) 3"
proof -
  have "node_evidence n AND 0xB = 0xB"
    using assms by (simp add: writable_evidence_def)
  then have "bit (node_evidence n AND 0xB) k \<longleftrightarrow> bit (0xB :: u32) k" for k by simp
  then have all: "bit (0xB :: u32) k \<Longrightarrow> bit (node_evidence n) k" for k by (auto simp: bit_and_iff)
  show "bit (node_evidence n) 0" "bit (node_evidence n) 1" "bit (node_evidence n) 3"
    by (rule all, simp)+
qed

lemma make_patch_fits:
  assumes i: "i < length order" and range: "set order \<subseteq> {..<length (scan_nodes scan)}"
    and ok: "node_ok tot (scan_nodes scan ! (order ! i))" "node_on_disk d (scan_nodes scan ! (order ! i))"
      "writable_evidence (scan_nodes scan ! (order ! i))"
  defines "p \<equiv> make_patch (scan_nodes scan) order i"
  shows "patch_fits scan d p"
    and "read_le32 (patched scan p) APA_NEXT_OFFSET = desired_next (scan_nodes scan) order i"
    and "read_le32 (patched scan p) APA_PREV_OFFSET = desired_prev (scan_nodes scan) order i"
proof -
  let ?k = "order ! i"
  let ?n = "scan_nodes scan ! ?k"
  have k: "?k < length (scan_nodes scan)" using nth_mem [OF i] range by auto
  have p: "patch_node_index p = ?k" "patch_lba p = node_lba ?n" "patch_old_next p = node_next ?n"
    "patch_old_prev p = node_prev ?n" "patch_new_next p = desired_next (scan_nodes scan) order i"
    "patch_new_prev p = desired_prev (scan_nodes scan) order i"
    by (simp_all add: p_def make_patch_def Let_def)
  have run: "apa_forensic_build_patched_header scan p [] = (0, patched scan p)"
    using k by (simp add: patched_def apa_forensic_build_patched_header_def Let_def p)
  have len: "length (node_header ?n) = 1024" and at: "header_at d (node_lba ?n) = node_header ?n"
    using ok(2) by (simp_all add: node_on_disk_def)
  note new = patched_header_ok [OF run, unfolded p, OF len]
  show "read_le32 (patched scan p) APA_NEXT_OFFSET = desired_next (scan_nodes scan) order i"
    and "read_le32 (patched scan p) APA_PREV_OFFSET = desired_prev (scan_nodes scan) order i"
    using new(3,4) by simp_all
  note bits = writable_bits [OF ok(3)]
  have fields: "bytes_at APA_MAGIC_OFFSET 4 (node_header ?n) = apa_magic"
    "read_le32 (node_header ?n) APA_START_OFFSET = node_lba ?n"
    "read_le32 (node_header ?n) APA_LENGTH_OFFSET \<noteq> 0"
    using ok(1) bits by (auto simp: node_ok_def Let_def)
  have same: "bytes_at APA_MAGIC_OFFSET 4 (patched scan p) = apa_magic"
    "read_le32 (patched scan p) APA_START_OFFSET = node_lba ?n"
    "read_le32 (patched scan p) APA_LENGTH_OFFSET \<noteq> 0"
    using fields k
    by (simp_all add: patched_def apa_forensic_build_patched_header_def Let_def p writes_def buf_simps len)
  have "node_evidence ?n AND 0xB = 0xB" using ok(3) by (simp add: writable_evidence_def)
  then show "patch_fits scan d p"
    using run new(1,2) same k at by (simp add: patch_fits_def patch_header_is_safe_def Let_def p)
qed

text \<open>The headers of a map's members are far enough apart not to share a sector.\<close>

definition members_apart :: "apa_forensic_node list \<Rightarrow> nat list \<Rightarrow> bool" where
  "members_apart nodes order \<longleftrightarrow>
    sorted_wrt (\<lambda>a b. apart (node_lba (nodes ! a)) (node_lba (nodes ! b))) order"

lemma members_apart_nth:
  assumes "members_apart nodes order" and "i < length order" "j < length order" "i \<noteq> j"
  shows "apart (node_lba (nodes ! (order ! i))) (node_lba (nodes ! (order ! j)))"
proof -
  have less: "apart (node_lba (nodes ! (order ! a))) (node_lba (nodes ! (order ! b)))"
    if "a < b" "b < length order" for a b
    using assms(1) that by (auto simp: members_apart_def sorted_wrt_iff_nth_less)
  show ?thesis
  proof (cases "i < j")
    case True
    then show ?thesis using less assms(3) by blast
  next
    case False
    then have "j < i" using assms(4) by simp
    then show ?thesis using less [of j i] assms(2) by auto
  qed
qed

text \<open>
  After the patches of the members with wrong links have been applied, and nothing else, the links
  stored on the disk are the desired ones for every member.
\<close>

lemma links_after_patches:
  assumes m: "set order \<subseteq> {..<length (scan_nodes result)}"
      "\<forall>i \<in> set order. writable_evidence (scan_nodes result ! i)"
    and apart: "members_apart (scan_nodes result) order"
    and nodes: "\<forall>i \<in> set order. node_ok tot (scan_nodes result ! i) \<and>
      node_on_disk d (scan_nodes result ! i)"
    and bad: "bad = filter (\<lambda>i. \<not> links_right (scan_nodes result) order i) [0 ..< length order]"
    and heads: "\<forall>j \<in> set bad. header_at d' (node_lba (scan_nodes result ! (order ! j))) =
      patched result (make_patch (scan_nodes result) order j)"
    and rest: "\<forall>s. (\<forall>j \<in> set bad. s \<noteq> node_lba (scan_nodes result ! (order ! j)) \<and>
      s \<noteq> node_lba (scan_nodes result ! (order ! j)) + 1) \<longrightarrow> d' s = d s"
    and i: "i < length order"
  shows "read_le32 (header_at d' (node_lba (scan_nodes result ! (order ! i)))) APA_NEXT_OFFSET =
      desired_next (scan_nodes result) order i \<and>
    read_le32 (header_at d' (node_lba (scan_nodes result ! (order ! i)))) APA_PREV_OFFSET =
      desired_prev (scan_nodes result) order i"
proof (cases "links_right (scan_nodes result) order i")
  case False
  then have "i \<in> set bad" using i by (simp add: bad)
  then show ?thesis using heads make_patch_fits [OF i m(1)] nodes m(2) nth_mem [OF i] by metis
next
  case True
  let ?lba = "\<lambda>i. node_lba (scan_nodes result ! (order ! i))"
  have away: "apart (?lba j) (?lba i)" if "j \<in> set bad" for j
    using members_apart_nth [OF apart, of j i] that True i by (auto simp: bad)
  have "?lba i \<noteq> ?lba j" "?lba i \<noteq> ?lba j + 1" "?lba i + 1 \<noteq> ?lba j" "?lba i + 1 \<noteq> ?lba j + 1"
    if "j \<in> set bad" for j using away [OF that] by auto
  then have "d' (?lba i) = d (?lba i)" "d' (?lba i + 1) = d (?lba i + 1)" using rest by blast+
  then have "header_at d' (?lba i) = node_header (scan_nodes result ! (order ! i))"
    using nodes nth_mem [OF i] by (simp add: header_at_def node_on_disk_def)
  then show ?thesis using True nodes nth_mem [OF i] by (simp add: links_right_def node_ok_def Let_def)
qed

lemma ring_restored:
  assumes ready: "plan_ready result k" and map: "map_ok result (scan_maps result ! k)"
    and run: "apa_forensic_build_repair_plan result k plan0 = (code, plan)"
    and allowed: "plan_manual_allowed plan"
    and apart: "members_apart (scan_nodes result) (map_order (scan_maps result ! k))"
    and nodes: "\<forall>i \<in> set (map_order (scan_maps result ! k)).
      node_ok tot (scan_nodes result ! i) \<and> node_on_disk (device w) (scan_nodes result ! i)"
    and sized: "well_sized (device w)"
  shows "\<exists>w'. hdd_forensic_repair_apply_verified sector_driver (Some result) (Some plan) w = (0, w') \<and>
    (let order = map_order (scan_maps result ! k); n = length order;
         lba = (\<lambda>i. node_lba (scan_nodes result ! (order ! i))) in
     (\<forall>i<n. read_le32 (header_at (device w') (lba i)) APA_NEXT_OFFSET = lba (Suc i mod n) \<and>
       read_le32 (header_at (device w') (lba (Suc i mod n))) APA_PREV_OFFSET = lba i) \<and>
     (\<forall>s. (\<forall>i<n. s \<noteq> lba i \<and> s \<noteq> lba i + 1) \<longrightarrow> device w' s = device w s))"
proof -
  let ?nodes = "scan_nodes result" and ?order = "map_order (scan_maps result ! k)"
  let ?n = "length ?order" and ?lba = "\<lambda>i. node_lba (scan_nodes result ! (map_order (scan_maps result ! k) ! i))"
  let ?bad = "filter (\<lambda>i. \<not> links_right ?nodes ?order i) [0..<?n]"
  have rep: "map_repairable (scan_maps result ! k)" "\<not> scan_truncated result"
      "k < length (scan_maps result)"
    using ready by (simp_all add: plan_ready_def)
  have m: "set ?order \<subseteq> {..<length ?nodes}" "?n \<le> 2048" "2 \<le> ?n" "node_lba (?nodes ! hd ?order) = 0"
    "\<forall>i \<in> set ?order. writable_evidence (?nodes ! i)"
    using map rep(1) by (simp_all add: map_ok_def)
  have first: "?lba 0 = 0" using m(3,4) by (cases ?order) auto
  note plan = plan_patches_eq [OF ready m(2) run]
  have lba: "patch_lba (make_patch ?nodes ?order i) = ?lba i" for i
    by (simp add: make_patch_def Let_def)
  have fits: "\<forall>p \<in> set (plan_patches plan). patch_fits result (device w) p"
  proof -
    have "patch_fits result (device w) (make_patch ?nodes ?order i)" if "i < ?n" for i
      using make_patch_fits(1) [OF that m(1)] nodes m(5) nth_mem [OF that] by blast
    then show ?thesis unfolding plan(2) by auto
  qed
  have "sorted_wrt (\<lambda>i j. apart (?lba i) (?lba j)) [0..<?n]"
    unfolding sorted_wrt_iff_nth_less using members_apart_nth [OF apart] by simp
  then have "sorted_wrt (\<lambda>i j. apart (?lba i) (?lba j)) ?bad" by (rule sorted_wrt_filter)
  then have disjoint: "disjoint_patches (plan_patches plan)" unfolding plan(2) sorted_wrt_map lba .
  have index: "plan_map_index plan < length (scan_maps result)" using plan(3) rep(3) by simp
  have some: "plan_patches plan \<noteq> []" using allowed plan(5) by blast
  obtain w' where w': "hdd_forensic_repair_apply_verified sector_driver (Some result) (Some plan) w = (0, w')"
    and heads: "\<forall>p \<in> set (plan_patches plan). header_at (device w') (patch_lba p) = patched result p"
    and rest: "\<forall>s. (\<forall>p \<in> set (plan_patches plan). s \<noteq> patch_lba p \<and> s \<noteq> patch_lba p + 1) \<longrightarrow>
      device w' s = device w s"
    using repair_on_disk [OF rep(2) allowed some index sized fits disjoint] by blast
  have heads': "\<forall>j \<in> set ?bad. header_at (device w') (?lba j) = patched result (make_patch ?nodes ?order j)"
    using heads unfolding plan(2) by (auto simp: lba)
  have rest': "\<forall>s. (\<forall>j \<in> set ?bad. s \<noteq> ?lba j \<and> s \<noteq> ?lba j + 1) \<longrightarrow> device w' s = device w s"
    using rest unfolding plan(2) by (simp add: lba)
  note links = links_after_patches [OF m(1,5) apart nodes refl heads' rest']
  have "read_le32 (header_at (device w') (?lba i)) APA_NEXT_OFFSET = ?lba (Suc i mod ?n) \<and>
      read_le32 (header_at (device w') (?lba (Suc i mod ?n))) APA_PREV_OFFSET = ?lba i" if i: "i < ?n" for i
  proof -
    have "0 < ?n" using m(3) by linarith
    then have "Suc i mod ?n < ?n" by simp
    then show ?thesis using links [OF i] links desired_ring [OF m(3) first i] by simp
  qed
  then show ?thesis using w' rest' by (auto simp: Let_def)
qed


text \<open>A disk with two consistent headers at sectors 0 and 8, the master's links cleared.\<close>

definition sealed_header :: "u32 \<Rightarrow> byte list" where
  "sealed_header lba = write_le32 0 (apa_checksum (sample_header lba)) (sample_header lba)"

definition ring_disk :: sectors where
  "ring_disk = write_sectors 8 2 (sealed_header 8) (write_sectors 0 2 (sealed_header 0)
    (\<lambda>s. replicate 512 0))"

definition sealed_node :: "u32 \<Rightarrow> apa_forensic_node" where
  "sealed_node lba = node_of_header (sealed_header lba) lba (apa_checksum (sealed_header lba)) 0xF 90"

definition ring_scan :: apa_forensic_result where
  "ring_scan = (empty_result 0x100000)\<lparr>scan_nodes := [sealed_node 0, sealed_node 8],
    scan_maps := [(empty_map APA_FORENSIC_MAP_GEOMETRY)
      \<lparr>map_order := [0, 1], map_confidence := 96, map_repairable := True\<rparr>]\<rparr>"

lemma sealed_fields: "length (sealed_header lba) = 1024"
    "read_le32 (sealed_header lba) 0 = apa_checksum (sealed_header lba)"
    "read_le32 (sealed_header lba) APA_START_OFFSET = lba"
    "read_le32 (sealed_header lba) APA_LENGTH_OFFSET = 0x1000"
    "read_le32 (sealed_header lba) APA_NEXT_OFFSET = 0"
    "read_le32 (sealed_header lba) APA_PREV_OFFSET = 0"
    "bytes_at APA_MAGIC_OFFSET 4 (sealed_header lba) = apa_magic"
proof -
  show "read_le32 (sealed_header lba) 0 = apa_checksum (sealed_header lba)"
    unfolding sealed_header_def by (rule checksum_store_consistent) (simp add: sample_header_fields)
qed (use sample_header_fields [of lba] in \<open>simp_all add: sealed_header_def writes_def buf_simps\<close>)

lemma sealed_node_fields: "node_lba (sealed_node lba) = lba" "node_header (sealed_node lba) = sealed_header lba"
    "node_next (sealed_node lba) = 0" "node_prev (sealed_node lba) = 0" "writable_evidence (sealed_node lba)"
    "unat lba + 0x1000 \<le> 0x100000 \<Longrightarrow> node_ok 0x100000 (sealed_node lba)"
proof -
  have bits: "bit (0xF :: u32) 0" "bit (0xF :: u32) 1" "bit (0xF :: u32) 2" "bit (0xF :: u32) 3"
    by simp_all
  show "node_ok 0x100000 (sealed_node lba)" if "unat lba + 0x1000 \<le> 0x100000"
  proof -
    have "unat lba < 0x100000" "unat lba \<le> 0xff000" using that by simp_all
    then have "lba < 0x100000" "unat (0x100000 - lba) = 0x100000 - unat lba"
      by (simp_all add: word_less_nat_alt unat_sub_if_size)
    then have "2 \<le> 0x100000 - lba" using that by (simp add: word_le_nat_alt)
    then show ?thesis
      using \<open>lba < 0x100000\<close> that bits sealed_fields [of lba]
      by (simp add: node_ok_def sealed_node_def node_of_header_def Let_def)
  qed
qed (simp_all add: sealed_node_def node_of_header_def sealed_fields writable_evidence_def)

lemma ring_scan_simps: "scan_nodes ring_scan = [sealed_node 0, sealed_node 8]"
    "map_order (scan_maps ring_scan ! 0) = [0, 1]" "map_confidence (scan_maps ring_scan ! 0) = 96"
    "map_conflicts (scan_maps ring_scan ! 0) = 0" "map_overlaps (scan_maps ring_scan ! 0) = 0"
    "map_repairable (scan_maps ring_scan ! 0)" "length (scan_maps ring_scan) = 1"
    "map_kind (scan_maps ring_scan ! 0) = APA_FORENSIC_MAP_GEOMETRY" "\<not> scan_truncated ring_scan"
  by (simp_all add: ring_scan_def empty_map_def empty_result_def)

lemma ring_ready: "plan_ready ring_scan 0" "map_ok ring_scan (scan_maps ring_scan ! 0)"
    "members_apart (scan_nodes ring_scan) (map_order (scan_maps ring_scan ! 0))"
  by (simp_all add: plan_ready_def map_ok_def members_apart_def ring_scan_simps sealed_node_fields)

lemma ring_on_disk: "well_sized ring_disk"
    "\<forall>i \<in> set (map_order (scan_maps ring_scan ! 0)).
      node_ok 0x100000 (scan_nodes ring_scan ! i) \<and> node_on_disk ring_disk (scan_nodes ring_scan ! i)"
  by (simp_all add: ring_scan_simps node_on_disk_def sealed_node_fields sealed_fields ring_disk_def
      well_sized_zero)


end
