(* ===== verification/HdlPartition.thy ===== *)
theory HdlPartition
  imports Ctype
begin

text \<open>
  HDLoader partitions: \<open>src/hdl_partition.c\<close>.  An image is split over one main partition and up
  to 64 sub-partitions of the standard sizes, the layout is written to a metadata block, and an
  existing block is parsed.  The lemmas show exactly which images can be planned, that a plan
  covers the image without gaps, that a built block parses back, and that a partition name is
  well formed.  C strings are the byte lists before their terminator; \<open>None\<close> is \<open>NULL\<close>.
\<close>

abbreviation (input) HDL_MIB :: u64 where "HDL_MIB \<equiv> 1048576"
abbreviation (input) HDL_MAIN_DATA_OFFSET :: u64 where "HDL_MAIN_DATA_OFFSET \<equiv> 4194304"
abbreviation (input) HDL_SUB_DATA_OFFSET :: u64 where "HDL_SUB_DATA_OFFSET \<equiv> 1048576"
abbreviation (input) HDL_INFO_MAGIC :: u32 where "HDL_INFO_MAGIC \<equiv> 0xDEADFEED"
abbreviation (input) HDL_INFO_VERSION :: u16 where "HDL_INFO_VERSION \<equiv> 1"
abbreviation (input) HDL_MAX_PARTITIONS :: nat where "HDL_MAX_PARTITIONS \<equiv> 65"
abbreviation (input) HDL_METADATA_SIZE :: nat where "HDL_METADATA_SIZE \<equiv> 1024"
abbreviation (input) HDL_GAME_TITLE_MAX :: nat where "HDL_GAME_TITLE_MAX \<equiv> 160"
abbreviation (input) HDL_STARTUP_MAX :: nat where "HDL_STARTUP_MAX \<equiv> 60"

abbreviation (input) HDL_PARTITION_INVALID_ARGUMENT :: int where
  "HDL_PARTITION_INVALID_ARGUMENT \<equiv> - 520"
abbreviation (input) HDL_PARTITION_IMAGE_ALIGNMENT :: int where
  "HDL_PARTITION_IMAGE_ALIGNMENT \<equiv> - 521"
abbreviation (input) HDL_PARTITION_TOO_MANY :: int where "HDL_PARTITION_TOO_MANY \<equiv> - 522"
abbreviation (input) HDL_PARTITION_MAX_SIZE_INVALID :: int where
  "HDL_PARTITION_MAX_SIZE_INVALID \<equiv> - 523"
abbreviation (input) HDL_PARTITION_PHYSICAL_RANGE_INVALID :: int where
  "HDL_PARTITION_PHYSICAL_RANGE_INVALID \<equiv> - 524"
abbreviation (input) HDL_PARTITION_TEXT_INVALID :: int where "HDL_PARTITION_TEXT_INVALID \<equiv> - 525"
abbreviation (input) HDL_PARTITION_METADATA_INVALID :: int where
  "HDL_PARTITION_METADATA_INVALID \<equiv> - 526"

section \<open>The layout planner\<close>

record hdl_slice_plan =
  slice_allocation_bytes :: u64
  slice_payload_offset :: u64
  slice_payload_bytes :: u32

record hdl_partition_plan =
  layout_image_bytes :: u64
  layout_allocation_bytes :: u64
  layout_slices :: "hdl_slice_plan list"

definition allocation_sizes :: "u64 list" where
  "allocation_sizes = [128 * HDL_MIB, 256 * HDL_MIB, 512 * HDL_MIB, 1024 * HDL_MIB, 2048 * HDL_MIB,
    4096 * HDL_MIB]"

definition choose_allocation :: "u64 \<Rightarrow> u64 \<Rightarrow> u64" where
  "choose_allocation required maximum =
    (case find (\<lambda>s. s \<ge> required \<and> s \<le> maximum) allocation_sizes of
       Some s \<Rightarrow> s
     | None \<Rightarrow> (case find (\<lambda>s. s \<le> maximum) (rev allocation_sizes) of Some s \<Rightarrow> s | None \<Rightarrow> 0))"

text \<open>The loop of \<open>hdl_partition_plan\<close>; it returns the code and the plan as far as it got.\<close>

definition add_slice :: "u64 \<Rightarrow> u64 \<Rightarrow> u64 \<Rightarrow> hdl_partition_plan \<Rightarrow> hdl_partition_plan" where
  "add_slice allocation payload_offset payload plan = plan
    \<lparr>layout_slices := layout_slices plan @ [\<lparr>slice_allocation_bytes = allocation,
       slice_payload_offset = payload_offset, slice_payload_bytes = ucast payload\<rparr>],
     layout_allocation_bytes := layout_allocation_bytes plan + allocation\<rparr>"

function plan_slices ::
    "u64 \<Rightarrow> u64 \<Rightarrow> u64 \<Rightarrow> hdl_partition_plan \<Rightarrow> int \<times> hdl_partition_plan" where
  "plan_slices maximum remaining payload_offset plan =
    (if remaining \<noteq> 0 then
       let overhead = (if layout_slices plan = [] then HDL_MAIN_DATA_OFFSET else HDL_SUB_DATA_OFFSET) in
       if length (layout_slices plan) \<ge> HDL_MAX_PARTITIONS then (HDL_PARTITION_TOO_MANY, plan)
       else let chosen = choose_allocation (remaining + overhead) maximum;
                allocation = (if chosen = 0 then choose_allocation maximum maximum else chosen) in
         if chosen = 0 \<and> (allocation = 0 \<or> allocation \<le> overhead)
         then (HDL_PARTITION_MAX_SIZE_INVALID, plan)
         else let capacity = allocation - overhead;
                  payload = (if remaining < capacity then remaining else capacity) in
           if payload > 0xFFFFFFFF then (HDL_PARTITION_PHYSICAL_RANGE_INVALID, plan)
           else plan_slices maximum (remaining - payload) (payload_offset + payload)
             (add_slice allocation payload_offset payload plan)
     else (0, plan))"
  by pat_completeness auto

termination plan_slices
  by (relation "measure (\<lambda>(maximum, remaining, payload_offset, plan). 65 - length (layout_slices plan))")
    (auto simp: add_slice_def)

declare plan_slices.simps [simp del]

definition empty_layout :: hdl_partition_plan where
  "empty_layout = \<lparr>layout_image_bytes = 0, layout_allocation_bytes = 0, layout_slices = []\<rparr>"

definition hdl_partition_plan_image ::
    "u64 \<Rightarrow> u32 \<Rightarrow> hdl_partition_plan option \<Rightarrow> int \<times> hdl_partition_plan option" where
  "hdl_partition_plan_image image_bytes max_partition_sectors plan =
    (let maximum = ucast max_partition_sectors * 512 in
     if plan = None \<or> image_bytes = 0 then (HDL_PARTITION_INVALID_ARGUMENT, plan)
     else if image_bytes mod 2048 \<noteq> 0 then (HDL_PARTITION_IMAGE_ALIGNMENT, Some empty_layout)
     else if maximum < hd allocation_sizes then (HDL_PARTITION_MAX_SIZE_INVALID, Some empty_layout)
     else let maximum = (if maximum > last allocation_sizes then last allocation_sizes else maximum);
              (code, layout) = plan_slices maximum image_bytes 0 empty_layout in
       if code < 0 then (code, Some layout)
       else (0, Some (layout\<lparr>layout_image_bytes := image_bytes\<rparr>)))"

section \<open>The metadata block\<close>

definition read_metadata_text :: "nat \<Rightarrow> byte list \<Rightarrow> int \<times> byte list" where
  "read_metadata_text destination_size source =
    (let text = takeWhile (\<lambda>c. c \<noteq> 0) source in
     if text = [] \<or> destination_size \<le> length text then (HDL_PARTITION_METADATA_INVALID, [])
     else if list_ex (\<lambda>c. c < 0x20 \<or> c = 0x7f) text then (HDL_PARTITION_METADATA_INVALID, [])
     else (0, text))"

definition copy_metadata_text :: "nat \<Rightarrow> nat \<Rightarrow> byte list option \<Rightarrow> byte list \<Rightarrow> int \<times> byte list" where
  "copy_metadata_text offset capacity text buffer = (case text of
      None \<Rightarrow> (HDL_PARTITION_TEXT_INVALID, buffer)
    | Some t \<Rightarrow> if t = [] \<or> length t \<ge> capacity then (HDL_PARTITION_TEXT_INVALID, buffer)
        else (0, blit offset t buffer))"

record hdl_metadata_options =
  opt_game_title :: "byte list option"
  opt_startup :: "byte list option"
  opt_disc_type :: u32
  opt_layer1_start :: u32
  opt_hdl_compat_flags :: byte
  opt_opl_compat_flags :: byte
  opt_dma_type :: byte
  opt_dma_mode :: byte

text \<open>The fixed fields, and the loop over the slices with the running offset.\<close>

definition metadata_fields :: "hdl_metadata_options \<Rightarrow> u32 \<Rightarrow> byte list \<Rightarrow> byte list" where
  "metadata_fields options entries metadata =
    write_le32 240 entries (write_le32 236 (opt_disc_type options)
    (write_le32 232 (opt_layer1_start options)
    (write_u8 171 (opt_dma_mode options) (write_u8 170 (opt_dma_type options)
    (write_u8 169 (opt_opl_compat_flags options) (write_u8 168 (opt_hdl_compat_flags options)
    (write_le16 6 HDL_INFO_VERSION (write_le16 4 0 (write_le32 0 HDL_INFO_MAGIC metadata)))))))))"

definition entry_refused :: "hdl_slice_plan \<Rightarrow> u64 \<Rightarrow> u64 \<Rightarrow> u64 \<Rightarrow> u64 \<Rightarrow> bool" where
  "entry_refused sl data_offset data_start part_offset expected_offset \<longleftrightarrow>
    slice_allocation_bytes sl \<le> data_offset \<or> slice_payload_offset sl \<noteq> expected_offset \<or>
    slice_payload_offset sl AND 2047 \<noteq> 0 \<or> slice_payload_bytes sl AND 2047 \<noteq> 0 \<or>
    ucast (slice_payload_bytes sl) > slice_allocation_bytes sl - data_offset \<or>
    data_start > 0xFFFFFFFF \<or> part_offset > 0xFFFFFFFF"

fun metadata_entries ::
    "nat \<Rightarrow> (hdl_slice_plan \<times> u32) list \<Rightarrow> u64 \<Rightarrow> byte list \<Rightarrow> int \<times> u64 \<times> byte list" where
  "metadata_entries i [] expected_offset metadata = (0, expected_offset, metadata)"
| "metadata_entries i ((sl, start) # rest) expected_offset metadata =
    (let data_offset = (if i = 0 then HDL_MAIN_DATA_OFFSET else HDL_SUB_DATA_OFFSET);
         data_start = ucast start + data_offset div 512 :: u64;
         part_offset = slice_payload_offset sl div 2048;
         entry = 244 + i * 12 in
     if entry_refused sl data_offset data_start part_offset expected_offset
     then (HDL_PARTITION_PHYSICAL_RANGE_INVALID, expected_offset, metadata)
     else metadata_entries (i + 1) rest (expected_offset + ucast (slice_payload_bytes sl))
       (write_le32 (entry + 8) (slice_payload_bytes sl)
       (write_le32 (entry + 4) (ucast data_start) (write_le32 entry (ucast part_offset) metadata))))"

definition hdl_metadata_build ::
    "hdl_partition_plan \<Rightarrow> u32 list \<Rightarrow> nat \<Rightarrow> hdl_metadata_options \<Rightarrow> byte list \<Rightarrow> int \<times> byte list" where
  "hdl_metadata_build plan starts start_count options metadata =
    (let slices = layout_slices plan in
     if slices = [] \<or> length slices > HDL_MAX_PARTITIONS \<or> start_count \<noteq> length slices
     then (HDL_PARTITION_INVALID_ARGUMENT, metadata)
     else let (title, m1) = copy_metadata_text 8 HDL_GAME_TITLE_MAX (opt_game_title options)
              (replicate HDL_METADATA_SIZE 0) in
       if title < 0 then (HDL_PARTITION_TEXT_INVALID, m1)
       else let (startup, m2) = copy_metadata_text 172 HDL_STARTUP_MAX (opt_startup options) m1 in
       if startup < 0 then (HDL_PARTITION_TEXT_INVALID, m2)
       else let (code, expected, m3) = metadata_entries 0 (zip slices (take start_count starts)) 0
              (metadata_fields options (of_nat (length slices)) m2) in
       if code < 0 then (code, m3)
       else if expected \<noteq> layout_image_bytes plan then (HDL_PARTITION_PHYSICAL_RANGE_INVALID, m3)
       else (0, m3))"

record hdl_metadata_info =
  info_game_title :: "byte list"
  info_startup :: "byte list"
  info_metadata_version :: u32
  info_disc_type :: u32
  info_layer1_start :: u32
  info_partition_count :: u32
  info_hdl_compat_flags :: byte
  info_opl_compat_flags :: byte
  info_dma_type :: byte
  info_dma_mode :: byte

definition empty_metadata_info :: hdl_metadata_info where
  "empty_metadata_info = \<lparr>info_game_title = [], info_startup = [], info_metadata_version = 0,
    info_disc_type = 0, info_layer1_start = 0, info_partition_count = 0, info_hdl_compat_flags = 0,
    info_opl_compat_flags = 0, info_dma_type = 0, info_dma_mode = 0\<rparr>"

definition hdl_metadata_parse :: "byte list \<Rightarrow> int \<times> hdl_metadata_info" where
  "hdl_metadata_parse metadata =
    (let partition_count = read_le32 metadata 240; disc_type = read_le32 metadata 236 in
     if read_le32 metadata 0 \<noteq> HDL_INFO_MAGIC \<or> partition_count = 0 \<or>
       partition_count > of_nat HDL_MAX_PARTITIONS \<or> disc_type \<noteq> 0x12 \<and> disc_type \<noteq> 0x14
     then (HDL_PARTITION_METADATA_INVALID, empty_metadata_info)
     else let (code, title) = read_metadata_text (HDL_GAME_TITLE_MAX + 1)
           (bytes_at 8 HDL_GAME_TITLE_MAX metadata);
         i1 = empty_metadata_info\<lparr>info_game_title := title\<rparr> in
       if code < 0 then (HDL_PARTITION_METADATA_INVALID, i1)
       else let (code, startup) = read_metadata_text (HDL_STARTUP_MAX + 1)
             (bytes_at 172 HDL_STARTUP_MAX metadata);
           i2 = i1\<lparr>info_startup := startup\<rparr> in
       if code < 0 then (HDL_PARTITION_METADATA_INVALID, i2)
       else (0, i2\<lparr>info_metadata_version := read_le32 metadata 4,
         info_hdl_compat_flags := metadata ! 168, info_opl_compat_flags := metadata ! 169,
         info_dma_type := metadata ! 170, info_dma_mode := metadata ! 171,
         info_layer1_start := read_le32 metadata 232, info_disc_type := disc_type,
         info_partition_count := partition_count\<rparr>))"

section \<open>The partition name\<close>

definition partition_char :: "byte \<Rightarrow> byte" where
  "partition_char c =
    (if is_alnum c \<or> c = 0x20 \<or> c = 0x2d \<or> c = 0x5f \<or> c = 0x2e
     then to_upper c else 0x5f)"

definition id_prefix :: "byte list" where "id_prefix = [0x50, 0x50, 0x2e]"
definition id_middle :: "byte list" where "id_middle = [0x2e, 0x48, 0x44, 0x4c, 0x2e]"

text \<open>Appending to the name stops at 32 characters.\<close>

definition append_id :: "byte list \<Rightarrow> byte list \<Rightarrow> byte list" where
  "append_id name text = name @ take (32 - length name) (map partition_char text)"

definition hdl_partition_id :: "byte list option \<Rightarrow> byte list option \<Rightarrow> int \<times> byte list" where
  "hdl_partition_id disc_id title = (case (disc_id, title) of
      (Some disc, Some t) \<Rightarrow>
        (if length disc \<noteq> 10 \<or> t = [] then (HDL_PARTITION_TEXT_INVALID, [])
         else let name = append_id id_prefix disc in
           if length name + length id_middle > 32 then (HDL_PARTITION_TEXT_INVALID, name)
           else let name = append_id (name @ id_middle) t;
                    name = rev (dropWhile (\<lambda>c. c = 0x20) (rev name)) in
             (if length name > (length id_prefix + 1) + (length id_middle + 1) then 0
              else HDL_PARTITION_TEXT_INVALID, name))
    | _ \<Rightarrow> (HDL_PARTITION_TEXT_INVALID, []))"

section \<open>What a layout promises\<close>

definition slice_overhead :: "nat \<Rightarrow> nat" where
  "slice_overhead i = (if i = 0 then 4194304 else 1048576)"

definition payload_total :: "hdl_slice_plan list \<Rightarrow> nat" where
  "payload_total slices = sum_list (map (\<lambda>s. unat (slice_payload_bytes s)) slices)"

text \<open>Each slice starts where the earlier ones end and fits its allocation after the overhead.\<close>

definition slice_ok :: "u64 \<Rightarrow> hdl_slice_plan list \<Rightarrow> nat \<Rightarrow> bool" where
  "slice_ok maximum slices i \<longleftrightarrow> (let s = slices ! i in
    slice_allocation_bytes s \<in> set allocation_sizes \<and> slice_allocation_bytes s \<le> maximum \<and>
    unat (slice_payload_offset s) = payload_total (take i slices) \<and>
    0 < unat (slice_payload_bytes s) \<and> unat (slice_payload_bytes s) mod 2048 = 0 \<and>
    unat (slice_payload_bytes s) + slice_overhead i \<le> unat (slice_allocation_bytes s))"

definition slices_ok :: "u64 \<Rightarrow> hdl_slice_plan list \<Rightarrow> bool" where
  "slices_ok maximum slices \<longleftrightarrow> length slices \<le> HDL_MAX_PARTITIONS \<and>
    (\<forall>i<length slices. slice_ok maximum slices i)"

text \<open>The largest allocation under a limit, and what fits one main and \<open>k\<close> sub-partitions of it.\<close>

definition largest_allocation :: "u64 \<Rightarrow> u64" where
  "largest_allocation maximum = choose_allocation maximum maximum"

definition room :: "u64 \<Rightarrow> nat \<Rightarrow> nat" where
  "room maximum used = (\<Sum>i = used..<HDL_MAX_PARTITIONS. unat (largest_allocation maximum) - slice_overhead i)"

lemma payload_total_simps [simp]: "payload_total [] = 0"
  "payload_total (slices @ [s]) = payload_total slices + unat (slice_payload_bytes s)"
  by (simp_all add: payload_total_def)

lemma allocation_values: "set allocation_sizes =
    {134217728, 268435456, 536870912, 1073741824, 2147483648, 4294967296}"
    "hd allocation_sizes = 134217728" "last allocation_sizes = 4294967296"
  by (auto simp: allocation_sizes_def)

lemma allocation_bounds:
  assumes "a \<in> set allocation_sizes"
  shows "134217728 \<le> unat a" "unat a \<le> 4294967296" "unat a mod 2048 = 0"
  using assms by (auto simp: allocation_values)

lemma choose_allocation_ok:
  assumes "134217728 \<le> maximum"
  shows "choose_allocation required maximum \<in> set allocation_sizes"
    and "choose_allocation required maximum \<le> maximum"
    and "required \<le> choose_allocation required maximum \<or>
      (\<forall>s \<in> set allocation_sizes. s \<le> maximum \<longrightarrow> s \<le> choose_allocation required maximum)"
  using assms by (auto simp: choose_allocation_def allocation_sizes_def)

lemma largest_allocation_ok:
  assumes "134217728 \<le> maximum"
  shows "largest_allocation maximum \<in> set allocation_sizes"
    and "largest_allocation maximum \<le> maximum"
    and "s \<in> set allocation_sizes \<Longrightarrow> s \<le> maximum \<Longrightarrow> s \<le> largest_allocation maximum"
  using choose_allocation_ok [OF assms, of maximum]
  by (auto simp: largest_allocation_def intro: order_trans)

section \<open>The planner's loop\<close>

lemma plan_step:
  assumes rem: "remaining \<noteq> 0" and len: "length (layout_slices plan) < HDL_MAX_PARTITIONS"
    and big: "134217728 \<le> maximum"
  defines "n \<equiv> length (layout_slices plan)"
  shows "\<exists>a p. plan_slices maximum remaining off plan =
      plan_slices maximum (remaining - p) (off + p) (add_slice a off p plan) \<and>
    a \<in> set allocation_sizes \<and> a \<le> maximum \<and> 0 < unat p \<and> unat p \<le> unat remaining \<and>
    unat p + slice_overhead n \<le> unat a \<and> (p = remaining \<or> unat p + slice_overhead n = unat a) \<and>
    (unat remaining + slice_overhead n < 2 ^ 64 \<longrightarrow> p = remaining \<or> a = largest_allocation maximum)"
proof -
  define ov where "ov = (if layout_slices plan = [] then 4194304 else 1048576 :: u64)"
  define a where "a = choose_allocation (remaining + ov) maximum"
  define p where "p = (if remaining < a - ov then remaining else a - ov)"
  have ov: "unat ov = slice_overhead n" "slice_overhead n \<le> 4194304"
    by (simp_all add: ov_def slice_overhead_def n_def)
  note a = choose_allocation_ok [OF big, of "remaining + ov", folded a_def]
  note bounds = allocation_bounds [OF a(1)]
  have nz: "a \<noteq> 0" using bounds(1) by auto
  have cap: "unat (a - ov) = unat a - slice_overhead n"
    using bounds(1) ov by (simp add: unat_sub_if_size)
  have small: "unat p \<le> 4293918720"
    using cap bounds(2) ov by (auto simp: p_def word_less_nat_alt slice_overhead_def split: if_splits)
  then have "\<not> p > 0xFFFFFFFF" by (simp add: word_less_nat_alt)
  then have step: "plan_slices maximum remaining off plan =
      plan_slices maximum (remaining - p) (off + p) (add_slice a off p plan)"
    using rem len nz
    by (subst plan_slices.simps) (simp add: Let_def ov_def [symmetric] a_def [symmetric] p_def [symmetric])
  have le: "unat p \<le> unat remaining" "p = remaining \<or> p = a - ov"
    by (auto simp: p_def word_less_nat_alt)
  have pos: "0 < unat p"
    using rem cap bounds(1) ov by (auto simp: p_def unat_gt_0 word_less_nat_alt)
  have fits: "unat p + slice_overhead n \<le> unat a"
    using cap bounds(1) ov by (auto simp: p_def word_less_nat_alt)
  have exact: "p = remaining \<or> unat p + slice_overhead n = unat a"
    using le(2) cap bounds(1) ov by auto
  have largest: "p = remaining \<or> a = largest_allocation maximum"
    if "unat remaining + slice_overhead n < 2 ^ 64"
  proof (cases "p = remaining")
    case False
    have "unat (remaining + ov) = unat remaining + slice_overhead n"
      using that ov(1) by (simp add: unat_word_ariths)
    moreover have "a - ov \<le> remaining" "p = a - ov" "p \<noteq> remaining"
      using False by (auto simp: p_def not_less split: if_splits)
    then have "unat a < unat remaining + slice_overhead n"
      using cap bounds(1) ov by (metis exact fits le(1) le_neq_implies_less nat_add_left_cancel_less
          add.commute word_unat_eq_iff)
    ultimately have "\<not> remaining + ov \<le> a" by (simp add: word_le_nat_alt)
    then have "\<forall>s \<in> set allocation_sizes. s \<le> maximum \<longrightarrow> s \<le> a" using a(3) by blast
    then have "a = largest_allocation maximum"
      using a(1,2) largest_allocation_ok [OF big] by (meson order_antisym)
    then show ?thesis ..
  qed simp
  show ?thesis
    using step a(1,2) pos le(1) fits exact largest by blast
qed

lemma add_slice_simps [simp]:
  "layout_slices (add_slice a off p plan) = layout_slices plan @ [\<lparr>slice_allocation_bytes = a,
    slice_payload_offset = off, slice_payload_bytes = ucast p\<rparr>]"
  "layout_image_bytes (add_slice a off p plan) = layout_image_bytes plan"
  "layout_allocation_bytes (add_slice a off p plan) = layout_allocation_bytes plan + a"
  by (simp_all add: add_slice_def)

lemma slices_ok_snoc:
  assumes "slices_ok maximum slices" and "length slices < HDL_MAX_PARTITIONS"
    and "slice_ok maximum (slices @ [s]) (length slices)"
  shows "slices_ok maximum (slices @ [s])"
proof -
  have "slice_ok maximum (slices @ [s]) i" if "i < length slices" for i
    using assms(1) that by (auto simp: slices_ok_def slice_ok_def nth_append Let_def)
  then show ?thesis
    using assms(2,3) by (auto simp: slices_ok_def less_Suc_eq)
qed

lemma room_step: "used < HDL_MAX_PARTITIONS \<Longrightarrow>
    room maximum used = (unat (largest_allocation maximum) - slice_overhead used) + room maximum (Suc used)"
  by (simp add: room_def sum.atLeast_Suc_lessThan)

lemma room_bound: "134217728 \<le> maximum \<Longrightarrow> room maximum used \<le> 65 * 4294967296"
proof -
  assume big: "134217728 \<le> maximum"
  have "unat (largest_allocation maximum) \<le> 4294967296"
    by (rule allocation_bounds(2) [OF largest_allocation_ok(1) [OF big]])
  then have "room maximum used \<le> (\<Sum>i = used..<HDL_MAX_PARTITIONS. 4294967296)"
    unfolding room_def by (intro sum_mono) simp
  also have "\<dots> \<le> 65 * 4294967296" by simp
  finally show ?thesis .
qed

definition layout_totals :: "hdl_partition_plan \<Rightarrow> bool" where
  "layout_totals plan \<longleftrightarrow>
    layout_allocation_bytes plan = sum_list (map slice_allocation_bytes (layout_slices plan))"

lemma plan_slices_result:
  assumes "134217728 \<le> maximum" and "plan_slices maximum remaining off plan = (code, plan')"
    and "slices_ok maximum (layout_slices plan)" and "unat off = payload_total (layout_slices plan)"
    and "unat off + unat remaining < 2 ^ 64" and "unat remaining mod 2048 = 0" and "layout_totals plan"
  shows "(code = 0 \<and> slices_ok maximum (layout_slices plan') \<and>
      payload_total (layout_slices plan') = unat off + unat remaining \<or> code = HDL_PARTITION_TOO_MANY) \<and>
    layout_image_bytes plan' = layout_image_bytes plan \<and> layout_totals plan' \<and>
    (code = 0 \<longleftrightarrow> unat remaining \<le> room maximum (length (layout_slices plan)))"
  using assms(2-)
proof (induction "65 - length (layout_slices plan)" arbitrary: remaining off plan rule: less_induct)
  case less
  let ?n = "length (layout_slices plan)"
  have n: "?n \<le> 65" using less.prems(2) by (simp add: slices_ok_def)
  consider "remaining = 0" | "remaining \<noteq> 0" "?n = 65" | "remaining \<noteq> 0" "?n < 65"
    using n by linarith
  then show ?case
  proof cases
    case 1
    then have "code = 0" "plan' = plan" using less.prems(1) by (simp_all add: plan_slices.simps)
    then show ?thesis using 1 less.prems by simp
  next
    case 2
    then have "code = HDL_PARTITION_TOO_MANY" "plan' = plan"
      using less.prems(1) by (simp_all add: plan_slices.simps)
    moreover have "room maximum ?n = 0" using 2 by (simp add: room_def)
    moreover have "0 < unat remaining" using 2 by (simp add: unat_gt_0)
    ultimately show ?thesis using less.prems(6) by simp
  next
    case 3
    obtain a p where step: "plan_slices maximum remaining off plan =
        plan_slices maximum (remaining - p) (off + p) (add_slice a off p plan)"
      and a: "a \<in> set allocation_sizes" "a \<le> maximum"
      and p: "0 < unat p" "unat p \<le> unat remaining" "unat p + slice_overhead ?n \<le> unat a"
        "p = remaining \<or> unat p + slice_overhead ?n = unat a"
        "unat remaining + slice_overhead ?n < 2 ^ 64 \<longrightarrow> p = remaining \<or> a = largest_allocation maximum"
      using plan_step [OF 3 assms(1), of off] by blast
    let ?plan = "add_slice a off p plan"
    note bounds = allocation_bounds [OF a(1)]
    have small: "unat p < 2 ^ 32" using p(3) bounds(2) by (simp add: slice_overhead_def split: if_splits)
    have bytes: "unat (ucast p :: u32) = unat p"
      using small by (simp add: unsigned_ucast_eq take_bit_nat_eq_self)
    have ov: "slice_overhead ?n mod 2048 = 0" by (simp add: slice_overhead_def)
    have aligned: "unat p mod 2048 = 0"
    proof (cases "p = remaining")
      case False
      then have "unat p + slice_overhead ?n = unat a" using p(4) by blast
      then show ?thesis using bounds(3) ov by (metis mod_add_eq mod_add_right_eq add.right_neutral)
    qed (use less.prems(5) in simp)
    have rest: "unat (remaining - p) = unat remaining - unat p" "unat (off + p) = unat off + unat p"
      using p(2) less.prems(4) by (simp_all add: unat_sub_if_size unat_word_ariths)
    have "slice_ok maximum (layout_slices ?plan) ?n"
      using a p bytes aligned less.prems(3) by (simp add: slice_ok_def)
    then have ok: "slices_ok maximum (layout_slices ?plan)"
      using slices_ok_snoc [OF less.prems(2)] 3(2) by simp
    have totals: "layout_totals ?plan" using less.prems(6) by (simp add: layout_totals_def)
    have off': "unat (off + p) = payload_total (layout_slices ?plan)"
      using rest(2) less.prems(3) bytes by simp
    have mult: "unat (remaining - p) mod 2048 = 0"
      using rest(1) aligned less.prems(5) p(2) by (simp add: mod_eq_0_iff_dvd)
    have IH: "(code = 0 \<and> slices_ok maximum (layout_slices plan') \<and>
        payload_total (layout_slices plan') = unat (off + p) + unat (remaining - p) \<or>
        code = HDL_PARTITION_TOO_MANY) \<and> layout_image_bytes plan' = layout_image_bytes ?plan \<and>
        layout_totals plan' \<and>
        (code = 0 \<longleftrightarrow> unat (remaining - p) \<le> room maximum (length (layout_slices ?plan)))"
      by (rule less.hyps) (use 3(2) less.prems(1,4) step ok off' mult totals rest p(2) in auto)
    let ?M = "unat (largest_allocation maximum)"
    have M: "unat a \<le> ?M" "?M \<le> 4294967296"
      using largest_allocation_ok [OF assms(1)] a allocation_bounds(2) by (auto simp: word_le_nat_alt)
    have R: "room maximum ?n = (?M - slice_overhead ?n) + room maximum (Suc ?n)"
      by (rule room_step [OF 3(2)])
    have "unat remaining \<le> room maximum ?n \<longleftrightarrow> unat remaining - unat p \<le> room maximum (Suc ?n)"
    proof (cases "p = remaining")
      case True
      then show ?thesis using R p(3) M(1) by simp
    next
      case False
      have exact: "unat p + slice_overhead ?n = unat a" using p(4) False by blast
      show ?thesis
      proof (cases "unat remaining + slice_overhead ?n < 2 ^ 64")
        case True
        then have "unat p + slice_overhead ?n = ?M" using p(5) False exact by simp
        then show ?thesis using R p(2) by linarith
      next
        case wrap: False
        have "slice_overhead ?n \<le> 4194304" by (simp add: slice_overhead_def)
        then show ?thesis
          using wrap room_bound [OF assms(1), of ?n] room_bound [OF assms(1), of "Suc ?n"] small by simp
      qed
    qed
    then show ?thesis using IH rest p(2) by auto
  qed
qed

section \<open>Properties of the planner\<close>

text \<open>The limit the planner works with: the caller's, but at most the largest standard size.\<close>

definition layout_limit :: "u32 \<Rightarrow> u64" where
  "layout_limit sectors = (let maximum = ucast sectors * 512 in
    if maximum > last allocation_sizes then last allocation_sizes else maximum)"

lemma unat_sectors: "unat (ucast sectors * 512 :: u64) = 512 * unat sectors" for sectors :: u32
  using unat_u32_bound [of sectors] by (simp add: unat_word_ariths)

lemma layout_limit_ok:
  assumes "\<not> ucast sectors * 512 < hd allocation_sizes"
  shows "134217728 \<le> layout_limit sectors"
  using assms by (simp add: layout_limit_def allocation_values Let_def not_less)

lemma planned_layout:
  assumes "hdl_partition_plan_image img sectors (Some plan0) = (code, Some layout)"
  shows "(code = 0 \<longleftrightarrow> img \<noteq> 0 \<and> unat img mod 2048 = 0 \<and> 0x40000 \<le> unat sectors \<and>
      unat img \<le> room (layout_limit sectors) 0) \<and>
    (code = 0 \<longrightarrow> slices_ok (layout_limit sectors) (layout_slices layout) \<and>
      payload_total (layout_slices layout) = unat img \<and> layout_image_bytes layout = img \<and>
      layout_allocation_bytes layout = sum_list (map slice_allocation_bytes (layout_slices layout)))"
proof -
  have guards: "img mod 2048 \<noteq> 0 \<longleftrightarrow> unat img mod 2048 \<noteq> 0"
    "(ucast sectors * 512 :: u64) < hd allocation_sizes \<longleftrightarrow> \<not> 0x40000 \<le> unat sectors"
    using unat_sectors [of sectors]
    by (simp_all add: allocation_values word_less_nat_alt word_unat_eq_iff unat_mod not_le)
  show ?thesis
  proof (cases "img = 0 \<or> unat img mod 2048 \<noteq> 0 \<or> \<not> 0x40000 \<le> unat sectors")
    case True
    then show ?thesis
      using assms guards by (auto simp: hdl_partition_plan_image_def Let_def split: if_splits)
  next
    case False
    then have big: "134217728 \<le> layout_limit sectors" using guards(2) by (intro layout_limit_ok) simp
    obtain c l where run: "plan_slices (layout_limit sectors) img 0 empty_layout = (c, l)"
      by (cases "plan_slices (layout_limit sectors) img 0 empty_layout")
    have "slices_ok (layout_limit sectors) (layout_slices empty_layout)" "layout_totals empty_layout"
      "layout_slices empty_layout = []"
      by (simp_all add: slices_ok_def layout_totals_def empty_layout_def)
    note result = plan_slices_result [OF big run this(1) _ _ _ this(2), unfolded this(3)]
    have r: "(c = 0 \<and> slices_ok (layout_limit sectors) (layout_slices l) \<and>
        payload_total (layout_slices l) = unat img \<or> c = - 522) \<and> layout_totals l \<and>
        (c = 0 \<longleftrightarrow> unat img \<le> room (layout_limit sectors) 0)"
      using result unat_u64_bound [of img] False by auto
    have "(code, Some layout) = (if c < 0 then (c, Some l) else (0, Some (l\<lparr>layout_image_bytes := img\<rparr>)))"
      using assms run False guards
      by (simp add: hdl_partition_plan_image_def layout_limit_def Let_def split: if_splits)
    then show ?thesis using r False by (auto simp: layout_totals_def split: if_splits)
  qed
qed

text \<open>
  Property C36: an image can be planned exactly when it is non-empty, a whole number of 2048-byte
  blocks, the limit admits the smallest standard size, and the image fits one main and 64
  sub-partitions of the largest standard size under the limit.  The plan then covers the image
  without gaps or overlaps in at most 65 slices of standard sizes, each big enough for its
  payload after the reserved area, and its total is the sum of the allocations.
\<close>

theorem hdl_plan_exact:
  assumes "hdl_partition_plan_image img sectors (Some plan0) = (code, Some layout)"
  shows "(code = 0 \<longleftrightarrow> img \<noteq> 0 \<and> unat img mod 2048 = 0 \<and> 0x40000 \<le> unat sectors \<and>
      unat img \<le> room (layout_limit sectors) 0) \<and>
    (code = 0 \<longrightarrow> slices_ok (layout_limit sectors) (layout_slices layout) \<and>
      payload_total (layout_slices layout) = unat img \<and> layout_image_bytes layout = img \<and>
      layout_allocation_bytes layout = sum_list (map slice_allocation_bytes (layout_slices layout)))"
  using assms by (rule planned_layout)

definition five_gib_layout :: hdl_partition_plan where
  "five_gib_layout = \<lparr>layout_image_bytes = 5368709120, layout_allocation_bytes = 6442450944,
    layout_slices = [\<lparr>slice_allocation_bytes = 4294967296, slice_payload_offset = 0,
      slice_payload_bytes = 4290772992\<rparr>, \<lparr>slice_allocation_bytes = 2147483648,
      slice_payload_offset = 4290772992, slice_payload_bytes = 1077936128\<rparr>]\<rparr>"

lemma five_gib_plan:
  "hdl_partition_plan_image 5368709120 0x800000 (Some empty_layout) = (0, Some five_gib_layout)"
  by code_simp

theorem hdl_plan_exact_witness:
  "payload_total (layout_slices five_gib_layout) = unat (5368709120 :: u64)"
  using hdl_plan_exact [OF five_gib_plan] by simp

section \<open>What a built block holds\<close>

definition slice_entry :: "byte list \<Rightarrow> nat \<Rightarrow> hdl_slice_plan \<times> u32 \<Rightarrow> bool" where
  "slice_entry metadata i e \<longleftrightarrow> (case e of (sl, start) \<Rightarrow>
    unat (read_le32 metadata (244 + i * 12)) = unat (slice_payload_offset sl) div 2048 \<and>
    unat (read_le32 metadata (248 + i * 12)) = unat start + slice_overhead i div 512 \<and>
    read_le32 metadata (252 + i * 12) = slice_payload_bytes sl)"

lemma slice_entry_cong:
  assumes "\<And>k. k < 256 + i * 12 \<Longrightarrow> m' ! k = m ! k" and "length m' = length m"
  shows "slice_entry m' i e = slice_entry m i e"
proof -
  have "read_le32 m' off = read_le32 m off" if "off + 4 \<le> 256 + i * 12" for off
    by (rule le32.rd_cong, rule bytes_at_eqI) (use assms that in auto)
  then show ?thesis by (simp add: slice_entry_def)
qed

lemma small_ucast: "\<not> v > 0xFFFFFFFF \<Longrightarrow> unat (ucast v :: u32) = unat v" for v :: u64
  by (simp add: unsigned_ucast_eq take_bit_nat_eq_self not_less word_le_nat_alt)

lemma entry_start: "unat (ucast start + (if i = 0 then HDL_MAIN_DATA_OFFSET else HDL_SUB_DATA_OFFSET) div 512) =
    unat start + slice_overhead i div 512" for start :: u32 and i :: nat
  using unat_u32_bound [of start] by (simp add: slice_overhead_def unat_word_ariths)

lemma metadata_entries_ok:
  assumes "metadata_entries i es expected m = (0, expected', m')" and "length m = HDL_METADATA_SIZE"
    and "i + length es \<le> HDL_MAX_PARTITIONS"
  shows "length m' = HDL_METADATA_SIZE \<and> (\<forall>k < 244 + i * 12. m' ! k = m ! k) \<and>
    (\<forall>j < length es. slice_entry m' (i + j) (es ! j))"
  using assms
proof (induction es arbitrary: i expected m)
  case (Cons e es)
  obtain sl start where e: "e = (sl, start)" by (cases e)
  let ?over = "if i = 0 then HDL_MAIN_DATA_OFFSET else HDL_SUB_DATA_OFFSET"
  let ?data = "ucast start + ?over div 512 :: u64" and ?part = "slice_payload_offset sl div 2048"
  let ?m = "write_le32 (244 + i * 12 + 8) (slice_payload_bytes sl)
    (write_le32 (244 + i * 12 + 4) (ucast ?data) (write_le32 (244 + i * 12) (ucast ?part) m))"
  have ok: "\<not> entry_refused sl ?over ?data ?part expected"
    using Cons.prems(1) by (auto simp: e Let_def split: if_splits)
  have run: "metadata_entries (i + 1) es (expected + ucast (slice_payload_bytes sl)) ?m = (0, expected', m')"
    using Cons.prems(1) ok by (simp add: e Let_def)
  have len: "length ?m = HDL_METADATA_SIZE" "i + 1 + length es \<le> HDL_MAX_PARTITIONS"
    using Cons.prems(2,3) by simp_all
  note IH = Cons.IH [OF run len]
  have space: "256 + i * 12 \<le> 1024" using Cons.prems(3) by simp
  have reads: "read_le32 ?m (244 + i * 12) = ucast ?part" "read_le32 ?m (248 + i * 12) = ucast ?data"
    "read_le32 ?m (252 + i * 12) = slice_payload_bytes sl"
    using space Cons.prems(2) by (simp_all add: writes_def buf_simps)
  have here: "slice_entry ?m i (sl, start)"
    unfolding slice_entry_def prod.case reads
    using ok entry_start [of start i] by (simp add: entry_refused_def small_ucast unat_div)
  have "slice_entry m' i (sl, start)"
    by (rule slice_entry_cong [THEN iffD2, OF _ _ here]) (use IH len in auto)
  then have "\<forall>j < length (e # es). slice_entry m' (i + j) ((e # es) ! j)"
    using IH by (auto simp: e nth_Cons' less_Suc_eq_0_disj)
  moreover have "m' ! k = m ! k" if "k < 244 + i * 12" for k
  proof -
    have "m' ! k = ?m ! k" using IH that by simp
    also have "\<dots> = m ! k" using that space Cons.prems(2) by (simp add: writes_def nth_blit_out)
    finally show ?thesis .
  qed
  ultimately show ?case using IH by blast
qed simp

text \<open>A C string without control characters, as the parser demands.\<close>

definition printable :: "byte list \<Rightarrow> bool" where
  "printable text \<longleftrightarrow> (\<forall>c \<in> set text. 0x20 \<le> c \<and> c \<noteq> 0x7f)"

lemma read_text_padded:
  assumes "text \<noteq> []" and "length text < destination_size" and "printable text"
  shows "read_metadata_text destination_size (text @ replicate k 0) = (0, text)"
proof -
  have "takeWhile (\<lambda>c. c \<noteq> 0) (text @ replicate k 0) = text @ takeWhile (\<lambda>c. c \<noteq> 0) (replicate k 0)"
    using assms(3) by (intro takeWhile_append2) (auto simp: printable_def)
  also have "takeWhile (\<lambda>c. c \<noteq> 0) (replicate k (0 :: byte)) = []" by (cases k) simp_all
  finally have "takeWhile (\<lambda>c. c \<noteq> 0) (text @ replicate k 0) = text" by simp
  then show ?thesis
    using assms by (auto simp: read_metadata_text_def list_ex_iff printable_def not_less)
qed

lemma copy_text_ok:
  assumes "copy_metadata_text offset capacity text buffer = (code, buffer')" and "\<not> code < 0"
  obtains s where "text = Some s" "s \<noteq> []" "length s < capacity" "buffer' = blit offset s buffer" "code = 0"
  using assms by (auto simp: copy_metadata_text_def split: option.splits if_splits)

lemma padded_field:
  assumes "offset + capacity \<le> n" and "length s < capacity"
  shows "bytes_at offset capacity (blit offset s (replicate n 0)) = s @ replicate (capacity - length s) 0"
  using assms by (auto intro!: nth_equalityI simp: nth_bytes_at nth_blit nth_append)

lemma metadata_entries_code:
  "metadata_entries i es expected m = (code, out) \<Longrightarrow> \<not> code < 0 \<Longrightarrow> code = 0"
  by (induction es arbitrary: i expected m) (auto simp: Let_def split: if_splits)

lemma metadata_fields_reads:
  fixes options :: hdl_metadata_options and entries :: u32
  assumes "length b = HDL_METADATA_SIZE"
  defines "f \<equiv> metadata_fields options entries b"
  shows "length f = HDL_METADATA_SIZE" "read_le32 f 0 = HDL_INFO_MAGIC" "read_le32 f 4 = 0x10000"
    "read_le32 f 232 = opt_layer1_start options" "read_le32 f 236 = opt_disc_type options"
    "read_le32 f 240 = entries" "f ! 168 = opt_hdl_compat_flags options"
    "f ! 169 = opt_opl_compat_flags options" "f ! 170 = opt_dma_type options"
    "f ! 171 = opt_dma_mode options" "bytes_at 8 160 f = bytes_at 8 160 b"
    "bytes_at 172 60 f = bytes_at 172 60 b"
proof -
  show "read_le32 f 4 = 0x10000"
    using assms(1)
    by (simp add: f_def metadata_fields_def writes_def read_le32_def nth_blit le16_bytes_def)
qed (use assms(1) in \<open>simp_all add: f_def metadata_fields_def writes_def buf_simps nth_blit\<close>)

definition info_of :: "hdl_metadata_options \<Rightarrow> byte list \<Rightarrow> byte list \<Rightarrow> u32 \<Rightarrow> hdl_metadata_info" where
  "info_of options title startup entries = \<lparr>info_game_title = title, info_startup = startup,
    info_metadata_version = 0x10000, info_disc_type = opt_disc_type options,
    info_layer1_start = opt_layer1_start options, info_partition_count = entries,
    info_hdl_compat_flags = opt_hdl_compat_flags options,
    info_opl_compat_flags = opt_opl_compat_flags options,
    info_dma_type = opt_dma_type options, info_dma_mode = opt_dma_mode options\<rparr>"

lemma built_metadata:
  assumes build: "hdl_metadata_build plan starts (length starts) options buffer = (0, m)"
    and strs: "opt_game_title options = Some title" "opt_startup options = Some startup"
      "printable title" "printable startup"
    and disc: "opt_disc_type options \<in> {0x12, 0x14}"
  shows "hdl_metadata_parse m =
      (0, info_of options title startup (of_nat (length (layout_slices plan))))"
    and "\<forall>i < length (layout_slices plan). slice_entry m i (layout_slices plan ! i, starts ! i)"
    and "length (layout_slices plan) = length starts"
proof -
  let ?slices = "layout_slices plan"
  let ?m1 = "blit 8 title (replicate 1024 0)"
  let ?m2 = "blit 172 startup ?m1"
  let ?f = "metadata_fields options (of_nat (length ?slices)) ?m2"
  have n: "0 < length ?slices" "length ?slices \<le> 65" "length ?slices = length starts"
    using build by (auto simp: hdl_metadata_build_def Let_def split: if_splits)
  have t: "title \<noteq> []" "length title < 160" "startup \<noteq> []" "length startup < 60"
    using build strs by (auto simp: hdl_metadata_build_def copy_metadata_text_def Let_def split: if_splits)
  obtain expected where run: "metadata_entries 0 (zip ?slices starts) 0 ?f = (0, expected, m)"
    using build strs t n
    by (auto simp: hdl_metadata_build_def copy_metadata_text_def Let_def split: if_splits prod.splits
        dest: metadata_entries_code)
  note f = metadata_fields_reads [of ?m2 options "of_nat (length ?slices)"]
  have lf: "length ?f = 1024" using f(1) by simp
  note entries = metadata_entries_ok [OF run lf]
  have m: "length m = 1024" "\<forall>k<244. m ! k = ?f ! k"
    and slices: "\<forall>j < length ?slices. slice_entry m j (?slices ! j, starts ! j)"
    using entries n by auto
  have low: "bytes_at off w m = bytes_at off w ?f" if "off + w \<le> 244" for off w
    by (rule bytes_at_eqI) (use m lf that in auto)
  have low32: "read_le32 m off = read_le32 ?f off" if "off + 4 \<le> 244" for off
    by (rule le32.rd_cong, rule low, rule that)
  have swap: "?m2 = blit 8 title (blit 172 startup (replicate 1024 0))"
    using t(2) by (intro blit_commute [symmetric]) simp
  have "bytes_at 8 160 ?m2 = bytes_at 8 160 ?m1" by (rule bytes_at_blit_out) simp
  then have titles: "bytes_at 8 160 m = title @ replicate (160 - length title) 0"
    using t(2) low [of 8 160] f(11) by (simp add: padded_field)
  have "bytes_at 172 60 ?m2 = bytes_at 172 60 (blit 172 startup (replicate 1024 0))"
    unfolding swap using t(2) by (intro bytes_at_blit_out) simp
  then have startups: "bytes_at 172 60 m = startup @ replicate (60 - length startup) 0"
    using t(4) low [of 172 60] f(12) by (simp add: padded_field)
  have entries32: "(of_nat (length ?slices) :: u32) \<noteq> 0" "\<not> (of_nat (length ?slices) :: u32) > 65"
    using n by (simp_all add: word_unat_eq_iff word_less_nat_alt unat_of_nat_small)
  have parts: "read_metadata_text 161 (bytes_at 8 160 m) = (0, title)"
    "read_metadata_text 61 (bytes_at 172 60 m) = (0, startup)"
    unfolding titles startups using t strs(3,4) by (auto intro!: read_text_padded)
  show "hdl_metadata_parse m = (0, info_of options title startup (of_nat (length ?slices)))"
    using parts disc entries32 m(2) f
    by (simp add: hdl_metadata_parse_def Let_def low32 info_of_def empty_metadata_info_def)
  show "\<forall>i < length ?slices. slice_entry m i (?slices ! i, starts ! i)" by (rule slices)
  show "length ?slices = length starts" by (rule n(3))
qed

section \<open>Every planned layout can be written\<close>

definition starts_ok :: "u32 list \<Rightarrow> bool" where
  "starts_ok starts \<longleftrightarrow> (\<forall>i<length starts. unat (starts ! i) + slice_overhead i div 512 < 2 ^ 32)"

lemma payload_total_take: "i < length slices \<Longrightarrow>
    payload_total (take (Suc i) slices) = payload_total (take i slices) + unat (slice_payload_bytes (slices ! i))"
  by (simp add: take_Suc_conv_app_nth)

lemma payload_total_facts:
  assumes "slices_ok maximum slices" and "i \<le> length slices"
  shows "payload_total (take i slices) mod 2048 = 0" "payload_total (take i slices) \<le> i * 4294967296"
proof -
  have "payload_total (take i slices) mod 2048 = 0 \<and> payload_total (take i slices) \<le> i * 4294967296"
    using assms(2)
  proof (induction i)
    case (Suc i)
    then have ok: "slice_ok maximum slices i" using assms(1) by (simp add: slices_ok_def)
    have "unat (slice_payload_bytes (slices ! i)) mod 2048 = 0"
      "unat (slice_payload_bytes (slices ! i)) \<le> 4294967296"
      using ok unat_u32_bound [of "slice_payload_bytes (slices ! i)"]
      by (simp_all add: slice_ok_def Let_def)
    then show ?case
      using Suc payload_total_take [of i slices] by (simp add: mod_eq_0_iff_dvd)
  qed simp
  then show "payload_total (take i slices) mod 2048 = 0" "payload_total (take i slices) \<le> i * 4294967296"
    by simp_all
qed

lemma low_bits_clear: "unat v mod 2048 = 0 \<Longrightarrow> v AND 2047 = 0" for v :: "'a :: len word"
proof -
  assume "unat v mod 2048 = 0"
  then have "take_bit 11 (unat v) = 0" by (simp add: take_bit_eq_mod)
  then have "unat (take_bit 11 v) = 0" by (simp add: unsigned_take_bit_eq)
  then have "take_bit 11 v = 0" by (simp add: unat_eq_0)
  moreover have "take_bit 11 v = v AND mask 11" by (rule take_bit_eq_mask)
  moreover have "mask 11 = (2047 :: 'a word)" by (simp add: mask_eq_exp_minus_1)
  ultimately show "v AND 2047 = 0" by simp
qed

lemma entry_accepted:
  fixes start :: u32 and expected :: u64
  assumes ok: "slice_ok maximum slices i" and all: "slices_ok maximum slices" and i: "i < length slices"
    and expected: "unat expected = payload_total (take i slices)"
    and start: "unat start + slice_overhead i div 512 < 2 ^ 32"
  shows "\<not> entry_refused (slices ! i) (if i = 0 then HDL_MAIN_DATA_OFFSET else HDL_SUB_DATA_OFFSET)
    (ucast start + (if i = 0 then HDL_MAIN_DATA_OFFSET else HDL_SUB_DATA_OFFSET) div 512)
    (slice_payload_offset (slices ! i) div 2048) expected"
proof -
  let ?s = "slices ! i" and ?over = "if i = 0 then HDL_MAIN_DATA_OFFSET else HDL_SUB_DATA_OFFSET"
  have s: "slice_allocation_bytes ?s \<in> set allocation_sizes"
    "unat (slice_payload_offset ?s) = payload_total (take i slices)"
    "unat (slice_payload_bytes ?s) mod 2048 = 0"
    "unat (slice_payload_bytes ?s) + slice_overhead i \<le> unat (slice_allocation_bytes ?s)"
    using ok by (simp_all add: slice_ok_def Let_def)
  have over: "unat ?over = slice_overhead i" "slice_overhead i \<le> 4194304"
    by (simp_all add: slice_overhead_def)
  have total: "payload_total (take i slices) mod 2048 = 0" "payload_total (take i slices) \<le> 65 * 4294967296"
    using payload_total_facts [OF all, of i] i all by (auto simp: slices_ok_def)
  have "\<not> slice_allocation_bytes ?s \<le> ?over"
    using allocation_bounds(1) [OF s(1)] over by (simp add: word_le_nat_alt)
  moreover have "slice_payload_offset ?s = expected" using s(2) expected by (simp add: word_unat_eq_iff)
  moreover have "slice_payload_offset ?s AND 2047 = 0" "slice_payload_bytes ?s AND 2047 = 0"
    using s(2,3) total(1) by (simp_all add: low_bits_clear)
  moreover have "\<not> ucast (slice_payload_bytes ?s) > slice_allocation_bytes ?s - ?over"
  proof -
    have "unat (slice_allocation_bytes ?s - ?over) = unat (slice_allocation_bytes ?s) - slice_overhead i"
      using allocation_bounds(1) [OF s(1)] over by (simp add: unat_sub_if_size)
    then show ?thesis using s(4) by (simp add: not_less word_le_nat_alt)
  qed
  moreover have "\<not> ucast start + ?over div 512 > (0xFFFFFFFF :: u64)"
    using entry_start [of start i] start by (simp add: not_less word_le_nat_alt)
  moreover have "\<not> slice_payload_offset ?s div 2048 > 0xFFFFFFFF"
  proof -
    have "payload_total (take i slices) div 2048 \<le> 65 * 4294967296 div 2048"
      using total(2) by (rule div_le_mono)
    then show ?thesis using s(2) by (simp add: not_less word_le_nat_alt unat_div)
  qed
  ultimately show ?thesis unfolding entry_refused_def by blast
qed

lemma metadata_entries_total:
  assumes "slices_ok maximum slices" and "length starts = length slices" and "starts_ok starts"
    and "i \<le> length slices" and "unat expected = payload_total (take i slices)"
  shows "\<exists>expected' m'. metadata_entries i (drop i (zip slices starts)) expected m = (0, expected', m') \<and>
    unat expected' = payload_total slices"
  using assms(4,5)
proof (induction "length slices - i" arbitrary: i expected m)
  case 0
  then show ?case by simp
next
  case (Suc k)
  then have i: "i < length slices" by simp
  let ?s = "slices ! i" and ?over = "if i = 0 then HDL_MAIN_DATA_OFFSET else HDL_SUB_DATA_OFFSET"
  have drop: "drop i (zip slices starts) = (?s, starts ! i) # drop (i + 1) (zip slices starts)"
    using i assms(2) by (simp add: Cons_nth_drop_Suc [symmetric])
  have ok: "\<not> entry_refused ?s ?over (ucast (starts ! i) + ?over div 512)
      (slice_payload_offset ?s div 2048) expected"
    using assms(1-3) i Suc.prems(2)
    by (intro entry_accepted [of maximum]) (auto simp: slices_ok_def starts_ok_def)
  have small: "payload_total (take i slices) \<le> 65 * 4294967296"
    using payload_total_facts(2) [OF assms(1), of i] i assms(1) by (auto simp: slices_ok_def)
  have "unat (expected + ucast (slice_payload_bytes ?s)) = payload_total (take (i + 1) slices)"
    using Suc.prems(2) payload_total_take [OF i] small unat_u32_bound [of "slice_payload_bytes ?s"]
    by (simp add: unat_word_ariths)
  then show ?case
    using Suc.hyps(1) [of "i + 1"] Suc.hyps(2) i ok unfolding drop by (simp add: Let_def)
qed

lemma build_unfold:
  assumes "layout_slices layout \<noteq> []" and "length (layout_slices layout) \<le> 65"
    and "length starts = length (layout_slices layout)"
    and "title \<noteq> []" "length title < 160" and "startup \<noteq> []" "length startup < 60"
    and "opt_game_title options = Some title" and "opt_startup options = Some startup"
    and "metadata_entries 0 (zip (layout_slices layout) starts) 0 (metadata_fields options
      (of_nat (length (layout_slices layout))) (blit 172 startup (blit 8 title (replicate 1024 0)))) =
      (0, layout_image_bytes layout, m)"
  shows "hdl_metadata_build layout starts (length starts) options buffer = (0, m)"
proof -
  have copy: "copy_metadata_text 8 160 (opt_game_title options) b = (0, blit 8 title b)"
    "copy_metadata_text 172 60 (opt_startup options) b = (0, blit 172 startup b)" for b
    using assms(4-9) by (simp_all add: copy_metadata_text_def)
  show ?thesis
    unfolding hdl_metadata_build_def Let_def copy prod.case
    using assms(1,2,3,10) by simp
qed

text \<open>
  Property C37: every layout the planner accepts can be written.  With start sectors whose data
  areas end below \<open>2^32\<close>, printable non-empty texts that fit their fields and a supported disc
  type, the metadata block of a planned image is built, parsing it gives back the texts, the
  flags and the number of slices, and its entries hold each slice's offset, data start and size.
\<close>

theorem hdl_layout_roundtrip:
  assumes "hdl_partition_plan_image img sectors (Some plan0) = (0, Some layout)"
    and "length starts = length (layout_slices layout)" and "starts_ok starts"
    and "opt_game_title options = Some title" and "title \<noteq> []" "length title < 160" "printable title"
    and "opt_startup options = Some startup" and "startup \<noteq> []" "length startup < 60" "printable startup"
    and "opt_disc_type options \<in> {0x12, 0x14}"
  shows "\<exists>m. hdl_metadata_build layout starts (length starts) options buffer = (0, m) \<and>
    hdl_metadata_parse m = (0, info_of options title startup (of_nat (length starts))) \<and>
    (\<forall>i < length starts. slice_entry m i (layout_slices layout ! i, starts ! i))"
proof -
  let ?slices = "layout_slices layout"
  have l: "slices_ok (layout_limit sectors) ?slices" "payload_total ?slices = unat img"
    "layout_image_bytes layout = img" "img \<noteq> 0"
    using planned_layout [OF assms(1)] by blast+
  have some: "?slices \<noteq> []"
  proof
    assume "?slices = []"
    then have "unat img = 0" using l(2) by simp
    then show False using l(4) by (simp add: unat_eq_0)
  qed
  have many: "length ?slices \<le> 65" using l(1) by (simp add: slices_ok_def)
  let ?f = "metadata_fields options (of_nat (length ?slices)) (blit 172 startup (blit 8 title (replicate 1024 0)))"
  have "unat (0 :: u64) = payload_total (take 0 ?slices)" by simp
  from metadata_entries_total [OF l(1) assms(2,3) le0 this, unfolded drop_0, of ?f]
  obtain e' m where run: "metadata_entries 0 (zip ?slices starts) 0 ?f = (0, e', m)"
    and e': "unat e' = payload_total ?slices" by blast
  have "e' = layout_image_bytes layout" using e' l(2,3) by (simp add: word_unat_eq_iff)
  then have build: "hdl_metadata_build layout starts (length starts) options buffer = (0, m)"
    using run by (intro build_unfold [OF some many assms(2,5,6,9,10,4,8)]) simp
  then show ?thesis
    using built_metadata [OF build assms(4,8,7,11,12)] assms(2) by metis
qed

definition sample_options :: hdl_metadata_options where
  "sample_options = \<lparr>opt_game_title = Some [0x41, 0x42], opt_startup = Some [0x53],
    opt_disc_type = 0x14, opt_layer1_start = 0x123456, opt_hdl_compat_flags = 5,
    opt_opl_compat_flags = 8, opt_dma_type = 0, opt_dma_mode = 4\<rparr>"

theorem hdl_layout_roundtrip_witness:
  "\<exists>m. hdl_metadata_build five_gib_layout [0x100000, 0x900000] 2 sample_options [] = (0, m) \<and>
    hdl_metadata_parse m = (0, info_of sample_options [0x41, 0x42] [0x53] 2) \<and>
    slice_entry m 1 (layout_slices five_gib_layout ! 1, 0x900000)"
proof -
  have slices: "length (layout_slices five_gib_layout) = 2" by (simp add: five_gib_layout_def)
  have "starts_ok [0x100000, 0x900000]"
    by (auto simp: starts_ok_def slice_overhead_def less_Suc_eq)
  then have "\<exists>m. hdl_metadata_build five_gib_layout [0x100000, 0x900000] (length [0x100000, 0x900000 :: u32])
      sample_options [] = (0, m) \<and>
    hdl_metadata_parse m = (0, info_of sample_options [0x41, 0x42] [0x53]
      (of_nat (length [0x100000, 0x900000 :: u32]))) \<and>
    (\<forall>i < length [0x100000, 0x900000 :: u32]. slice_entry m i
      (layout_slices five_gib_layout ! i, [0x100000, 0x900000] ! i))"
    using slices
    by (intro hdl_layout_roundtrip [OF five_gib_plan]) (simp_all add: sample_options_def printable_def)
  moreover have "length [0x100000, 0x900000 :: u32] = 2" by simp
  ultimately obtain m where "hdl_metadata_build five_gib_layout [0x100000, 0x900000] 2 sample_options [] = (0, m)"
    "hdl_metadata_parse m = (0, info_of sample_options [0x41, 0x42] [0x53] (of_nat 2))"
    "\<forall>i < 2. slice_entry m i (layout_slices five_gib_layout ! i, [0x100000, 0x900000] ! i)"
    by metis
  then show ?thesis by (intro exI [of _ m]) (auto dest: spec [of _ "1 :: nat"])
qed

section \<open>Partition names\<close>

definition safe_char :: "byte \<Rightarrow> bool" where
  "safe_char c \<longleftrightarrow> is_digit c \<or> is_upper c \<or> c \<in> {0x20, 0x2d, 0x5f, 0x2e}"

lemma partition_char_safe: "safe_char (partition_char c)"
  using to_upper_upper [of c]
  by (auto simp: partition_char_def is_alnum_def to_upper_def safe_char_def)

lemma trim_suffix:
  assumes "s \<noteq> []" and "last s \<noteq> 0x20"
  shows "\<exists>k. rev (dropWhile (\<lambda>c. c = 0x20) (rev (s @ t))) = s @ take k t \<and>
    (take k t = [] \<or> last (take k t) \<noteq> 0x20)"
proof (induction t rule: rev_induct)
  case Nil
  then show ?case using assms by (cases s rule: rev_cases) auto
next
  case (snoc x t)
  show ?case
  proof (cases "x = 0x20")
    case True
    obtain k where "rev (dropWhile (\<lambda>c. c = 0x20) (rev (s @ t))) = s @ take k t"
      "take k t = [] \<or> last (take k t) \<noteq> 0x20" using snoc by blast
    moreover have "take (min k (length t)) (t @ [x]) = take k t" by (simp add: min_def)
    ultimately show ?thesis using True by (intro exI [of _ "min k (length t)"]) simp
  next
    case False
    then show ?thesis by (intro exI [of _ "Suc (length t)"]) simp
  qed
qed

text \<open>
  A partition name is made exactly for a disc id of ten characters and a non-empty
  title.  It is \<open>PP.\<close>, the disc id, \<open>.HDL.\<close> and a prefix of the title, in upper case with every
  unsafe character replaced; it has at most 32 characters and does not end in a space.
\<close>

theorem partition_name_exact:
  "hdl_partition_id (Some disc) (Some title) = (code, name) \<Longrightarrow>
    (code = 0 \<longleftrightarrow> length disc = 10 \<and> title \<noteq> []) \<and>
    (code = 0 \<longrightarrow> length name \<le> 32 \<and> last name \<noteq> 0x20 \<and> (\<forall>c \<in> set name. safe_char c) \<and>
      (\<exists>k. name = id_prefix @ map partition_char disc @ id_middle @ map partition_char (take k title)))"
proof -
  assume run: "hdl_partition_id (Some disc) (Some title) = (code, name)"
  show ?thesis
  proof (cases "length disc = 10 \<and> title \<noteq> []")
    case False
    then show ?thesis using run by (auto simp: hdl_partition_id_def split: if_splits)
  next
    case True
    let ?s = "id_prefix @ map partition_char disc @ id_middle"
    let ?t = "take 14 (map partition_char title)"
    have s: "append_id id_prefix disc @ id_middle = ?s" "length ?s = 18"
      using True by (simp_all add: append_id_def id_prefix_def id_middle_def)
    have "append_id ?s title = ?s @ ?t" by (simp only: append_id_def s(2)) simp
    moreover have last: "last ?s = 0x2e" "?s \<noteq> []" by (simp_all add: id_middle_def id_prefix_def)
    then obtain k where k: "rev (dropWhile (\<lambda>c. c = 0x20) (rev (?s @ ?t))) = ?s @ take k ?t"
      "take k ?t = [] \<or> last (take k ?t) \<noteq> 0x20"
      using trim_suffix [of ?s ?t] by auto
    moreover have "\<not> length (append_id id_prefix disc) + length id_middle > 32"
      using True by (simp add: append_id_def id_prefix_def id_middle_def)
    ultimately have out: "name = ?s @ take k ?t" "code = 0"
      using run True s by (simp_all add: hdl_partition_id_def Let_def id_prefix_def id_middle_def)
    have tail: "take k ?t = map partition_char (take (min k 14) title)" by (simp add: take_map)
    have "\<forall>c \<in> set id_prefix. safe_char c" "\<forall>c \<in> set id_middle. safe_char c"
      by (auto simp: id_prefix_def id_middle_def safe_char_def is_upper_def)
    moreover have "\<forall>c \<in> set (map partition_char s). safe_char c" for s
      using partition_char_safe by auto
    ultimately have "\<forall>c \<in> set name. safe_char c"
      unfolding out(1) tail set_append by blast
    moreover have "length name \<le> 32" using s(2) by (simp add: out(1))
    moreover have "last name \<noteq> 0x20" using k(2) last(1) by (auto simp: out(1) last_append)
    ultimately show ?thesis using True out tail by auto
  qed
qed

theorem partition_name_exact_witness:
  "(fst (hdl_partition_id (Some (map (\<lambda>_. 0x31) [0 ..< 10])) (Some [0x61, 0x2a, 0x20])) = 0) \<and>
    length (snd (hdl_partition_id (Some (map (\<lambda>_. 0x31) [0 ..< 10])) (Some [0x61, 0x2a, 0x20]))) \<le> 32"
proof -
  let ?run = "hdl_partition_id (Some (map (\<lambda>_. 0x31) [0 ..< 10])) (Some [0x61, 0x2a, 0x20])"
  have "?run = (fst ?run, snd ?run)" by simp
  from partition_name_exact [OF this] show ?thesis by simp
qed

end
