(* ===== verification/HdlTransaction.thy ===== *)
theory HdlTransaction
  imports Sha256_Correct
begin

text \<open>
  The durable record of a resumable installation: \<open>src/hdl_transaction.c\<close>.  A record carries the
  stage and the progress of an installation, is sealed with a SHA-256 digest, and moves through
  its stages by a fixed relation.  The lemmas show that a valid record survives encoding and
  decoding, exactly when a record is accepted, and that every completed installation went through
  all stages in order.  Text fields are the whole C arrays; the stage is the raw 32-bit value, as
  a record may hold any.
\<close>

abbreviation (input) HDL_TRANSACTION_RECORD_SIZE :: nat where "HDL_TRANSACTION_RECORD_SIZE \<equiv> 512"
abbreviation (input) HDL_TRANSACTION_TARGET_MAX :: nat where "HDL_TRANSACTION_TARGET_MAX \<equiv> 33"
abbreviation (input) HDL_TRANSACTION_STARTUP_MAX :: nat where "HDL_TRANSACTION_STARTUP_MAX \<equiv> 60"
abbreviation (input) HDL_TRANSACTION_SOURCE_PATH_MAX :: nat where
  "HDL_TRANSACTION_SOURCE_PATH_MAX \<equiv> 160"
abbreviation (input) HDL_TRANSACTION_GAME_TITLE_MAX :: nat where
  "HDL_TRANSACTION_GAME_TITLE_MAX \<equiv> 128"
abbreviation (input) HDL_TRANSACTION_VERSION :: u32 where "HDL_TRANSACTION_VERSION \<equiv> 2"
abbreviation (input) HDL_TRANSACTION_HASH_OFFSET :: nat where "HDL_TRANSACTION_HASH_OFFSET \<equiv> 480"

abbreviation (input) HDL_TRANSACTION_INVALID_ARGUMENT :: int where
  "HDL_TRANSACTION_INVALID_ARGUMENT \<equiv> - 540"
abbreviation (input) HDL_TRANSACTION_INVALID_RECORD :: int where
  "HDL_TRANSACTION_INVALID_RECORD \<equiv> - 541"
abbreviation (input) HDL_TRANSACTION_HASH_MISMATCH :: int where
  "HDL_TRANSACTION_HASH_MISMATCH \<equiv> - 542"
abbreviation (input) HDL_TRANSACTION_INVALID_STAGE :: int where
  "HDL_TRANSACTION_INVALID_STAGE \<equiv> - 543"
abbreviation (input) HDL_TRANSACTION_PROGRESS_INVALID :: int where
  "HDL_TRANSACTION_PROGRESS_INVALID \<equiv> - 544"

abbreviation (input) STAGE_PLANNED :: u32 where "STAGE_PLANNED \<equiv> 1"
abbreviation (input) STAGE_PARTITIONS_CREATED :: u32 where "STAGE_PARTITIONS_CREATED \<equiv> 2"
abbreviation (input) STAGE_COPYING :: u32 where "STAGE_COPYING \<equiv> 3"
abbreviation (input) STAGE_PAYLOAD_VERIFIED :: u32 where "STAGE_PAYLOAD_VERIFIED \<equiv> 4"
abbreviation (input) STAGE_METADATA_COMMITTED :: u32 where "STAGE_METADATA_COMMITTED \<equiv> 5"
abbreviation (input) STAGE_COMPLETE :: u32 where "STAGE_COMPLETE \<equiv> 6"
abbreviation (input) STAGE_ABORTED :: u32 where "STAGE_ABORTED \<equiv> 7"

section \<open>The record\<close>

record hdl_transaction =
  txn_stage :: u32
  txn_source_bytes :: u64
  txn_total_sectors :: u64
  txn_completed_sectors :: u64
  txn_partition_count :: u32
  txn_source_fingerprint :: "byte list"
  txn_target :: "byte list"
  txn_startup :: "byte list"
  txn_source_path :: "byte list"
  txn_game_title :: "byte list"
  txn_disc_type :: u32
  txn_layer1_start :: u32
  txn_hdl_compat_flags :: byte
  txn_opl_compat_flags :: byte
  txn_dma_type :: byte
  txn_dma_mode :: byte

definition transaction_magic :: "byte list" where
  "transaction_magic = [0x48, 0x44, 0x4c, 0x54, 0x58, 0x4e, 1, 0]"

definition text_terminated :: "byte list \<Rightarrow> nat \<Rightarrow> bool" where
  "text_terminated s capacity \<longleftrightarrow> 0 \<in> set (take capacity s)"

definition bounded_length :: "byte list \<Rightarrow> nat \<Rightarrow> nat" where
  "bounded_length s capacity = length (takeWhile (\<lambda>c. c \<noteq> 0) (take capacity s))"

definition transaction_valid :: "hdl_transaction \<Rightarrow> bool" where
  "transaction_valid t =
    (if txn_stage t < STAGE_PLANNED \<or> txn_stage t > STAGE_ABORTED \<or>
       txn_source_bytes t = 0 \<or> txn_total_sectors t = 0 \<or> txn_source_bytes t AND 2047 \<noteq> 0 \<or>
       txn_total_sectors t \<noteq> txn_source_bytes t div 2048 \<or>
       txn_completed_sectors t > txn_total_sectors t \<or>
       txn_partition_count t = 0 \<or> txn_partition_count t > 65 \<or>
       \<not> text_terminated (txn_target t) HDL_TRANSACTION_TARGET_MAX \<or>
       \<not> text_terminated (txn_startup t) HDL_TRANSACTION_STARTUP_MAX \<or>
       \<not> text_terminated (txn_source_path t) HDL_TRANSACTION_SOURCE_PATH_MAX \<or>
       \<not> text_terminated (txn_game_title t) HDL_TRANSACTION_GAME_TITLE_MAX \<or>
       txn_target t ! 0 = 0 \<or> txn_startup t ! 0 = 0 \<or> txn_source_path t ! 0 = 0 \<or>
       txn_game_title t ! 0 = 0 \<or> txn_disc_type t \<noteq> 0x12 \<and> txn_disc_type t \<noteq> 0x14
     then False
     else if txn_stage t = STAGE_PLANNED \<or> txn_stage t = STAGE_PARTITIONS_CREATED
     then txn_completed_sectors t = 0
     else if txn_stage t \<ge> STAGE_PAYLOAD_VERIFIED \<and> txn_stage t \<le> STAGE_COMPLETE
     then txn_completed_sectors t = txn_total_sectors t
     else True)"

section \<open>The stages\<close>

definition hdl_transaction_transition_allowed :: "u32 \<Rightarrow> u32 \<Rightarrow> bool" where
  "hdl_transaction_transition_allowed from_stage to_stage =
    (if from_stage = STAGE_COPYING \<and> to_stage = STAGE_COPYING then True
     else if to_stage = STAGE_ABORTED \<and> from_stage \<ge> STAGE_PLANNED \<and>
       from_stage < STAGE_METADATA_COMMITTED then True
     else from_stage = STAGE_PLANNED \<and> to_stage = STAGE_PARTITIONS_CREATED \<or>
       from_stage = STAGE_PARTITIONS_CREATED \<and> to_stage = STAGE_COPYING \<or>
       from_stage = STAGE_COPYING \<and> to_stage = STAGE_PAYLOAD_VERIFIED \<or>
       from_stage = STAGE_PAYLOAD_VERIFIED \<and> to_stage = STAGE_METADATA_COMMITTED \<or>
       from_stage = STAGE_METADATA_COMMITTED \<and> to_stage = STAGE_COMPLETE)"

definition hdl_transaction_set_stage ::
    "hdl_transaction \<Rightarrow> u32 \<Rightarrow> u64 \<Rightarrow> int \<times> hdl_transaction" where
  "hdl_transaction_set_stage t stage completed_sectors =
    (if \<not> hdl_transaction_transition_allowed (txn_stage t) stage
     then (HDL_TRANSACTION_INVALID_STAGE, t)
     else if completed_sectors < txn_completed_sectors t then (HDL_TRANSACTION_PROGRESS_INVALID, t)
     else let updated = t\<lparr>txn_stage := stage, txn_completed_sectors := completed_sectors\<rparr> in
       if \<not> transaction_valid updated then (HDL_TRANSACTION_PROGRESS_INVALID, t)
       else (0, updated))"

section \<open>Encoding and decoding\<close>

definition put_text :: "nat \<Rightarrow> nat \<Rightarrow> byte list \<Rightarrow> byte list \<Rightarrow> byte list" where
  "put_text offset capacity s rec = blit offset (take (bounded_length s capacity) s) rec"

definition transaction_body :: "hdl_transaction \<Rightarrow> byte list" where
  "transaction_body t =
    write_u8 475 (txn_dma_mode t) (write_u8 474 (txn_dma_type t)
    (write_u8 473 (txn_opl_compat_flags t) (write_u8 472 (txn_hdl_compat_flags t)
    (write_le32 468 (txn_layer1_start t) (write_le32 464 (txn_disc_type t)
    (put_text 336 HDL_TRANSACTION_GAME_TITLE_MAX (txn_game_title t)
    (put_text 176 HDL_TRANSACTION_SOURCE_PATH_MAX (txn_source_path t)
    (put_text 116 HDL_TRANSACTION_STARTUP_MAX (txn_startup t)
    (put_text 80 HDL_TRANSACTION_TARGET_MAX (txn_target t)
    (blit 48 (take 32 (txn_source_fingerprint t)) (write_le32 40 (txn_partition_count t)
    (write_le64 32 (txn_completed_sectors t) (write_le64 24 (txn_total_sectors t)
    (write_le64 16 (txn_source_bytes t) (write_le32 12 (txn_stage t)
    (write_le32 8 HDL_TRANSACTION_VERSION (blit 0 transaction_magic
    (replicate HDL_TRANSACTION_RECORD_SIZE 0))))))))))))))))))"

definition hdl_transaction_encode :: "hdl_transaction \<Rightarrow> byte list \<Rightarrow> int \<times> byte list" where
  "hdl_transaction_encode t rec =
    (if \<not> transaction_valid t then (HDL_TRANSACTION_INVALID_ARGUMENT, rec)
     else let rec = transaction_body t;
              digest = sha256_buffer (take HDL_TRANSACTION_HASH_OFFSET rec) in
       (0, blit HDL_TRANSACTION_HASH_OFFSET digest rec))"

text \<open>The decoded texts: all but the last byte of each array is copied over zeros.\<close>

definition get_text :: "nat \<Rightarrow> nat \<Rightarrow> byte list \<Rightarrow> byte list" where
  "get_text offset capacity rec = bytes_at offset (capacity - 1) rec @ [0]"

definition decoded_transaction :: "byte list \<Rightarrow> hdl_transaction" where
  "decoded_transaction rec = \<lparr>txn_stage = read_le32 rec 12, txn_source_bytes = read_le64 rec 16,
    txn_total_sectors = read_le64 rec 24, txn_completed_sectors = read_le64 rec 32,
    txn_partition_count = read_le32 rec 40, txn_source_fingerprint = bytes_at 48 32 rec,
    txn_target = get_text 80 HDL_TRANSACTION_TARGET_MAX rec,
    txn_startup = get_text 116 HDL_TRANSACTION_STARTUP_MAX rec,
    txn_source_path = get_text 176 HDL_TRANSACTION_SOURCE_PATH_MAX rec,
    txn_game_title = get_text 336 HDL_TRANSACTION_GAME_TITLE_MAX rec,
    txn_disc_type = read_le32 rec 464, txn_layer1_start = read_le32 rec 468,
    txn_hdl_compat_flags = rec ! 472, txn_opl_compat_flags = rec ! 473,
    txn_dma_type = rec ! 474, txn_dma_mode = rec ! 475\<rparr>"

definition hdl_transaction_decode :: "byte list \<Rightarrow> hdl_transaction \<Rightarrow> int \<times> hdl_transaction" where
  "hdl_transaction_decode rec t =
    (if bytes_at 0 (length transaction_magic) rec \<noteq> transaction_magic \<or>
       read_le32 rec 8 \<noteq> HDL_TRANSACTION_VERSION
     then (HDL_TRANSACTION_INVALID_RECORD, t)
     else let digest = sha256_buffer (take HDL_TRANSACTION_HASH_OFFSET rec) in
       if digest \<noteq> bytes_at HDL_TRANSACTION_HASH_OFFSET (length digest) rec
       then (HDL_TRANSACTION_HASH_MISMATCH, t)
       else let decoded = decoded_transaction rec in
         if \<not> transaction_valid decoded then (HDL_TRANSACTION_INVALID_RECORD, t)
         else (0, decoded))"

section \<open>The round trip\<close>

text \<open>A text field as a decoded record shows it: the string, then zeros.\<close>

definition normal_text :: "nat \<Rightarrow> byte list \<Rightarrow> byte list" where
  "normal_text capacity s = (let c = takeWhile (\<lambda>b. b \<noteq> 0) (take capacity s) in
    c @ replicate (capacity - length c) 0)"

definition normal_transaction :: "hdl_transaction \<Rightarrow> hdl_transaction" where
  "normal_transaction t = t
    \<lparr>txn_target := normal_text HDL_TRANSACTION_TARGET_MAX (txn_target t),
     txn_startup := normal_text HDL_TRANSACTION_STARTUP_MAX (txn_startup t),
     txn_source_path := normal_text HDL_TRANSACTION_SOURCE_PATH_MAX (txn_source_path t),
     txn_game_title := normal_text HDL_TRANSACTION_GAME_TITLE_MAX (txn_game_title t)\<rparr>"

text \<open>The arrays have their C sizes.\<close>

definition transaction_sized :: "hdl_transaction \<Rightarrow> bool" where
  "transaction_sized t \<longleftrightarrow> length (txn_source_fingerprint t) = 32 \<and>
    length (txn_target t) = HDL_TRANSACTION_TARGET_MAX \<and>
    length (txn_startup t) = HDL_TRANSACTION_STARTUP_MAX \<and>
    length (txn_source_path t) = HDL_TRANSACTION_SOURCE_PATH_MAX \<and>
    length (txn_game_title t) = HDL_TRANSACTION_GAME_TITLE_MAX"

lemma bounded_text:
  assumes "text_terminated s capacity" and "length s = capacity"
  shows "take (bounded_length s capacity) s = takeWhile (\<lambda>c. c \<noteq> 0) s"
    and "length (takeWhile (\<lambda>c. c \<noteq> 0) s) < capacity"
proof -
  show "take (bounded_length s capacity) s = takeWhile (\<lambda>c. c \<noteq> 0) s"
    using assms(2) by (simp add: bounded_length_def takeWhile_eq_take [symmetric])
  have "0 \<in> set s" using assms by (simp add: text_terminated_def)
  then show "length (takeWhile (\<lambda>c. c \<noteq> 0) s) < capacity"
    using assms(2) by (metis (mono_tags, lifting) length_takeWhile_le nat_less_le set_takeWhileD
        takeWhile_eq_all_conv takeWhile_eq_take take_all_iff order_refl)
qed

text \<open>A text written over zeros is read back as its normal form.\<close>

lemma get_text_back:
  assumes "length c < capacity" and "off + capacity \<le> length rec"
    and "bytes_at off capacity rec = replicate capacity 0"
  shows "get_text off capacity (blit off c rec) = c @ replicate (capacity - length c) 0"
proof (rule nth_equalityI)
  fix i
  assume i: "i < length (get_text off capacity (blit off c rec))"
  have zero: "rec ! (off + j) = 0" if "j < capacity" for j
  proof -
    have "bytes_at off capacity rec ! j = 0" using that assms(3) by simp
    then show ?thesis using that assms(2) by (simp add: nth_bytes_at)
  qed
  show "get_text off capacity (blit off c rec) ! i = (c @ replicate (capacity - length c) 0) ! i"
    using i assms(1,2) zero [of i]
    by (auto simp: get_text_def nth_append nth_bytes_at nth_blit less_Suc_eq)
qed (use assms in \<open>auto simp: get_text_def\<close>)

lemma get_text_out:
  "o' + capacity \<le> off \<Longrightarrow> get_text o' capacity (blit off src rec) = get_text o' capacity rec"
  unfolding get_text_def by (subst bytes_at_blit_out) auto

lemma normal_text_sized:
  "length s = capacity \<Longrightarrow> normal_text capacity s = takeWhile (\<lambda>b. b \<noteq> 0) s @
    replicate (capacity - length (takeWhile (\<lambda>b. b \<noteq> 0) s)) 0"
  by (simp add: normal_text_def Let_def)

lemma decoded_transaction_body:
  assumes "transaction_valid t" and "transaction_sized t" and "length dg = 32"
  shows "decoded_transaction (blit HDL_TRANSACTION_HASH_OFFSET dg (transaction_body t)) =
    normal_transaction t"
proof -
  let ?w = "takeWhile (\<lambda>c. c \<noteq> (0 :: byte))"
  note sized = assms(2) [unfolded transaction_sized_def]
  have terminated: "text_terminated (txn_target t) HDL_TRANSACTION_TARGET_MAX"
      "text_terminated (txn_startup t) HDL_TRANSACTION_STARTUP_MAX"
      "text_terminated (txn_source_path t) HDL_TRANSACTION_SOURCE_PATH_MAX"
      "text_terminated (txn_game_title t) HDL_TRANSACTION_GAME_TITLE_MAX"
    using assms(1) by (auto simp: transaction_valid_def split: if_splits)
  define a b c d where abcd: "a = ?w (txn_target t)" "b = ?w (txn_startup t)"
    "c = ?w (txn_source_path t)" "d = ?w (txn_game_title t)"
  have bounds: "length a < 33" "length b < 60" "length c < 160" "length d < 128"
    using bounded_text(2) terminated sized by (auto simp: abcd)
  have put: "put_text o' 33 (txn_target t) r = blit o' a r"
      "put_text o' 60 (txn_startup t) r = blit o' b r"
      "put_text o' 160 (txn_source_path t) r = blit o' c r"
      "put_text o' 128 (txn_game_title t) r = blit o' d r" for o' r
    using bounded_text(1) terminated sized by (auto simp: abcd put_text_def)
  have fp: "take 32 (txn_source_fingerprint t) = txn_source_fingerprint t"
    "length (txn_source_fingerprint t) = 32" using sized by auto
  define r where "r = blit HDL_TRANSACTION_HASH_OFFSET dg (transaction_body t)"
  note body = r_def transaction_body_def put fp(1) writes_def
  note read = buf_simps bounds [THEN less_imp_le] fp(2) assms(3) transaction_magic_def
    write_le64_blit
  have numbers: "read_le32 r 12 = txn_stage t" "read_le64 r 16 = txn_source_bytes t"
      "read_le64 r 24 = txn_total_sectors t" "read_le64 r 32 = txn_completed_sectors t"
      "read_le32 r 40 = txn_partition_count t" "bytes_at 48 32 r = txn_source_fingerprint t"
      "read_le32 r 464 = txn_disc_type t" "read_le32 r 468 = txn_layer1_start t"
    unfolding body by (simp_all add: read)
  have options: "r ! 472 = txn_hdl_compat_flags t" "r ! 473 = txn_opl_compat_flags t"
      "r ! 474 = txn_dma_type t" "r ! 475 = txn_dma_mode t"
    unfolding body using assms(3) by (simp_all add: nth_blit)
  have texts: "get_text 80 33 r = a @ replicate (33 - length a) 0"
      "get_text 116 60 r = b @ replicate (60 - length b) 0"
      "get_text 176 160 r = c @ replicate (160 - length c) 0"
      "get_text 336 128 r = d @ replicate (128 - length d) 0"
    unfolding body using bounds
    by (simp_all add: get_text_out get_text_back read)
  show ?thesis
    using sized unfolding r_def [symmetric]
    by (simp add: decoded_transaction_def normal_transaction_def numbers options texts
        normal_text_sized abcd)
qed

lemma normal_text_facts:
  assumes "text_terminated s capacity" and "length s = capacity" and "s ! 0 \<noteq> 0"
  shows "text_terminated (normal_text capacity s) capacity" and "normal_text capacity s ! 0 \<noteq> 0"
proof -
  have short: "length (takeWhile (\<lambda>c. c \<noteq> 0) s) < capacity"
    by (rule bounded_text(2) [OF assms(1,2)])
  then show "text_terminated (normal_text capacity s) capacity"
    using assms(2) by (auto simp: text_terminated_def normal_text_sized)
  obtain x xs where "s = x # xs" using short assms(2) by (cases s) auto
  then show "normal_text capacity s ! 0 \<noteq> 0"
    using assms(2,3) by (auto simp: normal_text_sized)
qed

lemma transaction_valid_normal:
  assumes "transaction_valid t" and "transaction_sized t"
  shows "transaction_valid (normal_transaction t)"
proof -
  have "text_terminated (txn_target t) 33 \<and> txn_target t ! 0 \<noteq> 0"
      "text_terminated (txn_startup t) 60 \<and> txn_startup t ! 0 \<noteq> 0"
      "text_terminated (txn_source_path t) 160 \<and> txn_source_path t ! 0 \<noteq> 0"
      "text_terminated (txn_game_title t) 128 \<and> txn_game_title t ! 0 \<noteq> 0"
    using assms(1) by (auto simp: transaction_valid_def split: if_splits)
  note texts = this [THEN conjunct1] this [THEN conjunct2]
  show ?thesis
    using assms unfolding transaction_valid_def normal_transaction_def transaction_sized_def
    by (simp add: normal_text_facts texts split: if_splits)
qed

lemma length_transaction_magic [simp]: "length transaction_magic = 8"
  by (simp add: transaction_magic_def)

lemma encode_decodes:
  assumes "transaction_valid t" and "transaction_sized t"
  shows "\<exists>r. hdl_transaction_encode t r0 = (0, r) \<and> length r = HDL_TRANSACTION_RECORD_SIZE \<and>
    hdl_transaction_decode r t0 = (0, normal_transaction t)"
proof -
  define body where "body = transaction_body t"
  define r where "r = blit HDL_TRANSACTION_HASH_OFFSET
    (sha256_buffer (bytes_at 0 HDL_TRANSACTION_HASH_OFFSET body)) body"
  have size_body: "length body = HDL_TRANSACTION_RECORD_SIZE"
    by (simp add: body_def transaction_body_def put_text_def)
  have seal: "bytes_at HDL_TRANSACTION_HASH_OFFSET 32 r =
      sha256_buffer (bytes_at 0 HDL_TRANSACTION_HASH_OFFSET r)"
    unfolding r_def using size_body by (intro sha.sealed_verifies) simp
  have frame: "bytes_at 0 8 r = transaction_magic" "read_le32 r 8 = HDL_TRANSACTION_VERSION"
    unfolding r_def body_def transaction_body_def put_text_def writes_def
    by (simp_all add: buf_simps write_le64_blit transaction_magic_def)
  have "hdl_transaction_encode t r0 = (0, r)"
    using assms(1) by (simp add: hdl_transaction_encode_def Let_def r_def body_def bytes_at_def)
  moreover have "decoded_transaction r = normal_transaction t"
    unfolding r_def body_def by (rule decoded_transaction_body [OF assms]) simp
  then have "hdl_transaction_decode r t0 = (0, normal_transaction t)"
    using frame seal transaction_valid_normal [OF assms]
    by (simp add: hdl_transaction_decode_def Let_def bytes_at_def)
  ultimately show ?thesis using size_body by (auto simp: r_def)
qed

lemma decode_accepts:
  assumes "hdl_transaction_decode r x = (0, t)"
  shows "t = decoded_transaction r" and "transaction_valid t"
    and "bytes_at 0 8 r = transaction_magic" and "read_le32 r 8 = HDL_TRANSACTION_VERSION"
    and "bytes_at HDL_TRANSACTION_HASH_OFFSET 32 r =
      sha256_buffer (bytes_at 0 HDL_TRANSACTION_HASH_OFFSET r)"
  using assms
  by (auto simp: hdl_transaction_decode_def Let_def bytes_at_def split: if_splits)

lemma decode_sized:
  "length r = HDL_TRANSACTION_RECORD_SIZE \<Longrightarrow> transaction_sized (decoded_transaction r)"
  by (simp add: transaction_sized_def decoded_transaction_def get_text_def)

section \<open>Runs of the stage machine\<close>

text \<open>
  \<open>txn_run t ss t'\<close>: a sequence of successful stage changes takes the record from \<open>t\<close> to \<open>t'\<close>,
  entering the stages \<open>ss\<close> in this order.
\<close>

inductive txn_run :: "hdl_transaction \<Rightarrow> u32 list \<Rightarrow> hdl_transaction \<Rightarrow> bool" where
  txn_run_nil: "txn_run t [] t"
| txn_run_step: "hdl_transaction_set_stage t stage completed = (0, t1) \<Longrightarrow> txn_run t1 ss t2
    \<Longrightarrow> txn_run t (stage # ss) t2"

inductive_cases txn_run_nilE: "txn_run t [] t'"
inductive_cases txn_run_consE: "txn_run t (stage # ss) t'"

lemma set_stage_success:
  assumes "hdl_transaction_set_stage t stage completed = (0, t1)"
  shows "t1 = t\<lparr>txn_stage := stage, txn_completed_sectors := completed\<rparr>"
    and "hdl_transaction_transition_allowed (txn_stage t) stage"
    and "txn_completed_sectors t \<le> completed" and "transaction_valid t1"
  using assms by (auto simp: hdl_transaction_set_stage_def Let_def split: if_splits)

lemma set_stage_error: "hdl_transaction_set_stage t stage completed = (code, t1) \<Longrightarrow> code \<noteq> 0
    \<Longrightarrow> t1 = t"
  by (auto simp: hdl_transaction_set_stage_def Let_def split: if_splits)

lemma transition_targets:
  "hdl_transaction_transition_allowed 1 s \<longleftrightarrow> s = 2 \<or> s = 7"
  "hdl_transaction_transition_allowed 2 s \<longleftrightarrow> s = 3 \<or> s = 7"
  "hdl_transaction_transition_allowed 3 s \<longleftrightarrow> s = 3 \<or> s = 4 \<or> s = 7"
  "hdl_transaction_transition_allowed 4 s \<longleftrightarrow> s = 5 \<or> s = 7"
  "hdl_transaction_transition_allowed 5 s \<longleftrightarrow> s = 6"
  "hdl_transaction_transition_allowed 6 s \<longleftrightarrow> False"
  "hdl_transaction_transition_allowed 7 s \<longleftrightarrow> False"
  by (auto simp: hdl_transaction_transition_allowed_def)

text \<open>The stages a run from a given stage can still enter, once it ends complete.\<close>

lemma txn_run_end: "txn_run t [] t' \<Longrightarrow> t' = t"
  by (erule txn_run_nilE) simp

lemma txn_run_cons:
  assumes "txn_run t (stage # ss) t'"
  obtains c t1 where "hdl_transaction_set_stage t stage c = (0, t1)" and "txn_run t1 ss t'"
    and "txn_stage t1 = stage" and "hdl_transaction_transition_allowed (txn_stage t) stage"
proof -
  from assms obtain c t1 where s: "hdl_transaction_set_stage t stage c = (0, t1)"
    and "txn_run t1 ss t'" by (elim txn_run_consE)
  moreover have "txn_stage t1 = stage" by (subst set_stage_success(1) [OF s]) simp
  ultimately show ?thesis using set_stage_success(2) [OF s] that by blast
qed

lemma transaction_valid_bounds:
  assumes "transaction_valid t"
  shows "txn_stage t \<noteq> 0" "txn_stage t \<le> 7" "txn_completed_sectors t \<le> txn_total_sectors t"
    "4 \<le> txn_stage t \<Longrightarrow> txn_stage t \<le> 6 \<Longrightarrow> txn_completed_sectors t = txn_total_sectors t"
proof -
  show "txn_stage t \<noteq> 0" "txn_stage t \<le> 7" "txn_completed_sectors t \<le> txn_total_sectors t"
    using assms by (auto simp: transaction_valid_def not_less split: if_splits)
  assume "4 \<le> txn_stage t" "txn_stage t \<le> 6"
  moreover from this(1) have "txn_stage t \<noteq> 1" "txn_stage t \<noteq> 2" by (auto simp: word_le_nat_alt)
  ultimately show "txn_completed_sectors t = txn_total_sectors t"
    using assms unfolding transaction_valid_def by (auto split: if_splits)
qed

text \<open>When a stage change succeeds.\<close>

lemma set_stage_succeeds:
  assumes "transaction_valid t" and "hdl_transaction_transition_allowed (txn_stage t) stage"
    and "txn_completed_sectors t \<le> completed" and "completed \<le> txn_total_sectors t"
    and "stage \<noteq> 0" "stage \<le> 7"
    and "stage = 1 \<or> stage = 2 \<Longrightarrow> completed = 0"
    and "4 \<le> stage \<Longrightarrow> stage \<le> 6 \<Longrightarrow> completed = txn_total_sectors t"
  shows "hdl_transaction_set_stage t stage completed =
    (0, t\<lparr>txn_stage := stage, txn_completed_sectors := completed\<rparr>)"
proof -
  have "transaction_valid (t\<lparr>txn_stage := stage, txn_completed_sectors := completed\<rparr>)"
    using assms(1,4-) unfolding transaction_valid_def by (auto simp: not_less split: if_splits)
  then show ?thesis using assms(2,3) by (simp add: hdl_transaction_set_stage_def Let_def not_less)
qed

lemma txn_run_keeps:
  "txn_run t ss t' \<Longrightarrow> transaction_valid t \<Longrightarrow> transaction_valid t' \<and>
    t' = t\<lparr>txn_stage := txn_stage t', txn_completed_sectors := txn_completed_sectors t'\<rparr> \<and>
    txn_completed_sectors t \<le> txn_completed_sectors t'"
proof (induction rule: txn_run.induct)
  case (txn_run_step t stage completed t1 ss t2)
  note first = set_stage_success [OF txn_run_step.hyps(1)]
  have later: "transaction_valid t2 \<and>
      t2 = t1\<lparr>txn_stage := txn_stage t2, txn_completed_sectors := txn_completed_sectors t2\<rparr> \<and>
      txn_completed_sectors t1 \<le> txn_completed_sectors t2"
    by (rule txn_run_step.IH [OF first(4)])
  have "t2 = t\<lparr>txn_stage := txn_stage t2, txn_completed_sectors := txn_completed_sectors t2\<rparr>"
    using later by (subst (asm) first(1)) simp
  moreover have "txn_completed_sectors t \<le> txn_completed_sectors t1"
    using first(3) by (subst first(1)) simp
  ultimately show ?case using later by (meson order_trans)
qed simp

text \<open>The stages from each stage to completion.\<close>

lemma txn_run_from_6: "txn_run t ss t' \<Longrightarrow> txn_stage t = 6 \<or> txn_stage t = 7 \<Longrightarrow> ss = [] \<and> t' = t"
  by (cases ss) (auto dest: txn_run_end elim!: txn_run_cons simp: transition_targets)

lemma txn_run_from_5: "txn_run t ss t' \<Longrightarrow> txn_stage t = 5 \<Longrightarrow> txn_stage t' = 6 \<Longrightarrow> ss = [6]"
  by (cases ss) (auto dest: txn_run_end txn_run_from_6 elim!: txn_run_cons simp: transition_targets)

lemma txn_run_from_4:
  assumes "txn_run t ss t'" and "txn_stage t = 4" and "txn_stage t' = 6"
  shows "ss = [5, 6]"
proof (cases ss)
  case Nil
  then show ?thesis using assms by (auto dest: txn_run_end)
next
  case (Cons s rest)
  then obtain c t1 where run: "txn_run t1 rest t'" and s: "txn_stage t1 = s"
    and "hdl_transaction_transition_allowed (txn_stage t) s"
    using assms(1) by (blast elim: txn_run_cons)
  then consider "s = 5" | "s = 7" using assms(2) by (auto simp: transition_targets)
  then show ?thesis
    using Cons s txn_run_from_5 [OF run] txn_run_from_6 [OF run] assms(3) by cases auto
qed

lemma txn_run_from_3:
  "txn_run t ss t' \<Longrightarrow> txn_stage t = 3 \<Longrightarrow> txn_stage t' = 6 \<Longrightarrow> \<exists>n. ss = replicate n 3 @ [4, 5, 6]"
proof (induction ss arbitrary: t)
  case (Cons s ss)
  obtain c t1 where run: "txn_run t1 ss t'" and s: "txn_stage t1 = s"
    and "hdl_transaction_transition_allowed (txn_stage t) s"
    using Cons.prems(1) by (elim txn_run_cons)
  then consider "s = 3" | "s = 4" | "s = 7" using Cons.prems(2) by (auto simp: transition_targets)
  then show ?case
  proof cases
    case 1
    then obtain n where "ss = replicate n 3 @ [4, 5, 6]"
      using Cons.IH [OF run] s Cons.prems(3) by auto
    then show ?thesis using 1 by (intro exI [of _ "Suc n"]) simp
  next
    case 2
    then have "ss = [5, 6]" using txn_run_from_4 [OF run] s Cons.prems(3) by simp
    then show ?thesis using 2 by (intro exI [of _ 0]) simp
  next
    case 3
    then show ?thesis using txn_run_from_6 [OF run] s Cons.prems(3) by simp
  qed
qed (auto dest: txn_run_end)

lemma txn_run_from_2:
  assumes "txn_run t ss t'" and "txn_stage t = 2" and "txn_stage t' = 6"
  shows "\<exists>n. ss = replicate (Suc n) 3 @ [4, 5, 6]"
proof (cases ss)
  case Nil
  then show ?thesis using assms by (auto dest: txn_run_end)
next
  case (Cons s rest)
  then obtain c t1 where run: "txn_run t1 rest t'" and s: "txn_stage t1 = s"
    and "hdl_transaction_transition_allowed (txn_stage t) s"
    using assms(1) by (blast elim: txn_run_cons)
  then consider "s = 3" | "s = 7" using assms(2) by (auto simp: transition_targets)
  then show ?thesis
    using Cons s txn_run_from_3 [OF run] txn_run_from_6 [OF run] assms(3) by cases auto
qed

lemma txn_run_from_1:
  assumes "txn_run t ss t'" and "txn_stage t = 1" and "txn_stage t' = 6"
  shows "\<exists>n. ss = 2 # replicate (Suc n) 3 @ [4, 5, 6]"
proof (cases ss)
  case Nil
  then show ?thesis using assms by (auto dest: txn_run_end)
next
  case (Cons s rest)
  then obtain c t1 where run: "txn_run t1 rest t'" and s: "txn_stage t1 = s"
    and "hdl_transaction_transition_allowed (txn_stage t) s"
    using assms(1) by (blast elim: txn_run_cons)
  then consider "s = 2" | "s = 7" using assms(2) by (auto simp: transition_targets)
  then show ?thesis
    using Cons s txn_run_from_2 [OF run] txn_run_from_6 [OF run] assms(3) by cases auto
qed

text \<open>Every such sequence of stages is possible: the steps that reach it.\<close>

lemma txn_step:
  assumes "transaction_valid t" and "hdl_transaction_transition_allowed (txn_stage t) stage"
    and "txn_completed_sectors t \<le> completed" and "completed \<le> txn_total_sectors t"
    and "stage \<noteq> 0" "stage \<le> 7"
    and "stage = 1 \<or> stage = 2 \<Longrightarrow> completed = 0"
    and "4 \<le> stage \<Longrightarrow> stage \<le> 6 \<Longrightarrow> completed = txn_total_sectors t"
  obtains t1 where "hdl_transaction_set_stage t stage completed = (0, t1)" and "transaction_valid t1"
    and "txn_stage t1 = stage" and "txn_completed_sectors t1 = completed"
    and "txn_total_sectors t1 = txn_total_sectors t"
proof -
  note ok = set_stage_succeeds [OF assms]
  show ?thesis by (rule that [OF ok set_stage_success(4) [OF ok]]) simp_all
qed

lemma txn_run_tail:
  assumes "transaction_valid t" and "txn_stage t = 3"
  shows "\<exists>t'. txn_run t (replicate n 3 @ [4, 5, 6]) t' \<and> txn_stage t' = 6"
  using assms
proof (induction n arbitrary: t)
  case 0
  note le = transaction_valid_bounds(3) [OF 0(1)]
  obtain t1 where t1: "hdl_transaction_set_stage t 4 (txn_total_sectors t) = (0, t1)"
      "transaction_valid t1" "txn_stage t1 = 4" "txn_completed_sectors t1 = txn_total_sectors t"
      "txn_total_sectors t1 = txn_total_sectors t"
    by (rule txn_step [of t 4 "txn_total_sectors t"]) (use 0 le in \<open>simp_all add: transition_targets\<close>)
  obtain t2 where t2: "hdl_transaction_set_stage t1 5 (txn_total_sectors t) = (0, t2)"
      "transaction_valid t2" "txn_stage t2 = 5" "txn_completed_sectors t2 = txn_total_sectors t"
      "txn_total_sectors t2 = txn_total_sectors t"
    by (rule txn_step [of t1 5 "txn_total_sectors t"]) (use t1 in \<open>simp_all add: transition_targets\<close>)
  obtain t3 where t3: "hdl_transaction_set_stage t2 6 (txn_total_sectors t) = (0, t3)"
      "txn_stage t3 = 6"
    by (rule txn_step [of t2 6 "txn_total_sectors t"]) (use t2 in \<open>simp_all add: transition_targets\<close>)
  show ?case
    using txn_run_step [OF t1(1) txn_run_step [OF t2(1) txn_run_step [OF t3(1) txn_run_nil]]] t3(2)
    by auto
next
  case (Suc n)
  note le = transaction_valid_bounds(3) [OF Suc.prems(1)]
  obtain t1 where t1: "hdl_transaction_set_stage t 3 (txn_completed_sectors t) = (0, t1)"
      "transaction_valid t1" "txn_stage t1 = 3"
    by (rule txn_step [of t 3 "txn_completed_sectors t"])
      (use Suc.prems le in \<open>simp_all add: transition_targets\<close>)
  then show ?case using Suc.IH [OF t1(2,3)] txn_run_step [OF t1(1)] by auto
qed

lemma txn_run_possible:
  assumes "transaction_valid t" and "txn_stage t = 1"
  shows "\<exists>t'. txn_run t (2 # replicate (Suc n) 3 @ [4, 5, 6]) t' \<and> txn_stage t' = 6"
proof -
  have none: "txn_completed_sectors t = 0"
    using assms by (auto simp: transaction_valid_def split: if_splits)
  obtain t1 where t1: "hdl_transaction_set_stage t 2 0 = (0, t1)" "transaction_valid t1"
      "txn_stage t1 = 2" "txn_completed_sectors t1 = 0" "txn_total_sectors t1 = txn_total_sectors t"
    by (rule txn_step [of t 2 0]) (use assms none in \<open>simp_all add: transition_targets\<close>)
  obtain t2 where t2: "hdl_transaction_set_stage t1 3 0 = (0, t2)" "transaction_valid t2"
      "txn_stage t2 = 3"
    by (rule txn_step [of t1 3 0]) (use t1 in \<open>simp_all add: transition_targets\<close>)
  show ?thesis
    using txn_run_tail [OF t2(2,3), of n] txn_run_step [OF t1(1) txn_run_step [OF t2(1)]] by auto
qed

section \<open>Properties\<close>

text \<open>
  Property C35: a valid record can always be stored and resumed: it encodes into a sealed 512-byte
  record whose decoding succeeds and gives every field back, the texts cut at their terminator
  and padded with zeros.
\<close>

theorem hdl_record_roundtrip:
  assumes "transaction_valid t" and "transaction_sized t"
  shows "\<exists>r. hdl_transaction_encode t r0 = (0, r) \<and> length r = HDL_TRANSACTION_RECORD_SIZE \<and>
    hdl_transaction_decode r t0 = (0, normal_transaction t)"
  using assms by (rule encode_decodes)

text \<open>
  A record is resumed only if it carries the magic, the version and the digest of
  its first 480 bytes and its fields are consistent; a refused record leaves the caller's
  transaction as it was, and an accepted one can be stored again.
\<close>

theorem hdl_record_accepted:
  assumes "hdl_transaction_decode r t0 = (code, t)" and "length r = HDL_TRANSACTION_RECORD_SIZE"
  shows "if code = 0
    then bytes_at 0 8 r = transaction_magic \<and> read_le32 r 8 = HDL_TRANSACTION_VERSION \<and>
      bytes_at HDL_TRANSACTION_HASH_OFFSET 32 r =
        sha256_spec (bytes_at 0 HDL_TRANSACTION_HASH_OFFSET r) \<and>
      transaction_valid t \<and> t = decoded_transaction r \<and>
      (\<exists>r'. hdl_transaction_encode t r = (0, r') \<and>
        hdl_transaction_decode r' t0 = (0, normal_transaction t))
    else t = t0 \<and> code \<in> {HDL_TRANSACTION_INVALID_RECORD, HDL_TRANSACTION_HASH_MISMATCH}"
proof (cases "code = 0")
  case True
  note accepted = decode_accepts [OF assms(1) [unfolded True]]
  have "transaction_sized t" using decode_sized [OF assms(2)] accepted(1) by simp
  then show ?thesis
    using True accepted encode_decodes [OF accepted(2), of r t0] by (auto simp: sha256_buffer_spec)
next
  case False
  then show ?thesis
    using assms(1) by (auto simp: hdl_transaction_decode_def Let_def split: if_splits)
qed

text \<open>
  From a planned record the stage changes the code accepts lead to completion along
  exactly the sequences: partitions created, one or more copy steps, payload verified, metadata
  committed, complete.  None can be left out, reordered or repeated.
\<close>

theorem hdl_stages_in_order:
  assumes "transaction_valid t" and "txn_stage t = STAGE_PLANNED"
  shows "(\<exists>t'. txn_run t ss t' \<and> txn_stage t' = STAGE_COMPLETE) \<longleftrightarrow>
    (\<exists>n. ss = STAGE_PARTITIONS_CREATED # replicate (Suc n) STAGE_COPYING @
      [STAGE_PAYLOAD_VERIFIED, STAGE_METADATA_COMMITTED, STAGE_COMPLETE])"
  using txn_run_from_1 [OF _ assms(2)] txn_run_possible [OF assms] by blast

lemma txn_run_facts:
  assumes "txn_run t ss t'" and "transaction_valid t"
  shows "transaction_valid t'"
    and "t' = t\<lparr>txn_stage := txn_stage t', txn_completed_sectors := txn_completed_sectors t'\<rparr>"
    and "txn_completed_sectors t \<le> txn_completed_sectors t'"
    and "txn_completed_sectors t' \<le> txn_total_sectors t"
    and "txn_stage t' \<in> {STAGE_PAYLOAD_VERIFIED .. STAGE_COMPLETE} \<Longrightarrow>
      txn_completed_sectors t' = txn_total_sectors t"
    and "txn_stage t \<in> {STAGE_COMPLETE, STAGE_ABORTED} \<Longrightarrow> ss = []"
proof -
  note keeps = txn_run_keeps [OF assms]
  then show valid: "transaction_valid t'"
    and frame: "t' = t\<lparr>txn_stage := txn_stage t', txn_completed_sectors := txn_completed_sectors t'\<rparr>"
    and "txn_completed_sectors t \<le> txn_completed_sectors t'" by auto
  have total: "txn_total_sectors t' = txn_total_sectors t" by (subst frame) simp
  show "txn_completed_sectors t' \<le> txn_total_sectors t"
    using transaction_valid_bounds(3) [OF valid] total by simp
  show "txn_completed_sectors t' = txn_total_sectors t"
    if "txn_stage t' \<in> {STAGE_PAYLOAD_VERIFIED .. STAGE_COMPLETE}"
    using transaction_valid_bounds(4) [OF valid] total that by simp
  show "ss = []" if "txn_stage t \<in> {STAGE_COMPLETE, STAGE_ABORTED}"
    using txn_run_from_6 [OF assms(1)] that by auto
qed

text \<open>
  Whatever stage changes succeed, the record stays valid, only its stage and progress
  change, progress never goes back, and a verified, committed or complete record has all its
  sectors; a finished or aborted installation never moves again.
\<close>

theorem hdl_run_invariant:
  assumes "txn_run t ss t'" and "transaction_valid t"
  shows "transaction_valid t' \<and>
    t' = t\<lparr>txn_stage := txn_stage t', txn_completed_sectors := txn_completed_sectors t'\<rparr> \<and>
    txn_completed_sectors t \<le> txn_completed_sectors t' \<and>
    txn_completed_sectors t' \<le> txn_total_sectors t \<and>
    (txn_stage t' \<in> {STAGE_PAYLOAD_VERIFIED .. STAGE_COMPLETE} \<longrightarrow>
      txn_completed_sectors t' = txn_total_sectors t) \<and>
    (txn_stage t \<in> {STAGE_COMPLETE, STAGE_ABORTED} \<longrightarrow> ss = [])"
  by (intro conjI impI txn_run_facts [OF assms])

section \<open>Witnesses\<close>

text \<open>A one-megabyte CD image planned on one partition.\<close>

definition sample_transaction :: "hdl_transaction" where
  "sample_transaction = \<lparr>txn_stage = STAGE_PLANNED, txn_source_bytes = 1048576,
    txn_total_sectors = 512, txn_completed_sectors = 0, txn_partition_count = 1,
    txn_source_fingerprint = replicate 32 7, txn_target = [80, 80] @ replicate 31 0,
    txn_startup = [83] @ replicate 59 0, txn_source_path = [47] @ replicate 159 0,
    txn_game_title = [71] @ replicate 127 0, txn_disc_type = 0x12, txn_layer1_start = 0,
    txn_hdl_compat_flags = 0, txn_opl_compat_flags = 0, txn_dma_type = 32, txn_dma_mode = 4\<rparr>"

lemma sample_transaction_valid: "transaction_valid sample_transaction"
  by (simp add: transaction_valid_def text_terminated_def sample_transaction_def take_Cons')

lemma sample_transaction_sized: "transaction_sized sample_transaction"
  by (simp add: transaction_sized_def sample_transaction_def)

theorem hdl_record_roundtrip_witness:
  "\<exists>r. hdl_transaction_encode sample_transaction [] = (0, r) \<and>
    length r = HDL_TRANSACTION_RECORD_SIZE \<and>
    hdl_transaction_decode r sample_transaction = (0, normal_transaction sample_transaction)"
  by (rule hdl_record_roundtrip [OF sample_transaction_valid sample_transaction_sized])

theorem hdl_record_accepted_witness:
  "\<exists>r. hdl_transaction_decode r sample_transaction = (0, normal_transaction sample_transaction) \<and>
    bytes_at HDL_TRANSACTION_HASH_OFFSET 32 r =
      sha256_spec (bytes_at 0 HDL_TRANSACTION_HASH_OFFSET r)"
proof -
  obtain r where "length r = HDL_TRANSACTION_RECORD_SIZE"
    and "hdl_transaction_decode r sample_transaction = (0, normal_transaction sample_transaction)"
    using encode_decodes [OF sample_transaction_valid sample_transaction_sized] by blast
  then show ?thesis using hdl_record_accepted [of r sample_transaction 0] by auto
qed

theorem hdl_stages_in_order_witness:
  "\<exists>t'. txn_run sample_transaction [2, 3, 3, 4, 5, 6] t' \<and> txn_stage t' = STAGE_COMPLETE"
  by (subst hdl_stages_in_order [OF sample_transaction_valid])
    (auto simp: sample_transaction_def intro!: exI [of _ 1])

theorem hdl_run_invariant_witness:
  "\<exists>t'. txn_run sample_transaction [2, 3, 4, 5, 6] t' \<and> txn_completed_sectors t' = 512 \<and>
    transaction_valid t'"
proof -
  obtain t' where run: "txn_run sample_transaction [2, 3, 4, 5, 6] t'" and "txn_stage t' = 6"
    using txn_run_possible [OF sample_transaction_valid, of 0] by (auto simp: sample_transaction_def)
  then show ?thesis
    using hdl_run_invariant [OF run sample_transaction_valid]
    by (auto simp: sample_transaction_def)
qed

end
