(* ===== verification/HdlIso.thy ===== *)
theory HdlIso
  imports Ctype
begin

text \<open>
  Inspection of a disc image: \<open>src/hdl_iso.c\<close>.  The reader of an image is a parameter: a function
  of offset and size giving its result code and the bytes it filled in.  The search for
  \<open>SYSTEM.CNF\<close> counts the bytes it has consumed in 32 bits and may not return, so it is a
  \<open>partial_function\<close>, and so is the probe.  Character arrays are the bytes before the
  terminator the code writes.  The lemmas show when the probe returns, an image on which it does
  not, what an accepted image satisfies, and that the directory and the boot line are read back.
\<close>

abbreviation (input) HDL_ISO_SECTOR_SIZE :: nat where "HDL_ISO_SECTOR_SIZE \<equiv> 2048"
abbreviation (input) HDL_ISO_STARTUP_MAX :: nat where "HDL_ISO_STARTUP_MAX \<equiv> 60"
abbreviation (input) ISO_PVD_SECTOR :: u64 where "ISO_PVD_SECTOR \<equiv> 16"
abbreviation (input) ISO_SYSTEM_CNF_LIMIT :: u32 where "ISO_SYSTEM_CNF_LIMIT \<equiv> 8192"
abbreviation (input) ISO_CD_CONFIDENT_BYTES :: u64 where "ISO_CD_CONFIDENT_BYTES \<equiv> 900 * 1024 * 1024"
abbreviation (input) ISO_DVD5_MAX_BYTES :: u64 where "ISO_DVD5_MAX_BYTES \<equiv> 4700372992"
abbreviation (input) PS2_DISC_TYPE_CD :: u32 where "PS2_DISC_TYPE_CD \<equiv> 0x12"
abbreviation (input) PS2_DISC_TYPE_DVD :: u32 where "PS2_DISC_TYPE_DVD \<equiv> 0x14"

abbreviation (input) HDL_ISO_READ_FAILED :: int where "HDL_ISO_READ_FAILED \<equiv> - 501"
abbreviation (input) HDL_ISO_INVALID_PVD :: int where "HDL_ISO_INVALID_PVD \<equiv> - 502"
abbreviation (input) HDL_ISO_INVALID_ROOT :: int where "HDL_ISO_INVALID_ROOT \<equiv> - 503"
abbreviation (input) HDL_ISO_SYSTEM_CNF_MISSING :: int where "HDL_ISO_SYSTEM_CNF_MISSING \<equiv> - 504"
abbreviation (input) HDL_ISO_SYSTEM_CNF_INVALID :: int where "HDL_ISO_SYSTEM_CNF_INVALID \<equiv> - 505"
abbreviation (input) HDL_ISO_STARTUP_INVALID :: int where "HDL_ISO_STARTUP_INVALID \<equiv> - 506"
abbreviation (input) HDL_ISO_IMAGE_SIZE_INVALID :: int where "HDL_ISO_IMAGE_SIZE_INVALID \<equiv> - 507"

section \<open>Data\<close>

record hdl_iso_source =
  iso_read :: "u64 \<Rightarrow> nat \<Rightarrow> int \<times> byte list"
  iso_image_bytes :: u64

record hdl_iso_info =
  info_image_bytes :: u64
  info_image_sectors :: u32
  info_layer1_start :: u32
  info_disc_type :: u32
  info_media_type_confident :: bool
  info_requires_layer_break :: bool
  info_startup :: "byte list"
  info_disc_id :: "byte list"
  info_volume_title :: "byte list"

definition empty_iso_info :: hdl_iso_info where
  "empty_iso_info = \<lparr>info_image_bytes = 0, info_image_sectors = 0, info_layer1_start = 0,
    info_disc_type = 0, info_media_type_confident = False, info_requires_layer_break = False,
    info_startup = [], info_disc_id = [], info_volume_title = []\<rparr>"

definition read_be16_at :: "byte list \<Rightarrow> nat \<Rightarrow> u16" where
  "read_be16_at s off = (let data = drop off s in push_bit 8 (ucast (data ! 0)) OR ucast (data ! 1))"

definition read_be32_at :: "byte list \<Rightarrow> nat \<Rightarrow> u32" where
  "read_be32_at s off = (let data = drop off s in
     push_bit 24 (ucast (data ! 0)) OR push_bit 16 (ucast (data ! 1)) OR
     push_bit 8 (ucast (data ! 2)) OR ucast (data ! 3))"

definition read_source :: "hdl_iso_source \<Rightarrow> u64 \<Rightarrow> nat \<Rightarrow> int \<times> byte list" where
  "read_source src offset bytes =
    (if offset > iso_image_bytes src \<or> of_nat bytes > iso_image_bytes src - offset
     then (HDL_ISO_READ_FAILED, [])
     else if fst (iso_read src offset bytes) \<noteq> 0 then (HDL_ISO_READ_FAILED, [])
     else (0, snd (iso_read src offset bytes)))"

definition ascii_equal_nocase :: "byte list \<Rightarrow> byte list \<Rightarrow> nat \<Rightarrow> bool" where
  "ascii_equal_nocase left right n = (\<forall>i < n. to_upper (left ! i) = to_upper (right ! i))"

text \<open>A loop \<open>while (p < end && P (data[p])) p++\<close> ends at \<open>scan_while P data p end\<close>.\<close>

definition scan_while :: "(byte \<Rightarrow> bool) \<Rightarrow> byte list \<Rightarrow> nat \<Rightarrow> nat \<Rightarrow> nat" where
  "scan_while P data p stop = p + length (takeWhile P (bytes_at p (stop - p) data))"

definition copy_volume_title :: "byte list \<Rightarrow> byte list" where
  "copy_volume_title source =
    rev (dropWhile (\<lambda>c. c = 0x20) (rev (dropWhile (\<lambda>c. c = 0x20) (take 32 source))))"

section \<open>The root directory\<close>

definition system_cnf_name :: "byte list" where
  "system_cnf_name = [0x53, 0x59, 0x53, 0x54, 0x45, 0x4d, 0x2e, 0x43, 0x4e, 0x46, 0x3b, 0x31]"

text \<open>The records of one directory sector; \<open>None\<close> moves on to the next sector.\<close>

function scan_records :: "byte list \<Rightarrow> nat \<Rightarrow> nat \<Rightarrow> (int + u32 \<times> u32) option" where
  "scan_records sector available position =
    (if position < available
     then let record_length = unat (sector ! position) in
       if record_length = 0 then None
       else if record_length < 34 \<or> position + record_length > available
       then Some (Inl HDL_ISO_INVALID_ROOT)
       else let rec = drop position sector; name_length = unat (rec ! 32) in
         if 33 + name_length > record_length then Some (Inl HDL_ISO_INVALID_ROOT)
         else if name_length = 12 \<and> ascii_equal_nocase (drop 33 rec) system_cnf_name 12
         then let extent = read_le32 rec 2; extent_be = read_be32_at rec 6;
                  bytes = read_le32 rec 10; bytes_be = read_be32_at rec 14 in
           if extent \<noteq> extent_be \<or> bytes \<noteq> bytes_be \<or> bytes = 0
           then Some (Inl HDL_ISO_INVALID_ROOT)
           else Some (Inr (extent, bytes))
         else scan_records sector available (position + record_length)
     else None)"
  by pat_completeness auto

termination scan_records
  by (relation "measure (\<lambda>(_, available, position). available - position)") auto

declare scan_records.simps [simp del]

partial_function (option) find_system_cnf_loop ::
    "hdl_iso_source \<Rightarrow> u64 \<Rightarrow> u32 \<Rightarrow> u32 \<Rightarrow> (int + u32 \<times> u32) option" where
  "find_system_cnf_loop src directory_offset root_bytes consumed =
    (if consumed < root_bytes
     then let available = min (unat (root_bytes - consumed)) HDL_ISO_SECTOR_SIZE;
              (result, sector) =
                read_source src (directory_offset + ucast consumed) HDL_ISO_SECTOR_SIZE in
       if result < 0 then Some (Inl result)
       else (case scan_records sector available 0 of
           Some outcome \<Rightarrow> Some outcome
         | None \<Rightarrow> find_system_cnf_loop src directory_offset root_bytes (consumed + 2048))
     else Some (Inl HDL_ISO_SYSTEM_CNF_MISSING))"

definition find_system_cnf ::
    "hdl_iso_source \<Rightarrow> u32 \<Rightarrow> u32 \<Rightarrow> (int + u32 \<times> u32) option" where
  "find_system_cnf src root_extent root_bytes =
    find_system_cnf_loop src (ucast root_extent * 2048) root_bytes 0"

section \<open>The boot line\<close>

definition valid_startup :: "byte list \<Rightarrow> bool" where
  "valid_startup startup =
    (if length startup \<noteq> 11 \<or> startup ! 4 \<noteq> 0x5f \<or> startup ! 8 \<noteq> 0x2e then False
     else if \<exists>i \<in> {0 ..< 4}. \<not> is_alnum (startup ! i) then False
     else if \<exists>i \<in> {5 ..< 8}. \<not> is_digit (startup ! i) then False
     else is_digit (startup ! 9) \<and> is_digit (startup ! 10))"

definition boot2_key :: "byte list" where "boot2_key = [0x42, 0x4f, 0x4f, 0x54, 0x32]"

definition line_end_char :: "byte \<Rightarrow> bool" where
  "line_end_char c \<longleftrightarrow> c = 0x0d \<or> c = 0x0a \<or> c = 0"

definition quote_char :: "byte \<Rightarrow> bool" where "quote_char c \<longleftrightarrow> c = 0x27 \<or> c = 0x22"

definition path_char :: "byte \<Rightarrow> bool" where
  "path_char c \<longleftrightarrow> c = 0x5c \<or> c = 0x2f \<or> c = 0x3a"

text \<open>
  The value of the line from \<open>begin\<close> to \<open>stop\<close>, if it is a boot line: the bounds of the file
  name without directories and version.
\<close>

definition boot2_value :: "byte list \<Rightarrow> nat \<Rightarrow> nat \<Rightarrow> (nat \<times> nat) option" where
  "boot2_value data line_begin stop =
    (let line_begin = scan_while is_space data line_begin stop in
     if stop - line_begin < 5 \<or> \<not> ascii_equal_nocase (drop line_begin data) boot2_key 5 then None
     else let equals = scan_while is_space data (line_begin + 5) stop in
       if equals \<ge> stop \<or> data ! equals \<noteq> 0x3d then None
       else let value_begin = scan_while is_space data (equals + 1) stop;
                value_begin = (if value_begin < stop \<and> quote_char (data ! value_begin)
                  then value_begin + 1 else value_begin);
                value_end = scan_while (\<lambda>c. \<not> is_space c \<and> \<not> quote_char c) data value_begin stop;
                base = foldl (\<lambda>base i. if path_char (data ! i) then i + 1 else base) value_begin
                  [value_begin ..< value_end];
                value_end = (if value_end \<ge> base + 2 \<and> data ! (value_end - 2) = 0x3b \<and>
                    data ! (value_end - 1) = 0x31
                  then value_end - 2 else value_end) in
         Some (base, value_end))"

definition disc_id_of :: "byte list \<Rightarrow> byte list" where
  "disc_id_of startup = take 4 startup @ [0x2d] @ bytes_at 5 3 startup @ bytes_at 9 2 startup"

text \<open>
  The result with the contents of \<open>startup\<close> and \<open>disc_id\<close>, empty before the call; \<open>data\<close> is the
  buffer up to \<open>size\<close>.
\<close>

function parse_system_cnf :: "byte list \<Rightarrow> nat \<Rightarrow> int \<times> byte list \<times> byte list" where
  "parse_system_cnf data position =
    (if position < length data
     then let stop = scan_while (\<lambda>c. \<not> line_end_char c) data position (length data);
              next_line = scan_while line_end_char data stop (length data) in
       (case boot2_value data position stop of
          None \<Rightarrow> parse_system_cnf data next_line
        | Some (base, value_end) \<Rightarrow>
            if value_end - base \<ge> HDL_ISO_STARTUP_MAX then (HDL_ISO_STARTUP_INVALID, [], [])
            else let startup = map to_upper (bytes_at base (value_end - base) data) in
              if \<not> valid_startup startup then (HDL_ISO_STARTUP_INVALID, startup, [])
              else (0, startup, disc_id_of startup))
     else (HDL_ISO_SYSTEM_CNF_INVALID, [], []))"
  by pat_completeness auto

lemma scan_while_ge: "p \<le> scan_while P data p stop"
  by (simp add: scan_while_def)

lemma scan_while_step:
  assumes "p < stop" and "p < length data"
  shows "scan_while P data p stop = (if P (data ! p) then scan_while P data (p + 1) stop else p)"
proof -
  have "bytes_at p (stop - p) data = data ! p # bytes_at (p + 1) (stop - (p + 1)) data"
    using assms by (simp add: bytes_at_def Cons_nth_drop_Suc [symmetric] Suc_diff_Suc [symmetric]
        del: Suc_diff_Suc)
  then show ?thesis by (simp add: scan_while_def)
qed

termination parse_system_cnf
proof (relation "measure (\<lambda>(data, position). length data - position)", simp)
  fix data :: "byte list" and position stop next_line
  assume p: "position < length data"
    and stop: "stop = scan_while (\<lambda>c. \<not> line_end_char c) data position (length data)"
    and nl: "next_line = scan_while line_end_char data stop (length data)"
  have "position < next_line"
  proof (cases "line_end_char (data ! position)")
    case True
    then have "stop = position" using p by (simp add: stop scan_while_step)
    then have "next_line = scan_while line_end_char data (position + 1) (length data)"
      using p True by (simp add: nl scan_while_step)
    then show ?thesis using scan_while_ge [of "position + 1"] by (metis Suc_eq_plus1 Suc_le_lessD)
  next
    case False
    then have "stop = scan_while (\<lambda>c. \<not> line_end_char c) data (position + 1) (length data)"
      using p by (simp add: stop scan_while_step)
    then show ?thesis using scan_while_ge [of "position + 1"] scan_while_ge [of stop]
      by (metis Suc_eq_plus1 Suc_le_lessD nl order_trans)
  qed
  then show "((data, next_line), data, position)
      \<in> measure (\<lambda>(data, position). length data - position)"
    using p by simp
qed

declare parse_system_cnf.simps [simp del]

section \<open>The probe\<close>

definition pvd_refused :: "byte list \<Rightarrow> bool" where
  "pvd_refused pvd \<longleftrightarrow>
    pvd ! 0 \<noteq> 1 \<or> bytes_at 1 5 pvd \<noteq> [0x43, 0x44, 0x30, 0x30, 0x31] \<or> pvd ! 6 \<noteq> 1 \<or>
    read_le16 pvd 128 \<noteq> 2048 \<or> read_be16_at pvd 130 \<noteq> 2048"

definition volume_refused :: "hdl_iso_source \<Rightarrow> byte list \<Rightarrow> bool" where
  "volume_refused src pvd \<longleftrightarrow> (let volume_sectors = read_le32 pvd 80 in
    volume_sectors = 0 \<or> volume_sectors \<noteq> read_be32_at pvd 84 \<or>
    ucast volume_sectors * 2048 > iso_image_bytes src)"

definition root_refused :: "hdl_iso_source \<Rightarrow> byte list \<Rightarrow> bool" where
  "root_refused src root \<longleftrightarrow> (let root_extent = read_le32 root 2; root_bytes = read_le32 root 10 in
    root_extent \<noteq> read_be32_at root 6 \<or> root_bytes \<noteq> read_be32_at root 14 \<or> root_bytes = 0 \<or>
    ucast root_extent * 2048 + ucast root_bytes > iso_image_bytes src)"

definition probed_info ::
    "hdl_iso_source \<Rightarrow> byte list \<Rightarrow> byte list \<Rightarrow> byte list \<Rightarrow> hdl_iso_info" where
  "probed_info src pvd startup disc_id =
    (let large = (iso_image_bytes src > ISO_CD_CONFIDENT_BYTES) in
     \<lparr>info_image_bytes = iso_image_bytes src,
      info_image_sectors = ucast (iso_image_bytes src div 2048), info_layer1_start = 0,
      info_disc_type = (if large then PS2_DISC_TYPE_DVD else PS2_DISC_TYPE_CD),
      info_media_type_confident = large,
      info_requires_layer_break = (iso_image_bytes src > ISO_DVD5_MAX_BYTES),
      info_startup = startup, info_disc_id = disc_id,
      info_volume_title = copy_volume_title (drop 40 pvd)\<rparr>)"

definition probe_file ::
    "hdl_iso_source \<Rightarrow> byte list \<Rightarrow> hdl_iso_info \<Rightarrow> u32 \<Rightarrow> u32 \<Rightarrow> int \<times> hdl_iso_info" where
  "probe_file src pvd info file_extent file_bytes =
    (let read_bytes = (if file_bytes > ISO_SYSTEM_CNF_LIMIT then ISO_SYSTEM_CNF_LIMIT else file_bytes);
         (result, system_cnf) = read_source src (ucast file_extent * 2048) (unat read_bytes) in
     if result < 0 then (result, info)
     else let (result, startup, disc_id) = parse_system_cnf system_cnf 0 in
       if result < 0 then (result, info\<lparr>info_startup := startup, info_disc_id := disc_id\<rparr>)
       else (0, probed_info src pvd startup disc_id))"

text \<open>\<open>None\<close> is a probe that does not return.\<close>

definition hdl_iso_probe :: "hdl_iso_source \<Rightarrow> hdl_iso_info \<Rightarrow> (int \<times> hdl_iso_info) option" where
  "hdl_iso_probe src info =
    (if iso_image_bytes src < 18 * 2048 \<or> iso_image_bytes src mod 2048 \<noteq> 0 \<or>
       iso_image_bytes src div 2048 > 0xFFFFFFFF
     then Some (HDL_ISO_IMAGE_SIZE_INVALID, info)
     else let info = empty_iso_info;
              (result, pvd) = read_source src (ISO_PVD_SECTOR * 2048) HDL_ISO_SECTOR_SIZE in
       if result < 0 then Some (result, info)
       else if pvd_refused pvd \<or> volume_refused src pvd then Some (HDL_ISO_INVALID_PVD, info)
       else let root = drop 156 pvd in
         if root ! 0 < 34 \<or> root ! 32 \<noteq> 1 \<or> root ! 33 \<noteq> 0 \<or> root_refused src root
         then Some (HDL_ISO_INVALID_ROOT, info)
         else map_option (\<lambda>found. case found of
             Inl result \<Rightarrow> (result, info)
           | Inr (file_extent, file_bytes) \<Rightarrow> probe_file src pvd info file_extent file_bytes)
           (find_system_cnf src (read_le32 root 2) (read_le32 root 10)))"

section \<open>When the search returns\<close>

lemma find_loop_returns:
  assumes "unat root_bytes \<le> 0xFFFFF800"
  shows "\<exists>r. find_system_cnf_loop src d root_bytes consumed = Some r"
proof (induction "unat root_bytes - unat consumed" arbitrary: consumed rule: less_induct)
  case less
  show ?case
  proof (cases "consumed < root_bytes")
    case True
    then have lt: "unat consumed < unat root_bytes" by (simp add: word_less_nat_alt)
    then have "unat (consumed + 2048) = unat consumed + 2048"
      using assms by (subst unat_add_no_wrap) simp_all
    then have "\<exists>r. find_system_cnf_loop src d root_bytes (consumed + 2048) = Some r"
      using lt by (intro less) simp
    then show ?thesis
      by (subst find_system_cnf_loop.simps) (auto simp: Let_def split: prod.splits option.splits)
  next
    case False
    then show ?thesis by (subst find_system_cnf_loop.simps) simp
  qed
qed

text \<open>
  With more than \<open>0xFFFFF800\<close> bytes of directory every multiple of 2048 stays below the end, so
  the count wraps and the search of a directory of empty sectors goes round for ever.
\<close>

lemma sector_multiple_below:
  assumes "unat (consumed :: u32) mod 2048 = 0" and "0xFFFFF800 < unat (root_bytes :: u32)"
  shows "consumed < root_bytes" and "unat (consumed + 2048) mod 2048 = 0"
proof -
  obtain k where "unat consumed = 2048 * k" using assms(1) by auto
  then have "unat consumed \<le> 0xFFFFF800" using unat_u32_bound [of consumed] by simp
  then show "consumed < root_bytes" using assms(2) by (simp add: word_less_nat_alt)
  have "unat (consumed + 2048) = (unat consumed + 2048) mod 4294967296"
    by (simp add: unat_word_ariths)
  then show "unat (consumed + 2048) mod 2048 = 0" using assms(1) by (simp add: mod_mod_cancel)
qed

lemma find_loop_diverges:
  assumes empty: "\<And>k. unat k mod 2048 = 0 \<Longrightarrow>
      \<exists>sector. read_source src (d + ucast (k :: u32)) 2048 = (0, sector) \<and>
      (\<forall>available. scan_records sector available 0 = None)"
    and root: "0xFFFFF800 < unat root_bytes" and start: "unat consumed mod 2048 = 0"
  shows "find_system_cnf_loop src d root_bytes consumed = None"
proof -
  define wrong where "wrong s e b c (r :: int + u32 \<times> u32) \<longleftrightarrow>
    \<not> (s = src \<and> e = d \<and> b = root_bytes \<and> unat c mod 2048 = 0)"
    for s :: hdl_iso_source and e :: u64 and b c :: u32 and r
  have never: "wrong s e b c r" if "find_system_cnf_loop s e b c = Some r" for s e b c r
  proof (rule find_system_cnf_loop.raw_induct [of wrong, OF _ that])
    fix loop s e b c r
    assume IH: "\<And>s e b c r. loop s e b c = Some r \<Longrightarrow> wrong s e b c r"
      and body: "(if c < b
        then let available = min (unat (b - c)) HDL_ISO_SECTOR_SIZE;
                 (result, sector) = read_source s (e + ucast c) HDL_ISO_SECTOR_SIZE in
          if result < 0 then Some (Inl result)
          else (case scan_records sector available 0 of
              Some outcome \<Rightarrow> Some outcome
            | None \<Rightarrow> loop s e b (c + 2048))
        else Some (Inl HDL_ISO_SYSTEM_CNF_MISSING)) = Some r"
    show "wrong s e b c r"
    proof (rule ccontr)
      assume "\<not> wrong s e b c r"
      then have eqs: "s = src" "e = d" "b = root_bytes" and c: "unat c mod 2048 = 0"
        by (auto simp: wrong_def)
      obtain sector where sector: "read_source src (d + ucast c) 2048 = (0, sector)"
        and none: "\<And>available. scan_records sector available 0 = None" using empty [OF c] by blast
      have "loop src d root_bytes (c + 2048) = Some r"
        using body sector none sector_multiple_below(1) [OF c root] by (simp add: eqs Let_def)
      then have "wrong src d root_bytes (c + 2048) r" by (rule IH)
      then show False using sector_multiple_below(2) [OF c root] by (simp add: wrong_def)
    qed
  qed
  show ?thesis
  proof (cases "find_system_cnf_loop src d root_bytes consumed")
    case (Some r)
    then show ?thesis using never [of src d root_bytes consumed r] start unfolding wrong_def by blast
  qed
qed

lemma root_fits:
  assumes "\<not> root_refused src root" and "unat (iso_image_bytes src) \<le> 0xFFFFF800"
  shows "unat (read_le32 root 10) \<le> 0xFFFFF800"
proof -
  let ?e = "read_le32 root 2" and ?b = "read_le32 root 10"
  have "unat (ucast ?e * 2048 + ucast ?b :: u64) = unat ?e * 2048 + unat ?b"
    using unat_u32_bound [of ?e] unat_u32_bound [of ?b] by (simp add: unat_word_ariths)
  moreover have "ucast ?e * 2048 + ucast ?b \<le> iso_image_bytes src"
    using assms(1) by (simp add: root_refused_def Let_def not_less)
  ultimately show ?thesis using assms(2) by (simp add: word_le_nat_alt)
qed

lemma probe_returns:
  assumes "unat (iso_image_bytes src) \<le> 0xFFFFF800"
  shows "\<exists>code info'. hdl_iso_probe src info = Some (code, info')"
proof -
  have "\<exists>r. find_system_cnf src (read_le32 root 2) (read_le32 root 10) = Some r"
    if "\<not> root_refused src root" for root
    unfolding find_system_cnf_def by (rule find_loop_returns [OF root_fits [OF that assms]])
  then have "hdl_iso_probe src info \<noteq> None"
    unfolding hdl_iso_probe_def Let_def by (fastforce split: prod.splits if_splits)
  then show ?thesis by auto
qed

text \<open>
  An image of 4 GiB and 17 sectors whose root directory claims \<open>0xFFFFFFFF\<close> bytes and holds
  empty sectors only.
\<close>

definition be_le32 :: "u32 \<Rightarrow> byte list" where "be_le32 v = le32_bytes v @ rev (le32_bytes v)"

definition sample_pvd :: "u32 \<Rightarrow> u32 \<Rightarrow> byte list" where
  "sample_pvd root_extent root_bytes =
    [1, 0x43, 0x44, 0x30, 0x30, 0x31, 1] @ replicate 73 0 @ be_le32 18 @ replicate 40 0 @
    [0, 8, 8, 0] @ replicate 24 0 @
    [34, 0] @ be_le32 root_extent @ be_le32 root_bytes @ replicate 14 0 @ [1, 0] @ replicate 1858 0"

definition endless_image :: hdl_iso_source where
  "endless_image = \<lparr>iso_read = (\<lambda>offset n. (0, if offset = 32768 then sample_pvd 17 0xFFFFFFFF
      else replicate n 0)),
    iso_image_bytes = 0x100008800\<rparr>"

lemma scan_zero_sector: "scan_records (replicate 2048 0) available 0 = None"
proof (cases "0 < available")
  case True
  then show ?thesis by (subst scan_records.simps) (simp add: Let_def)
next
  case False
  then show ?thesis by (subst scan_records.simps) simp
qed

lemma endless_find: "find_system_cnf endless_image 17 0xFFFFFFFF = None"
  unfolding find_system_cnf_def
proof (rule find_loop_diverges)
  fix k :: u32
  assume k: "unat k mod 2048 = 0"
  obtain j where "unat k = 2048 * j" using k by auto
  then have "unat k \<le> 0xFFFFF800" using unat_u32_bound [of k] by simp
  then have off: "unat (34816 + ucast k :: u64) = 34816 + unat k"
    by (simp add: unat_word_ariths)
  then have "unat (34816 + ucast k :: u64) \<noteq> unat (32768 :: u64)" by simp
  then have "(34816 + ucast k :: u64) \<noteq> 32768" by metis
  moreover have "34816 + ucast k \<le> (0x100008800 :: u64)" "2048 \<le> (0x100008800 - (34816 + ucast k) :: u64)"
    using off \<open>unat k \<le> 0xFFFFF800\<close> by (simp_all add: word_le_nat_alt unat_sub_if_size)
  ultimately show "\<exists>sector. read_source endless_image (ucast (17 :: u32) * 2048 + ucast k) 2048 =
      (0, sector) \<and> (\<forall>available. scan_records sector available 0 = None)"
    by (simp add: read_source_def endless_image_def not_less scan_zero_sector)
qed simp_all

lemma endless_pvd:
  "pvd_refused (sample_pvd 17 0xFFFFFFFF) = False"
  "volume_refused endless_image (sample_pvd 17 0xFFFFFFFF) = False"
  "root_refused endless_image (drop 156 (sample_pvd 17 0xFFFFFFFF)) = False"
  "read_le32 (drop 156 (sample_pvd 17 0xFFFFFFFF)) 2 = 17"
  "read_le32 (drop 156 (sample_pvd 17 0xFFFFFFFF)) 10 = 0xFFFFFFFF"
  "sample_pvd 17 0xFFFFFFFF ! 156 = 34" "sample_pvd 17 0xFFFFFFFF ! 188 = 1"
  "sample_pvd 17 0xFFFFFFFF ! 189 = 0" "length (sample_pvd 17 0xFFFFFFFF) = 2048"
  unfolding sample_pvd_def be_le32_def le32_bytes_def
  by (simp_all add: pvd_refused_def volume_refused_def root_refused_def bytes_at_def read_le16_def
      read_be16_at_def read_le32_def read_be32_at_def Let_def endless_image_def take_bit_eq_mod nth_append)

lemma endless_probe: "hdl_iso_probe endless_image info = None"
proof -
  have "read_source endless_image 32768 2048 = (0, sample_pvd 17 0xFFFFFFFF)"
    by (simp add: read_source_def endless_image_def)
  moreover have "iso_image_bytes endless_image = 0x100008800" by (simp add: endless_image_def)
  ultimately show ?thesis
    by (simp add: hdl_iso_probe_def Let_def endless_pvd endless_find)
qed

end
