(* ===== verification/HdlIso_Correct.thy ===== *)
theory HdlIso_Correct
  imports HdlIso
begin

text \<open>
  What a probe of a disc image finds: the first \<open>SYSTEM.CNF\<close> record of a directory of whole sectors,
  the boot line among the other lines, and what holds of every accepted image.
\<close>

section \<open>What the search finds\<close>

text \<open>Directory records as ISO 9660 lays them out, and the first one for \<open>SYSTEM.CNF\<close>.\<close>

definition well_formed_record :: "byte list \<Rightarrow> bool" where
  "well_formed_record r \<longleftrightarrow> 34 \<le> length r \<and> unat (r ! 0) = length r \<and> 33 + unat (r ! 32) \<le> length r"

definition is_system_cnf :: "byte list \<Rightarrow> bool" where
  "is_system_cnf r \<longleftrightarrow> unat (r ! 32) = 12 \<and>
    map to_upper (bytes_at 33 12 r) = system_cnf_name"

definition record_target :: "byte list \<Rightarrow> int + u32 \<times> u32" where
  "record_target r =
    (if read_le32 r 2 = read_be32_at r 6 \<and> read_le32 r 10 = read_be32_at r 14 \<and> read_le32 r 10 \<noteq> 0
     then Inr (read_le32 r 2, read_le32 r 10) else Inl HDL_ISO_INVALID_ROOT)"

definition directory_target :: "byte list list \<Rightarrow> (int + u32 \<times> u32) option" where
  "directory_target rs = map_option record_target (find is_system_cnf rs)"

definition sector_of :: "byte list list \<Rightarrow> byte list" where
  "sector_of rs = concat rs @ replicate (HDL_ISO_SECTOR_SIZE - length (concat rs)) 0"

definition fits_sector :: "byte list list \<Rightarrow> bool" where
  "fits_sector rs \<longleftrightarrow> (\<forall>r \<in> set rs. well_formed_record r) \<and> length (concat rs) \<le> HDL_ISO_SECTOR_SIZE"

lemma name_upper: "map to_upper system_cnf_name = system_cnf_name"
  by (simp add: system_cnf_name_def to_upper_def is_lower_def)

lemma nocase_name:
  assumes "45 \<le> length r"
  shows "ascii_equal_nocase (drop 33 r) system_cnf_name 12 \<longleftrightarrow>
    map to_upper (bytes_at 33 12 r) = system_cnf_name"
proof -
  have len: "length system_cnf_name = 12" by (simp add: system_cnf_name_def)
  have "map to_upper (bytes_at 33 12 r) = system_cnf_name \<longleftrightarrow>
      map to_upper (bytes_at 33 12 r) = map to_upper system_cnf_name" by (simp only: name_upper)
  also have "\<dots> \<longleftrightarrow> (\<forall>i < 12. to_upper (drop 33 r ! i) = to_upper (system_cnf_name ! i))"
    using assms len by (auto simp: list_eq_iff_nth_eq nth_bytes_at)
  finally show ?thesis by (simp add: ascii_equal_nocase_def)
qed

lemma read_be32_at_append: "off + 4 \<le> length s \<Longrightarrow> read_be32_at (s @ t) off = read_be32_at s off"
  by (auto simp: read_be32_at_def Let_def nth_append)

lemma scan_record:
  assumes r: "well_formed_record r" and data: "drop position sector = r @ rest"
    and fits: "position + length r \<le> available"
  shows "scan_records sector available position =
    (if is_system_cnf r then Some (record_target r)
     else scan_records sector available (position + length r))"
proof -
  have pos: "sector ! position = r ! 0" "position < available"
    using nth_via_drop [of position sector "r ! 0" "tl r @ rest"] r fits data
    by (cases r; simp add: well_formed_record_def)+
  have name: "unat (r ! 32) = 12 \<and> ascii_equal_nocase (drop 33 (r @ rest)) system_cnf_name 12 \<longleftrightarrow>
      is_system_cnf r"
  proof (cases "unat (r ! 32) = 12")
    case True
    then have "45 \<le> length r" using r by (simp add: well_formed_record_def)
    moreover from this have "ascii_equal_nocase (drop 33 (r @ rest)) system_cnf_name 12 =
        ascii_equal_nocase (drop 33 r) system_cnf_name 12"
      unfolding ascii_equal_nocase_def by (intro all_cong) (auto simp: nth_append)
    ultimately show ?thesis using nocase_name [of r] True by (simp add: is_system_cnf_def)
  qed (simp add: is_system_cnf_def)
  have at32: "(r @ rest) ! 32 = r ! 32" using r by (simp add: well_formed_record_def nth_append)
  have sizes: "unat (r ! 0) = length r" "34 \<le> length r" "33 + unat (r ! 32) \<le> length r"
    using r by (auto simp: well_formed_record_def)
  show ?thesis
    unfolding scan_records.simps [of sector available position] Let_def data at32 pos(1) sizes(1) name
    using pos sizes fits by (auto simp: record_target_def reads_append read_be32_at_append)
qed

lemma scan_directory:
  assumes "\<forall>r \<in> set rs. well_formed_record r" and "drop position sector = concat rs @ rest"
    and "position + length (concat rs) \<le> available" and "rest = [] \<or> hd rest = 0"
    and "available \<le> length sector"
  shows "scan_records sector available position = directory_target rs"
  using assms
proof (induction rs arbitrary: position)
  case Nil
  show ?case
  proof (cases "position < available")
    case True
    then have "sector ! position = 0"
      using Nil.prems(2,4,5) hd_drop_conv_nth [of position sector] by (cases rest) auto
    then show ?thesis by (subst scan_records.simps) (simp add: directory_target_def)
  next
    case False
    then show ?thesis by (subst scan_records.simps) (simp add: directory_target_def)
  qed
next
  case (Cons r rs)
  have step: "drop position sector = r @ (concat rs @ rest)" using Cons.prems(2) by simp
  have "drop (position + length r) sector = concat rs @ rest"
    using arg_cong [OF step, of "drop (length r)"] by (simp add: add.commute)
  then have "scan_records sector available (position + length r) = directory_target rs"
    using Cons.prems by (intro Cons.IH) auto
  then show ?case
    using scan_record [OF _ step] Cons.prems(1,3) by (simp add: directory_target_def)
qed

lemma scan_sector_of:
  assumes "fits_sector rs"
  shows "scan_records (sector_of rs) HDL_ISO_SECTOR_SIZE 0 = directory_target rs"
proof (rule scan_directory)
  let ?zeros = "replicate (HDL_ISO_SECTOR_SIZE - length (concat rs)) (0 :: byte)"
  show "drop 0 (sector_of rs) = concat rs @ ?zeros" by (simp add: sector_of_def)
  show "?zeros = [] \<or> hd ?zeros = 0" by (cases "HDL_ISO_SECTOR_SIZE - length (concat rs)") auto
qed (use assms in \<open>auto simp: fits_sector_def sector_of_def\<close>)

lemma directory_target_append:
  "directory_target (rs @ ss) = (case directory_target rs of None \<Rightarrow> directory_target ss | found \<Rightarrow> found)"
  by (induction rs) (auto simp: directory_target_def)

text \<open>A directory of whole sectors is searched to its end, in order.\<close>

lemma find_loop_directory:
  assumes "\<And>i. i < length dss \<Longrightarrow> read_source src (d + ucast (consumed + of_nat (2048 * i) :: u32))
      HDL_ISO_SECTOR_SIZE = (0, sector_of (dss ! i))"
    and "\<forall>rs \<in> set dss. fits_sector rs"
    and "unat root_bytes = unat consumed + 2048 * length dss" and "unat root_bytes \<le> 0xFFFFF800"
  shows "find_system_cnf_loop src d root_bytes consumed =
    Some (case directory_target (concat dss) of None \<Rightarrow> Inl HDL_ISO_SYSTEM_CNF_MISSING | Some r \<Rightarrow> r)"
  using assms
proof (induction dss arbitrary: consumed)
  case Nil
  then have "\<not> consumed < root_bytes" by (simp add: word_less_nat_alt)
  then show ?case by (subst find_system_cnf_loop.simps) (simp add: directory_target_def)
next
  case (Cons rs dss)
  have less: "consumed < root_bytes" "min (unat (root_bytes - consumed)) 2048 = 2048"
    using Cons.prems(3) by (simp_all add: word_less_nat_alt unat_sub_if_size)
  have now: "read_source src (d + ucast consumed) 2048 = (0, sector_of rs)"
    using Cons.prems(1) [of 0] by simp
  have scan: "scan_records (sector_of rs) 2048 0 = directory_target rs"
    using Cons.prems(2) by (intro scan_sector_of) simp
  have next_count: "unat (consumed + 2048) = unat consumed + 2048"
    using Cons.prems(3,4) by (subst unat_add_no_wrap) simp_all
  have "find_system_cnf_loop src d root_bytes (consumed + 2048) = Some (case directory_target
      (concat dss) of None \<Rightarrow> Inl HDL_ISO_SYSTEM_CNF_MISSING | Some r \<Rightarrow> r)"
  proof (rule Cons.IH)
    fix i
    assume "i < length dss"
    then show "read_source src (d + ucast (consumed + 2048 + of_nat (2048 * i) :: u32)) 2048 =
        (0, sector_of (dss ! i))"
      using Cons.prems(1) [of "Suc i"] by (simp add: add.assoc)
  qed (use Cons.prems next_count in auto)
  then show ?case
    by (subst find_system_cnf_loop.simps)
      (simp add: less now scan Let_def directory_target_append split: option.splits)
qed

section \<open>What the boot line says\<close>

lemma scan_while_exact:
  assumes "data = pre @ xs @ ys" and "p = length pre" and "\<forall>x \<in> set xs. P x"
    and "p + length xs \<le> stop" and "p + length xs = stop \<or> ys = [] \<or> \<not> P (hd ys)"
  shows "scan_while P data p stop = p + length xs"
proof -
  have "bytes_at p (stop - p) data = xs @ take (stop - p - length xs) ys"
    using assms(1,2,4) by (simp add: bytes_at_def)
  moreover have "takeWhile P (take (stop - p - length xs) ys) = []"
    using assms(5) by (cases ys) (auto simp: take_Cons')
  ultimately show ?thesis using assms(3) by (simp add: scan_while_def)
qed

definition blank :: "byte \<Rightarrow> bool" where "blank c \<longleftrightarrow> c = 0x20 \<or> c = 0x09"

text \<open>A line that is not the boot line: it starts with something else than a blank or a B.\<close>

definition other_line :: "byte list \<Rightarrow> bool" where
  "other_line l \<longleftrightarrow> l \<noteq> [] \<and> (\<forall>c \<in> set l. \<not> line_end_char c) \<and> \<not> is_space (hd l) \<and>
    to_upper (hd l) \<noteq> 0x42"

definition boot_line :: "byte list \<Rightarrow> byte list \<Rightarrow> byte list \<Rightarrow> byte list \<Rightarrow> byte list" where
  "boot_line sp1 sp2 path name =
    boot2_key @ sp1 @ [0x3d] @ sp2 @ path @ name @ [0x3b, 0x31]"

definition boot_parts_ok :: "byte list \<Rightarrow> byte list \<Rightarrow> byte list \<Rightarrow> byte list \<Rightarrow> bool" where
  "boot_parts_ok sp1 sp2 path name \<longleftrightarrow> (\<forall>c \<in> set sp1. blank c) \<and> (\<forall>c \<in> set sp2. blank c) \<and>
    path \<noteq> [] \<and> path_char (last path) \<and> (\<forall>c \<in> set path. \<not> is_space c \<and> \<not> quote_char c \<and> c \<noteq> 0) \<and>
    valid_startup (map to_upper name)"

lemma valid_startup_chars:
  assumes "valid_startup s" and "c \<in> set s"
  shows "is_alnum c \<or> c = 0x5f \<or> c = 0x2e"
proof -
  obtain i where i: "i < 11" "c = s ! i"
    using assms by (auto simp: valid_startup_def in_set_conv_nth split: if_splits)
  have s: "s ! 4 = 0x5f" "s ! 8 = 0x2e" "\<forall>i \<in> {0 ..< 4}. is_alnum (s ! i)"
      "\<forall>i \<in> {5 ..< 8}. is_digit (s ! i)" "is_digit (s ! 9)" "is_digit (s ! 10)"
    using assms(1) by (auto simp: valid_startup_def split: if_splits)
  have "i < 4 \<or> i = 4 \<or> 5 \<le> i \<and> i < 8 \<or> i = 8 \<or> i = 9 \<or> i = 10" using i by linarith
  then show ?thesis using i s by (auto simp: is_alnum_def)
qed

lemma startup_char_plain:
  assumes "valid_startup (map to_upper s)" and "c \<in> set s"
  shows "\<not> is_space c \<and> \<not> quote_char c \<and> \<not> path_char c \<and> \<not> line_end_char c \<and> c \<noteq> 0x3b"
proof -
  have up: "is_alnum (to_upper c) \<or> to_upper c = 0x5f \<or> to_upper c = 0x2e"
    using valid_startup_chars [OF assms(1)] assms(2) by auto
  have "is_alnum c \<or> c = 0x5f \<or> c = 0x2e"
  proof (cases "is_lower c")
    case True
    then show ?thesis by (simp add: is_alnum_def)
  next
    case False
    then have "to_upper c = c" by (simp add: to_upper_def)
    then show ?thesis using up by simp
  qed
  then show ?thesis
    unfolding is_alnum_def is_digit_def is_upper_def is_lower_def is_space_def quote_char_def
      path_char_def line_end_char_def word_le_nat_alt word_unat_eq_iff by auto
qed

text \<open>The last path separator decides where the name starts.\<close>

lemma base_loop:
  assumes "data = pre @ path @ name @ post" and "path \<noteq> []" and "path_char (last path)"
    and "\<forall>c \<in> set name. \<not> path_char c" and "m = length pre + length path"
  shows "foldl (\<lambda>base i. if path_char (data ! i) then i + 1 else base) v
    [length pre ..< m + length name] = m"
proof -
  let ?f = "\<lambda>base i. if path_char (data ! i) then i + 1 else base"
  have tail: "foldl ?f b [m ..< m + k] = b" if "k \<le> length name" for b k
    using that
  proof (induction k)
    case (Suc k)
    have "data ! (m + k) = name ! k"
      using Suc.prems assms(1,5) by (simp add: nth_append)
    then have "\<not> path_char (data ! (m + k))" using assms(4) Suc.prems by simp
    then show ?case using Suc by simp
  qed simp
  obtain q x where q: "path = q @ [x]" using assms(2) by (cases path rule: rev_cases) auto
  then have m: "m = Suc (length pre + length q)" using assms(5) by simp
  have "data ! (length pre + length q) = x" using assms(1) q by (simp add: nth_append)
  then have "path_char (data ! (length pre + length q))" using assms(3) q by simp
  moreover have "[length pre ..< m] = [length pre ..< length pre + length q] @ [length pre + length q]"
    unfolding m by (rule upt_Suc_append) simp
  ultimately have one: "foldl ?f v [length pre ..< m] = m"
    by (simp add: m)
  have "[length pre ..< m + length name] = [length pre ..< m] @ [m ..< m + length name]"
    by (rule upt_add_eq_append) (simp add: assms(5))
  then have "foldl ?f v [length pre ..< m + length name] =
      foldl ?f (foldl ?f v [length pre ..< m]) [m ..< m + length name]"
    by (simp only: foldl_append)
  also have "\<dots> = m" unfolding one by (rule tail [OF order_refl])
  finally show ?thesis .
qed

lemma nth_parts: "data = pre @ x # post \<Longrightarrow> p = length pre \<Longrightarrow> data ! p = x"
  by simp

lemma blank_space: "blank c \<Longrightarrow> is_space c"
  unfolding blank_def is_space_def by auto

lemma boot2_value_boot_line:
  assumes ok: "boot_parts_ok sp1 sp2 path name" and data: "data = pre @ boot_line sp1 sp2 path name @ rest"
    and stop: "stop = length pre + length (boot_line sp1 sp2 path name)"
    and m: "m = length pre + 6 + length sp1 + length sp2 + length path"
  shows "boot2_value data (length pre) stop = Some (m, m + length name)"
proof -
  note parts = ok [unfolded boot_parts_ok_def]
  have key: "length boot2_key = 5" "hd boot2_key = 0x42" by (simp_all add: boot2_key_def)
  have blanks: "\<forall>c \<in> set sp1. is_space c" "\<forall>c \<in> set sp2. is_space c"
    using parts blank_space by blast+
  have plain: "\<forall>c \<in> set name. \<not> is_space c \<and> \<not> quote_char c \<and> \<not> path_char c"
    using parts startup_char_plain by blast
  let ?e = "length pre + 5 + length sp1"
  let ?v = "?e + 1 + length sp2"
  let ?path_name = "path @ name @ [0x3b, 0x31]"
  have stop': "stop = m + length name + 2" and fits: "?e < stop" "5 \<le> stop - length pre"
      "m + 2 \<le> stop" "stop - 2 = m + length name"
    unfolding stop m boot_line_def by (simp_all add: key)
  have d: "data = pre @ [] @ (boot2_key @ sp1 @ [0x3d] @ sp2 @ ?path_name @ rest)"
      "data = (pre @ boot2_key) @ sp1 @ ([0x3d] @ sp2 @ ?path_name @ rest)"
      "data = (pre @ boot2_key @ sp1) @ 0x3d # (sp2 @ ?path_name @ rest)"
      "data = (pre @ boot2_key @ sp1 @ [0x3d]) @ sp2 @ (?path_name @ rest)"
      "data = (pre @ boot2_key @ sp1 @ [0x3d] @ sp2) @ ?path_name @ rest"
      "data = (pre @ boot2_key @ sp1 @ [0x3d] @ sp2 @ path @ name) @ 0x3b # ([0x31] @ rest)"
      "data = (pre @ boot2_key @ sp1 @ [0x3d] @ sp2 @ path @ name @ [0x3b]) @ 0x31 # rest"
    by (simp_all add: data boot_line_def)
  have sizes: "length (pre @ boot2_key) = length pre + 5" "length (pre @ boot2_key @ sp1) = ?e"
      "length (pre @ boot2_key @ sp1 @ [0x3d]) = ?e + 1" "length (pre @ boot2_key @ sp1 @ [0x3d] @ sp2) = ?v"
      "length (pre @ boot2_key @ sp1 @ [0x3d] @ sp2 @ path @ name) = stop - 2"
      "length (pre @ boot2_key @ sp1 @ [0x3d] @ sp2 @ path @ name @ [0x3b]) = stop - 1"
    by (simp_all add: key stop' m)
  have path_hd: "hd (?path_name @ rest) = hd path" "\<not> is_space (hd path)" "\<not> quote_char (hd path)"
    using parts by auto
  have line: "scan_while is_space data (length pre) stop = length pre"
    using scan_while_exact [OF d(1) refl, of is_space stop]
    by (simp add: stop key boot2_key_def is_space_def)
  have nocase: "ascii_equal_nocase (drop (length pre) data) boot2_key 5"
    unfolding ascii_equal_nocase_def d(1) by (simp add: nth_append key)
  have equals: "scan_while is_space data (length pre + 5) stop = ?e"
    using blanks(1) fits(1) by (intro scan_while_exact [OF d(2) sizes(1) [symmetric]]) (simp_all add: is_space_def)
  have at_e: "data ! ?e = 0x3d" by (rule nth_parts [OF d(3) sizes(2) [symmetric]])
  have value_begin: "scan_while is_space data (?e + 1) stop = ?v"
    using blanks(2) path_hd stop' m
    by (intro scan_while_exact [OF d(4) sizes(3) [symmetric]]) simp_all
  have at_v: "data ! ?v = hd path"
    using parts by (intro nth_parts [OF _ sizes(4) [symmetric], of _ _ "tl path @ name @ [0x3b, 0x31] @ rest"])
      (simp add: d(5))
  have no_quote: "\<not> quote_char (data ! ?v)" using at_v path_hd by simp
  have stop_at: "scan_while (\<lambda>c. \<not> is_space c \<and> \<not> quote_char c) data ?v stop = ?v + length ?path_name"
    using parts plain stop' m
    by (intro scan_while_exact [OF d(5) sizes(4) [symmetric]]) (auto simp: is_space_def quote_char_def)
  then have stop_at: "scan_while (\<lambda>c. \<not> is_space c \<and> \<not> quote_char c) data ?v stop = stop"
    by (simp add: stop' m)
  have base: "foldl (\<lambda>base i. if path_char (data ! i) then i + 1 else base) ?v [?v ..< stop] = m"
  proof -
    have split: "data = (pre @ boot2_key @ sp1 @ [0x3d] @ sp2) @ path @ (name @ [0x3b, 0x31]) @ rest"
      by (simp add: d(5))
    have "foldl (\<lambda>base i. if path_char (data ! i) then i + 1 else base) ?v
        [length (pre @ boot2_key @ sp1 @ [0x3d] @ sp2) ..< m + length (name @ [0x3b, 0x31])] = m"
      using parts plain by (intro base_loop [OF split]) (auto simp: path_char_def key m)
    moreover have "m + length (name @ [0x3b, 0x31]) = stop" by (simp add: stop')
    ultimately show ?thesis by (simp only: sizes(4))
  qed
  have version: "data ! (stop - 2) = 0x3b" "data ! (stop - 1) = 0x31"
    by (rule nth_parts [OF d(6) sizes(5) [symmetric]]) (rule nth_parts [OF d(7) sizes(6) [symmetric]])
  show ?thesis
    unfolding boot2_value_def Let_def line equals value_begin at_e
    using nocase fits no_quote stop_at base version by (simp del: One_nat_def)
qed

lemma other_line_skipped:
  assumes "other_line l" and "data = pre @ l @ rest" and "stop = length pre + length l"
  shows "boot2_value data (length pre) stop = None"
proof -
  obtain c cs where l: "l = c # cs" using assms(1) by (cases l) (auto simp: other_line_def)
  have c: "\<not> is_space c" "to_upper c \<noteq> 0x42" using assms(1) by (simp_all add: l other_line_def)
  have start: "scan_while is_space data (length pre) stop = length pre"
    using c(1) assms(3)
      scan_while_exact [of data pre "[]" "l @ rest" "length pre" is_space stop, OF _ refl]
    by (simp add: assms(2) l)
  have "boot2_key ! 0 = 0x42" "to_upper (0x42 :: byte) = 0x42"
    by (simp_all add: boot2_key_def to_upper_def is_lower_def)
  then have "\<not> ascii_equal_nocase (drop (length pre) data) boot2_key 5"
    unfolding ascii_equal_nocase_def using c(2) by (auto simp: assms(2) l intro!: exI [of _ 0])
  then show ?thesis by (simp add: boot2_value_def start Let_def)
qed

lemma parse_other_line:
  assumes "other_line l" and "data = pre @ l @ [0x0d, 0x0a] @ rest"
    and "rest = [] \<or> \<not> line_end_char (hd rest)"
  shows "parse_system_cnf data (length pre) = parse_system_cnf data (length pre + length l + 2)"
proof -
  have chars: "\<forall>c \<in> set l. \<not> line_end_char c" "l \<noteq> []" using assms(1) by (auto simp: other_line_def)
  have stop: "scan_while (\<lambda>c. \<not> line_end_char c) data (length pre) (length data) = length pre + length l"
    using chars by (intro scan_while_exact [OF assms(2) refl]) (simp_all add: assms(2) line_end_char_def)
  have split: "data = (pre @ l) @ [0x0d, 0x0a] @ rest" by (simp add: assms(2))
  have nl: "scan_while line_end_char data (length pre + length l) (length data) =
      length pre + length l + length [0x0d :: byte, 0x0a]"
    using assms(3) by (intro scan_while_exact [OF split]) (auto simp: assms(2) line_end_char_def)
  have "length pre < length data" using chars by (simp add: assms(2))
  then show ?thesis
    using other_line_skipped [OF assms(1,2) refl] stop nl
    by (subst parse_system_cnf.simps) (simp add: Let_def)
qed

lemma boot_line_chars:
  assumes "boot_parts_ok sp1 sp2 path name" and "c \<in> set (boot_line sp1 sp2 path name)"
  shows "\<not> line_end_char c"
proof -
  note parts = assms(1) [unfolded boot_parts_ok_def]
  have "\<not> line_end_char x" if "\<not> is_space x" "x \<noteq> 0" for x
    using that by (auto simp: line_end_char_def is_space_def)
  moreover have "\<not> line_end_char x" if "blank x" for x
    using that unfolding blank_def line_end_char_def by auto
  moreover have "\<not> line_end_char x" if "x \<in> set boot2_key" for x
    using that unfolding boot2_key_def line_end_char_def by auto
  moreover have "\<not> line_end_char (0x3d :: byte)" "\<not> line_end_char 0x3b" "\<not> line_end_char 0x31"
    by (simp_all add: line_end_char_def)
  ultimately show ?thesis
    using assms(2) parts startup_char_plain [of name c] unfolding boot_line_def by auto
qed

lemma bytes_at_mid: "data = pre @ xs @ rest \<Longrightarrow> m = length pre \<Longrightarrow> bytes_at m (length xs) data = xs"
  by (simp add: bytes_at_def)

lemma parse_boot_line:
  assumes "boot_parts_ok sp1 sp2 path name" and "data = pre @ boot_line sp1 sp2 path name @ rest"
    and "rest = [] \<or> line_end_char (hd rest)"
  shows "parse_system_cnf data (length pre) =
    (0, map to_upper name, disc_id_of (map to_upper name))"
proof -
  let ?line = "boot_line sp1 sp2 path name"
  define m where "m = length pre + 6 + length sp1 + length sp2 + length path"
  have stop: "scan_while (\<lambda>c. \<not> line_end_char c) data (length pre) (length data) =
      length pre + length ?line"
    using boot_line_chars [OF assms(1)] assms(3)
    by (intro scan_while_exact [OF assms(2) refl]) (auto simp: assms(2))
  have val: "boot2_value data (length pre) (length pre + length ?line) = Some (m, m + length name)"
    by (rule boot2_value_boot_line [OF assms(1,2) refl m_def])
  have "data = (pre @ boot2_key @ sp1 @ [0x3d] @ sp2 @ path) @ name @ [0x3b, 0x31] @ rest"
    by (simp add: assms(2) boot_line_def)
  then have name: "bytes_at m (length name) data = name"
    by (rule bytes_at_mid) (simp add: m_def boot2_key_def)
  have "valid_startup (map to_upper name)" using assms(1) by (simp add: boot_parts_ok_def)
  moreover from this have "length name = 11" by (auto simp: valid_startup_def split: if_splits)
  moreover have "length pre < length data" by (simp add: assms(2) boot_line_def)
  ultimately show ?thesis
    using stop val name by (subst parse_system_cnf.simps) (simp add: Let_def)
qed

lemma parse_boot_text:
  assumes "boot_parts_ok sp1 sp2 path name" and "\<forall>l \<in> set before. other_line l"
    and "rest = [] \<or> line_end_char (hd rest)"
  shows "parse_system_cnf (pre @ concat (map (\<lambda>l. l @ [0x0d, 0x0a]) before) @
      boot_line sp1 sp2 path name @ rest) (length pre) =
    (0, map to_upper name, disc_id_of (map to_upper name))"
  using assms(2)
proof (induction before arbitrary: pre)
  case Nil
  show ?case using parse_boot_line [OF assms(1) _ assms(3)] by simp
next
  case (Cons l before)
  let ?tail = "concat (map (\<lambda>l. l @ [0x0d, 0x0a]) before) @ boot_line sp1 sp2 path name @ rest"
  have "\<not> line_end_char (hd ?tail)"
  proof (cases before)
    case Nil
    then show ?thesis by (simp add: boot_line_def boot2_key_def line_end_char_def)
  next
    case (Cons k ks)
    then show ?thesis using Cons.prems by (auto simp: other_line_def hd_append)
  qed
  then have "parse_system_cnf (pre @ l @ [0x0d, 0x0a] @ ?tail) (length pre) =
      parse_system_cnf (pre @ l @ [0x0d, 0x0a] @ ?tail) (length pre + length l + 2)"
    using Cons.prems by (intro parse_other_line [OF _ refl]) auto
  also have "\<dots> = (0, map to_upper name, disc_id_of (map to_upper name))"
    using Cons.IH [of "pre @ l @ [0x0d, 0x0a]"] Cons.prems by simp
  finally show ?case by simp
qed

section \<open>The probe of a well-formed image\<close>

definition readable_pvd :: "hdl_iso_source \<Rightarrow> byte list \<Rightarrow> bool" where
  "readable_pvd src pvd \<longleftrightarrow> \<not> iso_image_bytes src < 18 * 2048 \<and> iso_image_bytes src mod 2048 = 0 \<and>
    \<not> iso_image_bytes src div 2048 > 0xFFFFFFFF \<and>
    read_source src (ISO_PVD_SECTOR * 2048) HDL_ISO_SECTOR_SIZE = (0, pvd) \<and>
    \<not> pvd_refused pvd \<and> \<not> volume_refused src pvd \<and>
    \<not> drop 156 pvd ! 0 < 34 \<and> drop 156 pvd ! 32 = 1 \<and> drop 156 pvd ! 33 = 0 \<and>
    \<not> root_refused src (drop 156 pvd)"

definition readable_directory :: "hdl_iso_source \<Rightarrow> byte list \<Rightarrow> byte list list list \<Rightarrow> bool" where
  "readable_directory src pvd dss \<longleftrightarrow>
    (\<forall>i < length dss. read_source src
      (ucast (read_le32 (drop 156 pvd) 2) * 2048 + ucast (of_nat (2048 * i) :: u32))
      HDL_ISO_SECTOR_SIZE = (0, sector_of (dss ! i))) \<and>
    (\<forall>rs \<in> set dss. fits_sector rs) \<and>
    unat (read_le32 (drop 156 pvd) 10) = 2048 * length dss \<and>
    unat (read_le32 (drop 156 pvd) 10) \<le> 0xFFFFF800"

definition cnf_text :: "byte list list \<Rightarrow> byte list \<Rightarrow> byte list \<Rightarrow> byte list" where
  "cnf_text before line rest = concat (map (\<lambda>l. l @ [0x0d, 0x0a]) before) @ line @ rest"

lemma probe_of_readable:
  assumes "readable_pvd src pvd"
  shows "hdl_iso_probe src info = map_option (\<lambda>found. case found of
      Inl result \<Rightarrow> (result, empty_iso_info)
    | Inr (file_extent, file_bytes) \<Rightarrow> probe_file src pvd empty_iso_info file_extent file_bytes)
    (find_system_cnf src (read_le32 (drop 156 pvd) 2) (read_le32 (drop 156 pvd) 10))"
  using assms unfolding readable_pvd_def hdl_iso_probe_def Let_def by simp

lemma find_in_directory:
  assumes "readable_directory src pvd dss"
  shows "find_system_cnf src (read_le32 (drop 156 pvd) 2) (read_le32 (drop 156 pvd) 10) =
    Some (case directory_target (concat dss) of None \<Rightarrow> Inl HDL_ISO_SYSTEM_CNF_MISSING | Some r \<Rightarrow> r)"
  unfolding find_system_cnf_def
  using assms by (intro find_loop_directory) (auto simp: readable_directory_def)

lemma probe_well_formed:
  assumes pvd: "readable_pvd src pvd" and dir: "readable_directory src pvd dss"
    and target: "directory_target (concat dss) = Some (Inr (extent, bytes))"
    and cnf: "read_source src (ucast extent * 2048) (unat (min bytes ISO_SYSTEM_CNF_LIMIT)) =
      (0, cnf_text before (boot_line sp1 sp2 path name) rest)"
    and parts: "boot_parts_ok sp1 sp2 path name" "\<forall>l \<in> set before. other_line l"
      "rest = [] \<or> line_end_char (hd rest)"
  shows "hdl_iso_probe src info =
    Some (0, probed_info src pvd (map to_upper name) (disc_id_of (map to_upper name)))"
proof -
  have "parse_system_cnf (cnf_text before (boot_line sp1 sp2 path name) rest) 0 =
      (0, map to_upper name, disc_id_of (map to_upper name))"
    using parse_boot_text [OF parts, of "[]"] by (simp add: cnf_text_def)
  moreover have "min bytes ISO_SYSTEM_CNF_LIMIT =
      (if bytes > ISO_SYSTEM_CNF_LIMIT then ISO_SYSTEM_CNF_LIMIT else bytes)"
    by (auto simp: min_def)
  ultimately show ?thesis
    using cnf by (simp add: probe_of_readable [OF pvd] find_in_directory [OF dir] target
        probe_file_def Let_def)
qed

lemma parse_accepts:
  "parse_system_cnf data position = (code, startup, disc_id) \<Longrightarrow>
    code = 0 \<and> valid_startup startup \<and> disc_id = disc_id_of startup \<or> code < 0"
proof (induction data position rule: parse_system_cnf.induct)
  case (1 data position)
  let ?stop = "scan_while (\<lambda>c. \<not> line_end_char c) data position (length data)"
  show ?case
  proof (cases "position < length data \<and> boot2_value data position ?stop = None")
    case True
    then show ?thesis
      using 1(1) [OF _ refl refl] 1(2) parse_system_cnf.simps [of data position]
      by (simp add: Let_def)
  next
    case False
    then show ?thesis
      using 1(2) parse_system_cnf.simps [of data position]
      by (auto simp: Let_def split: if_splits option.splits)
  qed
qed

lemma read_source_code: "read_source src offset n = (code, data) \<Longrightarrow> code = 0 \<or> code < 0"
  by (auto simp: read_source_def split: if_splits)

definition error_code :: "int + 'a \<Rightarrow> bool" where
  "error_code r \<longleftrightarrow> (case r of Inl code \<Rightarrow> code < 0 | Inr _ \<Rightarrow> True)"

lemma scan_error: "scan_records sector available position = Some r \<Longrightarrow> error_code r"
proof (induction sector available position rule: scan_records.induct)
  case (1 sector available position)
  show ?case
    using 1(2) 1(1) [OF _ refl _ _ refl refl]
    by (subst (asm) scan_records.simps) (auto simp: Let_def error_code_def split: if_splits)
qed

lemma find_error: "error_code r" if found: "find_system_cnf_loop src d root_bytes consumed = Some r"
proof (rule find_system_cnf_loop.raw_induct [of "\<lambda>_ _ _ _ r. error_code r", OF _ found])
  fix loop src d root_bytes consumed r
  assume "\<And>src d root_bytes consumed r. loop src d root_bytes consumed = Some r \<Longrightarrow> error_code r"
    and "(if consumed < root_bytes
      then let available = min (unat (root_bytes - consumed)) HDL_ISO_SECTOR_SIZE;
               (result, sector) = read_source src (d + ucast consumed) HDL_ISO_SECTOR_SIZE in
        if result < 0 then Some (Inl result)
        else (case scan_records sector available 0 of
            Some outcome \<Rightarrow> Some outcome
          | None \<Rightarrow> loop src d root_bytes (consumed + 2048))
      else Some (Inl HDL_ISO_SYSTEM_CNF_MISSING)) = Some r"
  then show "error_code r"
    by (auto simp: Let_def error_code_def [of "Inl _"] split: if_splits prod.splits option.splits
        dest: scan_error)
qed

lemma probe_accepts:
  assumes "hdl_iso_probe src info = Some (0, info')"
  shows "\<exists>pvd extent bytes startup. readable_pvd src pvd \<and>
    find_system_cnf src (read_le32 (drop 156 pvd) 2) (read_le32 (drop 156 pvd) 10) =
      Some (Inr (extent, bytes)) \<and> valid_startup startup \<and>
    info' = probed_info src pvd startup (disc_id_of startup)"
proof -
  have "\<exists>pvd. readable_pvd src pvd"
  proof (rule ccontr)
    assume none: "\<nexists>pvd. readable_pvd src pvd"
    show False
      using assms none read_source_code [of src "ISO_PVD_SECTOR * 2048" 2048]
      unfolding hdl_iso_probe_def Let_def readable_pvd_def
      by (auto split: if_splits prod.splits)
  qed
  then obtain pvd where pvd: "readable_pvd src pvd" by blast
  then obtain extent bytes where found: "find_system_cnf src (read_le32 (drop 156 pvd) 2)
      (read_le32 (drop 156 pvd) 10) = Some (Inr (extent, bytes))"
    and run: "probe_file src pvd empty_iso_info extent bytes = (0, info')"
  proof -
    obtain r where r: "find_system_cnf src (read_le32 (drop 156 pvd) 2)
        (read_le32 (drop 156 pvd) 10) = Some r"
      and "(case r of Inl result \<Rightarrow> (result, empty_iso_info)
        | Inr (file_extent, file_bytes) \<Rightarrow> probe_file src pvd empty_iso_info file_extent file_bytes) =
        (0, info')"
      using assms unfolding probe_of_readable [OF pvd] map_option_eq_Some by blast
    moreover have "error_code r" using r unfolding find_system_cnf_def by (rule find_error)
    ultimately show ?thesis using that by (cases r) (auto simp: error_code_def)
  qed
  obtain code data where read: "read_source src (ucast extent * 2048)
      (unat (if bytes > ISO_SYSTEM_CNF_LIMIT then ISO_SYSTEM_CNF_LIMIT else bytes)) = (code, data)"
    by fastforce
  obtain c startup disc_id where parse: "parse_system_cnf data 0 = (c, startup, disc_id)"
    by (metis prod_cases3)
  have "c = 0" "info' = probed_info src pvd startup disc_id"
    using run read read_source_code [OF read] parse parse_accepts [OF parse]
    by (auto simp: probe_file_def Let_def split: if_splits)
  then show ?thesis using pvd found parse_accepts [OF parse] by blast
qed

section \<open>Properties\<close>

text \<open>
  The probe of an image below 4 GiB always returns, whatever the reader delivers and
  however the directory is damaged: the 32-bit count of searched bytes cannot wrap.
\<close>

theorem iso_probe_returns:
  assumes "unat (iso_image_bytes src) \<le> 0xFFFFF800"
  shows "\<exists>code info'. hdl_iso_probe src info = Some (code, info')"
  using assms by (rule probe_returns)

text \<open>
  Property C40: a defect: on a larger image whose root directory claims \<open>0xFFFFFFFF\<close> bytes and holds
  empty sectors the probe never returns, because the 32-bit count of searched bytes wraps to zero.
\<close>

theorem iso_probe_hangs: "hdl_iso_probe endless_image info = None"
  by (rule endless_probe)

lemma probe_sound:
  assumes "hdl_iso_probe src info = Some (0, info')"
  shows "unat (info_image_sectors info') * 2048 = unat (iso_image_bytes src)"
    and "18 \<le> info_image_sectors info'"
    and "\<exists>pvd extent bytes. readable_pvd src pvd \<and> find_system_cnf src
      (read_le32 (drop 156 pvd) 2) (read_le32 (drop 156 pvd) 10) = Some (Inr (extent, bytes))"
    and "valid_startup (info_startup info')"
    and "info_disc_id info' = disc_id_of (info_startup info')" and "length (info_disc_id info') = 10"
    and "length (info_volume_title info') \<le> 32"
    and "info_disc_type info' = (if 943718400 < iso_image_bytes src then PS2_DISC_TYPE_DVD
      else PS2_DISC_TYPE_CD)"
    and "info_requires_layer_break info' \<longleftrightarrow> 4700372992 < iso_image_bytes src"
proof -
  obtain pvd extent bytes startup where pvd: "readable_pvd src pvd"
    and found: "find_system_cnf src (read_le32 (drop 156 pvd) 2) (read_le32 (drop 156 pvd) 10) =
      Some (Inr (extent, bytes))"
    and startup: "valid_startup startup"
    and info': "info' = probed_info src pvd startup (disc_id_of startup)"
    using probe_accepts [OF assms] by blast
  show "\<exists>pvd extent bytes. readable_pvd src pvd \<and> find_system_cnf src
      (read_le32 (drop 156 pvd) 2) (read_le32 (drop 156 pvd) 10) = Some (Inr (extent, bytes))"
    using pvd found by blast
  let ?n = "iso_image_bytes src"
  have n: "unat ?n mod 2048 = 0" "unat ?n div 2048 \<le> 0xFFFFFFFF" "18 * 2048 \<le> unat ?n"
    using pvd by (auto simp: readable_pvd_def word_le_nat_alt not_less word_unat_eq_iff unat_mod unat_div)
  then have sectors: "unat (info_image_sectors info') = unat ?n div 2048"
    by (simp add: info' probed_info_def Let_def unsigned_ucast_eq take_bit_nat_eq_self unat_div)
  then show "unat (info_image_sectors info') * 2048 = unat ?n" using n(1) by auto
  show "18 \<le> info_image_sectors info'" using sectors n(3) by (simp add: word_le_nat_alt)
  have "length startup = 11" using startup by (auto simp: valid_startup_def split: if_splits)
  then show "length (info_disc_id info') = 10"
    by (simp add: info' probed_info_def Let_def disc_id_of_def)
  have "length (copy_volume_title s) \<le> 32" for s
    unfolding copy_volume_title_def length_rev
    by (rule order_trans [OF length_dropWhile_le], unfold length_rev,
        rule order_trans [OF length_dropWhile_le]) simp
  then show "length (info_volume_title info') \<le> 32" by (simp add: info' probed_info_def Let_def)
  show "valid_startup (info_startup info')"
    and "info_disc_id info' = disc_id_of (info_startup info')"
    and "info_disc_type info' = (if 943718400 < iso_image_bytes src then PS2_DISC_TYPE_DVD
      else PS2_DISC_TYPE_CD)"
    and "info_requires_layer_break info' \<longleftrightarrow> 4700372992 < iso_image_bytes src"
    using startup by (simp_all add: info' probed_info_def Let_def)
qed


text \<open>
  Property C38: on every well-formed image the probe succeeds and reports the first \<open>SYSTEM.CNF\<close> of
  the whole directory and the name in its boot line: the lines before the boot line, the blanks
  around the equals sign, the device path, the version suffix and the rest of the file do not
  matter.
\<close>

theorem iso_probe_complete:
  assumes "readable_pvd src pvd" and "readable_directory src pvd dss"
    and "directory_target (concat dss) = Some (Inr (extent, bytes))"
    and "read_source src (ucast extent * 2048) (unat (min bytes ISO_SYSTEM_CNF_LIMIT)) =
      (0, cnf_text before (boot_line sp1 sp2 path name) rest)"
    and "boot_parts_ok sp1 sp2 path name" and "\<forall>l \<in> set before. other_line l"
    and "rest = [] \<or> line_end_char (hd rest)"
  shows "hdl_iso_probe src info =
    Some (0, probed_info src pvd (map to_upper name) (disc_id_of (map to_upper name)))"
  using assms by (rule probe_well_formed)

section \<open>Witnesses\<close>

text \<open>A 19-sector image: the directory in sector 17, \<open>SYSTEM.CNF\<close> in sector 18.\<close>

definition sample_name :: "byte list" where
  "sample_name = [0x53, 0x4c, 0x55, 0x53, 0x5f, 0x31, 0x32, 0x33, 0x2e, 0x34, 0x35]"

definition sample_path :: "byte list" where
  "sample_path = [0x63, 0x64, 0x72, 0x6f, 0x6d, 0x30, 0x3a, 0x5c]"

definition sample_text :: "byte list" where
  "sample_text = cnf_text [[0x56, 0x45, 0x52]] (boot_line [0x20] [0x20] sample_path sample_name) [0x0d, 0x0a]"

definition cnf_record :: "byte list" where
  "cnf_record = [46, 0] @ be_le32 18 @ be_le32 36 @ replicate 14 0 @ [12] @ system_cnf_name @ [0]"

definition sample_image :: hdl_iso_source where
  "sample_image = \<lparr>iso_read = (\<lambda>offset n. (0, if offset = 32768 then sample_pvd 17 2048
      else if offset = 34816 then sector_of [cnf_record] else sample_text)),
    iso_image_bytes = 38912\<rparr>"

lemma sample_readable_pvd: "readable_pvd sample_image (sample_pvd 17 2048)"
  unfolding readable_pvd_def pvd_refused_def volume_refused_def root_refused_def Let_def
  by (simp add: sample_image_def read_source_def)
    (simp add: sample_pvd_def be_le32_def le32_bytes_def bytes_at_def read_le16_def read_be16_at_def
      read_le32_def read_be32_at_def Let_def take_bit_eq_mod nth_append)

lemma sample_pvd_root:
  "read_le32 (drop 156 (sample_pvd 17 2048)) 2 = 17"
  "read_le32 (drop 156 (sample_pvd 17 2048)) 10 = 2048"
  unfolding sample_pvd_def be_le32_def le32_bytes_def
  by (simp_all add: read_le32_def Let_def take_bit_eq_mod nth_append)

lemma cnf_record_ok: "well_formed_record cnf_record" "is_system_cnf cnf_record"
    "record_target cnf_record = Inr (18, 36)"
  by code_simp+

lemma sample_readable_directory:
  "readable_directory sample_image (sample_pvd 17 2048) [[cnf_record]]"
  by (simp add: readable_directory_def sample_pvd_root read_source_def sample_image_def
      fits_sector_def cnf_record_ok) (simp add: cnf_record_def be_le32_def system_cnf_name_def)

lemma sample_parts: "boot_parts_ok [0x20] [0x20] sample_path sample_name"
  by code_simp

lemma sample_probe: "hdl_iso_probe sample_image empty_iso_info =
    Some (0, probed_info sample_image (sample_pvd 17 2048) sample_name (disc_id_of sample_name))"
proof -
  have "map to_upper sample_name = sample_name" by code_simp
  moreover have "other_line [0x56, 0x45, 0x52]" by code_simp
  moreover have "line_end_char 0x0d" by code_simp
  ultimately show ?thesis
    using probe_well_formed [OF sample_readable_pvd sample_readable_directory _ _ sample_parts,
        of 18 36 "[[0x56, 0x45, 0x52]]" "[0x0d, 0x0a]" empty_iso_info]
    by (simp add: directory_target_def cnf_record_ok read_source_def sample_image_def sample_text_def)
qed

lemma small_image: "unat (iso_image_bytes sample_image) \<le> 0xFFFFF800"
  by (simp add: sample_image_def)

theorem iso_probe_returns_witness: "hdl_iso_probe sample_image empty_iso_info \<noteq> None"
  using iso_probe_returns [OF small_image, of empty_iso_info] by auto


theorem iso_probe_complete_witness:
  "hdl_iso_probe sample_image empty_iso_info =
    Some (0, probed_info sample_image (sample_pvd 17 2048) sample_name (disc_id_of sample_name))"
proof -
  have "map to_upper sample_name = sample_name" by code_simp
  moreover have "other_line [0x56, 0x45, 0x52]" by code_simp
  moreover have "line_end_char 0x0d" by code_simp
  ultimately show ?thesis
    using iso_probe_complete [OF sample_readable_pvd sample_readable_directory _ _ sample_parts,
        of 18 36 "[[0x56, 0x45, 0x52]]" "[0x0d, 0x0a]" empty_iso_info]
    by (simp add: directory_target_def cnf_record_ok read_source_def sample_image_def sample_text_def)
qed

end
