(* ===== verification/HdlJournal.thy ===== *)
theory HdlJournal
  imports FileStore HdlTransaction
begin

text \<open>
  The journal of an HDL installation on the USB device: \<open>journal_save\<close>, \<open>journal_load\<close> and
  \<open>journal_remove\<close> of \<open>src/hdl_tools/source_ui.inc\<close>.  A record is written beside the journal, read
  back, and moved over it.  The lemmas show what the two files hold after a save that succeeded or
  stopped anywhere, on a file system that keeps the laws of \<open>FileStore\<close>: the journal moves from the
  old record to the new one, unless the old record was only in the file that the save overwrites.
\<close>

abbreviation (input) HDL_INSTALL_JOURNAL_INVALID :: int where "HDL_INSTALL_JOURNAL_INVALID \<equiv> - 562"

definition HDL_INSTALL_JOURNAL :: path where
  "HDL_INSTALL_JOURNAL = ascii ''mass:/HDLINSTALL.TXN''"

definition HDL_INSTALL_JOURNAL_NEW :: path where
  "HDL_INSTALL_JOURNAL_NEW = ascii ''mass:/HDLINSTALL.NEW''"

lemma journal_paths_differ [simp]:
  "HDL_INSTALL_JOURNAL \<noteq> HDL_INSTALL_JOURNAL_NEW" "HDL_INSTALL_JOURNAL_NEW \<noteq> HDL_INSTALL_JOURNAL"
  by (simp_all add: HDL_INSTALL_JOURNAL_def HDL_INSTALL_JOURNAL_NEW_def ascii_def)

section \<open>The operations\<close>

definition journal_move :: "'f platform \<Rightarrow> 'f file_world \<Rightarrow> int \<times> 'f file_world" where
  "journal_move api w =
    (let (removed, w1) = fileXioRemove api HDL_INSTALL_JOURNAL w;
         (result, w2) = fileXioRename api HDL_INSTALL_JOURNAL_NEW HDL_INSTALL_JOURNAL w1 in
     (if result < 0 then result else 0, w2))"

definition journal_save :: "'f platform \<Rightarrow> hdl_transaction \<Rightarrow> 'f file_world \<Rightarrow> int \<times> 'f file_world" where
  "journal_save api t w =
    (let (result, rec) = hdl_transaction_encode t (replicate HDL_TRANSACTION_RECORD_SIZE 0) in
     if result < 0 then (result, w)
     else let (result, w1) = write_whole_file api HDL_INSTALL_JOURNAL_NEW rec w in
       if result < 0 then (result, w1)
       else let (got, w2) = read_exact_file api HDL_INSTALL_JOURNAL_NEW HDL_TRANSACTION_RECORD_SIZE w1 in
         (case got of
            Inl e \<Rightarrow> (HDL_INSTALL_JOURNAL_INVALID, w2)
          | Inr verify \<Rightarrow>
              if rec \<noteq> verify \<or> fst (hdl_transaction_decode verify t) < 0
              then (HDL_INSTALL_JOURNAL_INVALID, w2)
              else journal_move api w2))"

text \<open>The result, the caller's transaction, which a failure leaves as it was, and the world.\<close>

definition journal_load_new ::
    "'f platform \<Rightarrow> hdl_transaction \<Rightarrow> 'f file_world \<Rightarrow> int \<times> hdl_transaction \<times> 'f file_world" where
  "journal_load_new api t w =
    (let (got, w1) = read_exact_file api HDL_INSTALL_JOURNAL_NEW HDL_TRANSACTION_RECORD_SIZE w in
     (case got of
        Inl e \<Rightarrow> (e, t, w1)
      | Inr rec \<Rightarrow> let (result, t1) = hdl_transaction_decode rec t in (result, t1, w1)))"

definition journal_load ::
    "'f platform \<Rightarrow> hdl_transaction \<Rightarrow> 'f file_world \<Rightarrow> int \<times> hdl_transaction \<times> 'f file_world" where
  "journal_load api t w =
    (let (got, w1) = read_exact_file api HDL_INSTALL_JOURNAL HDL_TRANSACTION_RECORD_SIZE w in
     (case got of
        Inl e \<Rightarrow> journal_load_new api t w1
      | Inr rec \<Rightarrow> let (result, t1) = hdl_transaction_decode rec t in
          if result = 0 then (0, t1, w1) else journal_load_new api t w1))"

text \<open>A transaction on the stack that only a successful load fills in.\<close>

definition unset_transaction :: hdl_transaction where
  "unset_transaction = decoded_transaction (replicate HDL_TRANSACTION_RECORD_SIZE 0)"

definition journal_remove :: "'f platform \<Rightarrow> 'f file_world \<Rightarrow> 'f file_world" where
  "journal_remove api w =
    (let (a, w1) = fileXioRemove api HDL_INSTALL_JOURNAL w;
         (b, w2) = fileXioRemove api HDL_INSTALL_JOURNAL_NEW w1 in w2)"

section \<open>What the files mean\<close>

text \<open>The transaction a file stands for, and the one the two files stand for together.\<close>

definition recorded :: "byte list option \<Rightarrow> hdl_transaction option" where
  "recorded content = (case content of
     None \<Rightarrow> None
   | Some rec \<Rightarrow>
       if length rec = HDL_TRANSACTION_RECORD_SIZE \<and>
         fst (hdl_transaction_decode rec (decoded_transaction rec)) = 0
       then Some (decoded_transaction rec) else None)"

definition journal_of :: "(path \<Rightarrow> byte list option) \<Rightarrow> hdl_transaction option" where
  "journal_of content = (case recorded (content HDL_INSTALL_JOURNAL) of
     Some t \<Rightarrow> Some t
   | None \<Rightarrow> recorded (content HDL_INSTALL_JOURNAL_NEW))"

lemma recorded_None [simp]: "recorded None = None"
  by (simp add: recorded_def)

lemma decode_code_eq: "fst (hdl_transaction_decode rec t) = fst (hdl_transaction_decode rec t')"
  by (simp add: hdl_transaction_decode_def Let_def)

lemma decode_ok: "fst (hdl_transaction_decode rec t) = 0 \<Longrightarrow>
    snd (hdl_transaction_decode rec t) = decoded_transaction rec"
  and decode_failed: "fst (hdl_transaction_decode rec t) \<noteq> 0 \<Longrightarrow> snd (hdl_transaction_decode rec t) = t"
  by (auto simp: hdl_transaction_decode_def Let_def split: if_splits)

lemma decode_code_le: "fst (hdl_transaction_decode rec t) \<le> 0"
  by (simp add: hdl_transaction_decode_def Let_def)

lemma encode_code: "hdl_transaction_encode t r0 = (code, rec) \<Longrightarrow> code = 0 \<longleftrightarrow> transaction_valid t"
  by (auto simp: hdl_transaction_encode_def Let_def split: if_splits)

lemma recorded_encoded:
  assumes "hdl_transaction_encode t r0 = (0, rec)" and "transaction_sized t"
  shows "recorded (Some rec) = Some (normal_transaction t) \<and> length rec = HDL_TRANSACTION_RECORD_SIZE"
proof -
  have "transaction_valid t" using assms(1) encode_code by blast
  from encode_decodes [OF this assms(2), of r0 "decoded_transaction rec"] assms(1)
  have d: "length rec = HDL_TRANSACTION_RECORD_SIZE"
      "hdl_transaction_decode rec (decoded_transaction rec) = (0, normal_transaction t)" by auto
  then show ?thesis using decode_ok [of rec "decoded_transaction rec"] by (simp add: recorded_def)
qed

section \<open>Saving\<close>

context file_store
begin

text \<open>A save ends before it touches the journal, between removing and moving, or with the new record.\<close>

lemma journal_move_effect:
  assumes "journal_move api w = (r, w')"
  shows "q \<noteq> HDL_INSTALL_JOURNAL \<Longrightarrow> q \<noteq> HDL_INSTALL_JOURNAL_NEW \<Longrightarrow> stored w' q = stored w q"
    and "r = 0 \<Longrightarrow> stored w' HDL_INSTALL_JOURNAL = stored w HDL_INSTALL_JOURNAL_NEW \<and>
      stored w' HDL_INSTALL_JOURNAL_NEW = None"
    and "r \<noteq> 0 \<Longrightarrow> stored w' HDL_INSTALL_JOURNAL_NEW = stored w HDL_INSTALL_JOURNAL_NEW \<and>
      (stored w' HDL_INSTALL_JOURNAL = stored w HDL_INSTALL_JOURNAL \<or> stored w' HDL_INSTALL_JOURNAL = None)"
    and "r \<le> 0"
proof -
  obtain a w1 where a: "fileXioRemove api HDL_INSTALL_JOURNAL w = (a, w1)" by fastforce
  obtain b w2 where b: "fileXioRename api HDL_INSTALL_JOURNAL_NEW HDL_INSTALL_JOURNAL w1 = (b, w2)" by fastforce
  have run: "r = (if b < 0 then b else 0)" "w' = w2"
    using assms by (simp_all add: journal_move_def a b split: if_splits)
  note effects = remove_effect [OF a] rename_effect [OF b]
  show "q \<noteq> HDL_INSTALL_JOURNAL \<Longrightarrow> q \<noteq> HDL_INSTALL_JOURNAL_NEW \<Longrightarrow> stored w' q = stored w q"
    and "r = 0 \<Longrightarrow> stored w' HDL_INSTALL_JOURNAL = stored w HDL_INSTALL_JOURNAL_NEW \<and>
      stored w' HDL_INSTALL_JOURNAL_NEW = None"
    and "r \<noteq> 0 \<Longrightarrow> stored w' HDL_INSTALL_JOURNAL_NEW = stored w HDL_INSTALL_JOURNAL_NEW \<and>
      (stored w' HDL_INSTALL_JOURNAL = stored w HDL_INSTALL_JOURNAL \<or> stored w' HDL_INSTALL_JOURNAL = None)"
    and "r \<le> 0"
    using effects run by (auto split: if_splits)
qed

lemma journal_save_effect:
  assumes "journal_save api t w = (r, w')"
  shows "(r \<noteq> 0 \<and> (\<forall>q. q \<noteq> HDL_INSTALL_JOURNAL_NEW \<longrightarrow> stored w' q = stored w q)) \<or>
    (\<exists>rec. hdl_transaction_encode t (replicate HDL_TRANSACTION_RECORD_SIZE 0) = (0, rec) \<and>
      (\<forall>q. q \<noteq> HDL_INSTALL_JOURNAL \<longrightarrow> q \<noteq> HDL_INSTALL_JOURNAL_NEW \<longrightarrow> stored w' q = stored w q) \<and>
      (if r = 0 then stored w' HDL_INSTALL_JOURNAL = Some rec \<and> stored w' HDL_INSTALL_JOURNAL_NEW = None
       else stored w' HDL_INSTALL_JOURNAL_NEW = Some rec \<and>
         (stored w' HDL_INSTALL_JOURNAL = stored w HDL_INSTALL_JOURNAL \<or>
          stored w' HDL_INSTALL_JOURNAL = None)))"
proof -
  obtain code rec where e: "hdl_transaction_encode t (replicate 512 0) = (code, rec)" by fastforce
  obtain k w1 where k: "write_whole_file api HDL_INSTALL_JOURNAL_NEW rec w = (k, w1)" by fastforce
  obtain got w2 where got: "read_exact_file api HDL_INSTALL_JOURNAL_NEW 512 w1 = (got, w2)" by fastforce
  have code: "code = 0 \<or> code < 0"
    using e by (auto simp: hdl_transaction_encode_def Let_def split: if_splits)
  have others: "stored w2 q = stored w q" "stored w1 q = stored w q" if "q \<noteq> HDL_INSTALL_JOURNAL_NEW" for q
    using write_whole_file_effect(1) [OF k that] read_exact_file_effect(1) [OF got] by simp_all
  note run = assms [unfolded journal_save_def e prod.case Let_def k got]
  show ?thesis
  proof (cases "code = 0 \<and> \<not> k < 0 \<and> got = Inr rec \<and> \<not> fst (hdl_transaction_decode rec t) < 0")
    case True
    then have move: "journal_move api w2 = (r, w')" using run by simp
    have new: "stored w2 HDL_INSTALL_JOURNAL_NEW = Some rec"
      using read_exact_file_effect [OF got] True by auto
    show ?thesis
      using journal_move_effect [OF move] True e new others
      by (intro disjI2 exI [of _ rec]) auto
  next
    case False
    then have "r \<noteq> 0 \<and> (w' = w \<or> w' = w1 \<or> w' = w2)"
      using run code by (auto split: if_splits sum.splits)
    then show ?thesis using others by auto
  qed
qed

lemma read_record_effect:
  assumes "read_exact_file api p 512 w = (Inr rec, w')" and "fst (hdl_transaction_decode rec t) = 0"
  shows "recorded (stored w p) = Some (snd (hdl_transaction_decode rec t))"
proof -
  have "fst (hdl_transaction_decode rec (decoded_transaction rec)) = 0"
    using assms(2) decode_code_eq [of rec t "decoded_transaction rec"] by simp
  then show ?thesis
    using decode_ok [OF assms(2)] read_exact_file_effect(2) [OF assms(1) refl] read_exact_file_length [OF assms(1)]
    by (simp add: recorded_def)
qed

lemma journal_load_new_effect:
  assumes "journal_load_new api t w = (r, t', w')"
  shows "stored w' = stored w"
    and "r = 0 \<Longrightarrow> recorded (stored w HDL_INSTALL_JOURNAL_NEW) = Some t'"
    and "r \<noteq> 0 \<Longrightarrow> t' = t"
proof -
  obtain got w1 where got: "read_exact_file api HDL_INSTALL_JOURNAL_NEW 512 w = (got, w1)" by fastforce
  note same = read_exact_file_effect(1) [OF got]
  have "stored w' = stored w \<and> (r = 0 \<longrightarrow> recorded (stored w HDL_INSTALL_JOURNAL_NEW) = Some t') \<and>
      (r \<noteq> 0 \<longrightarrow> t' = t)"
  proof (cases got)
    case (Inl e)
    then have "r = e" "t' = t" "w' = w1" using assms by (simp_all add: journal_load_new_def got)
    then show ?thesis using same read_exact_file_code [OF got [unfolded Inl]] by simp
  next
    case (Inr rec)
    then have "r = fst (hdl_transaction_decode rec t)" "t' = snd (hdl_transaction_decode rec t)" "w' = w1"
      using assms by (auto simp: journal_load_new_def got split: prod.splits)
    then show ?thesis
      using same decode_failed [of rec t] read_record_effect [OF got [unfolded Inr], of t]
      by (cases "r = 0") simp_all
  qed
  then show "stored w' = stored w"
    and "r = 0 \<Longrightarrow> recorded (stored w HDL_INSTALL_JOURNAL_NEW) = Some t'"
    and "r \<noteq> 0 \<Longrightarrow> t' = t" by blast+
qed

lemma journal_load_effect:
  assumes "journal_load api t w = (r, t', w')"
  shows "stored w' = stored w"
    and "r = 0 \<Longrightarrow> recorded (stored w HDL_INSTALL_JOURNAL) = Some t' \<or>
      recorded (stored w HDL_INSTALL_JOURNAL_NEW) = Some t'"
    and "r \<noteq> 0 \<Longrightarrow> t' = t"
proof -
  obtain got w1 where got: "read_exact_file api HDL_INSTALL_JOURNAL 512 w = (got, w1)" by fastforce
  note same = read_exact_file_effect(1) [OF got]
  consider rec where "got = Inr rec" "fst (hdl_transaction_decode rec t) = 0"
      "r = 0" "t' = snd (hdl_transaction_decode rec t)" "w' = w1"
    | "journal_load_new api t w1 = (r, t', w')"
    using assms by (auto simp: journal_load_def got case_prod_unfold Let_def split: sum.splits if_splits)
  then have "stored w' = stored w \<and> (r = 0 \<longrightarrow> recorded (stored w HDL_INSTALL_JOURNAL) = Some t' \<or>
      recorded (stored w HDL_INSTALL_JOURNAL_NEW) = Some t') \<and> (r \<noteq> 0 \<longrightarrow> t' = t)"
  proof cases
    case 1
    then show ?thesis using same got read_record_effect [of HDL_INSTALL_JOURNAL w rec w1 t] by simp
  next
    case 2
    then show ?thesis using journal_load_new_effect [OF 2] same by simp
  qed
  then show "stored w' = stored w"
    and "r = 0 \<Longrightarrow> recorded (stored w HDL_INSTALL_JOURNAL) = Some t' \<or>
      recorded (stored w HDL_INSTALL_JOURNAL_NEW) = Some t'"
    and "r \<noteq> 0 \<Longrightarrow> t' = t" by blast+
qed

end

section \<open>Properties\<close>

text \<open>
  Property C31: saving the journal is atomic.  If the journal file holds a record, then however the
  save ends, at whatever call it stops, the two files together still stand for that record or for
  the new one; a save that reports success stands for the new one, whatever was there before; no
  other file is touched.
\<close>

theorem journal_save_atomic:
  assumes "file_store api files fds" and "journal_save api t w = (r, w')" and "transaction_sized t"
  shows "(\<forall>old. recorded (files (store w) HDL_INSTALL_JOURNAL) = Some old \<longrightarrow>
      journal_of (files (store w')) \<in> {Some old, Some (normal_transaction t)}) \<and>
    (r = 0 \<longrightarrow> journal_of (files (store w')) = Some (normal_transaction t)) \<and>
    (\<forall>q. q \<notin> {HDL_INSTALL_JOURNAL, HDL_INSTALL_JOURNAL_NEW} \<longrightarrow> files (store w') q = files (store w) q)"
  using file_store.journal_save_effect [OF assms(1,2)]
proof
  assume "r \<noteq> 0 \<and> (\<forall>q. q \<noteq> HDL_INSTALL_JOURNAL_NEW \<longrightarrow> files (store w') q = files (store w) q)"
  then show ?thesis by (simp add: journal_of_def)
next
  assume "\<exists>rec. hdl_transaction_encode t (replicate HDL_TRANSACTION_RECORD_SIZE 0) = (0, rec) \<and>
      (\<forall>q. q \<noteq> HDL_INSTALL_JOURNAL \<longrightarrow> q \<noteq> HDL_INSTALL_JOURNAL_NEW \<longrightarrow> files (store w') q = files (store w) q) \<and>
      (if r = 0 then files (store w') HDL_INSTALL_JOURNAL = Some rec \<and>
         files (store w') HDL_INSTALL_JOURNAL_NEW = None
       else files (store w') HDL_INSTALL_JOURNAL_NEW = Some rec \<and>
         (files (store w') HDL_INSTALL_JOURNAL = files (store w) HDL_INSTALL_JOURNAL \<or>
          files (store w') HDL_INSTALL_JOURNAL = None))"
  then show ?thesis
    using recorded_encoded [OF _ assms(3)] by (auto simp: journal_of_def split: if_splits)
qed

text \<open>
  What was saved is what is resumed.  After a save that succeeded, a later load of the
  journal from the unchanged files that succeeds gives the saved transaction, the texts in their
  normal form.
\<close>

theorem journal_roundtrip:
  assumes "file_store api files fds" and "journal_save api t w = (0, w')" and "transaction_sized t"
    and "files (store v) = files (store w')" and "journal_load api t0 v = (0, t', v')"
  shows "t' = normal_transaction t \<and> files (store v') = files (store w')"
proof -
  obtain rec where rec: "hdl_transaction_encode t (replicate HDL_TRANSACTION_RECORD_SIZE 0) = (0, rec)"
    and after: "files (store w') HDL_INSTALL_JOURNAL = Some rec" "files (store w') HDL_INSTALL_JOURNAL_NEW = None"
    using file_store.journal_save_effect [OF assms(1,2)] by auto
  show ?thesis
    using file_store.journal_load_effect [OF assms(1,5)] assms(4) after recorded_encoded [OF rec assms(3)]
    by simp
qed

text \<open>
  The gap of the scheme.  A save interrupted between removing the journal and moving the new record
  leaves the record in the second file only, where it is found.  The next save begins by emptying
  that file: interrupted there, it leaves no record at all.
\<close>

definition staged :: "u32 \<Rightarrow> hdl_transaction" where
  "staged stage = sample_transaction\<lparr>txn_stage := stage\<rparr>"

definition two_power_cuts :: "bool list" where
  "two_power_cuts = replicate 7 False @ [True, False, True]"

definition journal_device :: "bool list \<Rightarrow> byte list \<Rightarrow> memory file_world" where
  "journal_device faults rec = (fresh_memory faults 512)
    \<lparr>store := (store (fresh_memory faults 512))\<lparr>mem_files := [HDL_INSTALL_JOURNAL \<mapsto> rec]\<rparr>\<rparr>"

lemma staged_ok: "transaction_sized (staged stage)"
  and staged_valid: "stage \<in> {1, 2, 3} \<Longrightarrow> transaction_valid (staged stage)"
  by (auto simp: staged_def transaction_sized_def transaction_valid_def text_terminated_def
      sample_transaction_def take_Cons')

lemma save_cut_short:
  assumes "hdl_transaction_encode t (replicate 512 0) = (0, rec)" and "length rec = 512"
    and "mem_faults (store w) = [False, True]"
  shows "\<exists>w'. journal_save memory_platform t w = (- 5, w') \<and>
    mem_files (store w') = (mem_files (store w))(HDL_INSTALL_JOURNAL_NEW \<mapsto> [])"
proof -
  have "rec \<noteq> []" using assms(2) by auto
  then show ?thesis
    using assms by (simp add: journal_save_def write_whole_file_def calm_defs write_loop.simps [of _ _ _ rec])
qed

lemma save_cut_between:
  assumes "hdl_transaction_encode t (replicate 512 0) = (0, rec)" and "length rec = 512"
    and "fst (hdl_transaction_decode rec t) = 0"
  shows "\<exists>w'. journal_save memory_platform t (journal_device (replicate 7 False @ True # later) old) = (- 5, w') \<and>
    mem_files (store w') = [HDL_INSTALL_JOURNAL_NEW \<mapsto> rec] \<and> mem_faults (store w') = later"
proof -
  have rec: "rec \<noteq> []" using assms(2) by auto
  show ?thesis
    using assms rec
    by (simp add: journal_save_def write_whole_file_def read_exact_file_def read_and_close_def calm_defs
        write_loop.simps [of _ _ _ rec] write_loop.simps [of _ _ _ "[]"] read_loop.simps [of _ _ _ _ "[]"]
        read_loop.simps [of _ _ _ _ rec] journal_device_def fresh_memory_def eval_nat_numeral journal_move_def
        fileXioRemove_def fileXioRename_def mem_remove_def mem_rename_def)
qed

lemma staged_record:
  assumes "stage \<in> {1, 2, 3}"
  obtains rec where "hdl_transaction_encode (staged stage) (replicate 512 0) = (0, rec)"
    and "length rec = 512" and "recorded (Some rec) = Some (normal_transaction (staged stage))"
    and "fst (hdl_transaction_decode rec t) = 0"
proof -
  obtain rec where e: "hdl_transaction_encode (staged stage) (replicate 512 0) = (0, rec)"
      and d: "hdl_transaction_decode rec t = (0, normal_transaction (staged stage))"
    using encode_decodes [OF staged_valid [OF assms] staged_ok] by blast
  show thesis using that [OF e] recorded_encoded [OF e staged_ok] d by simp
qed

text \<open>
  Property C33: two interruptions lose the journal.  The first cuts a save between removing the old
  journal and moving the new record, and the record is still found; the second cuts the next save
  after it emptied the only file that held it, and nothing is found, although an installation with
  partitions on the disk is under way.
\<close>

theorem journal_lost_by_two_cuts:
  "\<exists>w0 w1 w2. journal_of (mem_files (store w0)) = Some (normal_transaction (staged STAGE_PLANNED)) \<and>
    journal_save memory_platform (staged STAGE_PARTITIONS_CREATED) w0 = (- 5, w1) \<and>
    journal_of (mem_files (store w1)) = Some (normal_transaction (staged STAGE_PARTITIONS_CREATED)) \<and>
    journal_save memory_platform (staged STAGE_COPYING) w1 = (- 5, w2) \<and>
    journal_of (mem_files (store w2)) = None"
proof -
  obtain r1 where r1: "recorded (Some r1) = Some (normal_transaction (staged 1))"
    using staged_record [of 1] by auto
  obtain r2 where r2: "hdl_transaction_encode (staged 2) (replicate 512 0) = (0, r2)" "length r2 = 512"
      "recorded (Some r2) = Some (normal_transaction (staged 2))" "fst (hdl_transaction_decode r2 (staged 2)) = 0"
    using staged_record [of 2 "staged 2"] by auto
  obtain r3 where r3: "hdl_transaction_encode (staged 3) (replicate 512 0) = (0, r3)" "length r3 = 512"
    using staged_record [of 3] by auto
  obtain w1 where w1: "journal_save memory_platform (staged 2)
      (journal_device (replicate 7 False @ True # [False, True]) r1) = (- 5, w1)"
      "mem_files (store w1) = [HDL_INSTALL_JOURNAL_NEW \<mapsto> r2]" "mem_faults (store w1) = [False, True]"
    using save_cut_between [OF r2(1,2,4)] by blast
  obtain w2 where w2: "journal_save memory_platform (staged 3) w1 = (- 5, w2)"
      "mem_files (store w2) = (mem_files (store w1))(HDL_INSTALL_JOURNAL_NEW \<mapsto> [])"
    using save_cut_short [OF r3 w1(3)] by blast
  have "journal_of (mem_files (store (journal_device faults r1))) = Some (normal_transaction (staged 1))" for faults
    using r1 by (simp add: journal_device_def journal_of_def)
  moreover have "journal_of (mem_files (store w1)) = Some (normal_transaction (staged 2))"
    using r2(3) w1(2) by (simp add: journal_of_def)
  moreover have "journal_of (mem_files (store w2)) = None"
    using w1(2) w2(2) by (simp add: journal_of_def recorded_def)
  ultimately show ?thesis using w1(1) w2(1) by blast
qed

section \<open>Witnesses\<close>

lemma calm_save:
  assumes "hdl_transaction_encode t (replicate 512 0) = (0, rec)" and "length rec = 512"
    and "fst (hdl_transaction_decode rec t) = 0"
  shows "\<exists>w'. journal_save memory_platform t (journal_device [] old) = (0, w') \<and>
    mem_files (store w') = [HDL_INSTALL_JOURNAL \<mapsto> rec] \<and> calm 512 w'"
proof -
  have rec: "rec \<noteq> []" using assms(2) by auto
  show ?thesis
    using assms rec
    by (simp add: journal_save_def write_whole_file_def read_exact_file_def read_and_close_def calm_defs
        write_loop.simps [of _ _ _ rec] write_loop.simps [of _ _ _ "[]"] read_loop.simps [of _ _ _ _ "[]"]
        read_loop.simps [of _ _ _ _ rec] journal_device_def fresh_memory_def calm_def journal_move_def
        fileXioRemove_def fileXioRename_def mem_remove_def mem_rename_def fun_upd_def fun_eq_iff)
qed

theorem journal_save_atomic_witness:
  "\<exists>w w'. recorded (mem_files (store w) HDL_INSTALL_JOURNAL) = Some (normal_transaction (staged 1)) \<and>
    journal_save memory_platform (staged 2) w = (- 5, w') \<and>
    journal_of (mem_files (store w')) \<in> {Some (normal_transaction (staged 1)), Some (normal_transaction (staged 2))}"
proof -
  obtain r1 where r1: "recorded (Some r1) = Some (normal_transaction (staged 1))"
    using staged_record [of 1] by auto
  obtain r2 where r2: "hdl_transaction_encode (staged 2) (replicate 512 0) = (0, r2)" "length r2 = 512"
      "recorded (Some r2) = Some (normal_transaction (staged 2))" "fst (hdl_transaction_decode r2 (staged 2)) = 0"
    using staged_record [of 2 "staged 2"] by auto
  define w where "w = journal_device (replicate 7 False @ True # []) r1"
  obtain w1 where w1: "journal_save memory_platform (staged 2) w = (- 5, w1)"
    using save_cut_between [OF r2(1,2,4), of "[]" r1] unfolding w_def by blast
  have w: "recorded (mem_files (store w) HDL_INSTALL_JOURNAL) = Some (normal_transaction (staged 1))"
    using r1 by (simp add: w_def journal_device_def)
  then show ?thesis
    using w1 journal_save_atomic [OF mem.file_store_axioms w1 staged_ok] by blast
qed

theorem journal_roundtrip_witness:
  "\<exists>w w' v' t'. journal_save memory_platform (staged 2) w = (0, w') \<and>
    journal_load memory_platform (staged 1) w' = (0, t', v') \<and> t' = normal_transaction (staged 2)"
proof -
  obtain r2 where r2: "hdl_transaction_encode (staged 2) (replicate 512 0) = (0, r2)" "length r2 = 512"
      "recorded (Some r2) = Some (normal_transaction (staged 2))" "fst (hdl_transaction_decode r2 (staged 2)) = 0"
    using staged_record [of 2 "staged 2"] by auto
  obtain w1 where w1: "journal_save memory_platform (staged 2) (journal_device [] r2) = (0, w1)"
      "mem_files (store w1) = [HDL_INSTALL_JOURNAL \<mapsto> r2]" "calm 512 w1"
    using calm_save [OF r2(1,2,4)] by blast
  obtain v where v: "read_exact_file memory_platform HDL_INSTALL_JOURNAL 512 w1 = (Inr r2, v)"
    using calm_read [of r2 w1 HDL_INSTALL_JOURNAL] r2(2) w1 by (cases "r2 = []") auto
  have "fst (hdl_transaction_decode r2 (staged 1)) = 0"
    using r2(4) decode_code_eq [of r2 "staged 1" "staged 2"] by simp
  then have load: "journal_load memory_platform (staged 1) w1 = (0, snd (hdl_transaction_decode r2 (staged 1)), v)"
    by (simp add: journal_load_def v case_prod_unfold Let_def)
  show ?thesis
    using w1(1) load journal_roundtrip [OF mem.file_store_axioms w1(1) staged_ok refl load] by blast
qed

end
