(* ===== verification/HdlCatalog.thy ===== *)
theory HdlCatalog
  imports PadInput HdlPartition
begin

text \<open>
  The raw catalogue of APA partitions: \<open>src/hdl_tools/catalog.inc\<close>.  The walk along the partition
  chain counts used and free sectors, looks for a target name and collects the HDL games; the
  admission check before an installation or removal is built on it.  The array of games is a list
  with the capacity that was allocated for it; results handed back through pointers are given
  together with the code and mean something only when it is 0.  The lemmas show that the walk only
  reads, ends after at most 16384 nodes, and that an accepted chain is linked both ways and counted
  exactly.
\<close>

abbreviation (input) HDL_APA_TYPE :: u16 where "HDL_APA_TYPE \<equiv> 0x1337"
abbreviation (input) HDL_APA_FLAG_SUB :: u16 where "HDL_APA_FLAG_SUB \<equiv> 0x0001"
abbreviation (input) HDL_CHAIN_NODE_LIMIT :: nat where "HDL_CHAIN_NODE_LIMIT \<equiv> 16384"
abbreviation (input) HDL_METADATA_LBA_OFFSET :: u32 where "HDL_METADATA_LBA_OFFSET \<equiv> 0x0808"
abbreviation (input) HDL_METADATA_NOT_LOADED :: int where "HDL_METADATA_NOT_LOADED \<equiv> - 2147483648"
abbreviation (input) HDL_PARTITION_ID_MAX :: nat where "HDL_PARTITION_ID_MAX \<equiv> 33"

abbreviation (input) HDL_INSTALL_DISK_UNSAFE :: int where "HDL_INSTALL_DISK_UNSAFE \<equiv> - 563"
abbreviation (input) HDL_INSTALL_DISK_TOO_LARGE :: int where "HDL_INSTALL_DISK_TOO_LARGE \<equiv> - 564"
abbreviation (input) HDL_INSTALL_MEMORY_FAILED :: int where "HDL_INSTALL_MEMORY_FAILED \<equiv> - 573"
abbreviation (input) HDL_INSTALL_NO_GAMES :: int where "HDL_INSTALL_NO_GAMES \<equiv> - 574"
abbreviation (input) HDL_INSTALL_CHAIN_INVALID :: int where "HDL_INSTALL_CHAIN_INVALID \<equiv> - 577"

text \<open>The size of an entry of the array of games, in the layout of the target.\<close>

abbreviation (input) GAME_ENTRY_SIZE :: nat where "GAME_ENTRY_SIZE \<equiv> 336"

section \<open>The catalogue\<close>

record hdl_game_entry =
  game_id :: "byte list"
  game_metadata :: hdl_metadata_info
  game_metadata_sha256 :: "byte list"
  game_allocation_bytes :: u64
  game_main_lba :: u32
  game_apa_partition_count :: u32
  game_metadata_state :: int

record hdl_catalog =
  cat_games :: "hdl_game_entry list"
  cat_capacity :: u32
  cat_hdl_sub_count :: u32
  cat_expected_sub_count :: u32
  cat_total_sectors :: u32
  cat_used_sectors :: u64
  cat_free_sectors :: u64

definition empty_catalog :: hdl_catalog where
  "empty_catalog = \<lparr>cat_games = [], cat_capacity = 0, cat_hdl_sub_count = 0, cat_expected_sub_count = 0,
    cat_total_sectors = 0, cat_used_sectors = 0, cat_free_sectors = 0\<rparr>"

definition read_raw_now ::
    "'f platform \<Rightarrow> u32 \<Rightarrow> u32 \<Rightarrow> 'f session \<Rightarrow> int \<times> byte list \<times> 'f session" where
  "read_raw_now api lba sectors s =
    (let (r, out, h) = hdd_read_raw_sectors (fx_hdd api) lba sectors (disk_view (se_world s)) in
     (r, out, s\<lparr>se_world := after_disk (se_world s) h\<rparr>))"

definition heap_now :: "'f platform \<Rightarrow> nat \<Rightarrow> 'f session \<Rightarrow> bool \<times> 'f session" where
  "heap_now api n s = (let (ok, w) = heap_alloc api n (se_world s) in (ok, s\<lparr>se_world := w\<rparr>))"

section \<open>One node\<close>

definition valid_apa_node :: "byte list \<Rightarrow> u32 \<Rightarrow> u32 \<Rightarrow> bool" where
  "valid_apa_node header lba tot =
    (let len = read_le32 header APA_LENGTH_OFFSET; stop = ucast lba + ucast len :: u64 in
     if bytes_at APA_MAGIC_OFFSET 4 header \<noteq> apa_magic \<or> read_le32 header 0 \<noteq> apa_checksum header \<or>
       read_le32 header APA_START_OFFSET \<noteq> lba \<or> len = 0 \<or> stop > ucast tot \<or>
       read_le32 header APA_NSUB_OFFSET > APA_MAX_SUBS
     then False else True)"

definition apa_main_allocation :: "byte list \<Rightarrow> u64" where
  "apa_main_allocation header =
    foldl (\<lambda>sectors i. sectors + ucast (read_le32 header (APA_SUBS_OFFSET + i * APA_SUB_ENTRY_SIZE + 4)))
      (ucast (read_le32 header APA_LENGTH_OFFSET))
      [0 ..< unat (read_le32 header APA_NSUB_OFFSET)] * 512"

definition apa_id_matches :: "byte list \<Rightarrow> byte list \<Rightarrow> bool" where
  "apa_id_matches header target \<longleftrightarrow>
    target \<noteq> [] \<and> array_string (bytes_at APA_ID_OFFSET APA_ID_SIZE header @ [0]) = target"

definition catalog_grow :: "'f platform \<Rightarrow> hdl_catalog \<Rightarrow> 'f session \<Rightarrow> int \<times> hdl_catalog \<times> 'f session" where
  "catalog_grow api cat s =
    (let bigger = (if cat_capacity cat = 0 then 64 else cat_capacity cat * 2) in
     if bigger < cat_capacity cat then (HDL_INSTALL_MEMORY_FAILED, cat, s)
     else let (ok, s1) = heap_now api (unat bigger * GAME_ENTRY_SIZE) s in
       if \<not> ok then (HDL_INSTALL_MEMORY_FAILED, cat, s1)
       else (0, cat\<lparr>cat_capacity := bigger\<rparr>, s1))"

definition game_of_node :: "byte list \<Rightarrow> u32 \<Rightarrow> hdl_game_entry" where
  "game_of_node header lba =
    \<lparr>game_id = bytes_at APA_ID_OFFSET APA_ID_SIZE header @ [0], game_metadata = empty_metadata_info,
     game_metadata_sha256 = replicate 32 0, game_allocation_bytes = apa_main_allocation header,
     game_main_lba = lba, game_apa_partition_count = read_le32 header APA_NSUB_OFFSET + 1,
     game_metadata_state = HDL_METADATA_NOT_LOADED\<rparr>"

definition collect_game ::
    "'f platform \<Rightarrow> byte list \<Rightarrow> u32 \<Rightarrow> hdl_catalog \<Rightarrow> 'f session \<Rightarrow> int \<times> hdl_catalog \<times> 'f session" where
  "collect_game api header lba cat s =
    (let (r, cat, s) = (if length (cat_games cat) = unat (cat_capacity cat) then catalog_grow api cat s
         else (0, cat, s)) in
     if r < 0 then (r, cat, s)
     else (0, cat\<lparr>cat_games := cat_games cat @ [game_of_node header lba],
       cat_expected_sub_count := cat_expected_sub_count cat + read_le32 header APA_NSUB_OFFSET\<rparr>, s))"

text \<open>The sums, then the game if there is one to collect.\<close>

definition count_node :: "byte list \<Rightarrow> hdl_catalog \<Rightarrow> hdl_catalog option" where
  "count_node header cat =
    (let len = ucast (read_le32 header APA_LENGTH_OFFSET) :: u64 in
     if read_le16 header APA_TYPE_OFFSET = 0
     then if cat_free_sectors cat > - 1 - len then None
       else Some (cat\<lparr>cat_free_sectors := cat_free_sectors cat + len\<rparr>)
     else if cat_used_sectors cat > - 1 - len then None
     else Some (cat\<lparr>cat_used_sectors := cat_used_sectors cat + len\<rparr>))"

definition catalog_node ::
    "'f platform \<Rightarrow> bool \<Rightarrow> byte list \<Rightarrow> u32 \<Rightarrow> hdl_catalog \<Rightarrow> 'f session \<Rightarrow> int \<times> hdl_catalog \<times> 'f session" where
  "catalog_node api collect header lba cat s =
    (if read_le16 header APA_TYPE_OFFSET \<noteq> HDL_APA_TYPE then (0, cat, s)
     else if read_le16 header APA_FLAGS_OFFSET AND HDL_APA_FLAG_SUB \<noteq> 0
     then (0, cat\<lparr>cat_hdl_sub_count := cat_hdl_sub_count cat + 1\<rparr>, s)
     else if collect then collect_game api header lba cat s else (0, cat, s))"

section \<open>The walk\<close>

text \<open>
  \<open>target\<close> is the name looked for, if any; \<open>found\<close> whether it has been seen.  The number of nodes
  read bounds the walk.
\<close>

definition node_refused :: "byte list \<Rightarrow> u32 \<Rightarrow> u32 \<Rightarrow> u32 \<Rightarrow> bool" where
  "node_refused header current previous tot \<longleftrightarrow>
    \<not> valid_apa_node header current tot \<or> read_le32 header APA_PREV_OFFSET \<noteq> previous"

definition named_here :: "byte list option \<Rightarrow> byte list \<Rightarrow> bool" where
  "named_here target header \<longleftrightarrow> read_le16 header APA_TYPE_OFFSET \<noteq> 0 \<and>
    (case target of None \<Rightarrow> False | Some t \<Rightarrow> apa_id_matches header t)"

function walk_chain ::
    "'f platform \<Rightarrow> bool \<Rightarrow> byte list option \<Rightarrow> u32 \<Rightarrow> u32 \<Rightarrow> u32 \<Rightarrow> nat \<Rightarrow> hdl_catalog \<Rightarrow> bool \<Rightarrow>
      'f session \<Rightarrow> int \<times> hdl_catalog \<times> bool \<times> 'f session" where
  "walk_chain api collect target tot current previous nodes cat found s =
    (if current \<noteq> 0 then
       if nodes + 1 > HDL_CHAIN_NODE_LIMIT \<or> current \<ge> tot \<or> tot - current < 2
       then (HDL_INSTALL_CHAIN_INVALID, cat, found, s)
       else let (r, header, s1) = read_raw_now api current 2 s in
         if r < 0 \<or> node_refused header current previous tot
         then (HDL_INSTALL_CHAIN_INVALID, cat, found, s1)
         else (case count_node header cat of
             None \<Rightarrow> (HDL_INSTALL_CHAIN_INVALID, cat, found, s1)
           | Some counted \<Rightarrow>
               let found = (found \<or> named_here target header);
                   (r, cat, s2) = catalog_node api collect header current counted s1;
                   following = read_le32 header APA_NEXT_OFFSET in
               if r < 0 then (r, cat, found, s2)
               else if following = current \<or> following \<noteq> 0 \<and> following \<ge> tot
               then (HDL_INSTALL_CHAIN_INVALID, cat, found, s2)
               else walk_chain api collect target tot following current (nodes + 1) cat found s2)
     else (0, cat, found, s))"
  by pat_completeness auto

termination walk_chain
  by (relation "measure (\<lambda>(api, collect, target, tot, current, previous, nodes, cat, found, s).
    HDL_CHAIN_NODE_LIMIT + 1 - nodes)") auto

declare walk_chain.simps [simp del]

definition counts_exceed :: "hdl_catalog \<Rightarrow> u32 \<Rightarrow> bool" where
  "counts_exceed cat tot \<longleftrightarrow> cat_used_sectors cat > ucast tot \<or> cat_free_sectors cat > ucast tot \<or>
    cat_used_sectors cat + cat_free_sectors cat > ucast tot"

text \<open>The walk from the master's header.\<close>

definition scan_from_master ::
    "'f platform \<Rightarrow> bool \<Rightarrow> byte list option \<Rightarrow> byte list \<Rightarrow> u32 \<Rightarrow> 'f session \<Rightarrow>
      int \<times> hdl_catalog \<times> bool \<times> 'f session" where
  "scan_from_master api collect target master tot s =
    (let cat = empty_catalog\<lparr>cat_total_sectors := tot,
           cat_used_sectors := ucast (read_le32 master APA_LENGTH_OFFSET)\<rparr>;
         (r, cat, found, s1) = walk_chain api collect target tot (read_le32 master APA_NEXT_OFFSET) 0 0 cat False s in
     if r < 0 then (r, cat, found, s1)
     else if counts_exceed cat tot then (HDL_INSTALL_CHAIN_INVALID, cat, found, s1)
     else (if collect \<and> cat_games cat = [] then HDL_INSTALL_NO_GAMES else 0, cat, found, s1))"

definition scan_apa_catalog_for_target ::
    "'f platform \<Rightarrow> bool \<Rightarrow> byte list option \<Rightarrow> 'f session \<Rightarrow> int \<times> hdl_catalog \<times> bool \<times> 'f session" where
  "scan_apa_catalog_for_target api collect target s =
    (let (r, master, s1) = read_raw_now api 0 2 s in
     if r < 0 \<or> \<not> is_standard_apa_header master \<or> is_hybrid_gpt master
     then (HDL_INSTALL_DISK_UNSAFE, empty_catalog, False, s1)
     else let (v, out, s2) = devctl_now api HDIOC_TOTALSECTOR s1 in
       if v < 0 \<and> v > - 4096 then (HDL_INSTALL_DISK_UNSAFE, empty_catalog, False, s2)
       else if (of_int v :: u32) < 2 then (HDL_INSTALL_DISK_TOO_LARGE, empty_catalog, False, s2)
       else scan_from_master api collect target master (of_int v) s2)"

definition scan_apa_catalog :: "'f platform \<Rightarrow> bool \<Rightarrow> 'f session \<Rightarrow> int \<times> hdl_catalog \<times> 'f session" where
  "scan_apa_catalog api collect s =
    (let (r, cat, found, s1) = scan_apa_catalog_for_target api collect None s in (r, cat, s1))"

text \<open>The admission check: whether the target was found, the largest partition and the free sectors.\<close>

definition recheck_disk_target ::
    "'f platform \<Rightarrow> byte list option \<Rightarrow> 'f session \<Rightarrow> int \<times> bool \<times> u32 \<times> u32 \<times> 'f session" where
  "recheck_disk_target api target s =
    (let (status, out, s1) = devctl_now api HDIOC_STATUS s in
     if status \<noteq> 0 then (HDL_INSTALL_DISK_UNSAFE, False, 0, 0, s1)
     else let (r, cat, found, s2) = scan_apa_catalog_for_target api False target s1 in
       if r < 0 then (r, False, 0, 0, s2)
       else let (maximum, out, s3) = devctl_now api HDIOC_MAXSECTOR s2 in
         if maximum \<le> 0 then (HDL_INSTALL_DISK_UNSAFE, False, 0, 0, s3)
         else (0, found, of_int maximum,
           if cat_free_sectors cat > 0xFFFFFFFF then 0xFFFFFFFF else ucast (cat_free_sectors cat), s3))"

definition recheck_disk :: "'f platform \<Rightarrow> 'f session \<Rightarrow> int \<times> u32 \<times> u32 \<times> 'f session" where
  "recheck_disk api s = (let (r, found, maximum, free_sectors, s1) = recheck_disk_target api None s in
     (r, maximum, free_sectors, s1))"

section \<open>The metadata of a game\<close>

definition load_game_metadata ::
    "'f platform \<Rightarrow> u32 \<Rightarrow> hdl_game_entry \<Rightarrow> 'f session \<Rightarrow> int \<times> hdl_game_entry \<times> 'f session" where
  "load_game_metadata api tot game s =
    (if game_metadata_state game \<noteq> HDL_METADATA_NOT_LOADED then (game_metadata_state game, game, s)
     else let lba = game_main_lba game + HDL_METADATA_LBA_OFFSET in
       if game_main_lba game > - 1 - HDL_METADATA_LBA_OFFSET \<or> lba \<ge> tot \<or> tot - lba < 2
       then (HDL_INSTALL_CHAIN_INVALID, game\<lparr>game_metadata_state := HDL_INSTALL_CHAIN_INVALID\<rparr>, s)
       else let (r, metadata, s1) = read_raw_now api lba 2 s;
                (result, game) = (if r = 0
                  then (fst (hdl_metadata_parse metadata), game\<lparr>game_metadata_sha256 := sha256_buffer metadata,
                    game_metadata := snd (hdl_metadata_parse metadata)\<rparr>)
                  else (r, game)) in
         (result, game\<lparr>game_metadata_state := result\<rparr>, s1))"

section \<open>Pages\<close>

text \<open>The two browsers differ in the size of a page: eight images, or six games.\<close>

abbreviation (input) HDL_BROWSER_PAGE_SIZE :: u32 where "HDL_BROWSER_PAGE_SIZE \<equiv> 8"
abbreviation (input) HDL_GAME_BROWSER_PAGE_SIZE :: u32 where "HDL_GAME_BROWSER_PAGE_SIZE \<equiv> 6"

definition page_count :: "u32 \<Rightarrow> u32 \<Rightarrow> u32" where
  "page_count page_size n = (n + page_size - 1) div page_size"

definition page_shown :: "u32 \<Rightarrow> u32 \<Rightarrow> u32 \<Rightarrow> u32" where
  "page_shown page_size n start = (let shown = n - start in if shown > page_size then page_size else shown)"

definition page_move_selection :: "u32 \<Rightarrow> u32 \<Rightarrow> u32 \<Rightarrow> bool \<Rightarrow> u32" where
  "page_move_selection page_size selected n backwards =
    (let pages = page_count page_size n; page = selected div page_size; row = selected mod page_size in
     if pages \<le> 1 then selected
     else let page = (if backwards then (page + pages - 1) mod pages else (page + 1) mod pages);
              start = page * page_size; shown = page_shown page_size n start;
              row = (if row \<ge> shown then shown - 1 else row) in
       start + row)"

definition browse_keys :: "u32 \<Rightarrow> u32 \<Rightarrow> u32 \<Rightarrow> u32 \<Rightarrow> u32" where
  "browse_keys page_size n selected buttons =
    (let start = selected div page_size * page_size; shown = page_shown page_size n start;
         row = selected - start;
         s1 = (if pressed buttons PAD_UP then (if row = 0 then start + shown - 1 else selected - 1)
           else selected);
         s2 = (if pressed buttons PAD_DOWN then (if row + 1 \<ge> shown then start else s1 + 1) else s1);
         s3 = (if pressed buttons PAD_LEFT then page_move_selection page_size s2 n True else s2) in
     if pressed buttons PAD_RIGHT then page_move_selection page_size s3 n False else s3)"

text \<open>The metadata of the games on the page shown.\<close>

fun load_metadata_list ::
    "'f platform \<Rightarrow> u32 \<Rightarrow> hdl_game_entry list \<Rightarrow> 'f session \<Rightarrow> hdl_game_entry list \<times> 'f session" where
  "load_metadata_list api tot [] s = ([], s)"
| "load_metadata_list api tot (game # games) s =
    (let (r, game, s1) = load_game_metadata api tot game s;
         (games, s2) = load_metadata_list api tot games s1 in (game # games, s2))"

definition load_page_metadata ::
    "'f platform \<Rightarrow> hdl_catalog \<Rightarrow> u32 \<Rightarrow> 'f session \<Rightarrow> hdl_catalog \<times> 'f session" where
  "load_page_metadata api cat selected s =
    (let page_size = HDL_GAME_BROWSER_PAGE_SIZE; games = cat_games cat;
         start = selected div page_size * page_size;
         shown = page_shown page_size (of_nat (length games)) start;
         (page, s1) = load_metadata_list api (cat_total_sectors cat)
           (bytes_at (unat start) (unat shown) games) s in
     (cat\<lparr>cat_games := take (unat start) games @ page @ drop (unat start + unat shown) games\<rparr>, s1))"

text \<open>The browsers: the index of the entry chosen, \<open>None\<close> for none.\<close>

partial_function (option) select_image ::
    "'f platform \<Rightarrow> u32 \<Rightarrow> u32 \<Rightarrow> 'f session \<Rightarrow> (u32 option \<times> 'f session) option" where
  "select_image api n selected s = (case wait_for_press api s of
     None \<Rightarrow> None
   | Some (buttons, s1) \<Rightarrow>
       let selected = browse_keys HDL_BROWSER_PAGE_SIZE n selected buttons in
       if pressed buttons PAD_CROSS then Some (Some selected, s1)
       else if pressed buttons PAD_TRIANGLE then Some (None, s1)
       else select_image api n selected s1)"

partial_function (option) select_installed_game ::
    "'f platform \<Rightarrow> hdl_catalog \<Rightarrow> u32 \<Rightarrow> 'f session \<Rightarrow> (u32 option \<times> hdl_catalog \<times> 'f session) option" where
  "select_installed_game api cat selected s =
    (let (cat, s1) = load_page_metadata api cat selected s in
     case wait_for_press api s1 of
       None \<Rightarrow> None
     | Some (buttons, s2) \<Rightarrow>
         let selected = browse_keys HDL_GAME_BROWSER_PAGE_SIZE (of_nat (length (cat_games cat))) selected buttons in
         if pressed buttons PAD_CROSS then Some (Some selected, cat, s2)
         else if pressed buttons PAD_TRIANGLE then Some (None, cat, s2)
         else select_installed_game api cat selected s2)"

section \<open>Only looking\<close>

text \<open>Nothing but inquiries to the disk driver; the log and the files stay as they are.\<close>

fun inquiry :: "file_event \<Rightarrow> bool" where
  "inquiry (Disk ev) \<longleftrightarrow> asks (fst ev)"
| "inquiry e \<longleftrightarrow> False"

definition looks :: "'f platform \<Rightarrow> 'f session \<Rightarrow> 'f session \<Rightarrow> bool" where
  "looks api s t \<longleftrightarrow> extends inquiry (se_world s) (se_world t) \<and> careful api (se_world s) (se_world t) \<and>
    se_storage t = se_storage s \<and> se_log t = se_log s"

lemma looks_refl [simp, intro]: "looks api s s"
  by (simp add: looks_def)

lemma looks_trans [trans]: "looks api s t \<Longrightarrow> looks api t u \<Longrightarrow> looks api s u"
  by (auto simp: looks_def intro: extends_trans careful_trans)

lemma looks_still: "looks api s t \<Longrightarrow> still api s t"
proof -
  have "inquiry e \<Longrightarrow> undisturbing e" for e by (cases e) auto
  then show "looks api s t \<Longrightarrow> still api s t" by (auto simp: looks_def still_def intro: extends_mono)
qed

lemma looks_disk:
  assumes "issue_command (fx_hdd api) cmd (disk_view (se_world s)) = (r, out, h)" and "asks cmd"
  shows "looks api s (s\<lparr>se_world := after_disk (se_world s) h\<rparr>)"
    and "trace (after_disk (se_world s) h) = trace (se_world s) @ [Disk (cmd, r, out)]"
proof -
  have h: "events h = [(cmd, r, out)]" and dev: "devctl (fx_hdd api) cmd (store (se_world s)) = (r, out, device h)"
    using assms(1) by (auto simp: issue_command_def disk_view_def split: prod.splits)
  show "trace (after_disk (se_world s) h) = trace (se_world s) @ [Disk (cmd, r, out)]"
    using h by (simp add: after_disk_def)
  then have "extends inquiry (se_world s) (after_disk (se_world s) h)"
    using assms(2) by (auto intro: extends_event)
  moreover have "careful api (se_world s) (after_disk (se_world s) h)"
    by (rule careful_disk) (rule file_store.devctl_files [OF _ dev])
  ultimately show "looks api s (s\<lparr>se_world := after_disk (se_world s) h\<rparr>)" by (simp add: looks_def)
qed

lemma looks_devctl: "devctl_now api cmd s = (r, out, t) \<Longrightarrow> asks cmd \<Longrightarrow> looks api s t"
  by (auto simp: devctl_now_def split: prod.splits dest: looks_disk(1))

lemma looks_heap: "heap_now api n s = (ok, t) \<Longrightarrow> looks api s t"
  by (auto simp: heap_now_def looks_def split: prod.splits intro: careful_heap extends_same [OF trace_heap])

text \<open>The events between two moments of a session.\<close>

definition since :: "'f session \<Rightarrow> 'f session \<Rightarrow> file_event list" where
  "since s t = drop (length (trace (se_world s))) (trace (se_world t))"

lemma since_trans: "extends P (se_world s) (se_world t) \<Longrightarrow> extends Q (se_world t) (se_world u) \<Longrightarrow>
    since s u = since s t @ since t u"
  by (auto simp: extends_def since_def)

lemma since_looks: "looks api s t \<Longrightarrow> looks api t u \<Longrightarrow> since s u = since s t @ since t u"
  unfolding looks_def by (blast intro: since_trans)

definition read_in :: "file_event list \<Rightarrow> u32 \<Rightarrow> byte list \<Rightarrow> bool" where
  "read_in es lba header \<longleftrightarrow>
    (\<exists>r out. Disk (HDIOC_READSECTOR lba 2, r, out) \<in> set es \<and> 0 \<le> r \<and> header = fill_buffer 1024 out)"

lemma read_in_append [simp]: "read_in (es @ fs) lba h \<longleftrightarrow> read_in es lba h \<or> read_in fs lba h"
  by (auto simp: read_in_def)

lemma looks_read:
  assumes "read_raw_now api lba 2 s = (r, header, t)"
  shows "looks api s t" and "0 \<le> r \<Longrightarrow> read_in (since s t) lba header"
proof -
  obtain out h where i: "issue_command (fx_hdd api) (HDIOC_READSECTOR lba 2) (disk_view (se_world s)) = (r, out, h)"
    and t: "header = fill_buffer 1024 out" "t = s\<lparr>se_world := after_disk (se_world s) h\<rparr>"
    using assms by (auto simp: read_raw_now_def hdd_read_raw_sectors_def split: prod.splits)
  note l = looks_disk [OF i]
  show "looks api s t" using l(1) t(2) by simp
  show "0 \<le> r \<Longrightarrow> read_in (since s t) lba header" using l(2) t by (auto simp: since_def read_in_def)
qed

section \<open>Accepted chains\<close>

text \<open>
  The nodes of a chain in order, each with its sector: every header is consistent, stands at its own
  sector, points back to the one before and forward to the one after; the last points to the master.
\<close>

fun linked :: "u32 \<Rightarrow> u32 \<Rightarrow> u32 \<Rightarrow> (u32 \<times> byte list) list \<Rightarrow> bool" where
  "linked tot previous current [] \<longleftrightarrow> current = 0"
| "linked tot previous current ((lba, header) # nodes) \<longleftrightarrow> current \<noteq> 0 \<and> lba = current \<and>
    \<not> node_refused header current previous tot \<and> linked tot current (read_le32 header APA_NEXT_OFFSET) nodes"

definition unused_node :: "byte list \<Rightarrow> bool" where
  "unused_node header \<longleftrightarrow> read_le16 header APA_TYPE_OFFSET = 0"

definition main_game :: "byte list \<Rightarrow> bool" where
  "main_game header \<longleftrightarrow> read_le16 header APA_TYPE_OFFSET = HDL_APA_TYPE \<and>
    read_le16 header APA_FLAGS_OFFSET AND HDL_APA_FLAG_SUB = 0"

definition sectors_of :: "(byte list \<Rightarrow> bool) \<Rightarrow> (u32 \<times> byte list) list \<Rightarrow> nat" where
  "sectors_of P nodes = (\<Sum>(lba, header) \<leftarrow> nodes. if P header then unat (read_le32 header APA_LENGTH_OFFSET) else 0)"

lemma sectors_of_simps [simp]: "sectors_of P [] = 0"
  "sectors_of P ((lba, h) # nodes) = (if P h then unat (read_le32 h APA_LENGTH_OFFSET) else 0) + sectors_of P nodes"
  by (simp_all add: sectors_of_def)

lemma unat_grown:
  fixes a :: u64 and b :: u32
  assumes "\<not> a > - 1 - ucast b"
  shows "unat (a + ucast b) = unat a + unat b"
proof -
  have b: "unat b < 2 ^ 32" using unsigned_less [of b, where 'a = nat] by simp
  have "unat (- 1 - (ucast b :: u64)) = unat (- 1 :: u64) - unat (ucast b :: u64)"
    by (rule unat_sub) simp
  then have "unat a + unat (ucast b :: u64) < 2 ^ 64"
    using assms b by (simp add: word_less_nat_alt unsigned_minus_1_eq_mask mask_eq_exp_minus_1)
  then show ?thesis by (simp add: unat_word_ariths)
qed

lemma count_node_sums:
  assumes "count_node header cat = Some cat'"
  shows "unat (cat_free_sectors cat') = unat (cat_free_sectors cat) + sectors_of unused_node [(lba, header)]"
    and "unat (cat_used_sectors cat') = unat (cat_used_sectors cat) + sectors_of (\<lambda>h. \<not> unused_node h) [(lba, header)]"
    and "cat_games cat' = cat_games cat"
  using assms by (auto simp: count_node_def Let_def unused_node_def unat_grown split: if_splits)

lemma catalog_grow_facts:
  "catalog_grow api cat s = (r, cat', t) \<Longrightarrow> looks api s t \<and> r \<le> 0 \<and> cat_games cat' = cat_games cat \<and>
    cat_free_sectors cat' = cat_free_sectors cat \<and> cat_used_sectors cat' = cat_used_sectors cat"
  by (auto simp: catalog_grow_def Let_def split: if_splits prod.splits dest: looks_heap)

lemma catalog_node_facts:
  assumes "catalog_node api collect header lba cat s = (r, cat', t)"
  shows "looks api s t" and "r \<le> 0" and "cat_free_sectors cat' = cat_free_sectors cat"
    and "cat_used_sectors cat' = cat_used_sectors cat"
    and "r = 0 \<Longrightarrow> cat_games cat' = cat_games cat @
      (if collect \<and> main_game header then [game_of_node header lba] else [])"
  using assms
  by (auto simp: catalog_node_def collect_game_def main_game_def split: if_splits prod.splits
      dest!: catalog_grow_facts)

text \<open>What an accepted chain says, and the sums it leads to.\<close>

definition chain_counted ::
    "bool \<Rightarrow> byte list option \<Rightarrow> u32 \<Rightarrow> u32 \<Rightarrow> u32 \<Rightarrow> (u32 \<times> byte list) list \<Rightarrow> hdl_catalog \<Rightarrow> bool \<Rightarrow>
      hdl_catalog \<Rightarrow> bool \<Rightarrow> bool" where
  "chain_counted collect target tot previous current nodes cat found cat' found' \<longleftrightarrow>
    linked tot previous current nodes \<and>
    found' = (found \<or> (\<exists>(lba, header) \<in> set nodes. named_here target header)) \<and>
    unat (cat_free_sectors cat') = unat (cat_free_sectors cat) + sectors_of unused_node nodes \<and>
    unat (cat_used_sectors cat') = unat (cat_used_sectors cat) + sectors_of (\<lambda>h. \<not> unused_node h) nodes \<and>
    cat_games cat' = cat_games cat @ (if collect then [game_of_node header lba. (lba, header) \<leftarrow> nodes, main_game header]
      else [])"

lemma walk_chain_facts:
  "walk_chain api collect target tot current previous nodes cat found s = (r, cat', found', t) \<Longrightarrow>
    looks api s t \<and> r \<le> 0 \<and> (r = 0 \<longrightarrow> (\<exists>ns. chain_counted collect target tot previous current ns cat found cat' found' \<and>
      (ns \<noteq> [] \<longrightarrow> nodes + length ns \<le> HDL_CHAIN_NODE_LIMIT) \<and> (\<forall>(lba, header) \<in> set ns. read_in (since s t) lba header)))"
proof (induction "HDL_CHAIN_NODE_LIMIT + 1 - nodes" arbitrary: current previous nodes cat found s rule: less_induct)
  case less
  obtain k header s1 where read: "read_raw_now api current 2 s = (k, header, s1)" by (metis prod_cases3)
  note s1 = looks_read [OF read]
  note run = less.prems [unfolded walk_chain.simps [of api collect target tot current] read prod.case Let_def]
  show ?case
  proof (cases "current = 0")
    case True
    then have "chain_counted collect target tot previous current [] cat found cat' found'"
      using run by (simp add: chain_counted_def)
    then show ?thesis using run True by (intro conjI impI exI [of _ "[]"]) auto
  next
    case False
    show ?thesis
    proof (cases "\<not> (nodes + 1 > HDL_CHAIN_NODE_LIMIT \<or> current \<ge> tot \<or> tot - current < 2) \<and>
        \<not> (k < 0 \<or> node_refused header current previous tot) \<and> count_node header cat \<noteq> None")
      case stop: False
      then show ?thesis using run False s1(1) by (auto split: if_splits option.splits)
    next
      case go: True
      then obtain counted where c: "count_node header cat = Some counted" by auto
      obtain m cat2 s2 where n: "catalog_node api collect header current counted s1 = (m, cat2, s2)"
        by (metis prod_cases3)
      note s2 = catalog_node_facts [OF n] and sums = count_node_sums [OF c]
      note s12 = looks_trans [OF s1(1) s2(1)]
      define following where "following = read_le32 header APA_NEXT_OFFSET"
      show ?thesis
      proof (cases "m < 0 \<or> following = current \<or> following \<noteq> 0 \<and> following \<ge> tot")
        case True
        then show ?thesis
          using run go False c n s12 s2(2) by (auto simp: following_def [symmetric] split: if_splits)
      next
        case False: False
        then have m: "m = 0" using s2(2) by simp
        have "walk_chain api collect target tot following current (nodes + 1) cat2
            (found \<or> named_here target header) s2 = (r, cat', found', t)"
          using run go False c n \<open>current \<noteq> 0\<close> unfolding following_def by (simp split: if_splits)
        moreover have "nodes < HDL_CHAIN_NODE_LIMIT" using go by simp
        then have "HDL_CHAIN_NODE_LIMIT + 1 - (nodes + 1) < HDL_CHAIN_NODE_LIMIT + 1 - nodes" by arith
        ultimately have rest: "looks api s2 t" "r \<le> 0"
          and later: "r = 0 \<Longrightarrow> \<exists>ns. chain_counted collect target tot current following ns cat2
            (found \<or> named_here target header) cat' found' \<and> (ns \<noteq> [] \<longrightarrow> nodes + 1 + length ns \<le> HDL_CHAIN_NODE_LIMIT) \<and>
            (\<forall>(lba, header) \<in> set ns. read_in (since s2 t) lba header)"
          using less.hyps by blast+
        have "\<exists>ns. chain_counted collect target tot previous current ns cat found cat' found' \<and>
            (ns \<noteq> [] \<longrightarrow> nodes + length ns \<le> HDL_CHAIN_NODE_LIMIT) \<and>
            (\<forall>(lba, header) \<in> set ns. read_in (since s t) lba header)" if "r = 0"
        proof -
          obtain ns where ns: "chain_counted collect target tot current following ns cat2
              (found \<or> named_here target header) cat' found'"
              "ns \<noteq> [] \<longrightarrow> nodes + 1 + length ns \<le> HDL_CHAIN_NODE_LIMIT"
              "\<forall>(lba, header) \<in> set ns. read_in (since s2 t) lba header" using later \<open>r = 0\<close> by blast
          have "chain_counted collect target tot previous current ((current, header) # ns) cat found cat' found'"
            using ns(1) go \<open>current \<noteq> 0\<close> s2(3,4) s2(5) [OF m]
              sums(1) [of current] sums(2) [of current] sums(3)
            by (auto simp: chain_counted_def following_def)
          moreover have "read_in (since s t) current header"
            using s1(2) go since_looks [OF s1(1) looks_trans [OF s2(1) rest(1)]] by simp
          moreover have "\<forall>(lba, header) \<in> set ns. read_in (since s t) lba header"
            using ns(3) since_looks [OF s12 rest(1)] by auto
          ultimately show ?thesis using ns(2) go by (intro exI [of _ "(current, header) # ns"]) (cases "ns = []"; auto)
        qed
        then show ?thesis using looks_trans [OF s12 rest(1)] rest(2) by blast
      qed
    qed
  qed
qed

definition answered :: "file_event list \<Rightarrow> hdd_command \<Rightarrow> int \<Rightarrow> bool" where
  "answered es cmd v \<longleftrightarrow> (\<exists>out. Disk (cmd, v, out) \<in> set es)"

lemma answered_append [simp]: "answered (es @ fs) cmd v \<longleftrightarrow> answered es cmd v \<or> answered fs cmd v"
  by (auto simp: answered_def)

lemma devctl_answered: "devctl_now api cmd s = (v, out, t) \<Longrightarrow> answered (since s t) cmd v"
proof -
  assume "devctl_now api cmd s = (v, out, t)"
  then obtain h where i: "issue_command (fx_hdd api) cmd (disk_view (se_world s)) = (v, out, h)"
    and t: "t = s\<lparr>se_world := after_disk (se_world s) h\<rparr>" by (auto simp: devctl_now_def split: prod.splits)
  have "events h = [(cmd, v, out)]" using i by (auto simp: issue_command_def disk_view_def split: prod.splits)
  then show ?thesis by (auto simp: t since_def after_disk_def answered_def)
qed

text \<open>A chain that was read in full, from a standard master, and its sums fit the disk.\<close>

definition chain_read :: "file_event list \<Rightarrow> u32 \<Rightarrow> (u32 \<times> byte list) list \<Rightarrow> bool" where
  "chain_read es tot nodes \<longleftrightarrow> (\<exists>master v. read_in es 0 master \<and> is_standard_apa_header master \<and>
    \<not> is_hybrid_gpt master \<and> answered es HDIOC_TOTALSECTOR v \<and> tot = of_int v \<and>
    linked tot 0 (read_le32 master APA_NEXT_OFFSET) nodes \<and> length nodes \<le> HDL_CHAIN_NODE_LIMIT \<and>
    (\<forall>(lba, header) \<in> set nodes. read_in es lba header) \<and>
    unat (read_le32 master APA_LENGTH_OFFSET) + sectors_of (\<lambda>h. \<not> unused_node h) nodes +
      sectors_of unused_node nodes \<le> unat tot)"

lemma chain_read_mono:
  assumes "chain_read es tot nodes" and "set es \<subseteq> set fs"
  shows "chain_read fs tot nodes"
proof -
  have r: "read_in es lba h \<Longrightarrow> read_in fs lba h" and a: "answered es cmd v \<Longrightarrow> answered fs cmd v" for lba h cmd v
    using assms(2) by (auto simp: read_in_def answered_def)
  have nodes: "\<forall>(lba, header) \<in> set nodes. read_in es lba header \<Longrightarrow>
      \<forall>(lba, header) \<in> set nodes. read_in fs lba header" using r by fast
  show ?thesis
    using assms(1) unfolding chain_read_def by (elim exE conjE) (intro exI conjI; (assumption | rule r a nodes; assumption))
qed

lemma counts_fit:
  assumes "\<not> counts_exceed cat tot"
  shows "unat (cat_used_sectors cat) + unat (cat_free_sectors cat) \<le> unat tot"
proof -
  have le: "unat (cat_used_sectors cat) \<le> unat tot" "unat (cat_free_sectors cat) \<le> unat tot"
      "unat (cat_used_sectors cat + cat_free_sectors cat) \<le> unat tot"
    using assms by (simp_all add: counts_exceed_def word_le_nat_alt not_less)
  have "unat tot < 2 ^ 32" using unsigned_less [of tot, where 'a = nat] by simp
  then have "unat (cat_used_sectors cat + cat_free_sectors cat) =
      unat (cat_used_sectors cat) + unat (cat_free_sectors cat)"
    using le by (simp add: unat_word_ariths)
  then show ?thesis using le(3) by simp
qed

lemma scan_from_master_facts:
  assumes "scan_from_master api collect target master tot s = (r, cat, found, t)"
  shows "looks api s t" and "r \<le> 0"
    and "r = 0 \<Longrightarrow> \<exists>nodes. linked tot 0 (read_le32 master APA_NEXT_OFFSET) nodes \<and>
      length nodes \<le> HDL_CHAIN_NODE_LIMIT \<and> (\<forall>(lba, header) \<in> set nodes. read_in (since s t) lba header) \<and>
      unat (read_le32 master APA_LENGTH_OFFSET) + sectors_of (\<lambda>h. \<not> unused_node h) nodes +
        sectors_of unused_node nodes \<le> unat tot \<and>
      found = (\<exists>(lba, header) \<in> set nodes. named_here target header) \<and>
      unat (cat_free_sectors cat) = sectors_of unused_node nodes \<and>
      (collect \<longrightarrow> cat_games cat = [game_of_node header lba. (lba, header) \<leftarrow> nodes, main_game header])"
proof -
  define cat0 where "cat0 = empty_catalog\<lparr>cat_total_sectors := tot,
    cat_used_sectors := ucast (read_le32 master APA_LENGTH_OFFSET)\<rparr>"
  obtain k cat1 f1 s1 where w: "walk_chain api collect target tot (read_le32 master APA_NEXT_OFFSET) 0 0 cat0 False s =
      (k, cat1, f1, s1)" by (metis prod_cases4)
  note facts = walk_chain_facts [OF w]
  note run = assms [unfolded scan_from_master_def cat0_def [symmetric] w Let_def prod.case]
  have l: "looks api s s1" "k \<le> 0" by (rule facts [THEN conjunct1], rule facts [THEN conjunct2, THEN conjunct1])
  show "looks api s t" "r \<le> 0" using run l by (auto split: if_splits)
  assume r: "r = 0"
  have done': "k = 0" "\<not> counts_exceed cat1 tot" "cat = cat1" "found = f1" "t = s1"
    using run l r by (auto split: if_splits)
  obtain ns where ns: "chain_counted collect target tot 0 (read_le32 master APA_NEXT_OFFSET) ns cat0 False cat1 f1"
      "ns \<noteq> [] \<longrightarrow> length ns \<le> HDL_CHAIN_NODE_LIMIT"
      "\<forall>(lba, header) \<in> set ns. read_in (since s t) lba header"
    using facts [THEN conjunct2, THEN conjunct2, rule_format, OF done'(1)] unfolding done'(5) add_0 by blast
  then have len: "length ns \<le> HDL_CHAIN_NODE_LIMIT" by (cases "ns = []") simp_all
  have sums: "unat (cat_free_sectors cat1) = sectors_of unused_node ns"
      "unat (cat_used_sectors cat1) = unat (read_le32 master APA_LENGTH_OFFSET) + sectors_of (\<lambda>h. \<not> unused_node h) ns"
    and facts': "linked tot 0 (read_le32 master APA_NEXT_OFFSET) ns"
      "found = (\<exists>(lba, header) \<in> set ns. named_here target header)"
      "collect \<Longrightarrow> cat_games cat1 = [game_of_node header lba. (lba, header) \<leftarrow> ns, main_game header]"
    using ns(1) done'(4) by (simp_all add: chain_counted_def cat0_def empty_catalog_def)
  show "\<exists>nodes. linked tot 0 (read_le32 master APA_NEXT_OFFSET) nodes \<and>
      length nodes \<le> HDL_CHAIN_NODE_LIMIT \<and> (\<forall>(lba, header) \<in> set nodes. read_in (since s t) lba header) \<and>
      unat (read_le32 master APA_LENGTH_OFFSET) + sectors_of (\<lambda>h. \<not> unused_node h) nodes +
        sectors_of unused_node nodes \<le> unat tot \<and>
      found = (\<exists>(lba, header) \<in> set nodes. named_here target header) \<and>
      unat (cat_free_sectors cat) = sectors_of unused_node nodes \<and>
      (collect \<longrightarrow> cat_games cat = [game_of_node header lba. (lba, header) \<leftarrow> nodes, main_game header])"
    using counts_fit [OF done'(2)] unfolding done'(3) sums
    by (intro exI [of _ ns] conjI len facts'(1,2) ns(3) refl impI facts'(3)) simp_all
qed

lemma scan_catalog_facts:
  assumes "scan_apa_catalog_for_target api collect target s = (r, cat, found, t)"
  shows "looks api s t" and "r \<le> 0"
    and "r = 0 \<Longrightarrow> \<exists>tot nodes. chain_read (since s t) tot nodes \<and>
      found = (\<exists>(lba, header) \<in> set nodes. named_here target header) \<and>
      unat (cat_free_sectors cat) = sectors_of unused_node nodes \<and>
      (collect \<longrightarrow> cat_games cat = [game_of_node header lba. (lba, header) \<leftarrow> nodes, main_game header])"
proof -
  obtain k master s1 where m: "read_raw_now api 0 2 s = (k, master, s1)" by (metis prod_cases3)
  obtain v out s2 where v: "devctl_now api HDIOC_TOTALSECTOR s1 = (v, out, s2)" by (metis prod_cases3)
  obtain q cat1 f1 s3 where w: "scan_from_master api collect target master (of_int v) s2 = (q, cat1, f1, s3)"
    by (metis prod_cases4)
  note run = assms [unfolded scan_apa_catalog_for_target_def m v prod.case Let_def w]
  note l1 = looks_read [OF m] and l2 = looks_devctl [OF v, simplified] and l3 = scan_from_master_facts [OF w]
  have l12: "looks api s s2" using l1(1) l2 by (auto intro: looks_trans)
  show "looks api s t" "r \<le> 0"
    using run l1(1) l12 looks_trans [OF l12 l3(1)] l3(2) by (auto split: if_splits)
  assume r: "r = 0"
  have ok: "0 \<le> k" "is_standard_apa_header master" "\<not> is_hybrid_gpt master" "q = 0" "cat = cat1" "found = f1" "t = s3"
    using run r by (auto split: if_splits)
  have es: "since s t = since s s1 @ since s1 s2 @ since s2 t"
    unfolding ok(7) since_looks [OF l1(1) looks_trans [OF l2 l3(1)]] since_looks [OF l2 l3(1)] ..
  have m0: "read_in (since s t) 0 master" and v0: "answered (since s t) HDIOC_TOTALSECTOR v"
    using l1(2) [OF ok(1)] devctl_answered [OF v] unfolding es read_in_append answered_append by blast+
  obtain nodes where n: "linked (of_int v) 0 (read_le32 master APA_NEXT_OFFSET) nodes"
      "length nodes \<le> HDL_CHAIN_NODE_LIMIT" "\<forall>(lba, header) \<in> set nodes. read_in (since s2 t) lba header"
      "unat (read_le32 master APA_LENGTH_OFFSET) + sectors_of (\<lambda>h. \<not> unused_node h) nodes +
        sectors_of unused_node nodes \<le> unat (of_int v :: u32)"
      "found = (\<exists>(lba, header) \<in> set nodes. named_here target header)"
      "unat (cat_free_sectors cat) = sectors_of unused_node nodes"
      "collect \<longrightarrow> cat_games cat = [game_of_node header lba. (lba, header) \<leftarrow> nodes, main_game header]"
    using l3(3) [OF ok(4)] unfolding ok(5-7) by blast
  have "\<forall>(lba, header) \<in> set nodes. read_in (since s t) lba header"
    using n(3) unfolding es read_in_append by blast
  then have "chain_read (since s t) (of_int v) nodes"
    unfolding chain_read_def
    by (intro exI [of _ master] exI [of _ v] conjI m0 v0 ok(2,3) refl n(1,2,4))
  then show "\<exists>tot nodes. chain_read (since s t) tot nodes \<and>
      found = (\<exists>(lba, header) \<in> set nodes. named_here target header) \<and>
      unat (cat_free_sectors cat) = sectors_of unused_node nodes \<and>
      (collect \<longrightarrow> cat_games cat = [game_of_node header lba. (lba, header) \<leftarrow> nodes, main_game header])"
    using n(5-7) by (intro exI [of _ "of_int v"] exI [of _ nodes] conjI)
qed

section \<open>Properties\<close>

lemma recheck_facts:
  assumes "recheck_disk_target api target s = (r, found, maximum, free_sectors, t)"
  shows "looks api s t \<and> r \<le> 0 \<and> (r = 0 \<longrightarrow>
    answered (since s t) HDIOC_STATUS 0 \<and>
    (\<exists>v > 0. answered (since s t) HDIOC_MAXSECTOR v \<and> maximum = of_int v) \<and>
    (\<exists>tot nodes. chain_read (since s t) tot nodes \<and>
      found = (\<exists>(lba, header) \<in> set nodes. named_here target header) \<and>
      unat free_sectors = min 0xFFFFFFFF (sectors_of unused_node nodes)))"
proof -
  obtain st out s1 where st: "devctl_now api HDIOC_STATUS s = (st, out, s1)" by (metis prod_cases3)
  obtain k cat f s2 where sc: "scan_apa_catalog_for_target api False target s1 = (k, cat, f, s2)" by (metis prod_cases4)
  obtain m out' s3 where m: "devctl_now api HDIOC_MAXSECTOR s2 = (m, out', s3)" by (metis prod_cases3)
  note run = assms [unfolded recheck_disk_target_def st sc m prod.case Let_def]
  note l1 = looks_devctl [OF st, simplified] and l2 = scan_catalog_facts [OF sc] and l3 = looks_devctl [OF m, simplified]
  note l12 = looks_trans [OF l1 l2(1)]
  have looked: "looks api s t" "r \<le> 0"
    using run l1 l12 looks_trans [OF l12 l3] l2(2) by (auto split: if_splits)
  show ?thesis
  proof (cases "r = 0")
    case True
    have ok: "st = 0" "k = 0" "0 < m" "found = f" "maximum = of_int m" "t = s3"
        "free_sectors = (if cat_free_sectors cat > 0xFFFFFFFF then 0xFFFFFFFF else ucast (cat_free_sectors cat))"
      using run True l2(2) by (auto split: if_splits)
    have es: "since s t = since s s1 @ since s1 s2 @ since s2 t"
      unfolding ok(6) since_looks [OF l1 looks_trans [OF l2(1) l3]] since_looks [OF l2(1) l3] ..
    obtain tot nodes where n: "chain_read (since s1 s2) tot nodes"
        "found = (\<exists>(lba, header) \<in> set nodes. named_here target header)"
        "unat (cat_free_sectors cat) = sectors_of unused_node nodes"
      using l2(3) [OF ok(2)] unfolding ok(4) by blast
    have "chain_read (since s t) tot nodes"
      by (rule chain_read_mono [OF n(1)]) (auto simp: es)
    moreover have "unat free_sectors = min 0xFFFFFFFF (sectors_of unused_node nodes)"
      using n(3) unfolding ok(7) by (cases "cat_free_sectors cat > 0xFFFFFFFF") (simp_all add: small_ucast word_less_nat_alt)
    moreover have "answered (since s t) HDIOC_STATUS 0" "answered (since s t) HDIOC_MAXSECTOR m"
      using devctl_answered [OF st] devctl_answered [OF m] 
      unfolding ok(1,6) es [unfolded ok(6)] answered_append by blast+
    ultimately show ?thesis using looked n(2) ok(3,5) by blast
  qed (use looked in simp)
qed

text \<open>
  Property C32: the admission check is truthful.  Whatever the driver answers, the check only asks and
  reads; it succeeds only if the driver reports a normal disk and the whole chain of partitions was
  read, from a standard master and linked both ways without a gap, with sums that fit the disk; then
  the target counts as present exactly if some used node carries its name, and the free sectors are
  exactly those of the unused nodes, cut to 32 bits.
\<close>

theorem recheck_disk_sound:
  assumes "recheck_disk_target api target s = (r, found, maximum, free_sectors, t)"
  shows "looks api s t \<and> r \<le> 0 \<and> (r = 0 \<longrightarrow>
    answered (since s t) HDIOC_STATUS 0 \<and>
    (\<exists>v > 0. answered (since s t) HDIOC_MAXSECTOR v \<and> maximum = of_int v) \<and>
    (\<exists>tot nodes. chain_read (since s t) tot nodes \<and>
      found = (\<exists>(lba, header) \<in> set nodes. named_here target header) \<and>
      unat free_sectors = min 0xFFFFFFFF (sectors_of unused_node nodes)))"
  by (rule recheck_facts [OF assms])

section \<open>Selections\<close>

lemma page_start:
  fixes n P page_size :: u32
  assumes "0 < page_size" and "unat n + unat page_size < 2 ^ 32" and "P < page_count page_size n"
  defines "start \<equiv> P * page_size"
  shows "unat start = unat P * unat page_size" and "unat start < unat n"
    and "0 < unat (page_shown page_size n start)"
    and "unat start + unat (page_shown page_size n start) \<le> unat n"
proof -
  have size: "0 < unat page_size" using assms(1) by (simp add: word_less_nat_alt)
  have "unat (n + page_size - 1) = unat n + unat page_size - 1"
  proof -
    have "unat (n + page_size) = unat n + unat page_size" using assms(2) by (simp add: unat_word_ariths)
    moreover have "1 \<le> n + page_size" using size calculation by (simp add: word_le_nat_alt)
    ultimately show ?thesis by (simp add: unat_sub)
  qed
  then have "unat P < (unat n + unat page_size - 1) div unat page_size"
    using assms(3) by (simp add: page_count_def word_less_nat_alt unat_div)
  then have "(unat P + 1) * unat page_size \<le> unat n + unat page_size - 1"
    using size by (metis Suc_eq_plus1 Suc_leI less_eq_div_iff_mult_less_eq)
  then have below: "unat P * unat page_size < unat n" using size by (simp add: algebra_simps)
  then have "unat P * unat page_size < 2 ^ 32" using assms(2) by simp
  then show eq: "unat start = unat P * unat page_size" by (simp add: start_def unat_word_ariths)
  then show "unat start < unat n" using below by simp
  then have rest: "unat (n - start) = unat n - unat start" by (simp add: unat_sub word_le_nat_alt)
  show "0 < unat (page_shown page_size n start)"
    using size rest \<open>unat start < unat n\<close> by (simp add: page_shown_def Let_def)
  show "unat start + unat (page_shown page_size n start) \<le> unat n"
    using rest \<open>unat start < unat n\<close> by (auto simp: page_shown_def Let_def word_less_nat_alt)
qed

lemma page_of_selection:
  fixes n selected page_size :: u32
  assumes "0 < page_size" and "unat n + unat page_size < 2 ^ 32" and "selected < n"
  shows "selected div page_size < page_count page_size n"
proof -
  have size: "0 < unat page_size" using assms(1) by (simp add: word_less_nat_alt)
  have "unat (n + page_size) = unat n + unat page_size" using assms(2) by (simp add: unat_word_ariths)
  moreover have "1 \<le> n + page_size" using size calculation by (simp add: word_le_nat_alt)
  ultimately have "unat (n + page_size - 1) = unat n - 1 + unat page_size"
    using assms(3) by (simp add: unat_sub word_less_nat_alt)
  moreover have "unat selected div unat page_size \<le> (unat n - 1) div unat page_size"
    using assms(3) by (intro div_le_mono) (simp add: word_less_nat_alt)
  ultimately show ?thesis using size by (simp add: page_count_def word_less_nat_alt unat_div div_add_self2)
qed

lemma page_move_in_range:
  assumes "0 < page_size" and "unat n + unat page_size < 2 ^ 32" and "selected < n"
  shows "page_move_selection page_size selected n backwards < n"
proof (cases "page_count page_size n \<le> 1")
  case True
  then show ?thesis using assms(3) by (simp add: page_move_selection_def)
next
  case False
  define pages where "pages = page_count page_size n"
  have pages: "0 < pages" using False by (simp add: pages_def word_less_nat_alt word_le_nat_alt)
  have ok: "P mod pages * page_size + (if selected mod page_size \<ge> page_shown page_size n (P mod pages * page_size)
      then page_shown page_size n (P mod pages * page_size) - 1 else selected mod page_size) < n" for P
  proof -
    define start where "start = P mod pages * page_size"
    define shown where "shown = page_shown page_size n start"
    define row where "row = (if selected mod page_size \<ge> shown then shown - 1 else selected mod page_size)"
    have "P mod pages < page_count page_size n"
      using pages by (simp add: pages_def [symmetric] word_less_nat_alt unat_mod)
    note p = page_start [OF assms(1,2) this, folded start_def, folded shown_def]
    have "unat (shown - 1) = unat shown - 1" using p(3) by (simp add: unat_sub word_le_nat_alt)
    then have "unat row < unat shown" using p(3) by (auto simp: row_def not_le word_less_nat_alt word_le_nat_alt)
    moreover from this have "unat (start + row) = unat start + unat row"
      using p(4) unsigned_less [of n, where 'a = nat] by (intro unat_add_lem [THEN iffD1]) simp
    ultimately have "start + row < n" using p(4) by (simp add: word_less_nat_alt)
    then show ?thesis unfolding row_def shown_def start_def .
  qed
  show ?thesis
    unfolding page_move_selection_def Let_def pages_def [symmetric] if_not_P [OF False [folded pages_def]]
    using ok by (cases backwards) (simp_all only: if_True if_False)
qed

text \<open>
  A browser never leaves its list.  Unless up and down are pressed in the same poll, the
  selection after any combination of buttons is the index of an entry, for both page sizes and lists
  of any length that fits the counter.
\<close>

theorem browse_in_range:
  assumes "page_size \<in> {HDL_BROWSER_PAGE_SIZE, HDL_GAME_BROWSER_PAGE_SIZE}" and "unat n + 8 < 2 ^ 32"
    and "selected < n" and "\<not> (pressed buttons PAD_UP \<and> pressed buttons PAD_DOWN)"
  shows "browse_keys page_size n selected buttons < n"
proof -
  have size: "0 < page_size" "unat n + unat page_size < 2 ^ 32" using assms(1,2) by auto
  define start where "start = selected div page_size * page_size"
  define shown where "shown = page_shown page_size n start"
  note p = page_start [OF size page_of_selection [OF size assms(3)], folded start_def, folded shown_def]
  define row where "row = selected - start"
  have le: "unat start \<le> unat selected" using p(1) by (simp add: unat_div)
  then have row: "unat row = unat selected - unat start" by (simp add: row_def unat_sub word_le_nat_alt)
  have up: "start + shown - 1 < n" "row \<noteq> 0 \<Longrightarrow> selected - 1 < n"
  proof -
    have "unat (start + shown) = unat start + unat shown"
      using p(4) unsigned_less [of n, where 'a = nat] by (intro unat_add_lem [THEN iffD1]) simp
    then have "unat (start + shown - 1) = unat start + unat shown - 1"
      using p(3) by (simp add: unat_sub word_le_nat_alt)
    then show "start + shown - 1 < n" using p(3,4) by (simp add: word_less_nat_alt)
    assume "row \<noteq> 0"
    then have "0 < unat row" by (simp add: unat_gt_0)
    then have "1 \<le> unat selected" using row by simp
    then have "unat (selected - 1) = unat selected - 1" by (simp add: unat_sub word_le_nat_alt)
    then show "selected - 1 < n" using assms(3) by (simp add: word_less_nat_alt)
  qed
  have down: "start < n" "\<not> row + 1 \<ge> shown \<Longrightarrow> selected + 1 < n"
  proof -
    show "start < n" using p(2) by (simp add: word_less_nat_alt)
    assume "\<not> row + 1 \<ge> shown"
    moreover have "unat (row + 1) = unat row + 1"
      using row assms(2,3) by (simp add: unat_word_ariths word_less_nat_alt)
    ultimately have "unat row + 1 < unat shown" by (simp add: word_le_nat_alt)
    then have "unat selected + 1 < unat n" using row le p(4) by simp
    moreover from this have "unat (selected + 1) = unat selected + 1"
      using assms(2) by (simp add: unat_word_ariths)
    ultimately show "selected + 1 < n" by (simp add: word_less_nat_alt)
  qed
  define s2 where "s2 = (if pressed buttons PAD_DOWN then (if row + 1 \<ge> shown then start
      else (if pressed buttons PAD_UP then (if row = 0 then start + shown - 1 else selected - 1) else selected) + 1)
    else (if pressed buttons PAD_UP then (if row = 0 then start + shown - 1 else selected - 1) else selected))"
  have "s2 < n" using up down assms(3,4) by (auto simp: s2_def)
  moreover have "browse_keys page_size n selected buttons =
      (let s3 = (if pressed buttons PAD_LEFT then page_move_selection page_size s2 n True else s2) in
       if pressed buttons PAD_RIGHT then page_move_selection page_size s3 n False else s3)"
    unfolding s2_def row_def shown_def start_def browse_keys_def Let_def ..
  ultimately show ?thesis using page_move_in_range [OF size] by (simp add: Let_def)
qed

section \<open>Witnesses\<close>

text \<open>A disk of 0x100000 sectors with a master and one game partition, \<open>PP.GAME\<close>.\<close>

definition sealed :: "byte list \<Rightarrow> byte list" where
  "sealed header = write_le32 0 (apa_checksum header) header"

definition catalog_master :: "byte list" where
  "catalog_master = sealed (write_le32 APA_LENGTH_OFFSET 0x40000 (write_le32 APA_NEXT_OFFSET 0x40000 blank_master))"

definition game_name :: "byte list" where "game_name = ascii ''PP.GAME''"

definition catalog_game :: "byte list" where
  "catalog_game = sealed (write_le16 APA_TYPE_OFFSET HDL_APA_TYPE (write_le32 APA_LENGTH_OFFSET 0x40000
    (write_le32 APA_START_OFFSET 0x40000 (blit APA_ID_OFFSET game_name (blit APA_MAGIC_OFFSET apa_magic
      (replicate APA_HEADER_SIZE 0))))))"

definition catalog_driver :: "'f hdd_driver" where
  "catalog_driver = \<lparr>devctl = (\<lambda>cmd m. case cmd of
       HDIOC_READSECTOR lba n \<Rightarrow> (0, if lba = 0 then catalog_master else catalog_game, m)
     | HDIOC_STATUS \<Rightarrow> (0, [], m) | HDIOC_TOTALSECTOR \<Rightarrow> (0x100000, [], m) | _ \<Rightarrow> (0x40000, [], m)),
     getstat_mbr = (\<lambda>m. (0, 0, 0x40000, m))\<rparr>"

definition catalog_platform :: "memory platform" where
  "catalog_platform = memory_platform\<lparr>fx_hdd := catalog_driver\<rparr>"

lemma length_catalog [simp]: "length catalog_master = 1024" "length catalog_game = 1024"
  by (simp_all add: catalog_master_def catalog_game_def sealed_def)

lemma sealed_sum: "4 \<le> length header \<Longrightarrow> read_le32 (sealed header) 0 = apa_checksum (sealed header)"
  unfolding sealed_def by (rule checksum_store_consistent)

lemma catalog_master_fields:
  "is_standard_apa_header catalog_master" "\<not> is_hybrid_gpt catalog_master"
  "read_le32 catalog_master APA_NEXT_OFFSET = 0x40000" "read_le32 catalog_master APA_LENGTH_OFFSET = 0x40000"
  using sealed_sum [of "write_le32 APA_LENGTH_OFFSET 0x40000 (write_le32 APA_NEXT_OFFSET 0x40000 blank_master)"]
  by (simp_all add: is_standard_iff is_hybrid_gpt_def catalog_master_def sealed_def blank_master_def writes_def
      buf_simps read_u8_def)

lemma read_zero16: "read_le16 (replicate 1024 0) 74 = 0"
  by (simp add: read_le16_def)

lemma catalog_game_fields:
  "valid_apa_node catalog_game 0x40000 0x100000" "read_le32 catalog_game APA_PREV_OFFSET = 0"
  "read_le32 catalog_game APA_NEXT_OFFSET = 0" "read_le16 catalog_game APA_TYPE_OFFSET = HDL_APA_TYPE"
  "read_le16 catalog_game APA_FLAGS_OFFSET = 0" "read_le32 catalog_game APA_LENGTH_OFFSET = 0x40000"
  using sealed_sum [of "write_le16 APA_TYPE_OFFSET HDL_APA_TYPE (write_le32 APA_LENGTH_OFFSET 0x40000
    (write_le32 APA_START_OFFSET 0x40000 (blit APA_ID_OFFSET game_name (blit APA_MAGIC_OFFSET apa_magic
      (replicate APA_HEADER_SIZE 0)))))"]
  by (simp_all add: valid_apa_node_def catalog_game_def sealed_def writes_def game_name_def ascii_def
      buf_simps read_zero32 read_zero16 Let_def)

lemma catalog_game_named: "named_here (Some game_name) catalog_game"
proof -
  have "bytes_at 16 32 catalog_game = bytes_at 16 32 (blit 16 game_name (blit 4 apa_magic (replicate 1024 0)))"
    by (simp add: catalog_game_def sealed_def writes_def bytes_at_blit_out)
  also have "\<dots> = game_name @ replicate 25 0"
    by (simp add: bytes_at_def blit_def game_name_def ascii_def)
  finally show ?thesis
    by (simp add: named_here_def catalog_game_fields apa_id_matches_def array_string_def game_name_def ascii_def)
qed

lemma catalog_calls:
  assumes "fx_hdd api = catalog_driver"
  shows "\<exists>t. read_raw_now api 0 2 s = (0, catalog_master, t)"
    and "lba \<noteq> 0 \<Longrightarrow> \<exists>t. read_raw_now api lba 2 s = (0, catalog_game, t)"
    and "\<exists>t. devctl_now api HDIOC_STATUS s = (0, [], t)"
    and "\<exists>t. devctl_now api HDIOC_TOTALSECTOR s = (0x100000, [], t)"
    and "\<exists>t. devctl_now api HDIOC_MAXSECTOR s = (0x40000, [], t)"
  by (simp_all add: read_raw_now_def hdd_read_raw_sectors_def devctl_now_def issue_command_def assms
      catalog_driver_def fill_buffer_full)

lemma catalog_recheck:
  assumes driver: "fx_hdd api = catalog_driver"
  shows "\<exists>t. recheck_disk_target api target s = (0, named_here target catalog_game, 0x40000, 0, t)"
proof -
  note calls = catalog_calls [OF driver]
  obtain s1 where s1: "devctl_now api HDIOC_STATUS s = (0, [], s1)" using calls(3) by blast
  obtain s2 where s2: "read_raw_now api 0 2 s1 = (0, catalog_master, s2)" using calls(1) by blast
  obtain s3 where s3: "devctl_now api HDIOC_TOTALSECTOR s2 = (0x100000, [], s3)" using calls(4) by blast
  obtain s4 where s4: "read_raw_now api 0x40000 2 s3 = (0, catalog_game, s4)"
    using calls(2) [of "0x40000" s3] by auto
  obtain s5 where s5: "devctl_now api HDIOC_MAXSECTOR s4 = (0x40000, [], s5)" using calls(5) by blast
  define cat0 where "cat0 = empty_catalog\<lparr>cat_total_sectors := 0x100000, cat_used_sectors := 0x40000\<rparr>"
  have "walk_chain api False target 0x100000 0x40000 0 0 cat0 False s3 =
      (0, cat0\<lparr>cat_used_sectors := 0x80000\<rparr>, named_here target catalog_game, s4)"
    by (simp add: walk_chain.simps [of _ _ _ _ "0x40000"] walk_chain.simps [of _ _ _ _ 0] s4 node_refused_def
        catalog_game_fields count_node_def catalog_node_def cat0_def empty_catalog_def)
  then have "scan_from_master api False target catalog_master 0x100000 s3 =
      (0, cat0\<lparr>cat_used_sectors := 0x80000\<rparr>, named_here target catalog_game, s4)"
    by (simp add: scan_from_master_def catalog_master_fields counts_exceed_def cat0_def empty_catalog_def)
  then show ?thesis
    by (simp add: recheck_disk_target_def scan_apa_catalog_for_target_def s1 s2 s3 s5 catalog_master_fields cat0_def
        empty_catalog_def)
qed

theorem recheck_disk_sound_witness:
  "\<exists>t tot nodes. recheck_disk_target catalog_platform (Some game_name) (sample_session 2 (fresh_memory [] 3)) =
      (0, True, 0x40000, 0, t) \<and> chain_read (since (sample_session 2 (fresh_memory [] 3)) t) tot nodes \<and>
    (\<exists>(lba, header) \<in> set nodes. named_here (Some game_name) header)"
proof -
  obtain t where t: "recheck_disk_target catalog_platform (Some game_name) (sample_session 2 (fresh_memory [] 3)) =
      (0, True, 0x40000, 0, t)" 
    using catalog_recheck [of catalog_platform "Some game_name"] catalog_game_named by (auto simp: catalog_platform_def)
  from recheck_disk_sound [OF t] show ?thesis using t by blast
qed

theorem browse_in_range_witness: "browse_keys HDL_BROWSER_PAGE_SIZE 9 8 (PAD_DOWN OR PAD_RIGHT) < 9"
  by (rule browse_in_range) (simp_all add: pressed_def)

end
