(* ===== verification/HdlSource.thy ===== *)
theory HdlSource
  imports HdlJournal HdlCatalog HdlIso "HOL-Library.List_Lexorder"
begin

text \<open>
  The source image of an HDL installation and the target's metadata: the rest of
  \<open>src/hdl_tools/source_ui.inc\<close>.  The probe of \<open>HdlIso\<close> is repeated here for a reader with a state,
  as the file on the USB device is one; a lemma shows that it gives the results of the probe of
  \<open>HdlIso\<close> on a reader that answers alike in every state.  The directory calls of the library are a
  parameter; they leave no event in the trace.  \<open>qsort\<close> is a stable sort by the bytes of the name.
\<close>

abbreviation (input) HDL_INSTALL_CANCELLED :: int where "HDL_INSTALL_CANCELLED \<equiv> - 560"
abbreviation (input) HDL_INSTALL_NO_IMAGES :: int where "HDL_INSTALL_NO_IMAGES \<equiv> - 561"
abbreviation (input) HDL_INSTALL_NO_SPACE :: int where "HDL_INSTALL_NO_SPACE \<equiv> - 565"
abbreviation (input) HDL_INSTALL_TARGET_EXISTS :: int where "HDL_INSTALL_TARGET_EXISTS \<equiv> - 566"
abbreviation (input) HDL_INSTALL_CREATE_FAILED :: int where "HDL_INSTALL_CREATE_FAILED \<equiv> - 567"
abbreviation (input) HDL_INSTALL_LAYOUT_MISMATCH :: int where "HDL_INSTALL_LAYOUT_MISMATCH \<equiv> - 568"
abbreviation (input) HDL_INSTALL_SOURCE_CHANGED :: int where "HDL_INSTALL_SOURCE_CHANGED \<equiv> - 569"
abbreviation (input) HDL_INSTALL_COPY_FAILED :: int where "HDL_INSTALL_COPY_FAILED \<equiv> - 570"
abbreviation (input) HDL_INSTALL_VERIFY_FAILED :: int where "HDL_INSTALL_VERIFY_FAILED \<equiv> - 571"
abbreviation (input) HDL_INSTALL_METADATA_FAILED :: int where "HDL_INSTALL_METADATA_FAILED \<equiv> - 572"
abbreviation (input) HDL_INSTALL_TARGET_CHANGED :: int where "HDL_INSTALL_TARGET_CHANGED \<equiv> - 575"
abbreviation (input) HDL_INSTALL_TARGET_BUSY :: int where "HDL_INSTALL_TARGET_BUSY \<equiv> - 576"

abbreviation (input) HDL_INSTALL_IO_BYTES :: nat where "HDL_INSTALL_IO_BYTES \<equiv> 65536"

section \<open>The image on the USB device\<close>

record hdl_file_source =
  src_fd :: int
  src_bytes :: u64

definition stat_bytes :: "file_stat \<Rightarrow> u64" where
  "stat_bytes st = push_bit 32 (ucast (st_hisize st)) OR ucast (st_size st)"

definition source_read ::
    "'f platform \<Rightarrow> hdl_file_source \<Rightarrow> u64 \<Rightarrow> nat \<Rightarrow> 'f file_world \<Rightarrow> (int + byte list) \<times> 'f file_world" where
  "source_read api src offset n w =
    (if offset > src_bytes src \<or> of_nat n > src_bytes src - offset then (Inl (- 1), w)
     else let (there, w1) = fileXioLseek api (src_fd src) (sint offset) FIO_SEEK_SET w in
       if there \<noteq> sint offset then (Inl (- 1), w1)
       else let (got, w2) = read_loop api (- 1) (src_fd src) n [] w1 in
         (case got of Inl e \<Rightarrow> (Inl (- 1), w2) | Inr data \<Rightarrow> (Inr data, w2)))"

text \<open>The code, and the source, of which a failure sets at most the descriptor.\<close>

definition open_source ::
    "'f platform \<Rightarrow> path \<Rightarrow> u64 \<Rightarrow> hdl_file_source \<Rightarrow> 'f file_world \<Rightarrow> int \<times> hdl_file_source \<times> 'f file_world" where
  "open_source api p expected src w =
    (let (r, st, w1) = fileXioGetStat api p w in
     if r < 0 \<or> stat_bytes st \<noteq> expected then (HDL_INSTALL_SOURCE_CHANGED, src, w1)
     else let (fd, w2) = fileXioOpen api p FIO_RDONLY w1 in
       if fd < 0 then (fd, src\<lparr>src_fd := fd\<rparr>, w2)
       else (0, \<lparr>src_fd = fd, src_bytes = expected\<rparr>, w2))"

text \<open>The fingerprint: the digest of the size, the first and the last 64 KiB.\<close>

definition size_prefix :: "u64 \<Rightarrow> byte list" where
  "size_prefix n = map (\<lambda>i. ucast (drop_bit (i * 8) n)) [0 ..< 8]"

definition source_fingerprint ::
    "'f platform \<Rightarrow> hdl_file_source \<Rightarrow> 'f file_world \<Rightarrow> (int + byte list) \<times> 'f file_world" where
  "source_fingerprint api src w =
    (let (ok, w1) = heap_alloc api HDL_INSTALL_IO_BYTES w in
     if \<not> ok then (Inl HDL_INSTALL_MEMORY_FAILED, w1)
     else let hash = sha256_update sha256_init (size_prefix (src_bytes src));
              amount = (if src_bytes src < 65536 then unat (src_bytes src) else HDL_INSTALL_IO_BYTES);
              (first, w2) = source_read api src 0 amount w1 in
       (case first of
          Inl e \<Rightarrow> (Inl HDL_INSTALL_SOURCE_CHANGED, w2)
        | Inr head \<Rightarrow>
            let hash = sha256_update hash head;
                tail_offset = (if src_bytes src > 65536 then src_bytes src - 65536 else 0);
                (last, w3) = source_read api src tail_offset amount w2 in
            (case last of
               Inl e \<Rightarrow> (Inl HDL_INSTALL_SOURCE_CHANGED, w3)
             | Inr tail \<Rightarrow> (Inr (sha256_final (sha256_update hash tail)), w3))))"

section \<open>The probe on a reader with a state\<close>

type_synonym 'w iso_reader = "u64 \<Rightarrow> nat \<Rightarrow> 'w \<Rightarrow> (int \<times> byte list) \<times> 'w"

definition read_source_on ::
    "'w iso_reader \<Rightarrow> u64 \<Rightarrow> u64 \<Rightarrow> nat \<Rightarrow> 'w \<Rightarrow> (int \<times> byte list) \<times> 'w" where
  "read_source_on rd image_bytes offset n w =
    (if offset > image_bytes \<or> of_nat n > image_bytes - offset then ((HDL_ISO_READ_FAILED, []), w)
     else let ((code, data), w1) = rd offset n w in
       if code \<noteq> 0 then ((HDL_ISO_READ_FAILED, []), w1) else ((0, data), w1))"

partial_function (option) find_system_cnf_on ::
    "'w iso_reader \<Rightarrow> u64 \<Rightarrow> u64 \<Rightarrow> u32 \<Rightarrow> u32 \<Rightarrow> 'w \<Rightarrow> ((int + u32 \<times> u32) \<times> 'w) option" where
  "find_system_cnf_on rd image_bytes directory_offset root_bytes consumed w =
    (if consumed < root_bytes
     then let available = min (unat (root_bytes - consumed)) HDL_ISO_SECTOR_SIZE;
              ((result, sector), w1) =
                read_source_on rd image_bytes (directory_offset + ucast consumed) HDL_ISO_SECTOR_SIZE w in
       if result < 0 then Some (Inl result, w1)
       else (case scan_records sector available 0 of
           Some outcome \<Rightarrow> Some (outcome, w1)
         | None \<Rightarrow> find_system_cnf_on rd image_bytes directory_offset root_bytes (consumed + 2048) w1)
     else Some (Inl HDL_ISO_SYSTEM_CNF_MISSING, w))"

text \<open>A source that is not read: what the checks of the volume and the root need of it is its size.\<close>

definition sized_source :: "u64 \<Rightarrow> hdl_iso_source" where
  "sized_source image_bytes = \<lparr>iso_read = (\<lambda>offset n. (- 1, [])), iso_image_bytes = image_bytes\<rparr>"

definition probe_file_on ::
    "'w iso_reader \<Rightarrow> u64 \<Rightarrow> byte list \<Rightarrow> hdl_iso_info \<Rightarrow> u32 \<Rightarrow> u32 \<Rightarrow> 'w \<Rightarrow> (int \<times> hdl_iso_info) \<times> 'w" where
  "probe_file_on rd image_bytes pvd info file_extent file_bytes w =
    (let read_bytes = (if file_bytes > ISO_SYSTEM_CNF_LIMIT then ISO_SYSTEM_CNF_LIMIT else file_bytes);
         ((result, system_cnf), w1) =
           read_source_on rd image_bytes (ucast file_extent * 2048) (unat read_bytes) w in
     if result < 0 then ((result, info), w1)
     else let (result, startup, disc_id) = parse_system_cnf system_cnf 0 in
       if result < 0
       then ((result, info\<lparr>hdl_iso_info.info_startup := startup, info_disc_id := disc_id\<rparr>), w1)
       else ((0, probed_info (sized_source image_bytes) pvd startup disc_id), w1))"

definition hdl_iso_probe_on ::
    "'w iso_reader \<Rightarrow> u64 \<Rightarrow> hdl_iso_info \<Rightarrow> 'w \<Rightarrow> ((int \<times> hdl_iso_info) \<times> 'w) option" where
  "hdl_iso_probe_on rd image_bytes info w =
    (if image_bytes < 18 * 2048 \<or> image_bytes mod 2048 \<noteq> 0 \<or> image_bytes div 2048 > 0xFFFFFFFF
     then Some ((HDL_ISO_IMAGE_SIZE_INVALID, info), w)
     else let info = empty_iso_info;
              ((result, pvd), w1) = read_source_on rd image_bytes (ISO_PVD_SECTOR * 2048) HDL_ISO_SECTOR_SIZE w in
       if result < 0 then Some ((result, info), w1)
       else if pvd_refused pvd \<or> volume_refused (sized_source image_bytes) pvd
       then Some ((HDL_ISO_INVALID_PVD, info), w1)
       else let root = drop 156 pvd in
         if root ! 0 < 34 \<or> root ! 32 \<noteq> 1 \<or> root ! 33 \<noteq> 0 \<or> root_refused (sized_source image_bytes) root
         then Some ((HDL_ISO_INVALID_ROOT, info), w1)
         else (case find_system_cnf_on rd image_bytes (ucast (read_le32 root 2) * 2048)
                (read_le32 root 10) 0 w1 of
             None \<Rightarrow> None
           | Some (Inl result, w2) \<Rightarrow> Some ((result, info), w2)
           | Some (Inr (file_extent, file_bytes), w2) \<Rightarrow>
               Some (probe_file_on rd image_bytes pvd info file_extent file_bytes w2)))"

text \<open>The file as such a reader.\<close>

definition file_reader :: "'f platform \<Rightarrow> hdl_file_source \<Rightarrow> 'f file_world iso_reader" where
  "file_reader api src offset n w = (case source_read api src offset n w of
     (Inl e, w1) \<Rightarrow> ((e, []), w1) | (Inr data, w1) \<Rightarrow> ((0, data), w1))"

definition source_identity_matches ::
    "'f platform \<Rightarrow> hdl_file_source \<Rightarrow> hdl_transaction \<Rightarrow> 'f file_world \<Rightarrow> (int \<times> 'f file_world) option" where
  "source_identity_matches api src t w =
    map_option (\<lambda>((result, info), w1).
      (if result < 0 \<or> info_requires_layer_break info \<or> info_image_bytes info \<noteq> txn_source_bytes t \<or>
         hdl_iso_info.info_startup info \<noteq> array_string (txn_startup t)
       then HDL_INSTALL_SOURCE_CHANGED else 0, w1))
    (hdl_iso_probe_on (file_reader api src) (src_bytes src) empty_iso_info w)"

section \<open>The target\<close>

definition target_path :: "string \<Rightarrow> byte list \<Rightarrow> nat \<Rightarrow> int \<times> path" where
  "target_path prefix target capacity =
    (let written = ascii prefix @ target in
     (if length written \<ge> capacity then - 1 else 0, print_into capacity written))"

definition read_target_metadata ::
    "'f platform \<Rightarrow> byte list \<Rightarrow> 'f file_world \<Rightarrow> (int + byte list) \<times> 'f file_world" where
  "read_target_metadata api target w =
    (let (fits, p) = target_path ''hdd0:'' target 64 in
     if fits < 0 then (Inl HDL_INSTALL_LAYOUT_MISMATCH, w)
     else let (fd, w1) = fileXioOpen api p FIO_RDONLY w in
       if fd < 0 then (Inl fd, w1)
       else let (there, w2) = fileXioLseek api fd 0x100000 FIO_SEEK_SET w1 in
         if there \<noteq> 0x100000
         then (Inl (if there < 0 then there else HDL_INSTALL_METADATA_FAILED), fileXioClose api fd w2)
         else let (got, w3) = read_loop api HDL_INSTALL_METADATA_FAILED fd HDL_METADATA_SIZE [] w2 in
           (got, fileXioClose api fd w3))"

definition metadata_magic :: "byte list \<Rightarrow> bool" where
  "metadata_magic metadata \<longleftrightarrow> metadata ! 0 = 0xed \<and> metadata ! 1 = 0xfe \<and> metadata ! 2 = 0xad \<and> metadata ! 3 = 0xde"

definition target_has_metadata :: "'f platform \<Rightarrow> byte list \<Rightarrow> 'f file_world \<Rightarrow> int \<times> 'f file_world" where
  "target_has_metadata api target w =
    (let (got, w1) = read_target_metadata api target w in
     (case got of Inl e \<Rightarrow> e | Inr metadata \<Rightarrow> if metadata_magic metadata then 1 else 0, w1))"

definition remove_incomplete_target :: "'f platform \<Rightarrow> byte list \<Rightarrow> 'f file_world \<Rightarrow> int \<times> 'f file_world" where
  "remove_incomplete_target api target w =
    (let (metadata_state, w1) = target_has_metadata api target w in
     if metadata_state > 0 then (HDL_INSTALL_TARGET_EXISTS, w1)
     else if metadata_state < 0 then (metadata_state, w1)
     else let (fits, p) = target_path ''hdd0:'' target 64 in
       if fits < 0 then (HDL_INSTALL_LAYOUT_MISMATCH, w1) else fileXioRemove api p w1)"

section \<open>The images on the device\<close>

record dir_entry =
  de_name :: "byte list"
  de_regular :: bool
  de_stat :: file_stat

record 'f directory_calls =
  d_open :: "path \<Rightarrow> 'f \<Rightarrow> int \<times> 'f"
  d_read :: "int \<Rightarrow> 'f \<Rightarrow> (int \<times> dir_entry) \<times> 'f"
  d_close :: "int \<Rightarrow> 'f \<Rightarrow> 'f"

record hdl_image_entry =
  img_name :: "byte list"
  img_path :: path
  img_bytes :: u64

abbreviation (input) IMAGE_ENTRY_SIZE :: nat where "IMAGE_ENTRY_SIZE \<equiv> 296"

definition iso_name :: "byte list \<Rightarrow> bool" where
  "iso_name fname = (let n = length fname in
     n > 4 \<and> fname ! (n - 4) = 0x2e \<and> (fname ! (n - 3) = 0x69 \<or> fname ! (n - 3) = 0x49) \<and>
     (fname ! (n - 2) = 0x73 \<or> fname ! (n - 2) = 0x53) \<and> (fname ! (n - 1) = 0x6f \<or> fname ! (n - 1) = 0x4f))"

text \<open>The array after making room for one more entry: its new capacity, unless the heap is exhausted.\<close>

definition image_room :: "'f platform \<Rightarrow> nat \<Rightarrow> nat \<Rightarrow> 'f file_world \<Rightarrow> nat option \<times> 'f file_world" where
  "image_room api used capacity w =
    (if used = capacity
     then let bigger = (if capacity < 1024 then capacity * 2 else capacity + 1024);
              (ok, w1) = heap_alloc api (bigger * IMAGE_ENTRY_SIZE) w in
       (if ok then Some bigger else None, w1)
     else (Some capacity, w))"

definition image_of_entry :: "dir_entry \<Rightarrow> hdl_image_entry list" where
  "image_of_entry entry =
    (if length (ascii ''mass:/'' @ de_name entry) \<ge> HDL_TRANSACTION_SOURCE_PATH_MAX then []
     else [\<lparr>img_name = print_into 128 (de_name entry), img_path = ascii ''mass:/'' @ de_name entry,
       img_bytes = stat_bytes (de_stat entry)\<rparr>])"

partial_function (option) scan_entries ::
    "'f platform \<Rightarrow> 'f directory_calls \<Rightarrow> int \<Rightarrow> nat \<Rightarrow> hdl_image_entry list \<Rightarrow> 'f file_world \<Rightarrow>
      (int \<times> hdl_image_entry list \<times> 'f file_world) option" where
  "scan_entries api dir fd capacity images w =
    (let ((result, entry), f) = d_read dir fd (store w); w1 = w\<lparr>store := f\<rparr> in
     if result \<le> 0 then Some (result, images, w1)
     else if \<not> de_regular entry \<or> \<not> iso_name (de_name entry)
     then scan_entries api dir fd capacity images w1
     else let (grown, w2) = image_room api (length images) capacity w1 in
       (case grown of
          None \<Rightarrow> Some (HDL_INSTALL_MEMORY_FAILED, images, w2)
        | Some capacity \<Rightarrow> scan_entries api dir fd capacity (images @ image_of_entry entry) w2))"

definition scan_mass_images ::
    "'f platform \<Rightarrow> 'f directory_calls \<Rightarrow> 'f file_world \<Rightarrow> ((int + hdl_image_entry list) \<times> 'f file_world) option" where
  "scan_mass_images api dir w =
    (let (ok, w1) = heap_alloc api (32 * IMAGE_ENTRY_SIZE) w in
     if \<not> ok then Some (Inl HDL_INSTALL_MEMORY_FAILED, w1)
     else let (fd, f) = d_open dir (ascii ''mass:/'') (store w1); w2 = w1\<lparr>store := f\<rparr> in
       if fd < 0 then Some (Inl fd, w2)
       else map_option (\<lambda>(result, images, w3).
         let w4 = w3\<lparr>store := d_close dir fd (store w3)\<rparr> in
         (if result < 0 then Inl result
          else if images = [] then Inl HDL_INSTALL_NO_IMAGES else Inr (sort_key img_name images), w4))
         (scan_entries api dir fd 32 [] w2))"

section \<open>The two probes agree\<close>

text \<open>A reader whose answers do not depend on its state, as long as the state is a good one.\<close>

definition answers_like :: "'w iso_reader \<Rightarrow> ('w \<Rightarrow> bool) \<Rightarrow> hdl_iso_source \<Rightarrow> bool" where
  "answers_like rd good src \<longleftrightarrow> (\<forall>w offset n. good w \<longrightarrow>
    fst (rd offset n w) = iso_read src offset n \<and> good (snd (rd offset n w)))"

lemma read_on_like:
  "answers_like rd good src \<Longrightarrow> good w \<Longrightarrow>
    fst (read_source_on rd (iso_image_bytes src) offset n w) = read_source src offset n \<and>
    good (snd (read_source_on rd (iso_image_bytes src) offset n w))"
  by (auto simp: read_source_on_def read_source_def answers_like_def split: prod.splits) (metis fst_conv snd_conv)+

lemma find_on_like:
  assumes "answers_like rd good src" and "good w"
    and "find_system_cnf_on rd (iso_image_bytes src) d root_bytes consumed w = Some out"
  shows "find_system_cnf_loop src d root_bytes consumed = Some (fst out) \<and> good (snd out)"
proof -
  have "answers_like rd good src \<longrightarrow> iso_image_bytes src = iso_image_bytes src \<longrightarrow> good w \<longrightarrow>
      find_system_cnf_loop src d root_bytes consumed = Some (fst out) \<and> good (snd out)"
  proof (rule find_system_cnf_on.raw_induct [OF _ assms(3), of "\<lambda>rd bytes d root_bytes consumed w out.
    answers_like rd good src \<longrightarrow> bytes = iso_image_bytes src \<longrightarrow> good w \<longrightarrow>
    find_system_cnf_loop src d root_bytes consumed = Some (fst out) \<and> good (snd out)"], intro impI)
  fix find rd bytes d root_bytes consumed w out
  assume ih: "\<And>rd bytes d root_bytes consumed w out. find rd bytes d root_bytes consumed w = Some out \<Longrightarrow>
      answers_like rd good src \<longrightarrow> bytes = iso_image_bytes src \<longrightarrow> good w \<longrightarrow>
      find_system_cnf_loop src d root_bytes consumed = Some (fst out) \<and> good (snd out)"
    and run: "(if consumed < root_bytes
     then let available = min (unat (root_bytes - consumed)) HDL_ISO_SECTOR_SIZE;
              ((result, sector), w1) =
                read_source_on rd bytes (d + ucast consumed) HDL_ISO_SECTOR_SIZE w in
       if result < 0 then Some (Inl result, w1)
       else (case scan_records sector available 0 of
           Some outcome \<Rightarrow> Some (outcome, w1)
         | None \<Rightarrow> find rd bytes d root_bytes (consumed + 2048) w1)
     else Some (Inl HDL_ISO_SYSTEM_CNF_MISSING, w)) = Some out"
    and like: "answers_like rd good src" and bytes: "bytes = iso_image_bytes src" and good: "good w"
  obtain result sector w1 where r: "read_source_on rd bytes (d + ucast consumed) 2048 w = ((result, sector), w1)"
    by (metis prod.exhaust)
  have same: "read_source src (d + ucast consumed) 2048 = (result, sector)" "good w1"
    using read_on_like [OF like good, of "d + ucast consumed" 2048] r bytes by simp_all
  show "find_system_cnf_loop src d root_bytes consumed = Some (fst out) \<and> good (snd out)"
    using run r same good ih [of rd bytes d root_bytes "consumed + 2048" w1 out] like bytes
    by (subst find_system_cnf_loop.simps) (auto simp: Let_def split: if_splits option.splits)
  qed
  then show ?thesis using assms(1,2) by simp
qed

lemma probe_on_like:
  assumes "answers_like rd good src" and "good w"
    and "hdl_iso_probe_on rd (iso_image_bytes src) info w = Some (out, w')"
  shows "hdl_iso_probe src info = Some out \<and> good w'"
proof -
  have sized: "volume_refused (sized_source (iso_image_bytes src)) = volume_refused src"
      "root_refused (sized_source (iso_image_bytes src)) = root_refused src"
      "probed_info (sized_source (iso_image_bytes src)) = probed_info src"
    by (simp_all add: fun_eq_iff volume_refused_def root_refused_def probed_info_def sized_source_def)
  obtain result pvd w1 where r: "read_source_on rd (iso_image_bytes src) (ISO_PVD_SECTOR * 2048) HDL_ISO_SECTOR_SIZE w =
      ((result, pvd), w1)" by (metis prod.exhaust)
  have same: "read_source src (ISO_PVD_SECTOR * 2048) HDL_ISO_SECTOR_SIZE = (result, pvd)" "good w1"
    using read_on_like [OF assms(1,2), of "ISO_PVD_SECTOR * 2048" HDL_ISO_SECTOR_SIZE] r by simp_all
  define root where "root = drop 156 pvd"
  define search where "search = find_system_cnf_on rd (iso_image_bytes src) (ucast (read_le32 root 2) * 2048)
    (read_le32 root 10) 0 w1"
  note run = assms(3) [unfolded hdl_iso_probe_on_def Let_def r prod.case sized root_def [symmetric] search_def [symmetric]]
  have filed: "probe_file src pvd i e n = o1 \<and> good v'"
    if "probe_file_on rd (iso_image_bytes src) pvd i e n v = (o1, v')" and "good v" for i e n v o1 v'
    using read_on_like [OF assms(1) that(2), of "ucast e * 2048" "unat (if n > 8192 then 8192 else n)"] that(1)
    by (auto simp: probe_file_on_def probe_file_def sized Let_def case_prod_unfold split: if_splits)
  show ?thesis
  proof (cases search)
    case None
    then show ?thesis using run same assms(2) by (auto simp: hdl_iso_probe_def Let_def root_def [symmetric] split: if_splits)
  next
    case (Some found)
    obtain o1 v where found: "found = (o1, v)" by fastforce
    then have "find_system_cnf src (read_le32 root 2) (read_le32 root 10) = Some o1" "good v"
      using find_on_like [OF assms(1) same(2) Some [unfolded search_def]] by (simp_all add: find_system_cnf_def)
    then show ?thesis
      using run same assms(2) Some found
      by (cases o1) (auto simp: hdl_iso_probe_def Let_def root_def [symmetric] split: if_splits dest: filed)
  qed
qed

section \<open>What every read keeps\<close>

definition keeps_good :: "'w iso_reader \<Rightarrow> ('w \<Rightarrow> bool) \<Rightarrow> bool" where
  "keeps_good rd good \<longleftrightarrow> (\<forall>w offset n. good w \<longrightarrow> good (snd (rd offset n w)))"

lemma read_on_good:
  "keeps_good rd good \<Longrightarrow> good w \<Longrightarrow> read_source_on rd bytes offset n w = (out, w') \<Longrightarrow> good w'"
  by (auto simp: read_source_on_def keeps_good_def split: if_splits prod.splits) (metis snd_conv)+

lemma find_on_good:
  assumes "find_system_cnf_on rd bytes d root_bytes consumed w = Some out" and "keeps_good rd good" and "good w"
  shows "good (snd out)"
proof -
  have "keeps_good rd good \<longrightarrow> good w \<longrightarrow> good (snd out)"
  proof (rule find_system_cnf_on.raw_induct [OF _ assms(1), of "\<lambda>rd bytes d root_bytes consumed w out.
      keeps_good rd good \<longrightarrow> good w \<longrightarrow> good (snd out)"], intro impI)
    fix find rd bytes d root_bytes consumed w out
    assume ih: "\<And>rd bytes d root_bytes consumed w out. find rd bytes d root_bytes consumed w = Some out \<Longrightarrow>
        keeps_good rd good \<longrightarrow> good w \<longrightarrow> good (snd out)"
      and run: "(if consumed < root_bytes
       then let available = min (unat (root_bytes - consumed)) HDL_ISO_SECTOR_SIZE;
                ((result, sector), w1) =
                  read_source_on rd bytes (d + ucast consumed) HDL_ISO_SECTOR_SIZE w in
         if result < 0 then Some (Inl result, w1)
         else (case scan_records sector available 0 of
             Some outcome \<Rightarrow> Some (outcome, w1)
           | None \<Rightarrow> find rd bytes d root_bytes (consumed + 2048) w1)
       else Some (Inl HDL_ISO_SYSTEM_CNF_MISSING, w)) = Some out"
      and good: "keeps_good rd good" "good w"
    obtain result sector w1 where r: "read_source_on rd bytes (d + ucast consumed) 2048 w = ((result, sector), w1)"
      by (metis prod.exhaust)
    note w1 = read_on_good [OF good r]
    show "good (snd out)"
      using run r w1 good ih [of rd bytes d root_bytes "consumed + 2048" w1 out]
      by (auto simp: Let_def split: if_splits option.splits)
  qed
  then show ?thesis using assms(2,3) by simp
qed

lemma probe_on_good:
  assumes "hdl_iso_probe_on rd bytes info w = Some (out, w')" and "keeps_good rd good" and "good w"
  shows "good w'"
proof -
  obtain result pvd w1 where r: "read_source_on rd bytes (ISO_PVD_SECTOR * 2048) HDL_ISO_SECTOR_SIZE w =
      ((result, pvd), w1)" by (metis prod.exhaust)
  have w1: "good w1" by (rule read_on_good [OF assms(2,3) r])
  define root where "root = drop 156 pvd"
  define search where "search = find_system_cnf_on rd bytes (ucast (read_le32 root 2) * 2048) (read_le32 root 10) 0 w1"
  note run = assms(1) [unfolded hdl_iso_probe_on_def Let_def r prod.case root_def [symmetric] search_def [symmetric]]
  have filed: "good v'" if "probe_file_on rd bytes pvd i e n v = (o1, v')" and "good v" for i e n v o1 v'
  proof -
    obtain q d v1 where "read_source_on rd bytes (ucast e * 2048) (unat (if n > 8192 then 8192 else n)) v = ((q, d), v1)"
      by (metis prod.exhaust)
    with read_on_good [OF assms(2) that(2) this] that(1) show ?thesis
      by (auto simp: probe_file_on_def Let_def split: if_splits prod.splits)
  qed
  show ?thesis
  proof (cases search)
    case None
    then show ?thesis using run w1 assms(3) by (auto split: if_splits)
  next
    case (Some found)
    have "good (snd found)" by (rule find_on_good [OF Some [unfolded search_def] assms(2) w1])
    then show ?thesis
      using run w1 assms(3) Some filed by (cases found; cases "fst found"; cases out) (auto split: if_splits)
  qed
qed

end
