(* ===== verification/HdlFastIo.thy ===== *)
theory HdlFastIo
  imports HdlSource
begin

text \<open>
  The payload path of the HDL installer on the EE side: \<open>src/hdl_tools/fast_io.inc\<close>.  A read of the
  source or the target is turned into one request to the streaming module where it can be; the
  pattern seek source, seek target, read source also moves the block to the disk, and the write that
  follows is only acknowledged.  The state of these wrappers and the other variables of the installer
  are a record around the session.  The clock is not part of the model: the latencies measured on the
  EE and the rate are left out, the counters of the module and their log lines are kept.  Tuning the
  size of the library's transfer buffer has no effect that is modelled.
\<close>

abbreviation (input) HDL_STREAM_IOP_STAGE_BYTES :: nat where "HDL_STREAM_IOP_STAGE_BYTES \<equiv> 65536"
abbreviation (input) INT_MIN :: int where "INT_MIN \<equiv> - 2147483648"

section \<open>State\<close>

record hdl_fast_io =
  fast_source_fd :: int
  fast_source_position :: u64
  fast_source_seek_value :: u64
  fast_source_total :: u64
  fast_target_bytes :: u64
  fast_position_valid :: bool
  fast_seek_pending :: bool
  fast_pump_mode :: bool
  fast_pump_ack :: bool
  fast_pump_ack_bytes :: u32
  fast_path_logged :: bool
  fast_copy_stats_logged :: bool
  fast_verify_stats_logged :: bool

record 'f installer =
  in_session :: "'f session"
  in_active_fd :: int
  in_fast :: hdl_fast_io
  in_guard_target :: "byte list"
  in_guard_active :: bool
  in_guard_checked :: bool
  in_guard_found :: bool
  in_guard_consumed :: bool
  in_pending_target :: "byte list"
  in_pending_valid :: bool
  in_pending_exists :: bool
  in_iso_path :: path

definition fast_reset :: hdl_fast_io where
  "fast_reset = \<lparr>fast_source_fd = - 1, fast_source_position = 0, fast_source_seek_value = 0,
    fast_source_total = 0, fast_target_bytes = 0, fast_position_valid = False, fast_seek_pending = False,
    fast_pump_mode = False, fast_pump_ack = False, fast_pump_ack_bytes = 0, fast_path_logged = False,
    fast_copy_stats_logged = False, fast_verify_stats_logged = False\<rparr>"

definition hdl_fast_io_reset :: "'f installer \<Rightarrow> 'f installer" where
  "hdl_fast_io_reset u = u\<lparr>in_fast := fast_reset\<rparr>"

abbreviation in_world :: "'f installer \<Rightarrow> 'f file_world" where
  "in_world u \<equiv> se_world (in_session u)"

definition on_session :: "('f session \<Rightarrow> 'a \<times> 'f session) \<Rightarrow> 'f installer \<Rightarrow> 'a \<times> 'f installer" where
  "on_session act u = (let (r, s) = act (in_session u) in (r, u\<lparr>in_session := s\<rparr>))"

definition on_world :: "('f file_world \<Rightarrow> 'a \<times> 'f file_world) \<Rightarrow> 'f installer \<Rightarrow> 'a \<times> 'f installer" where
  "on_world act = on_session (\<lambda>s. let (r, w) = act (se_world s) in (r, s\<lparr>se_world := w\<rparr>))"

definition in_log :: "format_item list \<Rightarrow> 'f installer \<Rightarrow> 'f installer" where
  "in_log items u = u\<lparr>in_session := log_items items (in_session u)\<rparr>"

definition on_fast :: "(hdl_fast_io \<Rightarrow> hdl_fast_io) \<Rightarrow> 'f installer \<Rightarrow> 'f installer" where
  "on_fast f u = u\<lparr>in_fast := f (in_fast u)\<rparr>"

definition no_ack :: "hdl_fast_io \<Rightarrow> hdl_fast_io" where
  "no_ack f = f\<lparr>fast_pump_ack := False, fast_pump_ack_bytes := 0\<rparr>"

section \<open>The counters of the streaming module\<close>

abbreviation (input) HDL_STREAM_IOP_LATENCY_BUCKETS :: nat where "HDL_STREAM_IOP_LATENCY_BUCKETS \<equiv> 24"
abbreviation (input) FAST_STATS_SIZE :: nat where "FAST_STATS_SIZE \<equiv> 684"

text \<open>A latency record: the samples, the maximum, and the logarithmic buckets.\<close>

record iop_latency =
  lat_samples :: u32
  lat_maximum_us :: u32
  lat_buckets :: "u32 list"

definition latency_at :: "byte list \<Rightarrow> nat \<Rightarrow> iop_latency" where
  "latency_at stats off = \<lparr>lat_samples = read_le32 stats off, lat_maximum_us = read_le32 stats (off + 4),
    lat_buckets = map (\<lambda>i. read_le32 stats (off + 8 + 4 * i)) [0 ..< HDL_STREAM_IOP_LATENCY_BUCKETS]\<rparr>"

fun percentile_bucket :: "u32 \<Rightarrow> u32 \<Rightarrow> nat \<Rightarrow> u32 list \<Rightarrow> u32" where
  "percentile_bucket threshold cumulative bucket [] = push_bit (HDL_STREAM_IOP_LATENCY_BUCKETS - 1) 1"
| "percentile_bucket threshold cumulative bucket (b # buckets) =
    (let cumulative = cumulative + b in
     if cumulative \<ge> threshold then push_bit bucket 1
     else percentile_bucket threshold cumulative (bucket + 1) buckets)"

definition hdl_fast_iop_latency_percentile :: "iop_latency \<Rightarrow> u32 \<Rightarrow> u32" where
  "hdl_fast_iop_latency_percentile stats percentile =
    (if lat_samples stats = 0 \<or> percentile = 0 \<or> percentile > 100 then 0
     else percentile_bucket ((lat_samples stats * percentile + 99) div 100) 0 0 (lat_buckets stats))"

definition hdl_fast_iop_latency_log :: "string \<Rightarrow> iop_latency \<Rightarrow> 'f installer \<Rightarrow> 'f installer" where
  "hdl_fast_iop_latency_log what stats u =
    (if lat_samples stats = 0 then u
     else in_log [Lit ''HDL IOP perf '', Lit what, Lit '' samples='', Uns (unat (lat_samples stats)),
       Lit '' p50<='', Uns (unat (hdl_fast_iop_latency_percentile stats 50)),
       Lit ''us p95<='', Uns (unat (hdl_fast_iop_latency_percentile stats 95)),
       Lit ''us p99<='', Uns (unat (hdl_fast_iop_latency_percentile stats 99)),
       Lit ''us max='', Uns (unat (lat_maximum_us stats)), Lit ''us''] u)"

definition log_snapshot :: "string \<Rightarrow> byte list \<Rightarrow> 'f installer \<Rightarrow> 'f installer" where
  "log_snapshot phase stats u =
    (let n = (\<lambda>i. Uns (unat (read_le32 stats (4 * i)))) in
     in_log [Lit ''HDL IOP traffic phase='', Lit phase, Lit '' direct-src-sectors='', n 10,
       Lit '' fallback-src-sectors='', n 11, Lit '' hdd-write-sectors='', n 12, Lit '' hdd-read-sectors='', n 13,
       Lit '' sif-dma-sectors='', n 14]
     (in_log [Lit ''HDL fast I/O snapshot phase='', Lit phase, Lit '' flags=0x'',
       PadHex 8 (unat (read_le32 stats 0)), Lit '' fragments='', n 1, Lit '' direct='', n 2, Lit '' fallback='', n 3,
       Lit '' prefetch-hit='', n 4, Lit '' miss='', n 5, Lit '' pump='', n 6, Lit '' sectors='', n 7,
       Lit '' src-dma='', n 8, Lit '' target-dma='', n 9] u))"

definition hdl_fast_io_log_stats :: "'f platform \<Rightarrow> int \<Rightarrow> bool \<Rightarrow> 'f installer \<Rightarrow> 'f installer" where
  "hdl_fast_io_log_stats api target_fd verify u =
    (let phase = (if verify then ''verify-final'' else ''copy-final'');
         logged = (if verify then fast_verify_stats_logged (in_fast u) else fast_copy_stats_logged (in_fast u)) in
     if target_fd < 0 \<or> logged then u
     else let ((result, out), u1) = on_world (\<lambda>w. case fileXioIoctl2 api target_fd HDL_STREAM_GET_FAST_STATS w of
              (r, out, w1) \<Rightarrow> ((r, out), w1)) u;
              stats = fill_buffer FAST_STATS_SIZE out in
       if result < 0
       then in_log [Lit ''HDL fast I/O stats unavailable phase='', Lit phase, Lit '' fd='', Dec target_fd,
         Lit '' result='', Dec result] u1
       else let u2 = log_snapshot phase stats u1;
                u3 = (if read_le32 stats 0 AND 0x00000004 \<noteq> 0
                  then fold (\<lambda>(what, i). hdl_fast_iop_latency_log what (latency_at stats (60 + 104 * i)))
                    [(''usb-direct-read'', 0), (''source-fallback-read'', 1), (''prefetch-consumer-wait'', 2),
                     (''hdd-write'', 3), (''hdd-read'', 4), (''sif-dma-completion'', 5)] u2
                  else u2) in
         on_fast (\<lambda>f. if verify then f\<lparr>fast_verify_stats_logged := True\<rparr>
           else f\<lparr>fast_copy_stats_logged := True\<rparr>) u3)"

section \<open>Seeking\<close>

definition hdl_fast_fileXioLseek64 ::
    "'f platform \<Rightarrow> int \<Rightarrow> int \<Rightarrow> seek_origin \<Rightarrow> 'f installer \<Rightarrow> int \<times> 'f installer" where
  "hdl_fast_fileXioLseek64 api fd offset whence u =
    (let (result, u1) = on_world (fileXioLseek api fd offset whence) u in
     if result < 0 then (result, u1)
     else let position = of_int result :: u64; u2 = on_fast no_ack u1 in
       if fd = in_active_fd u2
       then (result, on_fast (\<lambda>f. f\<lparr>fast_pump_mode := fast_seek_pending f \<and> fast_position_valid f \<and>
         fast_source_seek_value f = position, fast_seek_pending := False\<rparr>) u2)
       else (result, on_fast (\<lambda>f. f\<lparr>fast_source_fd := fd, fast_source_position := position,
         fast_position_valid := True, fast_seek_pending := True, fast_source_seek_value := position,
         fast_pump_mode := False\<rparr>) u2))"

definition hdl_fast_resolve_source_total :: "'f platform \<Rightarrow> int \<Rightarrow> 'f installer \<Rightarrow> int \<times> 'f installer" where
  "hdl_fast_resolve_source_total api source_fd u =
    (if fast_source_total (in_fast u) \<noteq> 0 then (0, u)
     else if source_fd < 0 \<or> \<not> fast_position_valid (in_fast u) then (HDL_INSTALL_COPY_FAILED, u)
     else let (stop, u1) = on_world (fileXioLseek api source_fd 0 FIO_SEEK_END) u in
       if stop \<le> 0 then (if stop < 0 then signed_take_bit 31 stop else HDL_INSTALL_COPY_FAILED, u1)
       else let position = sint (fast_source_position (in_fast u1));
                (restore, u2) = on_world (fileXioLseek api source_fd position FIO_SEEK_SET) u1 in
         if restore \<noteq> position
         then (if restore < 0 then signed_take_bit 31 restore else HDL_INSTALL_COPY_FAILED, u2)
         else (0, on_fast (\<lambda>f. f\<lparr>fast_source_total := of_int stop\<rparr>) u2))"

section \<open>Reading and writing\<close>

datatype dma_command = Source_to_ee | Pump_to_ee | Target_to_ee

text \<open>
  A request to the streaming module: \<open>INT_MIN\<close> if it does not fit the module's buffer or the address
  is not aligned.  \<open>offset\<close> is the place in the caller's buffer, whose start is aligned.  The bytes
  are those the module has put there, at most as many as asked for.
\<close>

definition dma_request :: "dma_command \<Rightarrow> int \<Rightarrow> nat \<Rightarrow> hdl_fast_io \<Rightarrow> ioctl2_request" where
  "dma_request command source_fd n f = (case command of
     Target_to_ee \<Rightarrow> HDL_STREAM_TARGET_TO_EE (of_nat n)
   | Source_to_ee \<Rightarrow> HDL_STREAM_SOURCE_TO_EE source_fd (of_nat n) (fast_source_position f) (fast_source_total f)
   | Pump_to_ee \<Rightarrow> HDL_STREAM_PUMP_TO_EE source_fd (of_nat n) (fast_source_position f) (fast_source_total f))"

definition dma_fits :: "int \<Rightarrow> nat \<Rightarrow> nat \<Rightarrow> bool" where
  "dma_fits active_fd offset n \<longleftrightarrow> \<not> (active_fd < 0 \<or> n = 0 \<or> n > HDL_STREAM_IOP_STAGE_BYTES \<or>
    n mod 512 \<noteq> 0 \<or> offset mod 64 \<noteq> 0)"

definition hdl_fast_dma_read ::
    "'f platform \<Rightarrow> dma_command \<Rightarrow> int \<Rightarrow> nat \<Rightarrow> nat \<Rightarrow> 'f installer \<Rightarrow> (int \<times> byte list) \<times> 'f installer" where
  "hdl_fast_dma_read api command source_fd offset n u =
    (if \<not> dma_fits (in_active_fd u) offset n then ((INT_MIN, []), u)
     else let (resolved, u1) = (if command = Target_to_ee then (0, u)
            else hdl_fast_resolve_source_total api source_fd u) in
       if resolved < 0 then ((resolved, []), u1)
       else on_world (\<lambda>w. case fileXioIoctl2 api (in_active_fd u1)
           (dma_request command source_fd n (in_fast u1)) w of
         (r, out, w1) \<Rightarrow> ((r, take (nat r) (fill_buffer n out)), w1)) u1)"

definition plain_read :: "'f platform \<Rightarrow> int \<Rightarrow> nat \<Rightarrow> 'f installer \<Rightarrow> (int + byte list) \<times> 'f installer" where
  "plain_read api fd n = on_world (fileXioRead api fd n)"

text \<open>The read through the library, after setting the descriptor to the position reached so far.\<close>

definition follows_source :: "int \<Rightarrow> 'f installer \<Rightarrow> bool" where
  "follows_source fd u \<longleftrightarrow> fd \<noteq> in_active_fd u \<and> fast_position_valid (in_fast u) \<and> fd = fast_source_fd (in_fast u)"

definition slow_read :: "'f platform \<Rightarrow> int \<Rightarrow> nat \<Rightarrow> 'f installer \<Rightarrow> (int + byte list) \<times> 'f installer" where
  "slow_read api fd n u =
    (let position = sint (fast_source_position (in_fast u));
         (there, u1) = (if follows_source fd u then on_world (fileXioLseek api fd position FIO_SEEK_SET) u
           else (position, u)) in
     if there \<noteq> position then (Inl (if there < 0 then signed_take_bit 31 there else HDL_INSTALL_COPY_FAILED), u1)
     else let (got, u2) = plain_read api fd n u1;
              u3 = (case got of
                  Inr data \<Rightarrow> if follows_source fd u2
                    then on_fast (\<lambda>f. f\<lparr>fast_source_position := fast_source_position f + of_nat (length data)\<rparr>) u2
                    else u2
                | Inl e \<Rightarrow> u2) in
       (got, on_fast (\<lambda>f. no_ack f\<lparr>fast_seek_pending := False\<rparr>) u3))"

definition fast_result :: "int \<Rightarrow> byte list \<Rightarrow> int + byte list" where
  "fast_result r data = (if r < 0 then Inl r else Inr data)"

definition after_target_read :: "'f platform \<Rightarrow> int \<Rightarrow> 'f installer \<Rightarrow> 'f installer" where
  "after_target_read api r u =
    (if r > 0
     then let u1 = on_fast (\<lambda>f. f\<lparr>fast_target_bytes := fast_target_bytes f + of_int r\<rparr>) u in
       if fast_source_total (in_fast u1) \<noteq> 0 \<and> fast_target_bytes (in_fast u1) \<ge> fast_source_total (in_fast u1)
       then hdl_fast_io_log_stats api (in_active_fd u1) True u1 else u1
     else u)"

definition after_source_read :: "dma_command \<Rightarrow> int \<Rightarrow> nat \<Rightarrow> 'f installer \<Rightarrow> 'f installer" where
  "after_source_read command r n u =
    (let u1 = on_fast (\<lambda>f. f\<lparr>fast_seek_pending := False, fast_source_position := fast_source_position f +
           (if r > 0 then of_int r else 0)\<rparr>) u in
     if r = int n \<and> command = Pump_to_ee
     then let u2 = on_fast (\<lambda>f. f\<lparr>fast_pump_ack := True, fast_pump_ack_bytes := of_nat n\<rparr>) u1 in
       if fast_path_logged (in_fast u2) then u2
       else on_fast (\<lambda>f. f\<lparr>fast_path_logged := True\<rparr>) (in_log
         [Lit ''HDL IOP fast pump active: double-buffered USB source -> ps2hdd + one IOP->EE SHA DMA, chunk='',
          Uns n] u2)
     else on_fast no_ack u1)"

definition hdl_fast_fileXioRead ::
    "'f platform \<Rightarrow> int \<Rightarrow> nat \<Rightarrow> nat \<Rightarrow> 'f installer \<Rightarrow> (int + byte list) \<times> 'f installer" where
  "hdl_fast_fileXioRead api fd offset n u =
    (if n = 0 then plain_read api fd n u
     else if fd = in_active_fd u
     then let u1 = on_fast (\<lambda>f. no_ack f\<lparr>fast_pump_mode := False\<rparr>) u;
              ((r, data), u2) = hdl_fast_dma_read api Target_to_ee (- 1) offset n u1 in
       if r \<noteq> INT_MIN then (fast_result r data, after_target_read api r u2) else slow_read api fd n u2
     else if in_active_fd u \<ge> 0 \<and> fast_position_valid (in_fast u) \<and> fd = fast_source_fd (in_fast u)
     then let command = (if fast_pump_mode (in_fast u) then Pump_to_ee else Source_to_ee);
              ((r, data), u1) = hdl_fast_dma_read api command fd offset n u in
       if r \<noteq> INT_MIN then (fast_result r data, after_source_read command r n u1) else slow_read api fd n u1
     else slow_read api fd n u)"

definition hdl_fast_fileXioWrite :: "'f platform \<Rightarrow> int \<Rightarrow> byte list \<Rightarrow> 'f installer \<Rightarrow> int \<times> 'f installer" where
  "hdl_fast_fileXioWrite api fd data u =
    (if fast_pump_ack (in_fast u)
     then let u1 = on_fast no_ack u in
       if fd = in_active_fd u \<and> length data > 0 \<and> of_nat (length data) = fast_pump_ack_bytes (in_fast u)
       then (int (length data),
         if fast_source_total (in_fast u1) \<noteq> 0 \<and> fast_source_position (in_fast u1) = fast_source_total (in_fast u1)
         then hdl_fast_io_log_stats api (in_active_fd u1) False u1 else u1)
       else (HDL_INSTALL_COPY_FAILED, u1)
     else on_world (fileXioWrite api fd data) u)"

end
