(* ===== verification/HdlInstaller.thy ===== *)
theory HdlInstaller
  imports HdlFastIo
begin

text \<open>
  The calls of the HDL installer as its transaction sees them: \<open>src/hdl_installer_ps2.c\<close>.  The
  wrappers guard the one creation of a target, destroy the metadata an earlier game may have left in
  the new partition, keep the descriptor of the open stream, and check the name of a target against
  the result of the admission walk.  The screens and the activity display are left out.
\<close>

section \<open>Titles\<close>

abbreviation (input) HDL_ISO_TITLE_MAX :: nat where "HDL_ISO_TITLE_MAX \<equiv> 161"
abbreviation (input) HDL_ISO_DISC_ID_MAX :: nat where "HDL_ISO_DISC_ID_MAX \<equiv> 12"

definition normalize_iso_identity :: "nat \<Rightarrow> byte list \<Rightarrow> byte list" where
  "normalize_iso_identity capacity s =
    take (capacity - 1) (filter (\<lambda>c. is_upper c \<or> is_digit c) (map to_upper s))"

definition iso_volume_title_is_identity :: "hdl_iso_info \<Rightarrow> bool" where
  "iso_volume_title_is_identity info =
    (if info_volume_title info = [] then True
     else let volume = normalize_iso_identity HDL_ISO_TITLE_MAX (info_volume_title info);
              disc = normalize_iso_identity HDL_ISO_DISC_ID_MAX (info_disc_id info);
              startup = normalize_iso_identity HDL_ISO_STARTUP_MAX (hdl_iso_info.info_startup info) in
       volume = [] \<or> volume = disc \<or> volume = startup)"

text \<open>The part of a path after the last slash, or else after the last colon.\<close>

definition after_last :: "byte \<Rightarrow> byte list \<Rightarrow> byte list" where
  "after_last c p = rev (takeWhile (\<lambda>d. d \<noteq> c) (rev p))"

definition path_base :: "path \<Rightarrow> byte list" where
  "path_base p = (if 0x2f \<in> set p then after_last 0x2f p else if 0x3a \<in> set p then after_last 0x3a p else p)"

definition file_title :: "path \<Rightarrow> byte list" where
  "file_title p =
    (let base = path_base p; stem = (if iso_name base then take (length base - 4) base else base) in
     map (\<lambda>c. if c < 0x20 \<or> c = 0x7f then 0x5f else c) (take (HDL_ISO_TITLE_MAX - 1)
       (rev (dropWhile (\<lambda>c. c = 0x20) (rev (dropWhile (\<lambda>c. c = 0x20) stem))))))"

definition replace_identity_volume_title :: "hdl_iso_info \<Rightarrow> 'f installer \<Rightarrow> hdl_iso_info \<times> 'f installer" where
  "replace_identity_volume_title info u =
    (if \<not> iso_volume_title_is_identity info \<or> in_iso_path u = [] \<or> file_title (in_iso_path u) = []
     then (info, u)
     else let title = file_title (in_iso_path u) in
       (info\<lparr>info_volume_title := title\<rparr>,
        in_log [Lit ''HDL title fallback from ISO filename: '', Str title] u))"

section \<open>A source and a target for a new installation\<close>

definition hdl_install_open_source ::
    "'f platform \<Rightarrow> path \<Rightarrow> u64 \<Rightarrow> hdl_file_source \<Rightarrow> 'f installer \<Rightarrow> (int \<times> hdl_file_source) \<times> 'f installer" where
  "hdl_install_open_source api p expected src u =
    (let ((r, src), u1) = on_world (\<lambda>w. case open_source api p expected src w of (r, src, w1) \<Rightarrow> ((r, src), w1)) u in
     ((r, src), u1\<lparr>in_iso_path := if r \<ge> 0 then print_into HDL_TRANSACTION_SOURCE_PATH_MAX p else []\<rparr>))"

definition hdl_install_iso_probe ::
    "'f platform \<Rightarrow> hdl_file_source \<Rightarrow> 'f installer \<Rightarrow> ((int \<times> hdl_iso_info) \<times> 'f installer) option" where
  "hdl_install_iso_probe api src u =
    map_option (\<lambda>((result, info), w).
      let u1 = u\<lparr>in_session := (in_session u)\<lparr>se_world := w\<rparr>\<rparr> in
      if result = 0 then let (info, u2) = replace_identity_volume_title info u1 in ((result, info), u2)
      else ((result, info), u1))
    (hdl_iso_probe_on (file_reader api src) (src_bytes src) empty_iso_info (in_world u))"

definition hdl_install_source_fingerprint ::
    "'f platform \<Rightarrow> hdl_file_source \<Rightarrow> 'f installer \<Rightarrow> (int + byte list) \<times> 'f installer" where
  "hdl_install_source_fingerprint api src = on_world (source_fingerprint api src)"

definition hdl_install_partition_id ::
    "byte list \<Rightarrow> byte list \<Rightarrow> 'f installer \<Rightarrow> (int \<times> byte list) \<times> 'f installer" where
  "hdl_install_partition_id disc_id title u =
    (let (result, destination) = hdl_partition_id (Some disc_id) (Some title) in
     ((result, destination), u\<lparr>in_pending_target := if result = 0 then destination else [],
       in_pending_valid := False, in_pending_exists := True\<rparr>))"

definition hdl_install_recheck_disk :: "'f platform \<Rightarrow> 'f installer \<Rightarrow> (int \<times> u32 \<times> u32) \<times> 'f installer" where
  "hdl_install_recheck_disk api u =
    (if in_pending_target u = []
     then on_session (\<lambda>s. case recheck_disk api s of (r, maximum, free_sectors, s1) \<Rightarrow>
       ((r, maximum, free_sectors), s1)) u
     else let ((result, found, maximum, free_sectors), u1) =
           on_session (\<lambda>s. case recheck_disk_target api (Some (in_pending_target u)) s of
             (r, found, maximum, free_sectors, s1) \<Rightarrow> ((r, found, maximum, free_sectors), s1)) u in
       ((result, maximum, free_sectors),
        if result = 0
        then in_log [Lit ''HDL combined planning target='', Str (in_pending_target u1), Lit '' collision='',
          Dec (if found then 1 else 0)] (u1\<lparr>in_pending_exists := found, in_pending_valid := True\<rparr>)
        else u1))"

text \<open>The cached answer is used once; without one the target counts as present.\<close>

definition hdl_cached_target_exists :: "byte list \<Rightarrow> 'f installer \<Rightarrow> bool \<times> 'f installer" where
  "hdl_cached_target_exists target u =
    (if \<not> in_pending_valid u \<or> target \<noteq> in_pending_target u
     then (True, in_log [Lit ''HDL cached target lookup unavailable target='', Str target] u)
     else let found = in_pending_exists u;
              u1 = in_log [Lit ''HDL cached target lookup target='', Str target, Lit '' collision='',
                Dec (if found then 1 else 0)] u in
       (found, u1\<lparr>in_pending_valid := False, in_pending_target := []\<rparr>))"

section \<open>The guard of a creation\<close>

definition hdl_transaction_guard_disarm :: "'f installer \<Rightarrow> 'f installer" where
  "hdl_transaction_guard_disarm u = u\<lparr>in_guard_target := [], in_guard_active := False,
    in_guard_checked := False, in_guard_found := True, in_guard_consumed := False\<rparr>"

definition hdl_transaction_guard_arm :: "byte list \<Rightarrow> 'f installer \<Rightarrow> 'f installer" where
  "hdl_transaction_guard_arm target u =
    (let u1 = hdl_transaction_guard_disarm u in
     if target = [] then u1
     else u1\<lparr>in_guard_target := print_into HDL_PARTITION_ID_MAX target, in_guard_active := True\<rparr>)"

definition hdl_transaction_recheck_disk :: "'f platform \<Rightarrow> 'f installer \<Rightarrow> (int \<times> u32 \<times> u32) \<times> 'f installer" where
  "hdl_transaction_recheck_disk api u =
    (if \<not> in_guard_active u
     then on_session (\<lambda>s. case recheck_disk api s of (r, maximum, free_sectors, s1) \<Rightarrow>
       ((r, maximum, free_sectors), s1)) u
     else let ((result, found, maximum, free_sectors), u1) =
           on_session (\<lambda>s. case recheck_disk_target api (Some (in_guard_target u)) s of
             (r, found, maximum, free_sectors, s1) \<Rightarrow> ((r, found, maximum, free_sectors), s1)) u in
       if result = 0
       then let u2 = in_log [Lit ''HDL post-confirm raw guard target='', Str (in_guard_target u1),
              Lit '' collision='', Dec (if found then 1 else 0)]
              (u1\<lparr>in_guard_checked := True, in_guard_found := found\<rparr>) in
         (if found then (HDL_INSTALL_TARGET_EXISTS, maximum, free_sectors)
          else (result, maximum, free_sectors), u2)
       else ((result, maximum, free_sectors), u1))"

section \<open>Creating the target\<close>

text \<open>
  The metadata area of a new main partition is overwritten with zeros, flushed, and its first four
  bytes are read back.
\<close>

definition invalidate_area :: "'f platform \<Rightarrow> int \<Rightarrow> 'f file_world \<Rightarrow> int \<times> 'f file_world" where
  "invalidate_area api fd w =
    (let (there, w1) = fileXioLseek api fd 0x100000 FIO_SEEK_SET w in
     if there \<noteq> 0x100000 then (HDL_INSTALL_CREATE_FAILED, w1)
     else let (written, w2) = fileXioWrite api fd (replicate HDL_METADATA_SIZE 0) w1 in
       if written \<noteq> int HDL_METADATA_SIZE then (HDL_INSTALL_CREATE_FAILED, w2)
       else let (flushed, out, w3) = fileXioIoctl2 api fd HIOCFLUSH w2 in
         if flushed < 0 then (HDL_INSTALL_CREATE_FAILED, w3)
         else let (there, w4) = fileXioLseek api fd 0x100000 FIO_SEEK_SET w3 in
           if there \<noteq> 0x100000 then (HDL_INSTALL_CREATE_FAILED, w4)
           else let (got, w5) = fileXioRead api fd 4 w4 in
             (if got = Inr [0, 0, 0, 0] then 0 else HDL_INSTALL_CREATE_FAILED, w5))"

definition hdl_invalidate_created_metadata :: "'f platform \<Rightarrow> int \<Rightarrow> 'f installer \<Rightarrow> int \<times> 'f installer" where
  "hdl_invalidate_created_metadata api fd u =
    (let (result, u1) = on_world (invalidate_area api fd) u in
     if result < 0 then (result, u1)
     else (0, in_log [Lit ''HDL new target stale metadata invalidated and read back''] u1))"

abbreviation (input) on_device :: "string \<Rightarrow> path \<Rightarrow> bool" where
  "on_device prefix p \<equiv> take (length (ascii prefix)) p = ascii prefix"

definition guard_answers :: "path \<Rightarrow> open_mode \<Rightarrow> 'f installer \<Rightarrow> bool" where
  "guard_answers p mode u \<longleftrightarrow> on_device ''hdd0:'' p \<and> mode = FIO_RDONLY \<and> in_guard_active u \<and>
    in_guard_checked u \<and> \<not> in_guard_found u \<and> \<not> in_guard_consumed u \<and>
    p = print_into 64 (ascii ''hdd0:'' @ in_guard_target u)"

definition created_target :: "'f platform \<Rightarrow> int \<Rightarrow> 'f installer \<Rightarrow> int \<times> 'f installer" where
  "created_target api fd u =
    (let (invalidate, u1) = hdl_invalidate_created_metadata api fd u in
     if invalidate < 0
     then let ((), u2) = on_world (\<lambda>w. ((), fileXioClose api fd w)) u1;
              (r, u3) = (if in_guard_target u2 \<noteq> []
                then on_world (fileXioRemove api (print_into 64 (ascii ''hdd0:'' @ in_guard_target u2))) u2
                else (0, u2)) in
       (HDL_INSTALL_CREATE_FAILED,
        in_log [Lit ''HDL new target metadata invalidation failed result='', Dec invalidate] u3)
     else (fd, u1))"

definition hdl_status_fileXioOpen :: "'f platform \<Rightarrow> path \<Rightarrow> open_mode \<Rightarrow> 'f installer \<Rightarrow> int \<times> 'f installer" where
  "hdl_status_fileXioOpen api p mode u =
    (if guard_answers p mode u
     then (- 1, in_log [Lit ''HDL skipped redundant stock APA pre-create lookup target='',
       Str (in_guard_target u)] (u\<lparr>in_guard_consumed := True\<rparr>))
     else let created_hdd = (on_device ''hdd0:'' p \<and> mode = FIO_RDWR_CREATE);
              u0 = (if created_hdd then u\<lparr>in_guard_active := False\<rparr> else u);
              (fd, u1) = on_world (fileXioOpen api p mode) u0;
              (result, u2) = (if fd \<ge> 0 \<and> created_hdd then created_target api fd u1 else (fd, u1)) in
       if result \<ge> 0 \<and> on_device ''hdl0:'' p
       then (result, in_log [Lit ''HDL active stream opened fd='', Dec result, Lit '' path='', Str p]
         (u2\<lparr>in_active_fd := result\<rparr>))
       else (result, u2))"

definition hdl_status_fileXioClose :: "'f platform \<Rightarrow> int \<Rightarrow> 'f installer \<Rightarrow> 'f installer" where
  "hdl_status_fileXioClose api fd u =
    (let u1 = (if fd = in_active_fd u
         then (hdl_fast_io_reset (in_log [Lit ''HDL active stream closed fd='', Dec fd] u))\<lparr>in_active_fd := - 1\<rparr>
         else u) in
     snd (on_world (\<lambda>w. ((), fileXioClose api fd w)) u1))"

definition hdl_status_fileXioIoctl2 ::
    "'f platform \<Rightarrow> int \<Rightarrow> ioctl2_request \<Rightarrow> 'f installer \<Rightarrow> (int \<times> byte list) \<times> 'f installer" where
  "hdl_status_fileXioIoctl2 api fd request =
    on_world (\<lambda>w. case fileXioIoctl2 api fd request w of (r, out, w1) \<Rightarrow> ((r, out), w1))"

definition hdl_target_metadata_matches_active ::
    "'f platform \<Rightarrow> byte list \<Rightarrow> byte list \<Rightarrow> 'f installer \<Rightarrow> bool \<times> 'f installer" where
  "hdl_target_metadata_matches_active api target expected u =
    (if in_active_fd u < 0
     then (False, in_log [Lit ''HDL final metadata readback missing active stream target='', Str target] u)
     else let ((result, out), u1) = hdl_status_fileXioIoctl2 api (in_active_fd u) HDL_STREAM_READ_METADATA u in
       if result < 0
       then (False, in_log [Lit ''HDL final metadata readback target='', Str target, Lit '' fd='',
         Dec (in_active_fd u1), Lit '' result='', Dec result] u1)
       else let matches = (fill_buffer HDL_METADATA_SIZE out = expected) in
         (matches, in_log [Lit ''HDL final metadata readback target='', Str target, Lit '' fd='',
           Dec (in_active_fd u1), Lit '' match='', Dec (if matches then 1 else 0)] u1))"

definition hdl_status_fileXioRemove :: "'f platform \<Rightarrow> path \<Rightarrow> 'f installer \<Rightarrow> int \<times> 'f installer" where
  "hdl_status_fileXioRemove api p = on_world (fileXioRemove api p)"

section \<open>Removing what an interrupted installation left\<close>

definition foreign_metadata :: "byte list \<Rightarrow> hdl_transaction \<Rightarrow> bool" where
  "foreign_metadata metadata t \<longleftrightarrow> (let (result, parsed) = hdl_metadata_parse metadata in
    result < 0 \<or> hdl_metadata_info.info_startup parsed \<noteq> array_string (txn_startup t) \<or>
    info_game_title parsed \<noteq> array_string (txn_game_title t) \<or>
    hdl_metadata_info.info_disc_type parsed \<noteq> txn_disc_type t \<or>
    info_partition_count parsed \<noteq> txn_partition_count t)"

definition hdl_remove_incomplete_target_journal :: "'f platform \<Rightarrow> byte list \<Rightarrow> 'f installer \<Rightarrow> int \<times> 'f installer" where
  "hdl_remove_incomplete_target_journal api target u =
    (let ((result, t), u1) = on_world (\<lambda>w. case journal_load api unset_transaction w of
           (r, t, w1) \<Rightarrow> ((r, t), w1)) u in
     if result < 0 then (HDL_INSTALL_JOURNAL_INVALID, u1)
     else if array_string (txn_target t) \<noteq> target \<or> txn_stage t < STAGE_PARTITIONS_CREATED \<or>
       txn_stage t \<ge> STAGE_METADATA_COMMITTED then (HDL_INSTALL_TARGET_CHANGED, u1)
     else let (got, u2) = on_world (read_target_metadata api target) u1 in
       (case got of
          Inl e \<Rightarrow> (e, u2)
        | Inr metadata \<Rightarrow>
            if metadata_magic metadata \<and> foreign_metadata metadata t
            then (HDL_INSTALL_TARGET_CHANGED,
              in_log [Lit ''HDL incomplete cleanup refused foreign metadata target='', Str target] u2)
            else let u3 = (if metadata_magic metadata
                   then in_log [Lit ''HDL incomplete cleanup accepted stale matching metadata target='', Str target,
                     Lit '' stage='', Uns (unat (txn_stage t))] u2 else u2);
                     (fits, p) = target_path ''hdd0:'' target 64 in
              if fits < 0 then (HDL_INSTALL_LAYOUT_MISMATCH, u3) else hdl_status_fileXioRemove api p u3))"

end
