(* ===== verification/HdlInstall.thy ===== *)
theory HdlInstall
  imports HdlInstaller BootController
begin

text \<open>
  The installation transaction: \<open>src/hdl_tools/transaction.inc\<close>, with the calls redirected as
  \<open>src/hdl_installer_ps2.c\<close> redirects them, and \<open>hdl_execute_transaction_guarded\<close>.  A stage takes the
  transaction and the installer and gives a code with both as it left them; the activity display is
  left out.  \<open>HdlInstall_Correct\<close> shows that the metadata is committed only after the target's payload
  was read back and hashed like the source.
\<close>

abbreviation (input) HDL_INSTALL_JOURNAL_INTERVAL_SECTORS :: u64 where
  "HDL_INSTALL_JOURNAL_INTERVAL_SECTORS \<equiv> 16384"

section \<open>The layout of the target\<close>

definition allocation_name :: "u64 \<Rightarrow> byte list option" where
  "allocation_name n = map_option ascii (map_of (zip allocation_sizes
    [''128M'', ''256M'', ''512M'', ''1G'', ''2G'', ''4G'']) n)"

record hdl_stream_layout =
  layout_count :: u32
  layout_starts :: "u32 list"
  layout_lengths :: "u32 list"

definition stream_layout :: "byte list \<Rightarrow> hdl_stream_layout" where
  "stream_layout out = (let b = fill_buffer 524 out in
     \<lparr>layout_count = read_le32 b 0, layout_starts = map (\<lambda>i. read_le32 b (4 + 4 * i)) [0 ..< HDL_MAX_PARTITIONS],
      layout_lengths = map (\<lambda>i. read_le32 b (264 + 4 * i)) [0 ..< HDL_MAX_PARTITIONS]\<rparr>)"

text \<open>The text \<open>%s\<close> prints for a size; the planner only gives sizes that have a name.\<close>

definition size_text :: "u64 \<Rightarrow> byte list" where
  "size_text n = (case allocation_name n of None \<Rightarrow> ascii ''(null)'' | Some t \<Rightarrow> t)"

fun add_subs ::
    "'f platform \<Rightarrow> hdl_transaction \<Rightarrow> int \<Rightarrow> hdl_slice_plan list \<Rightarrow> 'f installer \<Rightarrow> int \<times> 'f installer" where
  "add_subs api t fd [] u = (0, u)"
| "add_subs api t fd (sl # slices) u =
    (let ((result, out), u1) =
       hdl_status_fileXioIoctl2 api fd (HIOCADDSUB (size_text (slice_allocation_bytes sl) @ [0])) u in
     if result < 0
     then let u2 = hdl_status_fileXioClose api fd u1;
              (removed, u3) = on_world (remove_incomplete_target api (array_string (txn_target t))) u2 in
       (HDL_INSTALL_CREATE_FAILED, u3)
     else add_subs api t fd slices u1)"

definition flush_created :: "'f platform \<Rightarrow> hdl_transaction \<Rightarrow> int \<Rightarrow> 'f installer \<Rightarrow> int \<times> 'f installer" where
  "flush_created api t fd u =
    (let ((result, out), u1) = hdl_status_fileXioIoctl2 api fd HIOCFLUSH u;
         u2 = hdl_status_fileXioClose api fd u1 in
     if result < 0
     then let (removed, u3) = on_world (remove_incomplete_target api (array_string (txn_target t))) u2 in
       (HDL_INSTALL_CREATE_FAILED, u3)
     else (0, u2))"

definition create_partitions ::
    "'f platform \<Rightarrow> hdl_transaction \<Rightarrow> hdl_partition_plan \<Rightarrow> 'f installer \<Rightarrow> int \<times> 'f installer" where
  "create_partitions api t plan u =
    (let target = array_string (txn_target t);
         (fd, u1) = hdl_status_fileXioOpen api (snd (target_path ''hdd0:'' target 64)) FIO_RDONLY u in
     if fd \<ge> 0 then (HDL_INSTALL_TARGET_EXISTS, hdl_status_fileXioClose api fd u1)
     else let create = print_into 96 (format_items [Lit ''hdd0:'', Str target, Lit '',,,'',
            Str (size_text (slice_allocation_bytes (hd (layout_slices plan)))), Lit '',HDL'']);
              (fd, u2) = hdl_status_fileXioOpen api create FIO_RDWR_CREATE u1 in
       if fd < 0 then (fd, u2)
       else let (result, u3) = add_subs api t fd (tl (layout_slices plan)) u2 in
         if result < 0 then (result, u3) else flush_created api t fd u3)"

definition layout_matches :: "hdl_partition_plan \<Rightarrow> hdl_stream_layout \<Rightarrow> bool" where
  "layout_matches plan layout \<longleftrightarrow> layout_count layout = of_nat (length (layout_slices plan)) \<and>
    (\<forall>i < length (layout_slices plan).
      ucast (layout_lengths layout ! i) * 512 = slice_allocation_bytes (layout_slices plan ! i) \<and>
      layout_starts layout ! i \<noteq> 0)"

text \<open>The code or the descriptor, and the layout the stream reported.\<close>

definition open_target ::
    "'f platform \<Rightarrow> hdl_transaction \<Rightarrow> hdl_partition_plan \<Rightarrow> 'f installer \<Rightarrow>
      (int \<times> hdl_stream_layout) \<times> 'f installer" where
  "open_target api t plan u =
    (let (fits, p) = target_path ''hdl0:'' (array_string (txn_target t)) 64 in
     if fits < 0 then ((HDL_INSTALL_LAYOUT_MISMATCH, stream_layout []), u)
     else let (fd, u1) = hdl_status_fileXioOpen api p FIO_RDWR u in
       if fd < 0 then ((fd, stream_layout []), u1)
       else let ((result, out), u2) = hdl_status_fileXioIoctl2 api fd HDL_STREAM_GET_LAYOUT u1;
                layout = stream_layout out in
         if result < 0 \<or> \<not> layout_matches plan layout
         then ((HDL_INSTALL_LAYOUT_MISMATCH, layout), hdl_status_fileXioClose api fd u2)
         else ((fd, layout), u2))"

section \<open>Exact transfers\<close>

function read_exact_from ::
    "'f platform \<Rightarrow> int \<Rightarrow> nat \<Rightarrow> byte list \<Rightarrow> 'f installer \<Rightarrow> (int + byte list) \<times> 'f installer" where
  "read_exact_from api fd want received u =
    (if length received < want
     then let (r, u1) = hdl_fast_fileXioRead api fd (length received) (want - length received) u in
       (case r of
          Inl e \<Rightarrow> (Inl (if e < 0 then e else HDL_INSTALL_COPY_FAILED), u1)
        | Inr bytes \<Rightarrow>
            if bytes = [] then (Inl HDL_INSTALL_COPY_FAILED, u1)
            else read_exact_from api fd want (received @ bytes) u1)
     else (Inr received, u))"
  by pat_completeness auto

termination read_exact_from
  by (relation "measure (\<lambda>(api, fd, want, received, u). want - length received)")
    (auto simp flip: length_greater_0_conv)

declare read_exact_from.simps [simp del]

definition read_exact_fd :: "'f platform \<Rightarrow> int \<Rightarrow> nat \<Rightarrow> 'f installer \<Rightarrow> (int + byte list) \<times> 'f installer" where
  "read_exact_fd api fd n = read_exact_from api fd n []"

function write_exact_fd :: "'f platform \<Rightarrow> int \<Rightarrow> byte list \<Rightarrow> 'f installer \<Rightarrow> int \<times> 'f installer" where
  "write_exact_fd api fd data u =
    (if data \<noteq> []
     then let (written, u1) = hdl_fast_fileXioWrite api fd data u in
       if written \<le> 0 then (if written < 0 then written else HDL_INSTALL_COPY_FAILED, u1)
       else write_exact_fd api fd (drop (nat written) data) u1
     else (0, u))"
  by pat_completeness auto

termination write_exact_fd
  by (relation "measure (\<lambda>(api, fd, data, u). length data)") auto

declare write_exact_fd.simps [simp del]

section \<open>Hashing and copying\<close>

definition chunk_bytes :: "u64 \<Rightarrow> u64 \<Rightarrow> nat" where
  "chunk_bytes offset stop =
    (if stop - offset > 65536 then HDL_INSTALL_IO_BYTES else unat (stop - offset))"

lemma stream_chunk:
  assumes "offset < stop"
  shows "0 < chunk_bytes offset stop" and "unat (offset + of_nat (chunk_bytes offset stop)) = unat offset + chunk_bytes offset stop"
    and "unat offset + chunk_bytes offset stop \<le> unat stop"
proof -
  have rest: "unat (stop - offset) = unat stop - unat offset"
    by (rule unat_sub) (use assms in simp)
  then show "0 < chunk_bytes offset stop"
    using assms by (auto simp: chunk_bytes_def word_less_nat_alt)
  show le: "unat offset + chunk_bytes offset stop \<le> unat stop"
    using assms rest by (auto simp: chunk_bytes_def word_less_nat_alt)
  then show "unat (offset + of_nat (chunk_bytes offset stop)) = unat offset + chunk_bytes offset stop"
    using unsigned_less [of stop, where 'a = nat] by (simp add: unat_word_ariths unat_of_nat)
qed

text \<open>The loops that read a stream up to \<open>stop\<close> in chunks and hash it.\<close>

function hash_stream ::
    "'f platform \<Rightarrow> int \<Rightarrow> u64 \<Rightarrow> u64 \<Rightarrow> sha256_context \<Rightarrow> 'f installer \<Rightarrow> (int + sha256_context) \<times> 'f installer" where
  "hash_stream api fd stop offset hash u =
    (if offset < stop
     then let n = chunk_bytes offset stop; (got, u1) = read_exact_fd api fd n u in
       (case got of
          Inl e \<Rightarrow> (Inl e, u1)
        | Inr data \<Rightarrow> hash_stream api fd stop (offset + of_nat n) (sha256_update hash data) u1)
     else (Inr hash, u))"
  by pat_completeness auto

termination hash_stream
proof (relation "measure (\<lambda>(api, fd, stop, offset, hash, u). unat stop - unat offset)")
  fix api :: "'f platform" and fd stop offset hash n and u :: "'f installer"
  assume "offset < stop" and "n = chunk_bytes offset stop"
  then show "((api, fd, stop, offset + of_nat n, sha256_update hash data, u1), (api, fd, stop, offset, hash, u))
      \<in> measure (\<lambda>(api, fd, stop, offset, hash, u). unat stop - unat offset)" for data u1
    using stream_chunk [of offset stop] by (simp add: word_less_nat_alt)
qed simp

declare hash_stream.simps [simp del]

definition hash_source_payload ::
    "'f platform \<Rightarrow> hdl_transaction \<Rightarrow> int \<Rightarrow> 'f installer \<Rightarrow> (int + byte list) \<times> 'f installer" where
  "hash_source_payload api t source_fd u =
    (let (ok, u1) = on_world (heap_alloc api HDL_INSTALL_IO_BYTES) u in
     if \<not> ok then (Inl HDL_INSTALL_MEMORY_FAILED, u1)
     else let (there, u2) = hdl_fast_fileXioLseek64 api source_fd 0 FIO_SEEK_SET u1 in
       if there \<noteq> 0 then (Inl HDL_INSTALL_VERIFY_FAILED, u2)
       else let (r, u3) = hash_stream api source_fd (txn_source_bytes t) 0 sha256_init u2 in
         (case r of Inl e \<Rightarrow> Inl HDL_INSTALL_VERIFY_FAILED | Inr hash \<Rightarrow> Inr (sha256_final hash), u3))"

definition verify_target_digest ::
    "'f platform \<Rightarrow> hdl_transaction \<Rightarrow> int \<Rightarrow> byte list \<Rightarrow> 'f installer \<Rightarrow> int \<times> 'f installer" where
  "verify_target_digest api t target_fd expected_digest u =
    (let (ok, u1) = on_world (heap_alloc api HDL_INSTALL_IO_BYTES) u in
     if \<not> ok then (HDL_INSTALL_MEMORY_FAILED, u1)
     else let (there, u2) = hdl_fast_fileXioLseek64 api target_fd 0 FIO_SEEK_SET u1 in
       if there \<noteq> 0 then (HDL_INSTALL_VERIFY_FAILED, u2)
       else let (r, u3) = hash_stream api target_fd (txn_source_bytes t) 0 sha256_init u2 in
         (case r of Inl e \<Rightarrow> HDL_INSTALL_VERIFY_FAILED
          | Inr hash \<Rightarrow> if expected_digest \<noteq> sha256_final hash then HDL_INSTALL_VERIFY_FAILED else 0, u3))"

definition in_journal_save :: "'f platform \<Rightarrow> hdl_transaction \<Rightarrow> 'f installer \<Rightarrow> int \<times> 'f installer" where
  "in_journal_save api t = on_world (journal_save api t)"

text \<open>
  The copy loop, from \<open>offset\<close>: \<open>next_journal\<close> is the progress at which the journal is saved again.
  It gives the code, the transaction with its progress, and the digest state.
\<close>

function copy_loop ::
    "'f platform \<Rightarrow> int \<Rightarrow> int \<Rightarrow> u64 \<Rightarrow> u64 \<Rightarrow> sha256_context \<Rightarrow> hdl_transaction \<Rightarrow> 'f installer \<Rightarrow>
      (int \<times> hdl_transaction \<times> sha256_context) \<times> 'f installer" where
  "copy_loop api source_fd target_fd offset next_journal hash t u =
    (if offset < txn_source_bytes t
     then let n = chunk_bytes offset (txn_source_bytes t); (got, u1) = read_exact_fd api source_fd n u in
       (case got of
          Inl e \<Rightarrow> ((e, t, hash), u1)
        | Inr data \<Rightarrow>
            let hash = sha256_update hash data; (written, u2) = write_exact_fd api target_fd data u1 in
            if written < 0 then ((written, t, hash), u2)
            else let offset = offset + of_nat n; t = t\<lparr>txn_completed_sectors := offset div 2048\<rparr>;
                     due = (txn_completed_sectors t \<ge> next_journal \<or> offset = txn_source_bytes t);
                     (saved, u3) = (if due then in_journal_save api t u2 else (0, u2));
                     next_journal = (if due then txn_completed_sectors t + HDL_INSTALL_JOURNAL_INTERVAL_SECTORS
                       else next_journal) in
              if saved < 0 then ((saved, t, hash), u3)
              else let (buttons, u4) = on_world (poll_pad api) u3 in
                if pressed buttons PAD_TRIANGLE
                then let (saved, u5) = in_journal_save api t u4 in
                  ((if saved = 0 then HDL_INSTALL_CANCELLED else saved, t, hash), u5)
                else copy_loop api source_fd target_fd offset next_journal hash t u4)
     else ((0, t, hash), u))"
  by pat_completeness auto

termination copy_loop
proof (relation "measure (\<lambda>(api, source_fd, target_fd, offset, next_journal, hash, t, u).
    unat (txn_source_bytes t) - unat offset)")
  fix offset :: u64 and n and t :: hdl_transaction
  assume "offset < txn_source_bytes t" and "n = chunk_bytes offset (txn_source_bytes t)"
  then have "unat (txn_source_bytes t) - unat (offset + of_nat n) < unat (txn_source_bytes t) - unat offset"
    using stream_chunk [of offset "txn_source_bytes t"] by (simp add: word_less_nat_alt)
  then show "\<And>a b c d e f. o2 = offset + of_nat n \<Longrightarrow> t2 = t\<lparr>txn_completed_sectors := o2 div 2048\<rparr> \<Longrightarrow>
      ((api, source_fd, target_fd, o2, nj, hash2, t2, u4), (api, source_fd, target_fd, offset, next_journal, hash, t, u))
      \<in> measure (\<lambda>(api, source_fd, target_fd, offset, next_journal, hash, t, u). unat (txn_source_bytes t) - unat offset)"
    for api :: "'f platform" and source_fd target_fd nj hash2 t2 o2 next_journal hash and u4 u :: "'f installer"
    by simp
qed simp

declare copy_loop.simps [simp del]

definition copy_payload ::
    "'f platform \<Rightarrow> int \<Rightarrow> int \<Rightarrow> hdl_transaction \<Rightarrow> 'f installer \<Rightarrow>
      (int \<times> hdl_transaction \<times> byte list) \<times> 'f installer" where
  "copy_payload api source_fd target_fd t u =
    (let offset = txn_completed_sectors t * 2048;
         next_journal = txn_completed_sectors t + HDL_INSTALL_JOURNAL_INTERVAL_SECTORS;
         (ok, u1) = on_world (heap_alloc api HDL_INSTALL_IO_BYTES) u in
     if \<not> ok then ((HDL_INSTALL_MEMORY_FAILED, t, []), u1)
     else let (prefix, u2) = (if offset > 0
            then let (there, u2) = hdl_fast_fileXioLseek64 api source_fd 0 FIO_SEEK_SET u1 in
              if there \<noteq> 0 then (Inl HDL_INSTALL_COPY_FAILED, u2)
              else hash_stream api source_fd offset 0 sha256_init u2
            else (Inr sha256_init, u1)) in
       (case prefix of
          Inl e \<Rightarrow> ((e, t, []), u2)
        | Inr hash \<Rightarrow>
            let (there, u3) = hdl_fast_fileXioLseek64 api source_fd (sint offset) FIO_SEEK_SET u2 in
            if there \<noteq> sint offset then ((HDL_INSTALL_COPY_FAILED, t, []), u3)
            else let (there, u4) = hdl_fast_fileXioLseek64 api target_fd (sint offset) FIO_SEEK_SET u3 in
              if there \<noteq> sint offset then ((HDL_INSTALL_COPY_FAILED, t, []), u4)
              else let ((r, t, hash), u5) = copy_loop api source_fd target_fd offset next_journal hash t u4 in
                ((r, t, if r = 0 then sha256_final hash else []), u5)))"

section \<open>The stages\<close>

text \<open>
  A stage that moves on saves the record of the new stage; a record that cannot be saved stops the
  installation, although the transaction in memory has moved on.
\<close>

definition advance ::
    "'f platform \<Rightarrow> u32 \<Rightarrow> u64 \<Rightarrow> hdl_transaction \<Rightarrow> 'f installer \<Rightarrow> (int \<times> hdl_transaction) \<times> 'f installer" where
  "advance api stage completed t u =
    (let (result, t) = hdl_transaction_set_stage t stage completed in
     if result < 0 then ((HDL_INSTALL_JOURNAL_INVALID, t), u)
     else let (saved, u1) = in_journal_save api t u in
       ((if saved < 0 then HDL_INSTALL_JOURNAL_INVALID else 0, t), u1))"

definition transaction_preflight ::
    "'f platform \<Rightarrow> hdl_transaction \<Rightarrow> 'f installer \<Rightarrow>
      ((int \<times> hdl_partition_plan \<times> hdl_file_source) \<times> 'f installer) option" where
  "transaction_preflight api t u =
    (let src = \<lparr>src_fd = - 1, src_bytes = txn_source_bytes t\<rparr>;
         ((result, maximum, free_sectors), u1) = hdl_transaction_recheck_disk api u in
     if result < 0 then Some ((result, empty_layout, src), u1)
     else let (result, planned) = hdl_partition_plan_image (txn_source_bytes t) maximum (Some empty_layout);
              plan = the planned in
       if result < 0 then Some ((result, plan, src), u1)
       else if txn_partition_count t \<noteq> of_nat (length (layout_slices plan))
       then Some ((HDL_INSTALL_LAYOUT_MISMATCH, plan, src), u1)
       else if layout_allocation_bytes plan div 512 > ucast free_sectors \<and> txn_stage t = STAGE_PLANNED
       then Some ((HDL_INSTALL_NO_SPACE, plan, src), u1)
       else if txn_stage t \<ge> STAGE_METADATA_COMMITTED then Some ((0, plan, src), u1)
       else let ((result, src), u2) = on_world (\<lambda>w. case open_source api (array_string (txn_source_path t))
              (txn_source_bytes t) src w of (r, src, w1) \<Rightarrow> ((r, src), w1)) u1 in
         if result < 0 then Some ((result, plan, src), u2)
         else let (print, u3) = on_world (source_fingerprint api src) u2;
                  refused = (\<lambda>e u. ((e, plan, src\<lparr>src_fd := - 1\<rparr>), hdl_status_fileXioClose api (src_fd src) u)) in
           (case print of
              Inl e \<Rightarrow> Some (refused e u3)
            | Inr source_hash \<Rightarrow>
                if source_hash \<noteq> txn_source_fingerprint t then Some (refused HDL_INSTALL_SOURCE_CHANGED u3)
                else map_option (\<lambda>(result, w).
                    let u4 = u3\<lparr>in_session := (in_session u3)\<lparr>se_world := w\<rparr>\<rparr> in
                    if result < 0 then refused result u4 else ((result, plan, src), u4))
                  (source_identity_matches api src t (in_world u3))))"

text \<open>The code, the transaction, the layout and the descriptor of the target, or \<open>-1\<close>.\<close>

definition transaction_prepare_target ::
    "'f platform \<Rightarrow> hdl_transaction \<Rightarrow> hdl_partition_plan \<Rightarrow> 'f installer \<Rightarrow>
      (int \<times> hdl_transaction \<times> hdl_stream_layout \<times> int) \<times> 'f installer" where
  "transaction_prepare_target api t plan u =
    (let ((result, t), u1) = (if txn_stage t = STAGE_PLANNED
           then let (result, u1) = create_partitions api t plan u in
             if result < 0 then ((result, t), u1) else advance api STAGE_PARTITIONS_CREATED 0 t u1
           else ((0, t), u)) in
     if result < 0 then ((result, t, stream_layout [], - 1), u1)
     else let ((target_fd, layout), u2) = open_target api t plan u1 in
       if target_fd < 0 then ((target_fd, t, layout, target_fd), u2)
       else if txn_stage t = STAGE_PARTITIONS_CREATED
       then let ((result, t), u3) = advance api STAGE_COPYING 0 t u2 in ((result, t, layout, target_fd), u3)
       else ((0, t, layout, target_fd), u2))"

text \<open>The code, the transaction, the digest of the source, and whether it was verified in this run.\<close>

definition transaction_copy_stage ::
    "'f platform \<Rightarrow> int \<Rightarrow> int \<Rightarrow> hdl_transaction \<Rightarrow> 'f installer \<Rightarrow>
      (int \<times> hdl_transaction \<times> byte list \<times> bool) \<times> 'f installer" where
  "transaction_copy_stage api source_fd target_fd t u =
    (if txn_stage t \<noteq> STAGE_COPYING then ((0, t, [], False), u)
     else let ((result, t, source_hash), u1) = copy_payload api source_fd target_fd t u in
       if result < 0 then ((result, t, source_hash, False), u1)
       else let ((flushed, out), u2) = hdl_status_fileXioIoctl2 api target_fd HDL_STREAM_FLUSH u1 in
         if flushed < 0 then ((HDL_INSTALL_COPY_FAILED, t, source_hash, True), u2)
         else let (result, u3) = verify_target_digest api t target_fd source_hash u2 in
           if result < 0 then ((result, t, source_hash, True), u3)
           else let ((result, t), u4) = advance api STAGE_PAYLOAD_VERIFIED (txn_total_sectors t) t u3 in
             ((result, t, source_hash, True), u4))"

definition transaction_build_metadata ::
    "hdl_transaction \<Rightarrow> hdl_partition_plan \<Rightarrow> hdl_stream_layout \<Rightarrow> int \<times> byte list" where
  "transaction_build_metadata t plan layout =
    hdl_metadata_build plan (layout_starts layout) (unat (layout_count layout))
      \<lparr>opt_game_title = Some (array_string (txn_game_title t)), opt_startup = Some (array_string (txn_startup t)),
       opt_disc_type = txn_disc_type t, opt_layer1_start = txn_layer1_start t,
       opt_hdl_compat_flags = txn_hdl_compat_flags t, opt_opl_compat_flags = txn_opl_compat_flags t,
       opt_dma_type = txn_dma_type t, opt_dma_mode = txn_dma_mode t\<rparr> (replicate HDL_METADATA_SIZE 0)"

definition transaction_commit_metadata_stage ::
    "'f platform \<Rightarrow> hdl_partition_plan \<Rightarrow> hdl_stream_layout \<Rightarrow> int \<Rightarrow> int \<Rightarrow> byte list \<Rightarrow> bool \<Rightarrow>
      hdl_transaction \<Rightarrow> 'f installer \<Rightarrow> (int \<times> hdl_transaction) \<times> 'f installer" where
  "transaction_commit_metadata_stage api plan layout source_fd target_fd source_hash verified_this_run t u =
    (if txn_stage t \<noteq> STAGE_PAYLOAD_VERIFIED then ((0, t), u)
     else let (result, u1) = (if verified_this_run then (0, u)
            else let (hashed, u1) = hash_source_payload api t source_fd u in
              (case hashed of
                 Inl e \<Rightarrow> (e, u1)
               | Inr source_hash \<Rightarrow> verify_target_digest api t target_fd source_hash u1)) in
       if result < 0 then ((result, t), u1)
       else let (result, metadata) = transaction_build_metadata t plan layout in
         if result < 0 then ((result, t), u1)
         else let ((result, out), u2) = hdl_status_fileXioIoctl2 api target_fd (HDL_STREAM_COMMIT_METADATA metadata) u1 in
           if result < 0 then ((HDL_INSTALL_METADATA_FAILED, t), u2)
           else advance api STAGE_METADATA_COMMITTED (txn_total_sectors t) t u2)"

definition transaction_finish_metadata_stage ::
    "'f platform \<Rightarrow> hdl_partition_plan \<Rightarrow> hdl_stream_layout \<Rightarrow> hdl_transaction \<Rightarrow> 'f installer \<Rightarrow>
      (int \<times> hdl_transaction) \<times> 'f installer" where
  "transaction_finish_metadata_stage api plan layout t u =
    (if txn_stage t \<noteq> STAGE_METADATA_COMMITTED then ((0, t), u)
     else let (result, metadata) = transaction_build_metadata t plan layout in
       if result < 0 then ((HDL_INSTALL_METADATA_FAILED, t), u)
       else let (matches, u1) = hdl_target_metadata_matches_active api (array_string (txn_target t)) metadata u in
         if \<not> matches then ((HDL_INSTALL_METADATA_FAILED, t), u1)
         else let (result, t) = hdl_transaction_set_stage t STAGE_COMPLETE (txn_total_sectors t) in
           if result < 0 then ((result, t), u1)
           else ((0, t), snd (on_world (\<lambda>w. ((), journal_remove api w)) u1)))"

definition transaction_stages ::
    "'f platform \<Rightarrow> hdl_partition_plan \<Rightarrow> hdl_stream_layout \<Rightarrow> int \<Rightarrow> int \<Rightarrow> hdl_transaction \<Rightarrow> 'f installer \<Rightarrow>
      (int \<times> hdl_transaction) \<times> 'f installer" where
  "transaction_stages api plan layout source_fd target_fd t u =
    (let ((result, t, source_hash, verified), u1) = transaction_copy_stage api source_fd target_fd t u in
     if result < 0 then ((result, t), u1)
     else let ((result, t), u2) =
           transaction_commit_metadata_stage api plan layout source_fd target_fd source_hash verified t u1 in
       if result < 0 then ((result, t), u2) else transaction_finish_metadata_stage api plan layout t u2)"

definition close_if_open :: "'f platform \<Rightarrow> int \<Rightarrow> 'f installer \<Rightarrow> 'f installer" where
  "close_if_open api fd u = (if fd \<ge> 0 then hdl_status_fileXioClose api fd u else u)"

definition execute_transaction ::
    "'f platform \<Rightarrow> hdl_transaction \<Rightarrow> 'f installer \<Rightarrow> ((int \<times> hdl_transaction) \<times> 'f installer) option" where
  "execute_transaction api t u =
    map_option (\<lambda>((result, plan, src), u1).
      if result < 0 then ((result, t), u1)
      else let ((result, t, layout, target_fd), u2) = transaction_prepare_target api t plan u1;
               ((result, t), u3) = (if result < 0 then ((result, t), u2)
                 else transaction_stages api plan layout (src_fd src) target_fd t u2);
               u4 = close_if_open api (src_fd src) (close_if_open api target_fd u3) in
        ((result, t), in_log [Lit ''HDL transaction target='', Str (array_string (txn_target t)), Lit '' stage='',
          Uns (unat (txn_stage t)), Lit '' progress='', Uns (unat (txn_completed_sectors t)), Lit ''/'',
          Uns (unat (txn_total_sectors t)), Lit '' result='', Dec result] u4))
    (transaction_preflight api t u)"

definition hdl_execute_transaction_guarded ::
    "'f platform \<Rightarrow> hdl_transaction \<Rightarrow> 'f installer \<Rightarrow> ((int \<times> hdl_transaction) \<times> 'f installer) option" where
  "hdl_execute_transaction_guarded api t u =
    (let u0 = hdl_fast_io_reset (u\<lparr>in_active_fd := - 1\<rparr>);
         u1 = (if txn_stage t = STAGE_PLANNED then hdl_transaction_guard_arm (array_string (txn_target t)) u0
           else hdl_transaction_guard_disarm u0) in
     map_option (\<lambda>(r, u2). (r, hdl_transaction_guard_disarm ((hdl_fast_io_reset u2)\<lparr>in_active_fd := - 1\<rparr>)))
       (execute_transaction api t u1))"

end
