(* ===== verification/HdlInstall_Correct.thy ===== *)
theory HdlInstall_Correct
  imports HdlInstall HdlIso_Correct "HOL-Library.Sublist"
begin

text \<open>
  What an installation does to the disk and the USB device, as the trace of its calls shows it.  The
  locale \<open>plain_events\<close> collects the calls that every stage makes anyway; a class of events that
  contains them is kept by all stages but those that name another call.  The theorem shows that the
  metadata of a game is committed at most once, and only after the payload was read back from the
  target with the length and the digest of what was heard from the source in the same run, however far
  an earlier run had come.  Its witness is a resumed installation on a platform that answers every call.
\<close>

section \<open>What was heard from a descriptor\<close>

text \<open>The bytes a call delivers from a descriptor: by a read, or by a transfer of the streaming module.\<close>

fun delivery :: "int \<Rightarrow> file_event \<Rightarrow> byte list" where
  "delivery fd (ReadFrom g n (Inr bytes)) = (if g = fd then bytes else [])"
| "delivery fd (Controlled g (HDL_STREAM_TARGET_TO_EE n) r out) =
    (if g = fd then take (nat r) (fill_buffer (unat n) out) else [])"
| "delivery fd (Controlled g (HDL_STREAM_SOURCE_TO_EE s n pos tot) r out) =
    (if s = fd then take (nat r) (fill_buffer (unat n) out) else [])"
| "delivery fd (Controlled g (HDL_STREAM_PUMP_TO_EE s n pos tot) r out) =
    (if s = fd then take (nat r) (fill_buffer (unat n) out) else [])"
| "delivery fd e = []"

text \<open>Some of the events, in their order, delivered exactly these bytes.\<close>

definition hears :: "int \<Rightarrow> file_event list \<Rightarrow> byte list \<Rightarrow> bool" where
  "hears fd es data \<longleftrightarrow> (\<exists>ss. subseq ss es \<and> concat (map (delivery fd) ss) = data)"

lemma hears_nothing [simp, intro]: "hears fd es []"
  unfolding hears_def by (rule exI [of _ "[]"]) simp

lemma hears_append: "hears fd es data \<Longrightarrow> hears fd fs rest \<Longrightarrow> hears fd (es @ fs) (data @ rest)"
  unfolding hears_def by (metis concat_append list_emb_append_mono map_append)

lemma hears_more: "hears fd es data \<Longrightarrow> hears fd (es @ fs) data" "hears fd fs data \<Longrightarrow> hears fd (es @ fs) data"
  using hears_append [of fd es data fs "[]"] hears_append [of fd es "[]" fs data] by simp_all

lemma hears_event: "delivery fd e = data \<Longrightarrow> hears fd [e] data"
  unfolding hears_def by (rule exI [of _ "[e]"]) simp

section \<open>Runs of the installer\<close>

abbreviation happened :: "'f installer \<Rightarrow> 'f installer \<Rightarrow> file_event list" where
  "happened u v \<equiv> since (in_session u) (in_session v)"

definition moves :: "(file_event \<Rightarrow> bool) \<Rightarrow> 'f installer \<Rightarrow> 'f installer \<Rightarrow> bool" where
  "moves P u v \<longleftrightarrow> extends P (in_world u) (in_world v)"

lemma moves_refl [simp, intro]: "moves P u u"
  by (simp add: moves_def)

lemma moves_trans [trans]: "moves P u v \<Longrightarrow> moves P v w \<Longrightarrow> moves P u w"
  unfolding moves_def by (rule extends_trans)

lemma moves_mono: "moves P u v \<Longrightarrow> (\<And>e. P e \<Longrightarrow> Q e) \<Longrightarrow> moves Q u v"
  unfolding moves_def by (rule extends_mono)

lemma happened_trans: "moves P u v \<Longrightarrow> moves Q v w \<Longrightarrow> happened u w = happened u v @ happened v w"
  unfolding moves_def by (rule since_trans)

lemma happened_all: "moves P u v \<Longrightarrow> list_all P (happened u v)"
  by (auto simp: moves_def extends_def since_def)

lemma happened_same: "in_world v = in_world u \<Longrightarrow> happened u v = []"
  by (simp add: since_def)

text \<open>What touches no file leaves the world as it is.\<close>

lemma in_log_world [simp]: "in_world (in_log items u) = in_world u"
  by (simp add: in_log_def)

lemma on_fast_world [simp]: "in_world (on_fast f u) = in_world u" "in_active_fd (on_fast f u) = in_active_fd u"
  by (simp_all add: on_fast_def)

lemma reset_world [simp]: "in_world (hdl_fast_io_reset u) = in_world u"
  by (simp add: hdl_fast_io_reset_def)

lemma in_log_fields [simp]: "in_fast (in_log items u) = in_fast u" "in_active_fd (in_log items u) = in_active_fd u"
  by (simp_all add: in_log_def)

lemma moves_same: "in_world v = in_world v' \<Longrightarrow> moves P u v \<longleftrightarrow> moves P u v'"
  by (simp add: moves_def)

lemma moves_still [simp]:
  "moves P u (in_log items v) \<longleftrightarrow> moves P u v" "moves P u (on_fast f v) \<longleftrightarrow> moves P u v"
  "moves P u (hdl_fast_io_reset v) \<longleftrightarrow> moves P u v" "moves P u (v\<lparr>in_active_fd := n\<rparr>) \<longleftrightarrow> moves P u v"
  "moves P (in_log items u) v \<longleftrightarrow> moves P u v" "moves P (on_fast f u) v \<longleftrightarrow> moves P u v"
  by (simp_all add: moves_def)

lemma happened_still [simp]:
  "happened u (in_log items v) = happened u v" "happened u (on_fast f v) = happened u v"
  "happened (in_log items u) v = happened u v" "happened (on_fast f u) v = happened u v"
  by (simp_all add: since_def)

lemma on_world_iff:
  "on_world act u = (r, v) \<longleftrightarrow>
    (\<exists>w. act (in_world u) = (r, w) \<and> v = u\<lparr>in_session := (in_session u)\<lparr>se_world := w\<rparr>\<rparr>)"
  by (auto simp: on_world_def on_session_def Let_def split: prod.splits)

lemma on_world_moves:
  "on_world act u = (r, v) \<Longrightarrow> (\<And>w. act (in_world u) = (r, w) \<Longrightarrow> extends P (in_world u) w) \<Longrightarrow> moves P u v"
  by (auto simp: on_world_iff moves_def)

lemma on_world_active: "on_world act u = (r, v) \<Longrightarrow> in_active_fd v = in_active_fd u \<and> in_fast v = in_fast u"
  by (auto simp: on_world_iff)

section \<open>The calls every stage makes\<close>

fun stream_request :: "ioctl2_request \<Rightarrow> bool" where
  "stream_request (HIOCADDSUB s) \<longleftrightarrow> False"
| "stream_request (HDL_STREAM_COMMIT_METADATA m) \<longleftrightarrow> False"
| "stream_request rq \<longleftrightarrow> True"

locale plain_events =
  fixes P :: "file_event \<Rightarrow> bool"
  assumes reading: "reading_event e \<Longrightarrow> P e"
    and wrote: "P (WroteTo fd data r)"
    and new_record: "P (Opened HDL_INSTALL_JOURNAL_NEW FIO_WRITE_TRUNC r)"
    and journal_gone: "P (Removed HDL_INSTALL_JOURNAL r)" "P (Removed HDL_INSTALL_JOURNAL_NEW r)"
    and journal_moved: "P (Renamed HDL_INSTALL_JOURNAL_NEW HDL_INSTALL_JOURNAL r)"
    and streamed: "stream_request rq \<Longrightarrow> P (Controlled fd rq r out)"
    and target_opened: "P (Opened p FIO_RDWR r)"
    and asked: "asks (fst ev) \<Longrightarrow> P (Disk ev)"
begin

lemma plain_reading: "extends reading_event w v \<Longrightarrow> extends P w v"
  by (erule extends_mono) (rule reading)

lemma plain_writing: "extends writing_event w v \<Longrightarrow> extends P w v"
proof (erule extends_mono)
  show "writing_event e \<Longrightarrow> P e" for e by (cases e) (auto intro: wrote reading)
qed

lemma plain_looks: "looks api s t \<Longrightarrow> extends P (se_world s) (se_world t)"
proof -
  have "inquiry e \<Longrightarrow> P e" for e by (cases e) (auto intro: asked)
  then show "looks api s t \<Longrightarrow> ?thesis" by (auto simp: looks_def intro: extends_mono)
qed

lemma plain_calls:
  "fileXioOpen api p FIO_RDONLY w = (fd, v) \<Longrightarrow> extends P w v"
  "fileXioOpen api p FIO_RDWR w = (fd, v) \<Longrightarrow> extends P w v"
  "fileXioRead api g n w = (got, v) \<Longrightarrow> extends P w v"
  "fileXioWrite api g data w = (r, v) \<Longrightarrow> extends P w v"
  "fileXioLseek api g off origin w = (there, v) \<Longrightarrow> extends P w v"
  "fileXioGetStat api p w = (r, st, v) \<Longrightarrow> extends P w v"
  "fileXioIoctl2 api g rq w = (r, out, v) \<Longrightarrow> stream_request rq \<Longrightarrow> extends P w v"
  "extends P w (fileXioClose api g w)"
  "heap_alloc api n w = (ok, v) \<Longrightarrow> extends P w v" "poll_pad api w = (buttons, v) \<Longrightarrow> extends P w v"
  by (auto simp: extends_def reading wrote target_opened streamed
      dest!: trace_open trace_read trace_write trace_lseek trace_getstat trace_heap trace_pad trace_ioctl2)

lemma plain_whole: "write_whole_file api HDL_INSTALL_JOURNAL_NEW data w = (r, v) \<Longrightarrow> extends P w v"
proof (erule write_whole_file_trace)
  fix fd es
  assume "trace v = trace w @ Opened HDL_INSTALL_JOURNAL_NEW FIO_WRITE_TRUNC fd # es" "list_all writing_event es"
  moreover have "writing_event e \<Longrightarrow> P e" for e by (cases e) (auto intro: wrote reading)
  ultimately show "extends P w v" by (auto simp: extends_def new_record list.pred_set)
qed

lemma plain_journal_save: "journal_save api t w = (r, v) \<Longrightarrow> extends P w v"
proof -
  assume run: "journal_save api t w = (r, v)"
  have move: "extends P w' v'" if "journal_move api w' = (k, v')" for w' v' k
    using that by (auto simp: journal_move_def extends_def journal_gone journal_moved split: prod.splits
        dest!: trace_remove trace_rename)
  obtain e rec where enc: "hdl_transaction_encode t (replicate HDL_TRANSACTION_RECORD_SIZE 0) = (e, rec)" by fastforce
  obtain r1 w1 where wr: "write_whole_file api HDL_INSTALL_JOURNAL_NEW rec w = (r1, w1)" by fastforce
  obtain got w2 where rd: "read_exact_file api HDL_INSTALL_JOURNAL_NEW HDL_TRANSACTION_RECORD_SIZE w1 = (got, w2)"
    by fastforce
  have w1: "extends P w w1" by (rule plain_whole [OF wr])
  have w2: "extends P w w2" by (rule extends_trans [OF w1 plain_reading [OF read_exact_file_extends [OF rd]]])
  show "extends P w v"
    using run w1 w2 unfolding journal_save_def enc wr rd
    by (auto simp: Let_def wr rd split: if_splits sum.splits intro: extends_trans [OF w2 move])
qed

lemma plain_journal_remove: "extends P w (journal_remove api w)"
  by (auto simp: journal_remove_def extends_def journal_gone split: prod.splits dest!: trace_remove)

section \<open>Transfers\<close>

text \<open>A step keeps the class of events and the descriptor of the open stream.\<close>

definition steps :: "'f installer \<Rightarrow> 'f installer \<Rightarrow> bool" where
  "steps u v \<longleftrightarrow> moves P u v \<and> in_active_fd v = in_active_fd u"

lemma steps_refl [simp, intro]: "steps u u"
  by (simp add: steps_def)

lemma steps_trans [trans]: "steps u v \<Longrightarrow> steps v w \<Longrightarrow> steps u w"
  unfolding steps_def using moves_trans by fastforce

lemma steps_still [simp]: "steps u (in_log items v) \<longleftrightarrow> steps u v" "steps u (on_fast f v) \<longleftrightarrow> steps u v"
  "steps (in_log items u) v \<longleftrightarrow> steps u v" "steps (on_fast f u) v \<longleftrightarrow> steps u v"
  by (simp_all add: steps_def)

lemma steps_world:
  assumes "on_world act u = (r, v)" and "\<And>w. act (in_world u) = (r, w) \<Longrightarrow> extends P (in_world u) w"
  shows "steps u v \<and> in_fast v = in_fast u"
  using on_world_moves [OF assms] on_world_active [OF assms(1)] by (simp add: steps_def)

lemma steps_calls:
  "on_world (fileXioLseek api g off origin) u = (there, v) \<Longrightarrow> steps u v \<and> in_fast v = in_fast u"
  "on_world (fileXioRead api g n) u = (got, v) \<Longrightarrow> steps u v \<and> in_fast v = in_fast u"
  "on_world (fileXioWrite api g data) u = (r, v) \<Longrightarrow> steps u v \<and> in_fast v = in_fast u"
  "on_world (heap_alloc api n) u = (ok, v) \<Longrightarrow> steps u v \<and> in_fast v = in_fast u"
  "on_world (poll_pad api) u = (buttons, v) \<Longrightarrow> steps u v \<and> in_fast v = in_fast u"
  "on_world (journal_save api t) u = (r, v) \<Longrightarrow> steps u v \<and> in_fast v = in_fast u"
  by (erule steps_world, erule plain_calls plain_journal_save)+

lemma steps_control:
  "hdl_status_fileXioIoctl2 api g rq u = (res, v) \<Longrightarrow> stream_request rq \<Longrightarrow> steps u v \<and> in_fast v = in_fast u"
  unfolding hdl_status_fileXioIoctl2_def
  by (erule steps_world) (auto split: prod.splits dest: plain_calls(7))

lemma steps_seek: "hdl_fast_fileXioLseek64 api fd off origin u = (r, v) \<Longrightarrow> steps u v"
  by (auto simp: hdl_fast_fileXioLseek64_def Let_def split: prod.splits if_splits dest!: steps_calls(1))

lemma steps_stats: "steps u (hdl_fast_io_log_stats api g verify u)"
proof -
  have log: "steps u (hdl_fast_iop_latency_log what stats v) \<longleftrightarrow> steps u v" for u v :: "'f installer" and what stats
    by (simp add: hdl_fast_iop_latency_log_def)
  have ctl: "on_world (\<lambda>w. case fileXioIoctl2 api g HDL_STREAM_GET_FAST_STATS w of (r, out, w1) \<Rightarrow> ((r, out), w1)) u =
      (res, v) \<Longrightarrow> steps u v" for res v
    using steps_control [of api g HDL_STREAM_GET_FAST_STATS u res v]
    by (simp add: hdl_status_fileXioIoctl2_def)
  show ?thesis
    by (auto simp: hdl_fast_io_log_stats_def Let_def log log_snapshot_def split: prod.splits dest!: ctl)
qed

lemma steps_resolve: "hdl_fast_resolve_source_total api s u = (r, v) \<Longrightarrow> steps u v"
  by (auto simp: hdl_fast_resolve_source_total_def Let_def split: prod.splits if_splits dest!: steps_calls(1)
      intro: steps_trans)

lemma dma_facts:
  assumes "hdl_fast_dma_read api command s off n u = ((r, data), v)"
    and heard: "fd = (if command = Target_to_ee then in_active_fd u else s)"
  shows "steps u v \<and> hears fd (happened u v) data \<and> length data \<le> n \<and> (r = INT_MIN \<longrightarrow> data = [])"
proof (cases "dma_fits (in_active_fd u) off n")
  case False
  then show ?thesis using assms(1) by (auto simp: hdl_fast_dma_read_def)
next
  case True
  define pre where "pre = (if command = Target_to_ee then (0, u) else hdl_fast_resolve_source_total api s u)"
  obtain k u1 where pre: "pre = (k, u1)" by fastforce
  have u1: "steps u u1" using pre steps_resolve by (auto simp: pre_def split: if_splits)
  show ?thesis
  proof (cases "k < 0")
    case True
    then show ?thesis using assms(1) pre u1 \<open>dma_fits _ _ _\<close>
      by (auto simp: hdl_fast_dma_read_def pre_def [symmetric])
  next
    case False
    define rq where "rq = dma_request command s n (in_fast u1)"
    obtain out w where io: "fileXioIoctl2 api (in_active_fd u1) rq (in_world u1) = (r, out, w)"
      and data: "data = take (nat r) (fill_buffer n out)"
      and v: "v = u1\<lparr>in_session := (in_session u1)\<lparr>se_world := w\<rparr>\<rparr>"
      using assms(1) False \<open>dma_fits _ _ _\<close>
      by (auto simp: hdl_fast_dma_read_def pre_def [symmetric] pre rq_def [symmetric] on_world_iff split: prod.splits)
    have rq: "stream_request rq" by (cases command) (simp_all add: rq_def dma_request_def)
    have step: "steps u1 v"
      using plain_calls(7) [OF io rq] by (simp add: steps_def moves_def v)
    have n: "unat (of_nat n :: u32) = n" using \<open>dma_fits _ _ _\<close> by (simp add: dma_fits_def unat_of_nat)
    have "in_active_fd u1 = in_active_fd u" using u1 by (simp add: steps_def)
    then have "delivery fd (Controlled (in_active_fd u1) rq r out) = data"
      using heard by (cases command) (simp_all add: rq_def dma_request_def n data)
    moreover have "happened u1 v = [Controlled (in_active_fd u1) rq r out]"
      using trace_ioctl2 [OF io] by (simp add: v since_def)
    ultimately have "hears fd (happened u1 v) data" by (simp add: hears_event)
    moreover have "happened u v = happened u u1 @ happened u1 v"
      using u1 step by (auto simp: steps_def intro: happened_trans)
    ultimately show ?thesis
      using steps_trans [OF u1 step] by (auto simp: hears_more data)
  qed
qed

lemma steps_happened: "steps u v \<Longrightarrow> steps v w \<Longrightarrow> happened u w = happened u v @ happened v w"
  unfolding steps_def by (blast intro: happened_trans)

text \<open>A run that delivers bytes from a descriptor, read through the open stream or beside it.\<close>

definition brings :: "int \<Rightarrow> 'f installer \<Rightarrow> 'f installer \<Rightarrow> byte list \<Rightarrow> bool" where
  "brings fd u v data \<longleftrightarrow> steps u v \<and> hears fd (happened u v) data"

lemma brings_steps: "brings fd u v data \<Longrightarrow> steps u v"
  by (simp add: brings_def)

lemma brings_after:
  assumes "steps u v" "brings fd v w data"
  shows "brings fd u w data"
proof -
  have s: "steps v w" using assms(2) by (simp add: brings_def)
  show ?thesis
    using assms(2) steps_trans [OF assms(1) s] hears_more(2)
    by (simp add: brings_def steps_happened [OF assms(1) s])
qed

lemma brings_before:
  assumes "brings fd u v data" "steps v w"
  shows "brings fd u w data"
proof -
  have s: "steps u v" using assms(1) by (simp add: brings_def)
  show ?thesis
    using assms(1) steps_trans [OF s assms(2)] hears_more(1)
    by (simp add: brings_def steps_happened [OF s assms(2)])
qed

lemma brings_append:
  assumes "brings fd u v data" "brings fd v w rest"
  shows "brings fd u w (data @ rest)"
proof -
  have s: "steps u v" "steps v w" using assms by (simp_all add: brings_def)
  show ?thesis
    using assms steps_trans [OF s] hears_append by (simp add: brings_def steps_happened [OF s])
qed

lemma brings_nothing: "steps u v \<Longrightarrow> brings fd u v []"
  by (simp add: brings_def)

lemma brings_still [simp]: "brings fd u (in_log items v) data \<longleftrightarrow> brings fd u v data"
    "brings fd u (on_fast f v) data \<longleftrightarrow> brings fd u v data"
    "brings fd (on_fast f u) v data \<longleftrightarrow> brings fd u v data"
  by (simp_all add: brings_def)

lemma plain_read_brings:
  assumes "plain_read api fd n u = (got, v)"
  shows "steps u v" and "got = Inr data \<Longrightarrow> brings fd u v data \<and> length data \<le> n"
proof -
  obtain w where rd: "fileXioRead api fd n (in_world u) = (got, w)"
    and v: "v = u\<lparr>in_session := (in_session u)\<lparr>se_world := w\<rparr>\<rparr>"
    using assms by (auto simp: plain_read_def on_world_iff)
  show step: "steps u v" using steps_calls(2) [of api fd n u got v] assms by (simp add: plain_read_def)
  have "happened u v = [ReadFrom fd n got]" using trace_read [OF rd] by (simp add: v since_def)
  then show "got = Inr data \<Longrightarrow> brings fd u v data \<and> length data \<le> n"
    using step read_bounded rd by (auto simp: brings_def intro: hears_event)
qed

lemma slow_read_brings:
  assumes "slow_read api fd n u = (got, v)"
  shows "steps u v \<and> (\<forall>data. got = Inr data \<longrightarrow> brings fd u v data \<and> length data \<le> n)"
proof -
  define position where "position = sint (fast_source_position (in_fast u))"
  obtain there u1 where seek: "(if follows_source fd u then on_world (fileXioLseek api fd position FIO_SEEK_SET) u
      else (position, u)) = (there, u1)" by fastforce
  have u1: "steps u u1" using seek by (auto split: if_splits dest: steps_calls(1))
  obtain res u2 where rd: "plain_read api fd n u1 = (res, u2)" by fastforce
  note facts = plain_read_brings [OF rd]
  show ?thesis
    using assms seek u1 rd facts brings_after [OF u1] steps_trans [OF u1 facts(1)]
    unfolding slow_read_def position_def [symmetric] Let_def
    by (auto split: if_splits sum.splits)
qed

lemma steps_after_target: "steps u (after_target_read api r u)"
  by (auto simp: after_target_read_def Let_def steps_stats intro: steps_trans [OF _ steps_stats])

lemma steps_after_source: "steps u (after_source_read command r n u)"
  by (auto simp: after_source_read_def Let_def)

lemma fast_read_brings:
  assumes "hdl_fast_fileXioRead api fd off n u = (got, v)"
  shows "steps u v \<and> (\<forall>data. got = Inr data \<longrightarrow> brings fd u v data \<and> length data \<le> n)"
proof -
  have dma: "steps u v \<and> (\<forall>data. got = Inr data \<longrightarrow> brings fd u v data \<and> length data \<le> n)"
    if run: "(let ((r, data), u1) = hdl_fast_dma_read api command s off n u0 in
        if r \<noteq> INT_MIN then (fast_result r data, after api r u1) else slow_read api fd n u1) = (got, v)"
      and fd: "fd = (if command = Target_to_ee then in_active_fd u else s)" and u0: "u0 = u \<or> u0 = on_fast f u"
      and after: "\<And>r w. steps w (after api r w)" for command s u0 f after
  proof -
    obtain r data u1 where d: "hdl_fast_dma_read api command s off n u0 = ((r, data), u1)" by (metis prod.exhaust)
    have "in_active_fd u0 = in_active_fd u" using u0 by auto
    then have "fd = (if command = Target_to_ee then in_active_fd u0 else s)" using fd by simp
    from dma_facts [OF d this] have u1: "brings fd u u1 data" "length data \<le> n" using u0 by (auto simp: brings_def)
    show ?thesis
    proof (cases "r = INT_MIN")
      case True
      then have "slow_read api fd n u1 = (got, v)" using run d by simp
      from slow_read_brings [OF this] show ?thesis
        using brings_steps [OF u1(1)] by (auto intro: steps_trans brings_after)
    next
      case False
      then have out: "got = fast_result r data" "v = after api r u1" using run d by auto
      have "brings fd u v data" unfolding out(2) by (rule brings_before [OF u1(1) after])
      then show ?thesis using u1(2) out(1) by (auto simp: fast_result_def brings_steps split: if_splits)
    qed
  qed
  consider (empty) "n = 0" | (target) "n \<noteq> 0" "fd = in_active_fd u"
    | (source) "n \<noteq> 0" "fd \<noteq> in_active_fd u" "in_active_fd u \<ge> 0 \<and> fast_position_valid (in_fast u) \<and>
        fd = fast_source_fd (in_fast u)"
    | (other) "n \<noteq> 0" "fd \<noteq> in_active_fd u" "\<not> (in_active_fd u \<ge> 0 \<and> fast_position_valid (in_fast u) \<and>
        fd = fast_source_fd (in_fast u))" by blast
  then show ?thesis
  proof cases
    case empty
    then have rd: "plain_read api fd n u = (got, v)" using assms by (simp add: hdl_fast_fileXioRead_def)
    show ?thesis using plain_read_brings [OF rd] by blast
  next
    case target
    show ?thesis
      using assms target unfolding hdl_fast_fileXioRead_def Let_def
      by (intro dma [of Target_to_ee "- 1" _ after_target_read]) (auto simp: Let_def steps_after_target)
  next
    case source
    show ?thesis
      using assms source unfolding hdl_fast_fileXioRead_def
      by (intro dma [of "if fast_pump_mode (in_fast u) then Pump_to_ee else Source_to_ee" fd u
          "\<lambda>api r. after_source_read (if fast_pump_mode (in_fast u) then Pump_to_ee else Source_to_ee) r n"])
        (auto simp: Let_def steps_after_source)
  next
    case other
    then have rd: "slow_read api fd n u = (got, v)" using assms by (auto simp: hdl_fast_fileXioRead_def)
    show ?thesis using slow_read_brings [OF rd] by blast
  qed
qed

lemma steps_write: "hdl_fast_fileXioWrite api fd data u = (r, v) \<Longrightarrow> steps u v"
  by (auto simp: hdl_fast_fileXioWrite_def Let_def split: if_splits dest: steps_calls(3)
      intro: steps_trans [OF _ steps_stats])

lemma read_exact_brings:
  "read_exact_from api fd want received u = (got, v) \<Longrightarrow> steps u v \<and> (\<forall>e. got = Inl e \<longrightarrow> e < 0) \<and>
    (\<forall>data. got = Inr data \<longrightarrow> length received \<le> want \<longrightarrow> length data = want \<and>
      (\<exists>rest. data = received @ rest \<and> brings fd u v rest))"
proof (induction "want - length received" arbitrary: received u rule: less_induct)
  case less
  show ?case
  proof (cases "length received < want")
    case False
    then show ?thesis using less.prems by (auto simp: read_exact_from.simps [of api fd want received u] brings_nothing)
  next
    case True
    obtain r u1 where rd: "hdl_fast_fileXioRead api fd (length received) (want - length received) u = (r, u1)"
      by fastforce
    note facts = fast_read_brings [OF rd]
    show ?thesis
    proof (cases "\<exists>bytes. r = Inr bytes \<and> bytes \<noteq> []")
      case False
      then show ?thesis using less.prems rd True facts
        by (auto simp: read_exact_from.simps [of api fd want received u] split: sum.splits if_splits)
    next
      case some: True
      then obtain bytes where bytes: "r = Inr bytes" "bytes \<noteq> []" by blast
      have run: "read_exact_from api fd want (received @ bytes) u1 = (got, v)"
        using less.prems rd True bytes by (simp add: read_exact_from.simps [of api fd want received u])
      have shorter: "want - length (received @ bytes) < want - length received"
        using True bytes(2) by (cases bytes) auto
      have b: "brings fd u u1 bytes" "length bytes \<le> want - length received" using facts bytes(1) by blast+
      note ih = less.hyps [OF shorter run]
      have "steps u v" using ih brings_steps [OF b(1)] steps_trans by blast
      moreover have "length data = want \<and> (\<exists>rest. data = received @ rest \<and> brings fd u v rest)"
        if got: "got = Inr data" "length received \<le> want" for data
      proof -
        have "length (received @ bytes) \<le> want" using b(2) True by simp
        then obtain rest where "length data = want" "data = (received @ bytes) @ rest" "brings fd u1 v rest"
          using ih got(1) by blast
        then show ?thesis using brings_append [OF b(1)] by auto
      qed
      ultimately show ?thesis using ih by blast
    qed
  qed
qed

lemma read_exact_fd_brings:
  assumes "read_exact_fd api fd n u = (got, v)"
  shows "steps u v \<and> (\<forall>e. got = Inl e \<longrightarrow> e < 0) \<and> (\<forall>data. got = Inr data \<longrightarrow> length data = n \<and> brings fd u v data)"
  using read_exact_brings [OF assms [unfolded read_exact_fd_def]] by auto

lemma write_exact_steps: "write_exact_fd api fd data u = (r, v) \<Longrightarrow> steps u v \<and> r \<le> 0"
proof (induction "length data" arbitrary: data u rule: less_induct)
  case less
  obtain written u1 where wr: "hdl_fast_fileXioWrite api fd data u = (written, u1)" by fastforce
  show ?case
  proof (cases "data = [] \<or> written \<le> 0")
    case True
    then show ?thesis using less.prems wr steps_write [OF wr]
      by (auto simp: write_exact_fd.simps [of api fd data u] split: if_splits)
  next
    case False
    then have "write_exact_fd api fd (drop (nat written) data) u1 = (r, v)"
      using less.prems wr by (simp add: write_exact_fd.simps [of api fd data u])
    moreover have "length (drop (nat written) data) < length data" using False by (cases data) auto
    ultimately show ?thesis using less.hyps steps_write [OF wr] steps_trans by blast
  qed
qed

end

section \<open>Digests of a stream\<close>

definition hashed :: "sha256_context \<Rightarrow> byte list \<Rightarrow> bool" where
  "hashed ctx m \<longleftrightarrow> (\<exists>pieces. concat pieces = m \<and> ctx = fold (\<lambda>piece ctx. sha256_update ctx piece) pieces sha256_init)"

lemma hashed_init [simp, intro]: "hashed sha256_init []"
  unfolding hashed_def by (rule exI [of _ "[]"]) simp

lemma hashed_update:
  assumes "hashed ctx m"
  shows "hashed (sha256_update ctx d) (m @ d)"
proof -
  obtain pieces where "concat pieces = m" "ctx = fold (\<lambda>piece ctx. sha256_update ctx piece) pieces sha256_init"
    using assms by (auto simp: hashed_def)
  then show ?thesis unfolding hashed_def by (intro exI [of _ "pieces @ [d]"]) simp
qed

lemma hashed_final: "hashed ctx m \<Longrightarrow> sha256_final ctx = sha256_buffer m"
  unfolding hashed_def using sha256_streaming by blast

context plain_events
begin

lemma hash_stream_brings:
  assumes "hash_stream api fd stop offset hash u = (got, v)" and "hashed hash m"
  shows "steps u v \<and> (\<forall>e. got = Inl e \<longrightarrow> e < 0) \<and> (\<forall>hash'. got = Inr hash' \<longrightarrow>
    (\<exists>data. brings fd u v data \<and> length data = unat stop - unat offset \<and> hashed hash' (m @ data)))"
  using assms
proof (induction "unat stop - unat offset" arbitrary: offset hash m u rule: less_induct)
  case less
  show ?case
  proof (cases "offset < stop")
    case False
    then have "unat stop - unat offset = 0" by (simp add: word_less_nat_alt)
    then show ?thesis using less.prems False brings_nothing [of u u fd]
      by (auto simp: hash_stream.simps [of api fd stop offset hash u])
  next
    case True
    define n where "n = chunk_bytes offset stop"
    note chunk = stream_chunk [OF True, folded n_def]
    obtain r u1 where rd: "read_exact_fd api fd n u = (r, u1)" by fastforce
    note facts = read_exact_fd_brings [OF rd]
    show ?thesis
    proof (cases r)
      case (Inl e)
      then show ?thesis using less.prems(1) rd True facts
        by (auto simp: hash_stream.simps [of api fd stop offset hash u] n_def [symmetric] Let_def)
    next
      case (Inr d)
      then have run: "hash_stream api fd stop (offset + of_nat n) (sha256_update hash d) u1 = (got, v)"
        using less.prems(1) rd True
        by (simp add: hash_stream.simps [of api fd stop offset hash u] n_def [symmetric] Let_def)
      have shorter: "unat stop - unat (offset + of_nat n) < unat stop - unat offset"
        using chunk True by (simp add: word_less_nat_alt)
      have d: "length d = n" "brings fd u u1 d" using facts Inr by blast+
      note ih = less.hyps [OF shorter run hashed_update [OF less.prems(2)]]
      have "\<exists>data. brings fd u v data \<and> length data = unat stop - unat offset \<and> hashed hash' (m @ data)"
        if fin: "got = Inr hash'" for hash'
      proof -
        obtain data where "brings fd u1 v data" "length data = unat stop - unat (offset + of_nat n)"
          "hashed hash' ((m @ d) @ data)" using ih fin by blast
        then show ?thesis
          using brings_append [OF d(2)] d(1) chunk by (intro exI [of _ "d @ data"]) simp
      qed
      then show ?thesis using ih brings_steps [OF d(2)] steps_trans by blast
    qed
  qed
qed

end

lemma journal_save_code: "journal_save api t w = (r, v) \<Longrightarrow> r \<le> 0"
proof -
  have move: "journal_move api w' = (k, v') \<Longrightarrow> k \<le> 0" for w' k v'
    by (auto simp: journal_move_def split: prod.splits)
  show "journal_save api t w = (r, v) \<Longrightarrow> ?thesis"
    by (auto simp: journal_save_def Let_def split: prod.splits if_splits sum.splits dest: move)
qed

text \<open>Everything a copy changes in the transaction is its progress.\<close>

definition progressed :: "hdl_transaction \<Rightarrow> hdl_transaction \<Rightarrow> bool" where
  "progressed t t' \<longleftrightarrow> (\<exists>c. t' = t\<lparr>txn_completed_sectors := c\<rparr>)"

lemma progressed_refl [simp, intro]: "progressed t t"
  unfolding progressed_def by (rule exI [of _ "txn_completed_sectors t"]) simp

lemma progressed_trans: "progressed t (t1\<lparr>txn_completed_sectors := c\<rparr>) \<longleftrightarrow> progressed t t1"
  by (auto simp: progressed_def) (metis hdl_transaction.surjective hdl_transaction.update_convs(4))

lemma progressed_step: "progressed (t\<lparr>txn_completed_sectors := c\<rparr>) t' \<Longrightarrow> progressed t t'"
  by (auto simp: progressed_def)

context plain_events
begin

lemma copy_loop_brings:
  assumes "copy_loop api source_fd target_fd offset next_journal hash t u = ((r, t', hash'), v)" and "hashed hash m"
  shows "steps u v \<and> r \<le> 0 \<and> progressed t t' \<and> (r = 0 \<longrightarrow>
    (\<exists>data. brings source_fd u v data \<and> length data = unat (txn_source_bytes t) - unat offset \<and>
      hashed hash' (m @ data)))"
  using assms
proof (induction "unat (txn_source_bytes t) - unat offset" arbitrary: offset next_journal hash t m u rule: less_induct)
  case less
  show ?case
  proof (cases "offset < txn_source_bytes t")
    case False
    then have "unat (txn_source_bytes t) - unat offset = 0" by (simp add: word_less_nat_alt)
    then show ?thesis using less.prems False brings_nothing [of u u source_fd]
      by (auto simp: copy_loop.simps [of api source_fd target_fd offset next_journal hash t u])
  next
    case True
    define n where "n = chunk_bytes offset (txn_source_bytes t)"
    note chunk = stream_chunk [OF True, folded n_def]
    note unfolded = less.prems(1) [unfolded copy_loop.simps [of api source_fd target_fd offset next_journal hash t u]
      n_def [symmetric]]
    obtain got u1 where rd: "read_exact_fd api source_fd n u = (got, u1)" by fastforce
    note heard = read_exact_fd_brings [OF rd]
    show ?thesis
    proof (cases got)
      case (Inl e)
      then show ?thesis using unfolded rd True heard by (auto simp: Let_def)
    next
      case (Inr d)
      then have d: "length d = n" "brings source_fd u u1 d" using heard by blast+
      obtain written u2 where wr: "write_exact_fd api target_fd d u1 = (written, u2)" by fastforce
      have u2: "steps u1 u2" "written \<le> 0" using write_exact_steps [OF wr] by auto
      have b2: "brings source_fd u u2 d" by (rule brings_before [OF d(2) u2(1)])
      define t1 where "t1 = t\<lparr>txn_completed_sectors := (offset + of_nat n) div 2048\<rparr>"
      define due where "due \<longleftrightarrow> txn_completed_sectors t1 \<ge> next_journal \<or> offset + of_nat n = txn_source_bytes t1"
      obtain saved u3 where sv: "(if due then in_journal_save api t1 u2 else (0, u2)) = (saved, u3)" by fastforce
      have u3: "steps u2 u3 \<and> saved \<le> 0"
        using sv steps_calls(6) journal_save_code by (fastforce simp: in_journal_save_def on_world_iff split: if_splits)
      then have b3: "brings source_fd u u3 d" using brings_before [OF b2] by blast
      obtain buttons u4 where pad: "on_world (poll_pad api) u3 = (buttons, u4)" by fastforce
      have b4: "brings source_fd u u4 d" using brings_before [OF b3] steps_calls(5) [OF pad] by blast
      define nj where "nj = (if due then txn_completed_sectors t1 + HDL_INSTALL_JOURNAL_INTERVAL_SECTORS else next_journal)"
      note chosen = unfolded [unfolded Let_def rd prod.case Inr sum.case wr t1_def [symmetric] due_def [symmetric] sv
        nj_def [symmetric] pad]
      consider (unwritten) "written < 0" | (unsaved) "written = 0" "saved < 0"
        | (paused) "written = 0" "saved = 0" "pressed buttons PAD_TRIANGLE"
        | (running) "written = 0" "saved = 0" "\<not> pressed buttons PAD_TRIANGLE" using u2 u3 by linarith
      then show ?thesis
      proof cases
        case unwritten
        then show ?thesis using chosen True brings_steps [OF b2] by auto
      next
        case unsaved
        then show ?thesis using chosen True brings_steps [OF b3] by (auto simp: t1_def progressed_trans)
      next
        case paused
        obtain k u5 where sv5: "in_journal_save api t1 u4 = (k, u5)" by fastforce
        have "steps u4 u5 \<and> k \<le> 0"
          using sv5 steps_calls(6) journal_save_code by (fastforce simp: in_journal_save_def on_world_iff)
        then show ?thesis using chosen True paused sv5 brings_steps [OF b4]
          by (auto simp: t1_def progressed_trans intro: steps_trans split: if_splits)
      next
        case running
        then have run: "copy_loop api source_fd target_fd (offset + of_nat n) nj (sha256_update hash d) t1 u4 =
            ((r, t', hash'), v)" using chosen True by simp
        have shorter: "unat (txn_source_bytes t1) - unat (offset + of_nat n) < unat (txn_source_bytes t) - unat offset"
          using chunk True by (simp add: word_less_nat_alt t1_def)
        note ih = less.hyps [OF shorter run hashed_update [OF less.prems(2)]]
        have "\<exists>data. brings source_fd u v data \<and> length data = unat (txn_source_bytes t) - unat offset \<and>
            hashed hash' (m @ data)" if fin: "r = 0"
        proof -
          obtain data where "brings source_fd u4 v data"
            "length data = unat (txn_source_bytes t1) - unat (offset + of_nat n)" "hashed hash' ((m @ d) @ data)"
            using ih fin by blast
          then show ?thesis
            using brings_append [OF b4] d(1) chunk by (intro exI [of _ "d @ data"]) (simp add: t1_def)
        qed
        then show ?thesis using ih brings_steps [OF b4] steps_trans progressed_step
          unfolding t1_def by blast
      qed
    qed
  qed
qed

lemma steps_alloc: "on_world (heap_alloc api n) u = (ok, v) \<Longrightarrow> steps u v"
  using steps_calls(4) by blast

lemma copy_payload_brings:
  assumes run: "copy_payload api source_fd target_fd t u = ((r, t', dg), v)"
    and inside: "unat (txn_completed_sectors t * 2048) \<le> unat (txn_source_bytes t)"
  shows "steps u v \<and> r \<le> 0 \<and> progressed t t' \<and> (r = 0 \<longrightarrow>
    (\<exists>data. brings source_fd u v data \<and> length data = unat (txn_source_bytes t) \<and> dg = sha256_buffer data))"
proof -
  define offset where "offset = txn_completed_sectors t * 2048"
  define next_journal where "next_journal = txn_completed_sectors t + HDL_INSTALL_JOURNAL_INTERVAL_SECTORS"
  obtain ok u1 where al: "on_world (heap_alloc api HDL_INSTALL_IO_BYTES) u = (ok, u1)" by fastforce
  note u1 = steps_alloc [OF al]
  obtain rewound u0 where sk0: "hdl_fast_fileXioLseek64 api source_fd 0 FIO_SEEK_SET u1 = (rewound, u0)" by fastforce
  obtain begun u2 where pre: "(if offset > 0 then if rewound \<noteq> 0 then (Inl HDL_INSTALL_COPY_FAILED, u0)
      else hash_stream api source_fd offset 0 sha256_init u0 else (Inr sha256_init, u1)) = (begun, u2)" by fastforce
  obtain there u3 where sk: "hdl_fast_fileXioLseek64 api source_fd (sint offset) FIO_SEEK_SET u2 = (there, u3)" by fastforce
  obtain there' u4 where sk': "hdl_fast_fileXioLseek64 api target_fd (sint offset) FIO_SEEK_SET u3 = (there', u4)"
    by fastforce
  obtain k t1 hash1 u5 where lp: "(case begun of Inl e \<Rightarrow> ((e, t, sha256_init), u4) | Inr hash \<Rightarrow>
      copy_loop api source_fd target_fd offset next_journal hash t u4) = ((k, t1, hash1), u5)" by (metis prod.exhaust)
  have s34: "steps u2 u3" "steps u3 u4" using steps_seek [OF sk] steps_seek [OF sk'] .
  have u02: "steps u u2 \<and> (\<forall>e. begun = Inl e \<longrightarrow> e < 0) \<and> (\<forall>hash. begun = Inr hash \<longrightarrow>
      (\<exists>data. brings source_fd u u2 data \<and> length data = unat offset \<and> hashed hash data))"
  proof (cases "offset > 0")
    case False
    then show ?thesis using pre u1 brings_nothing [OF u1] by (auto simp: word_gt_0)
  next
    case True
    have u0: "steps u u0" using u1 steps_seek [OF sk0] steps_trans by blast
    show ?thesis
    proof (cases "rewound = 0")
      case False
      then show ?thesis using pre True u0 by auto
    next
      case stay: True
      then have hs: "hash_stream api source_fd offset 0 sha256_init u0 = (begun, u2)" using pre True by simp
      from hash_stream_brings [OF hs hashed_init] show ?thesis
        using u0 steps_trans brings_after [OF u0] by fastforce
    qed
  qed
  have whole: "copy_payload api source_fd target_fd t u = (if \<not> ok then ((HDL_INSTALL_MEMORY_FAILED, t, []), u1)
     else case begun of Inl e \<Rightarrow> ((e, t, []), u2) | Inr hash \<Rightarrow>
       if there \<noteq> sint offset then ((HDL_INSTALL_COPY_FAILED, t, []), u3)
       else if there' \<noteq> sint offset then ((HDL_INSTALL_COPY_FAILED, t, []), u4)
       else ((k, t1, if k = 0 then sha256_final hash1 else []), u5))"
    using pre lp by (auto simp: copy_payload_def Let_def al sk sk' sk0 offset_def [symmetric]
        next_journal_def [symmetric] split: if_splits sum.splits)
  show ?thesis
  proof (cases "ok \<and> (\<exists>hash. begun = Inr hash) \<and> there = sint offset \<and> there' = sint offset")
    case False
    then show ?thesis
      using run whole u1 u02 s34 by (auto split: if_splits sum.splits intro: steps_trans)
  next
    case True
    then obtain hash where hash: "begun = Inr hash" by blast
    then obtain head where head: "brings source_fd u u2 head" "length head = unat offset" "hashed hash head"
      using u02 by blast
    have b4: "brings source_fd u u4 head" using brings_before [OF brings_before [OF head(1)]] s34 by blast
    have out: "r = k" "t' = t1" "v = u5" "k = 0 \<Longrightarrow> dg = sha256_final hash1" using run whole True hash by auto
    have lp': "copy_loop api source_fd target_fd offset next_journal hash t u4 = ((k, t1, hash1), u5)"
      using lp hash by simp
    note facts = copy_loop_brings [OF lp' head(3)]
    have "\<exists>data. brings source_fd u v data \<and> length data = unat (txn_source_bytes t) \<and> dg = sha256_buffer data"
      if fin: "r = 0"
    proof -
      obtain rest where "brings source_fd u4 u5 rest" "length rest = unat (txn_source_bytes t) - unat offset"
        "hashed hash1 (head @ rest)" using facts fin out(1) by blast
      then show ?thesis
        using brings_append [OF b4] out(3,4) fin out(1) hashed_final head(2) inside
        by (intro exI [of _ "head @ rest"]) (simp add: offset_def)
    qed
    then show ?thesis using facts out brings_steps [OF b4] steps_trans by blast
  qed
qed

end

text \<open>The descriptor was set to its start, and what was read from there has this size and digest.\<close>

definition checked_back :: "int \<Rightarrow> file_event list \<Rightarrow> nat \<Rightarrow> byte list \<Rightarrow> bool" where
  "checked_back fd es n dg \<longleftrightarrow> (\<exists>pre post data. es = pre @ Sought fd 0 FIO_SEEK_SET 0 # post \<and>
    hears fd post data \<and> length data = n \<and> sha256_buffer data = dg)"

lemma checked_back_more: "checked_back fd es n dg \<Longrightarrow> checked_back fd (es @ fs) n dg"
    "checked_back fd fs n dg \<Longrightarrow> checked_back fd (es @ fs) n dg"
proof -
  assume "checked_back fd es n dg"
  then obtain pre post data where "es @ fs = pre @ Sought fd 0 FIO_SEEK_SET 0 # (post @ fs)"
    "hears fd (post @ fs) data" "length data = n" "sha256_buffer data = dg"
    unfolding checked_back_def using hears_more(1) by fastforce
  then show "checked_back fd (es @ fs) n dg" unfolding checked_back_def by blast
next
  assume "checked_back fd fs n dg"
  then show "checked_back fd (es @ fs) n dg" unfolding checked_back_def by (metis append.assoc)
qed

definition same_job :: "hdl_transaction \<Rightarrow> hdl_transaction \<Rightarrow> bool" where
  "same_job t t' \<longleftrightarrow> (\<exists>stage c. t' = t\<lparr>txn_stage := stage, txn_completed_sectors := c\<rparr>)"

lemma same_job_refl [simp, intro]: "same_job t t"
  unfolding same_job_def by (rule exI [of _ "txn_stage t"], rule exI [of _ "txn_completed_sectors t"]) simp

lemma same_job_trans: "same_job t t1 \<Longrightarrow> same_job t1 t2 \<Longrightarrow> same_job t t2"
  by (auto simp: same_job_def) (metis hdl_transaction.surjective hdl_transaction.update_convs(1,4))

lemma same_job_progressed: "progressed t t' \<Longrightarrow> same_job t t' \<and> txn_stage t' = txn_stage t"
  by (auto simp: progressed_def same_job_def) (metis hdl_transaction.surjective hdl_transaction.update_convs(1))

lemma same_job_source: "same_job t t' \<Longrightarrow> txn_source_bytes t' = txn_source_bytes t \<and> txn_target t' = txn_target t"
  by (auto simp: same_job_def)

lemma set_stage_facts:
  "hdl_transaction_set_stage t stage c = (r, t') \<Longrightarrow>
    r \<le> 0 \<and> same_job t t' \<and> (r = 0 \<longrightarrow> txn_stage t' = stage \<and> transaction_valid t')"
  by (auto simp: hdl_transaction_set_stage_def Let_def same_job_def split: if_splits)
    (metis hdl_transaction.surjective hdl_transaction.update_convs(1,4))+

context plain_events
begin

lemma start_seek:
  assumes "hdl_fast_fileXioLseek64 api fd 0 FIO_SEEK_SET u = (0, v)"
  shows "happened u v = [Sought fd 0 FIO_SEEK_SET 0]"
proof -
  obtain k u1 where sk: "on_world (fileXioLseek api fd 0 FIO_SEEK_SET) u = (k, u1)" by fastforce
  then obtain w where "fileXioLseek api fd 0 FIO_SEEK_SET (in_world u) = (k, w)" "in_world u1 = w"
    by (auto simp: on_world_iff)
  then have "happened u u1 = [Sought fd 0 FIO_SEEK_SET k]" by (auto simp: since_def dest!: trace_lseek)
  then show ?thesis using assms sk by (auto simp: hdl_fast_fileXioLseek64_def Let_def split: if_splits)
qed

lemma verify_checked:
  assumes "verify_target_digest api t fd dg u = (r, v)"
  shows "steps u v \<and> r \<le> 0 \<and> (r = 0 \<longrightarrow> checked_back fd (happened u v) (unat (txn_source_bytes t)) dg)"
proof -
  obtain ok u1 where al: "on_world (heap_alloc api HDL_INSTALL_IO_BYTES) u = (ok, u1)" by fastforce
  obtain there u2 where sk: "hdl_fast_fileXioLseek64 api fd 0 FIO_SEEK_SET u1 = (there, u2)" by fastforce
  obtain got u3 where hs: "hash_stream api fd (txn_source_bytes t) 0 sha256_init u2 = (got, u3)" by fastforce
  note run = assms [unfolded verify_target_digest_def al Let_def prod.case sk hs]
  note u1 = steps_alloc [OF al] and u2 = steps_seek [OF sk] and facts = hash_stream_brings [OF hs hashed_init]
  show ?thesis
  proof (cases "ok \<and> there = 0 \<and> (\<exists>hash. got = Inr hash \<and> dg = sha256_final hash)")
    case False
    then show ?thesis using run u1 u2 facts by (auto split: if_splits sum.splits intro: steps_trans)
  next
    case True
    then obtain hash where hash: "got = Inr hash" "dg = sha256_final hash" by blast
    then obtain data where data: "brings fd u2 u3 data" "length data = unat (txn_source_bytes t)" "hashed hash data"
      using facts by auto
    have out: "r = 0" "v = u3" using run True hash by auto
    have u12: "steps u u2" by (rule steps_trans [OF u1 u2])
    have "happened u1 u2 = [Sought fd 0 FIO_SEEK_SET 0]" using start_seek sk True by simp
    then have "happened u v = happened u u1 @ Sought fd 0 FIO_SEEK_SET 0 # happened u2 u3"
      using steps_happened [OF u12 brings_steps [OF data(1)]] steps_happened [OF u1 u2] out(2) by simp
    then have "checked_back fd (happened u v) (unat (txn_source_bytes t)) dg"
      unfolding checked_back_def using data hash(2) hashed_final by (auto simp: brings_def)
    then show ?thesis using steps_trans [OF u12 brings_steps [OF data(1)]] out by simp
  qed
qed

lemma hash_source_brings:
  assumes "hash_source_payload api t fd u = (got, v)"
  shows "steps u v \<and> (\<forall>e. got = Inl e \<longrightarrow> e < 0) \<and> (\<forall>dg. got = Inr dg \<longrightarrow>
    (\<exists>data. brings fd u v data \<and> length data = unat (txn_source_bytes t) \<and> dg = sha256_buffer data))"
proof -
  obtain ok u1 where al: "on_world (heap_alloc api HDL_INSTALL_IO_BYTES) u = (ok, u1)" by fastforce
  obtain there u2 where sk: "hdl_fast_fileXioLseek64 api fd 0 FIO_SEEK_SET u1 = (there, u2)" by fastforce
  obtain res u3 where hs: "hash_stream api fd (txn_source_bytes t) 0 sha256_init u2 = (res, u3)" by fastforce
  note run = assms [unfolded hash_source_payload_def al Let_def prod.case sk hs]
  note u2 = steps_trans [OF steps_alloc [OF al] steps_seek [OF sk]]
  note facts = hash_stream_brings [OF hs hashed_init]
  have "\<exists>data. brings fd u v data \<and> length data = unat (txn_source_bytes t) \<and> dg = sha256_buffer data"
    if fin: "got = Inr dg" for dg
  proof -
    obtain hash where hash: "res = Inr hash" "dg = sha256_final hash" "v = u3"
      using run fin by (auto split: if_splits sum.splits)
    then obtain data where "brings fd u2 u3 data" "length data = unat (txn_source_bytes t)" "hashed hash data"
      using facts by auto
    then show ?thesis using brings_after [OF u2] hash hashed_final by blast
  qed
  then show ?thesis
    using run facts u2 steps_alloc [OF al] by (auto split: if_splits sum.splits intro: steps_trans)
qed

lemma advance_facts:
  assumes "advance api stage c t u = ((r, t'), v)"
  shows "steps u v \<and> r \<le> 0 \<and> same_job t t' \<and> (r = 0 \<longrightarrow> txn_stage t' = stage \<and> transaction_valid t')"
proof -
  obtain k t1 where st: "hdl_transaction_set_stage t stage c = (k, t1)" by fastforce
  obtain saved u1 where sv: "in_journal_save api t1 u = (saved, u1)" by fastforce
  have "steps u u1" using sv steps_calls(6) [of api t1 u saved u1] by (simp add: in_journal_save_def)
  then show ?thesis using assms set_stage_facts [OF st] by (auto simp: advance_def st sv split: if_splits)
qed

section \<open>The stages before the copy\<close>

lemma steps_looked:
  assumes "on_session act u = (r, v)" and "\<And>s. act (in_session u) = (r, s) \<Longrightarrow> looks api (in_session u) s"
  shows "steps u v"
  using assms plain_looks by (auto simp: on_session_def steps_def moves_def split: prod.splits)

lemma steps_recheck: "hdl_transaction_recheck_disk api u = ((r, maximum, free_sectors), v) \<Longrightarrow> steps u v"
proof -
  assume run: "hdl_transaction_recheck_disk api u = ((r, maximum, free_sectors), v)"
  have target: "steps u w" if "on_session (\<lambda>s. case recheck_disk_target api target s of
      (r, found, maximum, free_sectors, s1) \<Rightarrow> ((r, found, maximum, free_sectors), s1)) u = (x, w)" for x w target
    using that by (rule steps_looked) (auto split: prod.splits dest: recheck_facts)
  have all: "steps u w" if "on_session (\<lambda>s. case recheck_disk api s of
      (r, maximum, free_sectors, s1) \<Rightarrow> ((r, maximum, free_sectors), s1)) u = (x, w)" for x w
    using that by (rule steps_looked) (auto simp: recheck_disk_def split: prod.splits dest: recheck_facts)
  have fields: "steps u (w\<lparr>in_guard_checked := b, in_guard_found := c\<rparr>) \<longleftrightarrow> steps u w" for w b c
    by (simp add: steps_def moves_def)
  show "steps u v"
    using run by (auto simp: hdl_transaction_recheck_disk_def Let_def fields split: if_splits prod.splits
        dest!: target all)
qed

lemma plain_open_source: "open_source api p n src w = (r, src', v) \<Longrightarrow> extends P w v"
  by (auto simp: open_source_def split: prod.splits if_splits dest: plain_calls(6) plain_calls(1)
      intro: extends_trans)

lemma plain_source_read: "source_read api src offset n w = (got, v) \<Longrightarrow> extends P w v"
  by (auto simp: source_read_def Let_def split: prod.splits if_splits sum.splits
      dest!: plain_calls(5) read_loop_extends [THEN conjunct1, THEN plain_reading] intro: extends_trans)

lemma plain_fingerprint: "source_fingerprint api src w = (got, v) \<Longrightarrow> extends P w v"
  by (auto simp: source_fingerprint_def Let_def split: prod.splits if_splits sum.splits
      dest!: plain_calls(9) plain_source_read intro: extends_trans)

lemma plain_reader: "keeps_good (file_reader api src) (extends P w0)"
  unfolding keeps_good_def file_reader_def
  by (auto split: prod.splits sum.splits dest!: plain_source_read intro: extends_trans)

lemma plain_identity: "source_identity_matches api src t w = Some (r, v) \<Longrightarrow> extends P w v \<and> r \<le> 0"
  by (auto simp: source_identity_matches_def split: if_splits dest!: probe_on_good [OF _ plain_reader])

lemma steps_close:
  "in_active_fd u \<noteq> fd \<Longrightarrow> steps u (hdl_status_fileXioClose api fd u)"
  "moves P u (hdl_status_fileXioClose api fd u)"
  by (auto simp: hdl_status_fileXioClose_def Let_def on_world_def on_session_def steps_def moves_def plain_calls(8)
      hdl_fast_io_reset_def in_log_def split: prod.splits)

end

section \<open>Commitments\<close>

text \<open>Every call but the one that commits the metadata of a game.\<close>

fun uncommitted :: "file_event \<Rightarrow> bool" where
  "uncommitted (Controlled fd (HDL_STREAM_COMMIT_METADATA m) r out) \<longleftrightarrow> False"
| "uncommitted e \<longleftrightarrow> True"

lemma uncommitted_reading: "reading_event e \<Longrightarrow> uncommitted e"
  by (cases e) auto

interpretation quiet_stage: plain_events uncommitted
proof
  show "stream_request rq \<Longrightarrow> uncommitted (Controlled fd rq r out)" for rq fd r out by (cases rq) auto
qed (auto simp: uncommitted_reading)

lemma uncommitted_calls:
  "fileXioOpen api p mode w = (fd, v) \<Longrightarrow> extends uncommitted w v"
  "fileXioRemove api p w = (r, v) \<Longrightarrow> extends uncommitted w v"
  by (auto simp: extends_def dest!: trace_open trace_remove)

lemma uncommitted_control:
  assumes "hdl_status_fileXioIoctl2 api g rq u = (res, v)" and "\<And>m. rq \<noteq> HDL_STREAM_COMMIT_METADATA m"
  shows "moves uncommitted u v"
proof -
  have "uncommitted (Controlled g rq r out)" for r out using assms(2) by (cases rq) auto
  then show ?thesis
    using assms(1) by (auto simp: hdl_status_fileXioIoctl2_def on_world_iff moves_def extends_def
        split: prod.splits dest!: trace_ioctl2)
qed

lemma uncommitted_world:
  "on_world (fileXioOpen api p mode) u = (fd, v) \<Longrightarrow> moves uncommitted u v"
  "on_world (fileXioRemove api p) u = (r, v) \<Longrightarrow> moves uncommitted u v"
  by (auto intro: on_world_moves uncommitted_calls)

lemma uncommitted_close: "moves uncommitted u (hdl_status_fileXioClose api fd u)"
  by (rule quiet_stage.steps_close(2))

lemma uncommitted_flush: "fileXioIoctl2 api g HIOCFLUSH w = (r, out, v) \<Longrightarrow> extends uncommitted w v"
  by (erule quiet_stage.plain_calls(7)) simp

lemma uncommitted_invalidate: "invalidate_area api fd w = (r, v) \<Longrightarrow> extends uncommitted w v"
  by (auto simp: invalidate_area_def Let_def split: prod.splits if_splits
      dest!: quiet_stage.plain_calls(3,4,5) uncommitted_flush intro: extends_trans)
    (blast intro: extends_trans)+

lemma uncommitted_created:
  assumes "created_target api fd u = (r, v)"
  shows "moves uncommitted u v"
proof -
  obtain k u1 where inv: "hdl_invalidate_created_metadata api fd u = (k, u1)" by fastforce
  define u2 where "u2 = snd (on_world (\<lambda>w. ((), fileXioClose api fd w)) u1)"
  then have cl: "on_world (\<lambda>w. ((), fileXioClose api fd w)) u1 = ((), u2)" by (simp add: prod_eq_iff)
  define p where "p = print_into 64 (ascii ''hdd0:'' @ in_guard_target u2)"
  obtain q u3 where rm: "(if in_guard_target u2 \<noteq> [] then on_world (fileXioRemove api p) u2 else (0, u2)) = (q, u3)"
    by fastforce
  obtain k0 u0 where area: "on_world (invalidate_area api fd) u = (k0, u0)" by fastforce
  have "moves uncommitted u u0" by (rule on_world_moves [OF area]) (rule uncommitted_invalidate)
  then have u1: "moves uncommitted u u1"
    using inv area by (auto simp: hdl_invalidate_created_metadata_def split: if_splits)
  have u2: "moves uncommitted u1 u2"
    by (rule on_world_moves [OF cl]) (auto intro: quiet_stage.plain_calls(8))
  have "moves uncommitted u2 u3" using rm uncommitted_world(2) by (auto split: if_splits)
  then have "moves uncommitted u u3" using moves_trans [OF u1 u2] moves_trans by blast
  moreover have "created_target api fd u = (if k < 0 then (HDL_INSTALL_CREATE_FAILED,
      in_log [Lit ''HDL new target metadata invalidation failed result='', Dec k] u3) else (fd, u1))"
    by (simp only: created_target_def inv prod.case Let_def cl unit.case p_def [symmetric] rm)
  then have "v = u1 \<or> (\<exists>items. v = in_log items u3)" using assms by (auto split: if_splits)
  ultimately show ?thesis using u1 by auto
qed

lemma moves_guard [simp]:
  "moves P u (v\<lparr>in_guard_active := b\<rparr>) \<longleftrightarrow> moves P u v" "moves P (u\<lparr>in_guard_active := b\<rparr>) v \<longleftrightarrow> moves P u v"
  "moves P u (v\<lparr>in_guard_consumed := b\<rparr>) \<longleftrightarrow> moves P u v" "moves P (u\<lparr>in_active_fd := n\<rparr>) v \<longleftrightarrow> moves P u v"
  by (simp_all add: moves_def)

lemma uncommitted_open:
  assumes "hdl_status_fileXioOpen api p mode u = (fd, v)"
  shows "moves uncommitted u v"
proof (cases "guard_answers p mode u")
  case True
  then show ?thesis using assms by (auto simp: hdl_status_fileXioOpen_def)
next
  case False
  define created where "created \<longleftrightarrow> on_device ''hdd0:'' p \<and> mode = FIO_RDWR_CREATE"
  define u0 where "u0 = (if created then u\<lparr>in_guard_active := False\<rparr> else u)"
  obtain k u1 where op: "on_world (fileXioOpen api p mode) u0 = (k, u1)" by fastforce
  obtain q u2 where cr: "(if k \<ge> 0 \<and> created then created_target api k u1 else (k, u1)) = (q, u2)" by fastforce
  have "moves uncommitted u u1" using uncommitted_world(1) [OF op] by (auto simp: u0_def split: if_splits)
  moreover have "moves uncommitted u1 u2" using cr uncommitted_created by (auto split: if_splits)
  ultimately have "moves uncommitted u u2" by (rule moves_trans)
  then show ?thesis
    using assms False unfolding hdl_status_fileXioOpen_def Let_def created_def [symmetric] u0_def [symmetric] op prod.case cr
    by (auto split: if_splits)
qed

lemma plain_target_read:
  assumes "read_target_metadata api target w = (got, v)"
  shows "extends uncommitted w v"
proof -
  obtain fits p where p: "target_path ''hdd0:'' target 64 = (fits, p)" by fastforce
  obtain fd w1 where o: "fileXioOpen api p FIO_RDONLY w = (fd, w1)" by fastforce
  obtain there w2 where l: "fileXioLseek api fd 0x100000 FIO_SEEK_SET w1 = (there, w2)" by fastforce
  obtain res w3 where r: "read_loop api HDL_INSTALL_METADATA_FAILED fd HDL_METADATA_SIZE [] w2 = (res, w3)" by fastforce
  have w1: "extends uncommitted w w1" by (rule uncommitted_calls(1) [OF o])
  have w2: "extends uncommitted w w2" by (rule extends_trans [OF w1 quiet_stage.plain_calls(5) [OF l]])
  have "extends uncommitted w2 w3" using read_loop_extends [OF r] quiet_stage.plain_reading by blast
  then have w3: "extends uncommitted w w3" by (rule extends_trans [OF w2])
  show ?thesis
    using assms w1 extends_trans [OF w2 quiet_stage.plain_calls(8)] extends_trans [OF w3 quiet_stage.plain_calls(8)]
    by (auto simp: read_target_metadata_def p o l r split: if_splits)
qed

lemma plain_target_state: "target_has_metadata api target w = (r, v) \<Longrightarrow> extends uncommitted w v"
  by (auto simp: target_has_metadata_def split: prod.splits dest: plain_target_read)

lemma uncommitted_incomplete: "remove_incomplete_target api target w = (r, v) \<Longrightarrow> extends uncommitted w v"
  by (auto simp: remove_incomplete_target_def Let_def split: prod.splits if_splits
      dest!: plain_target_state uncommitted_calls(2) intro: extends_trans)

lemma uncommitted_subs: "add_subs api t fd slices u = (r, v) \<Longrightarrow> moves uncommitted u v"
proof (induction slices arbitrary: u)
  case (Cons sl slices)
  define rq where "rq = HIOCADDSUB (size_text (slice_allocation_bytes sl) @ [0])"
  obtain k out u1 where io: "hdl_status_fileXioIoctl2 api fd rq u = ((k, out), u1)" by (metis prod.exhaust)
  have u1: "moves uncommitted u u1" by (rule uncommitted_control [OF io]) (simp add: rq_def)
  obtain q u3 where rm: "on_world (remove_incomplete_target api (array_string (txn_target t)))
      (hdl_status_fileXioClose api fd u1) = (q, u3)" by fastforce
  have "moves uncommitted (hdl_status_fileXioClose api fd u1) u3"
    by (rule on_world_moves [OF rm]) (rule uncommitted_incomplete)
  then have u3: "moves uncommitted u u3" using u1 uncommitted_close moves_trans by blast
  have "add_subs api t fd (sl # slices) u =
      (if k < 0 then (HDL_INSTALL_CREATE_FAILED, u3) else add_subs api t fd slices u1)"
    by (simp only: add_subs.simps rq_def [symmetric] io prod.case Let_def rm)
  then show ?case using Cons.prems u3 moves_trans [OF u1 Cons.IH] by (cases "k < 0") simp_all
qed simp

lemma uncommitted_flushed:
  assumes "flush_created api t fd u = (r, v)"
  shows "moves uncommitted u v"
proof -
  obtain k out u1 where io: "hdl_status_fileXioIoctl2 api fd HIOCFLUSH u = ((k, out), u1)" by (metis prod.exhaust)
  have u1: "moves uncommitted u u1" by (rule uncommitted_control [OF io]) simp
  obtain q u3 where rm: "on_world (remove_incomplete_target api (array_string (txn_target t)))
      (hdl_status_fileXioClose api fd u1) = (q, u3)" by fastforce
  have "moves uncommitted (hdl_status_fileXioClose api fd u1) u3"
    by (rule on_world_moves [OF rm]) (rule uncommitted_incomplete)
  moreover have u2: "moves uncommitted u (hdl_status_fileXioClose api fd u1)" using u1 uncommitted_close moves_trans by blast
  moreover have "flush_created api t fd u = (if k < 0 then (HDL_INSTALL_CREATE_FAILED, u3)
      else (0, hdl_status_fileXioClose api fd u1))"
    by (simp only: flush_created_def io prod.case Let_def rm)
  ultimately show ?thesis using assms moves_trans by (auto split: if_splits)
qed

lemma uncommitted_create:
  assumes "create_partitions api t plan u = (r, v)"
  shows "moves uncommitted u v"
proof -
  define p where "p = snd (target_path ''hdd0:'' (array_string (txn_target t)) 64)"
  define c where "c = print_into 96 (format_items [Lit ''hdd0:'', Str (array_string (txn_target t)), Lit '',,,'',
    Str (size_text (slice_allocation_bytes (hd (layout_slices plan)))), Lit '',HDL''])"
  obtain fd u1 where o1: "hdl_status_fileXioOpen api p FIO_RDONLY u = (fd, u1)" by fastforce
  obtain gd u2 where o2: "hdl_status_fileXioOpen api c FIO_RDWR_CREATE u1 = (gd, u2)" by fastforce
  obtain k u3 where sub: "add_subs api t gd (tl (layout_slices plan)) u2 = (k, u3)" by fastforce
  obtain q u4 where fl: "flush_created api t gd u3 = (q, u4)" by fastforce
  have u1: "moves uncommitted u u1" by (rule uncommitted_open [OF o1])
  have u2: "moves uncommitted u u2" by (rule moves_trans [OF u1 uncommitted_open [OF o2]])
  have u3: "moves uncommitted u u3" by (rule moves_trans [OF u2 uncommitted_subs [OF sub]])
  have u4: "moves uncommitted u u4" by (rule moves_trans [OF u3 uncommitted_flushed [OF fl]])
  have "create_partitions api t plan u =
      (if fd \<ge> 0 then (HDL_INSTALL_TARGET_EXISTS, hdl_status_fileXioClose api fd u1)
       else if gd < 0 then (gd, u2) else if k < 0 then (k, u3) else (q, u4))"
    by (simp only: create_partitions_def Let_def p_def [symmetric] c_def [symmetric] o1 o2 sub fl prod.case)
  then show ?thesis
    using assms u2 u3 u4 moves_trans [OF u1 uncommitted_close] by (auto split: if_splits)
qed

lemma uncommitted_target:
  assumes "open_target api t plan u = ((fd, layout), v)"
  shows "moves uncommitted u v"
proof -
  obtain fits p where p: "target_path ''hdl0:'' (array_string (txn_target t)) 64 = (fits, p)" by fastforce
  obtain gd u1 where op: "hdl_status_fileXioOpen api p FIO_RDWR u = (gd, u1)" by fastforce
  obtain k out u2 where io: "hdl_status_fileXioIoctl2 api gd HDL_STREAM_GET_LAYOUT u1 = ((k, out), u2)"
    by (metis prod.exhaust)
  have u1: "moves uncommitted u u1" by (rule uncommitted_open [OF op])
  have u2: "moves uncommitted u u2" by (rule moves_trans [OF u1 uncommitted_control [OF io]]) simp
  have "open_target api t plan u = (if fits < 0 then ((HDL_INSTALL_LAYOUT_MISMATCH, stream_layout []), u)
     else if gd < 0 then ((gd, stream_layout []), u1)
     else if k < 0 \<or> \<not> layout_matches plan (stream_layout out)
     then ((HDL_INSTALL_LAYOUT_MISMATCH, stream_layout out), hdl_status_fileXioClose api gd u2)
     else ((gd, stream_layout out), u2))"
    by (simp only: open_target_def Let_def p op io prod.case)
  then show ?thesis
    using assms u1 u2 moves_trans [OF u2 uncommitted_close] by (auto split: if_splits)
qed

lemma quiet_moves: "quiet_stage.steps u v \<Longrightarrow> moves uncommitted u v"
  by (simp add: quiet_stage.steps_def)

lemma uncommitted_preflight:
  assumes "transaction_preflight api t u = Some ((r, plan, src), v)"
  shows "moves uncommitted u v"
proof -
  define s0 where "s0 = \<lparr>src_fd = - 1, src_bytes = txn_source_bytes t\<rparr>"
  obtain k mx fr u1 where rc: "hdl_transaction_recheck_disk api u = ((k, mx, fr), u1)" by (metis prod.exhaust)
  have u1: "moves uncommitted u u1" by (rule quiet_moves [OF quiet_stage.steps_recheck [OF rc]])
  obtain pk pl where pl: "hdl_partition_plan_image (txn_source_bytes t) mx (Some empty_layout) = (pk, pl)" by fastforce
  obtain ok s1 u2 where os: "on_world (\<lambda>w. case open_source api (array_string (txn_source_path t)) (txn_source_bytes t) s0 w of
      (r, src, w1) \<Rightarrow> ((r, src), w1)) u1 = ((ok, s1), u2)" by (metis prod.exhaust)
  have "moves uncommitted u1 u2"
    by (rule on_world_moves [OF os]) (auto split: prod.splits dest: quiet_stage.plain_open_source)
  then have u2: "moves uncommitted u u2" by (rule moves_trans [OF u1])
  obtain fp u3 where fp: "on_world (source_fingerprint api s1) u2 = (fp, u3)" by fastforce
  have "moves uncommitted u2 u3" by (rule on_world_moves [OF fp]) (rule quiet_stage.plain_fingerprint)
  then have u3: "moves uncommitted u u3" by (rule moves_trans [OF u2])
  define after where "after w = u3\<lparr>in_session := (in_session u3)\<lparr>se_world := w\<rparr>\<rparr>" for w
  have ident: "moves uncommitted u (after w)" if "source_identity_matches api s1 t (in_world u3) = Some (e, w)" for e w
    using quiet_stage.plain_identity [OF that] u3 by (auto simp: after_def moves_def intro: extends_trans)
  note run = assms [unfolded transaction_preflight_def Let_def s0_def [symmetric] rc prod.case pl os fp after_def [symmetric]]
  show ?thesis
    using run u1 u2 moves_trans [OF u3 uncommitted_close] ident moves_trans [OF ident uncommitted_close]
    by (auto split: if_splits sum.splits)
qed

lemma uncommitted_prepare:
  assumes run: "transaction_prepare_target api t plan u = ((r, t', layout, fd), v)" and valid: "transaction_valid t"
  shows "moves uncommitted u v \<and> same_job t t' \<and> (0 \<le> r \<longrightarrow> transaction_valid t')"
proof -
  obtain k u0 where cr: "create_partitions api t plan u = (k, u0)" by fastforce
  obtain r1 t1 u1 where first: "(if txn_stage t = STAGE_PLANNED
      then if k < 0 then ((k, t), u0) else advance api STAGE_PARTITIONS_CREATED 0 t u0
      else ((0, t), u)) = ((r1, t1), u1)" by (metis prod.exhaust)
  have one: "moves uncommitted u u1 \<and> same_job t t1 \<and> (0 \<le> r1 \<longrightarrow> transaction_valid t1)"
  proof (cases "txn_stage t = STAGE_PLANNED \<and> \<not> k < 0")
    case False
    then show ?thesis using first valid uncommitted_create [OF cr] by (auto split: if_splits)
  next
    case True
    then have adv: "advance api STAGE_PARTITIONS_CREATED 0 t u0 = ((r1, t1), u1)" using first by simp
    show ?thesis
      using quiet_stage.advance_facts [OF adv] moves_trans [OF uncommitted_create [OF cr] quiet_moves] by auto
  qed
  obtain gd lay u2 where op: "open_target api t1 plan u1 = ((gd, lay), u2)" by (metis prod.exhaust)
  have u2: "moves uncommitted u u2" using one uncommitted_target [OF op] moves_trans by blast
  obtain r3 t3 u3 where adv: "advance api STAGE_COPYING 0 t1 u2 = ((r3, t3), u3)" by (metis prod.exhaust)
  note three = quiet_stage.advance_facts [OF adv]
  have u3: "moves uncommitted u u3" using three u2 quiet_moves moves_trans by blast
  have "transaction_prepare_target api t plan u = (if r1 < 0 then ((r1, t1, stream_layout [], - 1), u1)
     else if gd < 0 then ((gd, t1, lay, gd), u2)
     else if txn_stage t1 = STAGE_PARTITIONS_CREATED then ((r3, t3, lay, gd), u3) else ((0, t1, lay, gd), u2))"
    unfolding transaction_prepare_target_def cr prod.case first Let_def op adv ..
  then show ?thesis using run one u2 u3 three same_job_trans by (auto split: if_splits)
qed

text \<open>
  A payload checked for a target: bytes heard from some source, and the target set to its start and
  read back with their number and digest.
\<close>

definition payload_checked :: "int \<Rightarrow> nat \<Rightarrow> file_event list \<Rightarrow> bool" where
  "payload_checked fd n es \<longleftrightarrow> (\<exists>source_fd data. hears source_fd es data \<and> length data = n \<and>
    checked_back fd es n (sha256_buffer data))"

lemma payload_checked_after: "payload_checked fd n fs \<Longrightarrow> payload_checked fd n (es @ fs)"
  unfolding payload_checked_def by (metis hears_more(2) checked_back_more(2))

lemma payload_checked_join:
  "hears s es data \<Longrightarrow> length data = n \<Longrightarrow> checked_back fd fs n (sha256_buffer data) \<Longrightarrow>
    payload_checked fd n (es @ fs)"
  unfolding payload_checked_def using hears_more(1) checked_back_more(2) by metis

lemma completed_inside:
  assumes "transaction_valid t"
  shows "unat (txn_completed_sectors t * 2048) \<le> unat (txn_source_bytes t)"
proof -
  have "txn_completed_sectors t \<le> txn_source_bytes t div 2048"
    using assms by (auto simp: transaction_valid_def split: if_splits)
  then have le: "unat (txn_completed_sectors t) \<le> unat (txn_source_bytes t) div 2048"
    by (simp add: word_le_nat_alt unat_div)
  then have "unat (txn_completed_sectors t) * 2048 \<le> unat (txn_source_bytes t)" by (simp add: less_eq_div_iff_mult_less_eq)
  moreover have "unat (txn_source_bytes t) < 2 ^ 64"
    using unsigned_less [of "txn_source_bytes t", where 'a = nat] by simp
  ultimately show ?thesis by (simp add: unat_word_ariths)
qed

lemma copy_stage_facts:
  assumes run: "transaction_copy_stage api source_fd target_fd t u = ((r, t', dg, verified), v)"
    and valid: "transaction_valid t"
  shows "moves uncommitted u v \<and> same_job t t' \<and>
    (0 \<le> r \<longrightarrow> verified \<longrightarrow> payload_checked target_fd (unat (txn_source_bytes t)) (happened u v))"
proof (cases "txn_stage t = STAGE_COPYING")
  case False
  then show ?thesis using run by (simp add: transaction_copy_stage_def)
next
  case True
  obtain k t1 d1 u1 where cp: "copy_payload api source_fd target_fd t u = ((k, t1, d1), u1)" by (metis prod.exhaust)
  obtain fl out u2 where io: "hdl_status_fileXioIoctl2 api target_fd HDL_STREAM_FLUSH u1 = ((fl, out), u2)"
    by (metis prod.exhaust)
  obtain vr u3 where ver: "verify_target_digest api t1 target_fd d1 u2 = (vr, u3)" by fastforce
  obtain r4 t4 u4 where adv: "advance api STAGE_PAYLOAD_VERIFIED (txn_total_sectors t1) t1 u3 = ((r4, t4), u4)"
    by (metis prod.exhaust)
  note copied = quiet_stage.copy_payload_brings [OF cp completed_inside [OF valid]]
  note checked = quiet_stage.verify_checked [OF ver] and four = quiet_stage.advance_facts [OF adv]
  have job: "same_job t t1" "txn_source_bytes t1 = txn_source_bytes t" "same_job t t4"
    using copied four same_job_progressed same_job_source same_job_trans by blast+
  have s: "quiet_stage.steps u u1" "quiet_stage.steps u1 u2" "quiet_stage.steps u2 u3" "quiet_stage.steps u3 u4"
    using copied quiet_stage.steps_control [OF io] checked four by simp_all
  note s12 = quiet_stage.steps_trans [OF s(1,2)] and s13 = quiet_stage.steps_trans [OF s(2,3)]
  note s03 = quiet_stage.steps_trans [OF s(1) s13] and s14 = quiet_stage.steps_trans [OF s13 s(4)]
  note s04 = quiet_stage.steps_trans [OF s(1) s14]
  have out: "transaction_copy_stage api source_fd target_fd t u = (if k < 0 then ((k, t1, d1, False), u1)
     else if fl < 0 then ((HDL_INSTALL_COPY_FAILED, t1, d1, True), u2)
     else if vr < 0 then ((vr, t1, d1, True), u3) else ((r4, t4, d1, True), u4))"
    using True by (simp add: transaction_copy_stage_def cp io ver adv)
  have "payload_checked target_fd (unat (txn_source_bytes t)) (happened u v)" if "0 \<le> r" verified
  proof -
    have fin: "k = 0" "vr = 0" "v = u4" using run out that copied checked by (auto split: if_splits)
    obtain data where data: "hears source_fd (happened u u1) data" "length data = unat (txn_source_bytes t)"
      "d1 = sha256_buffer data" using copied fin(1) by (auto simp: quiet_stage.brings_def)
    have "checked_back target_fd (happened u2 u3) (unat (txn_source_bytes t)) (sha256_buffer data)"
      using checked fin(2) job(2) data(3) by simp
    then have "checked_back target_fd (happened u1 u4) (unat (txn_source_bytes t)) (sha256_buffer data)"
      unfolding quiet_stage.steps_happened [OF s13 s(4)] quiet_stage.steps_happened [OF s(2,3)]
      by (intro checked_back_more)
    then show ?thesis
      using payload_checked_join [OF data(1,2)] quiet_stage.steps_happened [OF s(1) s14] fin(3)
      by simp
  qed
  then show ?thesis using run out quiet_moves s(1) s12 s03 s04 job by (auto split: if_splits)
qed

text \<open>A run that commits at most once, after a payload was checked for the very target.\<close>

definition checked_commit :: "nat \<Rightarrow> 'f installer \<Rightarrow> 'f installer \<Rightarrow> bool" where
  "checked_commit n u v \<longleftrightarrow> moves uncommitted u v \<or>
    (\<exists>a b fd m r out. moves uncommitted u a \<and> payload_checked fd n (happened u a) \<and>
      trace (in_world b) = trace (in_world a) @ [Controlled fd (HDL_STREAM_COMMIT_METADATA m) r out] \<and>
      moves uncommitted b v)"

lemma checked_commit_before:
  assumes "moves uncommitted u u'" and "checked_commit n u' v"
  shows "checked_commit n u v"
proof (cases "moves uncommitted u' v")
  case True
  then show ?thesis using moves_trans [OF assms(1)] by (simp add: checked_commit_def)
next
  case False
  then obtain a b fd m r out where c: "moves uncommitted u' a" "payload_checked fd n (happened u' a)"
    "trace (in_world b) = trace (in_world a) @ [Controlled fd (HDL_STREAM_COMMIT_METADATA m) r out]"
    "moves uncommitted b v" using assms(2) by (auto simp: checked_commit_def)
  have "payload_checked fd n (happened u a)"
    unfolding happened_trans [OF assms(1) c(1)] by (rule payload_checked_after [OF c(2)])
  then show ?thesis unfolding checked_commit_def using moves_trans [OF assms(1) c(1)] c(3,4) by blast
qed

lemma checked_commit_later: "checked_commit n u v \<Longrightarrow> moves uncommitted v w \<Longrightarrow> checked_commit n u w"
  unfolding checked_commit_def by (meson moves_trans)

lemma checked_commit_same: "in_world v = in_world w \<Longrightarrow> checked_commit n u v \<longleftrightarrow> checked_commit n u w"
  by (simp add: checked_commit_def moves_def)

lemma first_commit_unique:
  "list_all uncommitted A \<Longrightarrow> list_all uncommitted B \<Longrightarrow> A @ C # B = pre @ D # post \<Longrightarrow> \<not> uncommitted D \<Longrightarrow>
    pre = A \<and> D = C \<and> post = B"
  by (auto simp: append_eq_append_conv2 append_eq_Cons_conv Cons_eq_append_conv)

lemma checked_commit_order:
  assumes "checked_commit n u v" and "happened u v = pre @ Controlled fd (HDL_STREAM_COMMIT_METADATA m) r out # post"
  shows "payload_checked fd n pre \<and> list_all uncommitted (pre @ post)"
proof -
  have "\<not> moves uncommitted u v" using assms(2) happened_all [of uncommitted u v] by auto
  then obtain a b fd' m' r' out' where c: "moves uncommitted u a" "payload_checked fd' n (happened u a)"
    "trace (in_world b) = trace (in_world a) @ [Controlled fd' (HDL_STREAM_COMMIT_METADATA m') r' out']"
    "moves uncommitted b v" using assms(1) by (auto simp: checked_commit_def)
  have "happened u v = happened u a @ Controlled fd' (HDL_STREAM_COMMIT_METADATA m') r' out' # happened b v"
    using c(1,3,4) by (auto simp: moves_def extends_def since_def)
  from first_commit_unique [OF happened_all [OF c(1)] happened_all [OF c(4)] this [symmetric, unfolded assms(2)]]
  show ?thesis using c(2) happened_all [OF c(1)] happened_all [OF c(4)] by simp
qed

lemma commit_stage_facts:
  assumes run: "transaction_commit_metadata_stage api plan layout source_fd target_fd dg verified t u = ((r, t'), v)"
    and before: "moves uncommitted u0 u"
    and copied: "verified \<Longrightarrow> payload_checked target_fd (unat (txn_source_bytes t)) (happened u0 u)"
  shows "checked_commit (unat (txn_source_bytes t)) u0 v \<and> same_job t t'"
proof (cases "txn_stage t = STAGE_PAYLOAD_VERIFIED")
  case False
  then show ?thesis using run before by (simp add: transaction_commit_metadata_stage_def checked_commit_def)
next
  case True
  define n where "n = unat (txn_source_bytes t)"
  obtain hashed u1 where hs: "hash_source_payload api t source_fd u = (hashed, u1)" by fastforce
  obtain k u2 where rever: "(if verified then (0, u) else case hashed of Inl e \<Rightarrow> (e, u1)
      | Inr d \<Rightarrow> verify_target_digest api t target_fd d u1) = (k, u2)" by fastforce
  have two: "moves uncommitted u0 u2 \<and> (\<not> k < 0 \<longrightarrow> payload_checked target_fd n (happened u0 u2))"
  proof (cases verified)
    case True
    then show ?thesis using rever before copied by (simp add: n_def)
  next
    case again: False
    note heard = quiet_stage.hash_source_brings [OF hs]
    show ?thesis
    proof (cases hashed)
      case (Inl e)
      then show ?thesis using rever again heard moves_trans [OF before quiet_moves] by auto
    next
      case (Inr d)
      then have ver: "verify_target_digest api t target_fd d u1 = (k, u2)" using rever again by simp
      note checked = quiet_stage.verify_checked [OF ver]
      have s: "quiet_stage.steps u u1" "quiet_stage.steps u1 u2" using heard checked by simp_all
      note s2 = quiet_stage.steps_trans [OF s]
      have "payload_checked target_fd n (happened u u2)" if "\<not> k < 0"
      proof -
        obtain data where data: "hears source_fd (happened u u1) data" "length data = n" "d = sha256_buffer data"
          using heard Inr by (auto simp: quiet_stage.brings_def n_def)
        have "checked_back target_fd (happened u1 u2) n (sha256_buffer data)"
          using checked that data(3) by (simp add: n_def)
        then show ?thesis
          unfolding quiet_stage.steps_happened [OF s] by (rule payload_checked_join [OF data(1,2)])
      qed
      then show ?thesis
        using moves_trans [OF before quiet_moves [OF s2]] happened_trans [OF before quiet_moves [OF s2]]
          payload_checked_after by simp
    qed
  qed
  obtain bk metadata where bm: "transaction_build_metadata t plan layout = (bk, metadata)" by fastforce
  obtain c out u3 where io: "hdl_status_fileXioIoctl2 api target_fd (HDL_STREAM_COMMIT_METADATA metadata) u2 = ((c, out), u3)"
    by (metis prod.exhaust)
  obtain r4 t4 u4 where adv: "advance api STAGE_METADATA_COMMITTED (txn_total_sectors t) t u3 = ((r4, t4), u4)"
    by (metis prod.exhaust)
  have tr: "trace (in_world u3) = trace (in_world u2) @ [Controlled target_fd (HDL_STREAM_COMMIT_METADATA metadata) c out]"
    using io by (auto simp: hdl_status_fileXioIoctl2_def on_world_iff split: prod.splits dest!: trace_ioctl2)
  note four = quiet_stage.advance_facts [OF adv]
  have later: "\<not> k < 0 \<Longrightarrow> moves uncommitted u3 w \<Longrightarrow> checked_commit n u0 w" for w
    using two tr unfolding checked_commit_def by blast
  have whole: "transaction_commit_metadata_stage api plan layout source_fd target_fd dg verified t u =
     (if k < 0 then ((k, t), u2) else if bk < 0 then ((bk, t), u2)
      else if c < 0 then ((HDL_INSTALL_METADATA_FAILED, t), u3) else ((r4, t4), u4))"
    using True rever by (simp add: transaction_commit_metadata_stage_def hs bm io adv split: if_splits sum.splits)
  have "checked_commit n u0 u2" using two by (simp add: checked_commit_def)
  then show ?thesis
    unfolding n_def [symmetric] using run whole later four quiet_moves by (auto split: if_splits)
qed

section \<open>The whole transaction\<close>

lemma uncommitted_journal_removed: "moves uncommitted u (snd (on_world (\<lambda>w. ((), journal_remove api w)) u))"
proof -
  obtain r v where "on_world (\<lambda>w. ((), journal_remove api w)) u = (r, v)" by (metis prod.exhaust)
  then show ?thesis using on_world_moves [OF _ ] quiet_stage.plain_journal_remove by fastforce
qed

lemma guard_world [simp]:
  "in_world (hdl_transaction_guard_arm target u) = in_world u" "in_world (hdl_transaction_guard_disarm u) = in_world u"
  by (simp_all add: hdl_transaction_guard_arm_def hdl_transaction_guard_disarm_def Let_def)

lemma finish_stage_facts:
  assumes run: "transaction_finish_metadata_stage api plan layout t u = ((r, t'), v)"
  shows "moves uncommitted u v"
proof -
  obtain bk metadata where bm: "transaction_build_metadata t plan layout = (bk, metadata)" by fastforce
  obtain ok u1 where mt: "hdl_target_metadata_matches_active api (array_string (txn_target t)) metadata u = (ok, u1)"
    by fastforce
  obtain k t1 where st: "hdl_transaction_set_stage t STAGE_COMPLETE (txn_total_sectors t) = (k, t1)" by fastforce
  have "moves uncommitted u u1"
    using mt by (auto simp: hdl_target_metadata_matches_active_def Let_def split: prod.splits if_splits
      dest!: uncommitted_control)
  then have "moves uncommitted u (snd (on_world (\<lambda>w. ((), journal_remove api w)) u1))" "moves uncommitted u u1"
    using moves_trans [OF _ uncommitted_journal_removed] by blast+
  moreover have "v = u \<or> v = u1 \<or> v = snd (on_world (\<lambda>w. ((), journal_remove api w)) u1)"
    using run by (auto simp: transaction_finish_metadata_stage_def bm mt st split: if_splits)
  ultimately show ?thesis by auto
qed

lemma stages_facts:
  assumes run: "transaction_stages api plan layout source_fd target_fd t u = ((r, t'), v)" and valid: "transaction_valid t"
  shows "checked_commit (unat (txn_source_bytes t)) u v"
proof -
  obtain k t1 dg verified u1 where cp: "transaction_copy_stage api source_fd target_fd t u = ((k, t1, dg, verified), u1)"
    by (metis prod.exhaust)
  obtain q t2 u2 where cm: "transaction_commit_metadata_stage api plan layout source_fd target_fd dg verified t1 u1 =
      ((q, t2), u2)" by (metis prod.exhaust)
  obtain r3 t3 u3 where fin: "transaction_finish_metadata_stage api plan layout t2 u2 = ((r3, t3), u3)"
    by (metis prod.exhaust)
  note copied = copy_stage_facts [OF cp valid]
  have whole: "transaction_stages api plan layout source_fd target_fd t u =
      (if k < 0 then ((k, t1), u1) else if q < 0 then ((q, t2), u2) else ((r3, t3), u3))"
    by (simp only: transaction_stages_def cp cm fin Let_def prod.case)
  show ?thesis
  proof (cases "k < 0")
    case True
    then show ?thesis using run whole copied by (simp add: checked_commit_def)
  next
    case False
    have n: "txn_source_bytes t1 = txn_source_bytes t" using copied same_job_source by blast
    have two: "checked_commit (unat (txn_source_bytes t)) u u2"
      using commit_stage_facts [OF cm, of u] copied False n by simp
    show ?thesis using run whole False two checked_commit_later [OF two finish_stage_facts [OF fin]]
      by (auto split: if_splits)
  qed
qed

lemma execute_facts:
  assumes run: "execute_transaction api t u = Some ((r, t'), v)" and valid: "transaction_valid t"
  shows "checked_commit (unat (txn_source_bytes t)) u v"
proof -
  obtain k plan src u1 where pre: "transaction_preflight api t u = Some ((k, plan, src), u1)"
  proof (cases "transaction_preflight api t u")
    case None
    then show ?thesis using run by (simp add: execute_transaction_def)
  next
    case (Some x)
    then show ?thesis using that by (cases x; cases "fst x") auto
  qed
  obtain q t2 lay gd u2 where pt: "transaction_prepare_target api t plan u1 = ((q, t2, lay, gd), u2)"
    by (metis prod.exhaust)
  obtain r3 t3 u3 where st: "transaction_stages api plan lay (src_fd src) gd t2 u2 = ((r3, t3), u3)"
    by (metis prod.exhaust)
  note one = uncommitted_preflight [OF pre] and two = uncommitted_prepare [OF pt valid]
  have closes: "moves uncommitted w (close_if_open api f (close_if_open api g w))" for f g w
    by (simp add: close_if_open_def uncommitted_close moves_trans [OF uncommitted_close uncommitted_close])
  have u2: "moves uncommitted u u2" using two moves_trans [OF one] by blast
  have three: "checked_commit (unat (txn_source_bytes t)) u u3" if "\<not> q < 0"
  proof -
    have "transaction_valid t2" "txn_source_bytes t2 = txn_source_bytes t" using two that same_job_source by auto
    then show ?thesis using checked_commit_before [OF u2] stages_facts [OF st] by simp
  qed
  define after where "after q u = close_if_open api (src_fd src) (close_if_open api gd (if q < 0 then u2 else u))" for q :: int and u
  have whole: "execute_transaction api t u = Some (if k < 0 then ((k, t), u1)
      else let ((result, t), u3) = (if q < 0 then ((q, t2), u2) else ((r3, t3), u3)) in
        ((result, t), in_log [Lit ''HDL transaction target='', Str (array_string (txn_target t)), Lit '' stage='',
          Uns (unat (txn_stage t)), Lit '' progress='', Uns (unat (txn_completed_sectors t)), Lit ''/'',
          Uns (unat (txn_total_sectors t)), Lit '' result='', Dec result] (after q u3)))"
    unfolding execute_transaction_def pre option.map prod.case pt st Let_def after_def by simp
  have late: "checked_commit (unat (txn_source_bytes t)) u (after q u3)"
    unfolding after_def by (cases "q < 0") (simp_all add: checked_commit_later [OF three closes]
      checked_commit_later [OF _ closes] checked_commit_def [of _ u u2] u2)
  have "in_world v = in_world u1 \<or> in_world v = in_world (after q u3)"
    using run unfolding whole by (cases "k < 0"; cases "q < 0") (auto simp: after_def)
  moreover have "checked_commit (unat (txn_source_bytes t)) u u1" using one by (simp add: checked_commit_def)
  ultimately show ?thesis using late checked_commit_same by metis
qed

lemma guarded_facts:
  assumes run: "hdl_execute_transaction_guarded api t u = Some (q, v)" and valid: "transaction_valid t"
  shows "checked_commit (unat (txn_source_bytes t)) u v"
proof -
  obtain u1 r t' u2 where ex: "execute_transaction api t u1 = Some ((r, t'), u2)" "in_world u1 = in_world u"
      "in_world v = in_world u2"
  proof -
    define u1 where "u1 = (if txn_stage t = STAGE_PLANNED
      then hdl_transaction_guard_arm (array_string (txn_target t)) (hdl_fast_io_reset (u\<lparr>in_active_fd := - 1\<rparr>))
      else hdl_transaction_guard_disarm (hdl_fast_io_reset (u\<lparr>in_active_fd := - 1\<rparr>)))"
    have "map_option (\<lambda>(r, u2). (r, hdl_transaction_guard_disarm ((hdl_fast_io_reset u2)\<lparr>in_active_fd := - 1\<rparr>)))
        (execute_transaction api t u1) = Some (q, v)"
      using run unfolding hdl_execute_transaction_guarded_def Let_def u1_def by simp
    then obtain x u2 where x: "execute_transaction api t u1 = Some (x, u2)"
      "v = hdl_transaction_guard_disarm ((hdl_fast_io_reset u2)\<lparr>in_active_fd := - 1\<rparr>)" by auto
    show thesis
    proof (rule that [of u1 "fst x" "snd x" u2])
      show "in_world u1 = in_world u" by (simp add: u1_def)
    qed (simp_all add: x)
  qed
  then show ?thesis using execute_facts [OF ex(1) valid] by (simp add: checked_commit_def moves_def since_def)
qed


section \<open>Witness\<close>

text \<open>
  A disk with the partition of an interrupted installation, its image of 19 sectors on the device, and
  a streaming module that delivers the same bytes for both; the store is the position of the last call.
\<close>

definition image_answer :: "u64 \<Rightarrow> nat \<Rightarrow> byte list" where
  "image_answer offset n = take n (snd (iso_read sample_image offset n) @ replicate n 0)"

definition one_part_block :: "byte list" where
  "one_part_block = write_le32 264 0x40000 (write_le32 4 0x40000 (write_le32 0 1 (replicate 524 0)))"

definition install_platform :: "int platform" where
  "install_platform = \<lparr>fx_open = (\<lambda>p mode f. (if mode = FIO_RDWR then 4 else 3, f)), fx_close = (\<lambda>fd f. f),
    fx_read = (\<lambda>fd n f. (Inr (image_answer (of_int f) n), f + int n)),
    fx_write = (\<lambda>fd data f. (int (length data), f)),
    fx_lseek = (\<lambda>fd off origin f. let p = (if origin = FIO_SEEK_SET then off else 38912) in (p, p)),
    fx_getstat = (\<lambda>p f. (0, \<lparr>st_mode = 0, st_attr = 0, st_size = 38912, st_hisize = 0, st_private_5 = 0\<rparr>, f)),
    fx_remove = (\<lambda>p f. (0, f)), fx_rename = (\<lambda>p p' f. (0, f)),
    fx_ioctl2 = (\<lambda>fd request f. case request of
        HDL_STREAM_GET_LAYOUT \<Rightarrow> (0, one_part_block, f)
      | HDL_STREAM_SOURCE_TO_EE s n pos tot \<Rightarrow> (uint n, image_answer pos (unat n), f)
      | HDL_STREAM_TARGET_TO_EE n \<Rightarrow> (uint n, image_answer (of_int f) (unat n), f)
      | _ \<Rightarrow> (0, [], f)),
    fx_malloc = (\<lambda>n f. (True, f)), fx_mount = (\<lambda>at dev f. (0, f)), fx_umount = (\<lambda>at f. (0, f)),
    fx_pad = (\<lambda>f. (0, f)), fx_held = (\<lambda>f. (Some 0xefff, f)), fx_secr = (\<lambda>port slot data f. Some data),
    fx_hdd = catalog_driver\<rparr>"

definition image_print :: "byte list" where
  "image_print = sha256_final (sha256_update (sha256_update (sha256_update sha256_init (size_prefix 38912))
    (image_answer 0 38912)) (image_answer 0 38912))"

definition image_layout :: hdl_partition_plan where
  "image_layout = \<lparr>layout_image_bytes = 38912, layout_allocation_bytes = 134217728,
    layout_slices = [\<lparr>slice_allocation_bytes = 134217728, slice_payload_offset = 0, slice_payload_bytes = 38912\<rparr>]\<rparr>"

text \<open>The payload had been verified when the power was lost.\<close>

definition resumed_transaction :: hdl_transaction where
  "resumed_transaction = sample_transaction\<lparr>txn_stage := STAGE_PAYLOAD_VERIFIED, txn_source_bytes := 38912,
    txn_total_sectors := 19, txn_completed_sectors := 19, txn_source_fingerprint := image_print,
    txn_target := game_name @ replicate 26 0, txn_startup := sample_name @ replicate 49 0\<rparr>"

definition idle_installer :: "int installer" where
  "idle_installer = \<lparr>in_session = \<lparr>se_storage = 1, se_log = \<lparr>log_buffer = [], log_saved = [0, 0, 0], log_sequence = 0\<rparr>,
      se_report = \<lparr>report_text = [], report_save_result = REPORT_SAVE_NOT_TRIED\<rparr>, se_backup = empty_diagnostics,
      se_world = \<lparr>store = 0, trace = [], last_errors = errors (fresh_world ())\<rparr>\<rparr>,
    in_active_fd = - 1, in_fast = fast_reset, in_guard_target = [], in_guard_active = False,
    in_guard_checked = False, in_guard_found = True, in_guard_consumed = False, in_pending_target = [],
    in_pending_valid = False, in_pending_exists = True, in_iso_path = []\<rparr>"

lemma resumed_fields [simp]:
  "txn_stage resumed_transaction = STAGE_PAYLOAD_VERIFIED" "txn_source_bytes resumed_transaction = 38912"
  "txn_total_sectors resumed_transaction = 19" "txn_completed_sectors resumed_transaction = 19"
  "txn_partition_count resumed_transaction = 1" "txn_source_fingerprint resumed_transaction = image_print"
  "array_string (txn_startup resumed_transaction) = sample_name"
  "array_string (txn_target resumed_transaction) = game_name"
  "array_string (txn_game_title resumed_transaction) = [71]"
  "txn_disc_type resumed_transaction = 0x12"
  by (simp_all add: resumed_transaction_def sample_transaction_def array_string_def sample_name_def
      game_name_def ascii_def)

lemma resumed_valid: "transaction_valid resumed_transaction"
  by (simp add: transaction_valid_def text_terminated_def resumed_transaction_def sample_transaction_def
      take_Cons' sample_name_def game_name_def ascii_def)

lemma image_plan: "hdl_partition_plan_image 38912 0x40000 (Some empty_layout) = (0, Some image_layout)"
  by code_simp

lemma length_answer [simp]: "length (image_answer offset n) = n"
  by (simp add: image_answer_def)

lemma install_calls [simp]:
  "fx_open install_platform p mode f = (if mode = FIO_RDWR then 4 else 3, f)"
  "fx_read install_platform fd n f = (Inr (image_answer (of_int f) n), f + int n)"
  "fx_lseek install_platform fd off FIO_SEEK_SET f = (off, off)"
  "fx_lseek install_platform fd off FIO_SEEK_END f = (38912, 38912)"
  "fx_getstat install_platform p f = (0, \<lparr>st_mode = 0, st_attr = 0, st_size = 38912, st_hisize = 0, st_private_5 = 0\<rparr>, f)"
  "fx_ioctl2 install_platform fd HDL_STREAM_GET_LAYOUT f = (0, one_part_block, f)"
  "fx_ioctl2 install_platform fd (HDL_STREAM_SOURCE_TO_EE s k pos tot) f = (uint k, image_answer pos (unat k), f)"
  "fx_ioctl2 install_platform fd (HDL_STREAM_TARGET_TO_EE k) f = (uint k, image_answer (of_int f) (unat k), f)"
  "fx_ioctl2 install_platform fd HDL_STREAM_GET_FAST_STATS f = (0, [], f)"
  "fx_ioctl2 install_platform fd (HDL_STREAM_COMMIT_METADATA metadata) f = (0, [], f)"
  "fx_malloc install_platform n f = (True, f)" "fx_hdd install_platform = catalog_driver"
  by (simp_all add: install_platform_def)

abbreviation (input) image_source :: hdl_file_source where
  "image_source \<equiv> \<lparr>src_fd = 3, src_bytes = 38912\<rparr>"

lemma install_read:
  assumes "offset \<le> 38912" and "of_nat n \<le> 38912 - offset" and "0 < n"
  shows "\<exists>v. source_read install_platform image_source offset n w = (Inr (image_answer offset n), v)"
proof -
  have "image_answer offset n \<noteq> []" using assms(3) by (simp flip: length_0_conv)
  then show ?thesis
    using assms by (simp add: source_read_def fileXioLseek_def fileXioRead_def stepped_def not_less Let_def
        read_loop.simps [of _ _ _ _ "[]"] read_loop.simps [of _ _ _ _ "image_answer offset n"])
qed

lemma install_read_on:
  assumes "offset \<le> 38912" and "of_nat n \<le> 38912 - offset" and "0 < n"
  shows "\<exists>v. read_source_on (file_reader install_platform image_source) 38912 offset n w =
    ((0, image_answer offset n), v)"
  using install_read [OF assms, of w] assms by (auto simp: read_source_on_def file_reader_def not_less)

lemma install_print: "\<exists>v. source_fingerprint install_platform image_source w = (Inr image_print, v)"
proof -
  obtain w1 where al: "heap_alloc install_platform 65536 w = (True, w1)" by (simp add: heap_alloc_def)
  obtain w2 where r1: "source_read install_platform image_source 0 38912 w1 = (Inr (image_answer 0 38912), w2)"
    using install_read [of 0 38912 w1] by auto
  obtain w3 where r2: "source_read install_platform image_source 0 38912 w2 = (Inr (image_answer 0 38912), w3)"
    using install_read [of 0 38912 w2] by auto
  show ?thesis by (simp add: source_fingerprint_def al r1 r2 image_print_def)
qed

lemma length_pvd: "length (sample_pvd 17 2048) = 2048"
  by (simp add: sample_pvd_def be_le32_def le32_bytes_def)

lemma install_answers:
  "image_answer 32768 2048 = sample_pvd 17 2048" "image_answer 34816 2048 = sector_of [cnf_record]"
  "image_answer 36864 36 = sample_text"
proof -
  show "image_answer 32768 2048 = sample_pvd 17 2048"
    by (simp add: image_answer_def sample_image_def length_pvd)
  have "length (sector_of [cnf_record]) = 2048"
    by (simp add: sector_of_def cnf_record_def be_le32_def le32_bytes_def system_cnf_name_def)
  then show "image_answer 34816 2048 = sector_of [cnf_record]" by (simp add: image_answer_def sample_image_def)
  have "length sample_text = 36"
    by (simp add: sample_text_def cnf_text_def boot_line_def sample_path_def sample_name_def boot2_key_def)
  then show "image_answer 36864 36 = sample_text" by (simp add: image_answer_def sample_image_def)
qed

lemma sample_scan: "scan_records (sector_of [cnf_record]) 2048 0 = Some (Inr (18, 36))"
proof -
  have "fits_sector [cnf_record]" using sample_readable_directory by (simp add: readable_directory_def)
  then show ?thesis using scan_sector_of [of "[cnf_record]"] by (simp add: directory_target_def cnf_record_ok)
qed

lemma sample_parse: "parse_system_cnf sample_text 0 = (0, sample_name, disc_id_of sample_name)"
proof -
  have "map to_upper sample_name = sample_name" by code_simp
  moreover have "other_line [0x56, 0x45, 0x52]" by code_simp
  moreover have "line_end_char 0x0d" by code_simp
  ultimately show ?thesis
    using parse_boot_text [OF sample_parts, of "[[0x56, 0x45, 0x52]]" "[0x0d, 0x0a]" "[]"]
    by (simp add: sample_text_def cnf_text_def)
qed

lemma install_identity:
  "\<exists>v. source_identity_matches install_platform image_source resumed_transaction w = Some (0, v)"
proof -
  let ?rd = "file_reader install_platform image_source"
  obtain w1 where r1: "read_source_on ?rd 38912 32768 2048 w = ((0, sample_pvd 17 2048), w1)"
    using install_read_on [of 32768 2048 w] by (auto simp: install_answers)
  obtain w2 where r2: "read_source_on ?rd 38912 34816 2048 w1 = ((0, sector_of [cnf_record]), w2)"
    using install_read_on [of 34816 2048 w1] by (auto simp: install_answers)
  obtain w3 where r3: "read_source_on ?rd 38912 36864 36 w2 = ((0, sample_text), w3)"
    using install_read_on [of 36864 36 w2] by (auto simp: install_answers)
  have pvd: "\<not> pvd_refused (sample_pvd 17 2048)" "\<not> volume_refused (sized_source 38912) (sample_pvd 17 2048)"
    "\<not> drop 156 (sample_pvd 17 2048) ! 0 < 34" "drop 156 (sample_pvd 17 2048) ! 32 = 1"
    "drop 156 (sample_pvd 17 2048) ! 33 = 0" "\<not> root_refused (sized_source 38912) (drop 156 (sample_pvd 17 2048))"
    using sample_readable_pvd
    by (simp_all add: readable_pvd_def volume_refused_def root_refused_def sized_source_def sample_image_def)
  have found: "find_system_cnf_on ?rd 38912 34816 2048 0 w1 = Some (Inr (18, 36), w2)"
    by (subst find_system_cnf_on.simps) (simp add: r2 sample_scan)
  have "hdl_iso_probe_on ?rd 38912 empty_iso_info w =
      Some ((0, probed_info (sized_source 38912) (sample_pvd 17 2048) sample_name (disc_id_of sample_name)), w3)"
    by (simp add: hdl_iso_probe_on_def r1 pvd [unfolded nth_drop] pvd sample_pvd_root found probe_file_on_def r3 sample_parse)
  then show ?thesis
    by (simp add: source_identity_matches_def probed_info_def sized_source_def)
qed


lemma install_preflight:
  assumes "\<not> in_guard_active u"
  shows "\<exists>v. transaction_preflight install_platform resumed_transaction u =
    Some ((0, image_layout, image_source), v)"
proof -
  obtain s1 where s1: "recheck_disk_target install_platform None (in_session u) =
      (0, named_here None catalog_game, 0x40000, 0, s1)" using catalog_recheck [of install_platform] by auto
  then have rc: "hdl_transaction_recheck_disk install_platform u = ((0, 0x40000, 0), u\<lparr>in_session := s1\<rparr>)"
    using assms by (simp add: hdl_transaction_recheck_disk_def recheck_disk_def on_session_def)
  define u1 where "u1 = u\<lparr>in_session := s1\<rparr>"
  obtain w1 where os: "open_source install_platform (array_string (txn_source_path resumed_transaction)) 38912
      \<lparr>src_fd = - 1, src_bytes = 38912\<rparr> (in_world u1) = (0, image_source, w1)"
    by (simp add: open_source_def fileXioGetStat_def fileXioOpen_def stat_bytes_def)
  obtain w2 where fp: "source_fingerprint install_platform image_source w1 = (Inr image_print, w2)"
    using install_print by blast
  obtain w3 where id: "source_identity_matches install_platform image_source resumed_transaction w2 = Some (0, w3)"
    using install_identity by blast
  show ?thesis
    by (simp add: transaction_preflight_def Let_def rc u1_def [symmetric] image_plan image_layout_def on_world_def
        on_session_def os fp id)
qed

text \<open>The descriptor of the target is open, and the counters of the fast path are as after a reset.\<close>

lemma install_open_target:
  "\<exists>v. open_target install_platform resumed_transaction image_layout u = ((4, stream_layout one_part_block), v) \<and>
    in_active_fd v = 4"
proof -
  have "layout_matches image_layout (stream_layout one_part_block)"
    by (simp add: layout_matches_def stream_layout_def image_layout_def one_part_block_def fill_buffer_full write_le32_def buf_simps Let_def)
  moreover have "guard_answers p FIO_RDWR u = False" for p by (simp add: guard_answers_def)
  ultimately show ?thesis
    by (simp add: open_target_def target_path_def game_name_def ascii_def hdl_status_fileXioOpen_def Let_def
        on_world_def on_session_def fileXioOpen_def hdl_status_fileXioIoctl2_def fileXioIoctl2_def print_into_def)
qed

lemma install_resolve:
  assumes "in_active_fd u = 4" and "fast_position_valid (in_fast u)"
  shows "\<exists>v. hdl_fast_resolve_source_total install_platform 3 u = (0, v) \<and> in_active_fd v = 4 \<and>
    fast_source_position (in_fast v) = fast_source_position (in_fast u)"
  using assms by (simp add: hdl_fast_resolve_source_total_def on_world_def on_session_def fileXioLseek_def Let_def on_fast_def)

lemma full_answer: "fill_buffer n (image_answer offset n) = image_answer offset n"
  by (simp add: fill_buffer_full)

lemma install_source_block:
  assumes "in_active_fd u = 4" and "fast_position_valid (in_fast u)" and "fast_source_fd (in_fast u) = 3"
    and "fast_source_position (in_fast u) = 0" and "\<not> fast_pump_mode (in_fast u)"
  shows "\<exists>v. hdl_fast_fileXioRead install_platform 3 0 38912 u = (Inr (image_answer 0 38912), v) \<and> in_active_fd v = 4"
proof -
  obtain u1 where u1: "hdl_fast_resolve_source_total install_platform 3 u = (0, u1)" "in_active_fd u1 = 4"
    "fast_source_position (in_fast u1) = 0" using install_resolve [OF assms(1,2)] assms(4) by auto
  have "\<exists>v. hdl_fast_dma_read install_platform Source_to_ee 3 0 38912 u = ((38912, image_answer 0 38912), v) \<and>
      in_active_fd v = 4"
    using u1 assms(1) by (simp add: hdl_fast_dma_read_def dma_fits_def dma_request_def on_world_def on_session_def
        fileXioIoctl2_def Let_def full_answer)
  then show ?thesis
    using assms by (auto simp: hdl_fast_fileXioRead_def fast_result_def after_source_read_def on_fast_def Let_def)
qed

lemma install_target_block:
  assumes "in_active_fd u = 4" and "store (in_world u) = 0"
  shows "\<exists>v. hdl_fast_fileXioRead install_platform 4 0 38912 u = (Inr (image_answer 0 38912), v)"
proof -
  define u1 where "u1 = on_fast (\<lambda>f. no_ack f\<lparr>fast_pump_mode := False\<rparr>) u"
  have "\<exists>v. hdl_fast_dma_read install_platform Target_to_ee (- 1) 0 38912 u1 = ((38912, image_answer 0 38912), v)"
    using assms by (simp add: u1_def hdl_fast_dma_read_def dma_fits_def dma_request_def on_world_def on_session_def
        fileXioIoctl2_def Let_def full_answer on_fast_def)
  then show ?thesis
    using assms by (auto simp: hdl_fast_fileXioRead_def fast_result_def Let_def u1_def)
qed

lemma one_block:
  assumes "hdl_fast_fileXioRead api fd 0 38912 u = (Inr data, v)" and "length data = 38912"
  shows "hash_stream api fd 38912 0 hash u = (Inr (sha256_update hash data), v)"
proof -
  have "data \<noteq> []" using assms(2) by auto
  then have "read_exact_fd api fd 38912 u = (Inr data, v)"
    using assms by (simp add: read_exact_fd_def read_exact_from.simps [of _ _ _ "[]"] read_exact_from.simps [of _ _ _ data])
  then show ?thesis
    by (simp add: hash_stream.simps [of _ _ _ 0] hash_stream.simps [of _ _ _ 38912] chunk_bytes_def)
qed

lemma install_hash_source:
  assumes "in_active_fd u = 4"
  shows "\<exists>v. hash_source_payload install_platform resumed_transaction 3 u =
    (Inr (sha256_final (sha256_update sha256_init (image_answer 0 38912))), v) \<and> in_active_fd v = 4"
proof -
  obtain u1 where u1: "on_world (heap_alloc install_platform 65536) u = (True, u1)" "in_active_fd u1 = 4"
    using assms by (simp add: on_world_def on_session_def heap_alloc_def)
  obtain u2 where u2: "hdl_fast_fileXioLseek64 install_platform 3 0 FIO_SEEK_SET u1 = (0, u2)" "in_active_fd u2 = 4"
    "fast_position_valid (in_fast u2)" "fast_source_fd (in_fast u2) = 3" "fast_source_position (in_fast u2) = 0"
    "\<not> fast_pump_mode (in_fast u2)"
    using u1(2) by (simp add: hdl_fast_fileXioLseek64_def on_world_def on_session_def fileXioLseek_def Let_def on_fast_def)
  obtain v where v: "hdl_fast_fileXioRead install_platform 3 0 38912 u2 = (Inr (image_answer 0 38912), v)"
    "in_active_fd v = 4" using install_source_block [OF u2(2-6)] by blast
  show ?thesis using v(2) by (simp add: hash_source_payload_def u1(1) u2(1) one_block [OF v(1)])
qed

lemma install_hash_target:
  assumes "in_active_fd u = 4"
  shows "\<exists>v. verify_target_digest install_platform resumed_transaction 4
    (sha256_final (sha256_update sha256_init (image_answer 0 38912))) u = (0, v)"
proof -
  obtain u1 where u1: "on_world (heap_alloc install_platform 65536) u = (True, u1)" "in_active_fd u1 = 4"
    using assms by (simp add: on_world_def on_session_def heap_alloc_def)
  obtain u2 where u2: "hdl_fast_fileXioLseek64 install_platform 4 0 FIO_SEEK_SET u1 = (0, u2)" "in_active_fd u2 = 4"
    "store (in_world u2) = 0"
    using u1(2) by (simp add: hdl_fast_fileXioLseek64_def on_world_def on_session_def fileXioLseek_def Let_def
        on_fast_def stepped_def)
  obtain v where v: "hdl_fast_fileXioRead install_platform 4 0 38912 u2 = (Inr (image_answer 0 38912), v)"
    using install_target_block [OF u2(2,3)] by blast
  show ?thesis by (simp add: verify_target_digest_def u1(1) u2(1) one_block [OF v(1)])
qed

lemma one_part_layout:
  "layout_count (stream_layout one_part_block) = 1" "take 1 (layout_starts (stream_layout one_part_block)) = [0x40000]"
proof -
  have "take 1 (map f [0 ..< 65]) = [f 0]" for f :: "nat \<Rightarrow> u32" by (simp add: upt_conv_Cons)
  then show "take 1 (layout_starts (stream_layout one_part_block)) = [0x40000]"
    by (simp add: stream_layout_def one_part_block_def fill_buffer_full write_le32_def buf_simps Let_def)
qed (simp add: stream_layout_def one_part_block_def fill_buffer_full write_le32_def buf_simps Let_def)

lemma install_metadata:
  "\<exists>m. transaction_build_metadata resumed_transaction image_layout (stream_layout one_part_block) = (0, m)"
  using one_part_layout
  by (simp add: transaction_build_metadata_def hdl_metadata_build_def image_layout_def copy_metadata_text_def
      entry_refused_def sample_name_def Let_def)

lemma install_commits:
  "\<exists>q v pre m post. hdl_execute_transaction_guarded install_platform resumed_transaction idle_installer = Some (q, v) \<and>
    happened idle_installer v = pre @ Controlled 4 (HDL_STREAM_COMMIT_METADATA m) 0 [] # post"
proof -
  let ?api = install_platform and ?t = resumed_transaction and ?lay = "stream_layout one_part_block"
  define u0 where "u0 = hdl_transaction_guard_disarm (hdl_fast_io_reset (idle_installer\<lparr>in_active_fd := - 1\<rparr>))"
  obtain u1 where u1: "transaction_preflight ?api ?t u0 = Some ((0, image_layout, image_source), u1)"
    using install_preflight [of u0] by (auto simp: u0_def hdl_transaction_guard_disarm_def)
  obtain u2 where u2: "open_target ?api ?t image_layout u1 = ((4, ?lay), u2)" "in_active_fd u2 = 4"
    using install_open_target by blast
  obtain u3 where u3: "hash_source_payload ?api ?t 3 u2 =
      (Inr (sha256_final (sha256_update sha256_init (image_answer 0 38912))), u3)" "in_active_fd u3 = 4"
    using install_hash_source [OF u2(2)] by blast
  obtain u4 where u4: "verify_target_digest ?api ?t 4
      (sha256_final (sha256_update sha256_init (image_answer 0 38912))) u3 = (0, u4)"
    using install_hash_target [OF u3(2)] by blast
  obtain m where m: "transaction_build_metadata ?t image_layout ?lay = (0, m)" using install_metadata by blast
  obtain u5 where u5: "hdl_status_fileXioIoctl2 ?api 4 (HDL_STREAM_COMMIT_METADATA m) u4 = ((0, []), u5)"
      "trace (in_world u5) = trace (in_world u4) @ [Controlled 4 (HDL_STREAM_COMMIT_METADATA m) 0 []]"
    by (simp add: hdl_status_fileXioIoctl2_def on_world_def on_session_def fileXioIoctl2_def stepped_def)
  obtain r6 t6 u6 where u6: "advance ?api STAGE_METADATA_COMMITTED 19 ?t u5 = ((r6, t6), u6)" by (metis prod.exhaust)
  obtain r7 t7 u7 where u7: "transaction_finish_metadata_stage ?api image_layout ?lay t6 u6 = ((r7, t7), u7)"
    by (metis prod.exhaust)
  define w where "w = (if r6 < 0 then u6 else u7)"
  have prep: "transaction_prepare_target ?api ?t image_layout u1 = ((0, ?t, ?lay, 4), u2)"
    by (simp add: transaction_prepare_target_def u2)
  have stages: "\<exists>q. transaction_stages ?api image_layout ?lay 3 4 ?t u2 = (q, w)"
    by (simp add: transaction_stages_def transaction_copy_stage_def transaction_commit_metadata_stage_def
        u3 u4 m u5 u6 u7 w_def)
  then obtain q x where st: "transaction_stages ?api image_layout ?lay 3 4 ?t u2 = ((q, x), w)" by (metis prod.exhaust)
  define v where "v = close_if_open ?api 3 (close_if_open ?api 4 w)"
  obtain y where run: "hdl_execute_transaction_guarded ?api ?t idle_installer = Some y"
      and last: "in_world (snd y) = in_world v"
    unfolding hdl_execute_transaction_guarded_def Let_def execute_transaction_def v_def
    by (simp add: u0_def [symmetric] u1 prep st)
  have hashed: "quiet_stage.steps u2 u3" "quiet_stage.steps u3 u4"
    using quiet_stage.hash_source_brings [OF u3(1)] quiet_stage.verify_checked [OF u4]
    by (auto simp: quiet_stage.brings_def)
  have before: "moves uncommitted u0 u4"
    by (rule moves_trans [OF moves_trans [OF uncommitted_preflight [OF u1] uncommitted_target [OF u2(1)]]
          quiet_moves [OF quiet_stage.steps_trans [OF hashed]]])
  have adv: "moves uncommitted u5 u6" using quiet_stage.advance_facts [OF u6] by (simp add: quiet_moves)
  then have "moves uncommitted u5 w" using moves_trans [OF adv finish_stage_facts [OF u7]] by (simp add: w_def)
  then have after: "moves uncommitted u5 v"
    by (simp add: v_def close_if_open_def moves_trans [OF moves_trans [OF _ uncommitted_close] uncommitted_close])
  have "happened idle_installer (snd y) = happened u0 u4 @ Controlled 4 (HDL_STREAM_COMMIT_METADATA m) 0 [] # happened u5 v"
    using before after u5(2) last by (auto simp: moves_def extends_def since_def u0_def)
  then show ?thesis using run by (metis prod.collapse)
qed


end
