(* ===== verification/AppMenu.thy ===== *)
theory AppMenu
  imports PadInput
begin

text \<open>
  Menus (\<open>src/app_ui_ps2.c\<close>): the selectors of the list and of the dashboard, the choice of the
  storage device and of the signing card.  An item is represented by whether it is enabled; labels,
  hints and rendering are left out.  A selector returns the chosen index, \<open>None\<close> for the way back, and
  the selection it leaves behind; waiting for a press may last forever.
\<close>

abbreviation (input) APP_UI_MAX_MENU_ITEMS :: nat where "APP_UI_MAX_MENU_ITEMS \<equiv> 12"
abbreviation (input) APP_UI_DASHBOARD_COLUMNS :: u32 where "APP_UI_DASHBOARD_COLUMNS \<equiv> 3"
abbreviation (input) APP_UI_DASHBOARD_MAX_ITEMS :: nat where "APP_UI_DASHBOARD_MAX_ITEMS \<equiv> 6"

section \<open>Moving the selection\<close>

definition dashboard_move_horizontal :: "u32 \<Rightarrow> u32 \<Rightarrow> bool \<Rightarrow> u32" where
  "dashboard_move_horizontal current item_count left =
    (let row_start = current div APP_UI_DASHBOARD_COLUMNS * APP_UI_DASHBOARD_COLUMNS;
         row_count = item_count - row_start; column = current - row_start;
         row_count = (if row_count > APP_UI_DASHBOARD_COLUMNS then APP_UI_DASHBOARD_COLUMNS else row_count) in
     row_start + (if left then (column + row_count - 1) mod row_count else (column + 1) mod row_count))"

definition dashboard_move_vertical :: "u32 \<Rightarrow> u32 \<Rightarrow> bool \<Rightarrow> u32" where
  "dashboard_move_vertical current item_count up =
    (let row_count = (item_count + APP_UI_DASHBOARD_COLUMNS - 1) div APP_UI_DASHBOARD_COLUMNS;
         row = current div APP_UI_DASHBOARD_COLUMNS; column = current mod APP_UI_DASHBOARD_COLUMNS;
         row = (if up then (row + row_count - 1) mod row_count else (row + 1) mod row_count);
         target = row * APP_UI_DASHBOARD_COLUMNS + column in
     if target \<ge> item_count then item_count - 1 else target)"

definition dashboard_keys :: "u32 \<Rightarrow> u32 \<Rightarrow> u32 \<Rightarrow> u32" where
  "dashboard_keys item_count current buttons =
    (let c1 = (if pressed buttons PAD_LEFT then dashboard_move_horizontal current item_count True else current);
         c2 = (if pressed buttons PAD_RIGHT then dashboard_move_horizontal c1 item_count False else c1);
         c3 = (if pressed buttons PAD_UP then dashboard_move_vertical c2 item_count True else c2) in
     if pressed buttons PAD_DOWN then dashboard_move_vertical c3 item_count False else c3)"

definition menu_keys :: "u32 \<Rightarrow> u32 \<Rightarrow> u32 \<Rightarrow> u32" where
  "menu_keys item_count current buttons =
    (let c1 = (if pressed buttons PAD_UP then (current + item_count - 1) mod item_count else current) in
     if pressed buttons PAD_DOWN then (c1 + 1) mod item_count else c1)"

section \<open>The selectors\<close>

text \<open>The loop both selectors run, over their keys.\<close>

partial_function (option) selector_loop ::
    "(u32 \<Rightarrow> u32 \<Rightarrow> u32) \<Rightarrow> 'f platform \<Rightarrow> bool list \<Rightarrow> u32 \<Rightarrow> 'f session \<Rightarrow>
      (u32 option \<times> u32 \<times> 'f session) option" where
  "selector_loop keys api enabled current s = (case wait_for_press api s of
     None \<Rightarrow> None
   | Some (buttons, s1) \<Rightarrow>
       let current = keys current buttons in
       if pressed buttons PAD_CROSS \<and> enabled ! unat current then Some (Some current, current, s1)
       else if pressed buttons PAD_TRIANGLE then Some (None, current, s1)
       else selector_loop keys api enabled current s1)"

definition app_ui_menu_select ::
    "'f platform \<Rightarrow> bool list \<Rightarrow> u32 \<Rightarrow> 'f session \<Rightarrow> (u32 option \<times> u32 \<times> 'f session) option" where
  "app_ui_menu_select api enabled selection s =
    (if length enabled = 0 \<or> length enabled > APP_UI_MAX_MENU_ITEMS then Some (None, selection, s)
     else selector_loop (menu_keys (of_nat (length enabled))) api enabled
       (if selection < of_nat (length enabled) then selection else 0) s)"

definition app_ui_dashboard_select ::
    "'f platform \<Rightarrow> bool list \<Rightarrow> u32 \<Rightarrow> 'f session \<Rightarrow> (u32 option \<times> u32 \<times> 'f session) option" where
  "app_ui_dashboard_select api enabled selection s =
    (if length enabled = 0 \<or> length enabled > APP_UI_DASHBOARD_MAX_ITEMS then Some (None, selection, s)
     else selector_loop (dashboard_keys (of_nat (length enabled))) api enabled
       (if selection < of_nat (length enabled) then selection else 0) s)"

definition app_ui_choose_storage :: "'f platform \<Rightarrow> 'f session \<Rightarrow> 'f session option" where
  "app_ui_choose_storage api s = map_option (\<lambda>(choice, sel, s1). (case choice of
       None \<Rightarrow> s1
     | Some c \<Rightarrow>
         let s2 = s1\<lparr>se_storage := snd (storage_set_selected (unat c) (se_storage s1))\<rparr>;
             s3 = log_items [Lit ''Selected storage device: '', Str (storage_name (se_storage s2))] s2;
             (r, rs, w) = boot_report_session_save api (se_storage s3) (se_report s3) (se_world s3) in
         flush_log api (s3\<lparr>se_report := rs, se_world := w\<rparr>)))
    (app_ui_menu_select api (replicate STORAGE_TARGET_COUNT True) (of_nat (se_storage s)) s)"

definition app_ui_choose_signing_card :: "'f platform \<Rightarrow> 'f session \<Rightarrow> (u32 option \<times> 'f session) option" where
  "app_ui_choose_signing_card api s =
    map_option (\<lambda>(choice, sel, s1). (choice, s1)) (app_ui_menu_select api [True, True] 0 s)"

section \<open>The selection stays on an item\<close>

definition stays_on_items :: "u32 \<Rightarrow> (u32 \<Rightarrow> u32 \<Rightarrow> u32) \<Rightarrow> bool" where
  "stays_on_items n keys \<longleftrightarrow> (\<forall>current buttons. current < n \<longrightarrow> keys current buttons < n)"

lemma menu_keys_stay: "0 < n \<Longrightarrow> stays_on_items n (menu_keys n)"
  by (auto simp: stays_on_items_def menu_keys_def Let_def word_mod_less_divisor)

text \<open>A dashboard has at most six items, so its positions can be enumerated.\<close>

lemma below_seven:
  fixes n :: u32
  assumes "0 < n" "n \<le> 6"
  shows "n = 1 \<or> n = 2 \<or> n = 3 \<or> n = 4 \<or> n = 5 \<or> n = 6"
proof -
  have "unat n \<in> {1, 2, 3, 4, 5, 6}" using assms by (auto simp: word_less_nat_alt word_le_nat_alt)
  then show ?thesis by (auto simp: word_unat_eq_iff)
qed

lemma below_six:
  fixes c :: u32
  assumes "c < 6"
  shows "c = 0 \<or> c = 1 \<or> c = 2 \<or> c = 3 \<or> c = 4 \<or> c = 5"
proof -
  have "unat c \<in> {0, 1, 2, 3, 4, 5}" using assms by (auto simp: word_less_nat_alt)
  then show ?thesis by (auto simp: word_unat_eq_iff)
qed

lemma dashboard_moves_stay:
  assumes "0 < n" "n \<le> 6" "current < n"
  shows "dashboard_move_horizontal current n d < n \<and> dashboard_move_vertical current n d < n"
proof -
  have "current < 6" using assms(2,3) by simp
  from below_six [OF this] below_seven [OF assms(1,2)] assms(3) show ?thesis
    by (cases d) (elim disjE; simp add: dashboard_move_horizontal_def dashboard_move_vertical_def)+
qed

lemma dashboard_keys_stay: "0 < n \<Longrightarrow> n \<le> 6 \<Longrightarrow> stays_on_items n (dashboard_keys n)"
  using dashboard_moves_stay [of n] by (auto simp: stays_on_items_def dashboard_keys_def Let_def)

lemma selector_facts:
  assumes run: "selector_loop keys api enabled current s = Some out" and "current < n" and "stays_on_items n keys"
  shows "still api s (snd (snd out)) \<and> fst (snd out) < n \<and>
    (\<forall>c. fst out = Some c \<longrightarrow> c = fst (snd out) \<and> enabled ! unat c)"
proof -
  have "stays_on_items n keys \<longrightarrow> current < n \<longrightarrow> still api s (snd (snd out)) \<and> fst (snd out) < n \<and>
    (\<forall>c. fst out = Some c \<longrightarrow> c = fst (snd out) \<and> enabled ! unat c)"
  proof (rule selector_loop.raw_induct [OF _ run, of "\<lambda>keys api enabled current s out.
      stays_on_items n keys \<longrightarrow> current < n \<longrightarrow> still api s (snd (snd out)) \<and> fst (snd out) < n \<and>
      (\<forall>c. fst out = Some c \<longrightarrow> c = fst (snd out) \<and> enabled ! unat c)"], intro impI)
    fix loop :: "(u32 \<Rightarrow> u32 \<Rightarrow> u32) \<Rightarrow> 'a platform \<Rightarrow> bool list \<Rightarrow> u32 \<Rightarrow> 'a session \<Rightarrow>
        (u32 option \<times> u32 \<times> 'a session) option" and keys api enabled current s out
    assume ih: "\<And>keys api enabled current s out. loop keys api enabled current s = Some out \<Longrightarrow>
        stays_on_items n keys \<longrightarrow> current < n \<longrightarrow> still api s (snd (snd out)) \<and> fst (snd out) < n \<and>
        (\<forall>c. fst out = Some c \<longrightarrow> c = fst (snd out) \<and> enabled ! unat c)"
      and step: "(case wait_for_press api s of None \<Rightarrow> None
       | Some (buttons, s1) \<Rightarrow> let current = keys current buttons in
           if pressed buttons PAD_CROSS \<and> enabled ! unat current then Some (Some current, current, s1)
           else if pressed buttons PAD_TRIANGLE then Some (None, current, s1)
           else loop keys api enabled current s1) = Some out"
      and keys: "stays_on_items n keys" "current < n"
    obtain b s1 where press: "wait_for_press api s = Some (b, s1)" using step by (auto split: option.splits)
    have next_item: "keys current b < n" using keys by (auto simp: stays_on_items_def)
    show "still api s (snd (snd out)) \<and> fst (snd out) < n \<and>
        (\<forall>c. fst out = Some c \<longrightarrow> c = fst (snd out) \<and> enabled ! unat c)"
      using step press still_press [OF press] next_item keys ih [of keys api enabled "keys current b" s1 out]
      by (auto simp: Let_def split: if_splits intro: still_trans)
  qed
  then show ?thesis using assms by simp
qed

lemma small_count: "n \<noteq> 0 \<Longrightarrow> n \<le> 12 \<Longrightarrow> (0 :: u32) < of_nat n \<and> unat (of_nat n :: u32) = n"
  by (simp add: word_less_nat_alt unat_of_nat)

lemma selector_use:
  assumes "selector_loop keys api enabled (if selection < of_nat (length enabled) then selection else 0) s =
      Some (choice, sel, t)"
    and "length enabled \<noteq> 0" "length enabled \<le> 12" and "stays_on_items (of_nat (length enabled)) keys"
  shows "still api s t \<and> (\<forall>c. choice = Some c \<longrightarrow> sel = c \<and> unat c < length enabled \<and> enabled ! unat c)"
proof -
  let ?n = "of_nat (length enabled) :: u32"
  note n = small_count [OF assms(2,3)]
  have "(if selection < ?n then selection else 0) < ?n" using n by simp
  from selector_facts [OF assms(1) this assms(4)] n show ?thesis by (auto simp: word_less_nat_alt)
qed

text \<open>
  Property C34: a menu or the dashboard only ever returns the index of an item that exists and is
  enabled, whatever buttons are pressed, and leaves the selection on an item; while the user chooses,
  neither the disk nor any file is written.
\<close>

theorem selectors_sound:
  assumes "app_ui_menu_select api enabled selection s = Some (choice, sel, t) \<or>
    app_ui_dashboard_select api enabled selection s = Some (choice, sel, t)"
  shows "still api s t \<and> (\<forall>c. choice = Some c \<longrightarrow> sel = c \<and> unat c < length enabled \<and> enabled ! unat c)"
proof (cases "length enabled = 0")
  case True
  then show ?thesis using assms by (auto simp: app_ui_menu_select_def app_ui_dashboard_select_def)
next
  case some: False
  let ?n = "of_nat (length enabled) :: u32"
  show ?thesis
  proof (cases "length enabled \<le> 12")
    case False
    then show ?thesis using assms by (auto simp: app_ui_menu_select_def app_ui_dashboard_select_def)
  next
    case True
    note n = small_count [OF some True]
    from assms show ?thesis
    proof
      assume "app_ui_menu_select api enabled selection s = Some (choice, sel, t)"
      then show ?thesis
        using some True menu_keys_stay [of ?n] n by (intro selector_use) (auto simp: app_ui_menu_select_def)
    next
      assume run: "app_ui_dashboard_select api enabled selection s = Some (choice, sel, t)"
      show ?thesis
      proof (cases "length enabled \<le> 6")
        case False
        then show ?thesis using run some by (auto simp: app_ui_dashboard_select_def)
      next
        case six: True
        then have "?n \<le> 6" using n by (simp add: word_le_nat_alt)
        then have "stays_on_items ?n (dashboard_keys ?n)" using dashboard_keys_stay [of ?n] n by simp
        moreover have "selector_loop (dashboard_keys ?n) api enabled (if selection < ?n then selection else 0) s =
            Some (choice, sel, t)"
          using run some six by (simp add: app_ui_dashboard_select_def)
        ultimately show ?thesis using selector_use [OF _ some True] by blast
      qed
    qed
  qed
qed

text \<open>A controller whose cross is pressed whenever it is asked.\<close>

definition pressing :: "u32 \<Rightarrow> memory platform" where
  "pressing button = memory_platform\<lparr>fx_pad := (\<lambda>m. (button, m))\<rparr>"

lemma pressing_press: "button \<noteq> 0 \<Longrightarrow> wait_for_press (pressing button) s = Some (button, s)"
proof -
  have "poll_pad (pressing button) w = (button, w)" for w
    by (simp add: poll_pad_def pressing_def)
  then show "button \<noteq> 0 \<Longrightarrow> wait_for_press (pressing button) s = Some (button, s)"
    by (simp add: wait_for_press.simps [of "pressing button" s])
qed

theorem selectors_sound_witness:
  "app_ui_menu_select (pressing PAD_CROSS) [False, True] 1 (sample_session 2 (fresh_memory [] 3)) =
      Some (Some 1, 1, sample_session 2 (fresh_memory [] 3)) \<and>
    still (pressing PAD_CROSS) (sample_session 2 (fresh_memory [] 3)) (sample_session 2 (fresh_memory [] 3)) \<and>
    unat (1 :: u32) < length [False, True]"
proof -
  have run: "app_ui_menu_select (pressing PAD_CROSS) [False, True] 1 (sample_session 2 (fresh_memory [] 3)) =
      Some (Some 1, 1, sample_session 2 (fresh_memory [] 3))"
    by (simp add: app_ui_menu_select_def selector_loop.simps [of "menu_keys 2"] pressing_press menu_keys_def
        pressed_def)
  from selectors_sound [OF disjI1 [OF this]] show ?thesis using run by blast
qed

end
