(* ===== verification/HdlManage.thy ===== *)
theory HdlManage
  imports HdlInstall AppMenu
begin

text \<open>
  The HDL screens: deleting an installed game (\<open>src/hdl_tools/transaction.inc\<close>), the list of installed
  games and the root menu (\<open>game_ui.inc\<close>), and the new or interrupted installation
  (\<open>install_ui.inc\<close>).  Text on the screen is left out; every question to the user, every check and
  every call stays.  The lemmas show what has been confirmed and checked before a game is removed or
  an installation starts.
\<close>

section \<open>Deleting an installed game\<close>

definition on_session_option ::
    "('f session \<Rightarrow> ('a \<times> 'f session) option) \<Rightarrow> 'f installer \<Rightarrow> ('a \<times> 'f installer) option" where
  "on_session_option act u = map_option (\<lambda>(r, s). (r, u\<lparr>in_session := s\<rparr>)) (act (in_session u))"

definition journal_blocks_game_delete :: "'f platform \<Rightarrow> byte list \<Rightarrow> 'f file_world \<Rightarrow> int \<times> 'f file_world" where
  "journal_blocks_game_delete api target w =
    (let (old, w1) = path_exists api HDL_INSTALL_JOURNAL w;
         (new, w2) = (if old then (True, w1) else path_exists api HDL_INSTALL_JOURNAL_NEW w1) in
     if \<not> old \<and> \<not> new then (0, w2)
     else let (result, t, w3) = journal_load api unset_transaction w2 in
       (if result < 0 then HDL_INSTALL_JOURNAL_INVALID
        else if txn_stage t \<noteq> STAGE_COMPLETE \<and> array_string (txn_target t) = target then HDL_INSTALL_TARGET_BUSY
        else 0, w3))"

definition verify_game_snapshot :: "'f platform \<Rightarrow> hdl_game_entry \<Rightarrow> u32 \<Rightarrow> 'f session \<Rightarrow> int \<times> 'f session" where
  "verify_game_snapshot api game tot s =
    (let (fits, p) = target_path ''hdd0:'' (game_id game) 64 in
     if game_metadata_state game \<noteq> 0 \<or> fits < 0 then (HDL_INSTALL_TARGET_CHANGED, s)
     else let (result, st, w) = fileXioGetStat api p (se_world s); s1 = s\<lparr>se_world := w\<rparr>;
              lba = game_main_lba game + HDL_METADATA_LBA_OFFSET in
       if result < 0 \<or> st_mode st \<noteq> 0x1337 \<or> st_attr st AND 1 \<noteq> 0 then (HDL_INSTALL_TARGET_CHANGED, s1)
       else if game_main_lba game > - 1 - HDL_METADATA_LBA_OFFSET \<or> lba \<ge> tot \<or> tot - lba < 2
       then (HDL_INSTALL_TARGET_CHANGED, s1)
       else let (r, metadata, s2) = read_raw_now api lba 2 s1 in
         (if r < 0 \<or> fst (hdl_metadata_parse metadata) < 0 \<or>
            info_partition_count (snd (hdl_metadata_parse metadata)) \<noteq> game_apa_partition_count game \<or>
            sha256_buffer metadata \<noteq> game_metadata_sha256 game
          then HDL_INSTALL_TARGET_CHANGED else 0, s2))"

text \<open>The three checks, which run before the question and again after it.\<close>

definition delete_checks :: "'f platform \<Rightarrow> hdl_game_entry \<Rightarrow> u32 \<Rightarrow> 'f installer \<Rightarrow> int \<times> 'f installer" where
  "delete_checks api game tot u =
    (let ((result, maximum, free_sectors), u1) = hdl_transaction_recheck_disk api u;
         (result, u2) = (if result = 0 then on_world (journal_blocks_game_delete api (game_id game)) u1
           else (result, u1)) in
     if result = 0 then on_session (verify_game_snapshot api game tot) u2 else (result, u2))"

definition delete_confirmed :: "'f platform \<Rightarrow> hdl_game_entry \<Rightarrow> u32 \<Rightarrow> 'f installer \<Rightarrow> int \<times> 'f installer" where
  "delete_confirmed api game tot u =
    (let (result, u1) = delete_checks api game tot u in
     if result < 0 then (result, u1)
     else let (fits, p) = target_path ''hdd0:'' (game_id game) 64 in
       if fits < 0 then (HDL_INSTALL_TARGET_CHANGED, u1)
       else let (result, u2) = hdl_status_fileXioRemove api p u1 in
         (if result < 0 then result else 0, in_log [Lit ''HDL game delete target='', Str (game_id game),
           Lit '' startup='', Str (hdl_metadata_info.info_startup (game_metadata game)), Lit '' result='',
           Dec result] u2))"

definition delete_installed_game ::
    "'f platform \<Rightarrow> hdl_game_entry \<Rightarrow> u32 \<Rightarrow> 'f installer \<Rightarrow> (int \<times> 'f installer) option" where
  "delete_installed_game api game tot u =
    (let (result, u1) = delete_checks api game tot u in
     if result < 0 then Some (result, u1)
     else map_option (\<lambda>(yes, u2). if yes then delete_confirmed api game tot u2 else (HDL_INSTALL_CANCELLED, u2))
       (on_session_option (ask_chord api (PAD_L1 OR PAD_R1 OR PAD_SQUARE)) u1))"

section \<open>The installed games\<close>

definition wait_to_return :: "'f platform \<Rightarrow> 'f installer \<Rightarrow> 'f installer option" where
  "wait_to_return api u = map_option (\<lambda>s. u\<lparr>in_session := s\<rparr>) (show_result api (in_session u))"

definition choose_item ::
    "'f platform \<Rightarrow> bool list \<Rightarrow> u32 \<Rightarrow> 'f installer \<Rightarrow> ((u32 option \<times> u32) \<times> 'f installer) option" where
  "choose_item api enabled selected = on_session_option (\<lambda>s.
    map_option (\<lambda>(choice, sel, s1). ((choice, sel), s1)) (app_ui_menu_select api enabled selected s))"

text \<open>The actions on one game: whether it was removed, the entry, and the installer.\<close>

definition delete_enabled :: "hdl_game_entry \<Rightarrow> bool" where
  "delete_enabled game \<longleftrightarrow> game_metadata_state game = 0 \<and>
    info_partition_count (game_metadata game) = game_apa_partition_count game"

partial_function (option) game_action_loop ::
    "'f platform \<Rightarrow> hdl_game_entry \<Rightarrow> u32 \<Rightarrow> u32 \<Rightarrow> 'f installer \<Rightarrow> (bool \<times> 'f installer) option" where
  "game_action_loop api game tot selected u =
    Option.bind (choose_item api [True, delete_enabled game] selected u) (\<lambda>((choice, selected), u1).
      case choice of
        None \<Rightarrow> Some (False, u1)
      | Some c \<Rightarrow>
          if c = 0
          then Option.bind (wait_to_return api u1) (\<lambda>u2. game_action_loop api game tot selected u2)
          else Option.bind (delete_installed_game api game tot u1) (\<lambda>(result, u2).
            if result = HDL_INSTALL_CANCELLED then game_action_loop api game tot selected u2
            else map_option (\<lambda>u3. (result = 0, u3)) (wait_to_return api u2)))"

definition game_action_menu ::
    "'f platform \<Rightarrow> hdl_game_entry \<Rightarrow> u32 \<Rightarrow> 'f installer \<Rightarrow> (bool \<times> hdl_game_entry \<times> 'f installer) option" where
  "game_action_menu api game tot u =
    (let (game, u1) = on_session (\<lambda>s. case load_game_metadata api tot game s of (r, game, s1) \<Rightarrow> (game, s1)) u in
     map_option (\<lambda>(gone, u2). (gone, game, u2)) (game_action_loop api game tot 0 u1))"

definition scan_sorted :: "'f platform \<Rightarrow> 'f installer \<Rightarrow> (int \<times> hdl_catalog) \<times> 'f installer" where
  "scan_sorted api u =
    (let ((result, cat), u1) = on_session (\<lambda>s. case scan_apa_catalog api True s of (r, cat, s1) \<Rightarrow> ((r, cat), s1)) u in
     ((result, if result < 0 then cat else cat\<lparr>cat_games := sort_key game_id (cat_games cat)\<rparr>), u1))"

partial_function (option) installed_games_loop ::
    "'f platform \<Rightarrow> hdl_catalog \<Rightarrow> 'f installer \<Rightarrow> 'f installer option" where
  "installed_games_loop api cat u =
    Option.bind (on_session_option (\<lambda>s. map_option (\<lambda>(choice, cat, s1). ((choice, cat), s1))
        (select_installed_game api cat 0 s)) u) (\<lambda>((choice, cat), u1).
      case choice of
        None \<Rightarrow> Some u1
      | Some c \<Rightarrow> Option.bind (game_action_menu api (cat_games cat ! unat c) (cat_total_sectors cat) u1)
          (\<lambda>(gone, game, u2).
            if gone
            then let ((result, cat), u3) = scan_sorted api u2 in
              if result < 0 then Some u3 else installed_games_loop api cat u3
            else installed_games_loop api (cat\<lparr>cat_games := (cat_games cat)[unat c := game]\<rparr>) u2))"

definition installed_games_menu :: "'f platform \<Rightarrow> 'f installer \<Rightarrow> 'f installer option" where
  "installed_games_menu api u =
    (let ((result, cat), u1) = scan_sorted api u in
     if result < 0 then wait_to_return api u1
     else installed_games_loop api cat (in_log [Lit ''HDL raw catalogue: games='', Uns (length (cat_games cat)),
       Lit '' subs='', Uns (unat (cat_hdl_sub_count cat)), Lit '' expected_subs='',
       Uns (unat (cat_expected_sub_count cat)), Lit '' used='', Uns (unat (cat_used_sectors cat)), Lit '' free='',
       Uns (unat (cat_free_sectors cat)), Lit '' total='', Uns (unat (cat_total_sectors cat))] u1))"

section \<open>A new installation\<close>

definition hdl_status_wait :: "'f platform \<Rightarrow> 'f installer \<Rightarrow> 'f installer option" where
  "hdl_status_wait api u = map_option (\<lambda>s. u\<lparr>in_session := s\<rparr>) (wait_cross api (in_session u))"

definition choose_media_type :: "'f platform \<Rightarrow> u32 \<Rightarrow> 'f installer \<Rightarrow> (u32 option \<times> 'f installer) option" where
  "choose_media_type api suggested u =
    map_option (\<lambda>((choice, selected), u1). (map_option (\<lambda>c. if c = 0 then 0x12 else 0x14) choice, u1))
      (choose_item api [True, True] (if suggested = 0x14 then 1 else 0) u)"

definition planned_transaction :: "path \<Rightarrow> hdl_iso_info \<Rightarrow> hdl_transaction" where
  "planned_transaction p info = \<lparr>txn_stage = STAGE_PLANNED, txn_source_bytes = info_image_bytes info,
    txn_total_sectors = ucast (info_image_sectors info), txn_completed_sectors = 0, txn_partition_count = 0,
    txn_source_fingerprint = replicate 32 0, txn_target = replicate 33 0,
    txn_startup = string_array 60 (hdl_iso_info.info_startup info), txn_source_path = string_array 160 p,
    txn_game_title = string_array 128
      (if info_volume_title info \<noteq> [] then info_volume_title info else info_disc_id info),
    txn_disc_type = hdl_iso_info.info_disc_type info, txn_layer1_start = 0, txn_hdl_compat_flags = 0,
    txn_opl_compat_flags = 0, txn_dma_type = 0, txn_dma_mode = 0\<rparr>"

definition name_and_fingerprint ::
    "'f platform \<Rightarrow> hdl_file_source \<Rightarrow> hdl_iso_info \<Rightarrow> hdl_transaction \<Rightarrow> 'f installer \<Rightarrow>
      (int \<times> hdl_transaction) \<times> 'f installer" where
  "name_and_fingerprint api src info t u =
    (let ((result, target), u1) =
       hdl_install_partition_id (info_disc_id info) (array_string (txn_game_title t)) u;
         t = t\<lparr>txn_target := string_array 33 target\<rparr> in
     if result \<noteq> 0 then ((result, t), u1)
     else let (print, u2) = hdl_install_source_fingerprint api src u1 in
       (case print of Inl e \<Rightarrow> (e, t) | Inr fp \<Rightarrow> (0, t\<lparr>txn_source_fingerprint := fp\<rparr>), u2))"

definition plan_target ::
    "'f platform \<Rightarrow> hdl_transaction \<Rightarrow> 'f installer \<Rightarrow> (int \<times> hdl_transaction) \<times> 'f installer" where
  "plan_target api t u =
    (let ((result, maximum, free_sectors), u1) = hdl_install_recheck_disk api u;
         (result, planned) = (if result = 0
           then hdl_partition_plan_image (txn_source_bytes t) maximum (Some empty_layout)
           else (result, Some empty_layout));
         plan = the planned;
         result = (if result = 0 \<and> layout_allocation_bytes plan div 512 > ucast free_sectors
           then HDL_INSTALL_NO_SPACE else result) in
     if result = 0
     then let t = t\<lparr>txn_partition_count := of_nat (length (layout_slices plan))\<rparr>;
              (found, u2) = hdl_cached_target_exists (array_string (txn_target t)) u1 in
       ((if found then HDL_INSTALL_TARGET_EXISTS else 0, t), u2)
     else ((result, t), u1))"

text \<open>The transaction the user is asked about; \<open>None\<close> if an error was shown or the user went back.\<close>

definition close_source :: "'f platform \<Rightarrow> hdl_file_source \<Rightarrow> 'f installer \<Rightarrow> 'f installer" where
  "close_source api src u = snd (on_world (\<lambda>w. ((), fileXioClose api (src_fd src) w)) u)"

definition shown_error :: "'f platform \<Rightarrow> 'f installer \<Rightarrow> ('a option \<times> 'f installer) option" where
  "shown_error api u = map_option (\<lambda>u1. (None, u1)) (hdl_status_wait api u)"

definition plan_install ::
    "'f platform \<Rightarrow> path \<Rightarrow> hdl_file_source \<Rightarrow> hdl_iso_info \<Rightarrow> 'f installer \<Rightarrow>
      (hdl_transaction option \<times> 'f installer) option" where
  "plan_install api p src info u =
    (let t = planned_transaction p info in
     Option.bind (if info_media_type_confident info then Some (Some (txn_disc_type t), u)
       else choose_media_type api (hdl_iso_info.info_disc_type info) u) (\<lambda>(media, u1).
       case media of
         None \<Rightarrow> Some (None, close_source api src u1)
       | Some m \<Rightarrow>
           let ((result, t), u2) = name_and_fingerprint api src info (t\<lparr>txn_disc_type := m\<rparr>) u1;
               u3 = close_source api src u2 in
           if result < 0 then shown_error api u3
           else let ((result, t), u4) = plan_target api t u3 in
             if result < 0 then shown_error api u4 else Some (Some t, u4)))"

definition inspect_image ::
    "'f platform \<Rightarrow> hdl_image_entry \<Rightarrow> 'f installer \<Rightarrow> (hdl_transaction option \<times> 'f installer) option" where
  "inspect_image api img u =
    (let ((result, src), u1) = hdl_install_open_source api (img_path img) (img_bytes img)
           \<lparr>src_fd = 0, src_bytes = 0\<rparr> u in
     if result < 0 then shown_error api u1
     else Option.bind (hdl_install_iso_probe api src u1) (\<lambda>((result, info), u2).
       if result < 0
       then shown_error api (in_log [Lit ''HDL ISO probe failed path='', Str (img_path img), Lit '' result='', Dec result]
         (close_source api src u2))
       else if info_requires_layer_break info then shown_error api (close_source api src u2)
       else plan_install api (img_path img) src info u2))"

definition begin_new_install ::
    "'f platform \<Rightarrow> 'f directory_calls \<Rightarrow> 'f installer \<Rightarrow> 'f installer option" where
  "begin_new_install api dir u =
    Option.bind (on_session_option (\<lambda>s. map_option (\<lambda>(r, w). (r, s\<lparr>se_world := w\<rparr>))
        (scan_mass_images api dir (se_world s))) u) (\<lambda>(scanned, u1).
    case scanned of
      Inl e \<Rightarrow> hdl_status_wait api (in_log [Lit ''HDL ISO catalogue failed result='', Dec e] u1)
    | Inr images \<Rightarrow>
        Option.bind (on_session_option (select_image api (of_nat (length images)) 0) u1) (\<lambda>(choice, u2).
        case choice of
          None \<Rightarrow> Some u2
        | Some c \<Rightarrow> Option.bind (inspect_image api (images ! unat c) u2) (\<lambda>(planned, u3).
            case planned of
              None \<Rightarrow> Some u3
            | Some t \<Rightarrow>
                Option.bind (on_session_option (ask_chord api (PAD_L1 OR PAD_R1 OR PAD_CROSS)) u3) (\<lambda>(yes, u4).
                if \<not> yes then Some u4
                else let (result, u5) = in_journal_save api t u4 in
                  Option.bind (if result = 0
                    then map_option snd (hdl_execute_transaction_guarded api t u5) else Some u5)
                    (hdl_status_wait api)))))"

section \<open>An interrupted installation\<close>

definition remove_enabled :: "hdl_transaction \<Rightarrow> bool" where
  "remove_enabled t \<longleftrightarrow> txn_stage t \<ge> STAGE_PARTITIONS_CREATED \<and> txn_stage t < STAGE_METADATA_COMMITTED"

definition incomplete_menu :: "'f platform \<Rightarrow> hdl_transaction \<Rightarrow> 'f installer \<Rightarrow> 'f installer option" where
  "incomplete_menu api t u =
    Option.bind (choose_item api [True, remove_enabled t, True] 0 u) (\<lambda>((choice, selected), u1).
      if choice = Some 0
      then Option.bind (hdl_execute_transaction_guarded api t u1) (\<lambda>(r, u2). hdl_status_wait api u2)
      else if choice = Some 1
      then Option.bind (on_session_option (ask_chord api (PAD_L1 OR PAD_R1 OR PAD_SQUARE)) u1) (\<lambda>(yes, u2).
        if \<not> yes then Some u2
        else let (result, u3) = hdl_remove_incomplete_target_journal api (array_string (txn_target t)) u2 in
          hdl_status_wait api
            (if result \<ge> 0 then snd (on_world (\<lambda>w. ((), journal_remove api w)) u3) else u3))
      else Some u1)"

definition journal_here :: "'f platform \<Rightarrow> 'f installer \<Rightarrow> (int \<times> hdl_transaction) \<times> 'f installer" where
  "journal_here api = on_world (\<lambda>w. case journal_load api unset_transaction w of (r, t, w1) \<Rightarrow> ((r, t), w1))"

definition journal_file_here :: "'f platform \<Rightarrow> 'f installer \<Rightarrow> bool \<times> 'f installer" where
  "journal_file_here api u =
    (let (old, u1) = on_world (path_exists api HDL_INSTALL_JOURNAL) u in
     if old then (True, u1) else on_world (path_exists api HDL_INSTALL_JOURNAL_NEW) u1)"

definition open_new_install :: "'f platform \<Rightarrow> 'f directory_calls \<Rightarrow> 'f installer \<Rightarrow> 'f installer option" where
  "open_new_install api dir u =
    (let ((result, t), u1) = journal_here api u in
     if result = 0 \<and> txn_stage t \<noteq> STAGE_COMPLETE then incomplete_menu api t u1
     else let (there, u2) = journal_file_here api u1 in
       if there then hdl_status_wait api u2 else begin_new_install api dir u2)"

definition open_incomplete_transaction :: "'f platform \<Rightarrow> 'f installer \<Rightarrow> 'f installer option" where
  "open_incomplete_transaction api u =
    (let ((result, t), u1) = journal_here api u in
     if result = 0 \<and> txn_stage t \<noteq> STAGE_COMPLETE then incomplete_menu api t u1
     else let (there, u2) = journal_file_here api u1 in hdl_status_wait api u2)"

partial_function (option) hdl_tools_menu ::
    "'f platform \<Rightarrow> 'f directory_calls \<Rightarrow> u32 \<Rightarrow> 'f installer \<Rightarrow> 'f installer option" where
  "hdl_tools_menu api dir selected u =
    Option.bind (choose_item api [True, True, True] selected u) (\<lambda>((choice, selected), u1).
      case choice of
        None \<Rightarrow> Some u1
      | Some c \<Rightarrow> Option.bind (if c = 0 then open_new_install api dir u1
          else if c = 1 then installed_games_menu api u1 else open_incomplete_transaction api u1)
          (hdl_tools_menu api dir selected))"

end
